(* ===== verification/Prelude.thy ===== *)
theory Prelude
  imports Main "HOL-Library.Word"
begin

unbundle bit_operations_syntax

text \<open>
  Shared vocabulary of the development: the machine-integer types of the C sources, little-endian
  byte encoding as the sources spell it (\<^verbatim>\<open>p[0] | p[1] << 8 | ...\<close>), the power-of-two mask
  arithmetic the allocator, the dispatch table and the decoder use, and linear search over a
  fixed array, which is how every handle table of the runtime is looked up.

  The collections \<open>word_model\<close> (translations of C integer expressions to arithmetic on \<open>nat\<close>
  and \<open>int\<close>) and \<open>model_defs\<close> (the definitions of a component that its own proofs unfold)
  are filled by the component theories.
\<close>

named_theorems word_model
named_theorems model_defs

type_synonym u8 = "8 word"
type_synonym u16 = "16 word"
type_synonym u32 = "32 word"
type_synonym u64 = "64 word"

section \<open>Bits\<close>

text \<open>Two words are equal when they agree on every bit below the length.\<close>

lemma word_bitI:
  fixes x y :: "'a::len word"
  assumes "\<And>n. n < LENGTH('a) \<Longrightarrow> bit x n = bit y n"
  shows "x = y"
  using assms by (intro bit_word_eqI) simp

lemma nat_less_cases32:
  "(n::nat) < 32 \<Longrightarrow> n \<in> {0,1,2,3,4,5,6,7,8,9,10,11,12,13,14,15,16,17,18,19,20,21,22,23,24,25,26,27,28,29,30,31}"
  by simp presburger

lemma u32_bitI_cases:
  fixes x y :: u32
  assumes "\<And>n. n \<in> {0,1,2,3,4,5,6,7,8,9,10,11,12,13,14,15,16,17,18,19,20,21,22,23,24,25,26,27,28,29,30,31} \<Longrightarrow>
    bit x n = bit y n"
  shows "x = y"
  using assms nat_less_cases32 by (intro word_bitI) simp

lemma u8_bitI_cases:
  fixes x y :: u8
  assumes "\<And>n. n \<in> {0,1,2,3,4,5,6,7} \<Longrightarrow> bit x n = bit y n"
  shows "x = y"
proof (rule word_bitI)
  fix n assume "n < LENGTH(8)"
  then have "n \<in> {0,1,2,3,4,5,6,7}" by simp presburger
  then show "bit x n = bit y n" by (rule assms)
qed

lemma and_mask_unat:
  fixes w :: "'a::len word"
  shows "unat (w AND mask n) = unat w mod 2 ^ n"
  by (simp add: take_bit_eq_mask [symmetric] unsigned_take_bit_eq) (simp add: take_bit_eq_mod)

lemma unat_and_le_left:
  fixes x y :: "'a::len word"
  shows "unat (x AND y) \<le> unat y"
  by (metis word_and_le1 word_le_nat_alt)

lemma unat_u32_less: "unat (w :: u32) < 4294967296"
  using unsigned_less [where ?'a = nat and w = w] by simp

lemma unat_of_nat_u32: "n < 4294967296 \<Longrightarrow> unat (of_nat n :: u32) = n"
  by (simp add: unat_of_nat take_bit_eq_mod)

section \<open>Little-endian byte encoding\<close>

text \<open>
  \<open>bytes_of_word n w\<close> is the \<open>n\<close> low bytes of \<open>w\<close> in memory order, what a \<^verbatim>\<open>memcpy\<close> from a
  little-endian host integer stores; \<open>word_of_bytes\<close> is the inverse.
\<close>

definition bytes_of_word :: "nat \<Rightarrow> 'a::len word \<Rightarrow> u8 list" where
  "bytes_of_word n w = map (\<lambda>i. ucast (drop_bit (8 * i) w)) [0..<n]"

primrec word_of_bytes :: "u8 list \<Rightarrow> 'a::len word" where
  "word_of_bytes [] = 0"
| "word_of_bytes (b # bs) = (ucast b OR push_bit 8 (word_of_bytes bs))"

lemma length_bytes_of_word [simp]: "length (bytes_of_word n w) = n"
  by (simp add: bytes_of_word_def)

lemma nth_bytes_of_word [simp]:
  "i < n \<Longrightarrow> bytes_of_word n w ! i = ucast (drop_bit (8 * i) w)"
  by (simp add: bytes_of_word_def)

lemma word_of_bytes_zeros [simp]: "word_of_bytes (replicate n 0) = 0"
  by (induction n) simp_all

lemma bytes_of_word_4:
  "bytes_of_word 4 w = [ucast w, ucast (drop_bit 8 w), ucast (drop_bit 16 w), ucast (drop_bit 24 w)]"
  by (simp add: bytes_of_word_def numeral_eq_Suc)

lemma bit_word_of_bytes:
  "bit (word_of_bytes bs :: 'a::len word) k \<longleftrightarrow>
     k < LENGTH('a) \<and> k div 8 < length bs \<and> bit (bs ! (k div 8)) (k mod 8)"
proof (induction bs arbitrary: k)
  case Nil
  then show ?case by simp
next
  case (Cons b bs)
  show ?case
  proof (cases "k < 8")
    case True
    then show ?thesis by (auto simp: bit_simps)
  next
    case False
    then have d: "k div 8 = Suc ((k - 8) div 8)" "(k - 8) mod 8 = k mod 8"
      by (simp_all add: le_div_geq le_mod_geq)
    have "\<not> bit b k"
      using False bit_imp_le_length [of b k] by auto
    then show ?thesis
      using False d Cons.IH [of "k - 8"] by (auto simp: bit_simps)
  qed
qed


lemma word_of_bytes_of_word:
  fixes w :: "'a::len word"
  assumes "LENGTH('a) \<le> 8 * n"
  shows "(word_of_bytes (bytes_of_word n w) :: 'a word) = w"
proof (rule word_bitI)
  fix k assume k: "k < LENGTH('a)"
  with assms have "k div 8 < n" by auto
  moreover have "8 * (k div 8) + k mod 8 = k" by simp
  ultimately show "bit (word_of_bytes (bytes_of_word n w) :: 'a word) k = bit w k"
    using k by (simp add: bit_word_of_bytes bit_simps)
qed

lemma bytes_of_word_of_bytes:
  assumes "length bs = n" and "8 * n \<le> LENGTH('a)"
  shows "bytes_of_word n (word_of_bytes bs :: 'a::len word) = bs"
proof (rule nth_equalityI)
  fix i assume i: "i < length (bytes_of_word n (word_of_bytes bs :: 'a word))"
  show "bytes_of_word n (word_of_bytes bs :: 'a word) ! i = bs ! i"
  proof (rule word_bitI)
    fix k assume k: "k < LENGTH(8)"
    then have "(8 * i + k) div 8 = i" "(8 * i + k) mod 8 = k" by simp_all
    moreover have "8 * i + k < LENGTH('a)"
      using i k assms(2) by simp
    ultimately show "bit (bytes_of_word n (word_of_bytes bs :: 'a word) ! i) k = bit (bs ! i) k"
      using i k assms(1) by (simp add: bit_word_of_bytes bit_simps)
  qed
qed (simp add: assms)

section \<open>Linear search over a table\<close>

text \<open>
  \<^verbatim>\<open>for (i = 0; i < N; i++) if (P(table[i])) return i;\<close> is the lookup of every fixed-size
  handle table (memory blocks, open files, firmware entries). \<open>None\<close> is falling off the loop.
\<close>

primrec find_index :: "('a \<Rightarrow> bool) \<Rightarrow> 'a list \<Rightarrow> nat option" where
  "find_index P [] = None"
| "find_index P (x # xs) = (if P x then Some 0 else map_option Suc (find_index P xs))"

lemma find_index_None_iff: "find_index P xs = None \<longleftrightarrow> (\<forall>x\<in>set xs. \<not> P x)"
  by (induction xs) auto

lemma find_index_SomeD:
  "find_index P xs = Some i \<Longrightarrow> i < length xs \<and> P (xs ! i) \<and> (\<forall>j<i. \<not> P (xs ! j))"
proof (induction xs arbitrary: i)
  case Nil
  then show ?case by simp
next
  case (Cons x xs)
  show ?case
  proof (cases "P x")
    case True
    with Cons.prems show ?thesis by simp
  next
    case False
    with Cons.prems obtain k where k: "find_index P xs = Some k" "i = Suc k" by auto
    with Cons.IH [of k] False show ?thesis by (auto simp: nth_Cons split: nat.splits)
  qed
qed

lemma find_index_SomeI:
  assumes "i < length xs" and "P (xs ! i)" and "\<And>j. j < i \<Longrightarrow> \<not> P (xs ! j)"
  shows "find_index P xs = Some i"
proof (cases "find_index P xs")
  case None
  with assms show ?thesis by (auto simp: find_index_None_iff)
next
  case (Some k)
  note D = find_index_SomeD [OF Some]
  have "\<not> k < i" using D assms(3) by blast
  moreover have "\<not> i < k" using D assms(2) by blast
  ultimately show ?thesis using Some by simp
qed

lemma find_index_update_None:
  "find_index P xs = None \<Longrightarrow> \<not> P y \<Longrightarrow> find_index P (xs[i := y]) = None"
  by (auto simp: find_index_None_iff dest!: subsetD [OF set_update_subset_insert])

text \<open>A table kept in an array and searched from the front, as the map it represents.\<close>

lemma map_of_find_index:
  "map_of (map (\<lambda>x. (k x, v x)) xs) a = map_option (\<lambda>i. v (xs ! i)) (find_index (\<lambda>x. k x = a) xs)"
  by (induction xs) (auto simp: option.map_comp comp_def)

lemma map_of_list_update:
  "i < length xs \<Longrightarrow> distinct (map fst xs) \<Longrightarrow> fst (xs ! i) = a \<Longrightarrow>
     map_of (xs[i := (a, v)]) = (map_of xs)(a \<mapsto> v)"
proof (induction xs arbitrary: i)
  case (Cons x xs)
  then show ?case
    by (cases x; cases i) (auto simp: fun_eq_iff nth_mem)
qed simp

text \<open>The power-of-two test \<open>x & (x - 1) == 0\<close>.\<close>

lemma and_dec_nat:
  assumes "(x :: nat) \<noteq> 0" and "and x (x - 1) = 0"
  shows "\<exists>k. x = 2 ^ k"
  using assms
proof (induction x rule: less_induct)
  case (less x)
  show ?case
  proof (cases "even x")
    case True
    then obtain y where y: "x = 2 * y" by blast
    have "y \<noteq> 0" using less.prems y by simp
    have x1: "x - 1 = Suc (2 * (y - 1))" using y \<open>y \<noteq> 0\<close> by simp
    have "and x (x - 1) = 2 * and y (y - 1)"
      unfolding x1 unfolding y by (subst and_rec) simp
    then have "and y (y - 1) = 0" using less.prems by simp
    with less.IH [of y] y \<open>y \<noteq> 0\<close> obtain k where "y = 2 ^ k" by auto
    then show ?thesis using y by (metis power_Suc)
  next
    case False
    then obtain y where y: "x = Suc (2 * y)" by (metis oddE Suc_eq_plus1)
    have "and x (x - 1) = 2 * y" unfolding y by (subst and_rec) simp
    then have "y = 0" using less.prems by simp
    then show ?thesis using y by (metis One_nat_def mult_0_right power_0)
  qed
qed

lemma and_dec_word:
  assumes "(x :: u32) \<noteq> 0" and "and x (x - 1) = 0"
  shows "\<exists>k<32. x = 2 ^ k"
proof -
  have x0: "unat x \<noteq> 0" using assms(1) by (simp add: unat_eq_0)
  have "unat (x - 1) = unat x - 1" using x0 by (subst unat_sub) (simp_all add: word_le_nat_alt)
  then have "and (unat x) (unat x - 1) = 0" using assms(2) by (metis unsigned_and_eq unsigned_0)
  then obtain k where k: "unat x = 2 ^ k" using and_dec_nat [OF x0] by blast
  have "(2 :: nat) ^ k < 2 ^ 32" using unat_u32_less [of x] k by simp
  then have "k < 32" by (rule power_less_imp_less_exp [rotated]) simp
  moreover have "x = 2 ^ k" using k by (metis of_nat_numeral of_nat_power of_nat_unat ucast_id)
  ultimately show ?thesis by blast
qed

end
