(* ===== verification/Machine.thy ===== *)
theory Machine
  imports Prelude
begin

unbundle bit_operations_syntax

text \<open>
  The machine a recompiled program runs on: the Allegrex register file
  (\<^verbatim>\<open>include/psprecomp/cpu.h\<close>, \<^verbatim>\<open>src/cpu.c\<close>), the backing store and its diagnostic counters
  (\<^verbatim>\<open>include/psprecomp/mem.h\<close>, the globals of \<^verbatim>\<open>src/mem.c\<close>), the function-entry trace of
  \<^verbatim>\<open>src/dispatch.c\<close>, which the memory layer reads when it reports who touched a word, and the
  trap counters of \<^verbatim>\<open>src/traps.c\<close>.

  Floating-point registers are kept as their IEEE bit patterns (a \<^verbatim>\<open>float\<close> register is what
  \<^verbatim>\<open>mtc1\<close> stored in it). The chain of \<^verbatim>\<open>psp_frame\<close> nodes, which live on the host stack, is the
  list of their return sites, innermost first. The arrays \<^verbatim>\<open>r\<close>, \<^verbatim>\<open>f\<close> and \<^verbatim>\<open>v\<close> are the fields \<open>gpr\<close>,
  \<open>fpr\<close> and \<open>vreg\<close>. Messages printed on \<^verbatim>\<open>stderr\<close> are not part of the
  state; the counters that bound them are.
\<close>

section \<open>Register file (cpu.h, cpu.c)\<close>

abbreviation (input) PSP_REG_ZERO :: nat where "PSP_REG_ZERO \<equiv> 0"
abbreviation (input) PSP_REG_V0 :: nat where "PSP_REG_V0 \<equiv> 2"
abbreviation (input) PSP_REG_V1 :: nat where "PSP_REG_V1 \<equiv> 3"
abbreviation (input) PSP_REG_A0 :: nat where "PSP_REG_A0 \<equiv> 4"
abbreviation (input) PSP_REG_A1 :: nat where "PSP_REG_A1 \<equiv> 5"
abbreviation (input) PSP_REG_T0 :: nat where "PSP_REG_T0 \<equiv> 8"
abbreviation (input) PSP_REG_GP :: nat where "PSP_REG_GP \<equiv> 28"
abbreviation (input) PSP_REG_SP :: nat where "PSP_REG_SP \<equiv> 29"
abbreviation (input) PSP_REG_RA :: nat where "PSP_REG_RA \<equiv> 31"
abbreviation (input) PSP_NUM_GPR :: nat where "PSP_NUM_GPR \<equiv> 32"

record psp_cpu_state =
  gpr :: "u32 list"
  hi :: u32
  lo :: u32
  pc :: u32
  fpr :: "u32 list"
  fcr31 :: u32
  vreg :: "u32 list"
  vfpu_cc :: u32
  frame :: "u32 list"
  unwind :: u32

definition psp_cpu_reset :: psp_cpu_state where
  "psp_cpu_reset = \<lparr>gpr = replicate PSP_NUM_GPR 0, hi = 0, lo = 0, pc = 0, fpr = replicate 32 0,
     fcr31 = 0, vreg = replicate 128 0, vfpu_cc = 0, frame = [], unwind = 0\<rparr>"

definition psp_reg_names :: "string list" where
  "psp_reg_names =
    [''zero'',''at'',''v0'',''v1'',''a0'',''a1'',''a2'',''a3'',
     ''t0'',''t1'',''t2'',''t3'',''t4'',''t5'',''t6'',''t7'',
     ''s0'',''s1'',''s2'',''s3'',''s4'',''s5'',''s6'',''s7'',
     ''t8'',''t9'',''k0'',''k1'',''gp'',''sp'',''fp'',''ra'']"

text \<open>
  \<^verbatim>\<open>psp_set_reg\<close>: indices come from five-bit instruction fields, so they are below 32; writing
  outside the array is undefined in C and changes nothing here.
\<close>

definition psp_set_reg :: "u32 \<Rightarrow> u32 \<Rightarrow> psp_cpu_state \<Rightarrow> psp_cpu_state" where
  "psp_set_reg idx val c =
     (if idx \<noteq> 0 then c\<lparr>gpr := (gpr c)[unat idx := val]\<rparr> else c)"

definition PSP_FCR31_C :: u32 where
  "PSP_FCR31_C = push_bit 23 1"

definition psp_fpu_cond :: "psp_cpu_state \<Rightarrow> bool" where
  "psp_fpu_cond c \<longleftrightarrow> (fcr31 c AND PSP_FCR31_C) \<noteq> 0"

definition psp_fpu_set_cond :: "bool \<Rightarrow> psp_cpu_state \<Rightarrow> psp_cpu_state" where
  "psp_fpu_set_cond b c =
     c\<lparr>fcr31 := (if b then fcr31 c OR PSP_FCR31_C else fcr31 c AND NOT PSP_FCR31_C)\<rparr>"

text \<open>The shape every register file of the runtime has: the array extents, and \<^verbatim>\<open>$zero\<close> is zero.\<close>

definition cpu_wf :: "psp_cpu_state \<Rightarrow> bool" where
  "cpu_wf c \<longleftrightarrow> length (gpr c) = 32 \<and> length (fpr c) = 32 \<and> length (vreg c) = 128 \<and> gpr c ! 0 = 0"

lemma cpu_wf_reset [simp]: "cpu_wf psp_cpu_reset"
  by (simp add: cpu_wf_def psp_cpu_reset_def)

lemma cpu_wf_set_reg: "cpu_wf c \<Longrightarrow> cpu_wf (psp_set_reg i x c)"
  by (auto simp: cpu_wf_def psp_set_reg_def nth_list_update unat_eq_0)

lemma bit_PSP_FCR31_C: "bit PSP_FCR31_C n \<longleftrightarrow> n = 23"
  unfolding PSP_FCR31_C_def bit_push_bit_iff by (auto simp: bit_1_iff)

lemma bit_fcr31_c: "psp_fpu_cond c \<longleftrightarrow> bit (fcr31 c) 23"
  by (auto simp: psp_fpu_cond_def bit_eq_iff [where ?'a = "32 word"] bit_and_iff bit_PSP_FCR31_C)

lemma fpu_cond_set: "psp_fpu_cond (psp_fpu_set_cond b c) = b"
  by (simp add: bit_fcr31_c psp_fpu_set_cond_def bit_PSP_FCR31_C bit_and_iff bit_or_iff bit_not_iff)

section \<open>Backing store (mem.h, mem.c)\<close>

abbreviation (input) PSP_ADDR_MASK :: u32 where "PSP_ADDR_MASK \<equiv> 0x3FFFFFFF"
abbreviation (input) PSP_SCRATCH_BASE :: u32 where "PSP_SCRATCH_BASE \<equiv> 0x00010000"
abbreviation (input) PSP_SCRATCH_SIZE :: u32 where "PSP_SCRATCH_SIZE \<equiv> 0x00004000"
abbreviation (input) PSP_VRAM_BASE :: u32 where "PSP_VRAM_BASE \<equiv> 0x04000000"
abbreviation (input) PSP_VRAM_SIZE :: u32 where "PSP_VRAM_SIZE \<equiv> 0x00200000"
abbreviation (input) PSP_RAM_BASE :: u32 where "PSP_RAM_BASE \<equiv> 0x08000000"
abbreviation (input) PSP_RAM_SIZE :: u32 where "PSP_RAM_SIZE \<equiv> 0x02000000"

text \<open>
  Each \<^verbatim>\<open>calloc\<close>ed block is a function from offsets to bytes together with its extent (fixed for
  the three console regions, \<open>module_size\<close> for the image of a relocatable module). A host pointer
  into one of them is the block and an offset.
\<close>

datatype region = Ram | Vram | Scratch | ModuleImage

type_synonym host_ptr = "region \<times> nat"

record psp_memory =
  store :: "region \<Rightarrow> nat \<Rightarrow> u8"
  module_base :: u32
  module_size :: u32
  bad_accesses :: u64
  wwatch :: u32
  whits :: u32
  rwatch :: u32
  rfns :: "u32 list"

definition region_size :: "psp_memory \<Rightarrow> region \<Rightarrow> nat" where
  "region_size m rg = (case rg of Ram \<Rightarrow> unat PSP_RAM_SIZE | Vram \<Rightarrow> unat PSP_VRAM_SIZE
     | Scratch \<Rightarrow> unat PSP_SCRATCH_SIZE | ModuleImage \<Rightarrow> unat (module_size m))"

section \<open>Function-entry trace (dispatch.c) and traps (traps.c)\<close>

abbreviation (input) TRACE_DEPTH :: nat where "TRACE_DEPTH \<equiv> 4096"

text \<open>
  \<^verbatim>\<open>g_watch_fn\<close> is a hook the host installs; what it does to the trace is the argument \<open>watch_fn\<close>
  (\<open>None\<close> is the null pointer).
\<close>

record psp_trace =
  ring :: "nat \<Rightarrow> u32"
  trace_n :: u64
  watch_addr :: u32

definition psp_trace_watch :: "u32 \<Rightarrow> psp_trace \<Rightarrow> psp_trace" where
  "psp_trace_watch addr t = t\<lparr>watch_addr := addr\<rparr>"

definition psp_trace_enter ::
  "(u32 \<Rightarrow> psp_trace \<Rightarrow> psp_trace) option \<Rightarrow> u32 \<Rightarrow> psp_trace \<Rightarrow> psp_trace" where
  "psp_trace_enter watch_fn addr t0 =
     (let t = (case watch_fn of None \<Rightarrow> t0
               | Some g \<Rightarrow> if addr = watch_addr t0 then g addr t0 else t0)
      in t\<lparr>ring := (ring t)(unat (trace_n t) mod TRACE_DEPTH := addr),
           trace_n := trace_n t + 1\<rparr>)"

definition psp_trace_reset :: "psp_trace \<Rightarrow> psp_trace" where
  "psp_trace_reset t = t\<lparr>trace_n := 0\<rparr>"

definition psp_trace_last :: "psp_trace \<Rightarrow> u32" where
  "psp_trace_last t =
     (if trace_n t \<noteq> 0 then ring t (unat (trace_n t - 1) mod TRACE_DEPTH) else 0)"

text \<open>
  \<^verbatim>\<open>psp_trace_dump\<close> lists the newest \<open>min n TRACE_DEPTH\<close> entries, newest first: entry \<open>i\<close>
  (from 1) is slot \<open>(n - i) mod TRACE_DEPTH\<close>.
\<close>

definition psp_trace_dump :: "psp_trace \<Rightarrow> u32 list" where
  "psp_trace_dump t =
     (let n = (if unat (trace_n t) < TRACE_DEPTH then unat (trace_n t) else TRACE_DEPTH)
      in map (\<lambda>i. ring t (unat (trace_n t - of_nat i) mod TRACE_DEPTH)) [1..<Suc n])"

record psp_traps =
  syscall_total :: u64
  unimplemented_total :: u64
  syscall_logged :: u32
  unimplemented_logged :: u32

abbreviation (input) PSP_TRAP_LOGGED :: u32 where "PSP_TRAP_LOGGED \<equiv> 8"

definition psp_syscall :: "psp_traps \<Rightarrow> psp_traps" where
  "psp_syscall t =
     (let t' = (if syscall_logged t < PSP_TRAP_LOGGED
                then t\<lparr>syscall_logged := syscall_logged t + 1\<rparr> else t)
      in t'\<lparr>syscall_total := syscall_total t' + 1\<rparr>)"

definition psp_unimplemented :: "psp_traps \<Rightarrow> psp_traps" where
  "psp_unimplemented t =
     (let t' = (if unimplemented_logged t < PSP_TRAP_LOGGED
                then t\<lparr>unimplemented_logged := unimplemented_logged t + 1\<rparr> else t)
      in t'\<lparr>unimplemented_total := unimplemented_total t' + 1\<rparr>)"

definition psp_trap_reset :: "psp_traps \<Rightarrow> psp_traps" where
  "psp_trap_reset t =
     t\<lparr>syscall_total := 0, unimplemented_total := 0, syscall_logged := 0, unimplemented_logged := 0\<rparr>"

section \<open>The machine\<close>

record psp_machine =
  cpu :: psp_cpu_state
  mem :: psp_memory
  trace :: psp_trace

text \<open>\<^verbatim>\<open>psp_ret\<close> of \<^verbatim>\<open>include/psprecomp/hle.h\<close>: the o32 return value.\<close>

definition psp_ret :: "u32 \<Rightarrow> psp_machine \<Rightarrow> psp_machine" where
  "psp_ret x M = M\<lparr>cpu := (cpu M)\<lparr>gpr := (gpr (cpu M))[PSP_REG_V0 := x]\<rparr>\<rparr>"

lemma psp_ret_frame [simp]:
  "mem (psp_ret x M) = mem M" "trace (psp_ret x M) = trace M"
  by (simp_all add: psp_ret_def)

lemma psp_ret_v0: "length (gpr (cpu M)) = 32 \<Longrightarrow> gpr (cpu (psp_ret x M)) ! 2 = x"
  by (simp add: psp_ret_def)

end
