(* ===== verification/Mem.thy ===== *)
theory Mem
  imports Machine
begin

unbundle bit_operations_syntax

text \<open>
  The guest memory map, \<^verbatim>\<open>src/mem.c\<close>: address resolution with the cache mirrors folded together
  (\<open>psp_mem_ptr\<close>), the counted handling of unmapped accesses, the read and write watches, the
  typed accessors generated by \<^verbatim>\<open>READ_BODY\<close> and \<^verbatim>\<open>WRITE_BODY\<close>, and the bulk copies of the loader.

  The lemmas show that resolution stays inside the backing block for every access width the
  runtime uses, that the accessors are a store (a read returns the last value written through any
  mirror, and disjoint bytes are untouched), and the locale \<open>byte_store\<close> states that contract for
  the components that fill and read guest memory byte by byte.
\<close>

section \<open>Diagnostics\<close>

definition psp_mem_watch_write :: "u32 \<Rightarrow> psp_memory \<Rightarrow> psp_memory" where
  "psp_mem_watch_write addr m = m\<lparr>wwatch := addr, whits := 0\<rparr>"

definition psp_mem_watch_hits :: "psp_memory \<Rightarrow> u32" where
  "psp_mem_watch_hits m = whits m"

definition note_write :: "u32 \<Rightarrow> u32 \<Rightarrow> psp_memory \<Rightarrow> psp_memory" where
  "note_write addr width m =
     (if wwatch m = 0 \<or> addr + width \<le> wwatch m \<or> addr > wwatch m then m
      else m\<lparr>whits := whits m + 1\<rparr>)"

definition psp_mem_watch_read :: "u32 \<Rightarrow> psp_memory \<Rightarrow> psp_memory" where
  "psp_mem_watch_read addr m = m\<lparr>rwatch := addr, rfns := []\<rparr>"

text \<open>\<open>fn\<close> is the result of \<^verbatim>\<open>psp_trace_last()\<close>; \<^verbatim>\<open>g_rfn_n\<close> is the length of \<open>rfns\<close>.\<close>

definition note_read :: "u32 \<Rightarrow> u32 \<Rightarrow> u32 \<Rightarrow> psp_memory \<Rightarrow> psp_memory" where
  "note_read fn addr width m =
     (if rwatch m = 0 \<or> addr + width \<le> rwatch m \<or> addr > rwatch m then m
      else if fn \<in> set (rfns m) then m
      else if length (rfns m) < 16 then m\<lparr>rfns := rfns m @ [fn]\<rparr>
      else m)"

definition bad_access :: "psp_memory \<Rightarrow> psp_memory" where
  "bad_access m = m\<lparr>bad_accesses := bad_accesses m + 1\<rparr>"

section \<open>Life cycle\<close>

text \<open>
  \<open>psp_mem_init\<close> takes whether each of the three \<^verbatim>\<open>calloc\<close> calls returned memory: on failure
  everything is released and the result is \<open>-1\<close>, on success the blocks are zero. \<open>None\<close> is the
  state with null pointers. The module mapping and the watches are separate globals it keeps.
\<close>

definition zero_store :: "region \<Rightarrow> nat \<Rightarrow> u8" where
  "zero_store rg off = 0"

definition psp_mem_init :: "bool \<Rightarrow> bool \<Rightarrow> bool \<Rightarrow> psp_memory \<Rightarrow> int \<times> psp_memory option" where
  "psp_mem_init ram_ok vram_ok scratch_ok m =
     (if \<not> ram_ok \<or> \<not> vram_ok \<or> \<not> scratch_ok then (-1, None)
      else (0, Some (m\<lparr>store := (zero_store(ModuleImage := store m ModuleImage)),
                       bad_accesses := 0\<rparr>)))"

definition psp_mem_map_module :: "bool \<Rightarrow> u32 \<Rightarrow> u32 \<Rightarrow> psp_memory \<Rightarrow> int \<times> psp_memory" where
  "psp_mem_map_module alloc_ok base sz m =
     (if \<not> alloc_ok then (-1, m\<lparr>module_size := 0\<rparr>)
      else (0, m\<lparr>store := (store m)(ModuleImage := (\<lambda>_. 0)), module_base := base,
                 module_size := sz\<rparr>))"

section \<open>Address resolution\<close>

definition psp_mem_ptr :: "psp_memory \<Rightarrow> u32 \<Rightarrow> u32 \<Rightarrow> host_ptr option" where
  "psp_mem_ptr m addr sz =
     (let a = addr AND PSP_ADDR_MASK in
      if module_size m \<noteq> 0 \<and> a \<ge> module_base m \<and> a < module_base m + module_size m then
        (let off = a - module_base m in
         if off + sz > module_size m then None else Some (ModuleImage, unat off))
      else if a \<ge> PSP_RAM_BASE \<and> a < PSP_RAM_BASE + PSP_RAM_SIZE then
        (let off = a - PSP_RAM_BASE in
         if off + sz > PSP_RAM_SIZE then None else Some (Ram, unat off))
      else if a \<ge> PSP_VRAM_BASE \<and> a < PSP_VRAM_BASE + PSP_VRAM_SIZE then
        (let off = a - PSP_VRAM_BASE in
         if off + sz > PSP_VRAM_SIZE then None else Some (Vram, unat off))
      else if a \<ge> PSP_SCRATCH_BASE \<and> a < PSP_SCRATCH_BASE + PSP_SCRATCH_SIZE then
        (let off = a - PSP_SCRATCH_BASE in
         if off + sz > PSP_SCRATCH_SIZE then None else Some (Scratch, unat off))
      else None)"

text \<open>\<^verbatim>\<open>memcpy\<close> from and to a resolved pointer.\<close>

definition load_bytes :: "psp_memory \<Rightarrow> host_ptr \<Rightarrow> nat \<Rightarrow> u8 list" where
  "load_bytes m p n = map (\<lambda>i. store m (fst p) (snd p + i)) [0..<n]"

definition store_bytes :: "host_ptr \<Rightarrow> u8 list \<Rightarrow> psp_memory \<Rightarrow> psp_memory" where
  "store_bytes p bs m =
     m\<lparr>store := (store m)(fst p := (\<lambda>o'. if snd p \<le> o' \<and> o' < snd p + length bs
                                      then bs ! (o' - snd p) else store m (fst p) o'))\<rparr>"

section \<open>Typed accessors\<close>

definition read_body :: "nat \<Rightarrow> u32 \<Rightarrow> psp_machine \<Rightarrow> u8 list \<times> psp_machine" where
  "read_body n addr M =
     (case psp_mem_ptr (mem M) addr (of_nat n) of
        None \<Rightarrow> (replicate n 0, M\<lparr>mem := bad_access (mem M)\<rparr>)
      | Some p \<Rightarrow> (load_bytes (mem M) p n,
          M\<lparr>mem := note_read (psp_trace_last (trace M)) addr (of_nat n) (mem M)\<rparr>))"

definition write_body :: "u32 \<Rightarrow> u8 list \<Rightarrow> psp_machine \<Rightarrow> psp_machine" where
  "write_body addr bs M =
     (case psp_mem_ptr (mem M) addr (of_nat (length bs)) of
        None \<Rightarrow> M\<lparr>mem := bad_access (mem M)\<rparr>
      | Some p \<Rightarrow> M\<lparr>mem := store_bytes p bs (note_write addr (of_nat (length bs)) (mem M))\<rparr>)"

definition psp_read8 :: "u32 \<Rightarrow> psp_machine \<Rightarrow> u8 \<times> psp_machine" where
  "psp_read8 addr M = apfst word_of_bytes (read_body 1 addr M)"

definition psp_read16 :: "u32 \<Rightarrow> psp_machine \<Rightarrow> u16 \<times> psp_machine" where
  "psp_read16 addr M = apfst word_of_bytes (read_body 2 addr M)"

definition psp_read32 :: "u32 \<Rightarrow> psp_machine \<Rightarrow> u32 \<times> psp_machine" where
  "psp_read32 addr M = apfst word_of_bytes (read_body 4 addr M)"

text \<open>A \<^verbatim>\<open>float\<close> is its bit pattern, so the float accessors move the same four bytes.\<close>

definition psp_read_f32 :: "u32 \<Rightarrow> psp_machine \<Rightarrow> u32 \<times> psp_machine" where
  "psp_read_f32 addr M = apfst word_of_bytes (read_body 4 addr M)"

definition psp_write8 :: "u32 \<Rightarrow> u8 \<Rightarrow> psp_machine \<Rightarrow> psp_machine" where
  "psp_write8 addr val M = write_body addr (bytes_of_word 1 val) M"

definition psp_write16 :: "u32 \<Rightarrow> u16 \<Rightarrow> psp_machine \<Rightarrow> psp_machine" where
  "psp_write16 addr val M = write_body addr (bytes_of_word 2 val) M"

definition psp_write32 :: "u32 \<Rightarrow> u32 \<Rightarrow> psp_machine \<Rightarrow> psp_machine" where
  "psp_write32 addr val M = write_body addr (bytes_of_word 4 val) M"

definition psp_write_f32 :: "u32 \<Rightarrow> u32 \<Rightarrow> psp_machine \<Rightarrow> psp_machine" where
  "psp_write_f32 addr val M = write_body addr (bytes_of_word 4 val) M"

text \<open>
  The bulk copies. \<open>len\<close> is the C argument; the source buffer holds at least \<open>len\<close> bytes. Where
  \<open>psp_mem_ptr\<close> accepts a pointer whose extent leaves the block the C \<^verbatim>\<open>memcpy\<close> is undefined; see
  \<open>psp_mem_ptr_in_bounds\<close> for when that cannot happen.
\<close>

definition psp_mem_write_block :: "u32 \<Rightarrow> u8 list \<Rightarrow> u32 \<Rightarrow> psp_memory \<Rightarrow> int \<times> psp_memory" where
  "psp_mem_write_block addr src len m =
     (case psp_mem_ptr m addr len of
        None \<Rightarrow> (-1, m)
      | Some p \<Rightarrow> (0, store_bytes p (take (unat len) src) m))"

definition psp_mem_read_block :: "u32 \<Rightarrow> u32 \<Rightarrow> psp_memory \<Rightarrow> int \<times> u8 list" where
  "psp_mem_read_block addr len m =
     (case psp_mem_ptr m addr len of
        None \<Rightarrow> (-1, [])
      | Some p \<Rightarrow> (0, load_bytes m p (unat len)))"

lemmas mem_defs = psp_read8_def psp_read16_def psp_read32_def psp_read_f32_def
  psp_write8_def psp_write16_def psp_write32_def psp_write_f32_def


section \<open>Resolution\<close>

definition region_base :: "psp_memory \<Rightarrow> region \<Rightarrow> u32" where
  "region_base m rg = (case rg of Ram \<Rightarrow> PSP_RAM_BASE | Vram \<Rightarrow> PSP_VRAM_BASE
     | Scratch \<Rightarrow> PSP_SCRATCH_BASE | ModuleImage \<Rightarrow> module_base m)"

text \<open>The canonical address: the address with the mirror bits removed.\<close>

definition canon :: "u32 \<Rightarrow> nat" where
  "canon addr = unat (addr AND PSP_ADDR_MASK)"

lemma canon_mod: "canon addr = unat addr mod 2 ^ 30"
proof -
  have "PSP_ADDR_MASK = (mask 30 :: u32)" by (simp add: mask_eq_exp_minus_1)
  then show ?thesis unfolding canon_def by (simp only: and_mask_unat)
qed

lemma canon_less: "canon addr < 2 ^ 30"
  by (simp add: canon_mod)

lemma offset_in_window:
  fixes a base ext :: u32
  assumes "base \<le> a" and "a < base + ext"
  shows "unat a = unat base + unat (a - base)" and "unat (a - base) < unat ext"
proof -
  from assms(1) have s: "unat (a - base) = unat a - unat base" by (rule unat_sub)
  from assms(1) have le: "unat base \<le> unat a" by (simp add: word_le_nat_alt)
  from s le show "unat a = unat base + unat (a - base)" by simp
  from assms(2) have "unat a < unat (base + ext)" by (simp add: word_less_nat_alt)
  also have "\<dots> \<le> unat base + unat ext" by (simp add: unat_word_ariths)
  finally show "unat (a - base) < unat ext" using s le by simp
qed

lemma psp_mem_ptr_SomeD:
  assumes "psp_mem_ptr m addr sz = Some (rg, off)"
  shows "canon addr = unat (region_base m rg) + off"
    and "off < region_size m rg"
    and "of_nat off + sz \<le> (of_nat (region_size m rg) :: u32)"
  using assms offset_in_window [of "module_base m" "addr AND PSP_ADDR_MASK" "module_size m"]
    offset_in_window [of PSP_RAM_BASE "addr AND PSP_ADDR_MASK" PSP_RAM_SIZE]
    offset_in_window [of PSP_VRAM_BASE "addr AND PSP_ADDR_MASK" PSP_VRAM_SIZE]
    offset_in_window [of PSP_SCRATCH_BASE "addr AND PSP_ADDR_MASK" PSP_SCRATCH_SIZE]
  by (auto simp: psp_mem_ptr_def Let_def canon_def region_base_def region_size_def not_less
      split: if_splits)

text \<open>Resolution splits into choosing a window, which ignores the size, and the bound test.\<close>

definition window :: "psp_memory \<Rightarrow> u32 \<Rightarrow> (region \<times> u32 \<times> u32) option" where
  "window m addr =
     (let a = addr AND PSP_ADDR_MASK in
      if module_size m \<noteq> 0 \<and> a \<ge> module_base m \<and> a < module_base m + module_size m
      then Some (ModuleImage, a - module_base m, module_size m)
      else if a \<ge> PSP_RAM_BASE \<and> a < PSP_RAM_BASE + PSP_RAM_SIZE
      then Some (Ram, a - PSP_RAM_BASE, PSP_RAM_SIZE)
      else if a \<ge> PSP_VRAM_BASE \<and> a < PSP_VRAM_BASE + PSP_VRAM_SIZE
      then Some (Vram, a - PSP_VRAM_BASE, PSP_VRAM_SIZE)
      else if a \<ge> PSP_SCRATCH_BASE \<and> a < PSP_SCRATCH_BASE + PSP_SCRATCH_SIZE
      then Some (Scratch, a - PSP_SCRATCH_BASE, PSP_SCRATCH_SIZE)
      else None)"

lemma psp_mem_ptr_window:
  "psp_mem_ptr m addr sz =
     (case window m addr of None \<Rightarrow> None
      | Some (rg, off, ext) \<Rightarrow> if off + sz > ext then None else Some (rg, unat off))"
  by (simp add: psp_mem_ptr_def window_def Let_def)

lemma window_ext: "window m addr = Some (rg, off, ext) \<Longrightarrow> unat ext = region_size m rg"
  by (auto simp: window_def region_size_def Let_def split: if_splits)

lemma psp_mem_ptr_widen:
  assumes p: "psp_mem_ptr m a 1 = Some (rg, off)" and n: "off + n \<le> region_size m rg" "n < 2 ^ 31"
  shows "psp_mem_ptr m a (of_nat n) = Some (rg, off)"
proof -
  from p obtain o' ext where w: "window m a = Some (rg, o', ext)" "off = unat o'"
    by (auto simp: psp_mem_ptr_window split: option.splits if_splits)
  have "off < 2 ^ 30"
    using psp_mem_ptr_SomeD(1) [OF p] canon_less [of a] by simp
  then have "o' + of_nat n \<le> ext"
    using n w(2) window_ext [OF w(1)]
    by (simp add: word_le_nat_alt unat_word_ariths unat_of_nat take_bit_eq_mod)
  with w show ?thesis by (simp add: psp_mem_ptr_window not_less)
qed

text \<open>
  Resolution depends on the canonical address and the module mapping only: the mirrors of one
  address resolve alike, and no store, counter or watch changes what is mapped.
\<close>

lemma canon_eq_iff: "canon a = canon b \<longleftrightarrow> a AND PSP_ADDR_MASK = b AND PSP_ADDR_MASK"
  by (simp add: canon_def flip: word_unat_eq_iff)

lemma psp_mem_ptr_mirror: "canon a = canon b \<Longrightarrow> psp_mem_ptr m a sz = psp_mem_ptr m b sz"
  by (simp add: canon_eq_iff psp_mem_ptr_def)

lemma psp_mem_ptr_cong:
  assumes "module_base m = module_base m'" and "module_size m = module_size m'"
  shows "psp_mem_ptr m = psp_mem_ptr m'"
  unfolding psp_mem_ptr_def assms ..

lemma map_frame [simp]:
  "module_base (note_write a w m) = module_base m" "module_size (note_write a w m) = module_size m"
  "store (note_write a w m) = store m"
  "module_base (note_read fn a w m) = module_base m"
  "module_size (note_read fn a w m) = module_size m" "store (note_read fn a w m) = store m"
  "module_base (bad_access m) = module_base m" "module_size (bad_access m) = module_size m"
  "store (bad_access m) = store m"
  "module_base (store_bytes p bs m) = module_base m"
  "module_size (store_bytes p bs m) = module_size m"
  by (simp_all add: note_write_def note_read_def bad_access_def store_bytes_def)

lemma bad_accesses_frame [simp]:
  "bad_accesses (note_write a w m) = bad_accesses m"
  "bad_accesses (note_read fn a w m) = bad_accesses m"
  "bad_accesses (store_bytes p bs m) = bad_accesses m"
  "bad_accesses (bad_access m) = bad_accesses m + 1"
  by (simp_all add: note_write_def note_read_def bad_access_def store_bytes_def)

lemma store_store_bytes_note [simp]:
  "store (store_bytes p bs (note_write a w m)) = store (store_bytes p bs m)"
  by (simp add: store_bytes_def cong: if_cong)

lemma psp_mem_ptr_frame [simp]:
  "psp_mem_ptr (note_write a w m) = psp_mem_ptr m"
  "psp_mem_ptr (note_read fn a w m) = psp_mem_ptr m"
  "psp_mem_ptr (bad_access m) = psp_mem_ptr m"
  "psp_mem_ptr (store_bytes p bs m) = psp_mem_ptr m"
  by (rule psp_mem_ptr_cong; simp)+

lemma region_size_frame [simp]: "region_size (store_bytes p bs m) rg = region_size m rg"
  by (simp add: region_size_def split: region.splits)

text \<open>
  The bound test of \<open>psp_mem_ptr\<close> is a 32-bit sum. Offsets are below \<open>2\<^sup>3\<^sup>0\<close>, so the sum is exact
  for every size up to \<open>0xC0000000\<close>, and then the whole access lies inside the block.
\<close>

lemma psp_mem_ptr_extent:
  assumes p: "psp_mem_ptr m addr sz = Some (rg, off)" and sz: "unat sz \<le> 0xC0000000"
  shows "off + unat sz \<le> region_size m rg"
proof -
  note D = psp_mem_ptr_SomeD [OF p]
  have off: "off < 2 ^ 30"
    using D(1) canon_less [of addr] by simp
  then have ofs: "unat (of_nat off + sz :: u32) = off + unat sz"
    using sz by (simp add: unat_word_ariths unat_of_nat take_bit_eq_mod)
  have rs: "region_size m rg < 2 ^ 32"
    using unat_u32_less [of "module_size m"] by (simp add: region_size_def split: region.splits)
  from D(3) have "unat (of_nat off + sz :: u32) \<le> unat (of_nat (region_size m rg) :: u32)"
    by (simp add: word_le_nat_alt)
  with ofs rs show ?thesis
    by (simp add: unat_of_nat take_bit_eq_mod)
qed


section \<open>Reading back\<close>

text \<open>What an \<open>n\<close>-byte read returns, without its bookkeeping.\<close>

definition peek :: "nat \<Rightarrow> psp_memory \<Rightarrow> u32 \<Rightarrow> u8 list" where
  "peek n m addr =
     (case psp_mem_ptr m addr (of_nat n) of None \<Rightarrow> replicate n 0 | Some p \<Rightarrow> load_bytes m p n)"

lemma fst_read_body: "fst (read_body n addr M) = peek n (mem M) addr"
  by (simp add: read_body_def peek_def split: option.splits)

lemma read_body_frame [simp]:
  "store (mem (snd (read_body n addr M))) = store (mem M)"
  "psp_mem_ptr (mem (snd (read_body n addr M))) = psp_mem_ptr (mem M)"
  "cpu (snd (read_body n addr M)) = cpu M"
  "trace (snd (read_body n addr M)) = trace M"
  by (simp_all add: read_body_def split: option.splits)

lemma peek_cong:
  assumes "store m = store m'" and "psp_mem_ptr m = psp_mem_ptr m'"
  shows "peek n m = peek n m'"
  unfolding peek_def load_bytes_def assms ..

lemma peek_read_body [simp]: "peek k (mem (snd (read_body n addr M))) = peek k (mem M)"
  by (rule peek_cong) simp_all

lemma length_peek [simp]: "length (peek n m addr) = n"
  by (simp add: peek_def load_bytes_def split: option.splits)

lemma load_store_same:
  "load_bytes (store_bytes p bs m) p (length bs) = bs"
  by (rule nth_equalityI) (simp_all add: load_bytes_def store_bytes_def)

lemma load_store_disjoint:
  assumes "fst p = fst q \<Longrightarrow> snd q + n \<le> snd p \<or> snd p + length bs \<le> snd q"
  shows "load_bytes (store_bytes p bs m) q n = load_bytes m q n"
  using assms by (auto simp: load_bytes_def store_bytes_def)

lemma mem_write_body:
  "mem (write_body addr bs M) =
     (case psp_mem_ptr (mem M) addr (of_nat (length bs)) of
        None \<Rightarrow> bad_access (mem M)
      | Some p \<Rightarrow> store_bytes p bs (note_write addr (of_nat (length bs)) (mem M)))"
  by (simp add: write_body_def split: option.splits)

lemma write_body_frame [simp]:
  "cpu (write_body addr bs M) = cpu M" "trace (write_body addr bs M) = trace M"
  "psp_mem_ptr (mem (write_body addr bs M)) = psp_mem_ptr (mem M)"
  by (simp_all add: write_body_def split: option.splits)

text \<open>A read through any mirror returns what was written.\<close>

lemma peek_write_same:
  assumes "psp_mem_ptr (mem M) a (of_nat (length bs)) \<noteq> None" and "canon a = canon b"
  shows "peek (length bs) (mem (write_body a bs M)) b = bs"
  using assms psp_mem_ptr_mirror [of a b]
  by (auto simp: peek_def mem_write_body load_store_same)

text \<open>A write leaves every disjoint range of canonical addresses as it was.\<close>

lemma peek_write_disjoint:
  assumes "canon b + n \<le> canon a \<or> canon a + length bs \<le> canon b"
  shows "peek n (mem (write_body a bs M)) b = peek n (mem M) b"
proof (cases "psp_mem_ptr (mem M) a (of_nat (length bs))")
  case None
  then show ?thesis by (simp add: mem_write_body peek_def load_bytes_def split: option.splits)
next
  case (Some p)
  obtain rg off where p: "p = (rg, off)" by (cases p)
  note A = psp_mem_ptr_SomeD(1) [OF Some [unfolded p]]
  show ?thesis
  proof (cases "psp_mem_ptr (mem M) b (of_nat n)")
    case None
    with Some show ?thesis by (simp add: mem_write_body peek_def)
  next
    case q: (Some q)
    obtain rg' off' where q': "q = (rg', off')" by (cases q)
    note B = psp_mem_ptr_SomeD(1) [OF q [unfolded q']]
    have "load_bytes (store_bytes p bs (note_write a (of_nat (length bs)) (mem M))) q n =
      load_bytes (note_write a (of_nat (length bs)) (mem M)) q n"
      by (rule load_store_disjoint) (use A B p q' assms in auto)
    with Some q show ?thesis by (simp add: mem_write_body peek_def load_bytes_def)
  qed
qed


section \<open>The byte-store contract\<close>

text \<open>
  What the components that move data byte by byte (the file API, the string reader, the
  constructor scan) rely on: a byte written to a mapped address is read back through every alias
  of that address, other addresses keep their byte, and writing maps nothing. \<open>key\<close> is the
  canonical address.
\<close>

locale byte_store =
  fixes getb :: "'m \<Rightarrow> u32 \<Rightarrow> u8"
    and putb :: "u32 \<Rightarrow> u8 \<Rightarrow> 'm \<Rightarrow> 'm"
    and mapped :: "'m \<Rightarrow> u32 \<Rightarrow> bool"
    and key :: "u32 \<Rightarrow> nat"
  assumes get_put_same: "mapped m a \<Longrightarrow> key a = key b \<Longrightarrow> getb (putb a x m) b = x"
    and get_put_other: "key a \<noteq> key b \<Longrightarrow> getb (putb a x m) b = getb m b"
    and mapped_put: "mapped (putb a x m) b = mapped m b"
begin

text \<open>\<^verbatim>\<open>for (i = 0; i < n; i++) write8(a + i, xs[i])\<close>\<close>

primrec put_list :: "u32 \<Rightarrow> u8 list \<Rightarrow> 'm \<Rightarrow> 'm" where
  "put_list a [] m = m"
| "put_list a (x # xs) m = put_list (a + 1) xs (putb a x m)"

lemma mapped_put_list: "mapped (put_list a xs m) b = mapped m b"
  by (induction xs arbitrary: a m) (simp_all add: mapped_put)

lemma get_put_list_other:
  assumes "\<And>i. i < length xs \<Longrightarrow> key (a + of_nat i) \<noteq> key b"
  shows "getb (put_list a xs m) b = getb m b"
  using assms
proof (induction xs arbitrary: a m)
  case Nil
  then show ?case by simp
next
  case (Cons x xs)
  have "getb (put_list (a + 1) xs (putb a x m)) b = getb (putb a x m) b"
  proof (rule Cons.IH)
    fix i assume "i < length xs"
    then show "key (a + 1 + of_nat i) \<noteq> key b"
      using Cons.prems [of "Suc i"] by (simp add: ac_simps)
  qed
  moreover have "key a \<noteq> key b" using Cons.prems [of 0] by simp
  ultimately show ?case by (simp add: get_put_other)
qed

lemma get_put_list:
  assumes "\<And>i. i < length xs \<Longrightarrow> mapped m (a + of_nat i)"
    and "\<And>i j. i < j \<Longrightarrow> j < length xs \<Longrightarrow> key (a + of_nat i) \<noteq> key (a + of_nat j)"
    and "k < length xs"
  shows "getb (put_list a xs m) (a + of_nat k) = xs ! k"
  using assms
proof (induction xs arbitrary: a m k)
  case Nil
  then show ?case by simp
next
  case (Cons x xs)
  show ?case
  proof (cases k)
    case 0
    have "getb (put_list (a + 1) xs (putb a x m)) a = getb (putb a x m) a"
    proof (rule get_put_list_other)
      fix i assume "i < length xs"
      then show "key (a + 1 + of_nat i) \<noteq> key a"
        using Cons.prems(2) [of 0 "Suc i"] by (simp add: ac_simps eq_commute)
    qed
    moreover have "mapped m a" using Cons.prems(1) [of 0] by simp
    ultimately show ?thesis using 0 by (simp add: get_put_same)
  next
    case (Suc j)
    have "getb (put_list (a + 1) xs (putb a x m)) (a + 1 + of_nat j) = xs ! j"
    proof (rule Cons.IH)
      show "mapped (putb a x m) (a + 1 + of_nat i)" if "i < length xs" for i
        using that Cons.prems(1) [of "Suc i"] by (simp add: mapped_put ac_simps)
      show "key (a + 1 + of_nat i) \<noteq> key (a + 1 + of_nat j)" if "i < j" "j < length xs" for i j
        using that Cons.prems(2) [of "Suc i" "Suc j"] by (simp add: ac_simps)
      show "j < length xs" using Suc Cons.prems(3) by simp
    qed
    then show ?thesis using Suc by (simp add: ac_simps)
  qed
qed

end

definition mapped8 :: "psp_machine \<Rightarrow> u32 \<Rightarrow> bool" where
  "mapped8 M a \<longleftrightarrow> psp_mem_ptr (mem M) a 1 \<noteq> None"

lemma fst_psp_read8: "fst (psp_read8 a M) = peek 1 (mem M) a ! 0"
proof -
  obtain b where b: "peek 1 (mem M) a = [b]"
    using length_peek [of 1 "mem M" a] by (metis One_nat_def length_0_conv length_Suc_conv)
  show ?thesis by (simp add: psp_read8_def fst_read_body b del: One_nat_def)
qed

interpretation guest_bytes:
  byte_store "\<lambda>M a. fst (psp_read8 a M)" psp_write8 mapped8 canon
proof
  fix M :: psp_machine and a b :: u32 and x :: u8
  have one: "length (bytes_of_word 1 x) = 1" by simp
  { assume "mapped8 M a" "canon a = canon b"
    then show "fst (psp_read8 b (psp_write8 a x M)) = x"
      using peek_write_same [of M a "bytes_of_word 1 x" b] one
      by (simp add: fst_psp_read8 psp_write8_def mapped8_def del: One_nat_def) }
  { assume "canon a \<noteq> canon b"
    then have "canon b + 1 \<le> canon a \<or> canon a + length (bytes_of_word 1 x) \<le> canon b"
      by auto
    then show "fst (psp_read8 b (psp_write8 a x M)) = fst (psp_read8 b M)"
      by (simp add: fst_psp_read8 psp_write8_def peek_write_disjoint del: One_nat_def) }
  show "mapped8 (psp_write8 a x M) b = mapped8 M b"
    by (simp add: mapped8_def psp_write8_def)
qed


section \<open>Properties\<close>

text \<open>
  C8. Every access the memory layer admits stays inside its backing block: when \<open>psp_mem_ptr\<close>
  resolves an address for an access of at most \<open>0xC0000000\<close> bytes, offset and width together do
  not exceed the size of the region, for the fixed regions and the mapped module alike.
\<close>

theorem psp_mem_ptr_in_bounds:
  assumes "psp_mem_ptr m addr sz = Some (rg, off)" and "sz \<le> 0xC0000000"
  shows "off + unat sz \<le> region_size m rg"
  using assms by (intro psp_mem_ptr_extent) (simp_all add: word_le_nat_alt)

text \<open>A memory with nothing stored and no module, for the concrete instances below.\<close>

definition boot_mem :: psp_memory where
  "boot_mem = \<lparr>store = zero_store, module_base = 0, module_size = 0, bad_accesses = 0,
     wwatch = 0, whits = 0, rwatch = 0, rfns = []\<rparr>"

definition boot_machine :: psp_machine where
  "boot_machine = \<lparr>cpu = psp_cpu_reset, mem = boot_mem,
     trace = \<lparr>ring = (\<lambda>_. 0), trace_n = 0, watch_addr = 0\<rparr>\<rparr>"

theorem psp_mem_ptr_in_bounds_witness:
  "psp_mem_ptr boot_mem 0x49FFFFFC 4 = Some (Ram, 0x1FFFFFC) \<and>
   0x1FFFFFC + unat (4::u32) \<le> region_size boot_mem Ram"
proof -
  have p: "psp_mem_ptr boot_mem 0x49FFFFFC 4 = Some (Ram, 0x1FFFFFC)"
    by (simp add: psp_mem_ptr_def boot_mem_def)
  have "(4::u32) \<le> 0xC0000000" by simp
  from p psp_mem_ptr_in_bounds [OF p this] show ?thesis by blast
qed

text \<open>
  C19. Guest memory is a store up to cache mirrors: after a write of any width to a mapped address,
  reading that width through any address with the same low thirty bits returns the value written.
\<close>

theorem psp_read_after_write:
  assumes "canon a = canon b"
  shows "(psp_mem_ptr (mem M) a 1 \<noteq> None \<longrightarrow> fst (psp_read8 b (psp_write8 a x M)) = x) \<and>
    (psp_mem_ptr (mem M) a 2 \<noteq> None \<longrightarrow> fst (psp_read16 b (psp_write16 a y M)) = y) \<and>
    (psp_mem_ptr (mem M) a 4 \<noteq> None \<longrightarrow> fst (psp_read32 b (psp_write32 a z M)) = z)"
proof (intro conjI impI)
  assume "psp_mem_ptr (mem M) a 1 \<noteq> None"
  then show "fst (psp_read8 b (psp_write8 a x M)) = x"
    using assms by (intro guest_bytes.get_put_same) (simp_all add: mapped8_def)
next
  assume "psp_mem_ptr (mem M) a 2 \<noteq> None"
  then show "fst (psp_read16 b (psp_write16 a y M)) = y"
    using assms peek_write_same [of M a "bytes_of_word 2 y" b]
    by (simp add: psp_read16_def psp_write16_def fst_read_body word_of_bytes_of_word)
next
  assume "psp_mem_ptr (mem M) a 4 \<noteq> None"
  then show "fst (psp_read32 b (psp_write32 a z M)) = z"
    using assms peek_write_same [of M a "bytes_of_word 4 z" b]
    by (simp add: psp_read32_def psp_write32_def fst_read_body word_of_bytes_of_word)
qed

theorem psp_read_after_write_witness:
  "fst (psp_read32 0x88000010 (psp_write32 0x48000010 0xDEADBEEF boot_machine)) = 0xDEADBEEF"
proof -
  have c: "canon 0x48000010 = canon 0x88000010" by (simp add: canon_def)
  have p: "psp_mem_ptr (mem boot_machine) 0x48000010 4 \<noteq> None"
    by (simp add: psp_mem_ptr_def boot_machine_def boot_mem_def)
  show ?thesis
    using psp_read_after_write [OF c, where M = boot_machine and z = "0xDEADBEEF"] p by blast
qed

text \<open>
  C20. Writes are local: a write of any width changes nothing a read of a disjoint range of canonical
  addresses returns, whatever the two ranges' regions are and whether or not they are mapped.
\<close>

theorem psp_write_frame:
  assumes "canon b + n \<le> canon a \<or> canon a + length bs \<le> canon b"
  shows "fst (read_body n b (write_body a bs M)) = fst (read_body n b M)"
  using assms by (simp add: fst_read_body peek_write_disjoint)

theorem psp_write_frame_witness:
  "fst (read_body 4 0x08000004 (write_body 0x48000000 [1, 2, 3, 4] boot_machine)) =
   fst (read_body 4 0x08000004 boot_machine)"
  by (rule psp_write_frame) (simp add: canon_def)

text \<open>
  An access to unmapped memory is dropped and counted, never ignored: a read returns zero and a
  write stores nothing, and each adds exactly one to \<open>psp_mem_bad_access\<close>; a mapped access adds
  nothing.
\<close>

theorem psp_bad_access_counted:
  "fst (psp_read32 addr M) =
     (case psp_mem_ptr (mem M) addr 4 of None \<Rightarrow> 0
      | Some p \<Rightarrow> word_of_bytes (load_bytes (mem M) p 4)) \<and>
   bad_accesses (mem (snd (psp_read32 addr M))) =
     bad_accesses (mem M) + (if psp_mem_ptr (mem M) addr 4 = None then 1 else 0) \<and>
   bad_accesses (mem (psp_write32 addr val M)) =
     bad_accesses (mem M) + (if psp_mem_ptr (mem M) addr 4 = None then 1 else 0) \<and>
   store (mem (psp_write32 addr val M)) =
     (case psp_mem_ptr (mem M) addr 4 of None \<Rightarrow> store (mem M)
      | Some p \<Rightarrow> store (store_bytes p (bytes_of_word 4 val) (mem M)))"
  by (simp add: psp_read32_def psp_write32_def read_body_def write_body_def word_of_bytes_zeros
      split: option.splits)

text \<open>
  The 32-bit sum in the bound test is not enough for the bulk copies: whatever the state, with
  no module mapped, \<open>psp_mem_ptr\<close> accepts \<open>0xFFFFFFFF\<close> bytes at \<open>0x08000001\<close> (offset 1 plus
  the size wraps to 0), so \<open>psp_mem_write_block\<close> reports success for a copy far beyond the 32 MB
  block.
\<close>

theorem psp_mem_ptr_size_wraps:
  "psp_mem_ptr (m\<lparr>module_size := 0\<rparr>) 0x08000001 0xFFFFFFFF = Some (Ram, 1) \<and>
   region_size (m\<lparr>module_size := 0\<rparr>) Ram < 1 + unat (0xFFFFFFFF :: u32) \<and>
   fst (psp_mem_write_block 0x08000001 src 0xFFFFFFFF (m\<lparr>module_size := 0\<rparr>)) = 0"
  by (simp add: psp_mem_ptr_def region_size_def psp_mem_write_block_def)

end
