(* ===== verification/Runtime.thy ===== *)
theory Runtime
  imports Mem "HOL-Library.Signed_Division"
begin

unbundle bit_operations_syntax

text \<open>
  The semantic helpers the generated code calls, \<^verbatim>\<open>include/psprecomp/recomp_rt.h\<close>: arithmetic and
  shifts with the MIPS edge cases, the HI/LO multiply and divide family, the MIPS32r2 and Allegrex
  bit operations, the little-endian unaligned load and store pairs, and the COP1 comparison.

  Each is related to what the instruction is documented to do: division to truncated division,
  multiply-accumulate to 64-bit arithmetic, \<open>bitrev\<close>, \<open>clz\<close>, \<open>ext\<close> and \<open>ins\<close> to their bits, an
  \<open>lwl\<close>/\<open>lwr\<close> pair to one unaligned read, and \<open>c.cond.s\<close> to the meaning of the condition's bits.
\<close>

section \<open>Arithmetic and shifts\<close>

definition bool32 :: "bool \<Rightarrow> u32" where
  "bool32 b = (if b then 1 else 0)"

definition psp_add :: "u32 \<Rightarrow> u32 \<Rightarrow> u32" where "psp_add a b = a + b"
definition psp_sub :: "u32 \<Rightarrow> u32 \<Rightarrow> u32" where "psp_sub a b = a - b"
definition psp_slt :: "u32 \<Rightarrow> u32 \<Rightarrow> u32" where "psp_slt a b = bool32 (sint a < sint b)"
definition psp_sltu :: "u32 \<Rightarrow> u32 \<Rightarrow> u32" where "psp_sltu a b = bool32 (a < b)"
definition psp_max :: "u32 \<Rightarrow> u32 \<Rightarrow> u32" where "psp_max a b = (if sint a > sint b then a else b)"
definition psp_min :: "u32 \<Rightarrow> u32 \<Rightarrow> u32" where "psp_min a b = (if sint a < sint b then a else b)"

definition psp_sll :: "u32 \<Rightarrow> u32 \<Rightarrow> u32" where
  "psp_sll x s = push_bit (unat (s AND 31)) x"
definition psp_srl :: "u32 \<Rightarrow> u32 \<Rightarrow> u32" where
  "psp_srl x s = drop_bit (unat (s AND 31)) x"
definition psp_sra :: "u32 \<Rightarrow> u32 \<Rightarrow> u32" where
  "psp_sra x s = signed_drop_bit (unat (s AND 31)) x"
definition psp_rotr :: "u32 \<Rightarrow> u32 \<Rightarrow> u32" where
  "psp_rotr x s0 =
     (let s = unat (s0 AND 31)
      in if s \<noteq> 0 then drop_bit s x OR push_bit (32 - s) x else x)"

section \<open>Multiply and divide\<close>

definition psp_mult :: "u32 \<Rightarrow> u32 \<Rightarrow> psp_cpu_state \<Rightarrow> psp_cpu_state" where
  "psp_mult a b c =
     (let p = (scast a :: u64) * scast b
      in c\<lparr>lo := ucast p, hi := ucast (drop_bit 32 p)\<rparr>)"

definition psp_multu :: "u32 \<Rightarrow> u32 \<Rightarrow> psp_cpu_state \<Rightarrow> psp_cpu_state" where
  "psp_multu a b c =
     (let p = (ucast a :: u64) * ucast b
      in c\<lparr>lo := ucast p, hi := ucast (drop_bit 32 p)\<rparr>)"

definition psp_div :: "u32 \<Rightarrow> u32 \<Rightarrow> psp_cpu_state \<Rightarrow> psp_cpu_state" where
  "psp_div a b c =
     (let sa = sint a; sb = sint b in
      if sb = 0 then c\<lparr>lo := (if sa < 0 then 1 else 0xFFFFFFFF), hi := a\<rparr>
      else if sa = sint (0x80000000 :: u32) \<and> sb = -1 then c\<lparr>lo := 0x80000000, hi := 0\<rparr>
      else c\<lparr>lo := word_of_int (sa sdiv sb), hi := word_of_int (sa smod sb)\<rparr>)"

definition psp_divu :: "u32 \<Rightarrow> u32 \<Rightarrow> psp_cpu_state \<Rightarrow> psp_cpu_state" where
  "psp_divu a b c =
     (if b = 0 then c\<lparr>lo := 0xFFFFFFFF, hi := a\<rparr>
      else c\<lparr>lo := a div b, hi := a mod b\<rparr>)"

text \<open>The 64-bit accumulator HI:LO.\<close>

definition hilo :: "psp_cpu_state \<Rightarrow> u64" where
  "hilo c = (push_bit 32 (ucast (hi c)) OR ucast (lo c))"

definition set_hilo :: "u64 \<Rightarrow> psp_cpu_state \<Rightarrow> psp_cpu_state" where
  "set_hilo acc c = c\<lparr>lo := ucast acc, hi := ucast (drop_bit 32 acc)\<rparr>"

definition psp_madd :: "u32 \<Rightarrow> u32 \<Rightarrow> psp_cpu_state \<Rightarrow> psp_cpu_state" where
  "psp_madd a b c = set_hilo (hilo c + scast a * scast b) c"
definition psp_maddu :: "u32 \<Rightarrow> u32 \<Rightarrow> psp_cpu_state \<Rightarrow> psp_cpu_state" where
  "psp_maddu a b c = set_hilo (hilo c + ucast a * ucast b) c"
definition psp_msub :: "u32 \<Rightarrow> u32 \<Rightarrow> psp_cpu_state \<Rightarrow> psp_cpu_state" where
  "psp_msub a b c = set_hilo (hilo c - scast a * scast b) c"
definition psp_msubu :: "u32 \<Rightarrow> u32 \<Rightarrow> psp_cpu_state \<Rightarrow> psp_cpu_state" where
  "psp_msubu a b c = set_hilo (hilo c - ucast a * ucast b) c"

section \<open>Bit manipulation\<close>

text \<open>
  The loop of \<open>psp_clz\<close> runs only from a non-zero word, and shifting a non-zero word whose top bit
  is clear keeps it non-zero, so testing \<open>x \<noteq> 0\<close> in the guard changes nothing on the words that
  reach it; it is what makes the recursion terminate on the others.
\<close>

lemma shl_grows:
  fixes x :: u32
  assumes "x \<noteq> 0" and "\<not> bit x 31"
  shows "unat (push_bit 1 x) = 2 * unat x"
proof -
  have "unat x < 2 ^ 31"
  proof (rule ccontr)
    assume "\<not> unat x < 2 ^ 31"
    then have "unat x div 2 ^ 31 = 1" using unat_u32_less [of x] by auto
    then have "bit (unat x) 31" by (simp add: bit_iff_odd)
    with assms(2) show False by (simp add: bit_unsigned_iff)
  qed
  then show ?thesis by (simp add: push_bit_eq_mult unat_word_ariths)
qed

function clz_loop :: "u32 \<Rightarrow> u32 \<Rightarrow> u32" where
  "clz_loop x n =
     (if x \<noteq> 0 \<and> (x AND 0x80000000) = 0 then clz_loop (push_bit 1 x) (n + 1) else n)"
  by pat_completeness auto

lemma and_msb_iff: "(x AND 0x80000000 :: u32) = 0 \<longleftrightarrow> \<not> bit x 31"
proof -
  have m: "(0x80000000 :: u32) = push_bit 31 1" by simp
  have "bit (x AND push_bit 31 1) k \<longleftrightarrow> k = 31 \<and> bit x 31" for k
    unfolding bit_and_iff bit_push_bit_iff by (auto simp: bit_1_iff)
  then show ?thesis unfolding m by (auto simp: bit_eq_iff [where ?'a = "32 word"])
qed

termination clz_loop
proof (relation "measure (\<lambda>(x, n). 4294967296 - unat x)", goal_cases)
  case 1
  then show ?case by simp
next
  case (2 x n)
  then have x: "x \<noteq> 0" "\<not> bit x 31" by (simp_all add: and_msb_iff)
  from x(1) have "unat x \<noteq> 0" by (simp add: unat_eq_0)
  with shl_grows [OF x] unat_u32_less [of "push_bit 1 x"]
  have "4294967296 - unat (push_bit 1 x) < 4294967296 - unat x" by linarith
  then show ?case by (simp only: in_measure prod.case)
qed

declare clz_loop.simps [simp del]

definition psp_clz :: "u32 \<Rightarrow> u32" where
  "psp_clz x = (if x = 0 then 32 else clz_loop x 0)"

definition psp_clo :: "u32 \<Rightarrow> u32" where
  "psp_clo x = psp_clz (NOT x)"

definition psp_ext :: "u32 \<Rightarrow> u32 \<Rightarrow> u32 \<Rightarrow> u32" where
  "psp_ext x pos sz =
     (if sz = 0 \<or> sz > 32 then 0
      else if sz = 32 then drop_bit (unat pos) x
      else drop_bit (unat pos) x AND (push_bit (unat sz) 1 - 1))"

definition psp_ins :: "u32 \<Rightarrow> u32 \<Rightarrow> u32 \<Rightarrow> u32 \<Rightarrow> u32" where
  "psp_ins dst src pos sz =
     (if sz = 0 \<or> sz > 32 then dst
      else let msk = (if sz = 32 then 0xFFFFFFFF
                      else push_bit (unat pos) (push_bit (unat sz) 1 - 1))
           in (dst AND NOT msk) OR (push_bit (unat pos) src AND msk))"

definition psp_seb :: "u32 \<Rightarrow> u32" where
  "psp_seb x = scast (ucast (x AND 0xFF) :: u8)"
definition psp_seh :: "u32 \<Rightarrow> u32" where
  "psp_seh x = scast (ucast (x AND 0xFFFF) :: u16)"

definition psp_wsbh :: "u32 \<Rightarrow> u32" where
  "psp_wsbh x = (push_bit 8 (x AND 0x00FF00FF) OR drop_bit 8 (x AND 0xFF00FF00))"

definition psp_wsbw :: "u32 \<Rightarrow> u32" where
  "psp_wsbw x = (push_bit 24 x OR push_bit 8 (x AND 0x0000FF00) OR
                 drop_bit 8 (x AND 0x00FF0000) OR drop_bit 24 x)"

definition psp_bitrev :: "u32 \<Rightarrow> u32" where
  "psp_bitrev x0 =
     (let x1 = push_bit 1 (x0 AND 0x55555555) OR (drop_bit 1 x0 AND 0x55555555);
          x2 = push_bit 2 (x1 AND 0x33333333) OR (drop_bit 2 x1 AND 0x33333333);
          x3 = push_bit 4 (x2 AND 0x0F0F0F0F) OR (drop_bit 4 x2 AND 0x0F0F0F0F);
          x4 = push_bit 8 (x3 AND 0x00FF00FF) OR (drop_bit 8 x3 AND 0x00FF00FF)
      in push_bit 16 x4 OR drop_bit 16 x4)"

section \<open>Unaligned load and store\<close>

definition PSP_LWL_MASK :: "u32 list" where "PSP_LWL_MASK = [0x00FFFFFF, 0x0000FFFF, 0x000000FF, 0x00000000]"
definition PSP_LWL_SHIFT :: "nat list" where "PSP_LWL_SHIFT = [24, 16, 8, 0]"
definition PSP_LWR_MASK :: "u32 list" where "PSP_LWR_MASK = [0x00000000, 0xFF000000, 0xFFFF0000, 0xFFFFFF00]"
definition PSP_LWR_SHIFT :: "nat list" where "PSP_LWR_SHIFT = [0, 8, 16, 24]"
definition PSP_SWL_MASK :: "u32 list" where "PSP_SWL_MASK = [0xFFFFFF00, 0xFFFF0000, 0xFF000000, 0x00000000]"
definition PSP_SWL_SHIFT :: "nat list" where "PSP_SWL_SHIFT = [24, 16, 8, 0]"
definition PSP_SWR_MASK :: "u32 list" where "PSP_SWR_MASK = [0x00000000, 0x000000FF, 0x0000FFFF, 0x00FFFFFF]"
definition PSP_SWR_SHIFT :: "nat list" where "PSP_SWR_SHIFT = [0, 8, 16, 24]"

definition psp_lwl :: "u32 \<Rightarrow> u32 \<Rightarrow> psp_machine \<Rightarrow> u32 \<times> psp_machine" where
  "psp_lwl old addr M =
     (let b = unat (addr AND 3); (w, M') = psp_read32 (addr AND NOT 3) M
      in ((old AND PSP_LWL_MASK ! b) OR push_bit (PSP_LWL_SHIFT ! b) w, M'))"

definition psp_lwr :: "u32 \<Rightarrow> u32 \<Rightarrow> psp_machine \<Rightarrow> u32 \<times> psp_machine" where
  "psp_lwr old addr M =
     (let b = unat (addr AND 3); (w, M') = psp_read32 (addr AND NOT 3) M
      in ((old AND PSP_LWR_MASK ! b) OR drop_bit (PSP_LWR_SHIFT ! b) w, M'))"

definition psp_swl :: "u32 \<Rightarrow> u32 \<Rightarrow> psp_machine \<Rightarrow> psp_machine" where
  "psp_swl val addr M =
     (let b = unat (addr AND 3); base = addr AND NOT 3; (w, M') = psp_read32 base M
      in psp_write32 base ((w AND PSP_SWL_MASK ! b) OR drop_bit (PSP_SWL_SHIFT ! b) val) M')"

definition psp_swr :: "u32 \<Rightarrow> u32 \<Rightarrow> psp_machine \<Rightarrow> psp_machine" where
  "psp_swr val addr M =
     (let b = unat (addr AND 3); base = addr AND NOT 3; (w, M') = psp_read32 base M
      in psp_write32 base ((w AND PSP_SWR_MASK ! b) OR push_bit (PSP_SWR_SHIFT ! b) val) M')"

section \<open>COP1\<close>

text \<open>
  A \<^verbatim>\<open>float\<close> is its bit pattern, so the union casts are the identity. The C comparison operators
  on single-precision values, as IEEE 754 defines them on the patterns: a NaN has a maximal
  exponent and a non-zero fraction, compares false with everything, and the two zeros are equal.
\<close>

definition psp_bits_to_f32 :: "u32 \<Rightarrow> u32" where "psp_bits_to_f32 b = b"
definition psp_f32_to_bits :: "u32 \<Rightarrow> u32" where "psp_f32_to_bits x = x"

definition f32_nan :: "u32 \<Rightarrow> bool" where
  "f32_nan x \<longleftrightarrow> (x AND 0x7F800000) = 0x7F800000 \<and> (x AND 0x007FFFFF) \<noteq> 0"

definition f32_ord :: "u32 \<Rightarrow> int" where
  "f32_ord x = (if bit x 31 then - uint (x AND 0x7FFFFFFF) else uint (x AND 0x7FFFFFFF))"

definition f32_eq :: "u32 \<Rightarrow> u32 \<Rightarrow> bool" where
  "f32_eq a b \<longleftrightarrow> \<not> f32_nan a \<and> \<not> f32_nan b \<and> f32_ord a = f32_ord b"
definition f32_lt :: "u32 \<Rightarrow> u32 \<Rightarrow> bool" where
  "f32_lt a b \<longleftrightarrow> \<not> f32_nan a \<and> \<not> f32_nan b \<and> f32_ord a < f32_ord b"
definition f32_le :: "u32 \<Rightarrow> u32 \<Rightarrow> bool" where
  "f32_le a b \<longleftrightarrow> \<not> f32_nan a \<and> \<not> f32_nan b \<and> f32_ord a \<le> f32_ord b"

definition psp_fabs :: "u32 \<Rightarrow> u32" where
  "psp_fabs x = (if f32_lt x 0 then x XOR 0x80000000 else x)"

definition psp_fcmp :: "u32 \<Rightarrow> u32 \<Rightarrow> u32 \<Rightarrow> bool" where
  "psp_fcmp cond a b =
     (let unordered = \<not> f32_eq a a \<or> \<not> f32_eq b b; k = cond AND 0xF in
      if k = 0x0 \<or> k = 0x8 then False
      else if k = 0x1 \<or> k = 0x9 then unordered
      else if k = 0x2 \<or> k = 0xA then \<not> unordered \<and> f32_eq a b
      else if k = 0x3 \<or> k = 0xB then unordered \<or> f32_eq a b
      else if k = 0x4 \<or> k = 0xC then \<not> unordered \<and> f32_lt a b
      else if k = 0x5 \<or> k = 0xD then unordered \<or> f32_lt a b
      else if k = 0x6 \<or> k = 0xE then \<not> unordered \<and> f32_le a b
      else unordered \<or> f32_le a b)"


section \<open>Division and multiplication\<close>

lemma hilo_set_hilo [simp]: "hilo (set_hilo acc c) = acc"
  by (rule word_bitI) (auto simp: hilo_def set_hilo_def bit_simps)

lemma hilo_mult: "hilo (psp_mult a b c) = scast a * scast b"
  using hilo_set_hilo [of "scast a * scast b" c]
  by (simp add: psp_mult_def set_hilo_def hilo_def Let_def)

lemma hilo_multu: "hilo (psp_multu a b c) = ucast a * ucast b"
  using hilo_set_hilo [of "ucast a * ucast b" c]
  by (simp add: psp_multu_def set_hilo_def hilo_def Let_def)

lemma sint_u32_range: "- 2147483648 \<le> sint (x :: u32)" "sint (x :: u32) < 2147483648"
  using sint_ge [of x] sint_lt [of x] by simp_all

lemma sint_of_int_u32:
  "- 2147483648 \<le> i \<Longrightarrow> i < 2147483648 \<Longrightarrow> sint (word_of_int i :: u32) = i"
  by (simp add: signed_of_int signed_take_bit_int_eq_self)

lemma sint_eq_0 [simp]: "sint (x :: u32) = 0 \<longleftrightarrow> x = 0"
  by (simp add: signed_eq_0_iff)

lemma smod_abs_less: "b \<noteq> 0 \<Longrightarrow> \<bar>(a :: int) smod b\<bar> < \<bar>b\<bar>"
  by (simp add: signed_modulo_int_def abs_mult)

lemma sdiv_no_overflow:
  fixes a b :: int
  assumes "- 2147483648 \<le> a" "a < 2147483648" "b \<noteq> 0" "\<not> (a = - 2147483648 \<and> b = -1)"
  shows "- 2147483648 \<le> a sdiv b" "a sdiv b < 2147483648"
proof -
  from sdiv_int_range [of a b] assms show "- 2147483648 \<le> a sdiv b" by auto
  show "a sdiv b < 2147483648"
  proof (rule ccontr)
    assume big: "\<not> a sdiv b < 2147483648"
    with sdiv_int_range [of a b] assms(1,2) have a: "a = - 2147483648" by auto
    with big have "2147483648 \<le> - sgn b * (2147483648 div \<bar>b\<bar>)"
      by (simp add: signed_divide_int_def)
    moreover have "0 \<le> 2147483648 div \<bar>b\<bar>" by (simp add: pos_imp_zdiv_nonneg_iff assms(3))
    ultimately have neg: "b < 0" and q: "2147483648 \<le> 2147483648 div \<bar>b\<bar>"
      using assms(3) by (auto simp: sgn_if split: if_splits)
    have "\<not> 2 \<le> \<bar>b\<bar>"
      using zdiv_mono2 [of 2147483648 2 "\<bar>b\<bar>"] q by auto
    with neg a assms(4) show False by auto
  qed
qed

lemma psp_div_quotient:
  assumes "b \<noteq> 0" and "\<not> (sint a = - 2147483648 \<and> sint b = -1)"
  shows "sint (lo (psp_div a b c)) = sint a sdiv sint b"
    and "sint (hi (psp_div a b c)) = sint a smod sint b"
proof -
  have sb: "sint b \<noteq> 0" using assms(1) by simp
  note R = sint_u32_range [of a] sint_u32_range [of b]
  have l: "lo (psp_div a b c) = word_of_int (sint a sdiv sint b)"
    and h: "hi (psp_div a b c) = word_of_int (sint a smod sint b)"
    using assms sb by (auto simp: psp_div_def Let_def)
  show "sint (lo (psp_div a b c)) = sint a sdiv sint b"
    unfolding l by (rule sint_of_int_u32; rule sdiv_no_overflow) (use R sb assms(2) in auto)
  show "sint (hi (psp_div a b c)) = sint a smod sint b"
    unfolding h by (rule sint_of_int_u32) (use R smod_int_range [OF sb, of "sint a"] in auto)
qed

lemma psp_div_identity: "lo (psp_div a b c) * b + hi (psp_div a b c) = a"
proof (cases "b = 0 \<or> (sint a = - 2147483648 \<and> sint b = -1)")
  case True
  then show ?thesis
  proof
    assume "b = 0"
    then show ?thesis by (simp add: psp_div_def)
  next
    assume h: "sint a = - 2147483648 \<and> sint b = -1"
    have "a = word_of_int (sint a)" "b = word_of_int (sint b)" by simp_all
    with h have "a = word_of_int (- 2147483648)" "b = word_of_int (-1)" by metis+
    then show ?thesis by (simp add: psp_div_def Let_def)
  qed
next
  case False
  then have l: "lo (psp_div a b c) = word_of_int (sint a sdiv sint b)"
    and h: "hi (psp_div a b c) = word_of_int (sint a smod sint b)"
    by (auto simp: psp_div_def Let_def)
  have "word_of_int (sint a sdiv sint b * sint b + sint a smod sint b) = (word_of_int (sint a) :: u32)"
    by (metis smod_sdiv_mult_eq add.commute)
  then show ?thesis unfolding l h by simp
qed

lemma of_int_u64:
  "- 9223372036854775808 \<le> i \<Longrightarrow> i < 9223372036854775808 \<Longrightarrow> sint (word_of_int i :: u64) = i"
  "0 \<le> i \<Longrightarrow> i < 18446744073709551616 \<Longrightarrow> uint (word_of_int i :: u64) = i"
  by (simp_all add: signed_of_int signed_take_bit_int_eq_self unsigned_of_int take_bit_int_eq_self)

lemma sint_product:
  fixes a b :: u32
  shows "sint (scast a * scast b :: u64) = sint a * sint b"
proof -
  have "\<bar>sint a\<bar> \<le> 2147483648" "\<bar>sint b\<bar> \<le> 2147483648"
    using sint_u32_range [of a] sint_u32_range [of b] by auto
  then have "\<bar>sint a * sint b\<bar> \<le> 2147483648 * 2147483648"
    unfolding abs_mult by (intro mult_mono) auto
  then have "sint (word_of_int (sint a * sint b) :: u64) = sint a * sint b"
    by (intro of_int_u64(1)) auto
  moreover have "(scast a * scast b :: u64) = word_of_int (sint a * sint b)"
    by simp
  ultimately show ?thesis by (simp only:)
qed

lemma uint_product:
  fixes a b :: u32
  shows "uint (ucast a * ucast b :: u64) = uint a * uint b"
proof -
  have "uint a \<le> 4294967295" "uint b \<le> 4294967295" "0 \<le> uint a"
    using uint_lt2p [of a] uint_lt2p [of b] by simp_all
  then have "uint a * uint b \<le> 4294967295 * 4294967295" by (intro mult_mono) auto
  then have "uint (word_of_int (uint a * uint b) :: u64) = uint a * uint b"
    using \<open>0 \<le> uint a\<close> by (intro of_int_u64(2)) auto
  moreover have "(ucast a * ucast b :: u64) = word_of_int (uint a * uint b)"
    by simp
  ultimately show ?thesis by (simp only:)
qed

section \<open>Bit operations\<close>

lemma clz_loop_spec:
  assumes "x \<noteq> 0" and "unat n + k < 4294967296" and "bit x (31 - k)" and "k \<le> 31"
    and "\<And>j. 31 - k < j \<Longrightarrow> j \<le> 31 \<Longrightarrow> \<not> bit x j"
  shows "unat (clz_loop x n) = unat n + k"
  using assms
proof (induction k arbitrary: x n)
  case 0
  then show ?case by (subst clz_loop.simps) (simp add: and_msb_iff)
next
  case (Suc k)
  have top: "\<not> bit x 31" using Suc.prems(4,5) by auto
  have n1: "unat (n + 1) = Suc (unat n)"
    using Suc.prems(2) by (simp add: unat_word_ariths)
  have nz: "push_bit 1 x \<noteq> 0"
    using shl_grows [OF Suc.prems(1) top] Suc.prems(1) by (auto simp: unat_eq_0)
  have "unat (clz_loop (push_bit 1 x) (n + 1)) = unat (n + 1) + k"
  proof (rule Suc.IH [OF nz])
    show "unat (n + 1) + k < 4294967296" using n1 Suc.prems(2) by simp
    have "31 - k = Suc (31 - Suc k)" using Suc.prems(4) by simp
    then show "bit (push_bit 1 x) (31 - k)"
      using Suc.prems(3) unfolding bit_push_bit_iff by simp
    show "k \<le> 31" using Suc.prems(4) by simp
    fix j assume j: "31 - k < j" "j \<le> 31"
    then have "\<not> bit x (j - 1)" using Suc.prems(4) Suc.prems(5) [of "j - 1"] by auto
    then show "\<not> bit (push_bit 1 x) j" unfolding bit_push_bit_iff by simp
  qed
  then have "unat (clz_loop (push_bit 1 x) (n + 1)) = unat n + Suc k" using n1 by simp
  then show ?case
    using Suc.prems(1) top by (subst clz_loop.simps) (simp add: and_msb_iff)
qed


lemma psp_clz_bits:
  assumes "x \<noteq> 0"
  shows "\<exists>k\<le>31. unat (psp_clz x) = k \<and> bit x (31 - k) \<and> (\<forall>j\<le>31. 31 - k < j \<longrightarrow> \<not> bit x j)"
proof -
  define t where "t = Max {j. j \<le> 31 \<and> bit x j}"
  have ne: "{j. j \<le> 31 \<and> bit x j} \<noteq> {}"
  proof
    assume "{j. j \<le> 31 \<and> bit x j} = {}"
    then have "\<And>n. n < 32 \<Longrightarrow> bit x n = bit (0 :: u32) n" by auto
    then have "x = 0" by (intro word_bitI) simp
    with assms show False by simp
  qed
  have fin: "finite {j. j \<le> 31 \<and> bit x j}" by simp
  from Max_in [OF fin ne] have t: "t \<le> 31" "bit x t" by (simp_all add: t_def)
  have "j \<le> t" if "bit x j" "j \<le> 31" for j
    unfolding t_def by (rule Max_ge [OF fin]) (simp add: that)
  then have above: "\<not> bit x j" if "t < j" "j \<le> 31" for j
    using that by fastforce
  have e: "31 - (31 - t) = t" using t(1) by simp
  have "unat (clz_loop x 0) = unat (0 :: u32) + (31 - t)"
    using assms t above by (intro clz_loop_spec) (simp_all add: e)
  then show ?thesis
    using assms t above e by (intro exI [of _ "31 - t"]) (simp add: psp_clz_def)
qed

text \<open>One stage of the bit reversal exchanges the two halves of every group of \<open>2s\<close> bits.\<close>

definition swap_stage :: "nat \<Rightarrow> u32 \<Rightarrow> u32 \<Rightarrow> u32" where
  "swap_stage s m x = (push_bit s (x AND m) OR (drop_bit s x AND m))"

lemma bit_swap_stage:
  "n < 32 \<Longrightarrow> bit (swap_stage 1 0x55555555 x) n = bit x (if n mod 2 < 1 then n + 1 else n - 1)"
  "n < 32 \<Longrightarrow> bit (swap_stage 2 0x33333333 x) n = bit x (if n mod 4 < 2 then n + 2 else n - 2)"
  "n < 32 \<Longrightarrow> bit (swap_stage 4 0x0F0F0F0F x) n = bit x (if n mod 8 < 4 then n + 4 else n - 4)"
  "n < 32 \<Longrightarrow> bit (swap_stage 8 0x00FF00FF x) n = bit x (if n mod 16 < 8 then n + 8 else n - 8)"
  unfolding swap_stage_def bit_or_iff bit_and_iff bit_push_bit_iff bit_drop_bit_eq comp_def
  by (drule nat_less_cases32, elim insertE emptyE, simp_all del: One_nat_def, simp_all)+

lemma bit_bitrev_stages:
  assumes "n < 32"
  shows "bit (swap_stage 8 0x00FF00FF (swap_stage 4 0x0F0F0F0F
    (swap_stage 2 0x33333333 (swap_stage 1 0x55555555 x)))) n =
      bit x (if n < 16 then 15 - n else 47 - n)"
  using nat_less_cases32 [OF assms]
  by (elim insertE emptyE) (simp_all add: bit_swap_stage del: One_nat_def, simp)

lemma bit_bitrev:
  assumes "n < 32"
  shows "bit (psp_bitrev x) n = bit x (31 - n)"
proof -
  have b: "psp_bitrev x =
    (let y = swap_stage 8 0x00FF00FF (swap_stage 4 0x0F0F0F0F
               (swap_stage 2 0x33333333 (swap_stage 1 0x55555555 x)))
     in push_bit 16 y OR drop_bit 16 y)"
    by (simp add: psp_bitrev_def swap_stage_def Let_def)
  show ?thesis
  proof (cases "n < 16")
    case True
    then show ?thesis
      using bit_bitrev_stages [of "16 + n" x]
      unfolding b Let_def bit_or_iff bit_push_bit_iff bit_drop_bit_eq comp_def by simp
  next
    case False
    have e: "15 - (n - 16) = 31 - n" "n - 16 < 16" "n - 16 < 32" using False assms by simp_all
    have "\<not> bit y (16 + n)" for y :: u32
      using False bit_imp_le_length [of y "16 + n"] by auto
    then show ?thesis
      using False assms bit_bitrev_stages [of "n - 16" x, OF e(3)]
      unfolding b Let_def bit_or_iff bit_push_bit_iff bit_drop_bit_eq comp_def by (simp add: e)
  qed
qed


lemma bit_low_mask: "bit (2 ^ k - 1 :: u32) n \<longleftrightarrow> n < 32 \<and> n < k"
proof -
  have "(2 ^ k - 1 :: u32) = mask k" by (simp add: mask_eq_exp_minus_1)
  then show ?thesis by (simp add: bit_mask_iff)
qed

lemma bit_psp_ext:
  assumes "0 < unat sz" and "unat pos + unat sz \<le> 32"
  shows "bit (psp_ext x pos sz) n \<longleftrightarrow> n < unat sz \<and> bit x (unat pos + n)"
proof -
  have sz: "sz \<noteq> 0" "\<not> sz > 32" using assms by (auto simp: word_less_nat_alt)
  show ?thesis
  proof (cases "sz = 32")
    case True
    then have "n < 32" if "bit x (unat pos + n)" using bit_imp_le_length [OF that] by simp
    with True show ?thesis by (auto simp: psp_ext_def bit_drop_bit_eq)
  next
    case False
    have "unat sz \<noteq> unat (32 :: u32)" using False by (metis word_unat_eq_iff)
    then have "unat sz < 32" using assms(2) by simp
    with False sz show ?thesis
      by (auto simp: psp_ext_def bit_and_iff bit_low_mask bit_drop_bit_eq)
  qed
qed

lemma bit_psp_ins:
  assumes "0 < unat sz" and "unat pos + unat sz \<le> 32" and "n < 32"
  shows "bit (psp_ins d s pos sz) n \<longleftrightarrow>
    (if unat pos \<le> n \<and> n < unat pos + unat sz then bit s (n - unat pos) else bit d n)"
proof -
  have sz: "sz \<noteq> 0" "\<not> sz > 32" using assms by (auto simp: word_less_nat_alt)
  show ?thesis
  proof (cases "sz = 32")
    case True
    then have "unat pos = 0" using assms(2) by simp
    moreover have "(0xFFFFFFFF :: u32) = - 1" by simp
    ultimately show ?thesis
      using True assms(3) by (simp only: psp_ins_def Let_def) (simp add: bit_simps)
  next
    case False
    with sz assms(3) show ?thesis
      by (auto simp: psp_ins_def Let_def bit_or_iff bit_and_iff bit_not_iff bit_push_bit_iff bit_low_mask)
  qed
qed

section \<open>Comparison\<close>

lemma f32_eq_refl: "f32_eq a a \<longleftrightarrow> \<not> f32_nan a"
  by (simp add: f32_eq_def)

lemma fcond_cases:
  fixes cond :: u32
  shows "cond AND 0xF \<in> {0,1,2,3,4,5,6,7,8,9,10,11,12,13,14,15}"
proof -
  have "unat (cond AND 0xF) < 16"
    using and_mask_unat [of cond 4] by (simp add: mask_eq_exp_minus_1)
  then have "unat (cond AND 0xF) \<in> {0,1,2,3,4,5,6,7,8,9,10,11,12,13,14,15}" by simp presburger
  then have "of_nat (unat (cond AND 0xF)) \<in>
    (of_nat ` {0,1,2,3,4,5,6,7,8,9,10,11,12,13,14,15} :: u32 set)" by (rule imageI)
  then show ?thesis by simp
qed

lemma bit_fcond: "k < 4 \<Longrightarrow> bit (cond AND 0xF :: u32) k = bit cond k"
proof -
  assume k: "k < 4"
  have "(0xF :: u32) = mask 4" by (simp add: mask_eq_exp_minus_1)
  then show ?thesis using k by (simp only: bit_and_iff bit_mask_iff) (simp add: min_def)
qed


lemma psp_fcmp_bits:
  "psp_fcmp cond a b \<longleftrightarrow>
     (bit cond 0 \<and> (f32_nan a \<or> f32_nan b)) \<or> (bit cond 1 \<and> f32_eq a b) \<or> (bit cond 2 \<and> f32_lt a b)"
proof -
  have le: "f32_le a b \<longleftrightarrow> f32_eq a b \<or> f32_lt a b"
    by (auto simp: f32_le_def f32_eq_def f32_lt_def)
  define k where "k = cond AND 0xF"
  have bits: "bit cond 0 = bit k 0" "bit cond 1 = bit k 1" "bit cond 2 = bit k 2"
    unfolding k_def using bit_fcond [of 0 cond] bit_fcond [of 1 cond] bit_fcond [of 2 cond] by simp_all
  have "k \<in> {0,1,2,3,4,5,6,7,8,9,10,11,12,13,14,15}" unfolding k_def by (rule fcond_cases)
  then show ?thesis
    unfolding psp_fcmp_def Let_def bits k_def [symmetric] f32_eq_refl le
    by (elim insertE emptyE) (auto simp: f32_eq_def f32_lt_def)
qed

section \<open>Unaligned access\<close>

text \<open>All \<open>n\<close> bytes from \<open>a\<close> lie in one backing block, at consecutive offsets.\<close>

definition contiguous :: "psp_memory \<Rightarrow> u32 \<Rightarrow> nat \<Rightarrow> region \<Rightarrow> nat \<Rightarrow> bool" where
  "contiguous m a n rg off \<longleftrightarrow>
     (\<forall>i<n. psp_mem_ptr m (a + of_nat i) 1 = Some (rg, off + i))"

lemma contiguous_word:
  assumes "contiguous m a n rg off" and "j + 4 \<le> n"
  shows "psp_mem_ptr m (a + of_nat j) 4 = Some (rg, off + j)"
proof -
  have p: "psp_mem_ptr m (a + of_nat j) 1 = Some (rg, off + j)"
    and q: "psp_mem_ptr m (a + of_nat (j + 3)) 1 = Some (rg, off + (j + 3))"
    using assms(1) [unfolded contiguous_def, rule_format, of j]
      assms(1) [unfolded contiguous_def, rule_format, of "j + 3"] assms(2) by simp_all
  have "off + j + 4 \<le> region_size m rg"
    using psp_mem_ptr_SomeD(2) [OF q] by simp
  from psp_mem_ptr_widen [OF p this] show ?thesis by simp
qed

lemma peek_contiguous:
  assumes "contiguous m a n rg off" and "j + 4 \<le> n"
  shows "peek 4 m (a + of_nat j) =
    [store m rg (off + j), store m rg (off + j + 1), store m rg (off + j + 2), store m rg (off + j + 3)]"
  using contiguous_word [OF assms]
  by (simp add: peek_def load_bytes_def numeral_eq_Suc upt_rec)


lemma and_not_sub: "(x :: 'a::len word) AND NOT m = x - (x AND m)"
proof -
  have "(x AND NOT m) + (x AND m) = (x AND NOT m) OR (x AND m)"
    by (rule disjunctive_add) (auto simp: bit_simps)
  also have "\<dots> = x" by (rule word_bitI) (auto simp: bit_simps)
  finally show ?thesis by (metis add_diff_cancel_right')
qed

lemma unat_and_3: "unat (x AND 3 :: u32) = unat x mod 4"
  using and_mask_unat [of x 2] by (simp add: mask_eq_exp_minus_1)

lemma unat_add_and_3: "unat ((x + k) AND 3 :: u32) = (unat x + unat k) mod 4"
  by (simp add: unat_and_3 unat_word_ariths mod_mod_cancel)

text \<open>The byte offset and the container of the address three bytes on.\<close>

lemma container_next:
  fixes a :: u32
  defines "b \<equiv> unat (a AND 3)"
  shows "b < 4" and "unat ((a + 3) AND 3) = (b + 3) mod 4"
    and "(a + 3) AND NOT 3 = (a AND NOT 3) + of_nat (if b = 0 then 0 else 4)"
    and "a = (a AND NOT 3) + of_nat b"
proof -
  show b4: "b < 4" by (simp add: b_def unat_and_3)
  show nx: "unat ((a + 3) AND 3) = (b + 3) mod 4"
    by (simp only: b_def unat_add_and_3) (simp add: unat_and_3 mod_add_left_eq)
  have e: "(a + 3) AND 3 = of_nat ((b + 3) mod 4)" "a AND 3 = of_nat b"
    by (simp only: nx [symmetric] of_nat_unat ucast_id) (simp add: b_def)
  show "(a + 3) AND NOT 3 = (a AND NOT 3) + of_nat (if b = 0 then 0 else 4)"
  proof -
    have "b = 0 \<or> b = 1 \<or> b = 2 \<or> b = 3" using b4 by auto
    then show ?thesis
      unfolding and_not_sub [of "a + 3"] and_not_sub [of a] e
      by (elim disjE) simp_all
  qed
  show "a = (a AND NOT 3) + of_nat b" unfolding and_not_sub [of a 3] e by simp
qed

lemma lwl_lwr_value:
  "fst (psp_lwr (fst (psp_lwl old x M)) a M') =
     (((old AND PSP_LWL_MASK ! unat (x AND 3)) OR
       push_bit (PSP_LWL_SHIFT ! unat (x AND 3)) (word_of_bytes (peek 4 (mem M) (x AND NOT 3))))
      AND PSP_LWR_MASK ! unat (a AND 3)) OR
     drop_bit (PSP_LWR_SHIFT ! unat (a AND 3)) (word_of_bytes (peek 4 (mem M') (a AND NOT 3)))"
  by (simp add: psp_lwl_def psp_lwr_def psp_read32_def fst_read_body case_prod_beta Let_def)

lemma lwl_lwr_bytes:
  fixes s0 s1 s2 s3 s4 s5 s6 s7 :: u8 and old :: u32
  defines "w \<equiv> (\<lambda>xs. word_of_bytes xs :: u32)"
  shows
  "((old AND 0x00000000 OR push_bit 0 (w [s0,s1,s2,s3])) AND 0x00000000) OR
     drop_bit 0 (w [s0,s1,s2,s3]) = w [s0,s1,s2,s3]"
  "((old AND 0x00FFFFFF OR push_bit 24 (w [s4,s5,s6,s7])) AND 0xFF000000) OR
     drop_bit 8 (w [s0,s1,s2,s3]) = w [s1,s2,s3,s4]"
  "((old AND 0x0000FFFF OR push_bit 16 (w [s4,s5,s6,s7])) AND 0xFFFF0000) OR
     drop_bit 16 (w [s0,s1,s2,s3]) = w [s2,s3,s4,s5]"
  "((old AND 0x000000FF OR push_bit 8 (w [s4,s5,s6,s7])) AND 0xFFFFFF00) OR
     drop_bit 24 (w [s0,s1,s2,s3]) = w [s3,s4,s5,s6]"
  unfolding w_def
  by (rule u32_bitI_cases, elim insertE emptyE,
      simp_all add: bit_word_of_bytes bit_simps del: word_of_bytes.simps)+


lemma lwl_lwr_unaligned:
  assumes "contiguous (mem M) (a AND NOT 3) (if a AND 3 = 0 then 4 else 8) rg off"
    and "peek 4 (mem M') = peek 4 (mem M)"
  shows "fst (psp_lwr (fst (psp_lwl old (a + 3) M)) a M') = word_of_bytes (peek 4 (mem M) a)"
proof -
  define base b where "base = a AND NOT 3" and "b = unat (a AND 3)"
  note N = container_next [of a, folded b_def base_def]
  have b0: "a AND 3 = 0 \<longleftrightarrow> b = 0" by (simp add: b_def unat_eq_0)
  have C: "contiguous (mem M) base (if b = 0 then 4 else 8) rg off"
    using assms(1) by (simp add: base_def b0)
  have pa: "peek 4 (mem M) a = peek 4 (mem M) (base + of_nat b)" using N(4) by simp
  define g where "g i = store (mem M) rg (off + i)" for i
  have P: "peek 4 (mem M) (base + of_nat j) = [g j, g (j + 1), g (j + 2), g (j + 3)]"
    if "j = 0 \<or> b \<noteq> 0 \<and> j \<le> 4" for j
    using that peek_contiguous [OF C, of j] by (auto simp: g_def add.assoc)
  have P0: "peek 4 (mem M) base = [g 0, g 1, g 2, g 3]" using P [of 0] by (simp add: numeral_eq_Suc)
  have Pj: "peek 4 (mem M) (base + 1) = [g 1, g 2, g 3, g 4]"
    "peek 4 (mem M) (base + 2) = [g 2, g 3, g 4, g 5]"
    "peek 4 (mem M) (base + 3) = [g 3, g 4, g 5, g 6]"
    "peek 4 (mem M) (base + 4) = [g 4, g 5, g 6, g 7]" if "b \<noteq> 0"
    using P [of 1] P [of 2] P [of 3] P [of 4] that by (simp_all add: numeral_eq_Suc)
  note V = lwl_lwr_value [of old "a + 3" M a M', unfolded N(2,3) assms(2), folded base_def b_def, unfolded N(2,3)]
  note tables = PSP_LWL_MASK_def PSP_LWL_SHIFT_def PSP_LWR_MASK_def PSP_LWR_SHIFT_def
  consider "b = 0" | "b = 1" | "b = 2" | "b = 3" using N(1) by linarith
  then show ?thesis
    unfolding V pa
    by cases (simp_all add: P0 Pj tables lwl_lwr_bytes del: word_of_bytes.simps One_nat_def)
qed


lemma swl_bytes:
  fixes s0 s1 s2 s3 :: u8 and x :: u32
  defines "w \<equiv> (word_of_bytes [s0, s1, s2, s3] :: u32)"
    and "vb \<equiv> (\<lambda>i. ucast (drop_bit (8 * i) x) :: u8)"
  shows "bytes_of_word 4 ((w AND 0xFFFFFF00) OR drop_bit 24 x) = [vb 3, s1, s2, s3]"
    and "bytes_of_word 4 ((w AND 0xFFFF0000) OR drop_bit 16 x) = [vb 2, vb 3, s2, s3]"
    and "bytes_of_word 4 ((w AND 0xFF000000) OR drop_bit 8 x) = [vb 1, vb 2, vb 3, s3]"
    and "bytes_of_word 4 ((w AND 0x00000000) OR drop_bit 0 x) = [vb 0, vb 1, vb 2, vb 3]"
    and "bytes_of_word 4 ((w AND 0x00000000) OR push_bit 0 x) = [vb 0, vb 1, vb 2, vb 3]"
    and "bytes_of_word 4 ((w AND 0x000000FF) OR push_bit 8 x) = [s0, vb 0, vb 1, vb 2]"
    and "bytes_of_word 4 ((w AND 0x0000FFFF) OR push_bit 16 x) = [s0, s1, vb 0, vb 1]"
    and "bytes_of_word 4 ((w AND 0x00FFFFFF) OR push_bit 24 x) = [s0, s1, s2, vb 0]"
  unfolding w_def vb_def bytes_of_word_4 list.inject
  by (intro conjI TrueI refl; rule u8_bitI_cases; elim insertE emptyE;
      simp add: bit_word_of_bytes bit_simps del: word_of_bytes.simps)+


text \<open>Reading a word and writing it back changed, at a container that resolves to \<open>(rg, o1)\<close>.\<close>

lemma store_rmw:
  assumes p: "psp_mem_ptr (mem M) x 4 = Some (rg, o1)"
  shows "store (mem (psp_write32 x y (snd (psp_read32 x M)))) =
    store (store_bytes (rg, o1) (bytes_of_word 4 y) (mem M))"
proof -
  have "psp_mem_ptr (mem (snd (read_body 4 x M))) x 4 = Some (rg, o1)" using p by simp
  then show ?thesis
    by (simp add: psp_write32_def psp_read32_def mem_write_body) (simp add: store_bytes_def cong: if_cong)
qed

lemma swl_store:
  assumes "psp_mem_ptr (mem M) (x AND NOT 3) 4 = Some (rg, o1)"
  shows "store (mem (psp_swl val x M)) = store (store_bytes (rg, o1)
     (bytes_of_word 4 ((word_of_bytes (peek 4 (mem M) (x AND NOT 3)) AND PSP_SWL_MASK ! unat (x AND 3))
        OR drop_bit (PSP_SWL_SHIFT ! unat (x AND 3)) val)) (mem M))"
    and "psp_mem_ptr (mem (psp_swl val x M)) = psp_mem_ptr (mem M)"
  using store_rmw [OF assms]
  by (simp_all add: psp_swl_def Let_def case_prod_beta psp_read32_def fst_read_body psp_write32_def)

lemma swr_store:
  assumes "psp_mem_ptr (mem M) (x AND NOT 3) 4 = Some (rg, o1)"
  shows "store (mem (psp_swr val x M)) = store (store_bytes (rg, o1)
     (bytes_of_word 4 ((word_of_bytes (peek 4 (mem M) (x AND NOT 3)) AND PSP_SWR_MASK ! unat (x AND 3))
        OR push_bit (PSP_SWR_SHIFT ! unat (x AND 3)) val)) (mem M))"
  using store_rmw [OF assms]
  by (simp_all add: psp_swr_def Let_def case_prod_beta psp_read32_def fst_read_body)

lemma store_bytes_4:
  "store (store_bytes (rg, o1) [b0, b1, b2, b3] m) =
   (store m)(rg := (store m rg)(o1 := b0, o1 + 1 := b1, o1 + 2 := b2, o1 + 3 := b3))"
proof -
  have "x = o1 \<or> x = o1 + 1 \<or> x = o1 + 2 \<or> x = o1 + 3" if "o1 \<le> x" "x < o1 + 4" for x
    using that by arith
  then show ?thesis by (auto simp: store_bytes_def fun_eq_iff)
qed

lemma swl_swr_unaligned:
  assumes C: "contiguous (mem M) (a AND NOT 3) (if a AND 3 = 0 then 4 else 8) rg off"
  shows "store (mem (psp_swr val a (psp_swl val (a + 3) M))) =
    store (store_bytes (rg, off + unat (a AND 3)) (bytes_of_word 4 val) (mem M))"
proof -
  define base b where "base = a AND NOT 3" and "b = unat (a AND 3)"
  note N = container_next [of a, folded b_def base_def]
  have b0: "a AND 3 = 0 \<longleftrightarrow> b = 0" by (simp add: b_def unat_eq_0)
  define j where "j = (if b = 0 then 0 else 4 :: nat)"
  have Cb: "contiguous (mem M) base (j + 4) rg off"
    using C by (cases "b = 0") (simp_all add: base_def b0 j_def)
  define g where "g i = store (mem M) rg (off + i)" for i
  have P: "peek 4 (mem M) (base + of_nat j) = [g j, g (j + 1), g (j + 2), g (j + 3)]"
    using peek_contiguous [OF Cb, of j] by (simp add: g_def add.assoc)
  have ptr: "psp_mem_ptr (mem M) (base + of_nat j) 4 = Some (rg, off + j)"
    and ptr0: "psp_mem_ptr (mem M) base 4 = Some (rg, off)"
    using contiguous_word [OF Cb, of j] contiguous_word [OF Cb, of 0] by simp_all
  define M1 where "M1 = psp_swl val (a + 3) M"
  have nx: "(a + 3) AND NOT 3 = base + of_nat j" using N(3) by (simp add: j_def)
  note L = swl_store [of M "a + 3" rg "off + j" val, unfolded nx, OF ptr, folded M1_def,
      unfolded N(2) P]
  have ptr1: "psp_mem_ptr (mem M1) base 4 = Some (rg, off)" using L(2) ptr0 by simp
  have "peek 4 (mem M1) base = load_bytes (mem M1) (rg, off) 4"
    using ptr1 by (simp add: peek_def)
  then have P1: "peek 4 (mem M1) base =
     [store (mem M1) rg off, store (mem M1) rg (off + 1), store (mem M1) rg (off + 2), store (mem M1) rg (off + 3)]"
    by (simp add: load_bytes_def numeral_eq_Suc upt_rec)
  note R = swr_store [of M1 a rg off val, folded base_def b_def, OF ptr1, unfolded P1]
  note tables = PSP_SWL_MASK_def PSP_SWL_SHIFT_def PSP_SWR_MASK_def PSP_SWR_SHIFT_def
  have V: "bytes_of_word 4 val = map (\<lambda>i. ucast (drop_bit (8 * i) val)) [0, 1, 2, 3]"
    by (simp add: bytes_of_word_4)
  consider "b = 0" | "b = 1" | "b = 2" | "b = 3" using N(1) by linarith
  then show ?thesis
    unfolding M1_def [symmetric] b_def [symmetric] R
    by cases (simp_all add: L j_def tables swl_bytes store_bytes_4 V g_def
        del: word_of_bytes.simps One_nat_def, auto simp: fun_eq_iff add.commute)
qed


section \<open>Properties\<close>

text \<open>
  C24. The little-endian \<open>lwl\<close>/\<open>lwr\<close> idiom is one unaligned load: wherever the aligned containers
  of the word lie in one backing block, \<open>lwl rt, 3(a)\<close> followed by \<open>lwr rt, 0(a)\<close> leaves in
  \<open>rt\<close> exactly the four bytes a 32-bit read at \<open>a\<close> returns, whatever \<open>rt\<close> held before.
\<close>

theorem psp_lwl_lwr_is_unaligned_load:
  assumes "contiguous (mem M) (a AND NOT 3) (if a AND 3 = 0 then 4 else 8) rg off"
  shows "(let (t, M1) = psp_lwl old (a + 3) M in fst (psp_lwr t a M1)) = fst (psp_read32 a M)"
proof -
  have "peek 4 (mem (snd (psp_lwl old (a + 3) M))) = peek 4 (mem M)"
    by (simp add: psp_lwl_def Let_def case_prod_beta psp_read32_def)
  from lwl_lwr_unaligned [OF assms this, of old] show ?thesis
    by (simp add: psp_read32_def fst_read_body case_prod_beta)
qed

lemma contiguous_boot_8: "contiguous boot_mem 0x08000000 8 Ram 0"
proof -
  have "psp_mem_ptr boot_mem (0x08000000 + of_nat i) 1 = Some (Ram, 0 + i)" if "i < 8" for i
  proof -
    from that have "i = 0 \<or> i = 1 \<or> i = 2 \<or> i = 3 \<or> i = 4 \<or> i = 5 \<or> i = 6 \<or> i = 7" by arith
    then show ?thesis by (elim disjE) (simp_all add: psp_mem_ptr_def boot_mem_def)
  qed
  then show ?thesis unfolding contiguous_def by blast
qed

theorem psp_lwl_lwr_is_unaligned_load_witness:
  "(let (t, M1) = psp_lwl 7 0x08000005 boot_machine in fst (psp_lwr t 0x08000002 M1)) =
   fst (psp_read32 0x08000002 boot_machine)"
proof -
  have "contiguous (mem boot_machine) (0x08000002 AND NOT 3)
      (if (0x08000002 :: u32) AND 3 = 0 then 4 else 8) Ram 0"
    using contiguous_boot_8 by (simp add: boot_machine_def)
  from psp_lwl_lwr_is_unaligned_load [OF this, of 7] show ?thesis by simp
qed

text \<open>
  The \<open>swl\<close>/\<open>swr\<close> idiom is one unaligned store: under the same condition the pair changes the
  backing store exactly as copying the four bytes of the register to \<open>a\<close> would, and so leaves the
  neighbouring bytes of the containers as they were.
\<close>

theorem psp_swl_swr_is_unaligned_store:
  assumes "contiguous (mem M) (a AND NOT 3) (if a AND 3 = 0 then 4 else 8) rg off"
  shows "store (mem (psp_swr val a (psp_swl val (a + 3) M))) =
    store (store_bytes (rg, off + unat (a AND 3)) (bytes_of_word 4 val) (mem M))"
  using assms by (rule swl_swr_unaligned)

theorem psp_swl_swr_is_unaligned_store_witness:
  "store (mem (psp_swr 0xA1B2C3D4 0x08000003 (psp_swl 0xA1B2C3D4 0x08000006 boot_machine))) =
   store (store_bytes (Ram, 3) (bytes_of_word 4 (0xA1B2C3D4 :: u32)) (mem boot_machine))"
proof -
  have "contiguous (mem boot_machine) (0x08000003 AND NOT 3)
      (if (0x08000003 :: u32) AND 3 = 0 then 4 else 8) Ram 0"
    using contiguous_boot_8 by (simp add: boot_machine_def)
  from psp_swl_swr_is_unaligned_store [OF this, of "0xA1B2C3D4"] show ?thesis by simp
qed

text \<open>
  \<open>div\<close> never depends on host undefined behaviour and is exact: LO times the divisor plus HI is
  the dividend modulo \<open>2\<^sup>3\<^sup>2\<close> on every pair of operands, division by zero and \<open>INT_MIN / -1\<close>
  included; outside those two cases LO and HI are the truncated quotient and remainder.
\<close>

theorem psp_div_truncates:
  "lo (psp_div a b c) * b + hi (psp_div a b c) = a \<and>
   (b \<noteq> 0 \<and> \<not> (sint a = - 2147483648 \<and> sint b = -1) \<longrightarrow>
      sint (lo (psp_div a b c)) = sint a sdiv sint b \<and>
      sint (hi (psp_div a b c)) = sint a smod sint b) \<and>
   (b = 0 \<longrightarrow> hi (psp_div a b c) = a \<and> sint (lo (psp_div a b c)) = (if sint a < 0 then 1 else -1))"
  using psp_div_identity [of a b c] psp_div_quotient [of b a c]
  by (auto simp: psp_div_def Let_def)

theorem psp_div_truncates_witness:
  "sint (lo (psp_div (-7) 2 psp_cpu_reset)) = -3 \<and> sint (hi (psp_div (-7) 2 psp_cpu_reset)) = -1"
  using psp_div_truncates [of "-7" 2 psp_cpu_reset] by simp

text \<open>
  The multiply family keeps HI:LO as one 64-bit accumulator: \<open>mult\<close> and \<open>multu\<close> set it to the
  exact signed or unsigned product of the operands, and \<open>madd\<close>, \<open>maddu\<close>, \<open>msub\<close>, \<open>msubu\<close> add or
  subtract that product modulo \<open>2\<^sup>6\<^sup>4\<close>.
\<close>

theorem psp_multiply_accumulate:
  "sint (hilo (psp_mult a b c)) = sint a * sint b \<and>
   uint (hilo (psp_multu a b c)) = uint a * uint b \<and>
   hilo (psp_madd a b c) = hilo c + word_of_int (sint a * sint b) \<and>
   hilo (psp_maddu a b c) = hilo c + word_of_int (uint a * uint b) \<and>
   hilo (psp_msub a b c) = hilo c - word_of_int (sint a * sint b) \<and>
   hilo (psp_msubu a b c) = hilo c - word_of_int (uint a * uint b)"
  using sint_product [of a b] uint_product [of a b]
  by (simp add: hilo_mult hilo_multu psp_madd_def psp_maddu_def psp_msub_def psp_msubu_def)

text \<open>
  \<open>bitrev\<close> reverses the word: bit \<open>n\<close> of the result is bit \<open>31 - n\<close> of the operand, so the
  five-stage swap network is its own inverse.
\<close>

theorem psp_bitrev_reverses:
  "(\<forall>n<32. bit (psp_bitrev x) n = bit x (31 - n)) \<and> psp_bitrev (psp_bitrev x) = x"
  by (auto simp: bit_bitrev intro!: word_bitI)

theorem psp_bitrev_reverses_witness:
  "bit (psp_bitrev 0x80000001) 0 = bit (0x80000001 :: u32) 31 \<and> psp_bitrev (psp_bitrev 0x12345678) = 0x12345678"
  using psp_bitrev_reverses [of "0x80000001"] psp_bitrev_reverses [of "0x12345678"] by simp

text \<open>
  \<open>clz\<close> counts leading zeros: on a non-zero word its loop ends with the number of zero bits
  above the highest set bit, and on zero the result is 32.
\<close>

theorem psp_clz_counts_leading_zeros:
  "psp_clz 0 = 32 \<and>
   (x \<noteq> 0 \<longrightarrow> (\<exists>k\<le>31. unat (psp_clz x) = k \<and> bit x (31 - k) \<and>
                    (\<forall>j. 31 - k < j \<longrightarrow> \<not> bit x j)))"
proof (intro conjI impI)
  show "psp_clz 0 = 32" by (simp add: psp_clz_def)
next
  assume "x \<noteq> 0"
  moreover have "\<not> bit x j" if "31 < j" for j using bit_imp_le_length [of x j] that by auto
  ultimately show "\<exists>k\<le>31. unat (psp_clz x) = k \<and> bit x (31 - k) \<and> (\<forall>j. 31 - k < j \<longrightarrow> \<not> bit x j)"
    using psp_clz_bits [of x] by (metis not_le_imp_less)
qed

theorem psp_clz_counts_leading_zeros_witness:
  "\<exists>k\<le>31. unat (psp_clz 0x00010000) = k \<and> bit (0x00010000 :: u32) (31 - k)"
  using psp_clz_counts_leading_zeros [of "0x00010000"] by auto

text \<open>
  \<open>ins\<close> and \<open>ext\<close> are inverse on the field: for a field of at least one bit that ends inside
  the word, \<open>ins\<close> changes exactly the bits of the field, to the low bits of the source, and \<open>ext\<close>
  reads those bits back.
\<close>

theorem psp_ins_ext_field:
  assumes "0 < unat sz" and "unat pos + unat sz \<le> 32"
  shows "psp_ext (psp_ins d s pos sz) pos sz = s AND mask (unat sz) \<and>
    (\<forall>n<32. n < unat pos \<or> unat pos + unat sz \<le> n \<longrightarrow> bit (psp_ins d s pos sz) n = bit d n)"
  using assms
  by (auto simp: bit_psp_ext bit_psp_ins bit_and_iff bit_mask_iff intro!: word_bitI)

theorem psp_ins_ext_field_witness:
  "psp_ext (psp_ins 0xFFFFFFFF 0x5A 4 8) 4 8 = 0x5A AND mask (unat (8 :: u32))"
  using psp_ins_ext_field [of 8 4 "0xFFFFFFFF" "0x5A"] by simp

text \<open>
  \<open>c.cond.s\<close> has the architecture's meaning: the sixteen-way switch is the disjunction the
  condition's three low bits select, unordered (bit 0), equal (bit 1) and less than (bit 2); in
  particular with a NaN operand the result is bit 0 alone.
\<close>

theorem psp_fcmp_condition_bits:
  "psp_fcmp cond a b \<longleftrightarrow>
     (bit cond 0 \<and> (f32_nan a \<or> f32_nan b)) \<or> (bit cond 1 \<and> f32_eq a b) \<or> (bit cond 2 \<and> f32_lt a b)"
  by (rule psp_fcmp_bits)

end
