(* ===== verification/Opcodes.thy ===== *)
theory Opcodes
  imports Prelude
begin

text \<open>
  The instruction vocabulary of the decoder: the enumeration \<^verbatim>\<open>a_op\<close> and the operand formats
  \<^verbatim>\<open>a_fmt\<close> of \<^verbatim>\<open>tools/allegrexrecomp/decode.h\<close>, and the designated-initialiser table \<^verbatim>\<open>OPINFO\<close>,
  the register names and \<^verbatim>\<open>a_mnemonic\<close> of \<^verbatim>\<open>decode.c\<close>.

  A C enumeration is its integers, and \<^verbatim>\<open>a_mnemonic\<close> and \<^verbatim>\<open>a_decode\<close> compare operations with \<open><\<close>
  and index \<^verbatim>\<open>OPINFO\<close> with them, so \<open>a_op\<close> is \<open>nat\<close> with one abbreviation per enumerator, in the
  order of the header.
\<close>

section \<open>Operations\<close>

type_synonym a_op = nat

abbreviation (input) A_INVALID :: a_op where "A_INVALID \<equiv> 0"
abbreviation (input) A_SLL :: a_op where "A_SLL \<equiv> 1"
abbreviation (input) A_SRL :: a_op where "A_SRL \<equiv> 2"
abbreviation (input) A_SRA :: a_op where "A_SRA \<equiv> 3"
abbreviation (input) A_SLLV :: a_op where "A_SLLV \<equiv> 4"
abbreviation (input) A_SRLV :: a_op where "A_SRLV \<equiv> 5"
abbreviation (input) A_SRAV :: a_op where "A_SRAV \<equiv> 6"
abbreviation (input) A_ROTR :: a_op where "A_ROTR \<equiv> 7"
abbreviation (input) A_ROTRV :: a_op where "A_ROTRV \<equiv> 8"
abbreviation (input) A_JR :: a_op where "A_JR \<equiv> 9"
abbreviation (input) A_JALR :: a_op where "A_JALR \<equiv> 10"
abbreviation (input) A_MOVZ :: a_op where "A_MOVZ \<equiv> 11"
abbreviation (input) A_MOVN :: a_op where "A_MOVN \<equiv> 12"
abbreviation (input) A_SYSCALL :: a_op where "A_SYSCALL \<equiv> 13"
abbreviation (input) A_BREAK :: a_op where "A_BREAK \<equiv> 14"
abbreviation (input) A_SYNC :: a_op where "A_SYNC \<equiv> 15"
abbreviation (input) A_MFHI :: a_op where "A_MFHI \<equiv> 16"
abbreviation (input) A_MTHI :: a_op where "A_MTHI \<equiv> 17"
abbreviation (input) A_MFLO :: a_op where "A_MFLO \<equiv> 18"
abbreviation (input) A_MTLO :: a_op where "A_MTLO \<equiv> 19"
abbreviation (input) A_CLZ :: a_op where "A_CLZ \<equiv> 20"
abbreviation (input) A_CLO :: a_op where "A_CLO \<equiv> 21"
abbreviation (input) A_MULT :: a_op where "A_MULT \<equiv> 22"
abbreviation (input) A_MULTU :: a_op where "A_MULTU \<equiv> 23"
abbreviation (input) A_DIV :: a_op where "A_DIV \<equiv> 24"
abbreviation (input) A_DIVU :: a_op where "A_DIVU \<equiv> 25"
abbreviation (input) A_MADD :: a_op where "A_MADD \<equiv> 26"
abbreviation (input) A_MADDU :: a_op where "A_MADDU \<equiv> 27"
abbreviation (input) A_MSUB :: a_op where "A_MSUB \<equiv> 28"
abbreviation (input) A_MSUBU :: a_op where "A_MSUBU \<equiv> 29"
abbreviation (input) A_ADD :: a_op where "A_ADD \<equiv> 30"
abbreviation (input) A_ADDU :: a_op where "A_ADDU \<equiv> 31"
abbreviation (input) A_SUB :: a_op where "A_SUB \<equiv> 32"
abbreviation (input) A_SUBU :: a_op where "A_SUBU \<equiv> 33"
abbreviation (input) A_AND :: a_op where "A_AND \<equiv> 34"
abbreviation (input) A_OR :: a_op where "A_OR \<equiv> 35"
abbreviation (input) A_XOR :: a_op where "A_XOR \<equiv> 36"
abbreviation (input) A_NOR :: a_op where "A_NOR \<equiv> 37"
abbreviation (input) A_SLT :: a_op where "A_SLT \<equiv> 38"
abbreviation (input) A_SLTU :: a_op where "A_SLTU \<equiv> 39"
abbreviation (input) A_MAX :: a_op where "A_MAX \<equiv> 40"
abbreviation (input) A_MIN :: a_op where "A_MIN \<equiv> 41"
abbreviation (input) A_BLTZ :: a_op where "A_BLTZ \<equiv> 42"
abbreviation (input) A_BGEZ :: a_op where "A_BGEZ \<equiv> 43"
abbreviation (input) A_BLTZL :: a_op where "A_BLTZL \<equiv> 44"
abbreviation (input) A_BGEZL :: a_op where "A_BGEZL \<equiv> 45"
abbreviation (input) A_BLTZAL :: a_op where "A_BLTZAL \<equiv> 46"
abbreviation (input) A_BGEZAL :: a_op where "A_BGEZAL \<equiv> 47"
abbreviation (input) A_BLTZALL :: a_op where "A_BLTZALL \<equiv> 48"
abbreviation (input) A_BGEZALL :: a_op where "A_BGEZALL \<equiv> 49"
abbreviation (input) A_J :: a_op where "A_J \<equiv> 50"
abbreviation (input) A_JAL :: a_op where "A_JAL \<equiv> 51"
abbreviation (input) A_BEQ :: a_op where "A_BEQ \<equiv> 52"
abbreviation (input) A_BNE :: a_op where "A_BNE \<equiv> 53"
abbreviation (input) A_BLEZ :: a_op where "A_BLEZ \<equiv> 54"
abbreviation (input) A_BGTZ :: a_op where "A_BGTZ \<equiv> 55"
abbreviation (input) A_BEQL :: a_op where "A_BEQL \<equiv> 56"
abbreviation (input) A_BNEL :: a_op where "A_BNEL \<equiv> 57"
abbreviation (input) A_BLEZL :: a_op where "A_BLEZL \<equiv> 58"
abbreviation (input) A_BGTZL :: a_op where "A_BGTZL \<equiv> 59"
abbreviation (input) A_ADDI :: a_op where "A_ADDI \<equiv> 60"
abbreviation (input) A_ADDIU :: a_op where "A_ADDIU \<equiv> 61"
abbreviation (input) A_SLTI :: a_op where "A_SLTI \<equiv> 62"
abbreviation (input) A_SLTIU :: a_op where "A_SLTIU \<equiv> 63"
abbreviation (input) A_ANDI :: a_op where "A_ANDI \<equiv> 64"
abbreviation (input) A_ORI :: a_op where "A_ORI \<equiv> 65"
abbreviation (input) A_XORI :: a_op where "A_XORI \<equiv> 66"
abbreviation (input) A_LUI :: a_op where "A_LUI \<equiv> 67"
abbreviation (input) A_EXT :: a_op where "A_EXT \<equiv> 68"
abbreviation (input) A_INS :: a_op where "A_INS \<equiv> 69"
abbreviation (input) A_WSBH :: a_op where "A_WSBH \<equiv> 70"
abbreviation (input) A_WSBW :: a_op where "A_WSBW \<equiv> 71"
abbreviation (input) A_SEB :: a_op where "A_SEB \<equiv> 72"
abbreviation (input) A_SEH :: a_op where "A_SEH \<equiv> 73"
abbreviation (input) A_BITREV :: a_op where "A_BITREV \<equiv> 74"
abbreviation (input) A_LB :: a_op where "A_LB \<equiv> 75"
abbreviation (input) A_LH :: a_op where "A_LH \<equiv> 76"
abbreviation (input) A_LWL :: a_op where "A_LWL \<equiv> 77"
abbreviation (input) A_LW :: a_op where "A_LW \<equiv> 78"
abbreviation (input) A_LBU :: a_op where "A_LBU \<equiv> 79"
abbreviation (input) A_LHU :: a_op where "A_LHU \<equiv> 80"
abbreviation (input) A_LWR :: a_op where "A_LWR \<equiv> 81"
abbreviation (input) A_SB :: a_op where "A_SB \<equiv> 82"
abbreviation (input) A_SH :: a_op where "A_SH \<equiv> 83"
abbreviation (input) A_SWL :: a_op where "A_SWL \<equiv> 84"
abbreviation (input) A_SW :: a_op where "A_SW \<equiv> 85"
abbreviation (input) A_SWR :: a_op where "A_SWR \<equiv> 86"
abbreviation (input) A_LL :: a_op where "A_LL \<equiv> 87"
abbreviation (input) A_SC :: a_op where "A_SC \<equiv> 88"
abbreviation (input) A_CACHE :: a_op where "A_CACHE \<equiv> 89"
abbreviation (input) A_PREF :: a_op where "A_PREF \<equiv> 90"
abbreviation (input) A_MFC0 :: a_op where "A_MFC0 \<equiv> 91"
abbreviation (input) A_MTC0 :: a_op where "A_MTC0 \<equiv> 92"
abbreviation (input) A_CFC0 :: a_op where "A_CFC0 \<equiv> 93"
abbreviation (input) A_CTC0 :: a_op where "A_CTC0 \<equiv> 94"
abbreviation (input) A_MFIC :: a_op where "A_MFIC \<equiv> 95"
abbreviation (input) A_MTIC :: a_op where "A_MTIC \<equiv> 96"
abbreviation (input) A_ERET :: a_op where "A_ERET \<equiv> 97"
abbreviation (input) A_MFC1 :: a_op where "A_MFC1 \<equiv> 98"
abbreviation (input) A_CFC1 :: a_op where "A_CFC1 \<equiv> 99"
abbreviation (input) A_MTC1 :: a_op where "A_MTC1 \<equiv> 100"
abbreviation (input) A_CTC1 :: a_op where "A_CTC1 \<equiv> 101"
abbreviation (input) A_BC1F :: a_op where "A_BC1F \<equiv> 102"
abbreviation (input) A_BC1T :: a_op where "A_BC1T \<equiv> 103"
abbreviation (input) A_BC1FL :: a_op where "A_BC1FL \<equiv> 104"
abbreviation (input) A_BC1TL :: a_op where "A_BC1TL \<equiv> 105"
abbreviation (input) A_ADD_S :: a_op where "A_ADD_S \<equiv> 106"
abbreviation (input) A_SUB_S :: a_op where "A_SUB_S \<equiv> 107"
abbreviation (input) A_MUL_S :: a_op where "A_MUL_S \<equiv> 108"
abbreviation (input) A_DIV_S :: a_op where "A_DIV_S \<equiv> 109"
abbreviation (input) A_SQRT_S :: a_op where "A_SQRT_S \<equiv> 110"
abbreviation (input) A_ABS_S :: a_op where "A_ABS_S \<equiv> 111"
abbreviation (input) A_MOV_S :: a_op where "A_MOV_S \<equiv> 112"
abbreviation (input) A_NEG_S :: a_op where "A_NEG_S \<equiv> 113"
abbreviation (input) A_ROUND_W_S :: a_op where "A_ROUND_W_S \<equiv> 114"
abbreviation (input) A_TRUNC_W_S :: a_op where "A_TRUNC_W_S \<equiv> 115"
abbreviation (input) A_CEIL_W_S :: a_op where "A_CEIL_W_S \<equiv> 116"
abbreviation (input) A_FLOOR_W_S :: a_op where "A_FLOOR_W_S \<equiv> 117"
abbreviation (input) A_CVT_W_S :: a_op where "A_CVT_W_S \<equiv> 118"
abbreviation (input) A_CVT_S_W :: a_op where "A_CVT_S_W \<equiv> 119"
abbreviation (input) A_C_COND_S :: a_op where "A_C_COND_S \<equiv> 120"
abbreviation (input) A_LWC1 :: a_op where "A_LWC1 \<equiv> 121"
abbreviation (input) A_SWC1 :: a_op where "A_SWC1 \<equiv> 122"
abbreviation (input) A_MFV :: a_op where "A_MFV \<equiv> 123"
abbreviation (input) A_MTV :: a_op where "A_MTV \<equiv> 124"
abbreviation (input) A_MFVC :: a_op where "A_MFVC \<equiv> 125"
abbreviation (input) A_MTVC :: a_op where "A_MTVC \<equiv> 126"
abbreviation (input) A_BVF :: a_op where "A_BVF \<equiv> 127"
abbreviation (input) A_BVT :: a_op where "A_BVT \<equiv> 128"
abbreviation (input) A_BVFL :: a_op where "A_BVFL \<equiv> 129"
abbreviation (input) A_BVTL :: a_op where "A_BVTL \<equiv> 130"
abbreviation (input) A_LV_S :: a_op where "A_LV_S \<equiv> 131"
abbreviation (input) A_LV_Q :: a_op where "A_LV_Q \<equiv> 132"
abbreviation (input) A_SV_S :: a_op where "A_SV_S \<equiv> 133"
abbreviation (input) A_SV_Q :: a_op where "A_SV_Q \<equiv> 134"
abbreviation (input) A_LVL_Q :: a_op where "A_LVL_Q \<equiv> 135"
abbreviation (input) A_LVR_Q :: a_op where "A_LVR_Q \<equiv> 136"
abbreviation (input) A_SVL_Q :: a_op where "A_SVL_Q \<equiv> 137"
abbreviation (input) A_SVR_Q :: a_op where "A_SVR_Q \<equiv> 138"
abbreviation (input) A_VADD :: a_op where "A_VADD \<equiv> 139"
abbreviation (input) A_VSUB :: a_op where "A_VSUB \<equiv> 140"
abbreviation (input) A_VDIV :: a_op where "A_VDIV \<equiv> 141"
abbreviation (input) A_VMUL :: a_op where "A_VMUL \<equiv> 142"
abbreviation (input) A_VDOT :: a_op where "A_VDOT \<equiv> 143"
abbreviation (input) A_VSCL :: a_op where "A_VSCL \<equiv> 144"
abbreviation (input) A_VHDP :: a_op where "A_VHDP \<equiv> 145"
abbreviation (input) A_VCRS :: a_op where "A_VCRS \<equiv> 146"
abbreviation (input) A_VDET :: a_op where "A_VDET \<equiv> 147"
abbreviation (input) A_VCMP :: a_op where "A_VCMP \<equiv> 148"
abbreviation (input) A_VMIN :: a_op where "A_VMIN \<equiv> 149"
abbreviation (input) A_VMAX :: a_op where "A_VMAX \<equiv> 150"
abbreviation (input) A_VSCMP :: a_op where "A_VSCMP \<equiv> 151"
abbreviation (input) A_VSGE :: a_op where "A_VSGE \<equiv> 152"
abbreviation (input) A_VSLT :: a_op where "A_VSLT \<equiv> 153"
abbreviation (input) A_VMOV :: a_op where "A_VMOV \<equiv> 154"
abbreviation (input) A_VABS :: a_op where "A_VABS \<equiv> 155"
abbreviation (input) A_VNEG :: a_op where "A_VNEG \<equiv> 156"
abbreviation (input) A_VZERO :: a_op where "A_VZERO \<equiv> 157"
abbreviation (input) A_VONE :: a_op where "A_VONE \<equiv> 158"
abbreviation (input) A_VRCP :: a_op where "A_VRCP \<equiv> 159"
abbreviation (input) A_VRSQ :: a_op where "A_VRSQ \<equiv> 160"
abbreviation (input) A_VSQRT :: a_op where "A_VSQRT \<equiv> 161"
abbreviation (input) A_VSIN :: a_op where "A_VSIN \<equiv> 162"
abbreviation (input) A_VCOS :: a_op where "A_VCOS \<equiv> 163"
abbreviation (input) A_VEXP2 :: a_op where "A_VEXP2 \<equiv> 164"
abbreviation (input) A_VLOG2 :: a_op where "A_VLOG2 \<equiv> 165"
abbreviation (input) A_VI2F :: a_op where "A_VI2F \<equiv> 166"
abbreviation (input) A_VF2I :: a_op where "A_VF2I \<equiv> 167"
abbreviation (input) A_VPFXS :: a_op where "A_VPFXS \<equiv> 168"
abbreviation (input) A_VPFXT :: a_op where "A_VPFXT \<equiv> 169"
abbreviation (input) A_VPFXD :: a_op where "A_VPFXD \<equiv> 170"
abbreviation (input) A_VIDT :: a_op where "A_VIDT \<equiv> 171"
abbreviation (input) A_VSAT0 :: a_op where "A_VSAT0 \<equiv> 172"
abbreviation (input) A_VSAT1 :: a_op where "A_VSAT1 \<equiv> 173"
abbreviation (input) A_VASIN :: a_op where "A_VASIN \<equiv> 174"
abbreviation (input) A_VNRCP :: a_op where "A_VNRCP \<equiv> 175"
abbreviation (input) A_VNSIN :: a_op where "A_VNSIN \<equiv> 176"
abbreviation (input) A_VREXP2 :: a_op where "A_VREXP2 \<equiv> 177"
abbreviation (input) A_VCST :: a_op where "A_VCST \<equiv> 178"
abbreviation (input) A_VF2IN :: a_op where "A_VF2IN \<equiv> 179"
abbreviation (input) A_VF2IZ :: a_op where "A_VF2IZ \<equiv> 180"
abbreviation (input) A_VF2IU :: a_op where "A_VF2IU \<equiv> 181"
abbreviation (input) A_VF2ID :: a_op where "A_VF2ID \<equiv> 182"
abbreviation (input) A_VCMOV :: a_op where "A_VCMOV \<equiv> 183"
abbreviation (input) A_VWBN :: a_op where "A_VWBN \<equiv> 184"
abbreviation (input) A_VMMUL :: a_op where "A_VMMUL \<equiv> 185"
abbreviation (input) A_VTFM2 :: a_op where "A_VTFM2 \<equiv> 186"
abbreviation (input) A_VTFM3 :: a_op where "A_VTFM3 \<equiv> 187"
abbreviation (input) A_VTFM4 :: a_op where "A_VTFM4 \<equiv> 188"
abbreviation (input) A_VMSCL :: a_op where "A_VMSCL \<equiv> 189"
abbreviation (input) A_VCRSP :: a_op where "A_VCRSP \<equiv> 190"
abbreviation (input) A_VROT :: a_op where "A_VROT \<equiv> 191"
abbreviation (input) A_VMMOV :: a_op where "A_VMMOV \<equiv> 192"
abbreviation (input) A_VMIDT :: a_op where "A_VMIDT \<equiv> 193"
abbreviation (input) A_VMZERO :: a_op where "A_VMZERO \<equiv> 194"
abbreviation (input) A_VMONE :: a_op where "A_VMONE \<equiv> 195"
abbreviation (input) A_VI2UC :: a_op where "A_VI2UC \<equiv> 196"
abbreviation (input) A_VI2C :: a_op where "A_VI2C \<equiv> 197"
abbreviation (input) A_VI2US :: a_op where "A_VI2US \<equiv> 198"
abbreviation (input) A_VI2S :: a_op where "A_VI2S \<equiv> 199"
abbreviation (input) A_VUC2I :: a_op where "A_VUC2I \<equiv> 200"
abbreviation (input) A_VC2I :: a_op where "A_VC2I \<equiv> 201"
abbreviation (input) A_VUS2I :: a_op where "A_VUS2I \<equiv> 202"
abbreviation (input) A_VS2I :: a_op where "A_VS2I \<equiv> 203"
abbreviation (input) A_VOCP :: a_op where "A_VOCP \<equiv> 204"
abbreviation (input) A_VSGN :: a_op where "A_VSGN \<equiv> 205"
abbreviation (input) A_VNOP :: a_op where "A_VNOP \<equiv> 206"
abbreviation (input) A_VIIM :: a_op where "A_VIIM \<equiv> 207"
abbreviation (input) A_VFIM :: a_op where "A_VFIM \<equiv> 208"
abbreviation (input) A_VFPU_UNKNOWN :: a_op where "A_VFPU_UNKNOWN \<equiv> 209"
abbreviation (input) A_NOP :: a_op where "A_NOP \<equiv> 210"
abbreviation (input) A_OP_COUNT :: a_op where "A_OP_COUNT \<equiv> 211"

section \<open>Operand formats\<close>

datatype a_fmt =
    F_NONE
  | F_RD_RS_RT
  | F_RT_RS_IMM
  | F_RT_RS_UIMM
  | F_RD_RT_SA
  | F_RD_RT_RS
  | F_RS_RT_OFF
  | F_RS_OFF
  | F_TARGET
  | F_RS
  | F_RD_RS
  | F_RD_RT
  | F_RD
  | F_RS_RT
  | F_RT_IMM
  | F_RT_OFF_BASE
  | F_FT_OFF_BASE
  | F_RT_FS
  | F_FD_FS_FT
  | F_FD_FS
  | F_FS_FT
  | F_OFF
  | F_CODE
  | F_RT_RS_POS_SZ
  | F_RD_RS_RT_SA
  | F_VD_VS_VT
  | F_VD_VS
  | F_VT_OFF_BASE
  | F_RT_VD
  | F_UNKNOWN

section \<open>The mnemonic and format table\<close>

text \<open>The table in two parts, the scalar operations and the VFPU, in the order of the source.\<close>

definition OPINFO_scalar :: "(a_op \<times> string \<times> a_fmt) list" where
  "OPINFO_scalar =
    [(A_INVALID, ''?'', F_UNKNOWN),
     (A_NOP, ''nop'', F_NONE),
     (A_SLL, ''sll'', F_RD_RT_SA),
     (A_SRL, ''srl'', F_RD_RT_SA),
     (A_SRA, ''sra'', F_RD_RT_SA),
     (A_ROTR, ''rotr'', F_RD_RT_SA),
     (A_SLLV, ''sllv'', F_RD_RT_RS),
     (A_SRLV, ''srlv'', F_RD_RT_RS),
     (A_SRAV, ''srav'', F_RD_RT_RS),
     (A_ROTRV, ''rotrv'', F_RD_RT_RS),
     (A_JR, ''jr'', F_RS),
     (A_JALR, ''jalr'', F_RD_RS),
     (A_MOVZ, ''movz'', F_RD_RS_RT),
     (A_MOVN, ''movn'', F_RD_RS_RT),
     (A_SYSCALL, ''syscall'', F_CODE),
     (A_BREAK, ''break'', F_CODE),
     (A_SYNC, ''sync'', F_NONE),
     (A_MFHI, ''mfhi'', F_RD),
     (A_MTHI, ''mthi'', F_RS),
     (A_MFLO, ''mflo'', F_RD),
     (A_MTLO, ''mtlo'', F_RS),
     (A_CLZ, ''clz'', F_RD_RS),
     (A_CLO, ''clo'', F_RD_RS),
     (A_MULT, ''mult'', F_RS_RT),
     (A_MULTU, ''multu'', F_RS_RT),
     (A_DIV, ''div'', F_RS_RT),
     (A_DIVU, ''divu'', F_RS_RT),
     (A_MADD, ''madd'', F_RS_RT),
     (A_MADDU, ''maddu'', F_RS_RT),
     (A_MSUB, ''msub'', F_RS_RT),
     (A_MSUBU, ''msubu'', F_RS_RT),
     (A_ADD, ''add'', F_RD_RS_RT),
     (A_ADDU, ''addu'', F_RD_RS_RT),
     (A_SUB, ''sub'', F_RD_RS_RT),
     (A_SUBU, ''subu'', F_RD_RS_RT),
     (A_AND, ''and'', F_RD_RS_RT),
     (A_OR, ''or'', F_RD_RS_RT),
     (A_XOR, ''xor'', F_RD_RS_RT),
     (A_NOR, ''nor'', F_RD_RS_RT),
     (A_SLT, ''slt'', F_RD_RS_RT),
     (A_SLTU, ''sltu'', F_RD_RS_RT),
     (A_MAX, ''max'', F_RD_RS_RT),
     (A_MIN, ''min'', F_RD_RS_RT),
     (A_BLTZ, ''bltz'', F_RS_OFF),
     (A_BGEZ, ''bgez'', F_RS_OFF),
     (A_BLTZL, ''bltzl'', F_RS_OFF),
     (A_BGEZL, ''bgezl'', F_RS_OFF),
     (A_BLTZAL, ''bltzal'', F_RS_OFF),
     (A_BGEZAL, ''bgezal'', F_RS_OFF),
     (A_BLTZALL, ''bltzall'', F_RS_OFF),
     (A_BGEZALL, ''bgezall'', F_RS_OFF),
     (A_J, ''j'', F_TARGET),
     (A_JAL, ''jal'', F_TARGET),
     (A_BEQ, ''beq'', F_RS_RT_OFF),
     (A_BNE, ''bne'', F_RS_RT_OFF),
     (A_BLEZ, ''blez'', F_RS_OFF),
     (A_BGTZ, ''bgtz'', F_RS_OFF),
     (A_BEQL, ''beql'', F_RS_RT_OFF),
     (A_BNEL, ''bnel'', F_RS_RT_OFF),
     (A_BLEZL, ''blezl'', F_RS_OFF),
     (A_BGTZL, ''bgtzl'', F_RS_OFF),
     (A_ADDI, ''addi'', F_RT_RS_IMM),
     (A_ADDIU, ''addiu'', F_RT_RS_IMM),
     (A_SLTI, ''slti'', F_RT_RS_IMM),
     (A_SLTIU, ''sltiu'', F_RT_RS_IMM),
     (A_ANDI, ''andi'', F_RT_RS_UIMM),
     (A_ORI, ''ori'', F_RT_RS_UIMM),
     (A_XORI, ''xori'', F_RT_RS_UIMM),
     (A_LUI, ''lui'', F_RT_IMM),
     (A_EXT, ''ext'', F_RT_RS_POS_SZ),
     (A_INS, ''ins'', F_RT_RS_POS_SZ),
     (A_WSBH, ''wsbh'', F_RD_RT),
     (A_WSBW, ''wsbw'', F_RD_RT),
     (A_SEB, ''seb'', F_RD_RT),
     (A_SEH, ''seh'', F_RD_RT),
     (A_BITREV, ''bitrev'', F_RD_RT),
     (A_LB, ''lb'', F_RT_OFF_BASE),
     (A_LH, ''lh'', F_RT_OFF_BASE),
     (A_LWL, ''lwl'', F_RT_OFF_BASE),
     (A_LW, ''lw'', F_RT_OFF_BASE),
     (A_LBU, ''lbu'', F_RT_OFF_BASE),
     (A_LHU, ''lhu'', F_RT_OFF_BASE),
     (A_LWR, ''lwr'', F_RT_OFF_BASE),
     (A_SB, ''sb'', F_RT_OFF_BASE),
     (A_SH, ''sh'', F_RT_OFF_BASE),
     (A_SWL, ''swl'', F_RT_OFF_BASE),
     (A_SW, ''sw'', F_RT_OFF_BASE),
     (A_SWR, ''swr'', F_RT_OFF_BASE),
     (A_LL, ''ll'', F_RT_OFF_BASE),
     (A_SC, ''sc'', F_RT_OFF_BASE),
     (A_CACHE, ''cache'', F_RT_OFF_BASE),
     (A_PREF, ''pref'', F_RT_OFF_BASE),
     (A_MFC0, ''mfc0'', F_RT_FS),
     (A_MTC0, ''mtc0'', F_RT_FS),
     (A_CFC0, ''cfc0'', F_RT_FS),
     (A_CTC0, ''ctc0'', F_RT_FS),
     (A_MFIC, ''mfic'', F_RT_FS),
     (A_MTIC, ''mtic'', F_RT_FS),
     (A_ERET, ''eret'', F_NONE),
     (A_MFC1, ''mfc1'', F_RT_FS),
     (A_CFC1, ''cfc1'', F_RT_FS),
     (A_MTC1, ''mtc1'', F_RT_FS),
     (A_CTC1, ''ctc1'', F_RT_FS),
     (A_BC1F, ''bc1f'', F_OFF),
     (A_BC1T, ''bc1t'', F_OFF),
     (A_BC1FL, ''bc1fl'', F_OFF),
     (A_BC1TL, ''bc1tl'', F_OFF),
     (A_ADD_S, ''add.s'', F_FD_FS_FT),
     (A_SUB_S, ''sub.s'', F_FD_FS_FT),
     (A_MUL_S, ''mul.s'', F_FD_FS_FT),
     (A_DIV_S, ''div.s'', F_FD_FS_FT),
     (A_SQRT_S, ''sqrt.s'', F_FD_FS),
     (A_ABS_S, ''abs.s'', F_FD_FS),
     (A_MOV_S, ''mov.s'', F_FD_FS),
     (A_NEG_S, ''neg.s'', F_FD_FS),
     (A_ROUND_W_S, ''round.w.s'', F_FD_FS),
     (A_TRUNC_W_S, ''trunc.w.s'', F_FD_FS),
     (A_CEIL_W_S, ''ceil.w.s'', F_FD_FS),
     (A_FLOOR_W_S, ''floor.w.s'', F_FD_FS),
     (A_CVT_W_S, ''cvt.w.s'', F_FD_FS),
     (A_CVT_S_W, ''cvt.s.w'', F_FD_FS),
     (A_C_COND_S, ''c.cond.s'', F_FS_FT),
     (A_LWC1, ''lwc1'', F_FT_OFF_BASE),
     (A_SWC1, ''swc1'', F_FT_OFF_BASE)]"

definition OPINFO_vfpu :: "(a_op \<times> string \<times> a_fmt) list" where
  "OPINFO_vfpu =
    [(A_MFV, ''mfv'', F_RT_VD),
     (A_MTV, ''mtv'', F_RT_VD),
     (A_MFVC, ''mfvc'', F_RT_VD),
     (A_MTVC, ''mtvc'', F_RT_VD),
     (A_BVF, ''bvf'', F_OFF),
     (A_BVT, ''bvt'', F_OFF),
     (A_BVFL, ''bvfl'', F_OFF),
     (A_BVTL, ''bvtl'', F_OFF),
     (A_LV_S, ''lv.s'', F_VT_OFF_BASE),
     (A_LV_Q, ''lv.q'', F_VT_OFF_BASE),
     (A_SV_S, ''sv.s'', F_VT_OFF_BASE),
     (A_SV_Q, ''sv.q'', F_VT_OFF_BASE),
     (A_LVL_Q, ''lvl.q'', F_VT_OFF_BASE),
     (A_LVR_Q, ''lvr.q'', F_VT_OFF_BASE),
     (A_SVL_Q, ''svl.q'', F_VT_OFF_BASE),
     (A_SVR_Q, ''svr.q'', F_VT_OFF_BASE),
     (A_VADD, ''vadd'', F_VD_VS_VT),
     (A_VSUB, ''vsub'', F_VD_VS_VT),
     (A_VDIV, ''vdiv'', F_VD_VS_VT),
     (A_VMUL, ''vmul'', F_VD_VS_VT),
     (A_VDOT, ''vdot'', F_VD_VS_VT),
     (A_VSCL, ''vscl'', F_VD_VS_VT),
     (A_VHDP, ''vhdp'', F_VD_VS_VT),
     (A_VCRS, ''vcrs'', F_VD_VS_VT),
     (A_VDET, ''vdet'', F_VD_VS_VT),
     (A_VCMP, ''vcmp'', F_VD_VS_VT),
     (A_VMIN, ''vmin'', F_VD_VS_VT),
     (A_VMAX, ''vmax'', F_VD_VS_VT),
     (A_VSCMP, ''vscmp'', F_VD_VS_VT),
     (A_VSGE, ''vsge'', F_VD_VS_VT),
     (A_VSLT, ''vslt'', F_VD_VS_VT),
     (A_VMOV, ''vmov'', F_VD_VS),
     (A_VABS, ''vabs'', F_VD_VS),
     (A_VNEG, ''vneg'', F_VD_VS),
     (A_VZERO, ''vzero'', F_VD_VS),
     (A_VONE, ''vone'', F_VD_VS),
     (A_VRCP, ''vrcp'', F_VD_VS),
     (A_VRSQ, ''vrsq'', F_VD_VS),
     (A_VSQRT, ''vsqrt'', F_VD_VS),
     (A_VSIN, ''vsin'', F_VD_VS),
     (A_VCOS, ''vcos'', F_VD_VS),
     (A_VEXP2, ''vexp2'', F_VD_VS),
     (A_VLOG2, ''vlog2'', F_VD_VS),
     (A_VI2F, ''vi2f'', F_VD_VS),
     (A_VF2I, ''vf2i'', F_VD_VS),
     (A_VIDT, ''vidt'', F_VD_VS),
     (A_VSAT0, ''vsat0'', F_VD_VS),
     (A_VSAT1, ''vsat1'', F_VD_VS),
     (A_VASIN, ''vasin'', F_VD_VS),
     (A_VNRCP, ''vnrcp'', F_VD_VS),
     (A_VNSIN, ''vnsin'', F_VD_VS),
     (A_VREXP2, ''vrexp2'', F_VD_VS),
     (A_VCST, ''vcst'', F_VD_VS),
     (A_VF2IN, ''vf2in'', F_VD_VS),
     (A_VF2IZ, ''vf2iz'', F_VD_VS),
     (A_VF2IU, ''vf2iu'', F_VD_VS),
     (A_VF2ID, ''vf2id'', F_VD_VS),
     (A_VCMOV, ''vcmov'', F_VD_VS),
     (A_VWBN, ''vwbn'', F_VD_VS),
     (A_VMMUL, ''vmmul'', F_VD_VS_VT),
     (A_VTFM2, ''vtfm2'', F_VD_VS_VT),
     (A_VTFM3, ''vtfm3'', F_VD_VS_VT),
     (A_VTFM4, ''vtfm4'', F_VD_VS_VT),
     (A_VMSCL, ''vmscl'', F_VD_VS_VT),
     (A_VCRSP, ''vcrsp'', F_VD_VS_VT),
     (A_VROT, ''vrot'', F_VD_VS),
     (A_VMMOV, ''vmmov'', F_VD_VS),
     (A_VMIDT, ''vmidt'', F_VD_VS),
     (A_VMZERO, ''vmzero'', F_VD_VS),
     (A_VMONE, ''vmone'', F_VD_VS),
     (A_VI2UC, ''vi2uc'', F_VD_VS),
     (A_VI2C, ''vi2c'', F_VD_VS),
     (A_VI2US, ''vi2us'', F_VD_VS),
     (A_VI2S, ''vi2s'', F_VD_VS),
     (A_VUC2I, ''vuc2i'', F_VD_VS),
     (A_VC2I, ''vc2i'', F_VD_VS),
     (A_VUS2I, ''vus2i'', F_VD_VS),
     (A_VS2I, ''vs2i'', F_VD_VS),
     (A_VOCP, ''vocp'', F_VD_VS),
     (A_VSGN, ''vsgn'', F_VD_VS),
     (A_VNOP, ''vnop'', F_NONE),
     (A_VPFXS, ''vpfxs'', F_UNKNOWN),
     (A_VPFXT, ''vpfxt'', F_UNKNOWN),
     (A_VPFXD, ''vpfxd'', F_UNKNOWN),
     (A_VIIM, ''viim'', F_UNKNOWN),
     (A_VFIM, ''vfim'', F_UNKNOWN),
     (A_VFPU_UNKNOWN, ''vfpu?'', F_UNKNOWN)]"

definition OPINFO :: "(a_op \<times> string \<times> a_fmt) list" where
  "OPINFO = OPINFO_scalar @ OPINFO_vfpu"

text \<open>
  Indexing the table: an element without an initialiser would be all zero, a null name and the
  format with value 0.
\<close>

definition opinfo_name :: "a_op \<Rightarrow> string option" where
  "opinfo_name oper = map_option fst (map_of OPINFO oper)"

definition opinfo_fmt :: "a_op \<Rightarrow> a_fmt" where
  "opinfo_fmt oper = (case map_of OPINFO oper of None \<Rightarrow> F_NONE | Some (_, k) \<Rightarrow> k)"

definition REG_NAMES :: "string list" where
  "REG_NAMES =
    [''$zero'',''$at'',''$v0'',''$v1'',''$a0'',''$a1'',''$a2'',''$a3'',
     ''$t0'',''$t1'',''$t2'',''$t3'',''$t4'',''$t5'',''$t6'',''$t7'',
     ''$s0'',''$s1'',''$s2'',''$s3'',''$s4'',''$s5'',''$s6'',''$s7'',
     ''$t8'',''$t9'',''$k0'',''$k1'',''$gp'',''$sp'',''$fp'',''$ra'']"

definition FREG_NAMES :: "string list" where
  "FREG_NAMES =
    [''$f0'',''$f1'',''$f2'',''$f3'',''$f4'',''$f5'',''$f6'',''$f7'',
     ''$f8'',''$f9'',''$f10'',''$f11'',''$f12'',''$f13'',''$f14'',''$f15'',
     ''$f16'',''$f17'',''$f18'',''$f19'',''$f20'',''$f21'',''$f22'',''$f23'',
     ''$f24'',''$f25'',''$f26'',''$f27'',''$f28'',''$f29'',''$f30'',''$f31'']"

text \<open>\<^verbatim>\<open>idx & 31\<close> is \<open>idx mod 32\<close> on the unsigned argument.\<close>

definition a_reg_name :: "nat \<Rightarrow> string" where
  "a_reg_name idx = REG_NAMES ! (idx mod 32)"

definition a_freg_name :: "nat \<Rightarrow> string" where
  "a_freg_name idx = FREG_NAMES ! (idx mod 32)"

definition a_mnemonic :: "a_op \<Rightarrow> string" where
  "a_mnemonic oper =
     (if oper \<le> A_INVALID \<or> oper \<ge> A_OP_COUNT then ''?''
      else case opinfo_name oper of None \<Rightarrow> ''?'' | Some s \<Rightarrow> s)"

section \<open>The table covers the enumeration\<close>

lemma length_OPINFO: "length OPINFO = A_OP_COUNT"
  by (simp add: OPINFO_def OPINFO_scalar_def OPINFO_vfpu_def)

lemma distinct_OPINFO: "distinct (map fst OPINFO)"
  by (simp add: OPINFO_def OPINFO_scalar_def OPINFO_vfpu_def)

lemma OPINFO_below_count: "x \<in> set (map fst OPINFO) \<Longrightarrow> x < A_OP_COUNT"
  by (simp add: OPINFO_def OPINFO_scalar_def OPINFO_vfpu_def) arith

lemma OPINFO_dom: "set (map fst OPINFO) = {..<A_OP_COUNT}"
proof (rule card_subset_eq)
  show "finite {..<A_OP_COUNT}" by simp
  show "set (map fst OPINFO) \<subseteq> {..<A_OP_COUNT}" using OPINFO_below_count by auto
  show "card (set (map fst OPINFO)) = card {..<A_OP_COUNT}"
    using distinct_card [OF distinct_OPINFO] length_OPINFO by simp
qed

lemma OPINFO_names: "\<forall>(_, s, _) \<in> set OPINFO. s \<noteq> []"
  by (simp add: OPINFO_def OPINFO_scalar_def OPINFO_vfpu_def)

lemma opinfo_name_total: "oper < A_OP_COUNT \<Longrightarrow> \<exists>s. opinfo_name oper = Some s \<and> s \<noteq> []"
proof -
  assume "oper < A_OP_COUNT"
  then have "oper \<in> fst ` set OPINFO" using OPINFO_dom by simp
  then obtain s k where m: "map_of OPINFO oper = Some (s, k)"
    by (metis map_of_eq_None_iff not_Some_eq surj_pair)
  then have "(oper, s, k) \<in> set OPINFO" by (rule map_of_SomeD)
  with OPINFO_names m show ?thesis by (auto simp: opinfo_name_def)
qed

end
