(* ===== verification/Decode.thy ===== *)
theory Decode
  imports Opcodes
begin

unbundle bit_operations_syntax

text \<open>
  The Allegrex decoder, \<^verbatim>\<open>a_decode\<close> of \<^verbatim>\<open>tools/allegrexrecomp/decode.c\<close>: the field extraction
  macros, the record \<^verbatim>\<open>a_insn\<close>, the branch and jump helpers, the sub-decoders of each opcode group
  and the disassembly formatter. An instruction is decoded from its word and its address; the
  sub-decoders take the instruction under construction and return the operation with it.

  The lemmas establish the contract the function discovery and the emitter rely on: fields keep
  their widths, the control-flow flags are coherent, targets are where the architecture says they
  are, and the operation and its format come from the table.
\<close>

section \<open>Field extraction\<close>

definition OPCODE :: "u32 \<Rightarrow> u32" where "OPCODE w = drop_bit 26 w"
definition RS_F :: "u32 \<Rightarrow> u32" where "RS_F w = drop_bit 21 w AND 0x1F"
definition RT_F :: "u32 \<Rightarrow> u32" where "RT_F w = drop_bit 16 w AND 0x1F"
definition RD_F :: "u32 \<Rightarrow> u32" where "RD_F w = drop_bit 11 w AND 0x1F"
definition SA_F :: "u32 \<Rightarrow> u32" where "SA_F w = drop_bit 6 w AND 0x1F"
definition FUNCT :: "u32 \<Rightarrow> u32" where "FUNCT w = w AND 0x3F"
definition IMM16 :: "u32 \<Rightarrow> u32" where "IMM16 w = w AND 0xFFFF"
definition SIMM16 :: "u32 \<Rightarrow> u32" where "SIMM16 w = scast (ucast (w AND 0xFFFF) :: u16)"
definition IMM26 :: "u32 \<Rightarrow> u32" where "IMM26 w = w AND 0x03FFFFFF"
definition VD_F :: "u32 \<Rightarrow> u32" where "VD_F w = w AND 0x7F"
definition VS_F :: "u32 \<Rightarrow> u32" where "VS_F w = drop_bit 8 w AND 0x7F"
definition VT_F :: "u32 \<Rightarrow> u32" where "VT_F w = drop_bit 16 w AND 0x7F"
definition VT_MEM :: "u32 \<Rightarrow> u32 \<Rightarrow> u32" where
  "VT_MEM w h = ((drop_bit 16 w AND 0x1F) OR push_bit 5 (w AND h))"
definition VSIZE :: "u32 \<Rightarrow> u32" where
  "VSIZE w = ((drop_bit 7 w AND 1) OR (drop_bit 14 w AND 2)) + 1"

section \<open>Instructions\<close>

text \<open>
  \<^verbatim>\<open>a_insn\<close>, with \<open>i_\<close> before the names of the value fields. \<open>i_imm\<close> is the two's complement
  pattern of the \<^verbatim>\<open>int32_t\<close>; the one-bit analysis flags are \<open>bool\<close>.
\<close>

record a_insn =
  i_raw :: u32
  i_addr :: u32
  i_op :: a_op
  i_fmt :: a_fmt
  i_rs :: u8
  i_rt :: u8
  i_rd :: u8
  i_sa :: u8
  i_imm :: u32
  i_target :: u32
  i_fs :: u8
  i_ft :: u8
  i_fd :: u8
  i_fcond :: u8
  i_vs :: u8
  i_vt :: u8
  i_vd :: u8
  i_vsize :: u8
  has_target :: bool
  is_branch :: bool
  is_jump :: bool
  is_call :: bool
  is_indirect :: bool
  is_return :: bool
  is_likely :: bool
  has_delay_slot :: bool
  ends_block :: bool
  is_get_pc :: bool

abbreviation (input) PSP_RA_INDEX :: u32 where "PSP_RA_INDEX \<equiv> 31"

definition set_branch :: "u32 \<Rightarrow> bool \<Rightarrow> a_insn \<Rightarrow> a_insn" where
  "set_branch addr likely i =
     i\<lparr>i_target := addr + 4 + push_bit 2 (SIMM16 (i_raw i)), has_target := True, is_branch := True,
       has_delay_slot := True, is_likely := likely\<rparr>"

definition set_jump :: "u32 \<Rightarrow> a_insn \<Rightarrow> a_insn" where
  "set_jump addr i =
     i\<lparr>i_target := ((addr + 4) AND 0xF0000000) OR push_bit 2 (IMM26 (i_raw i)),
       has_target := True, is_jump := True, has_delay_slot := True, ends_block := True\<rparr>"

section \<open>Sub-decoders\<close>

text \<open>
  A \<^verbatim>\<open>switch\<close> whose arms only name an operation is the association list of its arms, in order;
  \<open>arm\<close> looks the selector up and gives the \<^verbatim>\<open>default\<close> arm otherwise.
\<close>

definition arm :: "a_op \<Rightarrow> (u32 \<times> a_op) list \<Rightarrow> u32 \<Rightarrow> a_op" where
  "arm dflt arms k = (case map_of arms k of None \<Rightarrow> dflt | Some oper \<Rightarrow> oper)"

definition decode_special :: "u32 \<Rightarrow> u32 \<Rightarrow> a_insn \<Rightarrow> a_op \<times> a_insn" where
  "decode_special w addr i =
     (let k = FUNCT w in
      if k = 0x00 then (if w = 0 then A_NOP else A_SLL, i)
      else if k = 0x02 then (if RS_F w = 1 then A_ROTR else A_SRL, i)
      else if k = 0x06 then (if SA_F w = 1 then A_ROTRV else A_SRLV, i)
      else if k = 0x08 then
        (A_JR, (let i1 = i\<lparr>is_jump := True, is_indirect := True, has_delay_slot := True, ends_block := True\<rparr>
                in if RS_F w = PSP_RA_INDEX then i1\<lparr>is_return := True\<rparr> else i1))
      else if k = 0x09 then
        (A_JALR, i\<lparr>is_jump := True, is_indirect := True, is_call := True, has_delay_slot := True\<rparr>)
      else if k = 0x0D then (A_BREAK, i\<lparr>ends_block := True\<rparr>)
      else (arm A_INVALID
        [(0x03, A_SRA), (0x04, A_SLLV), (0x07, A_SRAV), (0x0A, A_MOVZ), (0x0B, A_MOVN),
         (0x0C, A_SYSCALL), (0x0F, A_SYNC), (0x10, A_MFHI), (0x11, A_MTHI), (0x12, A_MFLO),
         (0x13, A_MTLO), (0x16, A_CLZ), (0x17, A_CLO), (0x18, A_MULT), (0x19, A_MULTU),
         (0x1A, A_DIV), (0x1B, A_DIVU), (0x1C, A_MADD), (0x1D, A_MADDU), (0x20, A_ADD),
         (0x21, A_ADDU), (0x22, A_SUB), (0x23, A_SUBU), (0x24, A_AND), (0x25, A_OR),
         (0x26, A_XOR), (0x27, A_NOR), (0x2A, A_SLT), (0x2B, A_SLTU), (0x2C, A_MAX),
         (0x2D, A_MIN), (0x2E, A_MSUB), (0x2F, A_MSUBU)] k, i))"

definition decode_regimm :: "u32 \<Rightarrow> u32 \<Rightarrow> a_insn \<Rightarrow> a_op \<times> a_insn" where
  "decode_regimm w addr i =
     (let k = RT_F w in
      if k = 0x00 then (A_BLTZ, set_branch addr False i)
      else if k = 0x01 then (A_BGEZ, set_branch addr False i)
      else if k = 0x02 then (A_BLTZL, set_branch addr True i)
      else if k = 0x03 then (A_BGEZL, set_branch addr True i)
      else if k = 0x10 then (A_BLTZAL, (set_branch addr False i)\<lparr>is_call := True\<rparr>)
      else if k = 0x11 then (A_BGEZAL, (set_branch addr False i)\<lparr>is_call := True\<rparr>)
      else if k = 0x12 then (A_BLTZALL, (set_branch addr True i)\<lparr>is_call := True\<rparr>)
      else if k = 0x13 then (A_BGEZALL, (set_branch addr True i)\<lparr>is_call := True\<rparr>)
      else (A_INVALID, i))"

definition decode_special3 :: "u32 \<Rightarrow> a_op" where
  "decode_special3 w =
     (if FUNCT w = 0x00 then A_EXT
      else if FUNCT w = 0x04 then A_INS
      else if FUNCT w = 0x20 then
        arm A_INVALID [(0x02, A_WSBH), (0x03, A_WSBW), (0x10, A_SEB), (0x14, A_BITREV),
                       (0x18, A_SEH)] (SA_F w)
      else A_INVALID)"

definition decode_cop0 :: "u32 \<Rightarrow> a_op" where
  "decode_cop0 w =
     (let k = RS_F w in
      if k = 0x0B then (if RT_F w AND 1 \<noteq> 0 then A_MTIC else A_MFIC)
      else if k = 0x10 then (if FUNCT w = 0x18 then A_ERET else A_INVALID)
      else arm A_INVALID [(0x00, A_MFC0), (0x02, A_CFC0), (0x04, A_MTC0), (0x06, A_CTC0)] k)"

definition decode_cop1 :: "u32 \<Rightarrow> u32 \<Rightarrow> a_insn \<Rightarrow> a_op \<times> a_insn" where
  "decode_cop1 w addr i =
     (let k = RS_F w in
      if k = 0x08 then
        (let b = RT_F w AND 3 in
         if b = 0 then (A_BC1F, set_branch addr False i)
         else if b = 1 then (A_BC1T, set_branch addr False i)
         else if b = 2 then (A_BC1FL, set_branch addr True i)
         else (A_BC1TL, set_branch addr True i))
      else if k = 0x10 then
        (if FUNCT w AND 0x30 = 0x30 then (A_C_COND_S, i\<lparr>i_fcond := ucast (FUNCT w AND 0xF)\<rparr>)
         else (arm A_INVALID
           [(0x00, A_ADD_S), (0x01, A_SUB_S), (0x02, A_MUL_S), (0x03, A_DIV_S), (0x04, A_SQRT_S),
            (0x05, A_ABS_S), (0x06, A_MOV_S), (0x07, A_NEG_S), (0x0C, A_ROUND_W_S),
            (0x0D, A_TRUNC_W_S), (0x0E, A_CEIL_W_S), (0x0F, A_FLOOR_W_S), (0x24, A_CVT_W_S)]
           (FUNCT w), i))
      else if k = 0x14 then (if FUNCT w = 0x20 then A_CVT_S_W else A_INVALID, i)
      else (arm A_INVALID [(0x00, A_MFC1), (0x02, A_CFC1), (0x04, A_MTC1), (0x06, A_CTC1)] k, i))"

definition decode_cop2 :: "u32 \<Rightarrow> u32 \<Rightarrow> a_insn \<Rightarrow> a_op \<times> a_insn" where
  "decode_cop2 w addr i =
     (let k = RS_F w in
      if k = 0x08 then
        (let b = RT_F w AND 3 in
         if b = 0 then (A_BVF, set_branch addr False i)
         else if b = 1 then (A_BVT, set_branch addr False i)
         else if b = 2 then (A_BVFL, set_branch addr True i)
         else (A_BVTL, set_branch addr True i))
      else (arm A_VFPU_UNKNOWN
        [(0x00, A_MFC1), (0x02, A_CFC1), (0x03, A_MFV), (0x04, A_MTC1), (0x06, A_CTC1),
         (0x07, A_MTV)] k, i))"

text \<open>The VFPU groups of \<^verbatim>\<open>a_decode\<close>'s own switch, one definition per opcode.\<close>

definition sub23 :: "u32 \<Rightarrow> u32" where
  "sub23 w = drop_bit 23 w AND 7"

definition decode_vfpu0 :: "u32 \<Rightarrow> a_op" where
  "decode_vfpu0 w = arm A_VFPU_UNKNOWN [(0, A_VADD), (1, A_VSUB), (4, A_VDIV)] (sub23 w)"

definition decode_vfpu5 :: "u32 \<Rightarrow> a_insn \<Rightarrow> a_op \<times> a_insn" where
  "decode_vfpu5 w i =
     (let oper = arm A_VFPU_UNKNOWN [(0, A_VPFXS), (1, A_VPFXS), (2, A_VPFXT), (3, A_VPFXT),
                   (4, A_VPFXD), (5, A_VPFXD), (6, A_VIIM), (7, A_VFIM)] (sub23 w)
      in (oper, if oper = A_VIIM \<or> oper = A_VFIM
                then i\<lparr>i_vd := ucast (drop_bit 16 w AND 0x7F), i_vsize := 1\<rparr> else i))"

definition decode_vfpu1 :: "u32 \<Rightarrow> a_op" where
  "decode_vfpu1 w = arm A_VFPU_UNKNOWN [(0, A_VMUL), (1, A_VDOT), (2, A_VSCL), (4, A_VHDP),
     (5, A_VCRS), (6, A_VDET)] (sub23 w)"

definition decode_vfpu3 :: "u32 \<Rightarrow> a_op" where
  "decode_vfpu3 w = arm A_VFPU_UNKNOWN [(0, A_VCMP), (2, A_VMIN), (3, A_VMAX), (5, A_VSCMP),
     (6, A_VSGE), (7, A_VSLT)] (sub23 w)"

definition decode_vfpu4 :: "u32 \<Rightarrow> a_op" where
  "decode_vfpu4 w =
     (let k = RS_F w in
      if k = 0x00 then
        arm A_VFPU_UNKNOWN
          [(0x00, A_VMOV), (0x01, A_VABS), (0x02, A_VNEG), (0x03, A_VIDT), (0x04, A_VSAT0),
           (0x05, A_VSAT1), (0x06, A_VZERO), (0x07, A_VONE), (0x10, A_VRCP), (0x11, A_VRSQ),
           (0x12, A_VSIN), (0x13, A_VCOS), (0x14, A_VEXP2), (0x15, A_VLOG2), (0x16, A_VSQRT),
           (0x17, A_VASIN), (0x18, A_VNRCP), (0x1A, A_VNSIN), (0x1C, A_VREXP2)] (RT_F w)
      else if k = 0x01 then
        arm A_VFPU_UNKNOWN
          [(0x18, A_VUC2I), (0x19, A_VC2I), (0x1A, A_VUS2I), (0x1B, A_VS2I), (0x1C, A_VI2UC),
           (0x1D, A_VI2C), (0x1E, A_VI2US), (0x1F, A_VI2S)] (RT_F w)
      else if k = 0x02 then arm A_VFPU_UNKNOWN [(0x04, A_VOCP), (0x0A, A_VSGN)] (RT_F w)
      else arm A_VFPU_UNKNOWN
          [(0x03, A_VCST), (0x10, A_VF2IN), (0x11, A_VF2IZ), (0x12, A_VF2IU), (0x13, A_VF2ID),
           (0x14, A_VI2F), (0x15, A_VCMOV)] k)"

definition decode_vfpu6 :: "u32 \<Rightarrow> a_op" where
  "decode_vfpu6 w =
     (let k = RS_F w AND 0x1C in
      if k = 0x1C then
        (if RS_F w = 0x1D then A_VROT
         else arm A_VFPU_UNKNOWN [(0x0, A_VMMOV), (0x3, A_VMIDT), (0x6, A_VMZERO), (0x7, A_VMONE)]
                (drop_bit 16 w AND 0xF))
      else arm A_VFPU_UNKNOWN
        [(0x00, A_VMMUL), (0x04, A_VTFM2), (0x08, A_VTFM3), (0x0C, A_VTFM4), (0x10, A_VMSCL),
         (0x14, A_VCRSP)] k)"


section \<open>The decoder\<close>

text \<open>The fields every instruction gets before the opcode is looked at, from \<^verbatim>\<open>memset\<close> on.\<close>

definition decode_fields :: "u32 \<Rightarrow> u32 \<Rightarrow> a_insn" where
  "decode_fields word addr =
     \<lparr>i_raw = word, i_addr = addr, i_op = A_INVALID, i_fmt = F_NONE,
      i_rs = ucast (RS_F word), i_rt = ucast (RT_F word), i_rd = ucast (RD_F word),
      i_sa = ucast (SA_F word), i_imm = 0, i_target = 0,
      i_fs = ucast (RD_F word), i_ft = ucast (RT_F word), i_fd = ucast (SA_F word), i_fcond = 0,
      i_vs = ucast (VS_F word), i_vt = ucast (VT_F word), i_vd = ucast (VD_F word),
      i_vsize = ucast (VSIZE word),
      has_target = False, is_branch = False, is_jump = False, is_call = False,
      is_indirect = False, is_return = False, is_likely = False, has_delay_slot = False,
      ends_block = False, is_get_pc = False\<rparr>"

text \<open>The switch on the primary opcode.\<close>

definition branch_arms :: "(u32 \<times> a_op \<times> bool) list" where
  "branch_arms = [(0x04, A_BEQ, False), (0x05, A_BNE, False), (0x06, A_BLEZ, False),
     (0x07, A_BGTZ, False), (0x14, A_BEQL, True), (0x15, A_BNEL, True), (0x16, A_BLEZL, True),
     (0x17, A_BGTZL, True)]"

definition plain_arms :: "(u32 \<times> a_op) list" where
  "plain_arms = [(0x08, A_ADDI), (0x09, A_ADDIU), (0x0A, A_SLTI), (0x0B, A_SLTIU), (0x0C, A_ANDI),
     (0x0D, A_ORI), (0x0E, A_XORI), (0x0F, A_LUI), (0x20, A_LB), (0x21, A_LH), (0x22, A_LWL),
     (0x23, A_LW), (0x24, A_LBU), (0x25, A_LHU), (0x26, A_LWR), (0x28, A_SB), (0x29, A_SH),
     (0x2A, A_SWL), (0x2B, A_SW), (0x2E, A_SWR), (0x2F, A_CACHE), (0x30, A_LL), (0x31, A_LWC1),
     (0x33, A_PREF), (0x38, A_SC), (0x39, A_SWC1), (0x1C, A_VFPU_UNKNOWN), (0x1D, A_VFPU_UNKNOWN),
     (0x1E, A_VFPU_UNKNOWN), (0x35, A_VFPU_UNKNOWN), (0x3D, A_VFPU_UNKNOWN)]"

definition decode_opcode :: "u32 \<Rightarrow> u32 \<Rightarrow> a_insn \<Rightarrow> a_op \<times> a_insn" where
  "decode_opcode word addr i =
     (let opc = OPCODE word in
      if opc = 0x00 then decode_special word addr i
      else if opc = 0x01 then decode_regimm word addr i
      else if opc = 0x02 then (A_J, set_jump addr i)
      else if opc = 0x03 then
        (A_JAL, (let j = (set_jump addr i)\<lparr>is_call := True, ends_block := False\<rparr>
                 in j\<lparr>is_get_pc := (i_target j = addr + 8)\<rparr>))
      else if opc = 0x10 then (decode_cop0 word, i)
      else if opc = 0x11 then decode_cop1 word addr i
      else if opc = 0x12 then decode_cop2 word addr i
      else if opc = 0x1F then (decode_special3 word, i)
      else if opc = 0x32 then (A_LV_S, i\<lparr>i_vt := ucast (VT_MEM word 3)\<rparr>)
      else if opc = 0x36 then (A_LV_Q, i\<lparr>i_vt := ucast (VT_MEM word 1)\<rparr>)
      else if opc = 0x3A then (A_SV_S, i\<lparr>i_vt := ucast (VT_MEM word 3)\<rparr>)
      else if opc = 0x3E then (A_SV_Q, i\<lparr>i_vt := ucast (VT_MEM word 1)\<rparr>)
      else if opc = 0x18 then (decode_vfpu0 word, i)
      else if opc = 0x37 then decode_vfpu5 word i
      else if opc = 0x19 then (decode_vfpu1 word, i)
      else if opc = 0x1B then (decode_vfpu3 word, i)
      else if opc = 0x34 then (decode_vfpu4 word, i)
      else if opc = 0x3C then (decode_vfpu6 word, i)
      else if opc = 0x3F then
        (if word = 0xFFFF0000 \<or> word = 0xFFFF0320 \<or> word = 0xFFFF040D then A_VNOP
         else A_VFPU_UNKNOWN, i)
      else case map_of branch_arms opc of
             Some (oper, likely) \<Rightarrow> (oper, set_branch addr likely i)
           | None \<Rightarrow> (arm A_INVALID plain_arms opc, i))"

text \<open>\<open>a_decode\<close> returns the filled instruction and whether the word was recognised.\<close>

definition a_decode :: "u32 \<Rightarrow> u32 \<Rightarrow> a_insn \<times> bool" where
  "a_decode word addr =
     (let (oper, i) = decode_opcode word addr (decode_fields word addr);
          k = (if oper > A_INVALID \<and> oper < A_OP_COUNT then opinfo_fmt oper else F_UNKNOWN);
          im = (if oper = A_ANDI \<or> oper = A_ORI \<or> oper = A_XORI \<or> oper = A_LUI
                then IMM16 word else SIMM16 word)
      in (i\<lparr>i_op := oper, i_fmt := k, i_imm := im\<rparr>, oper \<noteq> A_INVALID))"

section \<open>Field widths\<close>

lemma mask_lits:
  "(0x1F :: u32) = mask 5" "(0x3F :: u32) = mask 6" "(0x7F :: u32) = mask 7" "(7 :: u32) = mask 3"
  "(0xFFFF :: u32) = mask 16" "(0x03FFFFFF :: u32) = mask 26" "(0xF :: u32) = mask 4"
  by (simp_all add: mask_eq_exp_minus_1)

lemma unat_fields:
  "unat (RS_F w) < 32" "unat (RT_F w) < 32" "unat (RD_F w) < 32" "unat (SA_F w) < 32"
  "unat (FUNCT w) < 64" "unat (VD_F w) < 128" "unat (VS_F w) < 128" "unat (VT_F w) < 128"
  unfolding RS_F_def RT_F_def RD_F_def SA_F_def FUNCT_def VD_F_def VS_F_def VT_F_def mask_lits
    and_mask_unat by simp_all

lemma unat_ucast_u8:
  assumes "unat (x :: u32) < 256"
  shows "unat (ucast x :: u8) = unat x"
  using assms by (simp add: unsigned_ucast_eq take_bit_eq_mod)

lemma unat_VSIZE: "1 \<le> unat (VSIZE w) \<and> unat (VSIZE w) \<le> 4"
proof -
  have "unat ((drop_bit 7 w AND 1) OR (drop_bit 14 w AND 2)) < 4"
  proof -
    have e: "(drop_bit 7 w AND 1) OR (drop_bit 14 w AND 2) =
        ((drop_bit 7 w AND 1) OR (drop_bit 14 w AND 2)) AND mask 2"
      by (rule u32_bitI_cases, elim insertE emptyE) (simp_all add: bit_simps)
    show ?thesis by (subst e) (simp only: and_mask_unat, simp)
  qed
  then show ?thesis by (simp add: VSIZE_def unat_word_ariths)
qed


section \<open>Control-flow flags\<close>

text \<open>
  What discovery and the emitter read off a decoded instruction without re-deriving it from the
  opcode. \<open>ctl_ok w a (oper, i)\<close> is the coherence of those flags for the word \<open>w\<close> at address \<open>a\<close>.
\<close>

definition branch_target :: "u32 \<Rightarrow> u32 \<Rightarrow> u32" where
  "branch_target w a = a + 4 + push_bit 2 (SIMM16 w)"

definition jump_target :: "u32 \<Rightarrow> u32 \<Rightarrow> u32" where
  "jump_target w a = (((a + 4) AND 0xF0000000) OR push_bit 2 (IMM26 w))"

definition ctl_ok :: "u32 \<Rightarrow> u32 \<Rightarrow> a_op \<times> a_insn \<Rightarrow> bool" where
  "ctl_ok w a p \<longleftrightarrow> (case p of (oper, i) \<Rightarrow>
     oper < A_OP_COUNT \<and> i_raw i = w \<and> i_addr i = a \<and>
     (has_target i \<longleftrightarrow> is_branch i \<or> (is_jump i \<and> \<not> is_indirect i)) \<and>
     (has_delay_slot i \<longleftrightarrow> is_branch i \<or> is_jump i) \<and>
     \<not> (is_branch i \<and> is_jump i) \<and>
     (is_likely i \<longrightarrow> is_branch i) \<and>
     (is_indirect i \<longleftrightarrow> oper = A_JR \<or> oper = A_JALR) \<and>
     (is_jump i \<longleftrightarrow> oper = A_J \<or> oper = A_JAL \<or> oper = A_JR \<or> oper = A_JALR) \<and>
     (is_call i \<longrightarrow> is_branch i \<or> is_jump i) \<and>
     (is_return i \<longleftrightarrow> oper = A_JR \<and> RS_F w = 31) \<and>
     (is_get_pc i \<longleftrightarrow> oper = A_JAL \<and> jump_target w a = a + 8) \<and>
     (ends_block i \<longleftrightarrow> oper = A_J \<or> oper = A_JR \<or> oper = A_BREAK) \<and>
     (is_branch i \<longrightarrow> i_target i = branch_target w a) \<and>
     (is_jump i \<and> \<not> is_indirect i \<longrightarrow> i_target i = jump_target w a))"

definition plain_op :: "a_op \<Rightarrow> bool" where
  "plain_op oper \<longleftrightarrow> oper < A_OP_COUNT \<and> oper \<notin> {A_JR, A_JALR, A_J, A_JAL, A_BREAK}"

lemma arm_in: "arm d xs k \<in> insert d (snd ` set xs)"
  by (auto simp: arm_def dest: map_of_SomeD split: option.splits intro: rev_image_eqI)

lemma plain_op_arm:
  assumes "plain_op d" and "\<forall>x\<in>set xs. plain_op (snd x)"
  shows "plain_op (arm d xs k)"
  using arm_in [of d xs k] assms by auto

lemma ctl_ok_plain: "plain_op oper \<Longrightarrow> ctl_ok w a (oper, decode_fields w a)"
  by (simp add: plain_op_def ctl_ok_def decode_fields_def)

lemma ctl_ok_plain_upd:
  assumes "plain_op oper"
  shows "ctl_ok w a (oper, (decode_fields w a)\<lparr>i_vt := x\<rparr>)"
    and "ctl_ok w a (oper, (decode_fields w a)\<lparr>i_vd := y, i_vsize := z\<rparr>)"
    and "ctl_ok w a (oper, (decode_fields w a)\<lparr>i_fcond := u\<rparr>)"
  using assms by (simp_all add: plain_op_def ctl_ok_def decode_fields_def)

lemma ctl_ok_branch:
  assumes "plain_op oper"
  shows "ctl_ok w a (oper, set_branch a b (decode_fields w a))"
    and "ctl_ok w a (oper, (set_branch a b (decode_fields w a))\<lparr>is_call := c\<rparr>)"
  using assms
  by (simp_all add: plain_op_def ctl_ok_def decode_fields_def set_branch_def branch_target_def)

lemmas plain_op_lit = plain_op_def [of "numeral k"] plain_op_def [of 0] plain_op_def [of "Suc 0"]
  for k

lemmas ctl_rules = plain_op_lit plain_op_arm ctl_ok_plain ctl_ok_plain_upd ctl_ok_branch

lemma ctl_ok_special_jumps:
  "ctl_ok w a (A_JALR, (decode_fields w a)\<lparr>is_jump := True, is_indirect := True, is_call := True,
     has_delay_slot := True\<rparr>)"
  "ctl_ok w a (A_BREAK, (decode_fields w a)\<lparr>ends_block := True\<rparr>)"
  "RS_F w \<noteq> 31 \<Longrightarrow> ctl_ok w a (A_JR, (decode_fields w a)\<lparr>is_jump := True, is_indirect := True,
     has_delay_slot := True, ends_block := True\<rparr>)"
  "RS_F w = 31 \<Longrightarrow> ctl_ok w a (A_JR, (decode_fields w a)\<lparr>is_jump := True, is_indirect := True,
     has_delay_slot := True, ends_block := True, is_return := True\<rparr>)"
  by (simp_all add: ctl_ok_def decode_fields_def)

lemma ctl_ok_special: "ctl_ok w a (decode_special w a (decode_fields w a))"
  unfolding decode_special_def Let_def by (simp add: ctl_rules ctl_ok_special_jumps)

lemma ctl_ok_regimm: "ctl_ok w a (decode_regimm w a (decode_fields w a))"
  unfolding decode_regimm_def Let_def by (simp add: ctl_rules)

lemma plain_special3: "plain_op (decode_special3 w)"
  unfolding decode_special3_def by (simp add: ctl_rules)

lemma plain_cop0: "plain_op (decode_cop0 w)"
  unfolding decode_cop0_def Let_def by (simp add: ctl_rules)

lemma ctl_ok_cop1: "ctl_ok w a (decode_cop1 w a (decode_fields w a))"
  unfolding decode_cop1_def Let_def by (simp add: ctl_rules)

lemma ctl_ok_cop2: "ctl_ok w a (decode_cop2 w a (decode_fields w a))"
  unfolding decode_cop2_def Let_def by (simp add: ctl_rules)

lemma plain_vfpu:
  "plain_op (decode_vfpu0 w)" "plain_op (decode_vfpu1 w)" "plain_op (decode_vfpu3 w)"
  "plain_op (decode_vfpu4 w)" "plain_op (decode_vfpu6 w)"
  unfolding decode_vfpu0_def decode_vfpu1_def decode_vfpu3_def decode_vfpu4_def decode_vfpu6_def Let_def
  by (simp_all add: ctl_rules)

lemma ctl_ok_vfpu5: "ctl_ok w a (decode_vfpu5 w (decode_fields w a))"
  unfolding decode_vfpu5_def Let_def by (simp add: ctl_rules)

lemma branch_arms_plain: "map_of branch_arms k = Some (oper, likely) \<Longrightarrow> plain_op oper"
  by (auto simp: branch_arms_def plain_op_def split: if_splits)

lemma plain_arms_plain: "plain_op (arm A_INVALID plain_arms k)"
  unfolding plain_arms_def by (rule plain_op_arm) (simp_all add: plain_op_def)

lemma ctl_ok_jump:
  "ctl_ok w a (A_J, set_jump a (decode_fields w a))"
  "ctl_ok w a (A_JAL, (set_jump a (decode_fields w a))\<lparr>is_call := True, ends_block := False,
     is_get_pc := (jump_target w a = a + 8)\<rparr>)"
  by (simp_all add: ctl_ok_def decode_fields_def set_jump_def jump_target_def)

lemma set_jump_target: "i_target (set_jump a (decode_fields w a)) = jump_target w a"
  by (simp add: set_jump_def decode_fields_def jump_target_def)

lemmas ctl_ok_groups = ctl_ok_special ctl_ok_regimm ctl_ok_cop1 ctl_ok_cop2 ctl_ok_vfpu5
  ctl_ok_jump ctl_ok_branch(1) ctl_ok_plain ctl_ok_plain_upd(1)

lemma ctl_ok_opcode: "ctl_ok w a (decode_opcode w a (decode_fields w a))"
  unfolding decode_opcode_def Let_def
  by (simp add: ctl_ok_groups plain_cop0 plain_special3 plain_vfpu plain_arms_plain plain_op_lit
      set_jump_target split: option.splits) (auto simp: branch_arms_plain ctl_ok_branch)

lemma ctl_ok_upd [simp]:
  "ctl_ok w a (oper, i\<lparr>i_op := x, i_fmt := y, i_imm := z\<rparr>) = ctl_ok w a (oper, i)"
  by (simp add: ctl_ok_def)

lemma ctl_ok_a_decode:
  "ctl_ok w a (i_op (fst (a_decode w a)), fst (a_decode w a))"
  using ctl_ok_opcode [of w a]
  by (cases "decode_opcode w a (decode_fields w a)") (simp add: a_decode_def Let_def)

lemma SIMM16_scast: "SIMM16 w = scast (ucast w :: u16)"
proof -
  have "(ucast (w AND 0xFFFF) :: u16) = ucast w"
    unfolding mask_lits by (rule word_bitI) (auto simp: bit_simps)
  then show ?thesis by (simp add: SIMM16_def)
qed

lemma sint_u16_bounds: "- 32768 \<le> sint (x :: u16)" "sint (x :: u16) < 32768"
  using sint_ge [of x] sint_lt [of x] by simp_all

lemma sint_push2_scast: "sint (push_bit 2 (scast (x :: u16) :: u32)) = 4 * sint x"
  using sint_u16_bounds [of x]
  by (simp add: push_bit_eq_mult sint_word_ariths signed_scast_eq signed_take_bit_int_eq_self)

lemma branch_target_distance: "sint (branch_target w a - (a + 4)) = 4 * sint (ucast w :: u16)"
  unfolding branch_target_def SIMM16_scast by (simp add: sint_push2_scast)

lemma aligned_iff: "(x :: u32) AND 3 = 0 \<longleftrightarrow> unat x mod 4 = 0"
proof -
  have "unat (x AND 3) = unat x mod 4"
    using and_mask_unat [of x 2] by (simp add: mask_eq_exp_minus_1)
  then show ?thesis by (metis unat_eq_zero)
qed

lemma aligned_add: "(x :: u32) AND 3 = 0 \<Longrightarrow> y AND 3 = 0 \<Longrightarrow> (x + y) AND 3 = 0"
proof -
  assume x: "x AND 3 = 0" and y: "y AND 3 = 0"
  have "unat (x + y) mod 4 = (unat x + unat y) mod 4"
    by (simp add: unat_word_ariths mod_mod_cancel)
  also have "\<dots> = 0"
    using x y unfolding aligned_iff by presburger
  finally show ?thesis unfolding aligned_iff .
qed

lemma aligned_push2: "push_bit 2 (x :: u32) AND 3 = 0"
  by (rule u32_bitI_cases, elim insertE emptyE) (simp_all add: bit_simps)

lemma branch_target_aligned: "a AND 3 = 0 \<Longrightarrow> branch_target w a AND 3 = 0"
  unfolding branch_target_def
  by (intro aligned_add aligned_push2) simp_all

lemma jump_target_aligned: "jump_target w a AND 3 = 0"
  by (rule u32_bitI_cases, elim insertE emptyE) (simp_all add: jump_target_def bit_simps)

lemma jump_target_region:
  "jump_target w a AND 0xF0000000 = (a + 4) AND 0xF0000000"
  "jump_target w a AND 0x0FFFFFFF = push_bit 2 (IMM26 w)"
  by (rule u32_bitI_cases, elim insertE emptyE, simp_all add: jump_target_def IMM26_def bit_simps)+

lemma ctl_ok_flags:
  assumes "ctl_ok w a (i_op i, i)"
  shows "(has_target i \<longleftrightarrow> is_branch i \<or> (is_jump i \<and> \<not> is_indirect i)) \<and>
     (has_delay_slot i \<longleftrightarrow> is_branch i \<or> is_jump i) \<and>
     \<not> (is_branch i \<and> is_jump i) \<and>
     \<not> (is_likely i \<and> \<not> is_branch i) \<and>
     (is_indirect i \<longleftrightarrow> i_op i = A_JR \<or> i_op i = A_JALR) \<and>
     (is_return i \<longleftrightarrow> i_op i = A_JR \<and> RS_F w = 31) \<and>
     (is_get_pc i \<longleftrightarrow> i_op i = A_JAL \<and> i_target i = a + 8) \<and>
     (ends_block i \<longleftrightarrow> i_op i = A_J \<or> i_op i = A_JR \<or> i_op i = A_BREAK)"
proof -
  note c = assms [unfolded ctl_ok_def prod.case]
  have j: "i_target i = jump_target w a" if "i_op i = A_JAL"
    using c that by simp
  have "is_get_pc i \<longleftrightarrow> i_op i = A_JAL \<and> i_target i = a + 8"
    using c j by (cases "i_op i = A_JAL") simp_all
  moreover have "\<not> (is_branch i \<and> is_jump i)" using c by blast
  moreover have "\<not> (is_likely i \<and> \<not> is_branch i)" using c by blast
  ultimately show ?thesis using c by (simp only: simp_thms)
qed

section \<open>The decoder's contract\<close>

text \<open>
  C23. For every word at every address the flags of the decoded instruction are coherent: an
  instruction has a static target exactly when it is a branch or a direct jump, a delay slot exactly
  when it is a branch or a jump, never both kinds at once; only branches are likely; the indirect
  jumps are \<open>jr\<close> and \<open>jalr\<close>; a return is a \<open>jr $ra\<close>; the call-next-instruction idiom is
  recognised exactly for a \<open>jal\<close> to the instruction after its delay slot; and straight-line decoding
  stops exactly at \<open>j\<close>, \<open>jr\<close> and \<open>break\<close>.
\<close>
theorem a_decode_control_flow:
  "let i = fst (a_decode w a) in
     (has_target i \<longleftrightarrow> is_branch i \<or> (is_jump i \<and> \<not> is_indirect i)) \<and>
     (has_delay_slot i \<longleftrightarrow> is_branch i \<or> is_jump i) \<and>
     \<not> (is_branch i \<and> is_jump i) \<and>
     \<not> (is_likely i \<and> \<not> is_branch i) \<and>
     (is_indirect i \<longleftrightarrow> i_op i = A_JR \<or> i_op i = A_JALR) \<and>
     (is_return i \<longleftrightarrow> i_op i = A_JR \<and> RS_F w = 31) \<and>
     (is_get_pc i \<longleftrightarrow> i_op i = A_JAL \<and> i_target i = a + 8) \<and>
     (ends_block i \<longleftrightarrow> i_op i = A_J \<or> i_op i = A_JR \<or> i_op i = A_BREAK)"
  using ctl_ok_a_decode [of w a] unfolding Let_def by (rule ctl_ok_flags)

lemma a_decode_cases:
  obtains oper i where "decode_opcode w a (decode_fields w a) = (oper, i)"
    and "a_decode w a = (i\<lparr>i_op := oper,
      i_fmt := if oper > A_INVALID \<and> oper < A_OP_COUNT then opinfo_fmt oper else F_UNKNOWN,
      i_imm := if oper = A_ANDI \<or> oper = A_ORI \<or> oper = A_XORI \<or> oper = A_LUI then IMM16 w
        else SIMM16 w\<rparr>, oper \<noteq> A_INVALID)"
  by (cases "decode_opcode w a (decode_fields w a)") (simp add: a_decode_def)

lemma a_decode_table_aux:
  "case a_decode w a of (i, ok) \<Rightarrow>
     i_raw i = w \<and> i_addr i = a \<and> i_op i < A_OP_COUNT \<and> (ok \<longleftrightarrow> i_op i \<noteq> A_INVALID) \<and>
     (if ok then opinfo_name (i_op i) = Some (a_mnemonic (i_op i)) \<and> i_fmt i = opinfo_fmt (i_op i)
      else a_mnemonic (i_op i) = ''?'' \<and> i_fmt i = F_UNKNOWN)"
proof (rule a_decode_cases [of w a])
  fix oper i
  assume d: "decode_opcode w a (decode_fields w a) = (oper, i)"
    and e: "a_decode w a = (i\<lparr>i_op := oper,
      i_fmt := if oper > A_INVALID \<and> oper < A_OP_COUNT then opinfo_fmt oper else F_UNKNOWN,
      i_imm := if oper = A_ANDI \<or> oper = A_ORI \<or> oper = A_XORI \<or> oper = A_LUI then IMM16 w
        else SIMM16 w\<rparr>, oper \<noteq> A_INVALID)"
  have c: "ctl_ok w a (oper, i)" using ctl_ok_opcode [of w a] d by simp
  then have lt: "oper < A_OP_COUNT" "i_raw i = w" "i_addr i = a" by (simp_all add: ctl_ok_def)
  from opinfo_name_total [OF lt(1)] obtain s where "opinfo_name oper = Some s" by blast
  then show ?thesis unfolding e using lt by (simp add: a_mnemonic_def)
qed

lemma a_decode_table_invalid:
  "\<not> snd (a_decode w a) \<Longrightarrow>
     i_raw (fst (a_decode w a)) = w \<and> i_fmt (fst (a_decode w a)) = F_UNKNOWN"
  using a_decode_table_aux [of w a] by (cases "a_decode w a") simp

text \<open>
  Every recognised word carries an operation of the enumeration with a mnemonic of the table and
  its format; every other word is \<open>A_INVALID\<close> with the raw-word format.
\<close>
theorem a_decode_table:
  "case a_decode w a of (i, ok) \<Rightarrow>
     i_raw i = w \<and> i_addr i = a \<and> i_op i < A_OP_COUNT \<and> (ok \<longleftrightarrow> i_op i \<noteq> A_INVALID) \<and>
     (if ok then opinfo_name (i_op i) = Some (a_mnemonic (i_op i)) \<and> i_fmt i = opinfo_fmt (i_op i)
      else a_mnemonic (i_op i) = ''?'' \<and> i_fmt i = F_UNKNOWN)"
  by (rule a_decode_table_aux)

text \<open>
  C22. Branch displacements are relative to the delay slot and word-scaled, direct jumps stay in the
  256 MiB region of the delay slot, and from an aligned address both reach aligned addresses.
\<close>
theorem a_decode_targets:
  assumes "has_target (fst (a_decode w a))" and "a AND 3 = 0"
  shows "let i = fst (a_decode w a) in
    i_target i AND 3 = 0 \<and>
    (if is_branch i
     then sint (i_target i - (a + 4)) = 4 * sint (ucast w :: u16)
     else i_target i AND 0xF0000000 = (a + 4) AND 0xF0000000 \<and>
          i_target i AND 0x0FFFFFFF = push_bit 2 (IMM26 w))"
proof -
  let ?i = "fst (a_decode w a)"
  have c: "ctl_ok w a (i_op ?i, ?i)" by (rule ctl_ok_a_decode)
  show ?thesis
  proof (cases "is_branch ?i")
    case True
    then have "i_target ?i = branch_target w a" using c by (auto simp: ctl_ok_def)
    then show ?thesis using True assms(2) by (simp add: branch_target_aligned branch_target_distance)
  next
    case False
    then have "i_target ?i = jump_target w a" using c assms(1) by (auto simp: ctl_ok_def)
    then show ?thesis using False by (simp add: jump_target_aligned jump_target_region)
  qed
qed

theorem a_decode_targets_witness:
  "let i = fst (a_decode 0x1000FFFF 0x08804000) in
    i_target i AND 3 = 0 \<and>
    (if is_branch i
     then sint (i_target i - (0x08804000 + 4)) = 4 * sint (ucast (0x1000FFFF :: u32) :: u16)
     else i_target i AND 0xF0000000 = (0x08804000 + 4) AND 0xF0000000 \<and>
          i_target i AND 0x0FFFFFFF = push_bit 2 (IMM26 0x1000FFFF))"
  by (rule a_decode_targets [of "0x1000FFFF" "0x08804000"]) code_simp+

lemma vt_mem_width: "unat (VT_MEM w 3) < 128" "unat (VT_MEM w 1) < 128"
proof -
  have e: "VT_MEM w k = VT_MEM w k AND mask 7" if "k = 3 \<or> k = 1" for k
    by (rule u32_bitI_cases, elim insertE emptyE; use that in \<open>auto simp: VT_MEM_def bit_simps\<close>)
  show "unat (VT_MEM w 3) < 128" "unat (VT_MEM w 1) < 128"
    by (subst e, simp, simp only: and_mask_unat, simp)+
qed

text \<open>
  \<open>fields_ok\<close> collects the index ranges the emitter and the disassembler rely on to index register
  files and name tables.
\<close>

definition fields_ok :: "a_insn \<Rightarrow> bool" where
  "fields_ok i \<longleftrightarrow> unat (i_rs i) < 32 \<and> unat (i_rt i) < 32 \<and> unat (i_rd i) < 32 \<and> unat (i_sa i) < 32 \<and>
     unat (i_fs i) < 32 \<and> unat (i_ft i) < 32 \<and> unat (i_fd i) < 32 \<and> unat (i_fcond i) < 16 \<and>
     unat (i_vs i) < 128 \<and> unat (i_vt i) < 128 \<and> unat (i_vd i) < 128 \<and>
     1 \<le> unat (i_vsize i) \<and> unat (i_vsize i) \<le> 4"

lemma fields_ok_upd:
  assumes "fields_ok i"
  shows "fields_ok (set_branch a b i)" "fields_ok (set_jump a i)" "fields_ok (i\<lparr>is_call := c\<rparr>)"
    "unat x < 128 \<Longrightarrow> fields_ok (i\<lparr>i_vt := x\<rparr>)"
    "unat x < 128 \<Longrightarrow> fields_ok (i\<lparr>i_vd := x, i_vsize := 1\<rparr>)"
    "unat x < 16 \<Longrightarrow> fields_ok (i\<lparr>i_fcond := x\<rparr>)"
    "fields_ok (i\<lparr>is_call := c, ends_block := d, is_get_pc := e\<rparr>)"
    "fields_ok (i\<lparr>is_jump := j, is_indirect := k, has_delay_slot := l, ends_block := m\<rparr>)"
    "fields_ok (i\<lparr>is_return := n\<rparr>)"
    "fields_ok (i\<lparr>is_jump := j, is_indirect := k, is_call := c, has_delay_slot := l\<rparr>)"
    "fields_ok (i\<lparr>ends_block := d\<rparr>)"
  using assms by (simp_all add: fields_ok_def set_branch_def set_jump_def)

lemma fields_ok_decode_fields: "fields_ok (decode_fields w a)"
  using unat_fields [of w] unat_VSIZE [of w]
  by (simp add: fields_ok_def decode_fields_def unat_ucast_u8)

lemma unat_masked_u8:
  "unat (ucast (FUNCT w AND 0xF) :: u8) < 16" "unat (ucast (drop_bit 16 w AND 0x7F) :: u8) < 128"
  "unat (ucast (VT_MEM w 3) :: u8) < 128" "unat (ucast (VT_MEM w 1) :: u8) < 128"
proof -
  have "unat (FUNCT w AND 0xF) < 16" "unat (drop_bit 16 w AND 0x7F) < 128"
    unfolding mask_lits and_mask_unat by simp_all
  then show "unat (ucast (FUNCT w AND 0xF) :: u8) < 16"
    "unat (ucast (drop_bit 16 w AND 0x7F) :: u8) < 128"
    "unat (ucast (VT_MEM w 3) :: u8) < 128" "unat (ucast (VT_MEM w 1) :: u8) < 128"
    using vt_mem_width [of w] by (simp_all add: unat_ucast_u8)
qed

lemma fields_ok_opcode:
  assumes "fields_ok i" shows "fields_ok (snd (decode_opcode w a i))"
  unfolding decode_opcode_def decode_special_def decode_regimm_def decode_cop1_def decode_cop2_def
    decode_vfpu5_def Let_def
  using assms by (simp add: fields_ok_upd unat_masked_u8 split: option.split)

text \<open>
  Whatever the word, every decoded register number indexes its register file: general and
  floating-point numbers are below 32, VFPU numbers below 128, the compare condition below 16, and a
  vector has between one and four lanes.
\<close>
theorem a_decode_field_ranges: "fields_ok (fst (a_decode w a))"
  using fields_ok_opcode [OF fields_ok_decode_fields, of w a w a]
  by (cases "decode_opcode w a (decode_fields w a)") (simp add: a_decode_def Let_def fields_ok_def)

end
