(* ===== verification/Disasm.thy ===== *)
theory Disasm
  imports Decode
begin

unbundle bit_operations_syntax

text \<open>
  The disassembly text of \<^verbatim>\<open>a_format\<close> in \<^verbatim>\<open>tools/allegrexrecomp/decode.c\<close>, over a model of the
  \<^verbatim>\<open>snprintf\<close> conversions it uses: \<^verbatim>\<open>%s\<close>, \<^verbatim>\<open>%-10s\<close>, \<^verbatim>\<open>%u\<close>, \<^verbatim>\<open>%d\<close>, \<^verbatim>\<open>%X\<close> and the zero-padded \<^verbatim>\<open>%05X\<close>
  and \<^verbatim>\<open>%08X\<close>. The lemmas bound the text of every instruction, so no caller's buffer truncates it,
  and show that numbers can be read back from it.
\<close>

section \<open>Conversions\<close>

definition digit_char :: "nat \<Rightarrow> char" where
  "digit_char d = ''0123456789ABCDEF'' ! d"

fun digits :: "nat \<Rightarrow> nat \<Rightarrow> string" where
  "digits b n = (if n < b \<or> b < 2 then [digit_char n] else digits b (n div b) @ [digit_char (n mod b)])"

declare digits.simps [simp del]

definition fmt_u :: "nat \<Rightarrow> string" where
  "fmt_u n = digits 10 n"

definition fmt_X :: "nat \<Rightarrow> string" where
  "fmt_X n = digits 16 n"

definition fmt_0X :: "nat \<Rightarrow> nat \<Rightarrow> string" where
  "fmt_0X k n = (let s = fmt_X n in replicate (k - length s) CHR ''0'' @ s)"

definition fmt_d :: "int \<Rightarrow> string" where
  "fmt_d x = (if x < 0 then CHR ''-'' # fmt_u (nat (- x)) else fmt_u (nat x))"

definition fmt_left :: "nat \<Rightarrow> string \<Rightarrow> string" where
  "fmt_left k s = s @ replicate (k - length s) CHR '' ''"

text \<open>
  \<^verbatim>\<open>snprintf\<close>: what is left in the buffer, without the terminating zero, and the length of the
  whole text, which is what it returns.
\<close>

definition snprintf :: "nat \<Rightarrow> string \<Rightarrow> string \<times> nat" where
  "snprintf buflen text = (take (buflen - 1) text, length text)"

section \<open>The formatter\<close>

definition FP_CONDS :: "string list" where
  "FP_CONDS = [''f'',''un'',''eq'',''ueq'',''olt'',''ult'',''ole'',''ule'',
    ''sf'',''ngle'',''seq'',''ngl'',''lt'',''nge'',''le'',''ngt'']"

definition format_name :: "a_insn \<Rightarrow> string" where
  "format_name i =
     (if i_op i = A_C_COND_S then ''c.'' @ FP_CONDS ! (unat (i_fcond i) mod 16) @ ''.s''
      else a_mnemonic (i_op i))"

definition format_text :: "a_insn \<Rightarrow> string" where
  "format_text i =
     (let name = format_name i; nm = fmt_left 10 name @ '' '';
          r = (\<lambda>x :: u8. a_reg_name (unat x)); f = (\<lambda>x :: u8. a_freg_name (unat x));
          u = (\<lambda>x :: u8. fmt_u (unat x)); sep = '', '';
          imm = fmt_d (sint (i_imm i)); uimm = ''0x'' @ fmt_X (unat (i_imm i));
          tgt = ''0x'' @ fmt_0X 8 (unat (i_target i))
      in case i_fmt i of
        F_NONE \<Rightarrow> name
      | F_RD_RS_RT \<Rightarrow> nm @ r (i_rd i) @ sep @ r (i_rs i) @ sep @ r (i_rt i)
      | F_RT_RS_IMM \<Rightarrow> nm @ r (i_rt i) @ sep @ r (i_rs i) @ sep @ imm
      | F_RT_RS_UIMM \<Rightarrow> nm @ r (i_rt i) @ sep @ r (i_rs i) @ sep @ uimm
      | F_RD_RT_SA \<Rightarrow> nm @ r (i_rd i) @ sep @ r (i_rt i) @ sep @ u (i_sa i)
      | F_RD_RT_RS \<Rightarrow> nm @ r (i_rd i) @ sep @ r (i_rt i) @ sep @ r (i_rs i)
      | F_RS_RT_OFF \<Rightarrow> nm @ r (i_rs i) @ sep @ r (i_rt i) @ sep @ tgt
      | F_RS_OFF \<Rightarrow> nm @ r (i_rs i) @ sep @ tgt
      | F_TARGET \<Rightarrow> nm @ tgt
      | F_RS \<Rightarrow> nm @ r (i_rs i)
      | F_RD_RS \<Rightarrow> nm @ r (i_rd i) @ sep @ r (i_rs i)
      | F_RD_RT \<Rightarrow> nm @ r (i_rd i) @ sep @ r (i_rt i)
      | F_RD \<Rightarrow> nm @ r (i_rd i)
      | F_RS_RT \<Rightarrow> nm @ r (i_rs i) @ sep @ r (i_rt i)
      | F_RT_IMM \<Rightarrow> nm @ r (i_rt i) @ sep @ uimm
      | F_RT_OFF_BASE \<Rightarrow> nm @ r (i_rt i) @ sep @ imm @ ''('' @ r (i_rs i) @ '')''
      | F_FT_OFF_BASE \<Rightarrow> nm @ f (i_ft i) @ sep @ imm @ ''('' @ r (i_rs i) @ '')''
      | F_RT_FS \<Rightarrow> nm @ r (i_rt i) @ sep @ ''$'' @ u (i_fs i)
      | F_FD_FS_FT \<Rightarrow> nm @ f (i_fd i) @ sep @ f (i_fs i) @ sep @ f (i_ft i)
      | F_FD_FS \<Rightarrow> nm @ f (i_fd i) @ sep @ f (i_fs i)
      | F_FS_FT \<Rightarrow> nm @ f (i_fs i) @ sep @ f (i_ft i)
      | F_OFF \<Rightarrow> nm @ tgt
      | F_CODE \<Rightarrow> nm @ ''0x'' @ fmt_0X 5 (unat (drop_bit 6 (i_raw i) AND 0xFFFFF))
      | F_RT_RS_POS_SZ \<Rightarrow>
          (let pos = ucast (i_sa i) :: u32; msb = ucast (i_rd i) :: u32;
               sz = (if i_op i = A_EXT then msb + 1 else msb - pos + 1)
           in nm @ r (i_rt i) @ sep @ r (i_rs i) @ sep @ fmt_u (unat pos) @ sep @ fmt_u (unat sz))
      | F_VD_VS_VT \<Rightarrow> nm @ ''v'' @ u (i_vd i) @ '', v'' @ u (i_vs i) @ '', v'' @ u (i_vt i) @
          ''   ; '' @ u (i_vsize i) @ '' lanes''
      | F_VD_VS \<Rightarrow> nm @ ''v'' @ u (i_vd i) @ '', v'' @ u (i_vs i) @ ''   ; '' @ u (i_vsize i) @ '' lanes''
      | F_VT_OFF_BASE \<Rightarrow> nm @ ''v'' @ u (i_vt i) @ sep @ fmt_d (sint (i_imm i AND NOT 3)) @
          ''('' @ r (i_rs i) @ '')''
      | F_RT_VD \<Rightarrow> nm @ r (i_rt i) @ '', v'' @ u (i_vd i)
      | _ \<Rightarrow> ''.word     0x'' @ fmt_0X 8 (unat (i_raw i)))"

definition a_format :: "a_insn \<Rightarrow> nat \<Rightarrow> string \<times> nat" where
  "a_format i buflen = snprintf buflen (format_text i)"

section \<open>Reading numbers back\<close>

definition digit_val :: "char \<Rightarrow> nat" where
  "digit_val c = (case find_index (\<lambda>d. d = c) ''0123456789ABCDEF'' of Some k \<Rightarrow> k | None \<Rightarrow> 16)"

definition read_digits :: "nat \<Rightarrow> string \<Rightarrow> nat" where
  "read_digits b s = foldl (\<lambda>n c. n * b + digit_val c) 0 s"

lemma nat_less_16_cases: "(n :: nat) < 16 \<Longrightarrow> n \<in> {0,1,2,3,4,5,6,7,8,9,10,11,12,13,14,15}"
  unfolding insert_iff empty_iff by presburger

lemma digit_val_char: "d < 16 \<Longrightarrow> digit_val (digit_char d) = d"
  by (drule nat_less_16_cases, elim insertE emptyE; simp) (code_simp+)

lemma read_digits_digits: "2 \<le> b \<Longrightarrow> b \<le> 16 \<Longrightarrow> read_digits b (digits b n) = n"
proof (induction b n rule: digits.induct)
  case (1 b n)
  have "n mod b < 16" using 1(2,3) mod_less_divisor [of b n] by linarith
  then show ?case using 1
    by (subst digits.simps) (auto simp: read_digits_def digit_val_char)
qed

lemma read_digits_zeros: "read_digits b (replicate k CHR ''0'' @ s) = read_digits b s"
proof -
  have z: "digit_val CHR ''0'' = 0" by code_simp
  show ?thesis by (induction k) (simp_all add: read_digits_def z)
qed

lemma read_fmt_0X: "read_digits 16 (fmt_0X k n) = n"
  by (simp add: fmt_0X_def fmt_X_def Let_def read_digits_zeros read_digits_digits)

section \<open>Lengths\<close>

lemma length_digits: "2 \<le> b \<Longrightarrow> 0 < k \<Longrightarrow> n < b ^ k \<Longrightarrow> length (digits b n) \<le> k"
proof (induction b n arbitrary: k rule: digits.induct)
  case (1 b n)
  show ?case
  proof (cases "n < b")
    case True
    then show ?thesis using 1 by (subst digits.simps) simp
  next
    case False
    with 1(4) have "k \<noteq> 1" by auto
    with 1(3) have k: "0 < k - 1" "k = Suc (k - 1)" by simp_all
    have "n div b < b ^ (k - 1)"
      using 1(4) k(2) 1(2) by (metis less_mult_imp_div_less mult.commute power_Suc)
    then have "length (digits b (n div b)) \<le> k - 1" using 1 False k(1) by simp
    then show ?thesis using False 1(2) k(1) by (subst digits.simps) simp
  qed
qed

lemma length_fmt_0X: "0 < k \<Longrightarrow> n < 16 ^ k \<Longrightarrow> length (fmt_0X k n) = k"
  using length_digits [of 16 k n] by (simp add: fmt_0X_def fmt_X_def Let_def)

lemma OPINFO_name_length: "\<forall>(_, s, _) \<in> set OPINFO. length s \<le> 9"
  by (simp add: OPINFO_def OPINFO_scalar_def OPINFO_vfpu_def)

lemma length_a_mnemonic: "length (a_mnemonic oper) \<le> 9"
  using OPINFO_name_length
  by (auto simp: a_mnemonic_def opinfo_name_def split: option.splits dest!: map_of_SomeD)

lemma nth_mod_in_set: "xs \<noteq> [] \<Longrightarrow> length xs = n \<Longrightarrow> xs ! (k mod n) \<in> set xs"
  by (metis length_greater_0_conv mod_less_divisor nth_mem)

lemma length_a_reg_name: "length (a_reg_name k) \<le> 5"
proof -
  have "\<forall>s\<in>set REG_NAMES. length s \<le> 5" "REG_NAMES \<noteq> []" "length REG_NAMES = 32"
    by (simp_all add: REG_NAMES_def)
  then show ?thesis by (simp add: a_reg_name_def nth_mod_in_set)
qed

lemma length_a_freg_name: "length (a_freg_name k) \<le> 4"
proof -
  have "\<forall>s\<in>set FREG_NAMES. length s \<le> 4" "FREG_NAMES \<noteq> []" "length FREG_NAMES = 32"
    by (simp_all add: FREG_NAMES_def)
  then show ?thesis by (simp add: a_freg_name_def nth_mod_in_set)
qed

lemma length_format_name: "length (format_name i) \<le> 9"
proof -
  have "\<forall>s\<in>set FP_CONDS. length s \<le> 4" "FP_CONDS \<noteq> []" "length FP_CONDS = 16"
    by (simp_all add: FP_CONDS_def)
  then have "length (FP_CONDS ! (unat (i_fcond i) mod 16)) \<le> 4" by (simp add: nth_mod_in_set)
  then show ?thesis using length_a_mnemonic [of "i_op i"]
    by (simp add: format_name_def split del: if_split) simp
qed

lemma length_fmt_left: "length s \<le> k \<Longrightarrow> length (fmt_left k s) = k"
  by (simp add: fmt_left_def)

lemma length_fmt_u8: "length (fmt_u (unat (x :: u8))) \<le> 3"
proof -
  have "unat x < 256" using unsigned_less [of x, where 'a = nat] by simp
  then show ?thesis unfolding fmt_u_def by (intro length_digits) simp_all
qed

lemma length_fmt_u32: "length (fmt_u (unat (x :: u32))) \<le> 10"
  using unat_u32_less [of x] unfolding fmt_u_def by (intro length_digits) simp_all

lemma length_fmt_X32: "length (fmt_X (unat (x :: u32))) \<le> 8"
  using unat_u32_less [of x] unfolding fmt_X_def by (intro length_digits) simp_all

lemma length_fmt_08X32: "length (fmt_0X 8 (unat (x :: u32))) = 8"
  using unat_u32_less [of x] by (intro length_fmt_0X) simp_all

lemma length_fmt_d32: "length (fmt_d (sint (x :: u32))) \<le> 11"
proof -
  have b: "- (2 ^ 31) \<le> sint x" "sint x < 2 ^ 31" using sint_ge [of x] sint_lt [of x] by simp_all
  have "nat (- sint x) < 10 ^ 10" "nat (sint x) < 10 ^ 10" using b by auto
  then have "length (fmt_u (nat (- sint x))) \<le> 10" "length (fmt_u (nat (sint x))) \<le> 10"
    unfolding fmt_u_def by (intro length_digits; simp)+
  then show ?thesis by (simp add: fmt_d_def)
qed

lemma length_fmt_05X: "length (fmt_0X 5 (unat ((x :: u32) AND 0xFFFFF))) = 5"
proof -
  have "(0xFFFFF :: u32) = mask 20" by (simp add: mask_eq_exp_minus_1)
  then have "unat (x AND 0xFFFFF) < 2 ^ 20" by (simp only: and_mask_unat) simp
  then show ?thesis by (intro length_fmt_0X) simp_all
qed

lemmas length_parts = length_a_reg_name length_a_freg_name length_fmt_u8 length_fmt_u32
  length_fmt_X32 length_fmt_d32

lemma length_format_text: "length (format_text i) \<le> 60"
proof -
  have r: "length (a_reg_name k) \<le> 5" "length (a_freg_name k) \<le> 4" "length (fmt_u (unat b)) \<le> 3"
    "length (fmt_u (unat w)) \<le> 10" "length (fmt_X (unat w)) \<le> 8" "length (fmt_d (sint w)) \<le> 11"
    for k and b :: u8 and w :: u32 by (rule length_parts)+
  have n: "length (fmt_left 10 (format_name i)) = 10"
    using length_format_name [of i] by (intro length_fmt_left) simp
  note r1 = r(1) [of "unat (i_rs i)"] r(1) [of "unat (i_rt i)"] r(1) [of "unat (i_rd i)"]
    r(2) [of "unat (i_fs i)"] r(2) [of "unat (i_ft i)"] r(2) [of "unat (i_fd i)"]
  note r2 = r(3) [of "i_sa i"] r(3) [of "i_fs i"] r(3) [of "i_vd i"] r(3) [of "i_vs i"]
    r(3) [of "i_vt i"] r(3) [of "i_vsize i"] r(5) [of "i_imm i"] r(6) [of "i_imm i"]
    r(6) [of "i_imm i AND NOT 3"]
  note r3 = r(4) [of "ucast (i_sa i)"] r(4) [of "ucast (i_rd i) + 1"]
    r(4) [of "ucast (i_rd i) - ucast (i_sa i) + 1"]
  show ?thesis
    using r1 r2 r3 length_format_name [of i]
    by (cases "i_fmt i")
       (simp_all only: format_text_def Let_def a_fmt.case length_append n length_fmt_08X32
          length_fmt_05X list.size split: if_split, simp_all)
qed

section \<open>Properties\<close>

text \<open>
  The text of any instruction fits the 128-byte buffers of its callers: \<^verbatim>\<open>a_format\<close> never
  truncates it there, and the value it returns is the number of characters written.
\<close>
theorem a_format_fits:
  assumes "128 \<le> buflen"
  shows "a_format i buflen = (format_text i, length (fst (a_format i buflen)))"
  using length_format_text [of i] assms by (simp add: a_format_def snprintf_def)

theorem a_format_fits_witness:
  "a_format (fst (a_decode 0x27BDFFE0 0)) 128 = (format_text (fst (a_decode 0x27BDFFE0 0)),
     length (fst (a_format (fst (a_decode 0x27BDFFE0 0)) 128)))"
  by (rule a_format_fits) simp

text \<open>
  A word the decoder does not recognise is disassembled as raw data from which the word can be
  read back exactly.
\<close>
theorem a_format_unknown_roundtrip:
  assumes "\<not> snd (a_decode w a)" and "128 \<le> buflen"
  shows "take 12 (fst (a_format (fst (a_decode w a)) buflen)) = ''.word     0x'' \<and>
    of_nat (read_digits 16 (drop 12 (fst (a_format (fst (a_decode w a)) buflen)))) = w"
proof -
  obtain i where i: "a_decode w a = (i, False)" "i_fmt i = F_UNKNOWN" "i_raw i = w"
    using assms(1) a_decode_table_invalid [of w a] by (metis prod.collapse)
  have t: "format_text i = ''.word     0x'' @ fmt_0X 8 (unat w)"
    by (simp add: format_text_def i)
  have "fst (a_format i buflen) = format_text i"
    using length_format_text [of i] assms(2) by (simp add: a_format_def snprintf_def)
  then show ?thesis unfolding i fst_conv t by (simp add: read_fmt_0X)
qed

theorem a_format_unknown_roundtrip_witness:
  "take 12 (fst (a_format (fst (a_decode 0x4C123456 0)) 128)) = ''.word     0x'' \<and>
    of_nat (read_digits 16 (drop 12 (fst (a_format (fst (a_decode 0x4C123456 0)) 128)))) =
      (0x4C123456 :: u32)"
proof (rule a_format_unknown_roundtrip)
  show "\<not> snd (a_decode 0x4C123456 0)" by code_simp
qed simp

end
