(* ===== verification/FnTable.thy ===== *)
theory FnTable
  imports Machine
begin

unbundle bit_operations_syntax

text \<open>
  The address-to-function table of \<^verbatim>\<open>src/dispatch.c\<close>: an open-addressed hash table with linear
  probing that doubles when it is three quarters full. The lemmas show that it refines a map.

  A function pointer \<^verbatim>\<open>psp_fn_t\<close> is an element of the type \<open>'f\<close> or null (\<open>None\<close>). A probing loop
  has no bound in the source: it is run here with one step of fuel per slot, after which it has seen
  every slot and would go round for ever, so running out of fuel (\<open>None\<close>) is not returning. The
  answer of \<^verbatim>\<open>calloc\<close> is the argument \<open>calloc_ok\<close>, a function of the requested number of slots.
\<close>

section \<open>The table\<close>

type_synonym 'f psp_fn_t = "'f option"

record 'f slot =
  s_addr :: u32
  s_fn :: "'f psp_fn_t"
  s_used :: bool

text \<open>The globals of \<^verbatim>\<open>dispatch.c\<close> the table and the dispatcher use.\<close>

record 'f dispatch =
  g_table :: "'f slot list option"
  g_cap :: u32
  g_count :: u32
  g_misses :: u64
  g_miss :: bool
  g_calls :: u64
  g_budget :: u64
  g_over :: bool

definition hash_addr :: "u32 \<Rightarrow> u32" where
  "hash_addr a = drop_bit 2 a * 2654435761"

definition free_slot :: "'f slot" where
  "free_slot = \<lparr>s_addr = 0, s_fn = None, s_used = False\<rparr>"

text \<open>
  \<^verbatim>\<open>while (...) j = (j + 1) & m;\<close> from slot \<open>j\<close>: the first slot at which the loop leaves.
\<close>

fun probe :: "('f slot \<Rightarrow> bool) \<Rightarrow> 'f slot list \<Rightarrow> u32 \<Rightarrow> nat \<Rightarrow> u32 \<Rightarrow> u32 option" where
  "probe stop t m 0 j = None"
| "probe stop t m (Suc fuel) j =
     (if stop (t ! unat j) then Some j else probe stop t m fuel ((j + 1) AND m))"

definition is_free :: "'f slot \<Rightarrow> bool" where
  "is_free s \<longleftrightarrow> \<not> s_used s"

definition free_or :: "u32 \<Rightarrow> 'f slot \<Rightarrow> bool" where
  "free_or addr s \<longleftrightarrow> \<not> s_used s \<or> s_addr s = addr"

text \<open>The rehashing loop of \<^verbatim>\<open>grow\<close>: one used slot moved to the new table.\<close>

definition rehash_slot :: "u32 \<Rightarrow> 'f slot \<Rightarrow> 'f slot list option \<Rightarrow> 'f slot list option" where
  "rehash_slot ncap s nt =
     (case nt of None \<Rightarrow> None
      | Some t \<Rightarrow>
          if \<not> s_used s then Some t
          else (let m = ncap - 1 in
                case probe is_free t m (unat ncap) (hash_addr (s_addr s) AND m) of
                  None \<Rightarrow> None
                | Some j \<Rightarrow> Some (t[unat j := s])))"

definition grow :: "(u32 \<Rightarrow> bool) \<Rightarrow> 'f dispatch \<Rightarrow> 'f dispatch option" where
  "grow calloc_ok d =
     (let ncap = (if g_cap d \<noteq> 0 then g_cap d * 2 else 4096) in
      if \<not> calloc_ok ncap then Some d
      else case fold (rehash_slot ncap) (case g_table d of None \<Rightarrow> [] | Some t \<Rightarrow> t)
                  (Some (replicate (unat ncap) free_slot)) of
             None \<Rightarrow> None
           | Some nt \<Rightarrow> Some (d\<lparr>g_table := Some nt, g_cap := ncap\<rparr>))"

definition needs_grow :: "'f dispatch \<Rightarrow> bool" where
  "needs_grow d \<longleftrightarrow> g_table d = None \<or> (g_count d + 1) * 4 \<ge> g_cap d * 3"

definition ensure_room :: "(u32 \<Rightarrow> bool) \<Rightarrow> 'f dispatch \<Rightarrow> 'f dispatch option" where
  "ensure_room calloc_ok d = (if needs_grow d then grow calloc_ok d else Some d)"

text \<open>
  The part \<^verbatim>\<open>psp_register\<close> and \<^verbatim>\<open>psp_register_label\<close> share: \<open>keep\<close> says what to do with an address
  already known (keep the old function, or replace it).
\<close>

definition put_slot :: "bool \<Rightarrow> u32 \<Rightarrow> 'f psp_fn_t \<Rightarrow> 'f dispatch \<Rightarrow> 'f dispatch option" where
  "put_slot keep addr fn d =
     (case g_table d of None \<Rightarrow> Some d
      | Some t \<Rightarrow>
          (let m = g_cap d - 1 in
           case probe (free_or addr) t m (unat (g_cap d)) (hash_addr addr AND m) of
             None \<Rightarrow> None
           | Some j \<Rightarrow>
               if s_used (t ! unat j)
               then Some (if keep then d else d\<lparr>g_table := Some (t[unat j := (t ! unat j)\<lparr>s_fn := fn\<rparr>])\<rparr>)
               else Some (d\<lparr>g_table := Some (t[unat j := \<lparr>s_addr = addr, s_fn = fn, s_used = True\<rparr>]),
                            g_count := g_count d + 1\<rparr>)))"

definition psp_register ::
  "(u32 \<Rightarrow> bool) \<Rightarrow> u32 \<Rightarrow> 'f psp_fn_t \<Rightarrow> 'f dispatch \<Rightarrow> 'f dispatch option" where
  "psp_register calloc_ok addr fn d =
     (case ensure_room calloc_ok d of None \<Rightarrow> None | Some d' \<Rightarrow> put_slot False addr fn d')"

definition psp_register_label ::
  "(u32 \<Rightarrow> bool) \<Rightarrow> u32 \<Rightarrow> 'f psp_fn_t \<Rightarrow> 'f dispatch \<Rightarrow> 'f dispatch option" where
  "psp_register_label calloc_ok addr fn d =
     (case ensure_room calloc_ok d of None \<Rightarrow> None | Some d' \<Rightarrow> put_slot True addr fn d')"

text \<open>The outer option is whether the loop ends, the inner one the function pointer.\<close>

definition psp_lookup :: "u32 \<Rightarrow> 'f dispatch \<Rightarrow> 'f psp_fn_t option" where
  "psp_lookup addr d =
     (case g_table d of None \<Rightarrow> Some None
      | Some t \<Rightarrow>
          (let m = g_cap d - 1 in
           case probe (free_or addr) t m (unat (g_cap d)) (hash_addr addr AND m) of
             None \<Rightarrow> None
           | Some j \<Rightarrow> Some (if s_used (t ! unat j) then s_fn (t ! unat j) else None)))"

definition psp_dispatch_reset :: "'f dispatch \<Rightarrow> 'f dispatch" where
  "psp_dispatch_reset d =
     d\<lparr>g_table := None, g_cap := 0, g_count := 0, g_misses := 0, g_miss := False\<rparr>"

definition psp_dispatch_count :: "'f dispatch \<Rightarrow> u32" where
  "psp_dispatch_count d = g_count d"

definition psp_dispatch_misses :: "'f dispatch \<Rightarrow> u64" where
  "psp_dispatch_misses d = g_misses d"

section \<open>Probing\<close>

text \<open>Slots are visited cyclically: after \<open>d\<close> steps from \<open>j\<close> the loop is at \<open>(j + d) mod n\<close>.\<close>

lemma step_mod:
  assumes n: "n = 2 ^ k" "k \<le> 31" and j: "unat (j :: u32) < n"
  shows "unat ((j + 1) AND (of_nat n - 1)) = (unat j + 1) mod n"
proof -
  have "(of_nat n - 1 :: u32) = mask k"
    using n by (simp add: mask_eq_exp_minus_1)
  moreover have "unat (j + 1) = unat j + 1"
  proof -
    have "2 ^ k \<le> (2 ^ 31 :: nat)" using n(2) by (intro power_increasing) simp_all
    then have "unat j + 1 < 2 ^ 32" using j n(1) by simp
    then show ?thesis by (simp add: unat_word_ariths)
  qed
  ultimately show ?thesis using n by (simp add: and_mask_unat)
qed

lemma hash_slot_less:
  assumes "n = 2 ^ k" "k \<le> 31"
  shows "unat ((h :: u32) AND (of_nat n - 1)) < n"
proof -
  have "(of_nat n - 1 :: u32) = mask k" using assms by (simp add: mask_eq_exp_minus_1)
  then show ?thesis using assms by (simp add: and_mask_unat)
qed

lemma probe_first:
  assumes n: "n = 2 ^ k" "k \<le> 31"
    and "unat j < n" and "dst < fuel"
    and "stop (t ! ((unat j + dst) mod n))"
    and "\<forall>e<dst. \<not> stop (t ! ((unat j + e) mod n))"
  shows "\<exists>i. probe stop t (of_nat n - 1) fuel j = Some i \<and> unat i = (unat j + dst) mod n"
  using assms(3-)
proof (induction dst arbitrary: j fuel)
  case 0
  then obtain f where "fuel = Suc f" by (cases fuel) auto
  with 0 show ?case by simp
next
  case (Suc dst)
  from Suc.prems(2) obtain f where f: "fuel = Suc f" by (cases fuel) auto
  let ?j = "(j + 1) AND (of_nat n - 1)"
  have uj: "unat ?j = (unat j + 1) mod n" by (rule step_mod [OF n Suc.prems(1)])
  then have shift: "(unat ?j + e) mod n = (unat j + Suc e) mod n" for e
    by (simp add: mod_add_left_eq)
  have "\<not> stop (t ! unat j)" using Suc.prems(4) [rule_format, of 0] Suc.prems(1) by simp
  moreover have "\<exists>i. probe stop t (of_nat n - 1) f ?j = Some i \<and> unat i = (unat ?j + dst) mod n"
  proof (rule Suc.IH)
    show "unat ?j < n" using uj n by simp
    show "dst < f" using Suc.prems(2) f by simp
    show "stop (t ! ((unat ?j + dst) mod n))" using Suc.prems(3) by (simp only: shift)
    show "\<forall>e<dst. \<not> stop (t ! ((unat ?j + e) mod n))"
      using Suc.prems(4) by (simp only: shift) auto
  qed
  ultimately show ?case by (simp add: f shift)
qed

lemma probe_stops:
  assumes n: "n = 2 ^ k" "k \<le> 31" and j: "unat j < n" and i: "i < n" "stop (t ! i)"
  obtains dst p where "dst < n" "probe stop t (of_nat n - 1) n j = Some p"
    "unat p = (unat j + dst) mod n" "stop (t ! ((unat j + dst) mod n))"
    "\<forall>e<dst. \<not> stop (t ! ((unat j + e) mod n))"
proof -
  let ?P = "\<lambda>e. stop (t ! ((unat j + e) mod n))"
  let ?d = "(i + n - unat j) mod n"
  have "(unat j + ?d) mod n = i"
    using i j by (simp add: mod_add_right_eq)
  then have P: "?P ?d" using i by simp
  define dst where "dst = (LEAST e. ?P e)"
  have "?P dst" unfolding dst_def by (rule LeastI [of ?P, OF P])
  moreover have "\<forall>e<dst. \<not> ?P e" unfolding dst_def using not_less_Least by blast
  moreover have "dst < n"
  proof -
    have "?d < n" using n by (intro mod_less_divisor) simp
    then show ?thesis using Least_le [of ?P, OF P] unfolding dst_def by linarith
  qed
  ultimately show thesis using that probe_first [OF n j] by blast
qed

section \<open>The table invariant and the map it represents\<close>

text \<open>
  Addresses occur once, and every used slot is reached from its home slot through used slots only,
  which is what makes stopping at the first free slot a proof of absence.
\<close>

definition home :: "nat \<Rightarrow> u32 \<Rightarrow> nat" where
  "home n a = unat (hash_addr a AND (of_nat n - 1))"

definition reached :: "nat \<Rightarrow> 'f slot list \<Rightarrow> nat \<Rightarrow> bool" where
  "reached n t i \<longleftrightarrow> (\<exists>dst<n. i = (home n (s_addr (t ! i)) + dst) mod n \<and>
     (\<forall>e<dst. s_used (t ! ((home n (s_addr (t ! i)) + e) mod n))))"

definition table_inv :: "nat \<Rightarrow> 'f slot list \<Rightarrow> bool" where
  "table_inv n t \<longleftrightarrow> (\<exists>k. n = 2 ^ k \<and> k \<le> 31) \<and> length t = n \<and>
     (\<forall>i<n. \<forall>j<n. s_used (t ! i) \<and> s_used (t ! j) \<and> s_addr (t ! i) = s_addr (t ! j) \<longrightarrow> i = j) \<and>
     (\<forall>i<n. s_used (t ! i) \<longrightarrow> reached n t i)"

definition used_count :: "'f slot list \<Rightarrow> nat" where
  "used_count t = length (filter s_used t)"

definition slots_map :: "'f slot list \<Rightarrow> u32 \<Rightarrow> 'f psp_fn_t option" where
  "slots_map t a = map_option (\<lambda>i. s_fn (t ! i)) (find_index (\<lambda>s. s_used s \<and> s_addr s = a) t)"

lemma table_invD:
  assumes "table_inv n t"
  obtains k where "n = 2 ^ k" "k \<le> 31" "length t = n" "0 < n"
  using assms by (auto simp: table_inv_def)

lemma table_inv_unique:
  "table_inv n t \<Longrightarrow> i < n \<Longrightarrow> j < n \<Longrightarrow> s_used (t ! i) \<Longrightarrow> s_used (t ! j) \<Longrightarrow>
     s_addr (t ! i) = s_addr (t ! j) \<Longrightarrow> i = j"
  by (simp add: table_inv_def)

lemma slots_map_Some_iff:
  assumes "table_inv n t"
  shows "slots_map t a = Some v \<longleftrightarrow> (\<exists>i<n. s_used (t ! i) \<and> s_addr (t ! i) = a \<and> s_fn (t ! i) = v)"
proof
  show "slots_map t a = Some v \<Longrightarrow> \<exists>i<n. s_used (t ! i) \<and> s_addr (t ! i) = a \<and> s_fn (t ! i) = v"
    using assms by (auto simp: slots_map_def table_inv_def dest!: find_index_SomeD)
next
  assume "\<exists>i<n. s_used (t ! i) \<and> s_addr (t ! i) = a \<and> s_fn (t ! i) = v"
  then obtain i where i: "i < n" "s_used (t ! i)" "s_addr (t ! i) = a" "s_fn (t ! i) = v" by blast
  have "find_index (\<lambda>s. s_used s \<and> s_addr s = a) t = Some i"
  proof (rule find_index_SomeI)
    show "i < length t" using assms i by (simp add: table_inv_def)
    show "s_used (t ! i) \<and> s_addr (t ! i) = a" using i by simp
    show "\<not> (s_used (t ! j) \<and> s_addr (t ! j) = a)" if "j < i" for j
      using table_inv_unique [OF assms] i that by (metis less_trans less_irrefl)
  qed
  then show "slots_map t a = Some v" using i by (simp add: slots_map_def)
qed

lemma slots_map_None_iff:
  assumes "table_inv n t"
  shows "slots_map t a = None \<longleftrightarrow> (\<forall>i<n. \<not> (s_used (t ! i) \<and> s_addr (t ! i) = a))"
  using slots_map_Some_iff [OF assms, of a] by (metis not_None_eq)

lemma used_count_update:
  assumes "p < length t" "\<not> s_used (t ! p)" "s_used s"
  shows "used_count (t[p := s]) = Suc (used_count t)"
proof -
  have "t = take p t @ t ! p # drop (Suc p) t" using assms(1) by (rule id_take_nth_drop)
  then have "used_count t = used_count (take p t @ t ! p # drop (Suc p) t)" by simp
  then show ?thesis using assms by (simp add: used_count_def upd_conv_take_nth_drop)
qed

lemma free_slot_exists:
  assumes "used_count t < length t"
  obtains i where "i < length t" "\<not> s_used (t ! i)"
  using assms unfolding used_count_def by (metis filter_True in_set_conv_nth less_irrefl)

text \<open>Storing a new address at the first free slot from its home keeps the invariant.\<close>

lemma table_insert:
  assumes inv: "table_inv n t" and absent: "slots_map t a = None"
    and p: "dst < n" "p = (home n a + dst) mod n" "\<not> s_used (t ! p)"
    and chain: "\<forall>e<dst. s_used (t ! ((home n a + e) mod n))"
    and s: "s_used s" "s_addr s = a"
  shows "table_inv n (t[p := s]) \<and> slots_map (t[p := s]) = (slots_map t)(a \<mapsto> s_fn s)"
proof -
  obtain k where n: "n = 2 ^ k" "k \<le> 31" "length t = n" "0 < n" by (rule table_invD [OF inv])
  have pn: "p < n" using p n by simp
  let ?t = "t[p := s]"
  have nth: "?t ! i = (if i = p then s else t ! i)" if "i < n" for i
    using that n(3) by (simp add: nth_list_update)
  have used: "s_used (?t ! i)" if "i < n" "s_used (t ! i)" for i
    using that by (simp add: nth s)
  have nope: "\<not> (s_used (t ! i) \<and> s_addr (t ! i) = a)" if "i < n" for i
    using absent that by (simp add: slots_map_None_iff [OF inv])
  have uniq: "i = j" if "i < n" "j < n" "s_used (?t ! i)" "s_used (?t ! j)"
    "s_addr (?t ! i) = s_addr (?t ! j)" for i j
    using that nope table_inv_unique [OF inv, of i j] s
    by (cases "i = p"; cases "j = p") (auto simp: nth)
  have reach: "reached n ?t i" if i: "i < n" "s_used (?t ! i)" for i
  proof (cases "i = p")
    case True
    have "\<forall>e<dst. s_used (?t ! ((home n a + e) mod n))" using chain used n(4) by simp
    then show ?thesis using True p(1,2) i(1) s unfolding reached_def by (metis nth)
  next
    case False
    then have "s_used (t ! i)" using i by (simp add: nth)
    then have "reached n t i" using inv i by (simp add: table_inv_def)
    then obtain d' where d': "d' < n" "i = (home n (s_addr (t ! i)) + d') mod n"
      "\<forall>e<d'. s_used (t ! ((home n (s_addr (t ! i)) + e) mod n))" unfolding reached_def by blast
    have "\<forall>e<d'. s_used (?t ! ((home n (s_addr (t ! i)) + e) mod n))" using d'(3) used n(4) by simp
    moreover have "?t ! i = t ! i" using False i(1) by (simp add: nth)
    ultimately show ?thesis using d'(1,2) unfolding reached_def by metis
  qed
  have inv': "table_inv n ?t"
    unfolding table_inv_def
  proof (intro conjI allI impI)
    show "\<exists>k. n = 2 ^ k \<and> k \<le> 31" using n(1,2) by blast
    show "length ?t = n" using n(3) by simp
  qed (use uniq reach in blast)+
  have "slots_map ?t b = Some v \<longleftrightarrow> ((slots_map t)(a \<mapsto> s_fn s)) b = Some v" for b v
  proof -
    have "slots_map ?t b = Some v \<longleftrightarrow>
        (\<exists>i<n. s_used (?t ! i) \<and> s_addr (?t ! i) = b \<and> s_fn (?t ! i) = v)"
      by (rule slots_map_Some_iff [OF inv'])
    also have "\<dots> \<longleftrightarrow> (a = b \<and> s_fn s = v) \<or>
        (\<exists>i<n. s_used (t ! i) \<and> s_addr (t ! i) = b \<and> s_fn (t ! i) = v)"
      using nth pn p(3) s by metis
    also have "\<dots> \<longleftrightarrow> (a = b \<and> s_fn s = v) \<or> slots_map t b = Some v"
      by (simp add: slots_map_Some_iff [OF inv])
    finally show ?thesis using absent by auto
  qed
  then have "slots_map ?t = (slots_map t)(a \<mapsto> s_fn s)" by (intro ext) (metis not_None_eq)
  with inv' show ?thesis by blast
qed

text \<open>Replacing the function of a used slot changes only the value at its address.\<close>

lemma table_replace:
  assumes inv: "table_inv n t" and p: "p < n" "s_used (t ! p)" "s_addr (t ! p) = a"
  shows "table_inv n (t[p := (t ! p)\<lparr>s_fn := fn\<rparr>]) \<and>
    slots_map (t[p := (t ! p)\<lparr>s_fn := fn\<rparr>]) = (slots_map t)(a \<mapsto> fn) \<and>
    used_count (t[p := (t ! p)\<lparr>s_fn := fn\<rparr>]) = used_count t"
proof -
  obtain k where n: "n = 2 ^ k" "k \<le> 31" "length t = n" "0 < n" by (rule table_invD [OF inv])
  let ?t = "t[p := (t ! p)\<lparr>s_fn := fn\<rparr>]"
  have same: "s_used (?t ! i) = s_used (t ! i)" "s_addr (?t ! i) = s_addr (t ! i)"
    "s_fn (?t ! i) = (if i = p then fn else s_fn (t ! i))" if "i < n" for i
    using that n(3) by (cases "i = p"; simp)+
  have inv': "table_inv n ?t"
    using inv n(3,4) unfolding table_inv_def reached_def by (simp add: same)
  have "slots_map ?t b = Some v \<longleftrightarrow> ((slots_map t)(a \<mapsto> fn)) b = Some v" for b v
  proof -
    have "slots_map ?t b = Some v \<longleftrightarrow>
        (\<exists>i<n. s_used (?t ! i) \<and> s_addr (?t ! i) = b \<and> s_fn (?t ! i) = v)"
      by (rule slots_map_Some_iff [OF inv'])
    also have "\<dots> \<longleftrightarrow> (a = b \<and> fn = v) \<or>
        (b \<noteq> a \<and> (\<exists>i<n. s_used (t ! i) \<and> s_addr (t ! i) = b \<and> s_fn (t ! i) = v))"
      using same p table_inv_unique [OF inv _ p(1) _ p(2)] by metis
    finally show ?thesis by (auto simp: slots_map_Some_iff [OF inv])
  qed
  then have "slots_map ?t = (slots_map t)(a \<mapsto> fn)" by (intro ext) (metis not_None_eq)
  moreover have "used_count ?t = used_count t"
  proof -
    have t: "t = take p t @ t ! p # drop (Suc p) t" using p(1) n(3) by (intro id_take_nth_drop) simp
    have "used_count t = used_count (take p t @ t ! p # drop (Suc p) t)" using t by simp
    then show ?thesis using p n(3) by (simp add: used_count_def upd_conv_take_nth_drop)
  qed
  ultimately show ?thesis using inv' by blast
qed

section \<open>Searching and rehashing\<close>

lemma probe_find:
  assumes inv: "table_inv n t" and room: "used_count t < n"
  obtains p dst where
    "probe (free_or a) t (of_nat n - 1) n (hash_addr a AND (of_nat n - 1)) = Some p"
    "unat p < n" "dst < n" "unat p = (home n a + dst) mod n"
    "\<forall>e<dst. s_used (t ! ((home n a + e) mod n))"
    "if s_used (t ! unat p) then s_addr (t ! unat p) = a \<and> slots_map t a = Some (s_fn (t ! unat p))
     else slots_map t a = None"
proof -
  obtain k where n: "n = 2 ^ k" "k \<le> 31" "length t = n" "0 < n" by (rule table_invD [OF inv])
  obtain i where i: "i < n" "\<not> s_used (t ! i)" using free_slot_exists room n(3) by metis
  have h: "unat (hash_addr a AND (of_nat n - 1)) < n" by (rule hash_slot_less [OF n(1,2)])
  have st: "free_or a (t ! i)" using i by (simp add: free_or_def)
  obtain dst p where p: "dst < n"
    "probe (free_or a) t (of_nat n - 1) n (hash_addr a AND (of_nat n - 1)) = Some p"
    "unat p = (home n a + dst) mod n" "free_or a (t ! ((home n a + dst) mod n))"
    "\<forall>e<dst. \<not> free_or a (t ! ((home n a + e) mod n))"
    using probe_stops [OF n(1,2) h i(1), of "free_or a" t] st unfolding home_def by metis
  have pn: "unat p < n" using p(3) n(4) by simp
  have chain: "\<forall>e<dst. s_used (t ! ((home n a + e) mod n))" using p(5) by (simp add: free_or_def)
  have "if s_used (t ! unat p) then s_addr (t ! unat p) = a \<and> slots_map t a = Some (s_fn (t ! unat p))
     else slots_map t a = None"
  proof (cases "s_used (t ! unat p)")
    case True
    then have "s_addr (t ! unat p) = a" using p(3,4) by (simp add: free_or_def)
    then show ?thesis using True pn slots_map_Some_iff [OF inv] by auto
  next
    case False
    have "\<not> (s_used (t ! i) \<and> s_addr (t ! i) = a)" if "i < n" for i
    proof
      assume u: "s_used (t ! i) \<and> s_addr (t ! i) = a"
      then have "reached n t i" using inv \<open>i < n\<close> by (simp add: table_inv_def)
      then obtain d where d: "i = (home n a + d) mod n" "\<forall>e<d. s_used (t ! ((home n a + e) mod n))"
        using u unfolding reached_def by auto
      consider "dst < d" | "dst = d" | "d < dst" by linarith
      then show False
      proof cases
        case 1 then show ?thesis using d(2) False p(3) by auto
      next
        case 2 then show ?thesis using d(1) u False p(3) by simp
      next
        case 3 then show ?thesis using d(1) u p(5) by (auto simp: free_or_def)
      qed
    qed
    then show ?thesis using False by (simp add: slots_map_None_iff [OF inv])
  qed
  then show thesis using that [OF p(2) pn p(1,3) chain] by blast
qed

definition uniq_slots :: "'f slot list \<Rightarrow> bool" where
  "uniq_slots xs \<longleftrightarrow> (\<forall>i<length xs. \<forall>j<length xs.
     s_used (xs ! i) \<and> s_used (xs ! j) \<and> s_addr (xs ! i) = s_addr (xs ! j) \<longrightarrow> i = j)"

lemma slots_map_Cons:
  "slots_map (x # xs) a = (if s_used x \<and> s_addr x = a then Some (s_fn x) else slots_map xs a)"
  by (cases "find_index (\<lambda>s. s_used s \<and> s_addr s = a) xs") (simp_all add: slots_map_def)

lemma slots_map_Nil [simp]: "slots_map [] = Map.empty"
  by (simp add: slots_map_def fun_eq_iff)

lemma uniq_slots_Cons:
  assumes "uniq_slots (x # xs)"
  shows "uniq_slots xs" and "s_used x \<Longrightarrow> slots_map xs (s_addr x) = None"
proof -
  show "uniq_slots xs"
    using assms unfolding uniq_slots_def by (metis Suc_less_eq length_Cons nat.inject nth_Cons_Suc)
  assume u: "s_used x"
  show "slots_map xs (s_addr x) = None"
    unfolding slots_map_def option.map_disc_iff find_index_None_iff
  proof (intro ballI notI)
    fix s assume s: "s \<in> set xs" "s_used s \<and> s_addr s = s_addr x"
    then obtain j where "j < length xs" "xs ! j = s" by (auto simp: in_set_conv_nth)
    then have "0 = Suc j"
      using assms u s unfolding uniq_slots_def
      by (metis Suc_less_eq length_Cons nth_Cons_0 nth_Cons_Suc zero_less_Suc)
    then show False by simp
  qed
qed

lemma rehash_one:
  assumes inv: "table_inv n t" and n: "n = unat ncap" and room: "used_count t < n"
    and s: "s_used s" "slots_map t (s_addr s) = None"
  shows "\<exists>t'. rehash_slot ncap s (Some t) = Some t' \<and> table_inv n t' \<and>
    used_count t' = Suc (used_count t) \<and> slots_map t' = (slots_map t)(s_addr s \<mapsto> s_fn s)"
proof -
  obtain k where k: "n = 2 ^ k" "k \<le> 31" "length t = n" "0 < n" by (rule table_invD [OF inv])
  obtain i where i: "i < n" "is_free (t ! i)"
    using free_slot_exists room k(3) unfolding is_free_def by metis
  have w: "of_nat n = ncap" by (simp add: n)
  have h: "unat (hash_addr (s_addr s) AND (of_nat n - 1)) < n" by (rule hash_slot_less [OF k(1,2)])
  obtain dst p where p: "dst < n"
    "probe is_free t (of_nat n - 1) n (hash_addr (s_addr s) AND (of_nat n - 1)) = Some p"
    "unat p = (home n (s_addr s) + dst) mod n" "is_free (t ! ((home n (s_addr s) + dst) mod n))"
    "\<forall>e<dst. \<not> is_free (t ! ((home n (s_addr s) + e) mod n))"
    using probe_stops [OF k(1,2) h i(1), of is_free t] i(2) unfolding home_def by metis
  have "rehash_slot ncap s (Some t) = Some (t[unat p := s])"
    using p(2) s(1) unfolding w by (simp add: rehash_slot_def n)
  moreover have "table_inv n (t[unat p := s]) \<and> slots_map (t[unat p := s]) =
      (slots_map t)(s_addr s \<mapsto> s_fn s)"
    by (rule table_insert [OF inv s(2) p(1,3)]) (use p s in \<open>simp_all add: is_free_def\<close>)
  moreover have "used_count (t[unat p := s]) = Suc (used_count t)"
    by (rule used_count_update) (use p k s in \<open>simp_all add: is_free_def\<close>)
  ultimately show ?thesis by blast
qed

lemma rehash_all:
  assumes "table_inv n t" and n: "n = unat ncap" and "used_count t + used_count xs < n"
    and "uniq_slots xs" and "\<forall>a. slots_map xs a \<noteq> None \<longrightarrow> slots_map t a = None"
  shows "\<exists>t'. fold (rehash_slot ncap) xs (Some t) = Some t' \<and> table_inv n t' \<and>
    used_count t' = used_count t + used_count xs \<and> slots_map t' = slots_map t ++ slots_map xs"
  using assms(1,3-)
proof (induction xs arbitrary: t)
  case Nil
  then show ?case by (simp add: used_count_def map_add_def)
next
  case (Cons x xs)
  show ?case
  proof (cases "s_used x")
    case False
    then have "slots_map (x # xs) = slots_map xs" "used_count (x # xs) = used_count xs"
      by (simp_all add: fun_eq_iff slots_map_Cons used_count_def)
    moreover have "rehash_slot ncap x (Some t) = Some t" using False by (simp add: rehash_slot_def)
    ultimately show ?thesis using Cons.IH [OF Cons.prems(1)] Cons.prems(2,4)
        uniq_slots_Cons(1) [OF Cons.prems(3)] by simp
  next
    case True
    have c: "used_count (x # xs) = Suc (used_count xs)" using True by (simp add: used_count_def)
    have sm: "slots_map (x # xs) = (slots_map xs)(s_addr x \<mapsto> s_fn x)"
      using True by (simp add: fun_eq_iff slots_map_Cons)
    have "slots_map t (s_addr x) = None" using Cons.prems(4) by (simp add: sm)
    moreover have "used_count t < n" using Cons.prems(2) by simp
    ultimately obtain t1 where t1: "rehash_slot ncap x (Some t) = Some t1" "table_inv n t1"
      "used_count t1 = Suc (used_count t)" "slots_map t1 = (slots_map t)(s_addr x \<mapsto> s_fn x)"
      using rehash_one [OF Cons.prems(1) n] True by blast
    have nx: "slots_map xs (s_addr x) = None" using uniq_slots_Cons(2) Cons.prems(3) True by blast
    have "\<exists>t'. fold (rehash_slot ncap) xs (Some t1) = Some t' \<and> table_inv n t' \<and>
        used_count t' = used_count t1 + used_count xs \<and> slots_map t' = slots_map t1 ++ slots_map xs"
    proof (rule Cons.IH [OF t1(2)])
      show "used_count t1 + used_count xs < n" using Cons.prems(2) t1(3) c by simp
      show "uniq_slots xs" using uniq_slots_Cons(1) Cons.prems(3) by blast
      show "\<forall>a. slots_map xs a \<noteq> None \<longrightarrow> slots_map t1 a = None"
        using Cons.prems(4) nx unfolding t1(4) sm by auto
    qed
    moreover have "slots_map t1 ++ slots_map xs = slots_map t ++ slots_map (x # xs)"
      using nx unfolding t1(4) sm by (auto simp: fun_eq_iff map_add_def split: option.splits)
    ultimately show ?thesis using t1(1,3) c by auto
  qed
qed

section \<open>The invariant of the dispatcher\<close>

text \<open>
  No table yet, or a table that keeps the invariant, whose used slots are counted by \<^verbatim>\<open>g_count\<close> and
  fill less than three quarters of it. \<open>2 ^ 30\<close> slots keep \<^verbatim>\<open>g_cap * 3\<close> from wrapping.
\<close>

definition dispatch_inv :: "'f dispatch \<Rightarrow> bool" where
  "dispatch_inv d \<longleftrightarrow> (case g_table d of
     None \<Rightarrow> g_cap d = 0 \<and> g_count d = 0
   | Some t \<Rightarrow> table_inv (unat (g_cap d)) t \<and> unat (g_count d) = used_count t \<and>
       used_count t * 4 < unat (g_cap d) * 3 \<and> 4096 \<le> unat (g_cap d) \<and> unat (g_cap d) \<le> 2 ^ 30)"

definition fn_map :: "'f dispatch \<Rightarrow> u32 \<Rightarrow> 'f psp_fn_t option" where
  "fn_map d = (case g_table d of None \<Rightarrow> Map.empty | Some t \<Rightarrow> slots_map t)"

abbreviation (input) always_ok :: "u32 \<Rightarrow> bool" where "always_ok \<equiv> (\<lambda>_. True)"

lemma used_count_free [simp]: "used_count (replicate n free_slot) = 0"
  by (simp add: used_count_def free_slot_def)

lemma slots_map_free [simp]: "slots_map (replicate n (free_slot :: 'f slot)) = Map.empty"
proof -
  have "find_index (\<lambda>s. s_used s \<and> s_addr s = a) (replicate n (free_slot :: 'f slot)) = None" for a
    unfolding find_index_None_iff by (simp add: free_slot_def)
  then show ?thesis by (simp add: slots_map_def fun_eq_iff)
qed

lemma table_inv_free: "n = 2 ^ k \<Longrightarrow> k \<le> 31 \<Longrightarrow> table_inv n (replicate n free_slot)"
  by (auto simp: table_inv_def free_slot_def)

lemma table_inv_uniq: "table_inv n t \<Longrightarrow> uniq_slots t"
  by (simp add: table_inv_def uniq_slots_def)

lemma unat_mult_u32: "unat x * unat y < 2 ^ 32 \<Longrightarrow> unat (x * y) = unat x * unat (y :: u32)"
  by (simp add: unat_word_ariths)

lemma load_room: "(c + 1) * 4 < n * 3 \<Longrightarrow> c < n" "c * 4 < n * 3 \<Longrightarrow> c < n" for c n :: nat
  by simp_all

lemma grow_table:
  fixes t :: "'f slot list"
  assumes t: "table_inv n t" "n \<le> 2 ^ 30" and n: "unat (g_cap d) = n" "0 < n"
    and c: "used_count t < n" and gt: "g_table d = Some t"
  shows "\<exists>t'. grow always_ok d = Some (d\<lparr>g_table := Some t', g_cap := g_cap d * 2\<rparr>) \<and>
    unat (g_cap d * 2) = 2 * n \<and> table_inv (2 * n) t' \<and> used_count t' = used_count t \<and>
    slots_map t' = slots_map t"
proof -
  obtain k where k: "n = 2 ^ k" "k \<le> 31" "length t = n" by (rule table_invD [OF t(1)])
  have nz: "g_cap d \<noteq> 0" using n by auto
  have w: "unat (g_cap d * 2) = 2 * n" using t(2) n by (simp add: unat_word_ariths)
  have "2 ^ k \<le> (2 ^ 30 :: nat)" using k t(2) by simp
  then have "k \<le> 30" by (rule power_le_imp_le_exp [rotated]) simp
  then have f: "table_inv (2 * n) (replicate (2 * n) (free_slot :: 'f slot))"
    using k by (intro table_inv_free [of _ "Suc k"]) simp_all
  have "\<exists>t'. fold (rehash_slot (g_cap d * 2)) t (Some (replicate (2 * n) free_slot)) = Some t' \<and>
      table_inv (2 * n) t' \<and>
      used_count t' = used_count (replicate (2 * n) (free_slot :: 'f slot)) + used_count t \<and>
      slots_map t' = slots_map (replicate (2 * n) free_slot) ++ slots_map t"
    by (rule rehash_all [OF f w [symmetric]]) (use c table_inv_uniq [OF t(1)] in simp_all)
  then obtain t' where t': "fold (rehash_slot (g_cap d * 2)) t (Some (replicate (2 * n) free_slot)) = Some t'"
    "table_inv (2 * n) t'" "used_count t' = used_count t" "slots_map t' = slots_map t" by auto
  have "grow always_ok d = Some (d\<lparr>g_table := Some t', g_cap := g_cap d * 2\<rparr>)"
    using t'(1) nz by (simp add: grow_def w gt)
  with w t' show ?thesis by blast
qed

lemma grow_first:
  assumes "g_table d = None" "g_cap d = 0"
  shows "grow always_ok d = Some (d\<lparr>g_table := Some (replicate 4096 free_slot), g_cap := 4096\<rparr>)"
  using assms by (simp add: grow_def)

text \<open>
  Making room: the map is unchanged and there is space for one more entry below the load limit.
\<close>

lemma ensure_room_ok:
  assumes inv: "dispatch_inv d" and lim: "unat (g_count d) < 2 ^ 29"
  obtains d' t where "ensure_room always_ok d = Some d'" "g_table d' = Some t"
    "table_inv (unat (g_cap d')) t" "unat (g_count d') = used_count t"
    "(used_count t + 1) * 4 < unat (g_cap d') * 3" "unat (g_cap d') \<le> 2 ^ 30"
    "4096 \<le> unat (g_cap d')" "slots_map t = fn_map d" "g_count d' = g_count d"
proof (cases "g_table d")
  case None
  then have z: "g_cap d = 0" "g_count d = 0" using inv by (simp_all add: dispatch_inv_def)
  have e: "ensure_room always_ok d =
      Some (d\<lparr>g_table := Some (replicate 4096 free_slot), g_cap := 4096\<rparr>)"
    using None z by (simp add: ensure_room_def needs_grow_def grow_first)
  show thesis
    by (rule that [OF e, of "replicate 4096 free_slot"])
       (use None z in \<open>simp_all add: fn_map_def table_inv_free [of _ 12]\<close>)
next
  case (Some t)
  let ?n = "unat (g_cap d)"
  have i: "table_inv ?n t" "unat (g_count d) = used_count t" "used_count t * 4 < ?n * 3"
    "?n \<le> 2 ^ 30" "4096 \<le> ?n" using inv Some by (simp_all add: dispatch_inv_def)
  have ng: "needs_grow d \<longleftrightarrow> (used_count t + 1) * 4 \<ge> ?n * 3"
  proof -
    have "unat (g_count d + 1) = used_count t + 1"
      using lim i(2) by (simp add: unat_word_ariths)
    then have "unat ((g_count d + 1) * 4) = (used_count t + 1) * 4"
      using lim i(2) unat_mult_u32 [of "g_count d + 1" 4] by simp
    moreover have "unat (g_cap d * 3) = ?n * 3"
      using i(4) unat_mult_u32 [of "g_cap d" 3] by simp
    ultimately show ?thesis by (simp only: needs_grow_def word_le_nat_alt Some option.distinct simp_thms)
  qed
  show thesis
  proof (cases "needs_grow d")
    case False
    have e: "ensure_room always_ok d = Some d" using False by (simp add: ensure_room_def)
    show thesis
      by (rule that [OF e Some i(1,2)]) (use False ng i Some in \<open>simp_all add: fn_map_def\<close>)
  next
    case True
    then have full: "(used_count t + 1) * 4 \<ge> ?n * 3" using ng by simp
    have small: "2 * ?n \<le> 2 ^ 30"
    proof -
      have "?n < 2 ^ 30" using full lim i(2) by simp
      moreover obtain k where "?n = 2 ^ k" by (rule table_invD [OF i(1)])
      ultimately have "2 ^ Suc k \<le> (2 ^ 30 :: nat)" using \<open>?n = 2 ^ k\<close>
        by (metis Suc_leI power_increasing power_less_imp_less_exp one_less_numeral_iff
            one_le_numeral semiring_norm(76))
      then show ?thesis using \<open>?n = 2 ^ k\<close> by simp
    qed
    obtain t' where t': "grow always_ok d = Some (d\<lparr>g_table := Some t', g_cap := g_cap d * 2\<rparr>)"
      "unat (g_cap d * 2) = 2 * ?n" "table_inv (2 * ?n) t'" "used_count t' = used_count t"
      "slots_map t' = slots_map t"
      using grow_table [OF i(1,4) refl _ _ Some] i by auto
    have e: "ensure_room always_ok d = Some (d\<lparr>g_table := Some t', g_cap := g_cap d * 2\<rparr>)"
      using True t'(1) by (simp add: ensure_room_def)
    show thesis
      by (rule that [OF e, of t']) (use t' i small Some in \<open>simp_all add: fn_map_def\<close>)
  qed
qed

lemma put_slot_ok:
  assumes t: "g_table d = Some t" "table_inv (unat (g_cap d)) t" "unat (g_count d) = used_count t"
    "(used_count t + 1) * 4 < unat (g_cap d) * 3" "unat (g_cap d) \<le> 2 ^ 30" "4096 \<le> unat (g_cap d)"
  shows "\<exists>d'. put_slot keep a fn d = Some d' \<and> dispatch_inv d' \<and>
    fn_map d' = (if keep \<and> slots_map t a \<noteq> None then slots_map t else (slots_map t)(a \<mapsto> fn)) \<and>
    unat (g_count d') \<le> unat (g_count d) + 1"
proof -
  let ?n = "unat (g_cap d)"
  have room: "used_count t < ?n" using t(4) by (rule load_room)
  obtain p dst where p: "probe (free_or a) t (of_nat ?n - 1) ?n (hash_addr a AND (of_nat ?n - 1)) = Some p"
    "unat p < ?n" "dst < ?n" "unat p = (home ?n a + dst) mod ?n"
    "\<forall>e<dst. s_used (t ! ((home ?n a + e) mod ?n))"
    "if s_used (t ! unat p) then s_addr (t ! unat p) = a \<and> slots_map t a = Some (s_fn (t ! unat p))
     else slots_map t a = None" by (rule probe_find [OF t(2) room])
  note pr = p(1) [simplified]
  show ?thesis
  proof (cases "s_used (t ! unat p)")
    case True
    then have a: "s_addr (t ! unat p) = a" "slots_map t a = Some (s_fn (t ! unat p))" using p(6) by simp_all
    show ?thesis
      using table_replace [OF t(2) p(2) True a(1), of fn] t True a pr
      by (cases keep) (simp_all add: put_slot_def Let_def dispatch_inv_def fn_map_def)
  next
    case False
    then have absent: "slots_map t a = None" using p(6) by simp
    let ?s = "\<lparr>s_addr = a, s_fn = fn, s_used = True\<rparr>"
    have len: "length t = ?n" using t(2) by (simp add: table_inv_def)
    have ins: "table_inv ?n (t[unat p := ?s]) \<and> slots_map (t[unat p := ?s]) = (slots_map t)(a \<mapsto> fn)"
      using table_insert [OF t(2) absent p(3,4) False p(5), of ?s] by simp
    have cnt: "used_count (t[unat p := ?s]) = Suc (used_count t)"
      using p(2) len False by (intro used_count_update) simp_all
    have un: "unat (g_count d + 1) = Suc (used_count t)"
      using t(3,4,5) by (simp add: unat_word_ariths)
    show ?thesis
      using ins cnt un t False absent pr
      by (simp add: put_slot_def Let_def dispatch_inv_def fn_map_def)
  qed
qed

lemma register_ok:
  assumes "dispatch_inv d" and "unat (g_count d) < 2 ^ 29"
  shows "\<exists>d'. psp_register always_ok a fn d = Some d' \<and> dispatch_inv d' \<and>
    fn_map d' = (fn_map d)(a \<mapsto> fn) \<and> unat (g_count d') \<le> unat (g_count d) + 1"
proof -
  obtain d1 t where d1: "ensure_room always_ok d = Some d1" "g_table d1 = Some t"
    "table_inv (unat (g_cap d1)) t" "unat (g_count d1) = used_count t"
    "(used_count t + 1) * 4 < unat (g_cap d1) * 3" "unat (g_cap d1) \<le> 2 ^ 30"
    "4096 \<le> unat (g_cap d1)" "slots_map t = fn_map d" "g_count d1 = g_count d"
    by (rule ensure_room_ok [OF assms])
  show ?thesis using put_slot_ok [OF d1(2-7), of False a fn] d1(1,8,9)
    by (simp add: psp_register_def)
qed

lemma register_label_ok:
  assumes "dispatch_inv d" and "unat (g_count d) < 2 ^ 29"
  shows "\<exists>d'. psp_register_label always_ok a fn d = Some d' \<and> dispatch_inv d' \<and>
    fn_map d' = (if fn_map d a = None then (fn_map d)(a \<mapsto> fn) else fn_map d) \<and>
    unat (g_count d') \<le> unat (g_count d) + 1"
proof -
  obtain d1 t where d1: "ensure_room always_ok d = Some d1" "g_table d1 = Some t"
    "table_inv (unat (g_cap d1)) t" "unat (g_count d1) = used_count t"
    "(used_count t + 1) * 4 < unat (g_cap d1) * 3" "unat (g_cap d1) \<le> 2 ^ 30"
    "4096 \<le> unat (g_cap d1)" "slots_map t = fn_map d" "g_count d1 = g_count d"
    by (rule ensure_room_ok [OF assms])
  show ?thesis using put_slot_ok [OF d1(2-7), of True a fn] d1(1,8,9)
    by (auto simp: psp_register_label_def)
qed

lemma lookup_ok:
  assumes "dispatch_inv d"
  shows "psp_lookup a d = Some (case fn_map d a of None \<Rightarrow> None | Some fn \<Rightarrow> fn)"
proof (cases "g_table d")
  case None
  then show ?thesis by (simp add: psp_lookup_def fn_map_def)
next
  case (Some t)
  let ?n = "unat (g_cap d)"
  have i: "table_inv ?n t" "used_count t * 4 < ?n * 3"
    using assms Some by (simp_all add: dispatch_inv_def)
  have room: "used_count t < ?n" using i(2) by (rule load_room)
  obtain p dst where p: "probe (free_or a) t (of_nat ?n - 1) ?n (hash_addr a AND (of_nat ?n - 1)) = Some p"
    "unat p < ?n" "dst < ?n" "unat p = (home ?n a + dst) mod ?n"
    "\<forall>e<dst. s_used (t ! ((home ?n a + e) mod ?n))"
    "if s_used (t ! unat p) then s_addr (t ! unat p) = a \<and> slots_map t a = Some (s_fn (t ! unat p))
     else slots_map t a = None" by (rule probe_find [OF i(1) room])
  show ?thesis using p(1) [simplified] p(6) Some
    by (cases "s_used (t ! unat p)") (simp_all add: psp_lookup_def Let_def fn_map_def)
qed

section \<open>The interface the generated code uses\<close>

text \<open>
  A table of functions as its clients see it: entries replace, labels never do, and a lookup
  answers from the map \<open>absmap\<close>. \<open>room\<close> bounds how many registrations the table still takes.
\<close>

fun run_regs :: "('a \<Rightarrow> 'f \<Rightarrow> 's \<Rightarrow> 's option) \<Rightarrow> ('a \<Rightarrow> 'f \<Rightarrow> 's \<Rightarrow> 's option) \<Rightarrow>
    (bool \<times> 'a \<times> 'f) list \<Rightarrow> 's \<Rightarrow> 's option" where
  "run_regs put_entry put_label [] s = Some s"
| "run_regs put_entry put_label ((is_label, a, f) # rs) s =
     (case (if is_label then put_label a f s else put_entry a f s) of
        None \<Rightarrow> None | Some s' \<Rightarrow> run_regs put_entry put_label rs s')"

fun last_entry :: "(bool \<times> 'a \<times> 'f) list \<Rightarrow> 'a \<Rightarrow> 'f option" where
  "last_entry [] a = None"
| "last_entry ((is_label, b, f) # rs) a =
     (case last_entry rs a of Some g \<Rightarrow> Some g
      | None \<Rightarrow> if \<not> is_label \<and> b = a then Some f else None)"

fun first_label :: "(bool \<times> 'a \<times> 'f) list \<Rightarrow> 'a \<Rightarrow> 'f option" where
  "first_label [] a = None"
| "first_label ((is_label, b, f) # rs) a = (if is_label \<and> b = a then Some f else first_label rs a)"

definition resolved :: "(bool \<times> 'a \<times> 'f) list \<Rightarrow> ('a \<Rightarrow> 'f option) \<Rightarrow> 'a \<Rightarrow> 'f option" where
  "resolved rs m a = (case last_entry rs a of Some f \<Rightarrow> Some f
     | None \<Rightarrow> (case m a of Some f \<Rightarrow> Some f | None \<Rightarrow> first_label rs a))"

lemma resolved_Nil [simp]: "resolved [] m = m"
  by (auto simp: resolved_def fun_eq_iff split: option.splits)

lemma resolved_entry: "resolved ((False, a, f) # rs) m = resolved rs (m(a \<mapsto> f))"
  by (auto simp: resolved_def fun_eq_iff split: option.splits)

lemma resolved_label:
  "resolved ((True, a, f) # rs) m = resolved rs (if m a = None then m(a \<mapsto> f) else m)"
  by (auto simp: resolved_def fun_eq_iff split: option.splits)

text \<open>
  What every registry of the runtime promises: within its limit a registration succeeds, keeps the
  invariant and updates the map it represents.
\<close>

fun run_puts :: "('a \<Rightarrow> 'f \<Rightarrow> 's \<Rightarrow> 's option) \<Rightarrow> ('a \<times> 'f) list \<Rightarrow> 's \<Rightarrow> 's option" where
  "run_puts put [] s = Some s"
| "run_puts put ((a, f) # rs) s = (case put a f s of None \<Rightarrow> None | Some s' \<Rightarrow> run_puts put rs s')"

locale reg_table =
  fixes inv :: "'s \<Rightarrow> bool" and load :: "'s \<Rightarrow> nat" and limit :: nat
    and put_entry :: "'a \<Rightarrow> 'f \<Rightarrow> 's \<Rightarrow> 's option"
    and absmap :: "'s \<Rightarrow> 'a \<Rightarrow> 'f option"
  assumes entry_law: "inv s \<Longrightarrow> load s < limit \<Longrightarrow> \<exists>s'. put_entry a f s = Some s' \<and> inv s' \<and>
      absmap s' = (absmap s)(a \<mapsto> f) \<and> load s' \<le> load s + 1"
begin

lemma run_puts_map:
  "inv s \<Longrightarrow> load s + length rs \<le> limit \<Longrightarrow>
    \<exists>s'. run_puts put_entry rs s = Some s' \<and> inv s' \<and> absmap s' = absmap s ++ map_of (rev rs)"
proof (induction rs arbitrary: s)
  case (Cons r rs)
  obtain a f where r: "r = (a, f)" by (cases r)
  obtain s1 where s1: "put_entry a f s = Some s1" "inv s1" "absmap s1 = (absmap s)(a \<mapsto> f)"
    "load s1 \<le> load s + 1" using entry_law [OF Cons.prems(1), of a f] Cons.prems(2) by auto
  have "load s1 + length rs \<le> limit" using Cons.prems(2) s1(4) by simp
  from Cons.IH [OF s1(2) this] obtain s2 where s2: "run_puts put_entry rs s1 = Some s2" "inv s2"
    "absmap s2 = absmap s1 ++ map_of (rev rs)" by blast
  have "absmap s1 ++ map_of (rev rs) = absmap s ++ map_of (rev (r # rs))"
    by (auto simp: r s1(3) map_add_def fun_eq_iff split: option.splits)
  then show ?case using s1(1) s2 by (simp add: r)
qed simp

end

locale fn_table = reg_table inv load limit put_entry absmap
  for inv :: "'s \<Rightarrow> bool" and load :: "'s \<Rightarrow> nat" and limit :: nat
    and put_entry :: "'a \<Rightarrow> 'f \<Rightarrow> 's \<Rightarrow> 's option"
    and absmap :: "'s \<Rightarrow> 'a \<Rightarrow> 'f option" +
  fixes put_label :: "'a \<Rightarrow> 'f \<Rightarrow> 's \<Rightarrow> 's option"
  assumes label_law: "inv s \<Longrightarrow> load s < limit \<Longrightarrow> \<exists>s'. put_label a f s = Some s' \<and> inv s' \<and>
      absmap s' = (if absmap s a = None then (absmap s)(a \<mapsto> f) else absmap s) \<and>
      load s' \<le> load s + 1"
begin

lemma run_regs_resolved:
  "inv s \<Longrightarrow> load s + length rs \<le> limit \<Longrightarrow>
    \<exists>s'. run_regs put_entry put_label rs s = Some s' \<and> inv s' \<and>
      absmap s' = resolved rs (absmap s) \<and> load s' \<le> load s + length rs"
proof (induction rs arbitrary: s)
  case (Cons r rs)
  obtain l a f where r: "r = (l, a, f)" by (cases r)
  have lt: "load s < limit" using Cons.prems(2) by simp
  obtain s1 where s1: "(if l then put_label a f s else put_entry a f s) = Some s1" "inv s1"
    "absmap s1 = (if l \<and> absmap s a \<noteq> None then absmap s else (absmap s)(a \<mapsto> f))"
    "load s1 \<le> load s + 1"
    using entry_law [OF Cons.prems(1) lt, of a f] label_law [OF Cons.prems(1) lt, of a f]
    by (cases l) auto
  have "load s1 + length rs \<le> limit" using Cons.prems(2) s1(4) by simp
  from Cons.IH [OF s1(2) this] obtain s2 where s2: "run_regs put_entry put_label rs s1 = Some s2"
    "inv s2" "absmap s2 = resolved rs (absmap s1)" "load s2 \<le> load s1 + length rs" by blast
  have "absmap s2 = resolved (r # rs) (absmap s)"
    using s2(3) s1(3) by (cases l) (auto simp: r resolved_entry resolved_label)
  moreover have "run_regs put_entry put_label (r # rs) s = Some s2"
    using s1(1) s2(1) by (simp add: r)
  moreover have "load s2 \<le> load s + length (r # rs)" using s2(4) s1(4) by simp
  ultimately show ?case using s2(2) by blast
qed simp

end

interpretation dtab: fn_table "dispatch_inv :: 'f dispatch \<Rightarrow> bool" "\<lambda>d. unat (g_count d)" "2 ^ 29"
    "psp_register always_ok" fn_map "psp_register_label always_ok"
  by unfold_locales (rule register_ok register_label_ok; assumption)+

section \<open>Properties\<close>

text \<open>The state at start-up, and after \<^verbatim>\<open>psp_dispatch_reset\<close>: no table.\<close>

definition dispatch_start :: "'f dispatch" where
  "dispatch_start = \<lparr>g_table = None, g_cap = 0, g_count = 0, g_misses = 0, g_miss = False,
     g_calls = 0, g_budget = 0, g_over = False\<rparr>"

lemma dispatch_inv_start: "dispatch_inv dispatch_start" "dispatch_inv (psp_dispatch_reset d)"
  by (simp_all add: dispatch_inv_def dispatch_start_def psp_dispatch_reset_def)

lemma fn_map_start [simp]: "fn_map dispatch_start = Map.empty"
  by (simp add: fn_map_def dispatch_start_def)

text \<open>
  The routine the generated code runs at start-up: every function it defines is registered, and
  every label, in whatever order.
\<close>

definition register_all ::
  "(bool \<times> u32 \<times> 'f psp_fn_t) list \<Rightarrow> 'f dispatch \<Rightarrow> 'f dispatch option" where
  "register_all = run_regs (psp_register always_ok) (psp_register_label always_ok)"

text \<open>
  C6. Registering a function keeps the table's invariant and makes the table represent the same map
  updated at that address, through every rehash: the open-addressed table refines a map.
\<close>
theorem psp_register_refines_map:
  assumes "dispatch_inv d" and "unat (g_count d) < 2 ^ 29"
  shows "\<exists>d'. psp_register always_ok a fn d = Some d' \<and> dispatch_inv d' \<and>
    fn_map d' = (fn_map d)(a \<mapsto> fn) \<and> (\<forall>b. psp_lookup b d' =
      (if b = a then Some fn else psp_lookup b d))"
  using register_ok [OF assms, of a fn] assms(1) by (auto simp: lookup_ok)

theorem psp_register_refines_map_witness:
  "\<exists>d'. psp_register always_ok 0x08804000 (Some ''f'') dispatch_start = Some d' \<and> dispatch_inv d' \<and>
    fn_map d' = (fn_map dispatch_start)(0x08804000 \<mapsto> Some ''f'') \<and> (\<forall>b. psp_lookup b d' =
      (if b = 0x08804000 then Some (Some ''f'') else psp_lookup b dispatch_start))"
  by (rule psp_register_refines_map [OF dispatch_inv_start(1)]) (simp add: dispatch_start_def)

text \<open>
  C25. After the start-up registrations of a module, in any order, a lookup always ends and answers
  with the last function registered as an entry at that address; only an address that is no entry
  answers with a label, and the first one registered.
\<close>
theorem register_all_entry_beats_label:
  assumes "length regs \<le> 2 ^ 29"
  shows "\<exists>d. register_all regs dispatch_start = Some d \<and> dispatch_inv d \<and>
    (\<forall>a. psp_lookup a d = Some (case last_entry regs a of Some fn \<Rightarrow> fn
       | None \<Rightarrow> (case first_label regs a of Some fn \<Rightarrow> fn | None \<Rightarrow> None)))"
proof -
  have "unat (g_count (dispatch_start :: 'a dispatch)) + length regs \<le> 2 ^ 29"
    using assms by (simp add: dispatch_start_def)
  from dtab.run_regs_resolved [OF dispatch_inv_start(1) this] obtain d where
    d: "register_all regs dispatch_start = Some d" "dispatch_inv d"
      "fn_map d = resolved regs Map.empty"
    unfolding register_all_def by auto
  have "psp_lookup a d = Some (case last_entry regs a of Some fn \<Rightarrow> fn
       | None \<Rightarrow> (case first_label regs a of Some fn \<Rightarrow> fn | None \<Rightarrow> None))" for a
    using lookup_ok [OF d(2), of a] by (auto simp: d(3) resolved_def split: option.splits)
  with d show ?thesis by blast
qed

theorem register_all_entry_beats_label_witness:
  "let regs = [(True, 0x100, Some ''thunk''), (False, 0x100, Some ''entry''), (True, 0x104, Some ''l'')]
   in \<exists>d. register_all regs dispatch_start = Some d \<and> dispatch_inv d \<and>
    (\<forall>a. psp_lookup a d = Some (case last_entry regs a of Some fn \<Rightarrow> fn
       | None \<Rightarrow> (case first_label regs a of Some fn \<Rightarrow> fn | None \<Rightarrow> None)))"
  unfolding Let_def by (rule register_all_entry_beats_label) simp

end
