(* ===== verification/Dispatch.thy ===== *)
theory Dispatch
  imports FnTable
begin

text \<open>
  The dispatched call of \<^verbatim>\<open>src/dispatch.c\<close> with its budget and miss handling, and the frame
  discipline that turns a \<open>jr $ra\<close> of the guest into a return, an unwind or a jump.
\<close>

section \<open>The dispatched call\<close>

text \<open>
  \<^verbatim>\<open>psp_dispatch\<close> ends in at most one transfer. What it transfers to is the event list: the
  budget hook, then the registered function, the installed miss handler or the default one, which
  aborts. \<^verbatim>\<open>g_miss\<close> and \<^verbatim>\<open>g_over\<close> say whether a handler is installed.
\<close>

datatype 'f transfer = Over_budget | Call 'f | Miss_handler u32 | Default_miss u32

definition psp_set_miss_handler :: "bool \<Rightarrow> 'f dispatch \<Rightarrow> 'f dispatch" where
  "psp_set_miss_handler installed d = d\<lparr>g_miss := installed\<rparr>"

definition psp_dispatch_set_budget :: "u64 \<Rightarrow> bool \<Rightarrow> 'f dispatch \<Rightarrow> 'f dispatch" where
  "psp_dispatch_set_budget calls installed d = d\<lparr>g_budget := calls, g_over := installed, g_calls := 0\<rparr>"

definition charge_call :: "'f dispatch \<Rightarrow> 'f dispatch \<times> 'f transfer list" where
  "charge_call d =
     (if g_budget d = 0 then (d, [])
      else let d1 = d\<lparr>g_calls := g_calls d + 1\<rparr> in
           if g_calls d1 \<ge> g_budget d1
           then (d1\<lparr>g_budget := 0\<rparr>, if g_over d1 then [Over_budget] else [])
           else (d1, []))"

definition psp_dispatch :: "u32 \<Rightarrow> 'f dispatch \<Rightarrow> ('f dispatch \<times> 'f transfer list) option" where
  "psp_dispatch addr d =
     (let (d1, ev) = charge_call d in
      case psp_lookup addr d1 of
        None \<Rightarrow> None
      | Some (Some f) \<Rightarrow> Some (d1, ev @ [Call f])
      | Some None \<Rightarrow>
          Some (d1\<lparr>g_misses := g_misses d1 + 1\<rparr>,
                ev @ [if g_miss d1 then Miss_handler addr else Default_miss addr]))"

section \<open>Frames\<close>

text \<open>
  \<^verbatim>\<open>psp_call_from_host\<close> pushes a host frame (return site 0) around the dispatched call, whose
  effect on the registers is the argument \<open>run\<close>. Nothing follows the pointer the function saved in
  its own frame, so \<^verbatim>\<open>f.prev\<close> is still the chain it started from.
\<close>

definition psp_call_from_host ::
  "(u32 \<Rightarrow> psp_cpu_state \<Rightarrow> psp_cpu_state) \<Rightarrow> u32 \<Rightarrow> psp_cpu_state \<Rightarrow> psp_cpu_state" where
  "psp_call_from_host run addr c =
     (run addr (c\<lparr>frame := 0 # frame c\<rparr>))\<lparr>frame := frame c, unwind := 0\<rparr>"

fun ra_outer :: "u32 \<Rightarrow> u32 list \<Rightarrow> bool" where
  "ra_outer ra [] = False"
| "ra_outer ra (g # gs) = (if g = 0 then False else if g = ra then True else ra_outer ra gs)"

definition psp_ra_is_jump :: "u32 \<Rightarrow> psp_cpu_state \<Rightarrow> psp_cpu_state \<times> bool" where
  "psp_ra_is_jump ra c =
     (case frame c of [] \<Rightarrow> (c, False)
      | f # prev \<Rightarrow>
          if f = 0 \<or> ra = f then (c, False)
          else if ra_outer ra prev then (c\<lparr>unwind := ra\<rparr>, False)
          else (c, True))"

text \<open>
  The call bracket of the generated code, \<^verbatim>\<open>PSP_CALL_BEGIN(r)\<close> ... \<^verbatim>\<open>PSP_CALL_END(r)\<close> (printed by
  \<^verbatim>\<open>emit.c\<close> at the head of every generated file): a frame with return site \<open>r\<close> around the call, and
  afterwards the test whether an unwind ends here. The boolean says whether the body goes on
  (\<open>True\<close>) or returns to its own caller (\<open>False\<close>).
\<close>

definition PSP_CALL_BEGIN :: "u32 \<Rightarrow> psp_cpu_state \<Rightarrow> psp_cpu_state" where
  "PSP_CALL_BEGIN r c = c\<lparr>frame := r # frame c\<rparr>"

definition PSP_CALL_END :: "u32 \<Rightarrow> u32 list \<Rightarrow> psp_cpu_state \<Rightarrow> psp_cpu_state \<times> bool" where
  "PSP_CALL_END r prev c =
     (let c1 = c\<lparr>frame := prev\<rparr> in
      if unwind c1 \<noteq> 0
      then if unwind c1 = r then (c1\<lparr>unwind := 0\<rparr>, True) else (c1, False)
      else (c1, True))"

text \<open>
  Returning from a body whose call chain is \<open>frames\<close>: each call site in turn, innermost first,
  ends its bracket; a host frame ends the chain.
\<close>

fun return_chain :: "u32 list \<Rightarrow> psp_cpu_state \<Rightarrow> psp_cpu_state" where
  "return_chain [] c = c"
| "return_chain (r # prev) c =
     (if r = 0 then c
      else case PSP_CALL_END r prev c of (c1, goes_on) \<Rightarrow> if goes_on then c1 else return_chain prev c1)"

section \<open>Frame properties\<close>

lemma return_chain_unwind:
  "unwind c = ra \<Longrightarrow> ra \<noteq> 0 \<Longrightarrow> ra_outer ra fs \<Longrightarrow>
     return_chain fs c = c\<lparr>frame := tl (dropWhile (\<lambda>r. r \<noteq> ra) fs), unwind := 0\<rparr>"
  by (induction fs arbitrary: c) (auto simp: PSP_CALL_END_def Let_def split: if_splits)

text \<open>
  C18. A \<open>jr $ra\<close> is classified by the call chain alone. A jump to the current return site, or inside
  a call made by the host, returns to the innermost call site and changes no register. A jump to an
  outer call's return site unwinds: after it the call sites return one after the other and control
  resumes at the innermost call that owns the address, with the frames below it gone and no unwind
  pending. Any other address is a jump inside the current body.
\<close>
theorem psp_ra_is_jump_unwinds:
  assumes "frame c = f # prev" and "unwind c = 0" and "ra \<noteq> 0"
  shows "case psp_ra_is_jump ra c of (c', jump) \<Rightarrow>
    (if f = 0 \<or> ra = f then c' = c \<and> \<not> jump
     else if ra_outer ra prev
     then \<not> jump \<and> return_chain (frame c) c' =
            c\<lparr>frame := tl (dropWhile (\<lambda>r. r \<noteq> ra) prev), unwind := 0\<rparr>
     else c' = c \<and> jump)"
  using assms return_chain_unwind [of "c\<lparr>unwind := ra, frame := prev\<rparr>" ra prev]
  by (auto simp: psp_ra_is_jump_def PSP_CALL_END_def Let_def)

theorem psp_ra_is_jump_unwinds_witness:
  "let c = psp_cpu_reset\<lparr>frame := [0x100, 0x200, 0x300, 0]\<rparr> in
   case psp_ra_is_jump 0x200 c of (c', jump) \<Rightarrow>
    (if (0x100 :: u32) = 0 \<or> (0x200 :: u32) = 0x100 then c' = c \<and> \<not> jump
     else if ra_outer 0x200 [0x200, 0x300, 0]
     then \<not> jump \<and> return_chain (frame c) c' =
            c\<lparr>frame := tl (dropWhile (\<lambda>r. r \<noteq> 0x200) [0x200, 0x300, 0]), unwind := 0\<rparr>
     else c' = c \<and> jump)"
  unfolding Let_def
  by (rule psp_ra_is_jump_unwinds) (simp_all add: psp_cpu_reset_def)

text \<open>
  A call made by the host leaves the frame chain as it was and no unwind pending, whatever the
  guest code did; and inside it every \<open>jr $ra\<close> at the host frame is a return.
\<close>
theorem psp_call_from_host_restores:
  "frame (psp_call_from_host run addr c) = frame c \<and> unwind (psp_call_from_host run addr c) = 0 \<and>
   psp_ra_is_jump ra (c\<lparr>frame := 0 # frame c\<rparr>) = (c\<lparr>frame := 0 # frame c\<rparr>, False)"
  by (simp add: psp_call_from_host_def psp_ra_is_jump_def)

section \<open>Budgets and misses\<close>

fun dispatch_seq :: "u32 list \<Rightarrow> 'f dispatch \<Rightarrow> ('f dispatch \<times> 'f transfer list) option" where
  "dispatch_seq [] d = Some (d, [])"
| "dispatch_seq (a # as) d =
     (case psp_dispatch a d of None \<Rightarrow> None
      | Some (d1, ev) \<Rightarrow> (case dispatch_seq as d1 of None \<Rightarrow> None
                         | Some (d2, ev2) \<Rightarrow> Some (d2, ev @ ev2)))"

definition resolve :: "'f dispatch \<Rightarrow> u32 \<Rightarrow> 'f transfer" where
  "resolve d a = (case fn_map d a of Some (Some f) \<Rightarrow> Call f
     | _ \<Rightarrow> if g_miss d then Miss_handler a else Default_miss a)"

lemma charge_call_keeps:
  "charge_call d = (d1, ev) \<Longrightarrow> g_table d1 = g_table d \<and> g_cap d1 = g_cap d \<and> g_count d1 = g_count d \<and>
     g_miss d1 = g_miss d \<and> g_misses d1 = g_misses d \<and> g_over d1 = g_over d"
  by (auto simp: charge_call_def Let_def split: if_splits)

lemma dispatch_inv_cong:
  assumes "g_table d1 = g_table d" "g_cap d1 = g_cap d" "g_count d1 = g_count d"
  shows "dispatch_inv d1 = dispatch_inv d" and "fn_map d1 = fn_map d"
  using assms by (simp_all add: dispatch_inv_def fn_map_def cong: option.case_cong)

lemma psp_dispatch_steps:
  assumes inv: "dispatch_inv d"
  obtains d1 ev d2 where "charge_call d = (d1, ev)" "psp_dispatch a d = Some (d2, ev @ [resolve d a])"
    "dispatch_inv d2" "resolve d2 = resolve d" "g_calls d2 = g_calls d1" "g_budget d2 = g_budget d1"
    "g_over d2 = g_over d1"
    "g_misses d2 = g_misses d + (case resolve d a of Call _ \<Rightarrow> 0 | _ \<Rightarrow> 1)"
proof -
  obtain d1 ev where c: "charge_call d = (d1, ev)" by (cases "charge_call d")
  note k = charge_call_keeps [OF c]
  have i1: "dispatch_inv d1" and m1: "fn_map d1 = fn_map d"
    using k dispatch_inv_cong [of d1 d] inv by simp_all
  let ?d2 = "case resolve d a of Call _ \<Rightarrow> d1 | _ \<Rightarrow> d1\<lparr>g_misses := g_misses d1 + 1\<rparr>"
  have k2: "g_table ?d2 = g_table d1" "g_cap ?d2 = g_cap d1" "g_count ?d2 = g_count d1"
    "g_miss ?d2 = g_miss d1" "g_calls ?d2 = g_calls d1" "g_budget ?d2 = g_budget d1"
    "g_over ?d2 = g_over d1" by (simp_all split: transfer.split)
  have p: "psp_dispatch a d = Some (?d2, ev @ [resolve d a])"
    using lookup_ok [OF i1, of a] m1 k
    by (simp add: psp_dispatch_def c resolve_def split: option.split)
  have "fn_map ?d2 = fn_map d" "g_miss ?d2 = g_miss d"
    using dispatch_inv_cong(2) [of ?d2 d1] k2 m1 k by simp_all
  then have "resolve ?d2 = resolve d" by (intro ext) (simp only: resolve_def)
  moreover have "dispatch_inv ?d2" using dispatch_inv_cong(1) [of ?d2 d1] k2 i1 by simp
  moreover have "g_misses ?d2 = g_misses d + (case resolve d a of Call _ \<Rightarrow> 0 | _ \<Rightarrow> 1)"
    using k by (simp split: transfer.split)
  ultimately show thesis using that [OF c p] k2 by blast
qed

lemma resolve_not_over [simp]: "resolve d a \<noteq> Over_budget"
  by (simp add: resolve_def split: option.split)

definition over_count :: "'f transfer list \<Rightarrow> nat" where
  "over_count ev = length (filter (\<lambda>e. e = Over_budget) ev)"

lemma dispatch_seq_spent:
  "dispatch_inv d \<Longrightarrow> g_budget d = 0 \<Longrightarrow> \<exists>d'. dispatch_seq as d = Some (d', map (resolve d) as)"
proof (induction as arbitrary: d)
  case (Cons a as)
  obtain d1 ev d2 where s: "charge_call d = (d1, ev)"
    "psp_dispatch a d = Some (d2, ev @ [resolve d a])" "dispatch_inv d2" "resolve d2 = resolve d"
    "g_calls d2 = g_calls d1" "g_budget d2 = g_budget d1" "g_over d2 = g_over d1"
    "g_misses d2 = g_misses d + (case resolve d a of Call _ \<Rightarrow> 0 | _ \<Rightarrow> 1)"
    by (rule psp_dispatch_steps [OF Cons.prems(1)])
  have "ev = [] \<and> d1 = d" using s(1) Cons.prems(2) by (simp add: charge_call_def)
  then show ?case using Cons.IH [OF s(3)] s Cons.prems(2) by auto
qed simp

lemma dispatch_seq_budget:
  "dispatch_inv d \<Longrightarrow> g_over d \<Longrightarrow> unat (g_calls d) < unat (g_budget d) \<Longrightarrow>
   (let n = unat (g_budget d) - unat (g_calls d) in
    \<exists>d'. dispatch_seq as d = Some (d', if length as < n then map (resolve d) as
      else map (resolve d) (take (n - 1) as) @ [Over_budget] @ map (resolve d) (drop (n - 1) as)))"
proof (induction as arbitrary: d)
  case Nil
  then show ?case by simp
next
  case (Cons a as)
  obtain d1 ev d2 where s: "charge_call d = (d1, ev)"
    "psp_dispatch a d = Some (d2, ev @ [resolve d a])" "dispatch_inv d2" "resolve d2 = resolve d"
    "g_calls d2 = g_calls d1" "g_budget d2 = g_budget d1" "g_over d2 = g_over d1"
    "g_misses d2 = g_misses d + (case resolve d a of Call _ \<Rightarrow> 0 | _ \<Rightarrow> 1)"
    by (rule psp_dispatch_steps [OF Cons.prems(1)])
  have bz: "g_budget d \<noteq> 0" using Cons.prems(3) by auto
  have uc: "unat (g_calls d + 1) = unat (g_calls d) + 1"
    using Cons.prems(3) unsigned_less [of "g_budget d", where 'a = nat] by (simp add: unat_word_ariths)
  show ?case
  proof (cases "unat (g_calls d) + 1 = unat (g_budget d)")
    case True
    then have f: "g_calls d + 1 \<ge> g_budget d" using uc by (simp add: word_le_nat_alt)
    then have e: "ev = [Over_budget]" "g_budget d1 = 0"
      using s(1) bz Cons.prems(2) by (auto simp: charge_call_def Let_def)
    obtain d' where "dispatch_seq as d2 = Some (d', map (resolve d2) as)"
      using dispatch_seq_spent [OF s(3)] s(6) e(2) by metis
    then show ?thesis using s(2,4) e True by (simp add: Let_def)
  next
    case False
    then have f: "\<not> g_calls d + 1 \<ge> g_budget d" using uc Cons.prems(3) by (simp add: word_le_nat_alt)
    then have e: "ev = []" "g_budget d1 = g_budget d" "g_calls d1 = g_calls d + 1" "g_over d1 = g_over d"
      using s(1) bz by (auto simp: charge_call_def Let_def)
    have lt: "unat (g_calls d2) < unat (g_budget d2)" using s(5,6) e uc False Cons.prems(3) by simp
    define k where "k = unat (g_budget d) - unat (g_calls d) - 2"
    have k: "unat (g_budget d) - unat (g_calls d) = Suc (Suc k)"
      using False Cons.prems(3) unfolding k_def by linarith
    then have k2: "unat (g_budget d2) - unat (g_calls d2) = Suc k" using s(5,6) e uc by simp
    obtain d' where d': "dispatch_seq as d2 = Some (d', if length as < Suc k then map (resolve d) as
        else map (resolve d) (take k as) @ [Over_budget] @ map (resolve d) (drop k as))"
      using Cons.IH [OF s(3) _ lt] s(4,7) e(4) Cons.prems(2) unfolding k2 Let_def by auto
    show ?thesis unfolding k Let_def using d' s(2) e(1) by simp
  qed
qed

text \<open>
  With a budget of \<open>b\<close> calls, the hook runs exactly once, right before the \<open>b\<close>-th dispatched
  call, and every call of the sequence, before and after it, still transfers to what the table
  resolves it to.
\<close>
theorem psp_dispatch_budget_fires_once:
  assumes "dispatch_inv d" and "0 < b"
  shows "\<exists>d'. dispatch_seq as (psp_dispatch_set_budget b True d) =
    Some (d', if length as < unat b then map (resolve d) as
      else map (resolve d) (take (unat b - 1) as) @ [Over_budget] @ map (resolve d) (drop (unat b - 1) as))"
proof -
  let ?d = "psp_dispatch_set_budget b True d"
  have i: "dispatch_inv ?d" "resolve ?d = resolve d"
    using assms(1) dispatch_inv_cong [of ?d d]
    by (simp_all add: psp_dispatch_set_budget_def resolve_def fun_eq_iff)
  have "unat (g_calls ?d) < unat (g_budget ?d)"
    using assms(2) by (simp add: psp_dispatch_set_budget_def word_less_nat_alt)
  from dispatch_seq_budget [OF i(1) _ this, of as] show ?thesis
    unfolding i(2) by (simp add: psp_dispatch_set_budget_def Let_def)
qed

theorem psp_dispatch_budget_fires_once_witness:
  "\<exists>d'. dispatch_seq [8, 8, 8] (psp_dispatch_set_budget 2 True (dispatch_start :: string dispatch)) =
    Some (d', if length [8, 8, 8 :: u32] < unat (2 :: u64) then map (resolve dispatch_start) [8, 8, 8]
      else map (resolve dispatch_start) (take (unat (2 :: u64) - 1) [8, 8, 8]) @ [Over_budget] @
        map (resolve dispatch_start) (drop (unat (2 :: u64) - 1) [8, 8, 8]))"
  by (rule psp_dispatch_budget_fires_once [OF dispatch_inv_start(1)]) simp


end
