(* ===== verification/Hle.thy ===== *)
theory Hle
  imports Mem FnTable "HOL-Library.Multiset"
begin

text \<open>
  The firmware-call table of \<^verbatim>\<open>src/hle/hle.c\<close>: registration by NID, the call itself with its
  counters, the ring of calls that returned zero, the report of the busiest calls, and the argument
  helpers of \<^verbatim>\<open>include/psprecomp/hle.h\<close>.

  The parallel arrays \<^verbatim>\<open>g_entry\<close>, \<^verbatim>\<open>g_fn\<close> and \<^verbatim>\<open>g_calls\<close> are one list of rows, whose length is
  \<^verbatim>\<open>g_count\<close>. A handler is an element of a type \<open>'f\<close>; what it does to the machine is the argument
  \<open>run\<close> of \<open>psp_hle_call\<close>. A null name is \<open>None\<close>.
\<close>

section \<open>State\<close>

abbreviation (input) HLE_MAX :: nat where "HLE_MAX \<equiv> 512"
abbreviation (input) UNIMPL_DISTINCT :: nat where "UNIMPL_DISTINCT \<equiv> 64"
abbreviation (input) ZERO_HISTORY :: nat where "ZERO_HISTORY \<equiv> 16"
abbreviation (input) UNIMPL_LOGGED :: u64 where "UNIMPL_LOGGED \<equiv> 8"

record 'f psp_hle_entry =
  e_nid :: u32
  e_lib :: string
  e_name :: "string option"
  e_fn :: 'f
  e_calls :: u64

type_synonym zero_entry = "u32 \<times> string option"

record 'f hle_state =
  h_entry :: "'f psp_hle_entry list"
  h_unimpl :: "(u32 \<times> u64) list"
  h_zero :: "nat \<Rightarrow> zero_entry"
  h_zero_n :: u64
  h_unimpl_total :: u64
  h_unimpl_logged :: u64

section \<open>Registration\<close>

definition entry_index :: "u32 \<Rightarrow> 'f hle_state \<Rightarrow> nat option" where
  "entry_index nid h = find_index (\<lambda>e. e_nid e = nid) (h_entry h)"

definition psp_hle_register :: "u32 \<Rightarrow> string \<Rightarrow> string option \<Rightarrow> 'f \<Rightarrow> 'f hle_state \<Rightarrow> 'f hle_state" where
  "psp_hle_register nid lib name fn h =
     (case entry_index nid h of
        Some i \<Rightarrow> h\<lparr>h_entry := (h_entry h)[i := (h_entry h ! i)\<lparr>e_fn := fn, e_name := name\<rparr>]\<rparr>
      | None \<Rightarrow>
          if length (h_entry h) \<ge> HLE_MAX then h
          else h\<lparr>h_entry := h_entry h @
                 [\<lparr>e_nid = nid, e_lib = lib, e_name = name, e_fn = fn, e_calls = 0\<rparr>]\<rparr>)"

definition psp_hle_register_unnamed :: "u32 \<Rightarrow> string \<Rightarrow> 'f \<Rightarrow> 'f hle_state \<Rightarrow> 'f hle_state" where
  "psp_hle_register_unnamed nid lib fn h = psp_hle_register nid lib None fn h"

definition psp_hle_is_named :: "int \<Rightarrow> 'f hle_state \<Rightarrow> bool" where
  "psp_hle_is_named index h \<longleftrightarrow>
     index \<ge> 0 \<and> index < int (length (h_entry h)) \<and> e_name (h_entry h ! nat index) \<noteq> None"

definition psp_hle_name :: "u32 \<Rightarrow> 'f hle_state \<Rightarrow> string option" where
  "psp_hle_name nid h = (case entry_index nid h of Some i \<Rightarrow> e_name (h_entry h ! i) | None \<Rightarrow> None)"

definition psp_hle_count :: "'f hle_state \<Rightarrow> nat" where
  "psp_hle_count h = length (h_entry h)"

section \<open>The history of zero results\<close>

definition note_zero :: "zero_entry \<Rightarrow> 'f hle_state \<Rightarrow> 'f hle_state" where
  "note_zero e h =
     h\<lparr>h_zero := (h_zero h)(unat (h_zero_n h) mod ZERO_HISTORY := e), h_zero_n := h_zero_n h + 1\<rparr>"

text \<open>The rows \<^verbatim>\<open>psp_hle_dump_recent\<close> prints, newest first.\<close>

definition psp_hle_dump_recent :: "'f hle_state \<Rightarrow> zero_entry list" where
  "psp_hle_dump_recent h =
     (let n = (if unat (h_zero_n h) < ZERO_HISTORY then unat (h_zero_n h) else ZERO_HISTORY)
      in map (\<lambda>i. h_zero h (unat (h_zero_n h - of_nat i) mod ZERO_HISTORY)) [1..<Suc n])"

section \<open>The call\<close>

definition count_unimpl :: "u32 \<Rightarrow> 'f hle_state \<Rightarrow> 'f hle_state" where
  "count_unimpl nid h =
     (case find_index (\<lambda>r. fst r = nid) (h_unimpl h) of
        Some k \<Rightarrow> h\<lparr>h_unimpl := (h_unimpl h)[k := (nid, snd (h_unimpl h ! k) + 1)]\<rparr>
      | None \<Rightarrow> if length (h_unimpl h) < UNIMPL_DISTINCT
                then h\<lparr>h_unimpl := h_unimpl h @ [(nid, 1)]\<rparr> else h)"

definition log_unimpl :: "'f hle_state \<Rightarrow> 'f hle_state" where
  "log_unimpl h =
     (if h_unimpl_logged h < UNIMPL_LOGGED then h\<lparr>h_unimpl_logged := h_unimpl_logged h + 1\<rparr>
      else if h_unimpl_logged h = UNIMPL_LOGGED then h\<lparr>h_unimpl_logged := h_unimpl_logged h + 1\<rparr>
      else h)"

definition psp_hle_call ::
  "('f \<Rightarrow> psp_machine \<Rightarrow> psp_machine) \<Rightarrow> u32 \<Rightarrow> 'f hle_state \<times> psp_machine \<Rightarrow> 'f hle_state \<times> psp_machine" where
  "psp_hle_call run nid S =
     (let (h, M) = S in
      case entry_index nid h of
        Some i \<Rightarrow>
          (let e = h_entry h ! i;
               h1 = h\<lparr>h_entry := (h_entry h)[i := e\<lparr>e_calls := e_calls e + 1\<rparr>]\<rparr>;
               M1 = run (e_fn e) M
           in (if gpr (cpu M1) ! PSP_REG_V0 = 0 then note_zero (nid, e_name e) h1 else h1, M1))
      | None \<Rightarrow>
          (let h1 = note_zero (nid, None) h;
               h2 = h1\<lparr>h_unimpl_total := h_unimpl_total h1 + 1\<rparr>
           in (log_unimpl (count_unimpl nid h2), psp_ret 0 M)))"

definition psp_hle_unimplemented_calls :: "'f hle_state \<Rightarrow> u64" where
  "psp_hle_unimplemented_calls h = h_unimpl_total h"

definition psp_hle_unimplemented_logged :: "'f hle_state \<Rightarrow> u64" where
  "psp_hle_unimplemented_logged h = h_unimpl_logged h"

definition psp_hle_unimplemented_reset :: "'f hle_state \<Rightarrow> 'f hle_state" where
  "psp_hle_unimplemented_reset h = h\<lparr>h_unimpl_total := 0, h_unimpl_logged := 0\<rparr>"

definition psp_hle_zero_calls :: "'f hle_state \<Rightarrow> u64" where
  "psp_hle_zero_calls h = h_zero_n h"

section \<open>The report of the busiest calls\<close>

type_synonym count_row = "u64 \<times> u32 \<times> string option"

definition count_rows :: "'f hle_state \<Rightarrow> count_row list" where
  "count_rows h =
     map (\<lambda>e. (e_calls e, e_nid e, e_name e)) (filter (\<lambda>e. e_calls e \<noteq> 0) (h_entry h)) @
     map (\<lambda>(nid, n). (n, nid, None)) (h_unimpl h)"

text \<open>
  The inner loop of the insertion sort swaps row \<open>j\<close> downwards while it is busier than the row
  before it.
\<close>

primrec sink :: "nat \<Rightarrow> count_row list \<Rightarrow> count_row list" where
  "sink 0 row = row"
| "sink (Suc j) row =
     (if fst (row ! Suc j) > fst (row ! j) then sink j (row[Suc j := row ! j, j := row ! Suc j])
      else row)"

definition sort_rows :: "count_row list \<Rightarrow> count_row list" where
  "sort_rows row = fold sink [1..<length row] row"

definition psp_hle_dump_counts :: "nat \<Rightarrow> 'f hle_state \<Rightarrow> count_row list" where
  "psp_hle_dump_counts limit h = take limit (sort_rows (count_rows h))"

section \<open>Arguments\<close>

text \<open>
  \<^verbatim>\<open>psp_arg\<close>: the first eight arguments are in registers; the ones after are read from the stack,
  a memory access like any other.
\<close>

definition psp_arg :: "nat \<Rightarrow> psp_machine \<Rightarrow> u32 \<times> psp_machine" where
  "psp_arg n M =
     (if n < 4 then (gpr (cpu M) ! (PSP_REG_A0 + n), M)
      else if n < 8 then (gpr (cpu M) ! (PSP_REG_T0 + (n - 4)), M)
      else psp_read32 (gpr (cpu M) ! PSP_REG_SP + of_nat n * 4) M)"

text \<open>\<^verbatim>\<open>psp_str\<close> with room for \<open>fuel\<close> characters: the characters copied before the terminator.\<close>

primrec str_loop :: "nat \<Rightarrow> u32 \<Rightarrow> psp_machine \<Rightarrow> u8 list \<times> psp_machine" where
  "str_loop 0 addr M = ([], M)"
| "str_loop (Suc fuel) addr M =
     (let (c, M1) = psp_read8 addr M in
      if c = 0 then ([], M1)
      else let (s, M2) = str_loop fuel (addr + 1) M1 in (c # s, M2))"

definition psp_str :: "u32 \<Rightarrow> nat \<Rightarrow> psp_machine \<Rightarrow> u8 list \<times> psp_machine" where
  "psp_str addr cap M = (if cap = 0 then ([], M) else str_loop (cap - 1) addr M)"

section \<open>Ring logs\<close>

text \<open>
  A log kept in a ring of \<open>depth\<close> slots with a 64-bit count of all entries ever made: the call
  history here and the function-entry trace have this shape.
\<close>

locale ring_log =
  fixes depth :: nat and slot_of :: "'s \<Rightarrow> nat \<Rightarrow> 'e" and cnt :: "'s \<Rightarrow> u64" and put :: "'e \<Rightarrow> 's \<Rightarrow> 's"
  assumes depth_pos: "0 < depth"
    and cnt_put: "cnt (put e s) = cnt s + 1"
    and slot_put: "slot_of (put e s) k = (if k = unat (cnt s) mod depth then e else slot_of s k)"
begin

lemma cnt_fold: "cnt (fold put es s) = cnt s + of_nat (length es)"
  by (induction es arbitrary: s) (simp_all add: cnt_put)

lemma newest:
  "cnt s = 0 \<Longrightarrow> length es < 2 ^ 64 \<Longrightarrow> 0 < i \<Longrightarrow> i \<le> length es \<Longrightarrow> i \<le> depth \<Longrightarrow>
     slot_of (fold put es s) ((length es - i) mod depth) = es ! (length es - i)"
proof (induction es arbitrary: i rule: rev_induct)
  case (snoc e es)
  have n: "unat (cnt (fold put es s)) = length es"
    using snoc.prems(1,2) by (simp add: cnt_fold unat_of_nat take_bit_nat_eq_self)
  show ?case
  proof (cases "i = 1")
    case True
    then show ?thesis by (simp add: slot_put n)
  next
    case False
    let ?k = "length es - (i - 1)"
    have k: "length es + (0 + Suc 0) - i = ?k" using False snoc.prems(3) by linarith
    have lt: "?k < length es" "length es - ?k = i - 1" using False snoc.prems by simp_all
    have "?k mod depth \<noteq> length es mod depth"
    proof
      assume "?k mod depth = length es mod depth"
      then have "depth dvd length es - ?k" using lt(1) by (metis mod_eq_dvd_iff_nat less_imp_le)
      then have "depth \<le> i - 1" using lt(2) False snoc.prems(3) by (auto dest: dvd_imp_le)
      then show False using snoc.prems(3,5) by linarith
    qed
    then have "slot_of (fold put (es @ [e]) s) (?k mod depth) = slot_of (fold put es s) (?k mod depth)"
      by (simp add: slot_put n)
    also have "\<dots> = es ! ?k"
      using snoc.IH [of "i - 1"] snoc.prems False by simp
    finally have "slot_of (fold put (es @ [e]) s) (?k mod depth) = (es @ [e]) ! ?k"
      by (simp only: nth_append lt(1) if_True)
    moreover have "length (es @ [e]) - i = ?k" using k by (simp only: length_append list.size)
    ultimately show ?thesis by (simp only:)
  qed
qed simp

lemma dump_newest_first:
  assumes "cnt s = 0" and "length es < 2 ^ 64" and "n = min (length es) depth"
  shows "map (\<lambda>i. slot_of (fold put es s) (unat (cnt (fold put es s) - of_nat i) mod depth)) [1..<Suc n] =
    take depth (rev es)"
proof (rule nth_equalityI)
  show "length (map (\<lambda>i. slot_of (fold put es s)
      (unat (cnt (fold put es s) - of_nat i) mod depth)) [1..<Suc n]) = length (take depth (rev es))"
    using assms(3) by (simp add: min.commute del: upt_Suc)
next
  fix j assume "j < length (map (\<lambda>i. slot_of (fold put es s)
      (unat (cnt (fold put es s) - of_nat i) mod depth)) [1..<Suc n])"
  then have j: "j < n" by (simp del: upt_Suc)
  have jl: "Suc j \<le> length es" "Suc j \<le> depth" using j assms(3) by simp_all
  have c: "cnt (fold put es s) - of_nat (Suc j) = of_nat (length es - Suc j)"
    using assms(1) jl(1) by (simp add: cnt_fold of_nat_diff)
  have "unat (cnt (fold put es s) - of_nat (Suc j)) = length es - Suc j"
    unfolding c using assms(2) by (simp add: unat_of_nat take_bit_nat_eq_self)
  then have "slot_of (fold put es s) (unat (cnt (fold put es s) - of_nat (Suc j)) mod depth) =
      es ! (length es - Suc j)"
    using newest [OF assms(1,2), of "Suc j"] jl by simp
  then show "map (\<lambda>i. slot_of (fold put es s) (unat (cnt (fold put es s) - of_nat i) mod depth))
      [1..<Suc n] ! j = take depth (rev es) ! j"
    using j jl assms(3) by (simp add: rev_nth del: upt_Suc)
qed

end

interpretation zero_ring: ring_log ZERO_HISTORY h_zero h_zero_n note_zero
  by unfold_locales (simp_all add: note_zero_def)

interpretation entry_ring: ring_log TRACE_DEPTH ring trace_n "psp_trace_enter None"
  by unfold_locales (simp_all add: psp_trace_enter_def)

text \<open>Reading a string changes no byte of guest memory.\<close>

lemma str_loop_store: "store (mem (snd (str_loop n a M))) = store (mem M)"
  by (induction n arbitrary: a M) (simp_all add: case_prod_unfold Let_def psp_read8_def)

lemma psp_str_store: "store (mem (snd (psp_str a n M))) = store (mem M)"
  by (simp add: psp_str_def str_loop_store)

section \<open>The registry refines a map\<close>

definition hle_inv :: "'f hle_state \<Rightarrow> bool" where
  "hle_inv h \<longleftrightarrow> distinct (map e_nid (h_entry h)) \<and> length (h_entry h) \<le> HLE_MAX"

definition hle_map :: "'f hle_state \<Rightarrow> u32 \<Rightarrow> ('f \<times> string option) option" where
  "hle_map h nid = map_of (map (\<lambda>e. (e_nid e, e_fn e, e_name e)) (h_entry h)) nid"

lemma hle_map_entry:
  "hle_map h nid = map_option (\<lambda>i. (e_fn (h_entry h ! i), e_name (h_entry h ! i))) (entry_index nid h)"
  unfolding hle_map_def entry_index_def by (rule map_of_find_index)

lemma entry_indexD:
  "entry_index nid h = Some i \<Longrightarrow> i < length (h_entry h) \<and> e_nid (h_entry h ! i) = nid"
  by (auto simp: entry_index_def dest: find_index_SomeD)

lemma hle_register_law:
  assumes inv: "hle_inv h" and room: "length (h_entry h) < HLE_MAX"
  shows "hle_inv (psp_hle_register nid lib name fn h) \<and>
    hle_map (psp_hle_register nid lib name fn h) = (hle_map h)(nid \<mapsto> (fn, name)) \<and>
    length (h_entry (psp_hle_register nid lib name fn h)) \<le> length (h_entry h) + 1"
proof (cases "entry_index nid h")
  case None
  then have n: "nid \<notin> e_nid ` set (h_entry h)"
    by (auto simp: entry_index_def find_index_None_iff)
  have m: "hle_map h nid = None" using None by (simp add: hle_map_entry)
  have h': "h_entry (psp_hle_register nid lib name fn h) =
      h_entry h @ [\<lparr>e_nid = nid, e_lib = lib, e_name = name, e_fn = fn, e_calls = 0\<rparr>]"
    using None room by (simp add: psp_hle_register_def)
  have "hle_map (psp_hle_register nid lib name fn h) = (hle_map h)(nid \<mapsto> (fn, name))"
    using m by (intro ext) (simp add: hle_map_def h' map_add_def split: option.split)
  moreover have "hle_inv (psp_hle_register nid lib name fn h)"
    using inv room n by (simp add: hle_inv_def h')
  ultimately show ?thesis by (simp add: h')
next
  case (Some i)
  note i = entry_indexD [OF Some]
  let ?e = "(h_entry h ! i)\<lparr>e_fn := fn, e_name := name\<rparr>"
  let ?rows = "map (\<lambda>e. (e_nid e, e_fn e, e_name e)) (h_entry h)"
  have h': "h_entry (psp_hle_register nid lib name fn h) = (h_entry h)[i := ?e]"
    using Some by (simp add: psp_hle_register_def)
  have k: "map e_nid ((h_entry h)[i := ?e]) = map e_nid (h_entry h)"
    using i by (simp add: map_update list_update_same_conv)
  have d: "distinct (map fst ?rows)" using inv by (simp add: hle_inv_def comp_def)
  have "map_of (?rows[i := (nid, fn, name)]) = (map_of ?rows)(nid \<mapsto> (fn, name))"
    using i by (intro map_of_list_update [OF _ d]) simp_all
  then have "hle_map (psp_hle_register nid lib name fn h) = (hle_map h)(nid \<mapsto> (fn, name))"
    using i by (intro ext) (simp add: hle_map_def h' map_update)
  then show ?thesis using inv k unfolding hle_inv_def h' by simp
qed

definition put_hle :: "string \<Rightarrow> u32 \<Rightarrow> 'f \<times> string option \<Rightarrow> 'f hle_state \<Rightarrow> 'f hle_state option" where
  "put_hle lib nid e h = Some (psp_hle_register nid lib (snd e) (fst e) h)"

interpretation hle_tab: reg_table hle_inv "\<lambda>h. length (h_entry h)" HLE_MAX "put_hle lib" hle_map for lib
proof
  show "\<exists>s'. put_hle lib a f s = Some s' \<and> hle_inv s' \<and> hle_map s' = (hle_map s)(a \<mapsto> f) \<and>
      length (h_entry s') \<le> length (h_entry s) + 1"
    if "hle_inv s" "length (h_entry s) < HLE_MAX" for s :: "'a hle_state" and a f
    using hle_register_law [OF that, of a lib "snd f" "fst f"] by (simp add: put_hle_def)
qed

section \<open>The insertion sort\<close>

definition desc :: "count_row list \<Rightarrow> bool" where
  "desc rs \<longleftrightarrow> sorted_wrt (\<lambda>x y. fst x \<ge> fst y) rs"

lemma swap_nth:
  fixes rs :: "count_row list"
  assumes "Suc j < length rs"
  shows "rs[Suc j := rs ! j, j := rs ! Suc j] =
    take j rs @ [rs ! Suc j, rs ! j] @ drop (Suc (Suc j)) rs"
proof -
  have swap: "(p @ y # x # q)[Suc (length p) := y, length p := x] = p @ [x, y] @ q"
    for p q :: "count_row list" and x y by (simp add: list_update_append)
  have "rs = take j rs @ rs ! j # rs ! Suc j # drop (Suc (Suc j)) rs"
    using assms by (simp add: Cons_nth_drop_Suc)
  moreover have "length (take j rs) = j" using assms by simp
  ultimately show ?thesis
    using swap [of "take j rs" "rs ! j" "rs ! Suc j" "drop (Suc (Suc j)) rs"] by simp
qed

lemma mset_sink: "j < length rs \<Longrightarrow> mset (sink j rs) = mset rs"
proof (induction j arbitrary: rs)
  case (Suc j)
  let ?rs = "rs[Suc j := rs ! j, j := rs ! Suc j]"
  have "mset ?rs = mset rs" using Suc.prems by (intro mset_swap) simp_all
  then show ?case using Suc by simp
qed simp

lemma length_sink [simp]: "length (sink j rs) = length rs"
  by (induction j arbitrary: rs) simp_all

lemma sink_drop: "j < length rs \<Longrightarrow> drop (Suc j) (sink j rs) = drop (Suc j) rs"
proof (induction j arbitrary: rs)
  case (Suc j)
  let ?rs = "rs[Suc j := rs ! j, j := rs ! Suc j]"
  have "drop (Suc j) (sink j ?rs) = drop (Suc j) ?rs" using Suc by simp
  then have "drop 1 (drop (Suc j) (sink j ?rs)) = drop 1 (drop (Suc j) ?rs)" by simp
  then show ?case by simp
qed simp

text \<open>
  Row \<open>j\<close> sinks into the sorted rows before it, and the result is the sorted insertion: everything
  it passes is smaller, everything it stops at is not.
\<close>

lemma desc_sink:
  "j < length rs \<Longrightarrow> desc (take j rs) \<Longrightarrow> desc (take (Suc j) (sink j rs))"
proof (induction j arbitrary: rs)
  case 0
  then show ?case by (cases rs) (simp_all add: desc_def)
next
  case (Suc j)
  let ?y = "rs ! j" and ?x = "rs ! Suc j" and ?p = "take j rs"
  have p: "take (Suc j) rs = ?p @ [?y]" using Suc.prems(1) by (simp add: take_Suc_conv_app_nth)
  have dp: "desc ?p" "\<forall>z\<in>set ?p. fst z \<ge> fst ?y"
    using Suc.prems(2) unfolding p desc_def by (auto simp: sorted_wrt_append)
  show ?case
  proof (cases "fst ?x > fst ?y")
    case False
    have "take (Suc (Suc j)) rs = ?p @ [?y, ?x]"
      using Suc.prems(1) by (simp add: take_Suc_conv_app_nth)
    then show ?thesis using False Suc.prems(2) p dp(2)
      by (auto simp: desc_def sorted_wrt_append intro: order_trans)
  next
    case True
    let ?rs = "rs[Suc j := ?y, j := ?x]"
    have sw: "?rs = ?p @ [?x, ?y] @ drop (Suc (Suc j)) rs" by (rule swap_nth [OF Suc.prems(1)])
    have tj: "take j ?rs = ?p" using Suc.prems(1) by (simp add: sw)
    have IH: "desc (take (Suc j) (sink j ?rs))"
      using Suc.IH [of ?rs] Suc.prems(1) tj dp(1) by simp
    have dr: "drop (Suc j) (sink j ?rs) = ?y # drop (Suc (Suc j)) rs"
      using sink_drop [of j ?rs] Suc.prems(1) by (simp add: sw)
    have tk: "take (Suc (Suc j)) (sink j ?rs) = take (Suc j) (sink j ?rs) @ [?y]"
    proof -
      have "sink j ?rs ! Suc j = hd (drop (Suc j) (sink j ?rs))"
        using Suc.prems(1) by (intro hd_drop_conv_nth [symmetric]) simp
      then have "sink j ?rs ! Suc j = ?y" by (simp only: dr list.sel)
      then show ?thesis using Suc.prems(1) by (simp add: take_Suc_conv_app_nth [of "Suc j"])
    qed
    have "mset (take (Suc j) (sink j ?rs)) = mset (?p @ [?x])"
    proof -
      have "mset (sink j ?rs) = mset ?rs" using Suc.prems(1) by (intro mset_sink) simp
      then have "mset (take (Suc j) (sink j ?rs)) + mset (drop (Suc j) (sink j ?rs)) = mset ?rs"
        by (metis append_take_drop_id mset_append)
      then show ?thesis unfolding dr by (simp add: sw)
    qed
    from mset_eq_setD [OF this] have "set (take (Suc j) (sink j ?rs)) = insert ?x (set ?p)"
      by (simp only: set_append list.set Un_insert_right sup_bot.right_neutral)
    then have "\<forall>z\<in>set (take (Suc j) (sink j ?rs)). fst z \<ge> fst ?y" using dp(2) True by auto
    then show ?thesis using True IH unfolding desc_def sink.simps if_P [OF True] tk
      by (simp add: sorted_wrt_append)
  qed
qed

lemma sort_rows_prefix:
  "n \<le> length rs \<Longrightarrow> 0 < n \<Longrightarrow>
     (let r = fold sink [1..<n] rs in mset r = mset rs \<and> length r = length rs \<and> desc (take n r))"
proof (induction n)
  case (Suc n)
  show ?case
  proof (cases "n = 0")
    case True
    then show ?thesis using Suc.prems by (cases rs) (simp_all add: desc_def)
  next
    case False
    let ?r = "fold sink [1..<n] rs"
    have IH: "mset ?r = mset rs" "length ?r = length rs" "desc (take n ?r)"
      using Suc False by (simp_all add: Let_def)
    have e: "fold sink [1..<Suc n] rs = sink n ?r" using False by simp
    have n: "n < length ?r" using IH(2) Suc.prems by simp
    show ?thesis unfolding Let_def e
      using mset_sink [OF n] desc_sink [OF n IH(3)] IH by simp
  qed
qed simp

lemma sort_rows_sorted: "mset (sort_rows rs) = mset rs \<and> desc (sort_rows rs)"
proof (cases "rs = []")
  case True
  then show ?thesis by (simp add: sort_rows_def desc_def)
next
  case False
  let ?r = "fold sink [1..<length rs] rs"
  have "mset ?r = mset rs" "length ?r = length rs" "desc (take (length rs) ?r)"
    using False sort_rows_prefix [OF order_refl, of rs] unfolding Let_def length_greater_0_conv by blast+
  then show ?thesis unfolding sort_rows_def by (metis order_refl take_all)
qed

section \<open>Sequences of calls\<close>

text \<open>What a call adds to the history: its NID and name when it left zero in \<^verbatim>\<open>$v0\<close>.\<close>

definition noted ::
  "('f \<Rightarrow> psp_machine \<Rightarrow> psp_machine) \<Rightarrow> u32 \<Rightarrow> 'f hle_state \<times> psp_machine \<Rightarrow> zero_entry list" where
  "noted run nid S = (case hle_map (fst S) nid of
     Some (fn, name) \<Rightarrow> if gpr (cpu (run fn (snd S))) ! PSP_REG_V0 = 0 then [(nid, name)] else []
   | None \<Rightarrow> [(nid, None)])"

fun call_seq :: "('f \<Rightarrow> psp_machine \<Rightarrow> psp_machine) \<Rightarrow> u32 list \<Rightarrow>
    'f hle_state \<times> psp_machine \<Rightarrow> ('f hle_state \<times> psp_machine) \<times> zero_entry list" where
  "call_seq run [] S = (S, [])"
| "call_seq run (nid # nids) S =
     (let (S', es) = call_seq run nids (psp_hle_call run nid S) in (S', noted run nid S @ es))"

definition zero_view :: "'f hle_state \<Rightarrow> (nat \<Rightarrow> zero_entry) \<times> u64" where
  "zero_view h = (h_zero h, h_zero_n h)"

lemma zero_view_note: "zero_view h = zero_view h' \<Longrightarrow> zero_view (note_zero e h) = zero_view (note_zero e h')"
  by (simp add: zero_view_def note_zero_def)

lemma zero_view_fold:
  "zero_view h = zero_view h' \<Longrightarrow> zero_view (fold note_zero es h) = zero_view (fold note_zero es h')"
proof (induction es arbitrary: h h')
  case (Cons e es)
  show ?case using Cons.IH [OF zero_view_note [OF Cons.prems]] by simp
qed simp

lemma zero_view_unimpl [simp]:
  "zero_view (log_unimpl h) = zero_view h" "zero_view (count_unimpl nid h) = zero_view h"
  by (simp_all add: zero_view_def log_unimpl_def count_unimpl_def split: option.split)

lemma zero_view_call:
  "zero_view (fst (psp_hle_call run nid S)) = zero_view (fold note_zero (noted run nid S) (fst S))"
proof (cases "entry_index nid (fst S)")
  case None
  then have "fst (psp_hle_call run nid S) = log_unimpl (count_unimpl nid
      ((note_zero (nid, None) (fst S))\<lparr>h_unimpl_total := h_unimpl_total (note_zero (nid, None) (fst S)) + 1\<rparr>))"
    by (cases S) (simp add: psp_hle_call_def Let_def)
  then show ?thesis using None by (simp add: noted_def hle_map_entry) (simp add: zero_view_def)
next
  case (Some i)
  then show ?thesis
    by (cases S) (simp add: psp_hle_call_def noted_def hle_map_entry zero_view_def note_zero_def Let_def)
qed

lemma zero_view_seq:
  "zero_view (fst (fst (call_seq run nids S))) =
     zero_view (fold note_zero (snd (call_seq run nids S)) (fst S))"
proof (induction nids arbitrary: S)
  case (Cons nid nids)
  show ?case
    using Cons [of "psp_hle_call run nid S"] zero_view_fold [OF zero_view_call, of _ run nid S]
    by (simp add: case_prod_unfold Let_def)
qed simp

lemma dump_zero_view: "zero_view h = zero_view h' \<Longrightarrow> psp_hle_dump_recent h = psp_hle_dump_recent h'"
  by (simp add: zero_view_def psp_hle_dump_recent_def)

section \<open>Properties\<close>

text \<open>The table at start-up.\<close>

definition hle_start :: "'f hle_state" where
  "hle_start = \<lparr>h_entry = [], h_unimpl = [], h_zero = (\<lambda>_. (0, None)), h_zero_n = 0,
     h_unimpl_total = 0, h_unimpl_logged = 0\<rparr>"

lemma hle_start_simps [simp]: "hle_inv hle_start" "h_entry hle_start = []" "h_zero_n hle_start = 0"
  "hle_map hle_start = Map.empty"
  by (simp_all add: hle_start_def hle_inv_def hle_map_def fun_eq_iff)

text \<open>
  After any sequence of registrations that fits the table, a firmware call runs the function
  registered last for its NID, so a game can override one function; a call of a NID never registered
  changes nothing but the result register, which it sets to zero, and is counted.
\<close>
theorem psp_hle_call_last_registration:
  assumes "hle_inv h" and "length (h_entry h) + length regs \<le> HLE_MAX"
  shows "\<exists>h'. run_puts (put_hle lib) regs h = Some h' \<and>
    (case (hle_map h ++ map_of (rev regs)) nid of
       Some (fn, name) \<Rightarrow> snd (psp_hle_call run nid (h', M)) = run fn M
     | None \<Rightarrow> snd (psp_hle_call run nid (h', M)) = psp_ret 0 M \<and>
         psp_hle_unimplemented_calls (fst (psp_hle_call run nid (h', M))) =
           psp_hle_unimplemented_calls h' + 1)"
proof -
  obtain h' where h': "run_puts (put_hle lib) regs h = Some h'"
    "hle_map h' = hle_map h ++ map_of (rev regs)"
    using hle_tab.run_puts_map [OF assms] by blast
  show ?thesis
  proof (cases "entry_index nid h'")
    case None
    then have "(hle_map h ++ map_of (rev regs)) nid = None" by (simp add: hle_map_entry flip: h'(2))
    then show ?thesis using None h'(1)
      by (simp add: psp_hle_call_def psp_hle_unimplemented_calls_def count_unimpl_def log_unimpl_def
          note_zero_def Let_def del: map_add_None split: option.split)
  next
    case (Some i)
    then have "(hle_map h ++ map_of (rev regs)) nid = Some (e_fn (h_entry h' ! i), e_name (h_entry h' ! i))"
      by (simp add: hle_map_entry flip: h'(2))
    then show ?thesis using Some h'(1) by (simp add: psp_hle_call_def Let_def)
  qed
qed

theorem psp_hle_call_last_registration_witness:
  "\<exists>h'. run_puts (put_hle ''LoadCoreForKernel'')
      [(0xD8779AC6, (1 :: u32, Some ''sceKernelIcacheClearAll'')), (0xD8779AC6, (2, None))] hle_start = Some h' \<and>
    (case (hle_map hle_start ++
        map_of (rev [(0xD8779AC6, (1 :: u32, Some ''sceKernelIcacheClearAll'')), (0xD8779AC6, (2, None))])) 0xD8779AC6 of
       Some (fn, name) \<Rightarrow> snd (psp_hle_call psp_ret 0xD8779AC6 (h', boot_machine)) = psp_ret fn boot_machine
     | None \<Rightarrow> snd (psp_hle_call psp_ret 0xD8779AC6 (h', boot_machine)) = psp_ret 0 boot_machine \<and>
         psp_hle_unimplemented_calls (fst (psp_hle_call psp_ret 0xD8779AC6 (h', boot_machine))) =
           psp_hle_unimplemented_calls h' + 1)"
  by (rule psp_hle_call_last_registration) simp_all

text \<open>
  Whatever calls a game has made since start-up, the report of recent zero results lists the
  last sixteen calls that returned zero, newest first, each under the name it had when called.
\<close>
theorem psp_hle_dump_recent_newest_first:
  assumes "h_zero_n h = 0" and "length (snd (call_seq run nids (h, M))) < 2 ^ 64"
  shows "psp_hle_dump_recent (fst (fst (call_seq run nids (h, M)))) =
    take ZERO_HISTORY (rev (snd (call_seq run nids (h, M))))"
proof -
  let ?es = "snd (call_seq run nids (h, M))"
  have n: "unat (h_zero_n (fold note_zero ?es h)) = length ?es"
    using zero_ring.cnt_fold [of ?es h] assms by (simp add: unat_of_nat take_bit_nat_eq_self)
  have "psp_hle_dump_recent (fst (fst (call_seq run nids (h, M)))) =
      psp_hle_dump_recent (fold note_zero ?es h)"
    by (rule dump_zero_view) (use zero_view_seq [of run nids "(h, M)"] in simp)
  also have "\<dots> = take ZERO_HISTORY (rev ?es)"
    unfolding psp_hle_dump_recent_def n Let_def
    by (rule zero_ring.dump_newest_first [OF assms]) simp
  finally show ?thesis .
qed

theorem psp_hle_dump_recent_newest_first_witness:
  "psp_hle_dump_recent (fst (fst (call_seq psp_ret [1, 2, 3] (hle_start, boot_machine)))) =
    take ZERO_HISTORY (rev (snd (call_seq psp_ret [1, 2, 3] (hle_start, boot_machine))))"
proof (rule psp_hle_dump_recent_newest_first)
  show "length (snd (call_seq psp_ret [1, 2, 3] (hle_start, boot_machine))) < 2 ^ 64"
    by (simp add: noted_def case_prod_unfold split: option.split)
qed simp

text \<open>
  The report of the busiest calls is a sorted selection: what it shows, followed by what it
  leaves out, is a rearrangement of all the counters in descending order, and it shows as many rows
  as asked for or all of them.
\<close>
theorem psp_hle_dump_counts_busiest_first:
  "\<exists>rest. mset (psp_hle_dump_counts limit h @ rest) = mset (count_rows h) \<and>
     sorted_wrt (\<lambda>x y. fst x \<ge> fst y) (psp_hle_dump_counts limit h @ rest) \<and>
     length (psp_hle_dump_counts limit h) = min limit (length (count_rows h))"
proof (intro exI conjI)
  let ?s = "sort_rows (count_rows h)"
  have s: "mset ?s = mset (count_rows h)" "desc ?s" using sort_rows_sorted by blast+
  show "mset (psp_hle_dump_counts limit h @ drop limit ?s) = mset (count_rows h)"
    "sorted_wrt (\<lambda>x y. fst x \<ge> fst y) (psp_hle_dump_counts limit h @ drop limit ?s)"
    using s by (simp_all add: psp_hle_dump_counts_def desc_def)
  show "length (psp_hle_dump_counts limit h) = min limit (length (count_rows h))"
    using mset_eq_length [OF s(1)] by (simp add: psp_hle_dump_counts_def min.commute)
qed

end
