(* ===== verification/Sysmem.thy ===== *)
theory Sysmem
  imports Hle
begin

unbundle bit_operations_syntax

text \<open>
  The user-memory allocator of \<^verbatim>\<open>src/hle/sysmem.c\<close>: a fixed array of block descriptors, first fit
  from the bottom or the top of the heap, and the firmware calls over it. The probing loops run with
  one step of fuel per block and one more; the lemmas show that this is enough.
\<close>

section \<open>State\<close>

abbreviation (input) PSP_SMEM_Low :: u32 where "PSP_SMEM_Low \<equiv> 0"
abbreviation (input) PSP_SMEM_High :: u32 where "PSP_SMEM_High \<equiv> 1"
abbreviation (input) PSP_SMEM_Addr :: u32 where "PSP_SMEM_Addr \<equiv> 2"
abbreviation (input) PSP_SMEM_LowAligned :: u32 where "PSP_SMEM_LowAligned \<equiv> 3"
abbreviation (input) PSP_SMEM_HighAligned :: u32 where "PSP_SMEM_HighAligned \<equiv> 4"
abbreviation (input) MAX_BLOCKS :: nat where "MAX_BLOCKS \<equiv> 512"
abbreviation (input) UID_BASE :: u32 where "UID_BASE \<equiv> 0x00010000"
abbreviation (input) DEFAULT_HEAP_LO :: u32 where "DEFAULT_HEAP_LO \<equiv> 0x08C00000"
abbreviation (input) DEFAULT_HEAP_HI :: u32 where "DEFAULT_HEAP_HI \<equiv> PSP_RAM_BASE + PSP_RAM_SIZE"

abbreviation (input) SCE_KERNEL_ERROR_OK :: u32 where "SCE_KERNEL_ERROR_OK \<equiv> 0"
abbreviation (input) SCE_KERNEL_ERROR_NO_MEMORY :: u32 where "SCE_KERNEL_ERROR_NO_MEMORY \<equiv> 0x80020190"
abbreviation (input) SCE_KERNEL_ERROR_ILLEGAL_ATTR :: u32 where "SCE_KERNEL_ERROR_ILLEGAL_ATTR \<equiv> 0x80020191"
abbreviation (input) SCE_KERNEL_ERROR_UNKNOWN_UID :: u32 where "SCE_KERNEL_ERROR_UNKNOWN_UID \<equiv> 0x800201A2"

record mem_block =
  b_uid :: u32
  b_addr :: u32
  b_size :: u32
  b_name :: "u8 list"
  b_used :: bool

record sysmem =
  g_block :: "mem_block list"
  g_next_uid :: u32
  g_heap_lo :: u32
  g_heap_hi :: u32

definition free_block :: mem_block where
  "free_block = \<lparr>b_uid = 0, b_addr = 0, b_size = 0, b_name = [], b_used = False\<rparr>"

definition psp_sysmem_reset :: sysmem where
  "psp_sysmem_reset = \<lparr>g_block = replicate MAX_BLOCKS free_block, g_next_uid = UID_BASE,
     g_heap_lo = DEFAULT_HEAP_LO, g_heap_hi = DEFAULT_HEAP_HI\<rparr>"

definition psp_sysmem_init :: sysmem where
  "psp_sysmem_init = psp_sysmem_reset"

section \<open>Placement\<close>

definition find_uid :: "u32 \<Rightarrow> sysmem \<Rightarrow> nat option" where
  "find_uid uid S = find_index (\<lambda>b. b_used b \<and> b_uid b = uid) (g_block S)"

definition alloc_slot :: "sysmem \<Rightarrow> nat option" where
  "alloc_slot S = find_index (\<lambda>b. \<not> b_used b) (g_block S)"

definition hits :: "u32 \<Rightarrow> u32 \<Rightarrow> mem_block \<Rightarrow> bool" where
  "hits addr sz b \<longleftrightarrow> b_used b \<and> addr < b_addr b + b_size b \<and> b_addr b < addr + sz"

definition overlaps :: "u32 \<Rightarrow> u32 \<Rightarrow> sysmem \<Rightarrow> bool" where
  "overlaps addr sz S \<longleftrightarrow> list_ex (hits addr sz) (g_block S)"

text \<open>The skip of \<^verbatim>\<open>place_low\<close>: the lowest end of the blocks in the way.\<close>

definition next_end :: "u32 \<Rightarrow> u32 \<Rightarrow> sysmem \<Rightarrow> u32" where
  "next_end a sz S = foldl (\<lambda>next b. if hits a sz b \<and> b_addr b + b_size b < next
     then b_addr b + b_size b else next) (g_heap_hi S) (g_block S)"

definition align_up :: "u32 \<Rightarrow> u32 \<Rightarrow> u32" where
  "align_up x align = (x + align - 1) AND NOT (align - 1)"

definition align_down :: "u32 \<Rightarrow> u32 \<Rightarrow> u32" where
  "align_down x align = x AND NOT (align - 1)"

fun low_loop :: "sysmem \<Rightarrow> u32 \<Rightarrow> u32 \<Rightarrow> nat \<Rightarrow> u32 \<Rightarrow> u32 option" where
  "low_loop S sz align 0 a = None"
| "low_loop S sz align (Suc fuel) a =
     (if a + sz \<le> g_heap_hi S
      then if \<not> overlaps a sz S then Some a
           else low_loop S sz align fuel (align_up (next_end a sz S) align)
      else Some 0)"

definition place_low :: "u32 \<Rightarrow> u32 \<Rightarrow> sysmem \<Rightarrow> u32 option" where
  "place_low sz align S = low_loop S sz align (MAX_BLOCKS + 1) (align_up (g_heap_lo S) align)"

definition prev_start :: "u32 \<Rightarrow> u32 \<Rightarrow> sysmem \<Rightarrow> u32" where
  "prev_start a sz S = foldl (\<lambda>prev b. if hits a sz b \<and> b_addr b > prev then b_addr b else prev)
     (g_heap_lo S) (g_block S)"

fun high_loop :: "sysmem \<Rightarrow> u32 \<Rightarrow> u32 \<Rightarrow> nat \<Rightarrow> u32 \<Rightarrow> u32 option" where
  "high_loop S sz align 0 a = None"
| "high_loop S sz align (Suc fuel) a =
     (if a \<ge> g_heap_lo S
      then if \<not> overlaps a sz S then Some a
           else let prev = prev_start a sz S in
                if prev \<le> g_heap_lo S \<or> prev < sz then Some 0
                else high_loop S sz align fuel (align_down (prev - sz) align)
      else Some 0)"

definition place_high :: "u32 \<Rightarrow> u32 \<Rightarrow> sysmem \<Rightarrow> u32 option" where
  "place_high sz align S =
     (if sz > g_heap_hi S - g_heap_lo S then Some 0
      else high_loop S sz align (MAX_BLOCKS + 1) (align_down (g_heap_hi S - sz) align))"

definition psp_sysmem_free :: "sysmem \<Rightarrow> u32" where
  "psp_sysmem_free S =
     (g_heap_hi S - g_heap_lo S) - sum_list (map b_size (filter b_used (g_block S)))"

section \<open>Allocation and release\<close>

definition round_size :: "u32 \<Rightarrow> u32" where
  "round_size sz = (let rounded = (sz + 0xFF) AND NOT 0xFF in if rounded = 0 then 0x100 else rounded)"

text \<open>The descriptor of a new block, in the first free slot.\<close>

definition take_slot :: "u32 \<Rightarrow> u32 \<Rightarrow> u8 list \<Rightarrow> sysmem \<Rightarrow> (u32 \<times> sysmem) option" where
  "take_slot addr sz name S =
     (case alloc_slot S of None \<Rightarrow> None
      | Some i \<Rightarrow> Some (g_next_uid S,
          S\<lparr>g_block := (g_block S)[i := \<lparr>b_uid = g_next_uid S, b_addr = addr, b_size = sz,
              b_name = name, b_used = True\<rparr>],
            g_next_uid := g_next_uid S + 1\<rparr>))"

text \<open>\<^verbatim>\<open>"internal"\<close>, the name of blocks the runtime allocates for itself.\<close>

definition internal_name :: "u8 list" where
  "internal_name = [105, 110, 116, 101, 114, 110, 97, 108]"

definition psp_sysmem_alloc :: "u32 \<Rightarrow> bool \<Rightarrow> sysmem \<Rightarrow> (u32 \<times> sysmem) option" where
  "psp_sysmem_alloc sz from_high S =
     (let rounded = round_size sz in
      case (if from_high then place_high rounded 0x100 S else place_low rounded 0x100 S) of
        None \<Rightarrow> None
      | Some addr \<Rightarrow>
          Some (if addr = 0 then (0, S)
                else case take_slot addr rounded internal_name S of None \<Rightarrow> (0, S)
                     | Some (_, S') \<Rightarrow> (addr, S')))"

definition psp_sysmem_release :: "u32 \<Rightarrow> sysmem \<Rightarrow> sysmem" where
  "psp_sysmem_release addr S =
     (case find_index (\<lambda>b. b_used b \<and> b_addr b = addr) (g_block S) of None \<Rightarrow> S
      | Some i \<Rightarrow> S\<lparr>g_block := (g_block S)[i := (g_block S ! i)\<lparr>b_used := False\<rparr>]\<rparr>)"

section \<open>The firmware calls\<close>

text \<open>The address a request of \<^verbatim>\<open>hle_AllocPartitionMemory\<close> gets, or the error it returns.\<close>

definition place_request :: "u32 \<Rightarrow> u32 \<Rightarrow> u32 \<Rightarrow> sysmem \<Rightarrow> (u32 + u32) option" where
  "place_request type rounded want S =
     (let aligned = (type = PSP_SMEM_LowAligned \<or> type = PSP_SMEM_HighAligned);
          al = (if aligned then (if want \<noteq> 0 then want else 0x100) else 0x100)
      in if aligned \<and> al AND (al - 1) \<noteq> 0 then Some (Inl SCE_KERNEL_ERROR_ILLEGAL_ATTR)
         else let align = (if al < 0x100 then 0x100 else al)
              in if type = PSP_SMEM_Low \<or> type = PSP_SMEM_LowAligned
                 then map_option Inr (place_low rounded align S)
                 else if type = PSP_SMEM_High \<or> type = PSP_SMEM_HighAligned
                 then map_option Inr (place_high rounded align S)
                 else if type = PSP_SMEM_Addr
                 then Some (Inr (if want \<ge> g_heap_lo S \<and> want + rounded \<le> g_heap_hi S \<and>
                                   \<not> overlaps want rounded S then want else 0))
                 else Some (Inl SCE_KERNEL_ERROR_ILLEGAL_ATTR))"

definition hle_AllocPartitionMemory :: "sysmem \<times> psp_machine \<Rightarrow> (sysmem \<times> psp_machine) option" where
  "hle_AllocPartitionMemory SM =
     (let (S, M) = SM;
          name_ptr = fst (psp_arg 1 M); type = fst (psp_arg 2 M); sz = fst (psp_arg 3 M);
          want = fst (psp_arg 4 M); rounded = round_size sz
      in case place_request type rounded want S of
           None \<Rightarrow> None
         | Some (Inl err) \<Rightarrow> Some (S, psp_ret err M)
         | Some (Inr addr) \<Rightarrow>
             if addr = 0 then Some (S, psp_ret SCE_KERNEL_ERROR_NO_MEMORY M)
             else (let (name, M1) = psp_str name_ptr 32 M in
                   case take_slot addr rounded name S of
                     None \<Rightarrow> Some (S, psp_ret SCE_KERNEL_ERROR_NO_MEMORY M)
                   | Some (uid, S') \<Rightarrow> Some (S', psp_ret uid M1)))"

definition hle_FreePartitionMemory :: "sysmem \<times> psp_machine \<Rightarrow> sysmem \<times> psp_machine" where
  "hle_FreePartitionMemory SM =
     (let (S, M) = SM in
      case find_uid (fst (psp_arg 0 M)) S of
        None \<Rightarrow> (S, psp_ret SCE_KERNEL_ERROR_UNKNOWN_UID M)
      | Some i \<Rightarrow> (S\<lparr>g_block := (g_block S)[i := (g_block S ! i)\<lparr>b_used := False\<rparr>]\<rparr>,
                   psp_ret SCE_KERNEL_ERROR_OK M))"

definition hle_GetBlockHeadAddr :: "sysmem \<times> psp_machine \<Rightarrow> sysmem \<times> psp_machine" where
  "hle_GetBlockHeadAddr SM =
     (let (S, M) = SM in
      (S, psp_ret (case find_uid (fst (psp_arg 0 M)) S of None \<Rightarrow> 0 | Some i \<Rightarrow> b_addr (g_block S ! i)) M))"

definition hle_SetCompiledSdkVersion :: "psp_machine \<Rightarrow> psp_machine" where
  "hle_SetCompiledSdkVersion M = psp_ret SCE_KERNEL_ERROR_OK M"

definition hle_SetCompilerVersion :: "psp_machine \<Rightarrow> psp_machine" where
  "hle_SetCompilerVersion M = psp_ret SCE_KERNEL_ERROR_OK M"

definition hle_MaxFreeMemSize :: "sysmem \<times> psp_machine \<Rightarrow> sysmem \<times> psp_machine" where
  "hle_MaxFreeMemSize SM = (fst SM, psp_ret (psp_sysmem_free (fst SM)) (snd SM))"

section \<open>Alignment\<close>

lemma and_not_mask: "(x :: u32) AND NOT (mask k) = push_bit k (drop_bit k x)"
  by (rule word_bitI) (auto simp: bit_simps)

lemma unat_and_not_mask: "unat ((x :: u32) AND NOT (mask k)) = unat x div 2 ^ k * 2 ^ k"
proof -
  have le: "unat x div 2 ^ k * 2 ^ k < 4294967296"
    using unat_u32_less [of x] by (meson div_times_less_eq_dividend le_less_trans)
  have "unat (push_bit k (drop_bit k x)) = (unat x div 2 ^ k * 2 ^ k) mod 4294967296"
    unfolding unsigned_push_bit_eq unsigned_drop_bit_eq using unat_u32_less [of x]
    by (simp add: push_bit_eq_mult drop_bit_eq_div take_bit_eq_mod)
  then show ?thesis using le by (simp add: and_not_mask)
qed

lemma pow2_minus_1: "(2 ^ k - 1 :: u32) = mask k"
  by (simp add: mask_eq_exp_minus_1)

lemma unat_align_down: "unat (align_down x (2 ^ k)) = unat x div 2 ^ k * 2 ^ k"
  unfolding align_down_def pow2_minus_1 by (rule unat_and_not_mask)

lemma unat_align_up:
  assumes "unat x \<le> 2 ^ 28" and "k \<le> 28"
  shows "unat (align_up x (2 ^ k)) = (unat x + 2 ^ k - 1) div 2 ^ k * 2 ^ k"
proof -
  have p: "(2 :: nat) ^ k \<le> 2 ^ 28" using assms(2) by (intro power_increasing) simp_all
  have e: "x + 2 ^ k - 1 = of_nat (unat x + 2 ^ k - 1)"
  proof -
    have "1 \<le> unat x + 2 ^ k" by (simp add: trans_le_add2)
    then show ?thesis by (simp only: of_nat_diff of_nat_add of_nat_power of_nat_numeral of_nat_1 of_nat_unat ucast_id)
  qed
  have "unat x + 2 ^ k - 1 < 2 ^ 32" using assms(1) p by simp
  then have "unat (x + 2 ^ k - 1) = unat x + 2 ^ k - 1"
    unfolding e by (simp add: unat_of_nat_u32)
  then show ?thesis unfolding align_up_def pow2_minus_1 unat_and_not_mask by simp
qed

lemma round_up_nat:
  assumes "0 < (A :: nat)"
  shows "x \<le> (x + A - 1) div A * A" and "A dvd (x + A - 1) div A * A"
    and "A dvd c \<Longrightarrow> x \<le> c \<Longrightarrow> (x + A - 1) div A * A \<le> c" and "(x + A - 1) div A * A < x + A"
proof -
  have m: "(x + A - 1) div A * A + (x + A - 1) mod A = x + A - 1" by (rule div_mult_mod_eq)
  have r: "(x + A - 1) mod A < A" using assms by simp
  show "x \<le> (x + A - 1) div A * A" using m r by linarith
  show "A dvd (x + A - 1) div A * A" by simp
  show lt: "(x + A - 1) div A * A < x + A" using m assms by linarith
  show "(x + A - 1) div A * A \<le> c" if "A dvd c" "x \<le> c"
  proof -
    from that(1) obtain q where q: "c = q * A" by (metis dvd_div_mult_self)
    have "(x + A - 1) div A * A < (q + 1) * A" using lt that(2) q by simp
    then have "(x + A - 1) div A < q + 1" using mult_less_cancel2 by blast
    then show ?thesis using q by simp
  qed
qed

lemma round_down_nat:
  assumes "0 < (A :: nat)"
  shows "x div A * A \<le> x" and "A dvd x div A * A" and "A dvd c \<Longrightarrow> c \<le> x \<Longrightarrow> c \<le> x div A * A"
proof -
  show "x div A * A \<le> x" "A dvd x div A * A" by simp_all
  show "c \<le> x div A * A" if "A dvd c" "c \<le> x"
  proof -
    have "c div A \<le> x div A" using that(2) by (rule div_le_mono)
    then have "c div A * A \<le> x div A * A" by simp
    then show ?thesis using that(1) by simp
  qed
qed

section \<open>The heap invariant\<close>

text \<open>
  Blocks in use lie inside the heap, do not overlap and carry distinct UIDs below the next one; the
  heap is a range of guest RAM, so no end of a block wraps.
\<close>

definition bstart :: "mem_block \<Rightarrow> nat" where "bstart b = unat (b_addr b)"
definition bend :: "mem_block \<Rightarrow> nat" where "bend b = unat (b_addr b) + unat (b_size b)"

definition block_ok :: "sysmem \<Rightarrow> mem_block \<Rightarrow> bool" where
  "block_ok S b \<longleftrightarrow> unat (g_heap_lo S) \<le> bstart b \<and> bend b \<le> unat (g_heap_hi S) \<and> 0 < unat (b_size b)"

definition apart :: "mem_block \<Rightarrow> mem_block \<Rightarrow> bool" where
  "apart b c \<longleftrightarrow> bend b \<le> bstart c \<or> bend c \<le> bstart b"

definition sysmem_inv :: "sysmem \<Rightarrow> bool" where
  "sysmem_inv S \<longleftrightarrow> length (g_block S) = MAX_BLOCKS \<and>
     0 < unat (g_heap_lo S) \<and> unat (g_heap_lo S) \<le> unat (g_heap_hi S) \<and> unat (g_heap_hi S) \<le> 2 ^ 28 \<and>
     (\<forall>b\<in>set (g_block S). b_used b \<longrightarrow> block_ok S b \<and> b_uid b < g_next_uid S) \<and>
     (\<forall>i<MAX_BLOCKS. \<forall>j<MAX_BLOCKS. i \<noteq> j \<and> b_used (g_block S ! i) \<and> b_used (g_block S ! j) \<longrightarrow>
        apart (g_block S ! i) (g_block S ! j) \<and> b_uid (g_block S ! i) \<noteq> b_uid (g_block S ! j))"

lemma inv_uid:
  "sysmem_inv S \<Longrightarrow> i < MAX_BLOCKS \<Longrightarrow> j < MAX_BLOCKS \<Longrightarrow> i \<noteq> j \<Longrightarrow> b_used (g_block S ! i) \<Longrightarrow>
     b_used (g_block S ! j) \<Longrightarrow> b_uid (g_block S ! i) \<noteq> b_uid (g_block S ! j)"
  by (simp add: sysmem_inv_def)

text \<open>Where a request of \<open>sz\<close> bytes at alignment \<open>A\<close> fits, as integers.\<close>

definition fits :: "sysmem \<Rightarrow> nat \<Rightarrow> nat \<Rightarrow> nat \<Rightarrow> bool" where
  "fits S sz A c \<longleftrightarrow> unat (g_heap_lo S) \<le> c \<and> c + sz \<le> unat (g_heap_hi S) \<and> A dvd c \<and>
     (\<forall>b\<in>set (g_block S). b_used b \<longrightarrow> \<not> (c < bend b \<and> bstart b < c + sz))"

lemma inv_block: "sysmem_inv S \<Longrightarrow> b \<in> set (g_block S) \<Longrightarrow> b_used b \<Longrightarrow> block_ok S b"
  by (simp add: sysmem_inv_def)

lemma unat_bend:
  assumes "sysmem_inv S" "b \<in> set (g_block S)" "b_used b"
  shows "unat (b_addr b + b_size b) = bend b"
proof -
  have "bend b \<le> 2 ^ 28" using inv_block [OF assms] assms(1) by (simp add: block_ok_def sysmem_inv_def)
  then show ?thesis by (simp add: bend_def unat_word_ariths)
qed

lemma hits_iff:
  assumes "sysmem_inv S" "b \<in> set (g_block S)" "unat a + unat sz < 2 ^ 32"
  shows "hits a sz b \<longleftrightarrow> b_used b \<and> unat a < bend b \<and> bstart b < unat a + unat sz"
proof (cases "b_used b")
  case True
  have "unat (a + sz) = unat a + unat sz" using assms(3) by (simp add: unat_word_ariths)
  then show ?thesis using unat_bend [OF assms(1,2) True]
    by (simp add: hits_def word_less_nat_alt bstart_def)
qed (simp add: hits_def)

lemma overlaps_iff:
  assumes "sysmem_inv S" "unat a + unat sz < 2 ^ 32"
  shows "overlaps a sz S \<longleftrightarrow>
    (\<exists>b\<in>set (g_block S). b_used b \<and> unat a < bend b \<and> bstart b < unat a + unat sz)"
  unfolding overlaps_def list_ex_iff using hits_iff [OF assms(1) _ assms(2)] by blast

lemma fold_least:
  fixes f :: "'a \<Rightarrow> nat"
  shows "let r = foldl (\<lambda>m b. if P b \<and> f b < m then f b else m) m0 xs in
    r \<le> m0 \<and> (\<forall>b\<in>set xs. P b \<longrightarrow> r \<le> f b) \<and> (r = m0 \<or> (\<exists>b\<in>set xs. P b \<and> r = f b))"
proof (induction xs rule: rev_induct)
  case (snoc x xs)
  then show ?case by (auto simp: Let_def)
qed simp

lemma fold_greatest:
  fixes f :: "'a \<Rightarrow> nat"
  shows "let r = foldl (\<lambda>m b. if P b \<and> f b > m then f b else m) m0 xs in
    m0 \<le> r \<and> (\<forall>b\<in>set xs. P b \<longrightarrow> f b \<le> r) \<and> (r = m0 \<or> (\<exists>b\<in>set xs. P b \<and> r = f b))"
proof (induction xs rule: rev_induct)
  case (snoc x xs)
  then show ?case by (auto simp: Let_def)
qed simp

lemma foldl_unat:
  assumes "\<And>m b. b \<in> set xs \<Longrightarrow> unat (g m b) = h (unat m) b"
  shows "unat (foldl g m xs) = foldl h (unat m) xs"
  using assms by (induction xs arbitrary: m) simp_all

lemma unat_next_end:
  assumes "sysmem_inv S"
  shows "unat (next_end a sz S) =
    foldl (\<lambda>m b. if hits a sz b \<and> bend b < m then bend b else m) (unat (g_heap_hi S)) (g_block S)"
  unfolding next_end_def
  by (rule foldl_unat) (auto simp: word_less_nat_alt unat_bend [OF assms] hits_def)

lemma unat_prev_start:
  "unat (prev_start a sz S) =
    foldl (\<lambda>m b. if hits a sz b \<and> bstart b > m then bstart b else m) (unat (g_heap_lo S)) (g_block S)"
  unfolding prev_start_def by (rule foldl_unat) (auto simp: word_less_nat_alt bstart_def)

text \<open>
  The skip of \<^verbatim>\<open>place_low\<close>: it moves past the end of a block that is in the way, and over nothing
  that could fit.
\<close>

lemma next_end_skip:
  assumes inv: "sysmem_inv S" and w: "unat a + unat sz < 2 ^ 32" and ov: "overlaps a sz S"
  shows "\<exists>b\<in>set (g_block S). b_used b \<and> unat a < bend b \<and> unat (next_end a sz S) = bend b"
    and "unat a \<le> c \<Longrightarrow> c < unat (next_end a sz S) \<Longrightarrow> \<not> fits S (unat sz) A c"
proof -
  let ?n = "unat (next_end a sz S)"
  have n: "?n \<le> unat (g_heap_hi S)" "\<forall>b\<in>set (g_block S). hits a sz b \<longrightarrow> ?n \<le> bend b"
    "?n = unat (g_heap_hi S) \<or> (\<exists>b\<in>set (g_block S). hits a sz b \<and> ?n = bend b)"
    using fold_least [of "hits a sz" bend "unat (g_heap_hi S)" "g_block S"]
    unfolding unat_next_end [OF inv] Let_def by blast+
  obtain b where b: "b \<in> set (g_block S)" "hits a sz b" using ov by (auto simp: overlaps_def list_ex_iff)
  note hb = b(2) [unfolded hits_iff [OF inv b(1) w]]
  have "bend b \<le> unat (g_heap_hi S)" using inv_block [OF inv b(1)] hb by (simp add: block_ok_def)
  then have "\<exists>b\<in>set (g_block S). hits a sz b \<and> ?n = bend b" using n b by (metis order_antisym)
  then show "\<exists>b\<in>set (g_block S). b_used b \<and> unat a < bend b \<and> ?n = bend b"
    using hits_iff [OF inv _ w] by blast
  show "\<not> fits S (unat sz) A c" if "unat a \<le> c" "c < ?n"
  proof -
    have "c < bend b" using that n(2) b by fastforce
    moreover have "bstart b < c + unat sz" using hb that by linarith
    ultimately show ?thesis using b(1) hb by (auto simp: fits_def)
  qed
qed

definition ends_after :: "sysmem \<Rightarrow> nat \<Rightarrow> nat" where
  "ends_after S a = length (filter (\<lambda>b. b_used b \<and> a < bend b) (g_block S))"

lemma filter_length_le:
  "(\<And>x. x \<in> set xs \<Longrightarrow> P x \<Longrightarrow> Q x) \<Longrightarrow> length (filter P xs) \<le> length (filter Q xs)"
  by (induction xs) (auto simp: le_SucI)

lemma filter_length_less:
  assumes "\<And>x. x \<in> set xs \<Longrightarrow> P x \<Longrightarrow> Q x" and "y \<in> set xs" "Q y" "\<not> P y"
  shows "length (filter P xs) < length (filter Q xs)"
proof -
  obtain us vs where xs: "xs = us @ y # vs" using split_list [OF assms(2)] by blast
  have "length (filter P us) \<le> length (filter Q us)" "length (filter P vs) \<le> length (filter Q vs)"
    using assms(1) unfolding xs by (intro filter_length_le; simp)+
  then show ?thesis using assms(3,4) unfolding xs by simp
qed

lemma low_loop_first_fit:
  assumes inv: "sysmem_inv S" and sz: "0 < unat sz" "unat sz < 0xE0000000"
    and k: "k \<le> 28" and fuel: "ends_after S (unat a) < fuel"
    and a: "unat (g_heap_lo S) \<le> unat a" "unat a \<le> 2 ^ 29" "2 ^ k dvd unat a"
    and below: "\<forall>c<unat a. \<not> fits S (unat sz) (2 ^ k) c"
  shows "\<exists>r. low_loop S sz (2 ^ k) fuel a = Some r \<and>
    (if r = 0 then \<forall>c. \<not> fits S (unat sz) (2 ^ k) c
     else fits S (unat sz) (2 ^ k) (unat r) \<and> (\<forall>c<unat r. \<not> fits S (unat sz) (2 ^ k) c))"
  using fuel a below
proof (induction fuel arbitrary: a)
  case (Suc fuel)
  have w: "unat a + unat sz < 2 ^ 32" using Suc.prems(3) sz(2) by simp
  have us: "unat (a + sz) = unat a + unat sz" using w by (simp add: unat_word_ariths)
  have hi: "unat (g_heap_hi S) \<le> 2 ^ 28" "0 < unat (g_heap_lo S)"
    using inv by (simp_all add: sysmem_inv_def)
  consider (out) "\<not> a + sz \<le> g_heap_hi S" | (fit) "a + sz \<le> g_heap_hi S" "\<not> overlaps a sz S"
    | (skip) "a + sz \<le> g_heap_hi S" "overlaps a sz S" by blast
  then show ?case
  proof cases
    case out
    then have "unat (g_heap_hi S) < unat a + unat sz" using us by (simp add: word_le_nat_alt)
    then have "\<not> fits S (unat sz) (2 ^ k) c" for c
      using Suc.prems(5) by (cases "c < unat a") (auto simp: fits_def)
    then show ?thesis using out by simp
  next
    case fit
    then have "fits S (unat sz) (2 ^ k) (unat a)"
      using Suc.prems overlaps_iff [OF inv w] us by (auto simp: fits_def word_le_nat_alt)
    moreover have "a \<noteq> 0" using Suc.prems(2) hi(2) by auto
    ultimately show ?thesis using fit Suc.prems(5) by simp
  next
    case skip
    let ?n = "next_end a sz S" let ?a = "align_up ?n (2 ^ k)" let ?A = "2 ^ k :: nat"
    obtain b where b: "b \<in> set (g_block S)" "b_used b" "unat a < bend b" "unat ?n = bend b"
      using next_end_skip(1) [OF inv w skip(2)] by blast
    have nhi: "unat ?n \<le> 2 ^ 28" using b inv_block [OF inv b(1,2)] hi by (simp add: block_ok_def)
    have ua: "unat ?a = (unat ?n + ?A - 1) div ?A * ?A" by (rule unat_align_up [OF nhi k])
    have A: "0 < ?A" "?A \<le> 2 ^ 28" using power_increasing [OF k, of "2 :: nat"] by simp_all
    have r: "unat ?n \<le> unat ?a" "?A dvd unat ?a" "unat ?a < unat ?n + ?A"
      "\<And>c. ?A dvd c \<Longrightarrow> unat ?n \<le> c \<Longrightarrow> unat ?a \<le> c"
      unfolding ua using round_up_nat [OF A(1)] by blast+
    have "ends_after S (unat ?a) < ends_after S (unat a)"
      unfolding ends_after_def using b r(1) by (intro filter_length_less [of _ _ _ b]) auto
    then have "ends_after S (unat ?a) < fuel" using Suc.prems(1) by simp
    moreover have "\<not> fits S (unat sz) ?A c" if "c < unat ?a" for c
    proof -
      consider "c < unat a" | "unat a \<le> c" "c < unat ?n" | "unat ?n \<le> c" by linarith
      then show ?thesis
      proof cases
        case 3
        then show ?thesis using r(4) [of c] that by (auto simp: fits_def)
      qed (use Suc.prems(5) next_end_skip(2) [OF inv w skip(2)] in blast)+
    qed
    moreover have "unat (g_heap_lo S) \<le> unat ?a" "unat ?a \<le> 2 ^ 29"
      using Suc.prems(2) b(3,4) r(1,3) nhi A(2) by simp_all
    ultimately show ?thesis using Suc.IH [of ?a] r(2) skip by simp
  qed
qed simp

lemma prev_start_skip:
  assumes inv: "sysmem_inv S" and w: "unat a + unat sz < 2 ^ 32" and ov: "overlaps a sz S"
    and lo: "unat (g_heap_lo S) \<le> unat a"
  shows "unat (prev_start a sz S) < unat a + unat sz"
    and "\<exists>b\<in>set (g_block S). b_used b \<and> bstart b < unat a + unat sz \<and> unat (prev_start a sz S) = bstart b"
    and "c \<le> unat a \<Longrightarrow> unat (prev_start a sz S) < c + unat sz \<Longrightarrow> \<not> fits S (unat sz) A c"
proof -
  let ?n = "unat (prev_start a sz S)"
  have n: "unat (g_heap_lo S) \<le> ?n" "\<forall>b\<in>set (g_block S). hits a sz b \<longrightarrow> bstart b \<le> ?n"
    "?n = unat (g_heap_lo S) \<or> (\<exists>b\<in>set (g_block S). hits a sz b \<and> ?n = bstart b)"
    using fold_greatest [of "hits a sz" bstart "unat (g_heap_lo S)" "g_block S"]
    unfolding unat_prev_start Let_def by blast+
  obtain b where b: "b \<in> set (g_block S)" "hits a sz b" using ov by (auto simp: overlaps_def list_ex_iff)
  note hb = b(2) [unfolded hits_iff [OF inv b(1) w]]
  have "unat (g_heap_lo S) \<le> bstart b" using inv_block [OF inv b(1)] hb by (simp add: block_ok_def)
  then have ex: "\<exists>b\<in>set (g_block S). hits a sz b \<and> ?n = bstart b" using n b by (metis order_antisym)
  then obtain d where d: "d \<in> set (g_block S)" "hits a sz d" "?n = bstart d" by blast
  note hd = d(2) [unfolded hits_iff [OF inv d(1) w]]
  show "?n < unat a + unat sz" using d hd by simp
  show "\<exists>b\<in>set (g_block S). b_used b \<and> bstart b < unat a + unat sz \<and> ?n = bstart b"
    using d hd by blast
  show "\<not> fits S (unat sz) A c" if "c \<le> unat a" "?n < c + unat sz"
  proof -
    have "c < bend d" "bstart d < c + unat sz" using that hd d(3) by linarith+
    then show ?thesis using d(1) hd by (auto simp: fits_def)
  qed
qed

definition starts_before :: "sysmem \<Rightarrow> nat \<Rightarrow> nat" where
  "starts_before S x = length (filter (\<lambda>b. b_used b \<and> bstart b < x) (g_block S))"

lemma high_loop_last_fit:
  assumes inv: "sysmem_inv S" and sz: "0 < unat sz" "unat sz \<le> 2 ^ 28"
    and fuel: "starts_before S (unat a + unat sz) < fuel"
    and a: "unat a + unat sz \<le> unat (g_heap_hi S)" "2 ^ k dvd unat a"
    and above: "\<forall>c>unat a. \<not> fits S (unat sz) (2 ^ k) c"
  shows "\<exists>r. high_loop S sz (2 ^ k) fuel a = Some r \<and>
    (if r = 0 then \<forall>c. \<not> fits S (unat sz) (2 ^ k) c
     else fits S (unat sz) (2 ^ k) (unat r) \<and> (\<forall>c>unat r. \<not> fits S (unat sz) (2 ^ k) c))"
  using fuel a above
proof (induction fuel arbitrary: a)
  case (Suc fuel)
  have hi: "unat (g_heap_hi S) \<le> 2 ^ 28" "0 < unat (g_heap_lo S)"
    using inv by (simp_all add: sysmem_inv_def)
  have w: "unat a + unat sz < 2 ^ 32" using Suc.prems(2) hi by simp
  consider (out) "\<not> g_heap_lo S \<le> a" | (fit) "g_heap_lo S \<le> a" "\<not> overlaps a sz S"
    | (skip) "g_heap_lo S \<le> a" "overlaps a sz S" by blast
  then show ?case
  proof cases
    case out
    then have "\<not> fits S (unat sz) (2 ^ k) c" for c
      using Suc.prems(4) by (cases "unat a < c") (auto simp: fits_def word_le_nat_alt)
    then show ?thesis using out by simp
  next
    case fit
    then have "fits S (unat sz) (2 ^ k) (unat a)"
      using Suc.prems overlaps_iff [OF inv w] by (auto simp: fits_def word_le_nat_alt)
    moreover have "a \<noteq> 0" using fit(1) hi(2) by (auto simp: word_le_nat_alt)
    ultimately show ?thesis using fit Suc.prems(4) by simp
  next
    case skip
    have lo: "unat (g_heap_lo S) \<le> unat a" using skip(1) by (simp add: word_le_nat_alt)
    let ?p = "prev_start a sz S" let ?a = "align_down (?p - sz) (2 ^ k)" let ?A = "2 ^ k :: nat"
    note ps = prev_start_skip [OF inv w skip(2) lo]
    show ?thesis
    proof (cases "?p \<le> g_heap_lo S \<or> ?p < sz")
      case True
      then have "\<not> fits S (unat sz) ?A c" for c
        using Suc.prems(4) ps(3) [of c ?A] sz(1)
        by (cases "unat a < c") (auto simp: fits_def word_le_nat_alt word_less_nat_alt)
      then show ?thesis using True skip by simp
    next
      case False
      then have le: "unat sz \<le> unat ?p" by (auto simp: word_less_nat_alt)
      then have sub: "unat (?p - sz) = unat ?p - unat sz" by (simp add: unat_sub word_le_nat_alt)
      have ua: "unat ?a = (unat ?p - unat sz) div ?A * ?A" by (simp only: unat_align_down sub)
      have A: "0 < ?A" by simp
      have r: "unat ?a \<le> unat ?p - unat sz" "?A dvd unat ?a"
        "\<And>c. ?A dvd c \<Longrightarrow> c \<le> unat ?p - unat sz \<Longrightarrow> c \<le> unat ?a"
        unfolding ua using round_down_nat [OF A] by blast+
      obtain b where b: "b \<in> set (g_block S)" "b_used b" "bstart b < unat a + unat sz" "unat ?p = bstart b"
        using ps(2) by blast
      have "starts_before S (unat ?a + unat sz) < starts_before S (unat a + unat sz)"
        unfolding starts_before_def using b r(1) le ps(1) by (intro filter_length_less [of _ _ _ b]) auto
      then have "starts_before S (unat ?a + unat sz) < fuel" using Suc.prems(1) by simp
      moreover have "\<not> fits S (unat sz) ?A c" if "unat ?a < c" for c
      proof -
        consider "unat a < c" | "c \<le> unat a" "unat ?p < c + unat sz" | "c + unat sz \<le> unat ?p" by linarith
        then show ?thesis
        proof cases
          case 3
          then have "c \<le> unat ?p - unat sz" by linarith
          then show ?thesis using r(3) [of c] that by (auto simp: fits_def)
        qed (use Suc.prems(4) ps(3) in blast)+
      qed
      moreover have "unat ?a + unat sz \<le> unat (g_heap_hi S)"
        using r(1) le ps(1) Suc.prems(2) by linarith
      ultimately show ?thesis using Suc.IH [of ?a] r(2) skip False by simp
    qed
  qed
qed simp

lemma used_le_blocks:
  assumes "sysmem_inv S"
  shows "ends_after S x < MAX_BLOCKS + 1" and "starts_before S x < MAX_BLOCKS + 1"
proof -
  have "length (filter P (g_block S)) < MAX_BLOCKS + 1" for P
    using assms length_filter_le [of P "g_block S"] by (simp add: sysmem_inv_def)
  then show "ends_after S x < MAX_BLOCKS + 1" "starts_before S x < MAX_BLOCKS + 1"
    unfolding ends_after_def starts_before_def by blast+
qed

lemma place_low_ok:
  assumes inv: "sysmem_inv S" and sz: "0 < unat sz" "unat sz < 0xE0000000" and k: "k \<le> 28"
  shows "\<exists>r. place_low sz (2 ^ k) S = Some r \<and>
    (if r = 0 then \<forall>c. \<not> fits S (unat sz) (2 ^ k) c
     else fits S (unat sz) (2 ^ k) (unat r) \<and> (\<forall>c<unat r. \<not> fits S (unat sz) (2 ^ k) c))"
proof -
  let ?lo = "unat (g_heap_lo S)" let ?a = "align_up (g_heap_lo S) (2 ^ k)" let ?A = "2 ^ k :: nat"
  have lo: "?lo \<le> 2 ^ 28" using inv by (simp add: sysmem_inv_def)
  have ua: "unat ?a = (?lo + ?A - 1) div ?A * ?A" by (rule unat_align_up [OF lo k])
  have A: "0 < ?A" "?A \<le> 2 ^ 28" using power_increasing [OF k, of "2 :: nat"] by simp_all
  have r: "?lo \<le> unat ?a" "?A dvd unat ?a" "unat ?a < ?lo + ?A"
    "\<And>c. ?A dvd c \<Longrightarrow> ?lo \<le> c \<Longrightarrow> unat ?a \<le> c"
    unfolding ua using round_up_nat [OF A(1)] by blast+
  have "\<forall>c<unat ?a. \<not> fits S (unat sz) ?A c" using r(4) by (force simp: fits_def)
  then show ?thesis unfolding place_low_def
    using low_loop_first_fit [OF inv sz k used_le_blocks(1) [OF inv] r(1) _ r(2)] r(3) lo A(2) by simp
qed

lemma place_high_ok:
  assumes inv: "sysmem_inv S" and sz: "0 < unat sz"
  shows "\<exists>r. place_high sz (2 ^ k) S = Some r \<and>
    (if r = 0 then \<forall>c. \<not> fits S (unat sz) (2 ^ k) c
     else fits S (unat sz) (2 ^ k) (unat r) \<and> (\<forall>c>unat r. \<not> fits S (unat sz) (2 ^ k) c))"
proof -
  let ?lo = "unat (g_heap_lo S)" and ?hi = "unat (g_heap_hi S)" let ?A = "2 ^ k :: nat"
  have h: "?lo \<le> ?hi" "?hi \<le> 2 ^ 28" using inv by (simp_all add: sysmem_inv_def)
  have d: "unat (g_heap_hi S - g_heap_lo S) = ?hi - ?lo" using h(1) by (simp add: unat_sub word_le_nat_alt)
  show ?thesis
  proof (cases "sz > g_heap_hi S - g_heap_lo S")
    case True
    then have "?hi - ?lo < unat sz" by (simp add: word_less_nat_alt d)
    then have "\<not> fits S (unat sz) ?A c" for c by (auto simp: fits_def)
    then show ?thesis using True by (simp add: place_high_def)
  next
    case False
    then have le: "unat sz \<le> ?hi - ?lo" by (simp add: word_less_nat_alt d)
    let ?a = "align_down (g_heap_hi S - sz) (2 ^ k)"
    have "unat (g_heap_hi S - sz) = ?hi - unat sz" using le h by (simp add: unat_sub word_le_nat_alt)
    then have ua: "unat ?a = (?hi - unat sz) div ?A * ?A" by (simp only: unat_align_down)
    have A: "0 < ?A" by simp
    have r: "unat ?a \<le> ?hi - unat sz" "?A dvd unat ?a"
      "\<And>c. ?A dvd c \<Longrightarrow> c \<le> ?hi - unat sz \<Longrightarrow> c \<le> unat ?a"
      unfolding ua using round_down_nat [OF A] by blast+
    have "\<forall>c>unat ?a. \<not> fits S (unat sz) ?A c" using r(3) by (force simp: fits_def)
    then show ?thesis unfolding place_high_def
      using high_loop_last_fit [OF inv sz _ used_le_blocks(2) [OF inv] _ r(2)] r(1) le h False by simp
  qed
qed

section \<open>Operations keep the invariant\<close>

lemma used_update:
  assumes "i < length (g_block S)"
  shows "b \<in> set ((g_block S)[i := x]) \<Longrightarrow> b = x \<or> b \<in> set (g_block S)"
  using set_update_subset_insert [of "g_block S" i x] by auto

lemma release_inv:
  assumes inv: "sysmem_inv S" and i: "i < length (g_block S)"
  shows "sysmem_inv (S\<lparr>g_block := (g_block S)[i := (g_block S ! i)\<lparr>b_used := False\<rparr>]\<rparr>)"
proof -
  let ?x = "(g_block S ! i)\<lparr>b_used := False\<rparr>" and ?S = "S\<lparr>g_block := (g_block S)[i := (g_block S ! i)\<lparr>b_used := False\<rparr>]\<rparr>"
  have 1: "\<forall>b\<in>set (g_block ?S). b_used b \<longrightarrow> block_ok ?S b \<and> b_uid b < g_next_uid ?S"
    using inv used_update [OF i, of _ ?x] by (fastforce simp: sysmem_inv_def block_ok_def)
  have nth: "g_block ?S ! j = (if j = i then ?x else g_block S ! j)" if "j < MAX_BLOCKS" for j
    using that inv by (simp add: sysmem_inv_def)
  have 2: "\<forall>j<MAX_BLOCKS. \<forall>k<MAX_BLOCKS. j \<noteq> k \<and> b_used (g_block ?S ! j) \<and> b_used (g_block ?S ! k) \<longrightarrow>
      apart (g_block ?S ! j) (g_block ?S ! k) \<and> b_uid (g_block ?S ! j) \<noteq> b_uid (g_block ?S ! k)"
  proof (intro allI impI)
    fix j k assume jk: "j < MAX_BLOCKS" "k < MAX_BLOCKS"
      "j \<noteq> k \<and> b_used (g_block ?S ! j) \<and> b_used (g_block ?S ! k)"
    then have "j \<noteq> i" "k \<noteq> i" using nth [OF jk(1)] nth [OF jk(2)] by auto
    then show "apart (g_block ?S ! j) (g_block ?S ! k) \<and> b_uid (g_block ?S ! j) \<noteq> b_uid (g_block ?S ! k)"
      using jk inv by (simp add: nth sysmem_inv_def)
  qed
  have "length (g_block ?S) = MAX_BLOCKS \<and> 0 < unat (g_heap_lo ?S) \<and>
      unat (g_heap_lo ?S) \<le> unat (g_heap_hi ?S) \<and> unat (g_heap_hi ?S) \<le> 2 ^ 28"
    using inv by (simp add: sysmem_inv_def)
  then show ?thesis using 1 2 unfolding sysmem_inv_def by blast
qed

lemma take_slot_inv:
  assumes inv: "sysmem_inv S" and f: "fits S (unat sz) A (unat addr)" and sz: "0 < unat sz"
    and uid: "g_next_uid S < 0xFFFFFFFF" and t: "take_slot addr sz name S = Some (u, S')"
  shows "sysmem_inv S'"
proof -
  obtain i where i: "alloc_slot S = Some i" using t by (auto simp: take_slot_def split: option.splits)
  have il: "i < length (g_block S)" "\<not> b_used (g_block S ! i)"
    using i by (auto simp: alloc_slot_def dest: find_index_SomeD)
  let ?x = "\<lparr>b_uid = g_next_uid S, b_addr = addr, b_size = sz, b_name = name, b_used = True\<rparr>"
  have S': "S' = S\<lparr>g_block := (g_block S)[i := ?x], g_next_uid := g_next_uid S + 1\<rparr>"
    using t i by (auto simp: take_slot_def)
  have nu: "unat (g_next_uid S + 1) = unat (g_next_uid S) + 1"
    using uid by (simp add: unat_word_ariths word_less_nat_alt)
  have ok: "block_ok S ?x" using f sz by (simp add: fits_def block_ok_def bstart_def bend_def)
  have new: "apart ?x b" "apart b ?x" if "b \<in> set (g_block S)" "b_used b" for b
    using f that by (auto simp: fits_def apart_def bstart_def bend_def)
  have lt: "b_uid b < g_next_uid S" if "b \<in> set (g_block S)" "b_used b" for b
    using inv that by (simp add: sysmem_inv_def)
  have 1: "\<forall>b\<in>set (g_block S'). b_used b \<longrightarrow> block_ok S' b \<and> b_uid b < g_next_uid S'"
  proof (intro ballI impI)
    fix b assume b: "b \<in> set (g_block S')" "b_used b"
    then consider "b = ?x" | "b \<in> set (g_block S)" using used_update [OF il(1)] by (auto simp: S')
    then show "block_ok S' b \<and> b_uid b < g_next_uid S'"
    proof cases
      case 1
      then show ?thesis using ok nu by (simp add: S' block_ok_def word_less_nat_alt)
    next
      case 2
      then show ?thesis using inv_block [OF inv 2 b(2)] lt [OF 2 b(2)] nu
        by (simp add: S' block_ok_def word_less_nat_alt)
    qed
  qed
  have len: "length (g_block S) = MAX_BLOCKS" using inv by (simp add: sysmem_inv_def)
  have nth: "g_block S' ! j = (if j = i then ?x else g_block S ! j)" if "j < MAX_BLOCKS" for j
    using that len by (simp add: S')
  have mem: "g_block S ! j \<in> set (g_block S)" if "j < MAX_BLOCKS" for j
    using that len by (intro nth_mem) simp
  have 2: "\<forall>j<MAX_BLOCKS. \<forall>k<MAX_BLOCKS. j \<noteq> k \<and> b_used (g_block S' ! j) \<and> b_used (g_block S' ! k) \<longrightarrow>
      apart (g_block S' ! j) (g_block S' ! k) \<and> b_uid (g_block S' ! j) \<noteq> b_uid (g_block S' ! k)"
  proof (intro allI impI)
    fix j k assume jk: "j < MAX_BLOCKS" "k < MAX_BLOCKS"
      "j \<noteq> k \<and> b_used (g_block S' ! j) \<and> b_used (g_block S' ! k)"
    consider "j = i" | "k = i" | "j \<noteq> i" "k \<noteq> i" by blast
    then show "apart (g_block S' ! j) (g_block S' ! k) \<and> b_uid (g_block S' ! j) \<noteq> b_uid (g_block S' ! k)"
    proof cases
      case 1
      then show ?thesis using jk new [OF mem [OF jk(2)]] lt [OF mem [OF jk(2)]] by (auto simp: nth)
    next
      case 2
      then show ?thesis using jk new [OF mem [OF jk(1)]] lt [OF mem [OF jk(1)]] by (auto simp: nth)
    next
      case 3
      then show ?thesis using jk inv by (simp add: nth sysmem_inv_def)
    qed
  qed
  have "length (g_block S') = MAX_BLOCKS \<and> 0 < unat (g_heap_lo S') \<and>
      unat (g_heap_lo S') \<le> unat (g_heap_hi S') \<and> unat (g_heap_hi S') \<le> 2 ^ 28"
    using inv by (simp add: sysmem_inv_def S')
  then show ?thesis using 1 2 unfolding sysmem_inv_def by blast
qed

lemma take_slot_find:
  assumes inv: "sysmem_inv S" and t: "take_slot addr sz name S = Some (u, S')"
  obtains i where "u = g_next_uid S" "find_uid u S' = Some i" "i < length (g_block S')"
    "g_block S' ! i = \<lparr>b_uid = u, b_addr = addr, b_size = sz, b_name = name, b_used = True\<rparr>"
proof -
  obtain i where i: "alloc_slot S = Some i" using t by (auto simp: take_slot_def split: option.splits)
  have il: "i < length (g_block S)" using i by (auto simp: alloc_slot_def dest: find_index_SomeD)
  let ?x = "\<lparr>b_uid = g_next_uid S, b_addr = addr, b_size = sz, b_name = name, b_used = True\<rparr>"
  have S': "u = g_next_uid S" "g_block S' = (g_block S)[i := ?x]" using t i by (auto simp: take_slot_def)
  have "find_uid u S' = Some i" unfolding find_uid_def S'
  proof (rule find_index_SomeI)
    show "i < length ((g_block S)[i := ?x])" using il by simp
    show "b_used ((g_block S)[i := ?x] ! i) \<and> b_uid ((g_block S)[i := ?x] ! i) = g_next_uid S"
      using il by simp
    fix j assume "j < i"
    then have "g_block S ! j \<in> set (g_block S)" "(g_block S)[i := ?x] ! j = g_block S ! j"
      using il by simp_all
    then show "\<not> (b_used ((g_block S)[i := ?x] ! j) \<and> b_uid ((g_block S)[i := ?x] ! j) = g_next_uid S)"
      using inv by (auto simp: sysmem_inv_def)
  qed
  with that il S' show thesis by simp
qed

section \<open>Requests\<close>

lemma unat_round_size:
  assumes "unat sz \<le> 0xDFFFFF00"
  shows "0 < unat (round_size sz)" "unat (round_size sz) < 0xE0000000" "unat sz \<le> unat (round_size sz)"
proof -
  have m: "(0xFF :: u32) = mask 8" by (simp add: mask_eq_exp_minus_1)
  let ?q = "(unat sz + 256 - 1) div 256 * 256"
  have "unat (sz + 0xFF) = unat sz + 256 - 1" using assms by (simp add: unat_word_ariths)
  then have r: "unat ((sz + 0xFF) AND NOT 0xFF) = ?q" unfolding m unat_and_not_mask by simp
  have u: "unat sz \<le> ?q" "?q < unat sz + 256" by (rule round_up_nat; simp)+
  have z: "(sz + 0xFF) AND NOT 0xFF = 0 \<longleftrightarrow> ?q = 0" using r by (metis unat_eq_zero)
  have "?q \<le> 0xDFFFFF00" using assms by (intro round_up_nat(3)) simp_all
  then have "?q < 0xE0000000" by simp
  moreover have "unat (round_size sz) = (if ?q = 0 then 256 else ?q)"
    using r z by (simp add: round_size_def Let_def)
  ultimately show "unat (round_size sz) < 0xE0000000" "0 < unat (round_size sz)"
    "unat sz \<le> unat (round_size sz)" using u(1) by (simp_all only: split: if_split) simp_all
qed

lemma place_request_ok:
  assumes inv: "sysmem_inv S" and sz: "0 < unat sz" "unat sz < 0xE0000000"
    and want: "type \<in> {PSP_SMEM_Addr, PSP_SMEM_LowAligned, PSP_SMEM_HighAligned} \<Longrightarrow> want \<le> 2 ^ 28"
  shows "\<exists>r. place_request type sz want S = Some r \<and>
    (case r of Inl e \<Rightarrow> e = SCE_KERNEL_ERROR_ILLEGAL_ATTR
     | Inr addr \<Rightarrow> addr = 0 \<or> (\<exists>A. fits S (unat sz) A (unat addr)))"
proof -
  define al where "al = (if type = PSP_SMEM_LowAligned \<or> type = PSP_SMEM_HighAligned
    then (if want \<noteq> 0 then want else 0x100) else (0x100 :: u32))"
  define align where "align = (if al < 0x100 then 0x100 else al)"
  have pow: "\<exists>k\<le>28. align = 2 ^ k" if p: "al AND (al - 1) = 0"
  proof (cases "al < 0x100")
    case True
    then have "align = 2 ^ 8" by (simp add: align_def)
    then show ?thesis by (intro exI [of _ 8]) simp
  next
    case False
    then have "al \<noteq> 0" by auto
    then obtain k where k: "k < 32" "al = 2 ^ k" using and_dec_word p by blast
    have "al \<le> 2 ^ 28" using want False by (auto simp: al_def)
    moreover have "unat al = 2 ^ k"
    proof -
      have "(2 :: nat) ^ k < 2 ^ 32" using k(1) by (intro power_strict_increasing) simp_all
      then show ?thesis using k(2) unat_of_nat_u32 [of "2 ^ k"] by simp
    qed
    ultimately have "(2 :: nat) ^ k \<le> 2 ^ 28" by (simp add: word_le_nat_alt)
    then have "k \<le> 28" by (rule power_le_imp_le_exp [rotated]) simp
    then show ?thesis using k False by (auto simp: align_def)
  qed
  have req: "place_request type sz want S =
    (if (type = PSP_SMEM_LowAligned \<or> type = PSP_SMEM_HighAligned) \<and> al AND (al - 1) \<noteq> 0
     then Some (Inl SCE_KERNEL_ERROR_ILLEGAL_ATTR)
     else if type = PSP_SMEM_Low \<or> type = PSP_SMEM_LowAligned then map_option Inr (place_low sz align S)
     else if type = PSP_SMEM_High \<or> type = PSP_SMEM_HighAligned then map_option Inr (place_high sz align S)
     else if type = PSP_SMEM_Addr
     then Some (Inr (if want \<ge> g_heap_lo S \<and> want + sz \<le> g_heap_hi S \<and> \<not> overlaps want sz S then want else 0))
     else Some (Inl SCE_KERNEL_ERROR_ILLEGAL_ATTR))"
    unfolding place_request_def al_def align_def Let_def by simp
  have al100: "al AND (al - 1) = 0" if "\<not> (type = PSP_SMEM_LowAligned \<or> type = PSP_SMEM_HighAligned)"
    using that by (simp add: al_def)
  consider (bad) "(type = PSP_SMEM_LowAligned \<or> type = PSP_SMEM_HighAligned) \<and> al AND (al - 1) \<noteq> 0"
    | (low) "al AND (al - 1) = 0" "type = PSP_SMEM_Low \<or> type = PSP_SMEM_LowAligned"
    | (high) "al AND (al - 1) = 0" "type = PSP_SMEM_High \<or> type = PSP_SMEM_HighAligned"
    | (addr) "type = PSP_SMEM_Addr"
    | (other) "type \<notin> {PSP_SMEM_Low, PSP_SMEM_High, PSP_SMEM_Addr, PSP_SMEM_LowAligned, PSP_SMEM_HighAligned}"
    using al100 by auto
  then show ?thesis
  proof cases
    case low
    obtain k where "k \<le> 28" "align = 2 ^ k" using pow [OF low(1)] by blast
    then show ?thesis using place_low_ok [OF inv sz] low unfolding req by (fastforce split: if_splits)
  next
    case high
    obtain k where "k \<le> 28" "align = 2 ^ k" using pow [OF high(1)] by blast
    then show ?thesis using place_high_ok [OF inv sz(1), of k] high unfolding req
      by (fastforce split: if_splits)
  next
    case addr
    have w: "unat want + unat sz < 2 ^ 32" using want addr sz(2) by (simp add: word_le_nat_alt)
    then have "unat (want + sz) = unat want + unat sz" by (simp add: unat_word_ariths)
    then have "fits S (unat sz) 1 (unat want)"
      if "want \<ge> g_heap_lo S \<and> want + sz \<le> g_heap_hi S \<and> \<not> overlaps want sz S"
      using that overlaps_iff [OF inv w] by (auto simp: fits_def word_le_nat_alt)
    then show ?thesis using addr unfolding req by auto
  qed (simp_all add: req)
qed

section \<open>Properties\<close>

lemma sysmem_inv_reset: "sysmem_inv psp_sysmem_reset"
  by (auto simp: sysmem_inv_def psp_sysmem_reset_def free_block_def)

text \<open>
  C17. Placement terminates and is exact: a low request gets the lowest aligned address of the heap
  at which it overlaps no block in use, a high request the highest, and zero is returned only when
  there is no such address. (The size bound keeps the 32-bit sums of the low search from wrapping.)
\<close>
theorem place_lowest_highest_fit:
  assumes "sysmem_inv S" and "0 < sz" and "sz < 0xE0000000" and "k \<le> 28"
  shows "\<exists>l h. place_low sz (2 ^ k) S = Some l \<and> place_high sz (2 ^ k) S = Some h \<and>
    (if l = 0 then h = 0 \<and> (\<forall>c. \<not> fits S (unat sz) (2 ^ k) c)
     else fits S (unat sz) (2 ^ k) (unat l) \<and> fits S (unat sz) (2 ^ k) (unat h) \<and>
       (\<forall>c. fits S (unat sz) (2 ^ k) c \<longrightarrow> unat l \<le> c \<and> c \<le> unat h))"
proof -
  have sz: "0 < unat sz" "unat sz < 0xE0000000" using assms(2,3) by (simp_all add: word_less_nat_alt)
  have lo: "0 < unat (g_heap_lo S)" using assms(1) by (simp add: sysmem_inv_def)
  obtain l where l: "place_low sz (2 ^ k) S = Some l" "if l = 0 then \<forall>c. \<not> fits S (unat sz) (2 ^ k) c
     else fits S (unat sz) (2 ^ k) (unat l) \<and> (\<forall>c<unat l. \<not> fits S (unat sz) (2 ^ k) c)"
    using place_low_ok [OF assms(1) sz assms(4)] by blast
  obtain h where h: "place_high sz (2 ^ k) S = Some h" "if h = 0 then \<forall>c. \<not> fits S (unat sz) (2 ^ k) c
     else fits S (unat sz) (2 ^ k) (unat h) \<and> (\<forall>c>unat h. \<not> fits S (unat sz) (2 ^ k) c)"
    using place_high_ok [OF assms(1) sz(1)] by blast
  show ?thesis
  proof (intro exI conjI)
    show "if l = 0 then h = 0 \<and> (\<forall>c. \<not> fits S (unat sz) (2 ^ k) c)
     else fits S (unat sz) (2 ^ k) (unat l) \<and> fits S (unat sz) (2 ^ k) (unat h) \<and>
       (\<forall>c. fits S (unat sz) (2 ^ k) c \<longrightarrow> unat l \<le> c \<and> c \<le> unat h)"
      using l(2) h(2) by (cases "l = 0"; cases "h = 0") (auto simp: not_less [symmetric])
  qed (rule l(1), rule h(1))
qed

theorem place_lowest_highest_fit_witness:
  "\<exists>l h. place_low 0x1000 (2 ^ 8) psp_sysmem_reset = Some l \<and>
    place_high 0x1000 (2 ^ 8) psp_sysmem_reset = Some h \<and>
    (if l = 0 then h = 0 \<and> (\<forall>c. \<not> fits psp_sysmem_reset (unat (0x1000 :: u32)) (2 ^ 8) c)
     else fits psp_sysmem_reset (unat (0x1000 :: u32)) (2 ^ 8) (unat l) \<and>
       fits psp_sysmem_reset (unat (0x1000 :: u32)) (2 ^ 8) (unat h) \<and>
       (\<forall>c. fits psp_sysmem_reset (unat (0x1000 :: u32)) (2 ^ 8) c \<longrightarrow> unat l \<le> c \<and> c \<le> unat h))"
  by (rule place_lowest_highest_fit [OF sysmem_inv_reset]) simp_all

text \<open>
  C10. An allocation request always returns, and keeps the heap invariant: blocks in use stay inside
  the heap, pairwise disjoint, with distinct UIDs. On success the result is the fresh UID, which from
  then on resolves to the head of a block at least as large as asked for that overlaps no block in
  use before; otherwise the heap is unchanged and the result is one of the two error codes. This is for
  requests whose 32-bit sums cannot wrap: a size of at most \<open>0xDFFFFF00\<close> bytes and, where the request
  names an address or an alignment, one of at most \<open>2 ^ 28\<close>, the top of guest RAM. Beyond these bounds
  the claim is false of the code (\<open>sysmem_huge_request_wraps\<close>).
\<close>
theorem hle_AllocPartitionMemory_sound:
  assumes "sysmem_inv S" and "g_next_uid S < 0xFFFFFFFF"
    and "fst (psp_arg 3 M) \<le> 0xDFFFFF00"
    and "fst (psp_arg 2 M) \<in> {PSP_SMEM_Addr, PSP_SMEM_LowAligned, PSP_SMEM_HighAligned} \<Longrightarrow>
      fst (psp_arg 4 M) \<le> 2 ^ 28"
  shows "\<exists>S' M'. hle_AllocPartitionMemory (S, M) = Some (S', M') \<and> sysmem_inv S' \<and>
    (S' = S \<and> (M' = psp_ret SCE_KERNEL_ERROR_ILLEGAL_ATTR M \<or> M' = psp_ret SCE_KERNEL_ERROR_NO_MEMORY M) \<or>
     (\<exists>i M1. M' = psp_ret (g_next_uid S) M1 \<and> store (mem M1) = store (mem M) \<and>
        find_uid (g_next_uid S) S' = Some i \<and>
        unat (fst (psp_arg 3 M)) \<le> unat (b_size (g_block S' ! i)) \<and>
        fits S (unat (b_size (g_block S' ! i))) 1 (unat (b_addr (g_block S' ! i)))))"
proof -
  let ?type = "fst (psp_arg 2 M)" and ?want = "fst (psp_arg 4 M)" and ?sz = "round_size (fst (psp_arg 3 M))"
  have le: "unat (fst (psp_arg 3 M)) \<le> 0xDFFFFF00" using assms(3) by (simp add: word_le_nat_alt)
  note rs = unat_round_size [OF le]
  obtain r where r: "place_request ?type ?sz ?want S = Some r"
    "case r of Inl e \<Rightarrow> e = SCE_KERNEL_ERROR_ILLEGAL_ATTR
     | Inr addr \<Rightarrow> addr = 0 \<or> (\<exists>A. fits S (unat ?sz) A (unat addr))"
    using place_request_ok [OF assms(1) rs(1,2) assms(4)] by blast
  obtain name M1 where st: "psp_str (fst (psp_arg 1 M)) 32 M = (name, M1)" by (meson surj_pair)
  have keep: "store (mem M1) = store (mem M)" using psp_str_store [of "fst (psp_arg 1 M)" 32 M] st by simp
  show ?thesis
  proof (cases r)
    case (Inl e)
    then show ?thesis using r assms(1) by (simp add: hle_AllocPartitionMemory_def Let_def)
  next
    case (Inr addr)
    show ?thesis
    proof (cases "addr = 0 \<or> take_slot addr ?sz name S = None")
      case True
      then show ?thesis using r Inr assms(1) st by (auto simp: hle_AllocPartitionMemory_def Let_def)
    next
      case False
      then obtain u S' where t: "take_slot addr ?sz name S = Some (u, S')" by auto
      obtain A where f: "fits S (unat ?sz) A (unat addr)" using r(2) Inr False by auto
      have inv': "sysmem_inv S'" by (rule take_slot_inv [OF assms(1) f rs(1) assms(2) t])
      obtain i where i: "u = g_next_uid S" "find_uid u S' = Some i" "i < length (g_block S')"
        "g_block S' ! i = \<lparr>b_uid = u, b_addr = addr, b_size = ?sz, b_name = name, b_used = True\<rparr>"
        by (rule take_slot_find [OF assms(1) t])
      have e: "hle_AllocPartitionMemory (S, M) = Some (S', psp_ret u M1)"
        using r(1) Inr False t st by (simp add: hle_AllocPartitionMemory_def Let_def)
      have f1: "fits S (unat ?sz) 1 (unat addr)" using f by (simp add: fits_def)
      show ?thesis
        by (rule exI [of _ S'], rule exI [of _ "psp_ret u M1"])
           (use e inv' i f1 keep rs(3) in auto)
    qed
  qed
qed

theorem hle_AllocPartitionMemory_sound_witness:
  "let S = psp_sysmem_reset; M = boot_machine in
   \<exists>S' M'. hle_AllocPartitionMemory (S, M) = Some (S', M') \<and> sysmem_inv S' \<and>
    (S' = S \<and> (M' = psp_ret SCE_KERNEL_ERROR_ILLEGAL_ATTR M \<or> M' = psp_ret SCE_KERNEL_ERROR_NO_MEMORY M) \<or>
     (\<exists>i M1. M' = psp_ret (g_next_uid S) M1 \<and> store (mem M1) = store (mem M) \<and>
        find_uid (g_next_uid S) S' = Some i \<and>
        unat (fst (psp_arg 3 M)) \<le> unat (b_size (g_block S' ! i)) \<and>
        fits S (unat (b_size (g_block S' ! i))) 1 (unat (b_addr (g_block S' ! i)))))"
  unfolding Let_def
  by (rule hle_AllocPartitionMemory_sound [OF sysmem_inv_reset])
     (simp_all add: psp_sysmem_reset_def psp_arg_def boot_machine_def psp_cpu_reset_def)

text \<open>
  Freeing a block by its UID keeps the invariant, forgets exactly that UID, and gives its bytes
  back to the free count; freeing an unknown UID is reported and changes nothing.
\<close>
theorem hle_FreePartitionMemory_sound:
  assumes "sysmem_inv S"
  shows "let uid = fst (psp_arg 0 M); (S', M') = hle_FreePartitionMemory (S, M) in
    sysmem_inv S' \<and> find_uid uid S' = None \<and>
    (case find_uid uid S of
       None \<Rightarrow> S' = S \<and> M' = psp_ret SCE_KERNEL_ERROR_UNKNOWN_UID M
     | Some i \<Rightarrow> M' = psp_ret SCE_KERNEL_ERROR_OK M \<and>
         psp_sysmem_free S' = psp_sysmem_free S + b_size (g_block S ! i) \<and>
         (\<forall>j. j \<noteq> i \<longrightarrow> g_block S' ! j = g_block S ! j))"
proof (cases "find_uid (fst (psp_arg 0 M)) S")
  case None
  then show ?thesis using assms by (simp add: hle_FreePartitionMemory_def)
next
  case (Some i)
  let ?u = "fst (psp_arg 0 M)" and ?S = "S\<lparr>g_block := (g_block S)[i := (g_block S ! i)\<lparr>b_used := False\<rparr>]\<rparr>"
  have i: "i < length (g_block S)" "b_used (g_block S ! i)" "b_uid (g_block S ! i) = ?u"
    using Some by (auto simp: find_uid_def dest: find_index_SomeD)
  have len: "length (g_block S) = MAX_BLOCKS" using assms by (simp add: sysmem_inv_def)
  have "find_uid ?u ?S = None"
    unfolding find_uid_def find_index_None_iff
  proof (intro ballI notI)
    fix b assume b: "b \<in> set (g_block ?S)" "b_used b \<and> b_uid b = ?u"
    then obtain j where j: "j < MAX_BLOCKS" "g_block ?S ! j = b" by (auto simp: in_set_conv_nth len)
    then have "j \<noteq> i" using b i by auto
    moreover have "g_block ?S ! j = g_block S ! j" using calculation by simp
    ultimately show False using inv_uid [OF assms j(1), of i] j(2) b i len by auto
  qed
  moreover have "psp_sysmem_free ?S = psp_sysmem_free S + b_size (g_block S ! i)"
  proof -
    let ?f = "\<lambda>bs. sum_list (map b_size (filter b_used bs))"
    have "g_block S = take i (g_block S) @ g_block S ! i # drop (Suc i) (g_block S)"
      using i(1) by (rule id_take_nth_drop)
    then have "?f (g_block S) = ?f (take i (g_block S) @ g_block S ! i # drop (Suc i) (g_block S))"
      by simp
    then show ?thesis using i by (simp add: psp_sysmem_free_def upd_conv_take_nth_drop)
  qed
  ultimately show ?thesis using Some release_inv [OF assms i(1)]
    by (simp add: hle_FreePartitionMemory_def Let_def)
qed

theorem hle_FreePartitionMemory_sound_witness:
  "let S = psp_sysmem_reset; M = boot_machine; uid = fst (psp_arg 0 M);
       (S', M') = hle_FreePartitionMemory (S, M) in
    sysmem_inv S' \<and> find_uid uid S' = None \<and>
    (case find_uid uid S of
       None \<Rightarrow> S' = S \<and> M' = psp_ret SCE_KERNEL_ERROR_UNKNOWN_UID M
     | Some i \<Rightarrow> M' = psp_ret SCE_KERNEL_ERROR_OK M \<and>
         psp_sysmem_free S' = psp_sysmem_free S + b_size (g_block S ! i) \<and>
         (\<forall>j. j \<noteq> i \<longrightarrow> g_block S' ! j = g_block S ! j))"
  using hle_FreePartitionMemory_sound [OF sysmem_inv_reset, of boot_machine] unfolding Let_def .

text \<open>
  Outside those size bounds the 32-bit sums wrap: a request for almost 4 GiB is rounded to a
  single 256-byte granule, a request for 256 bytes at the address \<open>0xFFFFFF00\<close>, above the heap, is
  granted there, since its end wraps to 0, and a low request of \<open>0xF8000000\<close> bytes is placed at the bottom of the
  20 MiB heap, where the high search refuses it.
\<close>
theorem sysmem_huge_request_wraps:
  "round_size 0xFFFFFF80 = 0x100 \<and>
   place_request PSP_SMEM_Addr (round_size 0x100) 0xFFFFFF00 psp_sysmem_reset = Some (Inr 0xFFFFFF00) \<and>
   g_heap_hi psp_sysmem_reset < 0xFFFFFF00 \<and>
   place_low 0xF8000000 0x100 psp_sysmem_reset = Some DEFAULT_HEAP_LO \<and>
   place_high 0xF8000000 0x100 psp_sysmem_reset = Some 0"
proof -
  have no: "\<not> overlaps a z psp_sysmem_reset" for a z
    by (simp add: overlaps_def list_ex_iff psp_sysmem_reset_def hits_def free_block_def)
  then have one: "low_loop psp_sysmem_reset sz al (Suc n) a =
      (if a + sz \<le> g_heap_hi psp_sysmem_reset then Some a else Some 0)" for sz al n a by simp
  have "MAX_BLOCKS + 1 = Suc MAX_BLOCKS" by simp
  then show ?thesis unfolding place_low_def place_high_def
    using no [of "0xFFFFFF00" "0x100"]
    by (simp only: one) (simp add: round_size_def align_up_def psp_sysmem_reset_def place_request_def Let_def)
qed

end
