(* ===== verification/Sha1.thy ===== *)
theory Sha1
  imports Prelude
begin

unbundle bit_operations_syntax

text \<open>
  SHA-1 and the NID of a firmware function, \<^verbatim>\<open>tools/allegrexrecomp/crypto/sha1.c\<close>. The routine
  hashes the whole blocks of its input in place and assembles the last one or two blocks in a
  128-byte buffer; the reference definition pads the message and folds over its blocks.
\<close>

section \<open>The compression function\<close>

type_synonym sha_state = "u32 \<times> u32 \<times> u32 \<times> u32 \<times> u32"

definition rotl :: "u32 \<Rightarrow> nat \<Rightarrow> u32" where
  "rotl v n = push_bit n v OR drop_bit (32 - n) v"

definition be32 :: "u8 list \<Rightarrow> nat \<Rightarrow> u32" where
  "be32 b i = push_bit 24 (ucast (b ! (i * 4))) OR push_bit 16 (ucast (b ! (i * 4 + 1))) OR
     push_bit 8 (ucast (b ! (i * 4 + 2))) OR ucast (b ! (i * 4 + 3))"

definition extend_w :: "nat \<Rightarrow> u32 list \<Rightarrow> u32 list" where
  "extend_w i w = w @ [rotl (w ! (i - 3) XOR w ! (i - 8) XOR w ! (i - 14) XOR w ! (i - 16)) 1]"

definition schedule :: "u8 list \<Rightarrow> u32 list" where
  "schedule block = fold extend_w [16..<80] (map (be32 block) [0..<16])"

definition sha1_step :: "u32 list \<Rightarrow> nat \<Rightarrow> sha_state \<Rightarrow> sha_state" where
  "sha1_step w i s =
     (let (a, b, c, d, e) = s;
          (f, k) = (if i < 20 then ((b AND c) OR (NOT b AND d), 0x5A827999)
                    else if i < 40 then (b XOR c XOR d, 0x6ED9EBA1)
                    else if i < 60 then ((b AND c) OR (b AND d) OR (c AND d), 0x8F1BBCDC)
                    else (b XOR c XOR d, 0xCA62C1D6));
          t = rotl a 5 + f + e + k + w ! i
      in (t, a, rotl b 30, c, d))"

definition sha1_block :: "sha_state \<Rightarrow> u8 list \<Rightarrow> sha_state" where
  "sha1_block h block =
     (let w = schedule block; (h0, h1, h2, h3, h4) = h;
          (a, b, c, d, e) = fold (sha1_step w) [0..<80] h
      in (h0 + a, h1 + b, h2 + c, h3 + d, h4 + e))"

definition sha1_init :: sha_state where
  "sha1_init = (0x67452301, 0xEFCDAB89, 0x98BADCFE, 0x10325476, 0xC3D2E1F0)"

section \<open>The hash\<close>

definition be_bytes32 :: "u32 \<Rightarrow> u8 list" where
  "be_bytes32 x = [ucast (drop_bit 24 x), ucast (drop_bit 16 x), ucast (drop_bit 8 x), ucast x]"

definition digest_bytes :: "sha_state \<Rightarrow> u8 list" where
  "digest_bytes h = (let (h0, h1, h2, h3, h4) = h in
     be_bytes32 h0 @ be_bytes32 h1 @ be_bytes32 h2 @ be_bytes32 h3 @ be_bytes32 h4)"

text \<open>
  The final blocks: a 128-byte buffer of which the first \<open>total\<close> bytes are defined. The bit length
  is written byte by byte from the end.
\<close>

definition sha1_tail :: "u8 list \<Rightarrow> u8 list" where
  "sha1_tail p =
     (let len = length p; full = len div 64; rem = len - full * 64;
          total = (if rem + 1 \<le> 56 then 64 else 128);
          tail = drop (full * 64) p @ [0x80] @ replicate (total - rem - 1) 0;
          bits = of_nat len * 8 :: u64
      in fold (\<lambda>i t. t[total - 1 - i := ucast (drop_bit (8 * i) bits)]) [0..<8] tail)"

definition sha1 :: "u8 list \<Rightarrow> u8 list" where
  "sha1 p =
     (let full = length p div 64;
          h = fold (\<lambda>i h. sha1_block h (take 64 (drop (i * 64) p))) [0..<full] sha1_init;
          tail = sha1_tail p;
          h1 = sha1_block h (take 64 tail);
          h2 = (if length tail = 128 then sha1_block h1 (drop 64 tail) else h1)
      in digest_bytes h2)"

text \<open>The characters of a name as bytes, and the little-endian head of the digest.\<close>

definition psp_nid :: "u8 list \<Rightarrow> u32" where
  "psp_nid name =
     (let d = sha1 name
      in ucast (d ! 0) OR push_bit 8 (ucast (d ! 1)) OR push_bit 16 (ucast (d ! 2)) OR
         push_bit 24 (ucast (d ! 3)))"

section \<open>The standard\<close>

text \<open>
  SHA-1 as FIPS 180-4 states it, apart from the code: the functions and constants of sections 4.1.1 and
  4.2.1, the padding of 5.1.1 and the computation of 6.1.2, over the library's rotation and its
  conversions between words and lists of bytes. \<open>fips_W M t\<close> is the message schedule as the recursion the
  standard gives, \<open>fips_round M t\<close> the working variables after \<open>t\<close> rounds.
\<close>

fun chunks :: "nat \<Rightarrow> 'a list \<Rightarrow> 'a list list" where
  "chunks n xs = (if xs = [] \<or> n = 0 then [] else take n xs # chunks n (drop n xs))"

declare chunks.simps [simp del]

definition fips_Ch :: "u32 \<Rightarrow> u32 \<Rightarrow> u32 \<Rightarrow> u32" where
  "fips_Ch x y z = (x AND y) XOR (NOT x AND z)"

definition fips_Parity :: "u32 \<Rightarrow> u32 \<Rightarrow> u32 \<Rightarrow> u32" where
  "fips_Parity x y z = x XOR y XOR z"

definition fips_Maj :: "u32 \<Rightarrow> u32 \<Rightarrow> u32 \<Rightarrow> u32" where
  "fips_Maj x y z = (x AND y) XOR (x AND z) XOR (y AND z)"

definition fips_f :: "nat \<Rightarrow> u32 \<Rightarrow> u32 \<Rightarrow> u32 \<Rightarrow> u32" where
  "fips_f t = [fips_Ch, fips_Parity, fips_Maj, fips_Parity] ! (t div 20)"

definition fips_K :: "nat \<Rightarrow> u32" where
  "fips_K t = [0x5a827999, 0x6ed9eba1, 0x8f1bbcdc, 0xca62c1d6] ! (t div 20)"

definition fips_H0 :: sha_state where
  "fips_H0 = (0x67452301, 0xefcdab89, 0x98badcfe, 0x10325476, 0xc3d2e1f0)"

fun fips_W :: "(nat \<Rightarrow> u32) \<Rightarrow> nat \<Rightarrow> u32" where
  "fips_W M t =
     (if t < 16 then M t
      else word_rotl 1 (fips_W M (t - 3) XOR fips_W M (t - 8) XOR fips_W M (t - 14) XOR fips_W M (t - 16)))"

declare fips_W.simps [simp del]

primrec fips_round :: "(nat \<Rightarrow> u32) \<Rightarrow> nat \<Rightarrow> sha_state \<Rightarrow> sha_state" where
  "fips_round M 0 s = s"
| "fips_round M (Suc t) s =
     (case fips_round M t s of (a, b, c, d, e) \<Rightarrow>
        (word_rotl 5 a + fips_f t b c d + e + fips_K t + fips_W M t, a, word_rotl 30 b, c, d))"

text \<open>The words of a block of 64 bytes, and one step of the hash computation.\<close>

definition fips_M :: "u8 list \<Rightarrow> nat \<Rightarrow> u32" where
  "fips_M block t = word_rcat (take 4 (drop (4 * t) block))"

definition fips_hash :: "sha_state \<Rightarrow> u8 list \<Rightarrow> sha_state" where
  "fips_hash H block =
     (case (H, fips_round (fips_M block) 80 H) of ((h0, h1, h2, h3, h4), (a, b, c, d, e)) \<Rightarrow>
        (a + h0, b + h1, c + h2, d + h3, e + h4))"

text \<open>
  The octets of a word, most significant first; the padding: the bit 1, then the least number of zero bits
  that makes the length 448 modulo 512, here in octets, then the bit length of the message as 64 bits.
\<close>

definition fips_octets :: "nat \<Rightarrow> 'a::len word \<Rightarrow> u8 list" where
  "fips_octets n x = map (\<lambda>i. of_nat (unat x div 256 ^ (n - 1 - i))) [0..<n]"

definition fips_pad :: "u8 list \<Rightarrow> u8 list" where
  "fips_pad p =
     p @ 0x80 # replicate (nat ((55 - int (length p)) mod 64)) 0 @ fips_octets 8 (of_nat (8 * length p) :: u64)"

definition fips_sha1 :: "u8 list \<Rightarrow> u8 list" where
  "fips_sha1 p =
     (case foldl fips_hash fips_H0 (chunks 64 (fips_pad p)) of (h0, h1, h2, h3, h4) \<Rightarrow>
        concat (map (fips_octets 4) [h0, h1, h2, h3, h4]))"

section \<open>Equivalence\<close>

definition be_bytes64 :: "u64 \<Rightarrow> u8 list" where
  "be_bytes64 x = map (\<lambda>i. ucast (drop_bit (8 * (7 - i)) x)) [0..<8]"

definition sha1_pad :: "u8 list \<Rightarrow> u8 list" where
  "sha1_pad p =
     (let k = (if length p mod 64 + 1 \<le> 56 then 55 - length p mod 64 else 119 - length p mod 64)
      in p @ [0x80] @ replicate k 0 @ be_bytes64 (of_nat (length p) * 8))"

lemma chunks_append:
  assumes "length xs = n" "0 < n"
  shows "chunks n (xs @ ys) = xs # chunks n ys"
  using assms by (subst chunks.simps) auto

lemma chunks_single: "length xs = n \<Longrightarrow> 0 < n \<Longrightarrow> chunks n xs = [xs]"
  using chunks_append [of xs n "[]"] by (simp add: chunks.simps)

lemma chunks_blocks:
  assumes "0 < n" and "length p = k * n"
  shows "chunks n (p @ ys) = map (\<lambda>i. take n (drop (i * n) p)) [0..<k] @ chunks n ys"
  using assms(2)
proof (induction k arbitrary: p)
  case (Suc k)
  have p: "p = take n p @ drop n p" by simp
  have "chunks n (p @ ys) = take n p # chunks n (drop n p @ ys)"
    using Suc.prems assms(1) by (subst p, subst append_assoc, intro chunks_append) simp_all
  also have "\<dots> = take n p # map (\<lambda>i. take n (drop (i * n) (drop n p))) [0..<k] @ chunks n ys"
    using Suc.IH [of "drop n p"] Suc.prems by simp
  also have "\<dots> = map (\<lambda>i. take n (drop (i * n) p)) [0..<Suc k] @ chunks n ys"
    by (simp only: upt_conv_Cons [of 0 "Suc k"] map_Suc_upt [symmetric] zero_less_Suc)
       (simp add: add.commute)
  finally show ?case .
qed simp

lemma fold_update_tail:
  fixes f :: "nat \<Rightarrow> 'a"
  assumes "length ys = 8"
  shows "fold (\<lambda>i t. t[length xs + 7 - i := f i]) [0..<8] (xs @ ys) = xs @ map (\<lambda>i. f (7 - i)) [0..<8]"
proof -
  obtain a b c d e g h i where "ys = [a, b, c, d, e, g, h, i]"
    using assms by (auto simp: length_Suc_conv eval_nat_numeral)
  then show ?thesis by (simp add: upt_rec list_update_append) (simp add: eval_nat_numeral)
qed

lemma sha1_tail_pad:
  fixes p :: "u8 list"
  shows "sha1_pad p = take (length p div 64 * 64) p @ sha1_tail p"
    and "length (sha1_tail p) = (if length p mod 64 + 1 \<le> 56 then 64 else 128)"
proof -
  let ?f = "length p div 64 * 64"
  define total where "total = (if length p mod 64 + 1 \<le> 56 then 64 else 128 :: nat)"
  define k where "k = total - 9 - length p mod 64"
  have rem: "length p - ?f = length p mod 64" by (simp add: minus_div_mult_eq_mod)
  have r64: "length p mod 64 < 64" by simp
  have kt: "total - length p mod 64 - 1 = k + 8" and tot: "total - 1 = length p mod 64 + 1 + k + 7"
    using r64 by (auto simp: total_def k_def)
  let ?xs = "drop ?f p @ [0x80] @ replicate k (0 :: u8)"
  have lx: "length ?xs = length p mod 64 + 1 + k" using rem by simp
  have "sha1_tail p = fold (\<lambda>i t. t[length ?xs + 7 - i := ucast (drop_bit (8 * i) (of_nat (length p) * 8 :: u64))])
      [0..<8] (?xs @ replicate 8 0)"
    unfolding sha1_tail_def Let_def rem total_def [symmetric] kt lx tot
    by (simp add: replicate_add)
  also have "\<dots> = ?xs @ map (\<lambda>i. ucast (drop_bit (8 * (7 - i)) (of_nat (length p) * 8 :: u64))) [0..<8]"
    by (rule fold_update_tail) simp
  finally have t: "sha1_tail p = ?xs @ be_bytes64 (of_nat (length p) * 8)" by (simp add: be_bytes64_def)
  have k: "k = (if length p mod 64 + 1 \<le> 56 then 55 - length p mod 64 else 119 - length p mod 64)"
    by (simp add: k_def total_def)
  show "sha1_pad p = take ?f p @ sha1_tail p"
    unfolding t sha1_pad_def Let_def k [symmetric] by simp
  show "length (sha1_tail p) = (if length p mod 64 + 1 \<le> 56 then 64 else 128)"
    unfolding t total_def [symmetric] using lx tot r64 by (simp add: be_bytes64_def total_def split: if_splits)
qed

text \<open>Hashing the whole blocks in place and then the buffer is hashing the blocks of the padded message.\<close>

lemma sha1_blocks:
  "sha1 p = digest_bytes (foldl sha1_block sha1_init (chunks 64 (sha1_pad p)))"
    "length (sha1_pad p) mod 64 = 0" "length (sha1 p) = 20"
proof -
  let ?f = "length p div 64" and ?q = "take (length p div 64 * 64) p"
  define h where "h = fold (\<lambda>i h. sha1_block h (take 64 (drop (i * 64) p))) [0..<?f] sha1_init"
  have lq: "length ?q = ?f * 64" by simp
  have blk: "take 64 (drop (i * 64) ?q) = take 64 (drop (i * 64) p)" if "i < ?f" for i
  proof -
    have "i * 64 + 64 \<le> ?f * 64" using that by linarith
    then show ?thesis by (simp add: drop_take min_def)
  qed
  have fold_h: "foldl sha1_block sha1_init (map (\<lambda>i. take 64 (drop (i * 64) ?q)) [0..<?f]) = h"
    unfolding h_def foldl_conv_fold fold_map comp_def by (intro fold_cong) (simp_all add: blk)
  note tl = sha1_tail_pad [of p]
  have ch: "chunks 64 (sha1_tail p) = (if length (sha1_tail p) = 128
      then [take 64 (sha1_tail p), drop 64 (sha1_tail p)] else [take 64 (sha1_tail p)])"
  proof (cases "length (sha1_tail p) = 128")
    case True
    have "chunks 64 (take 64 (sha1_tail p) @ drop 64 (sha1_tail p)) =
        take 64 (sha1_tail p) # chunks 64 (drop 64 (sha1_tail p))"
      using True by (intro chunks_append) simp_all
    then show ?thesis using True by (simp add: chunks_single)
  next
    case False
    then have "length (sha1_tail p) = 64" using tl(2) by (simp split: if_splits)
    then show ?thesis by (simp add: chunks_single)
  qed
  have "digest_bytes (foldl sha1_block sha1_init (chunks 64 (sha1_pad p))) =
      digest_bytes (foldl sha1_block h (chunks 64 (sha1_tail p)))"
    unfolding tl(1) by (subst chunks_blocks [OF _ lq]) (simp_all add: fold_h)
  then show "sha1 p = digest_bytes (foldl sha1_block sha1_init (chunks 64 (sha1_pad p)))"
    unfolding sha1_def Let_def h_def [symmetric] ch by simp
  show "length (sha1_pad p) mod 64 = 0"
    unfolding tl(1) length_append lq tl(2) by simp
  show "length (sha1 p) = 20"
    unfolding sha1_def Let_def digest_bytes_def be_bytes32_def by (simp add: case_prod_unfold)
qed

section \<open>The code against the standard\<close>

lemma rotl_word_rotl: "0 < n \<Longrightarrow> n < 32 \<Longrightarrow> rotl v n = word_rotl n v"
proof (rule word_bitI)
  fix k assume n: "0 < n" "n < 32" and "k < LENGTH(32)"
  then have k: "k < 32" by simp
  have out: "\<not> bit v j" if "32 \<le> j" for j using that bit_imp_le_length [of v j] by auto
  show "bit (rotl v n) k = bit (word_rotl n v) k"
  proof (cases "k < n")
    case True
    then have "(k + (32 - n)) mod 32 = 32 - n + k" using n by simp
    then show ?thesis using True n k by (simp add: rotl_def bit_simps)
  next
    case False
    then have "(k + (32 - n)) mod 32 = k - n" using n k by (simp add: mod_if)
    then show ?thesis using False n k out [of "32 - n + k"] by (simp add: rotl_def bit_simps)
  qed
qed

lemma u8_out: "8 \<le> n \<Longrightarrow> \<not> bit (x :: u8) n"
  using bit_imp_le_length [of x n] by auto

lemma bit_rcat: "bit (word_rcat (xs :: u8 list) :: u32) n \<longleftrightarrow> n < 32 \<and> n div 8 < length xs \<and> bit (rev xs ! (n div 8)) (n mod 8)"
  unfolding word_rcat_def comp_def bit_word_of_int_iff bit_horner_sum_uint_exp_iff by simp

lemma rcat_4: "(word_rcat [a, b, c, d :: u8] :: u32) =
    push_bit 24 (ucast a) OR push_bit 16 (ucast b) OR push_bit 8 (ucast c) OR ucast d"
  by (rule u32_bitI_cases, elim insertE emptyE) (simp_all add: bit_rcat bit_simps u8_out)

lemma take_4: "k + 4 \<le> length xs \<Longrightarrow> take 4 (drop k xs) = [xs ! k, xs ! (k + 1), xs ! (k + 2), xs ! (k + 3)]"
  by (rule nth_equalityI) (auto simp: less_Suc_eq eval_nat_numeral)

lemma be32_fips: "i < 16 \<Longrightarrow> length block = 64 \<Longrightarrow> be32 block i = fips_M block i"
  by (simp add: be32_def fips_M_def take_4 rcat_4 mult.commute)

lemma fips_W_cong: "(\<And>i. i < 16 \<Longrightarrow> M i = N i) \<Longrightarrow> fips_W M t = fips_W N t"
proof (induction t rule: less_induct)
  case (less t)
  then show ?case by (cases "t < 16") (simp_all add: fips_W.simps [of _ t])
qed

lemma schedule_fips: "fold extend_w [16..<16 + n] (map M [0..<16]) = map (fips_W M) [0..<16 + n]"
proof (induction n)
  case 0
  show ?case by (simp add: fips_W.simps)
next
  case (Suc n)
  let ?t = "16 + n"
  have u: "[16..<16 + Suc n] = [16..<?t] @ [?t]" "[0..<16 + Suc n] = [0..<?t] @ [?t]"
    by (simp_all only: add_Suc_right upt_Suc_append le_add1 le0)
  have "fold extend_w [16..<16 + Suc n] (map M [0..<16]) = extend_w ?t (map (fips_W M) [0..<?t])"
    unfolding u(1) using Suc by simp
  also have "\<dots> = map (fips_W M) [0..<?t] @ [fips_W M ?t]"
    by (simp add: extend_w_def rotl_word_rotl fips_W.simps [of M "16 + n"])
  finally show ?case unfolding u(2) by simp
qed

lemma schedule_nth:
  assumes "length block = 64" "t < 80"
  shows "schedule block ! t = fips_W (fips_M block) t"
proof -
  have "schedule block = map (fips_W (be32 block)) [0..<16 + 64]"
    unfolding schedule_def using schedule_fips [of 64 "be32 block"] by simp
  then have "schedule block ! t = fips_W (be32 block) t" using assms(2) by simp
  also have "\<dots> = fips_W (fips_M block) t" by (rule fips_W_cong) (simp add: be32_fips assms(1))
  finally show ?thesis .
qed

lemma f_fips: "(b AND c) OR (NOT b AND d) = fips_Ch b c d" "(b AND c) OR (b AND d) OR (c AND d) = fips_Maj b c d"
  by (rule word_bitI, auto simp: fips_Ch_def fips_Maj_def bit_simps)+

lemma step_fips:
  assumes "t < 80"
  shows "sha1_step w t (a, b, c, d, e) =
    (word_rotl 5 a + fips_f t b c d + e + fips_K t + w ! t, a, word_rotl 30 b, c, d)"
proof -
  consider "t < 20" | "20 \<le> t" "t < 40" | "40 \<le> t" "t < 60" | "60 \<le> t" by linarith
  then have "t div 20 = (if t < 20 then 0 else if t < 40 then 1 else if t < 60 then 2 else 3)"
    using assms by (auto simp: div_nat_eqI)
  then show ?thesis
    by (simp add: sha1_step_def f_fips fips_f_def fips_K_def fips_Parity_def rotl_word_rotl)
qed

lemma rounds_fips:
  assumes w: "\<And>t. t < 80 \<Longrightarrow> w ! t = fips_W M t"
  shows "n \<le> 80 \<Longrightarrow> fold (sha1_step w) [0..<n] s = fips_round M n s"
proof (induction n)
  case (Suc n)
  obtain a b c d e where r: "fips_round M n s = (a, b, c, d, e)" by (metis prod.exhaust)
  then have "fold (sha1_step w) [0..<n] s = (a, b, c, d, e)" using Suc by simp
  then show ?case using Suc.prems r step_fips [of n w a b c d e] w [of n] by simp
qed simp

lemma block_fips: "length block = 64 \<Longrightarrow> sha1_block h block = fips_hash h block"
  using rounds_fips [of "schedule block" "fips_M block" 80 h] schedule_nth [of block]
  by (simp add: sha1_block_def fips_hash_def Let_def add.commute split: prod.split)

lemma octets: "be_bytes32 x = fips_octets 4 x" "be_bytes64 y = fips_octets 8 y"
proof -
  have d: "(ucast (drop_bit k w) :: u8) = of_nat (unat w div 2 ^ k)" for k and w :: "'a::len word"
  proof -
    have "(of_nat (unat (drop_bit k w)) :: u8) = ucast (drop_bit k w)" by (rule of_nat_unat)
    then show ?thesis by (simp only: unat_drop_bit_eq drop_bit_eq_div [where ?'a = nat])
  qed
  have p: "256 ^ n = (2 :: nat) ^ (8 * n)" for n by (simp add: power_mult)
  have l: "[0..<4] = [0, 1, 2, 3 :: nat]" by (simp add: upt_rec)
  show "be_bytes32 x = fips_octets 4 x" unfolding be_bytes32_def fips_octets_def l d by simp
  show "be_bytes64 y = fips_octets 8 y" by (simp add: be_bytes64_def fips_octets_def d p)
qed

lemma pad_fips: "sha1_pad p = fips_pad p"
proof -
  have m: "nat ((55 - int m) mod 64) = (if m + 1 \<le> 56 then 55 - m else 119 - m)" if "m < 64" for m
  proof (cases "m + 1 \<le> 56")
    case False
    have "(55 - int m) mod 64 = (119 - int m) mod 64" using mod_add_self2 [of "55 - int m" 64] by simp
    then show ?thesis using False that by simp
  qed simp
  have "int (length p) mod 64 = int (length p mod 64)" by (simp add: zmod_int)
  then have "(55 - int (length p)) mod 64 = (55 - int (length p mod 64)) mod 64" by (metis mod_diff_right_eq)
  then have "nat ((55 - int (length p)) mod 64) =
      (if length p mod 64 + 1 \<le> 56 then 55 - length p mod 64 else 119 - length p mod 64)"
    using m [of "length p mod 64"] by simp
  then show ?thesis unfolding sha1_pad_def fips_pad_def Let_def octets by (simp add: mult.commute)
qed

lemma chunks_lengths: "length xs mod n = 0 \<Longrightarrow> b \<in> set (chunks n xs) \<Longrightarrow> length b = n"
proof (induction n xs rule: chunks.induct)
  case (1 n xs)
  show ?case
  proof (cases "xs = [] \<or> n = 0")
    case True
    then show ?thesis using "1.prems"(2) by (simp add: chunks.simps)
  next
    case False
    then have "n \<le> length xs" using "1.prems"(1) by (metis mod_less length_0_conv not_le_imp_less)
    moreover from this have "length (drop n xs) mod n = 0" using "1.prems"(1) by (simp add: le_mod_geq)
    ultimately show ?thesis using "1.IH" [OF False] "1.prems"(2) False by (auto simp: chunks.simps [of n xs])
  qed
qed

text \<open>
  C31. The routine computes SHA-1 as FIPS 180-4 defines it, for messages of every length: its 80-word
  schedule, its rounds, constants and initial value, its big-endian reading and writing, and its
  handling of the last one or two blocks agree with the standard's functions, padding and iteration.
\<close>
theorem sha1_is_reference: "sha1 p = fips_sha1 p \<and> length (sha1 p) = 20"
proof -
  have "length b = 64" if "b \<in> set (chunks 64 (sha1_pad p))" for b
    by (rule chunks_lengths [OF sha1_blocks(2) that])
  then have "foldl sha1_block sha1_init (chunks 64 (sha1_pad p)) = foldl fips_hash sha1_init (chunks 64 (sha1_pad p))"
    by (intro foldl_cong) (simp_all add: block_fips)
  moreover have "sha1_init = fips_H0" by (simp add: sha1_init_def fips_H0_def)
  ultimately have "sha1 p = digest_bytes (foldl fips_hash fips_H0 (chunks 64 (fips_pad p)))"
    unfolding sha1_blocks(1) pad_fips by simp
  then have "sha1 p = fips_sha1 p" by (simp add: fips_sha1_def digest_bytes_def octets split: prod.split)
  then show ?thesis using sha1_blocks(3) [of p] by blast
qed

end
