(* ===== verification/Aes.thy ===== *)
theory Aes
  imports Prelude
begin

unbundle bit_operations_syntax

text \<open>
  AES, \<^verbatim>\<open>tools/allegrexrecomp/crypto/aes.c\<close>: arithmetic in GF(2^8), the S-box derived at start-up by
  exhaustive search, key expansion, the block cipher in both directions and CBC. The state is the
  list of its sixteen bytes; \<^verbatim>\<open>build_tables\<close> runs once, so its tables are constants.

  The lemmas develop the field arithmetic far enough to show that the search finds every inverse,
  that the derived tables are inverse to each other, and that decryption undoes encryption.
\<close>

section \<open>GF(2^8)\<close>

definition xtime :: "u8 \<Rightarrow> u8" where
  "xtime a = (if a AND 0x80 \<noteq> 0 then push_bit 1 a XOR 0x1B else push_bit 1 a)"

primrec gmul_loop :: "nat \<Rightarrow> u8 \<Rightarrow> u8 \<Rightarrow> u8 \<Rightarrow> u8" where
  "gmul_loop 0 a b p = p"
| "gmul_loop (Suc n) a b p =
     gmul_loop n (xtime a) (drop_bit 1 b) (if b AND 1 \<noteq> 0 then p XOR a else p)"

definition gmul :: "u8 \<Rightarrow> u8 \<Rightarrow> u8" where
  "gmul a b = gmul_loop 8 a b 0"

section \<open>The S-box\<close>

definition rotl8 :: "u8 \<Rightarrow> nat \<Rightarrow> u8" where
  "rotl8 x n = push_bit n x OR drop_bit (8 - n) x"

text \<open>The inverse of \<open>a\<close>: the first \<open>b\<close> from 1 up whose product with it is 1.\<close>

definition inv_search :: "u8 \<Rightarrow> u8" where
  "inv_search a = (if a = 0 then 0
     else case find (\<lambda>b. gmul a b = 1) (map of_nat [1..<256]) of Some b \<Rightarrow> b | None \<Rightarrow> 0)"

definition affine :: "u8 \<Rightarrow> u8" where
  "affine b = (b XOR rotl8 b 1 XOR rotl8 b 2 XOR rotl8 b 3 XOR rotl8 b 4 XOR 0x63)"

definition SBOX :: "u8 list" where
  "SBOX = map (\<lambda>i. affine (inv_search (of_nat i))) [0..<256]"

definition INV_SBOX :: "u8 list" where
  "INV_SBOX = fold (\<lambda>i t. t[unat (SBOX ! i) := of_nat i]) [0..<256] (replicate 256 0)"

section \<open>Key expansion\<close>

record aes_ctx =
  rk :: "u32 list"
  rounds :: nat

definition sub_word :: "u32 \<Rightarrow> u32" where
  "sub_word w =
     (push_bit 24 (ucast (SBOX ! unat (drop_bit 24 w AND 0xFF))) OR
      push_bit 16 (ucast (SBOX ! unat (drop_bit 16 w AND 0xFF))) OR
      push_bit 8 (ucast (SBOX ! unat (drop_bit 8 w AND 0xFF))) OR
      ucast (SBOX ! unat (w AND 0xFF)))"

definition rot_word :: "u32 \<Rightarrow> u32" where
  "rot_word w = push_bit 8 w OR drop_bit 24 w"

definition key_word :: "u8 list \<Rightarrow> nat \<Rightarrow> u32" where
  "key_word key i =
     (push_bit 24 (ucast (key ! (4 * i))) OR push_bit 16 (ucast (key ! (4 * i + 1))) OR
      push_bit 8 (ucast (key ! (4 * i + 2))) OR ucast (key ! (4 * i + 3)))"

text \<open>One step of the expansion loop, on the words so far and \<^verbatim>\<open>rcon\<close>.\<close>

definition expand_step :: "nat \<Rightarrow> nat \<Rightarrow> u32 list \<times> u8 \<Rightarrow> u32 list \<times> u8" where
  "expand_step nk i s =
     (let (w, rcon) = s; temp = w ! (i - 1);
          (temp', rcon') =
            (if i mod nk = 0
             then (sub_word (rot_word temp) XOR push_bit 24 (ucast rcon), gmul rcon 2)
             else if nk > 6 \<and> i mod nk = 4 then (sub_word temp, rcon)
             else (temp, rcon))
      in (w @ [w ! (i - nk) XOR temp'], rcon'))"

definition aes_init :: "u8 list \<Rightarrow> nat \<Rightarrow> aes_ctx option" where
  "aes_init key key_bits =
     (case (if key_bits = 128 then Some 4 else if key_bits = 192 then Some 6
            else if key_bits = 256 then Some 8 else None) of
        None \<Rightarrow> None
      | Some nk \<Rightarrow>
          (let r = nk + 6; total = 4 * (r + 1);
               (w, _) = fold (expand_step nk) [nk..<total] (map (key_word key) [0..<nk], 1)
           in Some \<lparr>rk = w, rounds = r\<rparr>))"

section \<open>The round functions\<close>

text \<open>\<open>add_round_key s ctx r\<close> uses the four words from \<^verbatim>\<open>ctx->rk + 4 * r\<close>.\<close>

definition add_round_key :: "aes_ctx \<Rightarrow> nat \<Rightarrow> u8 list \<Rightarrow> u8 list" where
  "add_round_key ctx r s =
     map (\<lambda>i. s ! i XOR ucast (drop_bit (24 - 8 * (i mod 4)) (rk ctx ! (4 * r + i div 4)))) [0..<16]"

definition sub_bytes :: "u8 list \<Rightarrow> u8 list" where
  "sub_bytes s = map (\<lambda>x. SBOX ! unat x) s"

definition inv_sub_bytes :: "u8 list \<Rightarrow> u8 list" where
  "inv_sub_bytes s = map (\<lambda>x. INV_SBOX ! unat x) s"

text \<open>The two nested loops over the rows 1 to 3 and the columns, as pairs \<open>(r, c)\<close> in their order.\<close>

definition row_cols :: "(nat \<times> nat) list" where
  "row_cols = [(1,0),(1,1),(1,2),(1,3),(2,0),(2,1),(2,2),(2,3),(3,0),(3,1),(3,2),(3,3)]"

definition shift_rows :: "u8 list \<Rightarrow> u8 list" where
  "shift_rows t = fold (\<lambda>(r, c) s. s[4 * c + r := t ! (4 * ((c + r) mod 4) + r)]) row_cols t"

definition inv_shift_rows :: "u8 list \<Rightarrow> u8 list" where
  "inv_shift_rows t = fold (\<lambda>(r, c) s. s[4 * ((c + r) mod 4) + r := t ! (4 * c + r)]) row_cols t"

definition mix_column :: "u8 \<Rightarrow> u8 \<Rightarrow> u8 \<Rightarrow> u8 \<Rightarrow> u8 list" where
  "mix_column a0 a1 a2 a3 =
     [gmul a0 2 XOR gmul a1 3 XOR a2 XOR a3,
      a0 XOR gmul a1 2 XOR gmul a2 3 XOR a3,
      a0 XOR a1 XOR gmul a2 2 XOR gmul a3 3,
      gmul a0 3 XOR a1 XOR a2 XOR gmul a3 2]"

definition mix_columns :: "u8 list \<Rightarrow> u8 list" where
  "mix_columns s =
     concat (map (\<lambda>c. mix_column (s ! (4 * c)) (s ! (4 * c + 1)) (s ! (4 * c + 2)) (s ! (4 * c + 3))) [0..<4])"

definition inv_mix_column :: "u8 \<Rightarrow> u8 \<Rightarrow> u8 \<Rightarrow> u8 \<Rightarrow> u8 list" where
  "inv_mix_column a0 a1 a2 a3 =
     [gmul a0 0x0E XOR gmul a1 0x0B XOR gmul a2 0x0D XOR gmul a3 0x09,
      gmul a0 0x09 XOR gmul a1 0x0E XOR gmul a2 0x0B XOR gmul a3 0x0D,
      gmul a0 0x0D XOR gmul a1 0x09 XOR gmul a2 0x0E XOR gmul a3 0x0B,
      gmul a0 0x0B XOR gmul a1 0x0D XOR gmul a2 0x09 XOR gmul a3 0x0E]"

definition inv_mix_columns :: "u8 list \<Rightarrow> u8 list" where
  "inv_mix_columns s =
     concat (map (\<lambda>c. inv_mix_column (s ! (4 * c)) (s ! (4 * c + 1)) (s ! (4 * c + 2)) (s ! (4 * c + 3))) [0..<4])"

section \<open>Block cipher and CBC\<close>

definition enc_round :: "aes_ctx \<Rightarrow> nat \<Rightarrow> u8 list \<Rightarrow> u8 list" where
  "enc_round ctx r s = add_round_key ctx r (mix_columns (shift_rows (sub_bytes s)))"

definition aes_encrypt_block :: "aes_ctx \<Rightarrow> u8 list \<Rightarrow> u8 list" where
  "aes_encrypt_block ctx s =
     add_round_key ctx (rounds ctx) (shift_rows (sub_bytes
       (fold (enc_round ctx) [1..<rounds ctx] (add_round_key ctx 0 s))))"

definition dec_round :: "aes_ctx \<Rightarrow> nat \<Rightarrow> u8 list \<Rightarrow> u8 list" where
  "dec_round ctx r s = inv_mix_columns (add_round_key ctx r (inv_sub_bytes (inv_shift_rows s)))"

definition aes_decrypt_block :: "aes_ctx \<Rightarrow> u8 list \<Rightarrow> u8 list" where
  "aes_decrypt_block ctx s =
     add_round_key ctx 0 (inv_sub_bytes (inv_shift_rows
       (fold (dec_round ctx) (rev [1..<rounds ctx]) (add_round_key ctx (rounds ctx) s))))"

definition xor_bytes :: "u8 list \<Rightarrow> u8 list \<Rightarrow> u8 list" where
  "xor_bytes xs ys = map2 (\<lambda>x y. x XOR y) xs ys"

text \<open>
  CBC over the bytes of a buffer, in place: the loop stops at the last whole block, what follows it
  is left alone.
\<close>

function aes_cbc_encrypt :: "aes_ctx \<Rightarrow> u8 list \<Rightarrow> u8 list \<Rightarrow> u8 list" where
  "aes_cbc_encrypt ctx chain buf =
     (if length buf < 16 then buf
      else let c = aes_encrypt_block ctx (xor_bytes chain (take 16 buf))
           in c @ aes_cbc_encrypt ctx c (drop 16 buf))"
  by pat_completeness auto
termination by (relation "measure (\<lambda>(_, _, buf). length buf)") auto

function aes_cbc_decrypt :: "aes_ctx \<Rightarrow> u8 list \<Rightarrow> u8 list \<Rightarrow> u8 list" where
  "aes_cbc_decrypt ctx chain buf =
     (if length buf < 16 then buf
      else let next = take 16 buf
           in xor_bytes (aes_decrypt_block ctx next) chain @ aes_cbc_decrypt ctx next (drop 16 buf))"
  by pat_completeness auto
termination by (relation "measure (\<lambda>(_, _, buf). length buf)") auto

declare aes_cbc_encrypt.simps [simp del] aes_cbc_decrypt.simps [simp del]

section \<open>Field arithmetic\<close>

abbreviation X :: "nat \<Rightarrow> u8 \<Rightarrow> u8" where "X n \<equiv> xtime ^^ n"

lemma bit_and_80: "(a :: u8) AND 0x80 \<noteq> 0 \<longleftrightarrow> bit a 7"
proof -
  have "bit (0x80 :: u8) n \<longleftrightarrow> n = 7" if "n < 8" for n
    using that by (cases n rule: nat.exhaust) (auto simp: less_Suc_eq numeral_eq_Suc bit_simps)
  then show ?thesis by (auto simp: bit_eq_iff [where ?'a = u8] bit_and_iff dest: bit_imp_le_length)
qed

lemma bit_and_1: "(b :: u8) AND 1 \<noteq> 0 \<longleftrightarrow> bit b 0"
  by (metis and_one_eq bit_0 odd_iff_mod_2_eq_one zero_neq_one even_iff_mod_2_eq_zero)

lemma xtime_bits:
  "bit (xtime a) 0 \<longleftrightarrow> bit a 7" "bit (xtime a) 1 \<longleftrightarrow> bit a 0 \<noteq> bit a 7"
  "bit (xtime a) (Suc 0) \<longleftrightarrow> bit a 0 \<noteq> bit a 7" "bit (xtime a) 2 \<longleftrightarrow> bit a 1"
  "bit (xtime a) 3 \<longleftrightarrow> bit a 2 \<noteq> bit a 7" "bit (xtime a) 4 \<longleftrightarrow> bit a 3 \<noteq> bit a 7"
  "bit (xtime a) 5 \<longleftrightarrow> bit a 4" "bit (xtime a) 6 \<longleftrightarrow> bit a 5" "bit (xtime a) 7 \<longleftrightarrow> bit a 6"
proof -
  have b: "bit (xtime a) n = ((1 \<le> n \<and> n < 8 \<and> bit a (n - 1)) \<noteq> (bit a 7 \<and> bit (0x1B :: u8) n))" for n
    unfolding xtime_def bit_and_80
    by (cases "bit a 7") (simp_all only: if_True if_False bit_xor_iff bit_push_bit_iff possible_bit_word, auto)
  show "bit (xtime a) 0 \<longleftrightarrow> bit a 7" "bit (xtime a) 1 \<longleftrightarrow> bit a 0 \<noteq> bit a 7"
    "bit (xtime a) (Suc 0) \<longleftrightarrow> bit a 0 \<noteq> bit a 7" "bit (xtime a) 2 \<longleftrightarrow> bit a 1"
    "bit (xtime a) 3 \<longleftrightarrow> bit a 2 \<noteq> bit a 7" "bit (xtime a) 4 \<longleftrightarrow> bit a 3 \<noteq> bit a 7"
    "bit (xtime a) 5 \<longleftrightarrow> bit a 4" "bit (xtime a) 6 \<longleftrightarrow> bit a 5" "bit (xtime a) 7 \<longleftrightarrow> bit a 6"
    by (simp_all add: b)
qed

lemma xtime_xor: "xtime (a XOR b) = xtime a XOR xtime b"
  by (rule u8_bitI_cases, elim insertE emptyE) (auto simp: xtime_bits bit_xor_iff)

lemma xtime_0 [simp]: "xtime 0 = 0"
  by (simp add: xtime_def)

text \<open>The reduction polynomial: \<open>x\<^sup>8 = x\<^sup>4 + x\<^sup>3 + x + 1\<close>.\<close>

lemma X_unfold:
  "X 1 a = xtime a" "X 2 a = xtime (xtime a)" "X 3 a = xtime (xtime (xtime a))"
  "X 4 a = xtime (X 3 a)" "X 5 a = xtime (X 4 a)" "X 6 a = xtime (X 5 a)"
  "X 7 a = xtime (X 6 a)" "X 8 a = xtime (X 7 a)"
  by (simp_all add: eval_nat_numeral)

lemma xtime_8: "X 8 a = X 4 a XOR X 3 a XOR xtime a XOR a"
  by (rule u8_bitI_cases, elim insertE emptyE)
     (simp_all only: X_unfold xtime_bits bit_xor_iff, auto)

definition sel :: "bool \<Rightarrow> u8 \<Rightarrow> u8" where
  "sel c x = (if c then x else 0)"

lemma sel_simps [simp]: "sel True x = x" "sel False x = 0" "sel c 0 = 0"
  by (simp_all add: sel_def)

lemma sel_xor: "sel c (x XOR y) = sel c x XOR sel c y" "sel (c \<noteq> d) x = sel c x XOR sel d x"
  by (auto simp: sel_def)

lemma xtime_sel: "xtime (sel c x) = sel c (xtime x)"
  by (simp add: sel_def)

lemma gmul_alt:
  "gmul a b = sel (bit b 0) a XOR sel (bit b 1) (X 1 a) XOR sel (bit b 2) (X 2 a) XOR
     sel (bit b 3) (X 3 a) XOR sel (bit b 4) (X 4 a) XOR sel (bit b 5) (X 5 a) XOR
     sel (bit b 6) (X 6 a) XOR sel (bit b 7) (X 7 a)"
proof -
  have p: "(if c then p XOR x else p) = p XOR sel c x" for c and p x :: u8 by (simp add: sel_def)
  have 8: "(8 :: nat) = Suc (Suc (Suc (Suc (Suc (Suc (Suc (Suc 0)))))))" by simp
  have d: "bit (drop_bit 1 y) 0 = bit y 1" "bit (drop_bit 1 y) 1 = bit y 2" "bit (drop_bit 1 y) 2 = bit y 3"
    "bit (drop_bit 1 y) 3 = bit y 4" "bit (drop_bit 1 y) 4 = bit y 5" "bit (drop_bit 1 y) 5 = bit y 6"
    "bit (drop_bit 1 y) 6 = bit y 7" for y :: u8
    by (simp_all add: bit_drop_bit_eq eval_nat_numeral)
  show ?thesis unfolding gmul_def 8 gmul_loop.simps bit_and_1 p
    by (simp only: d X_unfold xor.assoc xor.left_neutral)
qed

lemma gmul_xor_left: "gmul (a XOR b) c = gmul a c XOR gmul b c"
proof -
  have x: "X n (a XOR b) = X n a XOR X n b" for n
    by (induction n) (simp_all add: xtime_xor)
  show ?thesis unfolding gmul_alt x sel_xor by (simp only: xor.assoc xor.commute xor.left_commute)
qed

lemma gmul_xor_right: "gmul a (b XOR c) = gmul a b XOR gmul a c"
  unfolding gmul_alt bit_xor_iff sel_xor by (simp only: xor.assoc xor.commute xor.left_commute)

lemma gmul_0 [simp]: "gmul 0 b = 0" "gmul a 0 = 0"
proof -
  have "X n 0 = 0" for n by (induction n) simp_all
  then show "gmul 0 b = 0" by (simp add: gmul_alt)
  show "gmul a 0 = 0" by (simp add: gmul_alt)
qed

lemma gmul_sel: "gmul a (sel c b) = sel c (gmul a b)"
  by (simp add: sel_def)

lemma gmul_1 [simp]: "gmul a 1 = a"
  by (simp add: gmul_alt bit_1_iff)

lemma gmul_xtime_right: "gmul a (xtime b) = xtime (gmul a b)"
proof -
  have "xtime (gmul a b) = sel (bit b 0) (X 1 a) XOR sel (bit b 1) (X 2 a) XOR sel (bit b 2) (X 3 a) XOR
     sel (bit b 3) (X 4 a) XOR sel (bit b 4) (X 5 a) XOR sel (bit b 5) (X 6 a) XOR
     sel (bit b 6) (X 7 a) XOR sel (bit b 7) (X 8 a)"
    unfolding gmul_alt xtime_xor xtime_sel by (simp only: X_unfold)
  also have "\<dots> = gmul a (xtime b)"
    unfolding xtime_8 gmul_alt [of a "xtime b"] xtime_bits sel_xor
    by (simp only: X_unfold(1) xor.assoc xor.commute xor.left_commute)
  finally show ?thesis ..
qed

lemma gmul_X_right: "gmul a (X n b) = X n (gmul a b)"
  by (induction n) (simp_all add: gmul_xtime_right)

lemma gmul_assoc: "gmul a (gmul b c) = gmul (gmul a b) c"
  unfolding gmul_alt [of b c] gmul_alt [of "gmul a b" c] gmul_xor_right gmul_sel gmul_X_right ..

lemma gmul_xtime_left: "gmul (xtime a) b = xtime (gmul a b)"
proof -
  have x: "X n (xtime a) = xtime (X n a)" for n by (induction n) simp_all
  show ?thesis unfolding gmul_alt x xtime_xor xtime_sel ..
qed

lemma gmul_X_left: "gmul (X n a) b = X n (gmul a b)"
  by (induction n) (simp_all add: gmul_xtime_left)

text \<open>The powers of \<open>x\<close> are the bits, so a byte is the sum of the powers it has.\<close>

lemma X_one: "X 0 1 = 1" "X 1 1 = 2" "X 2 1 = 4" "X 3 1 = 8" "X 4 1 = 16" "X 5 1 = 32" "X 6 1 = 64"
  "X 7 1 = 128"
  by (simp_all add: eval_nat_numeral xtime_def)

lemma gmul_one_left: "gmul 1 b = b"
proof -
  have "gmul 1 b = sel (bit b 0) 1 XOR sel (bit b 1) 2 XOR sel (bit b 2) 4 XOR sel (bit b 3) 8 XOR
      sel (bit b 4) 16 XOR sel (bit b 5) 32 XOR sel (bit b 6) 64 XOR sel (bit b 7) 128"
    unfolding gmul_alt X_one ..
  also have "\<dots> = b"
    by (rule u8_bitI_cases, elim insertE emptyE)
       (simp_all add: bit_xor_iff sel_def bit_1_iff)
  finally show ?thesis .
qed

lemma gmul_commute: "gmul a b = gmul b a"
proof -
  have "gmul (gmul 1 a) b = sel (bit a 0) (X 0 b) XOR sel (bit a 1) (X 1 b) XOR sel (bit a 2) (X 2 b) XOR
     sel (bit a 3) (X 3 b) XOR sel (bit a 4) (X 4 b) XOR sel (bit a 5) (X 5 b) XOR
     sel (bit a 6) (X 6 b) XOR sel (bit a 7) (X 7 b)"
  proof -
    have s: "gmul (sel c y) b = sel c (gmul y b)" for c y by (simp add: sel_def)
    show ?thesis unfolding gmul_alt [of 1 a] gmul_xor_left s gmul_X_left
      by (simp only: gmul_one_left funpow_0)
  qed
  then show ?thesis unfolding gmul_one_left by (simp only: gmul_alt [of b a] funpow_0)
qed

lemmas gmul_ac = gmul_assoc [symmetric] gmul_commute

subsection \<open>Inverses\<close>

text \<open>
  Squaring is additive and permutes the powers of \<open>x\<close>, so its eighth iterate is the identity; the
  product of the eight conjugates of a nonzero element is fixed by squaring, and the only elements
  fixed by squaring are 0 and 1.
\<close>

definition sq :: "u8 \<Rightarrow> u8" where "sq a = gmul a a"

abbreviation sqs :: "nat \<Rightarrow> u8 \<Rightarrow> u8" where "sqs n \<equiv> sq ^^ n"

lemma xor_cancel [simp]: "a XOR (a XOR b) = (b :: u8)"
  by (simp flip: xor.assoc)

lemma sq_xor: "sq (a XOR b) = sq a XOR sq b"
proof -
  have "(p XOR q) XOR (q XOR r) = p XOR r" for p q r :: u8 by (simp add: xor.assoc)
  then show ?thesis unfolding sq_def gmul_xor_left gmul_xor_right gmul_commute [of b a] .
qed

lemma sq_gmul: "sq (gmul a b) = gmul (sq a) (sq b)"
  unfolding sq_def by (metis gmul_assoc gmul_commute)

lemma sq_X: "sq (X n a) = X (2 * n) (sq a)"
  unfolding sq_def gmul_X_left gmul_X_right by (simp add: funpow_add mult_2)

lemma sq_sel: "sq (sel c x) = sel c (sq x)"
  by (simp add: sel_def sq_def)

lemma gmul_unfold:
  "gmul a b = gmul_loop (Suc (Suc (Suc (Suc (Suc (Suc (Suc (Suc 0)))))))) a b 0"
  by (simp add: gmul_def eval_nat_numeral)

lemma sq_values: "sq 2 = 4" "sq 4 = 0x10" "sq 0x10 = 0x1B" "sq 0x1B = 0x5E" "sq 0x5E = 0xE4" "sq 0xE4 = 0x4D"
  "sq 0x4D = 0xFA" "sq 0xFA = 2"
  by (simp_all add: sq_def gmul_unfold xtime_def)

lemma sqs_8_two: "sqs 8 2 = 2"
proof -
  have 8: "(8 :: nat) = Suc (Suc (Suc (Suc (Suc (Suc (Suc (Suc 0)))))))" by simp
  show ?thesis unfolding 8 by (simp add: sq_values)
qed

lemma sqs_8: "sqs 8 a = a"
proof -
  have x: "sqs n (b XOR c) = sqs n b XOR sqs n c" for n b c by (induction n) (simp_all add: sq_xor)
  have s: "sqs n (sel c y) = sel c (sqs n y)" for n c y by (induction n) (simp_all add: sq_sel)
  have m: "sqs n (gmul b c) = gmul (sqs n b) (sqs n c)" for n b c
    by (induction n) (simp_all add: sq_gmul)
  have one: "sqs n 1 = 1" for n by (induction n) (simp_all add: sq_def)
  have t: "xtime y = gmul y 2" for y by (simp add: gmul_unfold)
  have b: "sqs 8 (X k 1) = X k 1" for k
    by (induction k) (simp_all add: one t m sqs_8_two)
  have "sqs 8 (gmul 1 a) = gmul 1 a"
    unfolding gmul_alt [of 1 a] x s b using one by simp
  then show ?thesis by (simp only: gmul_one_left)
qed

lemma fixed_by_sq: "sq e = e \<Longrightarrow> e = 0 \<or> e = 1"
proof -
  assume fx: "sq e = e"
  have c8: "X 8 1 = 0x1B" by (simp add: X_unfold(8) X_one xtime_def)
  have x2: "X (n + 2) y = xtime (xtime (X n y))" for n y by simp
  have c10: "X 10 1 = 0x6C" using x2 [of 8 1] c8 by (simp add: xtime_def)
  have c12: "X 12 1 = 0xAB" using x2 [of 10 1] c10 by (simp add: xtime_def)
  have c14: "X 14 1 = 0x9A" using x2 [of 12 1] c12 by (simp add: xtime_def)
  have "sq (gmul 1 e) = sel (bit e 0) 1 XOR sel (bit e 1) 4 XOR sel (bit e 2) 16 XOR sel (bit e 3) 64 XOR
      sel (bit e 4) 0x1B XOR sel (bit e 5) 0x6C XOR sel (bit e 6) 0xAB XOR sel (bit e 7) 0x9A"
    unfolding gmul_alt [of 1 e] sq_xor sq_sel sq_X
    using c8 c10 c12 c14 X_one by (simp add: sq_def gmul_one_left)
  then have q: "sel (bit e 0) 1 XOR sel (bit e 1) 4 XOR sel (bit e 2) 16 XOR sel (bit e 3) 64 XOR
      sel (bit e 4) 0x1B XOR sel (bit e 5) 0x6C XOR sel (bit e 6) 0xAB XOR sel (bit e 7) 0x9A = e"
    (is "?l = e") by (simp only: gmul_one_left fx)
  have b: "bit (sel c y) n \<longleftrightarrow> c \<and> bit y n" for c y n by (simp add: sel_def)
  have k: "bit ?l n \<longleftrightarrow> bit e n" for n by (simp only: q)
  have "\<not> bit e 1 \<and> \<not> bit e 2 \<and> \<not> bit e 3 \<and> \<not> bit e 4 \<and> \<not> bit e 5 \<and> \<not> bit e 6 \<and> \<not> bit e 7"
    using k [of 1] k [of 2] k [of 3] k [of 4] k [of 5] k [of 6] k [of 7] k [of 0]
    unfolding bit_xor_iff b by (simp add: bit_1_iff) argo
  then have "e = (if bit e 0 then 1 else 0)"
    by (intro u8_bitI_cases, elim insertE emptyE) (auto simp: bit_1_iff)
  then show ?thesis by metis
qed

primrec norm_prod :: "nat \<Rightarrow> u8 \<Rightarrow> u8" where
  "norm_prod 0 a = 1"
| "norm_prod (Suc n) a = gmul (norm_prod n a) (sqs n a)"

lemma norm_prod_pow: "gmul a (norm_prod n a) = sqs n a"
  by (induction n) (simp_all add: gmul_assoc sq_def [symmetric])

lemma norm_prod_sq: "gmul a (sq (norm_prod n a)) = norm_prod (Suc n) a"
proof (induction n)
  case 0
  then show ?case by (simp add: sq_def gmul_one_left)
next
  case (Suc n)
  have "gmul a (sq (norm_prod (Suc n) a)) = gmul (gmul a (sq (norm_prod n a))) (sq (sqs n a))"
    by (simp add: sq_gmul gmul_assoc)
  then show ?case using Suc.IH by simp
qed

lemma gmul_inverse: "a \<noteq> 0 \<Longrightarrow> \<exists>b. gmul a b = 1"
proof -
  assume a: "a \<noteq> 0"
  define e q where "e = norm_prod 8 a" and "q = sq (norm_prod 7 a)"
  have 8: "(8 :: nat) = Suc 7" by simp
  have eq: "e = gmul a q" unfolding e_def q_def 8 by (simp only: norm_prod_sq)
  have "gmul a e = a" using norm_prod_pow [of a 8] sqs_8 [of a] by (simp add: e_def)
  then have nz: "e \<noteq> 0" using a by auto
  have "sq e = gmul q (sq (sqs 7 a))"
    unfolding e_def q_def 8 norm_prod.simps sq_gmul ..
  also have "sq (sqs 7 a) = a" using sqs_8 [of a] unfolding 8 by (simp only: funpow.simps comp_apply)
  also have "gmul q a = e" unfolding eq by (rule gmul_commute)
  finally have "e = 1" using fixed_by_sq nz by blast
  then show ?thesis using eq by metis
qed

section \<open>The S-box tables are inverse to each other\<close>

lemma u8_of_nat: "(of_nat (unat x) :: u8) = x"
  by simp

lemma unat_u8: "unat (x :: u8) < 256"
  using unsigned_less [of x, where 'a = nat] by simp

lemma find_witness: "x \<in> set xs \<Longrightarrow> P x \<Longrightarrow> \<exists>y. find P xs = Some y \<and> P y"
  by (induction xs) auto

lemma inv_search_ok: "a \<noteq> 0 \<Longrightarrow> gmul a (inv_search a) = 1"
proof -
  assume a: "a \<noteq> 0"
  then obtain b where b: "gmul a b = 1" using gmul_inverse by blast
  then have "b \<noteq> 0" by auto
  then have "0 < unat b" by (simp add: unat_gt_0)
  then have "unat b \<in> set [1..<256]"
    using unat_u8 [of b] by (simp only: set_upt atLeastLessThan_iff) simp
  then have "(of_nat (unat b) :: u8) \<in> of_nat ` set [1..<256]" by (rule imageI)
  then have "b \<in> set (map of_nat [1..<256])" by (simp only: u8_of_nat set_map)
  from find_witness [of b, OF this, of "\<lambda>b. gmul a b = 1", OF b]
  obtain c where "find (\<lambda>b. gmul a b = 1) (map of_nat [1..<256]) = Some c" "gmul a c = 1" by blast
  then show ?thesis using a unfolding inv_search_def by (simp only: if_False option.case)
qed

lemma inv_search_inj: "inv_search a = inv_search b \<Longrightarrow> a = b"
proof -
  assume e: "inv_search a = inv_search b"
  have z: "inv_search x = 0 \<longleftrightarrow> x = 0" for x
    using inv_search_ok [of x] by (cases "x = 0") (auto simp: inv_search_def)
  show "a = b"
  proof (cases "a = 0")
    case True
    then show ?thesis using e z by metis
  next
    case False
    let ?c = "inv_search a"
    have "b \<noteq> 0" "?c \<noteq> 0" using False e z by metis+
    then have "gmul a ?c = 1" "gmul b ?c = 1" "gmul ?c (inv_search ?c) = 1"
      using inv_search_ok [of a] inv_search_ok [of b] inv_search_ok [of ?c] False e by metis+
    then show ?thesis by (metis gmul_1 gmul_assoc)
  qed
qed

lemma bit_rotl8:
  "n \<le> 8 \<Longrightarrow> k < 8 \<Longrightarrow> bit (rotl8 x n) k = (if k < n then bit x (k + 8 - n) else bit x (k - n))"
  unfolding rotl8_def bit_or_iff bit_push_bit_iff bit_drop_bit_eq possible_bit_word comp_def
  by (auto dest: bit_imp_le_length simp: add.commute)

lemma u8_bitI: "(\<And>k. k < 8 \<Longrightarrow> bit a k = bit b k) \<Longrightarrow> a = (b :: u8)"
  by (rule bit_eqI) (simp add: possible_bit_word)

lemma rotl8_xor: "n \<le> 8 \<Longrightarrow> rotl8 (a XOR b) n = rotl8 a n XOR rotl8 b n"
  by (rule u8_bitI) (simp add: bit_rotl8 bit_xor_iff)

lemma rotl8_rotl8: "m \<le> 8 \<Longrightarrow> n \<le> 8 \<Longrightarrow> rotl8 (rotl8 a m) n = rotl8 a (if m + n < 8 then m + n else m + n - 8)"
  by (rule u8_bitI) (auto simp: bit_rotl8 intro!: arg_cong [of _ _ "bit a"])

lemma rotl8_0: "rotl8 a 0 = a"
  by (rule u8_bitI) (simp add: bit_rotl8)

text \<open>The affine map is linear in the rotations of its argument, and so is its inverse.\<close>

lemma affine_inj: "affine a = affine b \<Longrightarrow> a = b"
proof -
  define bk :: "u8 \<Rightarrow> u8" where "bk s = (rotl8 s 1 XOR rotl8 s 3 XOR rotl8 s 6 XOR 0x05)" for s
  have n: "Suc (Suc 0) = 2" by simp
  have c: "rotl8 0x63 (Suc 0) = 0xC6" "rotl8 0x63 3 = 0x1B" "rotl8 0x63 6 = 0xD8"
    by (simp_all add: rotl8_def)
  have "bk (affine b) = b" for b
    unfolding bk_def affine_def
    by (simp add: rotl8_xor rotl8_rotl8 rotl8_0 c n xor.assoc xor.commute xor.left_commute)
  then show "affine a = affine b \<Longrightarrow> a = b" by metis
qed

lemma length_SBOX [simp]: "length SBOX = 256"
  by (simp add: SBOX_def)

lemma SBOX_nth: "i < 256 \<Longrightarrow> SBOX ! i = affine (inv_search (of_nat i))"
  by (simp add: SBOX_def)

lemma SBOX_inj:
  assumes "i < 256" "j < 256" "SBOX ! i = SBOX ! j"
  shows "i = j"
proof -
  have "(of_nat i :: u8) = of_nat j"
    using assms by (auto simp: SBOX_nth dest!: affine_inj inv_search_inj)
  then have "unat (of_nat i :: u8) = unat (of_nat j :: u8)" by simp
  then show ?thesis using assms(1,2) by (simp add: unat_of_nat take_bit_nat_eq_self)
qed

lemma fold_inverse_table:
  assumes inj: "\<And>i j. i < n \<Longrightarrow> j < n \<Longrightarrow> f i = f j \<Longrightarrow> i = j" and len: "\<And>i. f i < length t"
  shows "length (fold (\<lambda>i t. t[f i := g i]) [0..<n] t) = length t \<and>
    (\<forall>i<n. fold (\<lambda>i t. t[f i := g i]) [0..<n] t ! f i = g i)"
  using inj
proof (induction n)
  case (Suc n)
  have IH: "length (fold (\<lambda>i t. t[f i := g i]) [0..<n] t) = length t"
    "\<forall>i<n. fold (\<lambda>i t. t[f i := g i]) [0..<n] t ! f i = g i"
    using Suc.IH Suc.prems by auto
  have "f n \<noteq> f i" if "i < n" for i using Suc.prems [of i n] that by auto
  then show ?case using IH len by (simp add: less_Suc_eq all_conj_distrib disj_imp nth_list_update) metis
qed simp

lemma INV_SBOX_SBOX: "INV_SBOX ! unat (SBOX ! unat x) = x"
proof -
  have "fold (\<lambda>i t. t[unat (SBOX ! i) := of_nat i]) [0..<256] (replicate 256 0) ! unat (SBOX ! unat x) =
      (of_nat (unat x) :: u8)"
    using fold_inverse_table [of 256 "\<lambda>i. unat (SBOX ! i)" "replicate 256 0" "of_nat :: nat \<Rightarrow> u8"]
      SBOX_inj unat_u8 [of x] unat_u8 by (simp add: word_unat_eq_iff [symmetric])
  then show ?thesis by (simp add: INV_SBOX_def)
qed

section \<open>The round functions are undone\<close>

lemma length_16_cases:
  assumes "length s = 16"
  obtains a0 a1 a2 a3 a4 a5 a6 a7 a8 a9 a10 a11 a12 a13 a14 a15
  where "s = [a0,a1,a2,a3,a4,a5,a6,a7,a8,a9,a10,a11,a12,a13,a14,a15]"
proof -
  from assms have "length s = Suc (Suc (Suc (Suc (Suc (Suc (Suc (Suc (Suc (Suc (Suc (Suc (Suc (Suc (Suc (Suc 0)))))))))))))))"
    by simp
  then show ?thesis using that unfolding length_Suc_conv by (elim exE conjE) (simp only: length_0_conv)
qed

lemma round_lengths [simp]:
  "length (add_round_key ctx r s) = 16" "length (sub_bytes s) = length s"
  "length (inv_sub_bytes s) = length s" "length (shift_rows s) = length s"
  "length (inv_shift_rows s) = length s" "length (mix_columns s) = 16" "length (inv_mix_columns s) = 16"
  by (simp_all add: add_round_key_def sub_bytes_def inv_sub_bytes_def shift_rows_def inv_shift_rows_def
        row_cols_def mix_columns_def inv_mix_columns_def mix_column_def inv_mix_column_def length_concat comp_def upt_rec)

lemma add_round_key_twice: "length s = 16 \<Longrightarrow> add_round_key ctx r (add_round_key ctx r s) = s"
  by (rule nth_equalityI) (simp_all add: add_round_key_def xor.assoc del: upt_Suc)

lemma inv_sub_bytes_sub_bytes: "inv_sub_bytes (sub_bytes s) = s"
  by (simp add: inv_sub_bytes_def sub_bytes_def INV_SBOX_SBOX comp_def)

lemma shift_rows_unfold:
  "shift_rows t = t[1 := t ! 5, 5 := t ! 9, 9 := t ! 13, 13 := t ! 1, 2 := t ! 10, 6 := t ! 14,
     10 := t ! 2, 14 := t ! 6, 3 := t ! 15, 7 := t ! 3, 11 := t ! 7, 15 := t ! 11]"
  by (simp add: shift_rows_def row_cols_def numeral_2_eq_2)

lemma inv_shift_rows_unfold:
  "inv_shift_rows t = t[5 := t ! 1, 9 := t ! 5, 13 := t ! 9, 1 := t ! 13, 10 := t ! 2, 14 := t ! 6,
     2 := t ! 10, 6 := t ! 14, 15 := t ! 3, 3 := t ! 7, 7 := t ! 11, 11 := t ! 15]"
  by (simp add: inv_shift_rows_def row_cols_def numeral_2_eq_2)

lemma shift_rows_list:
  "shift_rows [a0,a1,a2,a3,a4,a5,a6,a7,a8,a9,a10,a11,a12,a13,a14,a15] =
     [a0,a5,a10,a15,a4,a9,a14,a3,a8,a13,a2,a7,a12,a1,a6,a11]"
  unfolding shift_rows_unfold by (simp add: eval_nat_numeral)

lemma inv_shift_rows_list:
  "inv_shift_rows [a0,a5,a10,a15,a4,a9,a14,a3,a8,a13,a2,a7,a12,a1,a6,a11] =
     [a0,a1,a2,a3,a4,a5,a6,a7,a8,a9,a10,a11,a12,a13,a14,a15]"
  unfolding inv_shift_rows_unfold by (simp add: eval_nat_numeral)

lemma inv_shift_rows_shift_rows: "length s = 16 \<Longrightarrow> inv_shift_rows (shift_rows s) = s"
  by (erule length_16_cases) (simp only: shift_rows_list inv_shift_rows_list)

lemma gmul_consts:
  "gmul a 2 = xtime a" "gmul a 3 = xtime a XOR a"
  "gmul a 9 = X 3 a XOR a" "gmul a 0x0B = X 3 a XOR xtime a XOR a"
  "gmul a 0x0D = X 3 a XOR X 2 a XOR a" "gmul a 0x0E = X 3 a XOR X 2 a XOR xtime a"
  unfolding gmul_alt by (simp_all add: X_unfold(1-3) xor.assoc xor.commute xor.left_commute)

lemma inv_mix_column_mix_column:
  "inv_mix_column (mix_column a b c d ! 0) (mix_column a b c d ! 1) (mix_column a b c d ! 2)
     (mix_column a b c d ! 3) = [a, b, c, d]"
  unfolding mix_column_def inv_mix_column_def gmul_consts
  by (simp add: X_unfold(1-3) xtime_xor xor.assoc xor.commute xor.left_commute)

lemma inv_mix_columns_mix_columns: "length s = 16 \<Longrightarrow> inv_mix_columns (mix_columns s) = s"
proof (erule length_16_cases)
  fix a0 a1 a2 a3 a4 a5 a6 a7 a8 a9 a10 a11 a12 a13 a14 a15
  assume s: "s = [a0,a1,a2,a3,a4,a5,a6,a7,a8,a9,a10,a11,a12,a13,a14,a15]"
  have u: "[0..<4] = [0, 1, 2, 3 :: nat]" by (simp add: upt_rec)
  have m: "mix_columns s = mix_column a0 a1 a2 a3 @ mix_column a4 a5 a6 a7 @ mix_column a8 a9 a10 a11 @
      mix_column a12 a13 a14 a15"
    unfolding mix_columns_def s u by simp
  have l: "length (mix_column a b c d) = 4" for a b c d by (simp add: mix_column_def)
  have n: "(p @ q) ! k = (if k < 4 then p ! k else q ! (k - 4))" if "length p = 4" for p q :: "u8 list" and k
    using that by (simp add: nth_append)
  show ?thesis
    unfolding inv_mix_columns_def m u
    by (simp add: n l inv_mix_column_mix_column [unfolded One_nat_def numeral_2_eq_2] numeral_2_eq_2 s)
qed

section \<open>Decryption undoes encryption\<close>

lemma fold_rounds_undo:
  assumes step: "\<And>r t. length t = 16 \<Longrightarrow> dec r (h (enc r t)) = h t"
    and len: "\<And>r t. length (enc r t) = (16 :: nat)"
  shows "length t = 16 \<Longrightarrow> fold dec (rev rs) (h (fold enc rs t)) = h t"
proof (induction rs arbitrary: t)
  case (Cons r rs)
  have "fold dec (rev (r # rs)) (h (fold enc (r # rs) t)) = dec r (fold dec (rev rs) (h (fold enc rs (enc r t))))"
    by simp
  also have "\<dots> = dec r (h (enc r t))" using Cons.IH [of "enc r t"] len by simp
  also have "\<dots> = h t" using step Cons.prems by blast
  finally show ?case .
qed simp

lemma aes_block_undo:
  assumes "length s = 16"
  shows "aes_decrypt_block ctx (aes_encrypt_block ctx s) = s"
proof -
  let ?h = "\<lambda>t. shift_rows (sub_bytes t)"
  have step: "dec_round ctx r (?h (enc_round ctx r t)) = ?h t" if "length t = 16" for r t
    using that by (simp add: dec_round_def enc_round_def inv_shift_rows_shift_rows inv_sub_bytes_sub_bytes
        add_round_key_twice inv_mix_columns_mix_columns)
  have len: "length (enc_round ctx r t) = 16" for r t by (simp add: enc_round_def)
  have lf: "length (fold (enc_round ctx) rs t) = 16" if "length t = 16" for rs t
    using that len by (induction rs arbitrary: t) auto
  show ?thesis
    unfolding aes_decrypt_block_def aes_encrypt_block_def
    using assms fold_rounds_undo [of "dec_round ctx" ?h "enc_round ctx", OF step len]
    by (simp add: add_round_key_twice lf inv_shift_rows_shift_rows inv_sub_bytes_sub_bytes)
qed

lemma aes_init_128: "\<exists>ctx. aes_init key 128 = Some ctx \<and> rounds ctx = 10"
  unfolding aes_init_def Let_def split_def by (simp del: upt_Suc upt_rec_numeral)

text \<open>Decrypting a block with the key schedule it was encrypted with gives the block back.\<close>

theorem aes_decrypt_encrypt_block:
  "length s = 16 \<Longrightarrow> aes_decrypt_block ctx (aes_encrypt_block ctx s) = s"
  by (rule aes_block_undo)

theorem aes_decrypt_encrypt_block_witness:
  "\<exists>ctx. aes_init (replicate 16 0) 128 = Some ctx \<and>
     aes_decrypt_block ctx (aes_encrypt_block ctx [0,1,2,3,4,5,6,7,8,9,10,11,12,13,14,15]) =
       [0,1,2,3,4,5,6,7,8,9,10,11,12,13,14,15]"
proof -
  obtain ctx where "aes_init (replicate 16 0) 128 = Some ctx"
    using aes_init_128 by blast
  moreover have "aes_decrypt_block ctx (aes_encrypt_block ctx [0,1,2,3,4,5,6,7,8,9,10,11,12,13,14,15]) =
       [0,1,2,3,4,5,6,7,8,9,10,11,12,13,14,15]"
    by (rule aes_decrypt_encrypt_block) simp
  ultimately show ?thesis by blast
qed

lemma length_aes_encrypt_block [simp]: "length (aes_encrypt_block ctx s) = 16"
  by (simp add: aes_encrypt_block_def)

lemma length_aes_decrypt_block [simp]: "length (aes_decrypt_block ctx s) = 16"
  by (simp add: aes_decrypt_block_def)

lemma length_xor_bytes [simp]: "length (xor_bytes xs ys) = min (length xs) (length ys)"
  by (simp add: xor_bytes_def)

lemma xor_bytes_cancel:
  "length xs = length ys \<Longrightarrow> xor_bytes (xor_bytes xs ys) xs = ys"
  by (rule nth_equalityI) (simp_all add: xor_bytes_def xor.assoc xor.commute)

lemma length_aes_cbc_encrypt [simp]: "length (aes_cbc_encrypt ctx iv buf) = length buf"
  by (induction ctx iv buf rule: aes_cbc_encrypt.induct)
     (subst aes_cbc_encrypt.simps, simp add: Let_def)

lemma length_aes_cbc_decrypt [simp]:
  "length iv = 16 \<Longrightarrow> length (aes_cbc_decrypt ctx iv buf) = length buf"
  by (induction ctx iv buf rule: aes_cbc_decrypt.induct)
     (subst aes_cbc_decrypt.simps, simp add: Let_def)

lemma cbc_undo:
  assumes "length iv = 16"
  shows "aes_cbc_decrypt ctx iv (aes_cbc_encrypt ctx iv buf) = buf"
  using assms
proof (induction ctx iv buf rule: aes_cbc_encrypt.induct)
  case (1 ctx chain buf)
  show ?case
  proof (cases "length buf < 16")
    case True
    then show ?thesis by (simp add: aes_cbc_encrypt.simps aes_cbc_decrypt.simps)
  next
    case False
    let ?c = "aes_encrypt_block ctx (xor_bytes chain (take 16 buf))"
    have e: "aes_cbc_encrypt ctx chain buf = ?c @ aes_cbc_encrypt ctx ?c (drop 16 buf)"
      using False by (subst aes_cbc_encrypt.simps) (simp add: Let_def)
    have IH: "aes_cbc_decrypt ctx ?c (aes_cbc_encrypt ctx ?c (drop 16 buf)) = drop 16 buf"
      using False "1.IH" by simp
    have "aes_decrypt_block ctx ?c = xor_bytes chain (take 16 buf)"
      using False "1.prems" by (intro aes_block_undo) simp
    then show ?thesis
      unfolding e using False "1.prems" IH
      by (subst aes_cbc_decrypt.simps) (simp add: Let_def xor_bytes_cancel)
  qed
qed

text \<open>
  C30. CBC decryption with the initial vector used for encryption gives the buffer back, whatever
  its length: an incomplete last block is left in clear by both.
\<close>

theorem aes_cbc_decrypt_encrypt:
  "length iv = 16 \<Longrightarrow> aes_cbc_decrypt ctx iv (aes_cbc_encrypt ctx iv buf) = buf"
  by (rule cbc_undo)

theorem aes_cbc_decrypt_encrypt_witness:
  "\<exists>ctx. aes_init (replicate 16 1) 128 = Some ctx \<and>
     aes_cbc_decrypt ctx (replicate 16 0) (aes_cbc_encrypt ctx (replicate 16 0) (replicate 33 7)) = replicate 33 7"
proof -
  obtain ctx where "aes_init (replicate 16 1) 128 = Some ctx"
    using aes_init_128 by blast
  moreover have "aes_cbc_decrypt ctx (replicate 16 0) (aes_cbc_encrypt ctx (replicate 16 0) (replicate 33 7)) =
      replicate 33 7"
    by (rule aes_cbc_decrypt_encrypt) simp
  ultimately show ?thesis by blast
qed

end
