(* ===== verification/Kirk.thy ===== *)
theory Kirk
  imports Aes
begin

unbundle bit_operations_syntax

text \<open>
  Authenticated containers: AES-CMAC (\<^verbatim>\<open>tools/allegrexrecomp/crypto/cmac.c\<close>) and the KIRK
  command 1 blob (\<^verbatim>\<open>crypto/kirk.c\<close>). A buffer is the list of its bytes and its length is the
  \<^verbatim>\<open>len\<close> argument; a write at an offset is \<open>put\<close>. Sizes are \<^verbatim>\<open>size_t\<close> sums of a few 32-bit fields
  and small constants, which a 64-bit \<^verbatim>\<open>size_t\<close> holds exactly, so they are natural numbers here.

  The lemmas show that the MAC is the last block of a CBC run over the padded message, that a blob
  built is accepted and decrypts to the data it was built from, and that a blob is only ever
  decrypted after both MACs matched, inside its own bounds.
\<close>

section \<open>CMAC\<close>

text \<open>The shifted value and the bit shifted out.\<close>

definition shift_left_1 :: "u8 list \<Rightarrow> u8 list \<times> u8" where
  "shift_left_1 inp =
     (map (\<lambda>i. push_bit 1 (inp ! i) OR drop_bit 7 (inp ! (i + 1))) [0..<15] @ [push_bit 1 (inp ! 15)],
      drop_bit 7 (inp ! 0))"

definition fold_rb :: "u8 list \<times> u8 \<Rightarrow> u8 list" where
  "fold_rb s = (let (k, carry) = s in if carry \<noteq> 0 then k[15 := k ! 15 XOR 0x87] else k)"

definition generate_subkeys :: "aes_ctx \<Rightarrow> u8 list \<times> u8 list" where
  "generate_subkeys ctx =
     (let l = aes_encrypt_block ctx (replicate 16 0);
          k1 = fold_rb (shift_left_1 l);
          k2 = fold_rb (shift_left_1 k1)
      in (k1, k2))"

text \<open>The last block: whole and tweaked with \<^verbatim>\<open>k1\<close>, or padded with \<^verbatim>\<open>0x80\<close> and tweaked with \<^verbatim>\<open>k2\<close>.\<close>

definition cmac_last :: "u8 list \<times> u8 list \<Rightarrow> bool \<Rightarrow> u8 list \<Rightarrow> u8 list" where
  "cmac_last ks complete rest =
     (if complete then xor_bytes rest (fst ks)
      else xor_bytes ((rest @ replicate (16 - length rest) 0)[length rest := 0x80]) (snd ks))"

definition aes_cmac :: "u8 list \<Rightarrow> nat \<Rightarrow> u8 list \<Rightarrow> u8 list" where
  "aes_cmac key key_bits msg =
     (case aes_init key key_bits of
        None \<Rightarrow> replicate 16 0
      | Some ctx \<Rightarrow>
          (let len = length msg;
               complete = (len \<noteq> 0 \<and> len mod 16 = 0);
               nblocks = (if complete then len div 16 else len div 16 + 1);
               lst = cmac_last (generate_subkeys ctx) complete (drop ((nblocks - 1) * 16) msg);
               x = fold (\<lambda>b x. aes_encrypt_block ctx (xor_bytes x (take 16 (drop (b * 16) msg))))
                     [0..<nblocks - 1] (replicate 16 0)
           in aes_encrypt_block ctx (xor_bytes x lst)))"

definition cmac_equal :: "u8 list \<Rightarrow> u8 list \<Rightarrow> bool" where
  "cmac_equal a b = (fold (\<lambda>i diff. diff OR (a ! i XOR b ! i)) [0..<16] 0 = 0)"

section \<open>KIRK command 1\<close>

datatype kirk_result = KIRK_OK | KIRK_ERR_TOO_SMALL | KIRK_ERR_BAD_MODE | KIRK_ERR_ECDSA
  | KIRK_ERR_HEADER_CMAC | KIRK_ERR_DATA_CMAC | KIRK_ERR_SIZE_OVERFLOW

record kirk1_info =
  mode :: u32
  use_ecdsa :: u32
  is_devkit :: u32
  data_size :: u32
  data_offset :: u32
  header_cmac_ok :: bool
  data_cmac_ok :: bool

definition KIRK1_HEADER_SIZE :: nat where "KIRK1_HEADER_SIZE = 0x90"
definition KIRK1_META_OFFSET :: nat where "KIRK1_META_OFFSET = 0x60"
definition KIRK1_META_SIZE :: nat where "KIRK1_META_SIZE = 0x30"
definition KIRK1_MODE_CMD1 :: u32 where "KIRK1_MODE_CMD1 = 1"

definition rd32le :: "u8 list \<Rightarrow> u32" where
  "rd32le p = (ucast (p ! 0) OR push_bit 8 (ucast (p ! 1)) OR push_bit 16 (ucast (p ! 2)) OR
     push_bit 24 (ucast (p ! 3)))"

text \<open>\<open>put off bs buf\<close> is \<^verbatim>\<open>memcpy(buf + off, bs, ...)\<close>.\<close>

definition put :: "nat \<Rightarrow> 'a list \<Rightarrow> 'a list \<Rightarrow> 'a list" where
  "put off bs buf = take off buf @ bs @ drop (off + length bs) buf"

definition wr32le :: "nat \<Rightarrow> u32 \<Rightarrow> u8 list \<Rightarrow> u8 list" where
  "wr32le p v = put p [ucast v, ucast (drop_bit 8 v), ucast (drop_bit 16 v), ucast (drop_bit 24 v)]"

definition kirk_strerror :: "kirk_result \<Rightarrow> string" where
  "kirk_strerror r = (case r of
     KIRK_OK \<Rightarrow> ''ok''
   | KIRK_ERR_TOO_SMALL \<Rightarrow> ''buffer is smaller than a KIRK CMD1 header''
   | KIRK_ERR_BAD_MODE \<Rightarrow> ''metadata mode is not 1 (not a CMD1 blob)''
   | KIRK_ERR_ECDSA \<Rightarrow> ''module is ECDSA-signed; only AES-CMAC is supported''
   | KIRK_ERR_HEADER_CMAC \<Rightarrow> ''header CMAC mismatch (wrong KIRK1 key)''
   | KIRK_ERR_DATA_CMAC \<Rightarrow> ''body CMAC mismatch (header ok, body corrupt or truncated)''
   | KIRK_ERR_SIZE_OVERFLOW \<Rightarrow> ''declared sizes do not fit in the buffer'')"

definition read_meta :: "u8 list \<Rightarrow> kirk1_info" where
  "read_meta buf =
     (let m = drop KIRK1_META_OFFSET buf in
      \<lparr>mode = rd32le m, use_ecdsa = rd32le (drop 0x04 m), is_devkit = rd32le (drop 0x0C m),
       data_size = rd32le (drop 0x10 m), data_offset = rd32le (drop 0x14 m),
       header_cmac_ok = False, data_cmac_ok = False\<rparr>)"

definition kirk_cmd1_peek :: "u8 list \<Rightarrow> kirk1_info \<Rightarrow> kirk_result \<times> kirk1_info" where
  "kirk_cmd1_peek buf info =
     (if length buf < KIRK1_HEADER_SIZE then (KIRK_ERR_TOO_SMALL, info)
      else let info = read_meta buf in
        if mode info \<noteq> KIRK1_MODE_CMD1 then (KIRK_ERR_BAD_MODE, info) else (KIRK_OK, info))"

text \<open>\<^verbatim>\<open>(n + 15u) & ~(size_t)15u\<close>\<close>

definition pad16 :: "nat \<Rightarrow> nat" where
  "pad16 n = (n + 15) div 16 * 16"

text \<open>
  The context of a call of \<^verbatim>\<open>aes_init\<close> whose result is not looked at: it asks for 128 bits, which is
  never refused.
\<close>

definition the_ctx :: "u8 list \<Rightarrow> aes_ctx" where
  "the_ctx key = (case aes_init key 128 of Some c \<Rightarrow> c | None \<Rightarrow> \<lparr>rk = [], rounds = 0\<rparr>)"

text \<open>
  What the caller gets: the result, the buffer (decrypted in place), \<^verbatim>\<open>*info\<close>, and \<^verbatim>\<open>*out\<close> with
  \<^verbatim>\<open>*out_len\<close> as an offset into the buffer and a length, when they are set.
\<close>

definition kirk_cmd1_decrypt ::
  "u8 list \<Rightarrow> u8 list \<Rightarrow> kirk1_info \<Rightarrow> kirk_result \<times> u8 list \<times> kirk1_info \<times> (nat \<times> u32) option"
where
  "kirk_cmd1_decrypt kirk1_key buf info =
     (if length buf < KIRK1_HEADER_SIZE then (KIRK_ERR_TOO_SMALL, buf, info, None)
      else let info = read_meta buf in
        if mode info \<noteq> KIRK1_MODE_CMD1 then (KIRK_ERR_BAD_MODE, buf, info, None)
        else if use_ecdsa info \<noteq> 0 then (KIRK_ERR_ECDSA, buf, info, None)
        else let body_off = KIRK1_HEADER_SIZE + unat (data_offset info);
                 body_pad = pad16 (unat (data_size info)) in
          if body_off > length buf \<or> body_pad > length buf - body_off
          then (KIRK_ERR_SIZE_OVERFLOW, buf, info, None)
          else let data_cmac_len = KIRK1_META_SIZE + unat (data_offset info) + body_pad in
            if KIRK1_META_OFFSET + data_cmac_len > length buf
            then (KIRK_ERR_SIZE_OVERFLOW, buf, info, None)
            else case aes_init kirk1_key 128 of
                None \<Rightarrow> (KIRK_ERR_TOO_SMALL, buf, info, None)
              | Some kek \<Rightarrow>
                 (let keys = aes_cbc_decrypt kek (replicate 16 0) (take 0x20 buf);
                      body_key = take 0x10 keys;
                      cmac_key = drop 0x10 keys;
                      m = drop KIRK1_META_OFFSET buf;
                      info = info\<lparr>header_cmac_ok :=
                        cmac_equal (aes_cmac cmac_key 128 (take KIRK1_META_SIZE m)) (take 16 (drop 0x20 buf))\<rparr>;
                      info = info\<lparr>data_cmac_ok :=
                        cmac_equal (aes_cmac cmac_key 128 (take data_cmac_len m)) (take 16 (drop 0x30 buf))\<rparr>
                  in if \<not> header_cmac_ok info then (KIRK_ERR_HEADER_CMAC, buf, info, None)
                     else if \<not> data_cmac_ok info then (KIRK_ERR_DATA_CMAC, buf, info, None)
                     else (KIRK_OK,
                           put body_off (aes_cbc_decrypt (the_ctx body_key) (replicate 16 0)
                             (take body_pad (drop body_off buf))) buf,
                           info, Some (body_off, data_size info))))"

text \<open>
  The stages of building a blob: the metadata, the encrypted body, the two MACs, the wrapped keys.
  \<^verbatim>\<open>out\<close> is a buffer of \<^verbatim>\<open>out_cap\<close> bytes.
\<close>

definition build_meta :: "u32 \<Rightarrow> u32 \<Rightarrow> u8 list \<Rightarrow> u8 list" where
  "build_meta data_len pad out =
     (let m = KIRK1_META_OFFSET;
          out = wr32le (m + 0x00) KIRK1_MODE_CMD1 out;
          out = wr32le (m + 0x04) 0 out;
          out = wr32le (m + 0x0C) 0 out;
          out = wr32le (m + 0x10) data_len out
      in wr32le (m + 0x14) pad out)"

definition build_body :: "u8 list \<Rightarrow> u8 list \<Rightarrow> u32 \<Rightarrow> nat \<Rightarrow> nat \<Rightarrow> u8 list \<Rightarrow> u8 list" where
  "build_body body_key data data_len body_off body_pad out =
     (let out = put body_off (take (unat data_len) data) out
      in put body_off (aes_cbc_encrypt (the_ctx body_key) (replicate 16 0)
           (take body_pad (drop body_off out))) out)"

definition build_macs :: "u8 list \<Rightarrow> nat \<Rightarrow> u8 list \<Rightarrow> u8 list" where
  "build_macs cmac_key data_cmac_len out =
     (let out = put 0x20 (aes_cmac cmac_key 128 (take KIRK1_META_SIZE (drop KIRK1_META_OFFSET out))) out
      in put 0x30 (aes_cmac cmac_key 128 (take data_cmac_len (drop KIRK1_META_OFFSET out))) out)"

definition build_keys :: "u8 list \<Rightarrow> u8 list \<Rightarrow> u8 list \<Rightarrow> u8 list \<Rightarrow> u8 list" where
  "build_keys kirk1_key body_key cmac_key out =
     (let out = put 0x00 (take 16 body_key) out;
          out = put 0x10 (take 16 cmac_key) out
      in put 0x00 (aes_cbc_encrypt (the_ctx kirk1_key) (replicate 16 0) (take 0x20 out)) out)"

definition kirk_cmd1_build ::
  "u8 list \<Rightarrow> u8 list \<Rightarrow> u8 list \<Rightarrow> u8 list \<Rightarrow> u32 \<Rightarrow> u32 \<Rightarrow> u8 list \<Rightarrow> kirk_result \<times> u8 list \<times> nat option"
where
  "kirk_cmd1_build kirk1_key body_key cmac_key data data_len pad out =
     (let body_pad = pad16 (unat data_len);
          body_off = KIRK1_HEADER_SIZE + unat pad;
          total = body_off + body_pad
      in if length out < total then (KIRK_ERR_SIZE_OVERFLOW, out, None)
         else let out = put 0 (replicate total 0) out;
                  out = build_meta data_len pad out;
                  out = build_body body_key data data_len body_off body_pad out;
                  out = build_macs cmac_key (KIRK1_META_SIZE + unat pad + body_pad) out;
                  out = build_keys kirk1_key body_key cmac_key out
              in (KIRK_OK, out, Some total))"

section \<open>The MAC as a CBC run\<close>

text \<open>
  The message the MAC is the last CBC block of: its last block completed and tweaked, as RFC 4493
  has it.
\<close>

definition cmac_padded :: "aes_ctx \<Rightarrow> u8 list \<Rightarrow> u8 list" where
  "cmac_padded ctx msg =
     (let (k1, k2) = generate_subkeys ctx; n = (length msg - 1) div 16 * 16 in
      if msg \<noteq> [] \<and> length msg mod 16 = 0
      then take n msg @ xor_bytes (drop n msg) k1
      else let n = length msg div 16 * 16 in
        take n msg @ xor_bytes (drop n msg @ 0x80 # replicate (15 - length msg mod 16) 0) k2)"

lemma length_subkeys [simp]:
  "length (fst (generate_subkeys ctx)) = 16" "length (snd (generate_subkeys ctx)) = 16"
  by (simp_all add: generate_subkeys_def Let_def fold_rb_def shift_left_1_def split_def)

text \<open>Chaining over whole blocks is CBC encryption; the chaining value is its last block.\<close>

lemma cbc_chain:
  assumes "length msg = 16 * n" and "length iv = 16" and "length lst = 16"
  shows "drop (16 * n) (aes_cbc_encrypt ctx iv (msg @ lst)) =
    aes_encrypt_block ctx (xor_bytes
      (fold (\<lambda>b x. aes_encrypt_block ctx (xor_bytes x (take 16 (drop (b * 16) msg)))) [0..<n] iv) lst)"
  using assms
proof (induction n arbitrary: msg iv)
  case 0
  then show ?case
    by (subst aes_cbc_encrypt.simps) (simp add: Let_def aes_cbc_encrypt.simps [of _ _ "[]"])
next
  case (Suc n)
  let ?c = "aes_encrypt_block ctx (xor_bytes iv (take 16 msg))"
  let ?f = "\<lambda>m b x. aes_encrypt_block ctx (xor_bytes x (take 16 (drop (b * 16) m)))"
  have e: "aes_cbc_encrypt ctx iv (msg @ lst) = ?c @ aes_cbc_encrypt ctx ?c (drop 16 msg @ lst)"
    using Suc.prems by (subst aes_cbc_encrypt.simps) (simp add: Let_def)
  have u: "[0..<Suc n] = 0 # map Suc [0..<n]" by (simp only: upt_conv_Cons zero_less_Suc map_Suc_upt)
  have "fold (?f msg) [0..<Suc n] iv = fold (?f (drop 16 msg)) [0..<n] ?c"
    unfolding u by (simp add: fold_map comp_def add.commute)
  then show ?case
    using Suc.IH [of "drop 16 msg" ?c] Suc.prems unfolding e by simp
qed

lemma fold_chain_cong:
  assumes "\<And>b. b < n \<Longrightarrow> f b = g b"
  shows "fold f [0..<n] x = fold g [0..<n] x"
  using assms by (intro fold_cong) auto

lemma cmac_last_complete:
  "length rest = 16 \<Longrightarrow> cmac_last ks True rest = xor_bytes rest (fst ks)"
  by (simp add: cmac_last_def)

lemma cmac_last_partial:
  "length rest < 16 \<Longrightarrow>
     cmac_last ks False rest = xor_bytes (rest @ 0x80 # replicate (15 - length rest) 0) (snd ks)"
proof -
  assume l: "length rest < 16"
  then have "replicate (16 - length rest) 0 = (0 :: u8) # replicate (15 - length rest) 0"
    by (simp flip: replicate_Suc add: Suc_diff_le)
  then show ?thesis by (simp add: cmac_last_def list_update_append)
qed

lemma aes_init_the_ctx: "aes_init key 128 = Some (the_ctx key)"
  using aes_init_128 [of key] by (auto simp: the_ctx_def)

lemma length_aes_cmac [simp]: "length (aes_cmac key b msg) = 16"
  by (simp add: aes_cmac_def Let_def split: option.split)

text \<open>
  C29. The MAC is the last block of the CBC encryption, with a zero initial vector, of the message
  whose last block is completed and tweaked with a subkey (RFC 4493), for every message length.
\<close>

theorem aes_cmac_is_cbc_mac:
  "aes_cmac key 128 msg =
     (let padded = cmac_padded (the_ctx key) msg
      in drop (length padded - 16) (aes_cbc_encrypt (the_ctx key) (replicate 16 0) padded))"
proof -
  let ?ctx = "the_ctx key"
  let ?f = "\<lambda>m b x. aes_encrypt_block ?ctx (xor_bytes x (take 16 (drop (b * 16) m)))"
  define n where "n = (if msg \<noteq> [] \<and> length msg mod 16 = 0 then length msg div 16 - 1 else length msg div 16)"
  have nm: "16 * n \<le> length msg" unfolding n_def by (simp add: Suc_le_eq) linarith
  define lst where
    "lst = cmac_last (generate_subkeys ?ctx) (msg \<noteq> [] \<and> length msg mod 16 = 0) (drop (n * 16) msg)"
  have m: "aes_cmac key 128 msg =
      aes_encrypt_block ?ctx (xor_bytes (fold (?f msg) [0..<n] (replicate 16 0)) lst)"
    unfolding aes_cmac_def aes_init_the_ctx n_def lst_def by (simp add: Let_def)
  have fe: "fold (?f msg) [0..<n] x = fold (?f (take (16 * n) msg)) [0..<n] x" for x
    by (rule fold_chain_cong) (simp add: drop_take)
  have "cmac_padded ?ctx msg = take (16 * n) msg @ lst \<and> length lst = 16"
  proof (cases "msg \<noteq> [] \<and> length msg mod 16 = 0")
    case True
    then obtain k where k: "length msg = 16 * Suc k"
      by (metis dvd_def dvd_eq_mod_eq_0 length_0_conv mult_0_right not0_implies_Suc)
    then have d: "(length msg - 1) div 16 * 16 = 16 * n" "length msg = 16 * n + 16"
      using True unfolding n_def by auto
    then have "length (drop (n * 16) msg) = 16" by simp
    then show ?thesis using True d
      by (simp add: lst_def cmac_last_complete cmac_padded_def Let_def split_def mult.commute)
  next
    case False
    then have d: "length msg div 16 * 16 = 16 * n" "length msg = 16 * n + length msg mod 16"
      unfolding n_def by auto
    then have r: "length (drop (n * 16) msg) = length msg mod 16" by simp
    have c: "(msg \<noteq> [] \<and> length msg mod 16 = 0) = False" using False by blast
    have lst: "lst = xor_bytes (drop (16 * n) msg @ 0x80 # replicate (15 - length msg mod 16) 0)
        (snd (generate_subkeys ?ctx))"
      unfolding lst_def c using r by (simp add: cmac_last_partial mult.commute)
    show ?thesis
      unfolding lst cmac_padded_def c Let_def split_def using d by (simp add: min_def mult.commute)
  qed
  then show ?thesis
    unfolding m fe using cbc_chain [of "take (16 * n) msg" n "replicate 16 0" lst ?ctx] nm
    by (simp add: Let_def min_absorb2)
qed

section \<open>Comparing MACs\<close>

lemma cmac_equal_iff:
  assumes "length a = 16" and "length b = 16"
  shows "cmac_equal a b \<longleftrightarrow> a = b"
proof -
  have f: "fold (\<lambda>i diff. diff OR (a ! i XOR b ! i)) xs d = 0 \<longleftrightarrow> d = 0 \<and> (\<forall>i\<in>set xs. a ! i = b ! i)" for xs d
  proof (induction xs arbitrary: d)
    case (Cons x xs)
    have "p XOR q = 0 \<longleftrightarrow> p = q" for p q :: u8 by (metis xor_cancel xor.right_neutral xor_self_eq)
    then show ?case using Cons by (simp add: or_eq_0_iff conj_assoc)
  qed simp
  show ?thesis unfolding cmac_equal_def f using assms by (auto simp: list_eq_iff_nth_eq)
qed

section \<open>Slices of a buffer\<close>

lemma length_put [simp]: "off + length bs \<le> length buf \<Longrightarrow> length (put off bs buf) = length buf"
  by (simp add: put_def)

lemma put_at:
  assumes "length xs = off" and "length bs = length ys"
  shows "put off bs (xs @ ys @ zs) = xs @ bs @ zs"
  using assms by (simp add: put_def)

lemma put_inside:
  assumes "length xs = m" and "k + length bs \<le> length ys"
  shows "put (m + k) bs (xs @ ys @ zs) = xs @ put k bs ys @ zs"
  using assms by (simp add: put_def)

lemma nth_put_other:
  "off + length bs \<le> length buf \<Longrightarrow> i < length buf \<Longrightarrow> i < off \<or> off + length bs \<le> i \<Longrightarrow>
     put off bs buf ! i = buf ! i"
  by (auto simp: put_def nth_append min_def)

lemma drop_put: "off + length bs \<le> length buf \<Longrightarrow> drop off (put off bs buf) = bs @ drop (off + length bs) buf"
  by (simp add: put_def min_def)

lemma rd32le_bytes: "rd32le (bytes_of_word 4 v @ xs) = v"
proof -
  have "rd32le ([a, b, c, d] @ xs) = word_of_bytes [a, b, c, d]" for a b c d
    by (simp add: rd32le_def push_bit_or numeral_3_eq_3 numeral_2_eq_2 or.assoc push_bit_push_bit)
  then show ?thesis
    using word_of_bytes_of_word [of 4 v] by (simp add: bytes_of_word_4)
qed

lemma wr32le_put: "wr32le p v = put p (bytes_of_word 4 v)"
  by (simp add: wr32le_def bytes_of_word_4)

lemma rd32le_wr32le_same: "k + 4 \<le> length m \<Longrightarrow> rd32le (drop k (wr32le k v m)) = v"
  by (simp add: wr32le_put drop_put rd32le_bytes)

lemma rd32le_wr32le_other:
  assumes "j + 4 \<le> length m" "k + 4 \<le> length m" "k + 4 \<le> j \<or> j + 4 \<le> k"
  shows "rd32le (drop k (wr32le j v m)) = rd32le (drop k m)"
proof -
  have n: "drop k (wr32le j v m) ! i = drop k m ! i" if "i < 4" for i
  proof -
    have "put j (bytes_of_word 4 v) m ! (k + i) = m ! (k + i)"
      using assms that by (intro nth_put_other) auto
    then show ?thesis using assms that by (simp add: wr32le_put)
  qed
  show ?thesis unfolding rd32le_def by (simp add: n)
qed

lemma length_wr32le [simp]: "k + 4 \<le> length m \<Longrightarrow> length (wr32le k v m) = length m"
  by (simp add: wr32le_put)

section \<open>The blob that is built\<close>

definition kirk_meta :: "u32 \<Rightarrow> u32 \<Rightarrow> u8 list" where
  "kirk_meta data_len pad =
     wr32le 0x14 pad (wr32le 0x10 data_len (wr32le 0x0C 0 (wr32le 0x04 0
       (wr32le 0 KIRK1_MODE_CMD1 (replicate 0x30 0)))))"

lemma kirk_meta_fields [simp]:
  "length (kirk_meta n p) = 0x30" "rd32le (kirk_meta n p) = KIRK1_MODE_CMD1"
  "rd32le (drop 4 (kirk_meta n p)) = 0" "rd32le (drop 12 (kirk_meta n p)) = 0"
  "rd32le (drop 16 (kirk_meta n p)) = n" "rd32le (drop 20 (kirk_meta n p)) = p"
  using rd32le_wr32le_same [of 0] rd32le_wr32le_other [of _ _ 0]
  by (simp_all add: kirk_meta_def rd32le_wr32le_same rd32le_wr32le_other)

lemma wr32le_inside:
  "length xs = m \<Longrightarrow> k + 4 \<le> length ys \<Longrightarrow> wr32le (m + k) v (xs @ ys @ zs) = xs @ wr32le k v ys @ zs"
  by (simp add: wr32le_put put_inside)

lemma pad16_ge: "n \<le> pad16 n" "pad16 n mod 16 = 0"
  unfolding pad16_def by simp_all

abbreviation zeros :: "nat \<Rightarrow> u8 list" where "zeros n \<equiv> replicate n 0"

lemma slice_at: "length xs = k \<Longrightarrow> length ys = n \<Longrightarrow> take n (drop k (xs @ ys @ zs)) = ys"
  by simp

lemma put_zeros:
  "put 0 (zeros (0x90 + p + bp)) out = zeros 0x60 @ zeros 0x30 @ zeros p @ zeros bp @ drop (0x90 + p + bp) out"
  by (simp add: put_def flip: replicate_add append_assoc)

lemma build_meta_layout:
  "build_meta n p (zeros 0x60 @ zeros 0x30 @ r) = zeros 0x60 @ kirk_meta n p @ r"
  unfolding kirk_meta_def build_meta_def Let_def KIRK1_META_OFFSET_def
  by (simp only: wr32le_inside length_replicate length_wr32le)

lemma build_body_layout:
  assumes h: "length h = off" and d: "length data = unat n" and bp: "unat n \<le> bp"
  shows "build_body key data n off bp (h @ zeros bp @ r) =
    h @ aes_cbc_encrypt (the_ctx key) (zeros 16) (data @ zeros (bp - unat n)) @ r"
proof -
  have z: "zeros bp = zeros (unat n) @ zeros (bp - unat n)" using bp by (simp flip: replicate_add)
  have 1: "put off data (h @ zeros bp @ r) = h @ (data @ zeros (bp - unat n)) @ r"
    unfolding z using put_at [of h off data "zeros (unat n)" "zeros (bp - unat n) @ r"] h d by simp
  have 2: "take bp (drop off (h @ (data @ zeros (bp - unat n)) @ r)) = data @ zeros (bp - unat n)"
    using h d bp by (intro slice_at) simp_all
  show ?thesis
    unfolding build_body_def Let_def using d bp h
    by (simp only: take_all order.refl 1 2) (rule put_at, simp_all)
qed

lemma build_macs_layout:
  assumes "length k = 32" "length m = 0x30" "length b = n"
  shows "build_macs key (0x30 + n) (k @ zeros 0x10 @ zeros 0x10 @ zeros 0x20 @ m @ b @ r) =
    k @ aes_cmac key 128 m @ aes_cmac key 128 (m @ b) @ zeros 0x20 @ m @ b @ r"
proof -
  have m1: "take 0x30 (drop 0x60 (k @ x @ y @ zeros 0x20 @ m @ b @ r)) = m"
    if "length x = 16" "length y = 16" for x y
    using that assms slice_at [where xs = "k @ x @ y @ zeros 0x20" and k = "0x60" and ys = m and n = "0x30" and zs = "b @ r"] by simp
  have m2: "take (0x30 + n) (drop 0x60 (k @ x @ y @ zeros 0x20 @ m @ b @ r)) = m @ b"
    if "length x = 16" "length y = 16" for x y
    using that assms slice_at [where xs = "k @ x @ y @ zeros 0x20" and k = "0x60" and ys = "m @ b" and n = "0x30 + n" and zs = r] by simp
  have p1: "put 0x20 v (k @ x @ z) = k @ v @ z" if "length v = 16" "length x = 16" for v x z :: "u8 list"
    using that assms by (intro put_at) simp_all
  have p2: "put 0x30 v (k @ x @ y @ z) = k @ x @ v @ z"
    if "length v = 16" "length x = 16" "length y = 16" for v x y z :: "u8 list"
    using that assms put_at [of "k @ x" "0x30" v y z] by simp
  show ?thesis
    unfolding build_macs_def Let_def KIRK1_META_SIZE_def KIRK1_META_OFFSET_def
    by (simp only: m1 m2 p1 p2 length_replicate length_aes_cmac)
qed

lemma build_keys_layout:
  assumes "length bk = 16" "length ck = 16"
  shows "build_keys key bk ck (zeros 32 @ r) = aes_cbc_encrypt (the_ctx key) (zeros 16) (bk @ ck) @ r"
proof -
  have 1: "put 0 bk (zeros 32 @ r) = bk @ zeros 16 @ r"
    using assms put_at [of "[]" 0 bk "zeros 16" "zeros 16 @ r"] by (simp flip: replicate_add append_assoc)
  have 2: "put 16 ck (bk @ zeros 16 @ r) = bk @ ck @ r"
    using assms by (intro put_at) simp_all
  show ?thesis
    unfolding build_keys_def Let_def using assms put_at [of "[]" 0 _ "bk @ ck" r] by (simp add: 1 2)
qed

text \<open>The blob a successful build leaves in the buffer is laid out as \<^verbatim>\<open>kirk.h\<close> says.\<close>

definition kirk_blob :: "u8 list \<Rightarrow> u8 list \<Rightarrow> u8 list \<Rightarrow> u8 list \<Rightarrow> u32 \<Rightarrow> u32 \<Rightarrow> u8 list" where
  "kirk_blob kirk1_key body_key cmac_key data data_len pad =
     (let m = kirk_meta data_len pad;
          body = aes_cbc_encrypt (the_ctx body_key) (zeros 16)
            (data @ zeros (pad16 (unat data_len) - unat data_len));
          b = zeros (unat pad) @ body
      in aes_cbc_encrypt (the_ctx kirk1_key) (zeros 16) (body_key @ cmac_key) @
         aes_cmac cmac_key 128 m @ aes_cmac cmac_key 128 (m @ b) @ zeros 0x20 @ m @ b)"

lemma kirk_cmd1_build_layout:
  assumes k: "length body_key = 16" "length cmac_key = 16"
    and d: "length data = unat data_len"
    and t: "t = KIRK1_HEADER_SIZE + unat pad + pad16 (unat data_len)" and cap: "t \<le> length out"
  shows "kirk_cmd1_build kirk1_key body_key cmac_key data data_len pad out =
      (KIRK_OK, kirk_blob kirk1_key body_key cmac_key data data_len pad @ drop t out, Some t)"
proof -
  let ?p = "unat pad" and ?n = "unat data_len"
  let ?bp = "pad16 ?n" and ?M = "kirk_meta data_len pad"
  let ?T = "drop (0x90 + ?p + ?bp) out"
  let ?B = "aes_cbc_encrypt (the_ctx body_key) (zeros 16) (data @ zeros (?bp - ?n))"
  have z60: "zeros 0x60 = zeros 0x20 @ zeros 0x10 @ zeros 0x10 @ zeros 0x20"
    by (simp flip: replicate_add)
  have b: "build_body body_key data data_len (0x90 + ?p) ?bp (zeros 0x60 @ ?M @ zeros ?p @ zeros ?bp @ ?T) =
      zeros 0x60 @ ?M @ zeros ?p @ ?B @ ?T"
    using build_body_layout [of "zeros 0x60 @ ?M @ zeros ?p" "0x90 + ?p" data data_len ?bp body_key ?T] d pad16_ge
    by simp
  have m: "build_macs cmac_key (0x30 + ?p + ?bp) (zeros 0x60 @ ?M @ zeros ?p @ ?B @ ?T) =
      zeros 0x20 @ aes_cmac cmac_key 128 ?M @ aes_cmac cmac_key 128 (?M @ zeros ?p @ ?B) @ zeros 0x20 @ ?M @
        zeros ?p @ ?B @ ?T"
    unfolding z60
    using build_macs_layout [of "zeros 0x20" ?M "zeros ?p @ ?B" "?p + ?bp" cmac_key ?T] d pad16_ge(1) [of ?n]
    by (simp add: add.assoc)
  have "\<not> length out < 0x90 + ?p + ?bp" "t = 0x90 + ?p + ?bp"
    using cap t by (simp_all add: KIRK1_HEADER_SIZE_def)
  then show ?thesis
    unfolding kirk_cmd1_build_def Let_def KIRK1_HEADER_SIZE_def KIRK1_META_SIZE_def kirk_blob_def
    by (simp only: if_False put_zeros build_meta_layout b m build_keys_layout [OF k] append_assoc)
qed

section \<open>Decrypting\<close>

lemma kirk_blob_slices:
  fixes kirk1_key body_key cmac_key data :: "u8 list"
  assumes k: "length body_key = 16" "length cmac_key = 16" and d: "length data = unat n"
    and t: "t = 0x90 + unat p + pad16 (unat n)"
  defines "blob \<equiv> kirk_blob kirk1_key body_key cmac_key data n p"
    and "m \<equiv> kirk_meta n p"
    and "body \<equiv> aes_cbc_encrypt (the_ctx body_key) (zeros 16) (data @ zeros (pad16 (unat n) - unat n))"
  shows "length blob = t" "take 0x20 blob = aes_cbc_encrypt (the_ctx kirk1_key) (zeros 16) (body_key @ cmac_key)"
    "take 16 (drop 0x20 blob) = aes_cmac cmac_key 128 m"
    "take 16 (drop 0x30 blob) = aes_cmac cmac_key 128 (m @ zeros (unat p) @ body)"
    "drop 0x60 blob = m @ zeros (unat p) @ body"
    "drop (0x90 + unat p) blob = body" "length body = pad16 (unat n)"
proof -
  let ?K = "aes_cbc_encrypt (the_ctx kirk1_key) (zeros 16) (body_key @ cmac_key)"
  let ?H = "aes_cmac cmac_key 128 m" and ?D = "aes_cmac cmac_key 128 (m @ zeros (unat p) @ body)"
  have b: "blob = ?K @ ?H @ ?D @ zeros 0x20 @ m @ zeros (unat p) @ body"
    by (simp add: blob_def kirk_blob_def Let_def m_def body_def)
  have lK: "length ?K = 0x20" and lm: "length m = 0x30" using k by (simp_all add: m_def)
  show lb: "length body = pad16 (unat n)"
    using d pad16_ge(1) [of "unat n"] by (simp add: body_def)
  show "length blob = t" unfolding b t using lK lm lb by simp
  show "take 0x20 blob = ?K" unfolding b using lK by simp
  show "take 16 (drop 0x20 blob) = ?H"
    unfolding b using lK by (intro slice_at) simp_all
  show "take 16 (drop 0x30 blob) = ?D"
    unfolding b using slice_at [of "?K @ ?H" "0x30" ?D 16 "zeros 0x20 @ m @ zeros (unat p) @ body"] lK by simp
  have dr: "drop i (xs @ ys) = ys" if "length xs = i" for i and xs ys :: "u8 list" using that by simp
  show "drop 0x60 blob = m @ zeros (unat p) @ body"
    unfolding b using dr [of "?K @ ?H @ ?D @ zeros 0x20" "0x60" "m @ zeros (unat p) @ body"] lK by simp
  show "drop (0x90 + unat p) blob = body"
    unfolding b using dr [of "?K @ ?H @ ?D @ zeros 0x20 @ m @ zeros (unat p)" "0x90 + unat p" body] lK lm by simp
qed

lemma read_meta_blob:
  assumes "drop 0x60 buf = kirk_meta n p @ r"
  shows "read_meta buf = \<lparr>mode = 1, use_ecdsa = 0, is_devkit = 0, data_size = n, data_offset = p,
    header_cmac_ok = False, data_cmac_ok = False\<rparr>"
proof -
  have r: "rd32le (xs @ ys) = rd32le xs" if "4 \<le> length xs" for xs ys
    using that by (auto simp: rd32le_def nth_append)
  have "rd32le (drop k (kirk_meta n p @ r)) = rd32le (drop k (kirk_meta n p))" if "k + 4 \<le> 0x30" for k
    using that r [of "drop k (kirk_meta n p)"] by simp
  from this [of 4] this [of 12] this [of 16] this [of 20] r [of "kirk_meta n p" r]
  show ?thesis unfolding read_meta_def KIRK1_META_OFFSET_def assms by (simp add: Let_def KIRK1_MODE_CMD1_def)
qed

text \<open>
  C9. A blob built with a key is accepted by that key: both MACs match, and the buffer holds, at
  the reported offset, the data the blob was built from, whatever the length and the padding.
\<close>

theorem kirk_build_decrypt:
  assumes k: "length body_key = 16" "length cmac_key = 16"
    and d: "length data = unat data_len"
    and cap: "KIRK1_HEADER_SIZE + unat pad + pad16 (unat data_len) \<le> length out"
  shows "\<exists>blob total buf' info' off.
    kirk_cmd1_build kirk1_key body_key cmac_key data data_len pad out = (KIRK_OK, blob, Some total) \<and>
    drop total blob = drop total out \<and>
    kirk_cmd1_decrypt kirk1_key (take total blob) info = (KIRK_OK, buf', info', Some (off, data_len)) \<and>
    take (unat data_len) (drop off buf') = data \<and> off + unat data_len \<le> total \<and>
    header_cmac_ok info' \<and> data_cmac_ok info'"
proof -
  define total where "total = KIRK1_HEADER_SIZE + unat pad + pad16 (unat data_len)"
  define buf where "buf = kirk_blob kirk1_key body_key cmac_key data data_len pad"
  define body where
    "body = aes_cbc_encrypt (the_ctx body_key) (zeros 16) (data @ zeros (pad16 (unat data_len) - unat data_len))"
  let ?n = "unat data_len" and ?p = "unat pad"
  let ?info = "\<lparr>mode = 1, use_ecdsa = 0, is_devkit = 0, data_size = data_len, data_offset = pad,
    header_cmac_ok = True, data_cmac_ok = True\<rparr>"
  have t: "total = 0x90 + ?p + pad16 ?n" by (simp add: total_def KIRK1_HEADER_SIZE_def)
  note sl = kirk_blob_slices(1-6) [OF k d t, of kirk1_key, folded buf_def body_def]
    kirk_blob_slices(7) [OF k d t, folded body_def]
  have build: "kirk_cmd1_build kirk1_key body_key cmac_key data data_len pad out = (KIRK_OK, buf @ drop total out, Some total)"
    unfolding buf_def using kirk_cmd1_build_layout [OF k d total_def] cap by (simp add: total_def)
  note rm = read_meta_blob [OF sl(5)]
  have keys: "aes_cbc_decrypt (the_ctx kirk1_key) (zeros 16) (take 0x20 buf) = body_key @ cmac_key"
    unfolding sl(2) by (rule cbc_undo) simp
  have hm: "take 0x30 (drop 0x60 buf) = kirk_meta data_len pad" unfolding sl(5) by simp
  have dm: "take (0x30 + ?p + pad16 ?n) (drop 0x60 buf) = kirk_meta data_len pad @ zeros ?p @ body"
    unfolding sl(5) using sl(7) by simp
  have pl: "take (pad16 ?n) (drop (0x90 + ?p) buf) = body" unfolding sl(6) using sl(7) by simp
  have pt: "aes_cbc_decrypt (the_ctx body_key) (zeros 16) body = data @ zeros (pad16 ?n - ?n)"
    unfolding body_def by (rule cbc_undo) simp
  let ?buf' = "put (0x90 + ?p) (data @ zeros (pad16 ?n - ?n)) buf"
  have dec: "kirk_cmd1_decrypt kirk1_key buf info = (KIRK_OK, ?buf', ?info, Some (0x90 + ?p, data_len))"
    unfolding kirk_cmd1_decrypt_def Let_def KIRK1_HEADER_SIZE_def KIRK1_META_SIZE_def KIRK1_META_OFFSET_def
      KIRK1_MODE_CMD1_def rm aes_init_the_ctx option.case keys kirk1_info.simps hm dm pl sl(1,3,4)
    using k by (simp add: t cmac_equal_iff pt pl)
  have "take ?n (drop (0x90 + ?p) ?buf') = data"
    using d pad16_ge(1) [of ?n] sl(1) t by (simp add: drop_put)
  moreover have "take total (buf @ drop total out) = buf" "drop total (buf @ drop total out) = drop total out"
    using sl(1) by simp_all
  ultimately show ?thesis
    using build dec pad16_ge(1) [of ?n] t
    by (intro exI [of _ "buf @ drop total out"] exI [of _ total] exI [of _ ?buf'] exI [of _ ?info]
          exI [of _ "0x90 + ?p"]) simp
qed

theorem kirk_build_decrypt_witness:
  "\<exists>blob total buf' info' off.
    kirk_cmd1_build (replicate 16 7) (replicate 16 1) (replicate 16 2) [10, 20, 30] 3 5 (replicate 200 0) =
      (KIRK_OK, blob, Some total) \<and>
    drop total blob = drop total (replicate 200 0) \<and>
    kirk_cmd1_decrypt (replicate 16 7) (take total blob) (read_meta []) = (KIRK_OK, buf', info', Some (off, 3)) \<and>
    take (unat (3 :: u32)) (drop off buf') = [10, 20, 30] \<and> off + unat (3 :: u32) \<le> total \<and>
    header_cmac_ok info' \<and> data_cmac_ok info'"
  by (rule kirk_build_decrypt) (simp_all add: KIRK1_HEADER_SIZE_def pad16_def)

text \<open>
  What authenticates a blob: a CMD1 header whose extents lie in the buffer, and both MACs, under the key
  unwrapped from its first 32 bytes, over the metadata and over everything behind it up to the padded end
  of the body.
\<close>

definition kirk_keys :: "u8 list \<Rightarrow> u8 list \<Rightarrow> u8 list" where
  "kirk_keys key buf = aes_cbc_decrypt (the_ctx key) (replicate 16 0) (take 32 buf)"

definition kirk_authentic :: "u8 list \<Rightarrow> u8 list \<Rightarrow> bool" where
  "kirk_authentic key buf \<longleftrightarrow>
     (let h = read_meta buf; n = unat (data_offset h) + pad16 (unat (data_size h));
          mac = aes_cmac (drop 16 (kirk_keys key buf)) 128
      in mode h = 1 \<and> use_ecdsa h = 0 \<and> 0x90 + n \<le> length buf \<and>
         mac (take 0x30 (drop 0x60 buf)) = take 16 (drop 0x20 buf) \<and>
         mac (take (0x30 + n) (drop 0x60 buf)) = take 16 (drop 0x30 buf))"

text \<open>
  C21. Whatever the buffer holds, it is decrypted exactly when it is authentic: its size and header are
  valid, its extents lie inside it, and the two MACs computed with the unwrapped key are the 16 bytes
  stored at 0x20 and at 0x30. Then the only bytes that change are those of the padded body, which become
  its CBC decryption under the other unwrapped key, and its place and length are reported. Any other
  buffer is refused and left as it was.
\<close>

theorem kirk_decrypt_safe:
  "case kirk_cmd1_decrypt key buf info of (r, buf', info', res) \<Rightarrow>
     let h = read_meta buf; off = 0x90 + unat (data_offset h); n = pad16 (unat (data_size h))
     in if kirk_authentic key buf
        then r = KIRK_OK \<and> res = Some (off, data_size h) \<and>
             buf' = take off buf @ aes_cbc_decrypt (the_ctx (take 16 (kirk_keys key buf))) (replicate 16 0)
                      (take n (drop off buf)) @ drop (off + n) buf
        else r \<noteq> KIRK_OK \<and> res = None \<and> buf' = buf"
proof -
  let ?ck = "drop 16 (kirk_keys key buf)"
  let ?h = "read_meta buf"
  have l: "length (aes_cmac k b m) = 16" for k b m by (rule length_aes_cmac)
  have eq: "cmac_equal (aes_cmac ?ck 128 m) (take 16 (drop o1 buf)) \<longleftrightarrow> aes_cmac ?ck 128 m = take 16 (drop o1 buf)"
    if "o1 + 16 \<le> length buf" for m o1 using that l by (intro cmac_equal_iff) simp_all
  show ?thesis
  proof (cases "0x90 \<le> length buf \<and> mode ?h = 1 \<and> use_ecdsa ?h = 0 \<and>
      0x90 + (unat (data_offset ?h) + pad16 (unat (data_size ?h))) \<le> length buf")
    case False
    then show ?thesis
      unfolding kirk_cmd1_decrypt_def Let_def KIRK1_HEADER_SIZE_def KIRK1_META_SIZE_def KIRK1_META_OFFSET_def
        KIRK1_MODE_CMD1_def kirk_authentic_def aes_init_the_ctx option.case
      by auto
  next
    case True
    then have "\<not> length buf < 0x90" "\<not> (0x90 + unat (data_offset ?h) > length buf \<or>
        pad16 (unat (data_size ?h)) > length buf - (0x90 + unat (data_offset ?h)))"
      "\<not> 0x60 + (0x30 + unat (data_offset ?h) + pad16 (unat (data_size ?h))) > length buf"
      by auto
    then show ?thesis
      using True eq [of "0x20"] eq [of "0x30"]
      unfolding kirk_cmd1_decrypt_def Let_def KIRK1_HEADER_SIZE_def KIRK1_META_SIZE_def KIRK1_META_OFFSET_def
        KIRK1_MODE_CMD1_def kirk_authentic_def kirk_keys_def aes_init_the_ctx option.case
      by (simp add: put_def add.assoc split: if_splits)
  qed
qed

end
