(* ===== verification/Analyze.thy ===== *)
theory Analyze
  imports Decode
begin

unbundle bit_operations_syntax

text \<open>
  Function discovery, \<^verbatim>\<open>tools/allegrexrecomp/analyze.c\<close>: recursive descent over the code of a module
  from a set of seeds, splitting it into functions. The struct \<^verbatim>\<open>a_analysis\<close> is \<open>a_code\<close>, the part
  that is only read, and \<open>a_result\<close>, what discovery fills in; its counters live in \<open>walk_ctx\<close> while
  the walk runs. A growable list is the list of its elements, pushed and popped at its end;
  allocation is taken to succeed.

  The walk of one function and the drain of the work queue are loops whose end is not syntactically
  visible: they run with fuel, one unit per transition, and the lemmas show that the fuel given is
  always enough when the extent is a whole number of aligned words.
\<close>

section \<open>State\<close>

abbreviation (input) SEEN_CODE :: u8 where "SEEN_CODE \<equiv> 0x01"
abbreviation (input) SEEN_ENTRY :: u8 where "SEEN_ENTRY \<equiv> 0x02"
abbreviation (input) A_NO_OWNER :: u32 where "A_NO_OWNER \<equiv> 0xFFFFFFFF"

record a_func =
  f_addr :: u32
  f_start :: u32
  f_end :: u32
  f_insns :: u32
  f_has_return :: bool
  f_has_indirect :: bool
  f_has_vfpu :: bool

record a_code =
  code :: "u8 list"
  base :: u32
  extent :: u32
  stub_addr :: u32
  stub_size :: u32
  scan_calls :: bool
  scan_base :: u32
  scan_size :: u32
  a_image :: "u8 list option"
  image_base :: u32
  image_size :: u32
  text_size :: u32

record walk_ctx =
  seen :: "u8 list"
  entry_map :: "bool list"
  owner :: "u32 list"
  cur_owner :: u32
  func_queue :: "u32 list"
  w_imports :: "u32 list"
  w_indirects :: "u32 list"
  w_cross :: "u32 list"
  n_insns :: u64
  n_vfpu :: u64
  n_invalid :: u64

record a_result =
  r_funcs :: "a_func list"
  r_imports :: "u32 list"
  r_indirects :: "u32 list"
  r_ntables :: nat
  r_ntable_targets :: nat
  r_insns :: u64
  r_vfpu :: u64
  r_invalid :: u64
  r_bytes_reached :: u32
  r_owner :: "u32 list"
  r_text_size :: u32

section \<open>Addresses\<close>

definition word_index :: "a_code \<Rightarrow> u32 \<Rightarrow> u32" where
  "word_index an addr = drop_bit 2 (addr - base an)"

abbreviation widx :: "a_code \<Rightarrow> u32 \<Rightarrow> nat" where "widx an addr \<equiv> unat (word_index an addr)"

definition a_in_range :: "a_code \<Rightarrow> u32 \<Rightarrow> bool" where
  "a_in_range an addr \<longleftrightarrow> addr \<ge> base an \<and> addr < base an + extent an \<and> addr AND 3 = 0"

definition is_import_stub :: "a_code \<Rightarrow> u32 \<Rightarrow> bool" where
  "is_import_stub an addr \<longleftrightarrow>
     stub_size an \<noteq> 0 \<and> addr \<ge> stub_addr an \<and> addr < stub_addr an + stub_size an"

text \<open>The little-endian word at a byte offset.\<close>

definition le32_at :: "u8 list \<Rightarrow> u32 \<Rightarrow> u32" where
  "le32_at bs off = word_of_bytes (take 4 (drop (unat off) bs))"

definition fetch :: "a_code \<Rightarrow> u32 \<Rightarrow> u32" where
  "fetch an addr = le32_at (code an) (addr - base an)"

definition insn_at :: "a_code \<Rightarrow> u32 \<Rightarrow> a_insn" where
  "insn_at an addr = fst (a_decode (fetch an addr) addr)"

definition is_code :: "walk_ctx \<Rightarrow> nat \<Rightarrow> bool" where
  "is_code c i \<longleftrightarrow> seen c ! i AND SEEN_CODE \<noteq> 0"

definition is_known_entry :: "a_code \<Rightarrow> walk_ctx \<Rightarrow> u32 \<Rightarrow> bool" where
  "is_known_entry an c addr \<longleftrightarrow> a_in_range an addr \<and> entry_map c ! widx an addr"

section \<open>Walking one function\<close>

definition push_new :: "u32 \<Rightarrow> u32 list \<Rightarrow> u32 list" where
  "push_new x l = (if x \<in> set l then l else l @ [x])"

definition note_call :: "a_code \<Rightarrow> u32 \<Rightarrow> walk_ctx \<Rightarrow> walk_ctx" where
  "note_call an target c =
     (if is_import_stub an target then c\<lparr>w_imports := push_new target (w_imports c)\<rparr>
      else if \<not> a_in_range an target then c
      else c\<lparr>func_queue := func_queue c @ [target]\<rparr>)"

text \<open>The locals of \<^verbatim>\<open>trace_function\<close>, with the context it works on.\<close>

record trace_st =
  t_ctx :: walk_ctx
  blocks :: "u32 list"
  t_end :: u32
  t_lo :: u32
  t_insns :: u32
  t_return :: bool
  t_indirect :: bool
  t_vfpu :: bool

abbreviation upd_ctx :: "(walk_ctx \<Rightarrow> walk_ctx) \<Rightarrow> trace_st \<Rightarrow> trace_st" where
  "upd_ctx f st \<equiv> st\<lparr>t_ctx := f (t_ctx st)\<rparr>"

text \<open>Claiming a word for the current function.\<close>

definition claim :: "a_code \<Rightarrow> u32 \<Rightarrow> trace_st \<Rightarrow> trace_st" where
  "claim an a st =
     (let c = t_ctx st; i = widx an a in
      st\<lparr>t_ctx := c\<lparr>seen := (seen c)[i := seen c ! i OR SEEN_CODE],
            owner := (owner c)[i := cur_owner c], n_insns := n_insns c + 1\<rparr>,
         t_insns := t_insns st + 1\<rparr>)"

definition widen :: "u32 \<Rightarrow> trace_st \<Rightarrow> trace_st" where
  "widen a st = st\<lparr>t_end := (if a + 4 > t_end st then a + 4 else t_end st),
     t_lo := (if a < t_lo st then a else t_lo st)\<rparr>"

definition note_vfpu :: "a_insn \<Rightarrow> trace_st \<Rightarrow> trace_st" where
  "note_vfpu i st = (if i_op i = A_VFPU_UNKNOWN
     then (upd_ctx (\<lambda>c. c\<lparr>n_vfpu := n_vfpu c + 1\<rparr>) st)\<lparr>t_vfpu := True\<rparr> else st)"

definition note_invalid :: "a_insn \<Rightarrow> trace_st \<Rightarrow> trace_st" where
  "note_invalid i st = (if i_op i = A_INVALID
     then upd_ctx (\<lambda>c. c\<lparr>n_invalid := n_invalid c + 1\<rparr>) st else st)"

text \<open>The delay slot of the branch or jump at \<open>a\<close>.\<close>

definition visit_delay :: "a_code \<Rightarrow> u32 \<Rightarrow> trace_st \<Rightarrow> trace_st" where
  "visit_delay an a st =
     (let d = a + 4 in
      if a_in_range an d then
        (let din = insn_at an d;
             st = (if \<not> is_code (t_ctx st) (widx an d)
                   then note_invalid din (note_vfpu din (claim an d st)) else st)
         in widen d st)
      else st)"

text \<open>A target inside this function, unless another walk already claimed it.\<close>

definition push_block :: "a_code \<Rightarrow> u32 \<Rightarrow> trace_st \<Rightarrow> trace_st" where
  "push_block an t st =
     (let ti = widx an t in
      if is_code (t_ctx st) ti \<and> \<not> entry_map (t_ctx st) ! ti
      then upd_ctx (\<lambda>c. c\<lparr>w_cross := w_cross c @ [t]\<rparr>) st
      else st\<lparr>blocks := blocks st @ [t]\<rparr>)"

text \<open>An unconditional \<open>j\<close>: a loop back-edge, or a tail call.\<close>

definition follow_jump :: "a_code \<Rightarrow> u32 \<Rightarrow> u32 \<Rightarrow> u32 \<Rightarrow> trace_st \<Rightarrow> trace_st" where
  "follow_jump an entry a t st =
     (if t \<le> a \<and> a \<noteq> entry \<and> \<not> is_known_entry an (t_ctx st) t then push_block an t st
      else if \<not> entry_map (t_ctx st) ! widx an t
      then upd_ctx (\<lambda>c. c\<lparr>entry_map := (entry_map c)[widx an t := True],
             func_queue := func_queue c @ [t]\<rparr>) st
      else st)"

text \<open>Where the walk goes after the instruction \<open>i\<close> at \<open>a\<close>: on at an address, or no further.\<close>

definition follow :: "a_code \<Rightarrow> u32 \<Rightarrow> u32 \<Rightarrow> a_insn \<Rightarrow> trace_st \<Rightarrow> u32 option \<times> trace_st" where
  "follow an entry a i st =
     (if is_call i then
        (Some (a + 8),
         if has_target i \<and> \<not> is_indirect i \<and> \<not> is_get_pc i then upd_ctx (note_call an (i_target i)) st
         else if is_indirect i then st\<lparr>t_indirect := True\<rparr> else st)
      else if is_return i then (None, st\<lparr>t_return := True\<rparr>)
      else if is_indirect i then
        (None, (upd_ctx (\<lambda>c. c\<lparr>w_indirects := push_new a (w_indirects c)\<rparr>) st)\<lparr>t_indirect := True\<rparr>)
      else if is_branch i then
        (Some (a + 8),
         if has_target i \<and> a_in_range an (i_target i) then push_block an (i_target i) st else st)
      else if is_jump i then
        (None,
         if has_target i \<and> a_in_range an (i_target i) then follow_jump an entry a (i_target i) st else st)
      else (Some (a + 4), st))"

definition note_stub :: "a_code \<Rightarrow> a_insn \<Rightarrow> trace_st \<Rightarrow> trace_st" where
  "note_stub an i st =
     (if has_target i \<and> \<not> is_indirect i \<and> is_import_stub an (i_target i)
      then upd_ctx (\<lambda>c. c\<lparr>w_imports := push_new (i_target i) (w_imports c)\<rparr>) st else st)"

definition visit :: "a_code \<Rightarrow> u32 \<Rightarrow> u32 \<Rightarrow> trace_st \<Rightarrow> u32 option \<times> trace_st" where
  "visit an entry a st =
     (let i = insn_at an a;
          st = widen a (claim an a st)
      in if i_op i = A_INVALID then (None, note_invalid i st)
         else let st = note_vfpu i st;
                  st = (if has_delay_slot i then visit_delay an a st else st);
                  st = note_stub an i st
              in follow an entry a i st)"

text \<open>
  The two nested loops. \<open>Some a\<close> is the inner loop at \<open>a\<close>; \<open>None\<close> is the outer loop's test, which
  pops the next block.
\<close>

fun walk :: "nat \<Rightarrow> a_code \<Rightarrow> u32 \<Rightarrow> u32 option \<Rightarrow> trace_st \<Rightarrow> trace_st option" where
  "walk 0 an entry cur st = None"
| "walk (Suc fuel) an entry cur st =
     (case cur of
        None \<Rightarrow>
          (if blocks st = [] then Some st
           else walk fuel an entry (Some (last (blocks st))) (st\<lparr>blocks := butlast (blocks st)\<rparr>))
      | Some a \<Rightarrow>
          (if \<not> a_in_range an a then walk fuel an entry None st
           else if is_code (t_ctx st) (widx an a) then walk fuel an entry None st
           else if a \<noteq> entry \<and> is_known_entry an (t_ctx st) a then walk fuel an entry None st
           else let (cur, st) = visit an entry a st in walk fuel an entry cur st))"

definition nwords :: "a_code \<Rightarrow> nat" where
  "nwords an = unat (drop_bit 2 (extent an))"

definition walk_fuel :: "a_code \<Rightarrow> nat" where
  "walk_fuel an = 3 * nwords an + 3"

text \<open>\<open>Some (c, None)\<close> is a return of -1: nothing was decoded.\<close>

definition trace_function :: "a_code \<Rightarrow> u32 \<Rightarrow> walk_ctx \<Rightarrow> (walk_ctx \<times> a_func option) option" where
  "trace_function an entry c =
     (if \<not> a_in_range an entry then Some (c, None)
      else case walk (walk_fuel an) an entry None
                  \<lparr>t_ctx = c, blocks = [entry], t_end = entry, t_lo = entry, t_insns = 0,
                   t_return = False, t_indirect = False, t_vfpu = False\<rparr> of
          None \<Rightarrow> None
        | Some st \<Rightarrow>
            Some (t_ctx st,
              if t_insns st = 0 then None
              else Some \<lparr>f_addr = entry, f_start = t_lo st, f_end = t_end st, f_insns = t_insns st,
                f_has_return = t_return st, f_has_indirect = t_indirect st, f_has_vfpu = t_vfpu st\<rparr>))"

section \<open>Jump tables\<close>

abbreviation (input) JT_WINDOW :: nat where "JT_WINDOW \<equiv> 24"
abbreviation (input) JT_MAX_ENTRIES :: nat where "JT_MAX_ENTRIES \<equiv> 512"

definition image_read32 :: "a_code \<Rightarrow> u32 \<Rightarrow> u32" where
  "image_read32 an addr =
     (case a_image an of
        None \<Rightarrow> 0
      | Some img \<Rightarrow>
          (if addr < image_base an \<or> addr + 4 > image_base an + image_size an then 0
           else le32_at img (addr - image_base an)))"

text \<open>
  The backward searches all look at the words below an address, nearest first, for at most a window
  and never past the extent: \<open>back_addrs\<close> is the list of those addresses.
\<close>

definition back_addrs :: "a_code \<Rightarrow> nat \<Rightarrow> u32 \<Rightarrow> u32 list" where
  "back_addrs an window from =
     takeWhile (a_in_range an) (map (\<lambda>i. from - of_nat i * 4) [1..<Suc window])"

text \<open>The load that fed the register; an \<open>addiu\<close> to the register met first refutes the idiom.\<close>

fun find_lw :: "a_code \<Rightarrow> u8 \<Rightarrow> u32 list \<Rightarrow> u32 option" where
  "find_lw an reg [] = None"
| "find_lw an reg (a # as) =
     (let i = insn_at an a in
      if i_op i = A_LW \<and> i_rt i = reg then Some a
      else if i_op i = A_ADDIU \<and> i_rt i = reg then None
      else find_lw an reg as)"

definition find_addu :: "a_code \<Rightarrow> u8 \<Rightarrow> u32 \<Rightarrow> (u8 \<times> u8) option" where
  "find_addu an reg lw_addr =
     map_option (\<lambda>a. (i_rs (insn_at an a), i_rt (insn_at an a)))
       (find (\<lambda>a. i_op (insn_at an a) = A_ADDU \<and> i_rd (insn_at an a) = reg) (back_addrs an JT_WINDOW lw_addr))"

text \<open>The \<open>lui\<close> that set the source of the \<open>addiu\<close> at \<open>a\<close>.\<close>

definition find_lui :: "a_code \<Rightarrow> u32 \<Rightarrow> u32 option" where
  "find_lui an a =
     map_option (\<lambda>b. push_bit 16 (i_imm (insn_at an b)) + i_imm (insn_at an a))
       (find (\<lambda>b. i_op (insn_at an b) = A_LUI \<and> i_rt (insn_at an b) = i_rs (insn_at an a))
          (back_addrs an JT_WINDOW a))"

fun first_some :: "('a \<Rightarrow> 'b option) \<Rightarrow> 'a list \<Rightarrow> 'b option" where
  "first_some f [] = None"
| "first_some f (x # xs) = (case f x of None \<Rightarrow> first_some f xs | Some y \<Rightarrow> Some y)"

definition find_base :: "a_code \<Rightarrow> u32 \<Rightarrow> u8 \<Rightarrow> u32 option" where
  "find_base an lw_addr reg =
     first_some (find_lui an)
       (filter (\<lambda>a. i_op (insn_at an a) = A_ADDIU \<and> i_rt (insn_at an a) = reg) (back_addrs an JT_WINDOW lw_addr))"

definition table_limit :: "a_code \<Rightarrow> u32 \<Rightarrow> nat" where
  "table_limit an site =
     (case find (\<lambda>a. let i = insn_at an a in
              i_op i = A_SLTIU \<and> 0 < sint (i_imm i) \<and> unat (i_imm i) \<le> JT_MAX_ENTRIES)
            (back_addrs an (JT_WINDOW * 2) site) of
        None \<Rightarrow> JT_MAX_ENTRIES
      | Some a \<Rightarrow> unat (i_imm (insn_at an a)))"

definition is_code_pointer :: "a_code \<Rightarrow> u32 \<Rightarrow> bool" where
  "is_code_pointer an v \<longleftrightarrow> a_in_range an v \<and> i_op (insn_at an v) \<noteq> A_INVALID"

definition read_table :: "a_code \<Rightarrow> u32 \<Rightarrow> nat \<Rightarrow> u32 list" where
  "read_table an table limit =
     takeWhile (is_code_pointer an) (map (\<lambda>i. image_read32 an (table + of_nat i * 4)) [0..<limit])"

text \<open>The targets pushed for one \<open>jr\<close> site; the number returned is their count.\<close>

definition resolve_jump_table :: "a_code \<Rightarrow> u32 \<Rightarrow> u32 list" where
  "resolve_jump_table an site =
     (if a_image an = None then []
      else case find_lw an (i_rs (insn_at an site)) (back_addrs an JT_WINDOW site) of
          None \<Rightarrow> []
        | Some lw_addr \<Rightarrow>
           (if lw_addr = 0 then []
            else let lw = insn_at an lw_addr in
              case find_addu an (i_rs lw) lw_addr of
                None \<Rightarrow> []
              | Some (c0, c1) \<Rightarrow>
                 (case first_some (find_base an lw_addr) [c0, c1] of
                    None \<Rightarrow> []
                  | Some hi_lo \<Rightarrow>
                     (let taken = read_table an (hi_lo + i_imm lw) (table_limit an site)
                      in if length taken < 2 then [] else taken))))"

section \<open>Discovery\<close>

text \<open>A seed, or a harvested target that is new: marked as an entry and queued.\<close>

definition add_seed :: "a_code \<Rightarrow> u32 \<Rightarrow> walk_ctx \<Rightarrow> walk_ctx" where
  "add_seed an s c =
     (if a_in_range an s
      then c\<lparr>entry_map := (entry_map c)[widx an s := True], func_queue := func_queue c @ [s]\<rparr> else c)"

definition add_entry :: "a_code \<Rightarrow> u32 \<Rightarrow> walk_ctx \<Rightarrow> walk_ctx" where
  "add_entry an t c =
     (if entry_map c ! widx an t then c
      else c\<lparr>entry_map := (entry_map c)[widx an t := True], func_queue := func_queue c @ [t]\<rparr>)"

text \<open>
  The linear scan: a 32-bit offset steps by four as long as \<open>off + 4 \<le> ssize\<close>, a 32-bit sum. The loop
  does not end for an \<open>ssize\<close> of \<open>0xFFFFFFFC\<close> or more, so its result is an option.
\<close>

definition sbase :: "a_code \<Rightarrow> u32" where
  "sbase an = (if scan_size an \<noteq> 0 then scan_base an else base an)"

definition ssize :: "a_code \<Rightarrow> u32" where
  "ssize an = (if scan_size an \<noteq> 0 then scan_size an else extent an)"

partial_function (option) scan_loop ::
    "a_code \<Rightarrow> (u32 \<Rightarrow> walk_ctx \<Rightarrow> walk_ctx) \<Rightarrow> u32 \<Rightarrow> walk_ctx \<Rightarrow> walk_ctx option" where
  "scan_loop an harvest off c =
     (if off + 4 \<le> ssize an
      then let a = sbase an + off
           in scan_loop an harvest (off + 4) (if \<not> a_in_range an a then c else harvest a c)
      else Some c)"

definition harvest_call :: "a_code \<Rightarrow> u32 \<Rightarrow> walk_ctx \<Rightarrow> walk_ctx" where
  "harvest_call an a c =
     (let i = insn_at an a in
      if i_op i \<noteq> A_JAL \<or> \<not> has_target i \<or> is_get_pc i then c
      else if \<not> a_in_range an (i_target i) \<or> is_import_stub an (i_target i) then c
      else add_entry an (i_target i) c)"

text \<open>The value a \<open>lui\<close> at \<open>a\<close> forms with an \<open>addiu\<close> or \<open>ori\<close> in the next four words.\<close>

fun pair_value :: "a_code \<Rightarrow> a_insn \<Rightarrow> u32 list \<Rightarrow> u32 option" where
  "pair_value an i [] = None"
| "pair_value an i (b # bs) =
     (let i2 = insn_at an b in
      if \<not> a_in_range an b then None
      else if i_op i2 = A_LUI \<and> i_rt i2 = i_rt i then None
      else if (i_op i2 = A_ADDIU \<or> i_op i2 = A_ORI) \<and> i_rs i2 = i_rt i
      then Some (if i_op i2 = A_ORI then push_bit 16 (i_imm i) OR i_imm i2
                 else push_bit 16 (i_imm i) + i_imm i2)
      else pair_value an i bs)"

definition harvest_pointer :: "a_code \<Rightarrow> u32 \<Rightarrow> walk_ctx \<Rightarrow> walk_ctx" where
  "harvest_pointer an a c =
     (let i = insn_at an a in
      if i_op i \<noteq> A_LUI then c
      else case pair_value an i [a + 4, a + 8, a + 12, a + 16] of
          None \<Rightarrow> c
        | Some addr \<Rightarrow>
           (if a_in_range an addr \<and> \<not> is_import_stub an addr \<and> addr - sbase an < ssize an \<and>
               i_op (insn_at an addr) \<noteq> A_INVALID
            then add_entry an addr c else c))"

definition start_ctx :: "a_code \<Rightarrow> walk_ctx" where
  "start_ctx an = \<lparr>seen = replicate (nwords an) 0, entry_map = replicate (nwords an) False,
     owner = replicate (nwords an) A_NO_OWNER, cur_owner = A_NO_OWNER, func_queue = [], w_imports = [],
     w_indirects = [], w_cross = [], n_insns = 0, n_vfpu = 0, n_invalid = 0\<rparr>"

definition find_entries :: "a_code \<Rightarrow> u32 list \<Rightarrow> walk_ctx option" where
  "find_entries an seeds =
     (let c = fold (add_seed an) seeds (start_ctx an)
      in case (if scan_calls an then scan_loop an (harvest_call an) 0 c else Some c) of
           None \<Rightarrow> None
         | Some c \<Rightarrow> if scan_calls an then scan_loop an (harvest_pointer an) 0 c else Some c)"

text \<open>The drain of the queue: functions are appended as they are traced.\<close>

fun drain :: "nat \<Rightarrow> a_code \<Rightarrow> a_func list \<Rightarrow> walk_ctx \<Rightarrow> (a_func list \<times> walk_ctx) option" where
  "drain 0 an funcs c = None"
| "drain (Suc fuel) an funcs c =
     (if func_queue c = [] then Some (funcs, c)
      else let entry = last (func_queue c); c = c\<lparr>func_queue := butlast (func_queue c)\<rparr>;
               i = widx an entry in
        if \<not> a_in_range an entry then drain fuel an funcs c
        else if seen c ! i AND SEEN_ENTRY \<noteq> 0 then drain fuel an funcs c
        else case trace_function an entry
                    (c\<lparr>seen := (seen c)[i := seen c ! i OR SEEN_ENTRY], cur_owner := entry\<rparr>) of
            None \<Rightarrow> None
          | Some (c, None) \<Rightarrow> drain fuel an funcs c
          | Some (c, Some f) \<Rightarrow> drain fuel an (funcs @ [f]) c)"

definition drain_fuel :: "a_code \<Rightarrow> walk_ctx \<Rightarrow> nat" where
  "drain_fuel an c = 2 * nwords an + length (func_queue c) + 1"

text \<open>The new entries a round promotes: table targets and shared blocks.\<close>

definition promote :: "a_code \<Rightarrow> u32 list \<Rightarrow> bool list \<Rightarrow> bool list \<times> nat" where
  "promote an targets em =
     fold (\<lambda>t (em, added).
       if \<not> a_in_range an t \<or> em ! widx an t then (em, added)
       else (em[widx an t := True], added + 1)) targets (em, 0)"

definition entry_addrs :: "a_code \<Rightarrow> bool list \<Rightarrow> u32 list" where
  "entry_addrs an em = map (\<lambda>i. base an + of_nat i * 4) (filter (\<lambda>i. em ! i) [0..<nwords an])"

text \<open>A clean slate for a re-walk with the complete entry set.\<close>

definition rewalk :: "a_code \<Rightarrow> walk_ctx \<Rightarrow> walk_ctx" where
  "rewalk an c = c\<lparr>seen := replicate (nwords an) 0, owner := replicate (nwords an) A_NO_OWNER,
     n_insns := 0, n_vfpu := 0, n_invalid := 0,
     func_queue := func_queue c @ entry_addrs an (entry_map c)\<rparr>"

record disc_st =
  d_ctx :: walk_ctx
  d_funcs :: "a_func list"
  d_ntables :: nat
  d_ntable_targets :: nat

text \<open>The start of a round after the first; the flag says whether to go on.\<close>

definition next_round :: "a_code \<Rightarrow> disc_st \<Rightarrow> disc_st \<times> bool" where
  "next_round an d =
     (let c = d_ctx d in
      if a_image an = None \<and> w_cross c = [] \<and> w_indirects c = [] then (d, False)
      else let tables = map (resolve_jump_table an) (w_indirects c);
               targets = concat tables @ w_cross c;
               d = d\<lparr>d_ntables := d_ntables d + length (filter (\<lambda>t. t \<noteq> []) tables),
                     d_ntable_targets := d_ntable_targets d + length (concat tables)\<rparr>;
               (em, added) = promote an targets (entry_map c);
               c = c\<lparr>w_cross := [], w_indirects := [], entry_map := em\<rparr>
           in if added = 0 then (d\<lparr>d_ctx := c\<rparr>, False)
              else let c = rewalk an c in
                (d\<lparr>d_ctx := c, d_funcs := []\<rparr>, func_queue c \<noteq> []))"

definition run_drain :: "a_code \<Rightarrow> disc_st \<Rightarrow> disc_st option" where
  "run_drain an d =
     map_option (\<lambda>(funcs, c). d\<lparr>d_funcs := funcs, d_ctx := c\<rparr>)
       (drain (drain_fuel an (d_ctx d)) an (d_funcs d) (d_ctx d))"

text \<open>\<open>more_rounds n\<close> is at most \<open>n\<close> further rounds.\<close>

primrec more_rounds :: "nat \<Rightarrow> a_code \<Rightarrow> disc_st \<Rightarrow> disc_st option" where
  "more_rounds 0 an d = Some d"
| "more_rounds (Suc n) an d =
     (let (d, go) = next_round an d in
      if \<not> go then Some d
      else case run_drain an d of None \<Rightarrow> None | Some d \<Rightarrow> more_rounds n an d)"

definition a_discover :: "a_code \<Rightarrow> u32 list \<Rightarrow> a_result option" where
  "a_discover an seeds =
     (case find_entries an seeds of None \<Rightarrow> None
      | Some c \<Rightarrow>
     (case run_drain an \<lparr>d_ctx = c, d_funcs = [], d_ntables = 0, d_ntable_targets = 0\<rparr> of
        None \<Rightarrow> None
      | Some d \<Rightarrow>
         (case more_rounds 7 an d of
            None \<Rightarrow> None
          | Some d \<Rightarrow>
             (let c = d_ctx d in
              Some \<lparr>r_funcs = sort_key f_addr (d_funcs d), r_imports = w_imports c,
                r_indirects = w_indirects c, r_ntables = d_ntables d,
                r_ntable_targets = d_ntable_targets d, r_insns = n_insns c, r_vfpu = n_vfpu c,
                r_invalid = n_invalid c,
                r_bytes_reached = of_nat (4 * length (filter (is_code c) [0..<nwords an])),
                r_owner = owner c,
                r_text_size = (if text_size an = 0 \<and> stub_addr an \<noteq> 0 \<and> stub_size an \<noteq> 0
                  then stub_addr an + stub_size an - base an else text_size an)\<rparr>))))"

text \<open>Words of a data region that point at code; the caller's array keeps the first \<open>cap\<close>.\<close>

definition a_scan_data_pointers :: "a_code \<Rightarrow> u8 list \<Rightarrow> nat \<Rightarrow> u32 list \<times> nat" where
  "a_scan_data_pointers an region cap =
     (let found = filter (is_code_pointer an)
            (map (\<lambda>k. le32_at region (of_nat (4 * k))) [0..<length region div 4])
      in (take cap found, length found))"

section \<open>Addresses of words\<close>

text \<open>The extent is a whole number of aligned words, all of them in the buffer.\<close>

definition an_ok :: "a_code \<Rightarrow> bool" where
  "an_ok an \<longleftrightarrow> base an AND 3 = 0 \<and> extent an AND 3 = 0 \<and> length (code an) = unat (extent an)"

definition waddr :: "a_code \<Rightarrow> nat \<Rightarrow> nat" where
  "waddr an i = unat (base an) + 4 * i"

lemma and_3_iff: "(w :: u32) AND 3 = 0 \<longleftrightarrow> unat w mod 4 = 0"
proof -
  have "(3 :: u32) = mask 2" by (simp add: mask_eq_decr_exp)
  then show ?thesis using and_mask_unat [of w 2] by (simp add: unat_eq_0 [symmetric])
qed

lemma unat_drop_bit_2: "unat (drop_bit 2 (w :: u32)) = unat w div 4"
  by (simp only: unat_drop_bit_eq) (simp add: drop_bit_eq_div)

lemma nwords_div: "nwords an = unat (extent an) div 4"
  by (simp only: nwords_def unat_drop_bit_2)

lemma in_rangeD:
  assumes "an_ok an" and "a_in_range an a"
  shows "waddr an (widx an a) = unat a" "widx an a < nwords an" "unat a + 4 \<le> unat (base an) + unat (extent an)"
    "unat (base an) \<le> unat a" "unat (base an) + unat (extent an) < 2 ^ 32"
proof -
  let ?b = "unat (base an)" and ?e = "unat (extent an)"
  have le: "?b \<le> unat a" using assms(2) by (simp add: a_in_range_def word_le_nat_alt)
  have lt: "unat a < unat (base an + extent an)" using assms(2) by (simp add: a_in_range_def word_less_nat_alt)
  show no: "?b + ?e < 2 ^ 32"
  proof (rule ccontr)
    assume "\<not> ?thesis"
    then have "unat (base an + extent an) = ?b + ?e - 2 ^ 32"
      using unat_u32_less [of "base an"] unat_u32_less [of "extent an"]
      by (simp add: unat_word_ariths(1) mod_if)
    then show False using lt le unat_u32_less [of "extent an"] by simp
  qed
  then have lt': "unat a < ?b + ?e" using lt by (simp add: unat_word_ariths(1))
  have al: "unat a mod 4 = 0" "?b mod 4 = 0" "?e mod 4 = 0"
    using assms by (simp_all add: a_in_range_def an_ok_def and_3_iff)
  from al obtain p q n where pq: "unat a = 4 * p" "?b = 4 * q" "?e = 4 * n"
    by (metis mod_eq_0_iff_dvd dvd_def)
  show "unat a + 4 \<le> ?b + ?e" using lt' unfolding pq by presburger
  show "?b \<le> unat a" by (rule le)
  have i: "widx an a = (unat a - ?b) div 4"
    using le unfolding word_index_def unat_drop_bit_2 by (simp add: unat_sub word_le_nat_alt)
  show "waddr an (widx an a) = unat a" unfolding waddr_def i using le unfolding pq by simp
  show "widx an a < nwords an" unfolding i nwords_div using le lt' unfolding pq by simp
qed

lemma waddr_inj: "waddr an i = waddr an j \<longleftrightarrow> i = j"
  by (simp add: waddr_def)

lemma widx_inj:
  "an_ok an \<Longrightarrow> a_in_range an a \<Longrightarrow> a_in_range an b \<Longrightarrow> widx an a = widx an b \<Longrightarrow> a = b"
  using in_rangeD(1) [of an a] in_rangeD(1) [of an b] by (simp add: word_unat_eq_iff)

lemma unat_next_word: "an_ok an \<Longrightarrow> a_in_range an a \<Longrightarrow> unat (a + 4) = unat a + 4 \<or> unat (a + 4) = 0"
  using in_rangeD(3,5) [of an a] by (simp add: unat_word_ariths(1) mod_if)

lemma unat_after: "an_ok an \<Longrightarrow> a_in_range an a \<Longrightarrow> unat (a + 4) = unat a + 4"
  using in_rangeD(3,5) [of an a] by (simp add: unat_word_ariths(1))

text \<open>
  An extent that is not a whole number of words admits an address beyond the last word of the
  bookkeeping arrays.
\<close>

theorem a_in_range_partial_word:
  "let an = \<lparr>code = replicate 6 0, base = 0x1000, extent = 6, stub_addr = 0, stub_size = 0, scan_calls = False,
     scan_base = 0, scan_size = 0, a_image = None, image_base = 0, image_size = 0, text_size = 0\<rparr>
   in a_in_range an 0x1004 \<and> widx an 0x1004 = nwords an \<and>
      unat (0x1004 - base an) + 4 > length (code an)"
  by (simp add: a_in_range_def word_index_def nwords_def Let_def)

section \<open>The words claimed so far\<close>

definition codes :: "u8 list \<Rightarrow> nat set" where
  "codes s = {i. i < length s \<and> s ! i AND SEEN_CODE \<noteq> 0}"

definition marked :: "u8 list \<Rightarrow> nat set" where
  "marked s = {i. i < length s \<and> s ! i AND SEEN_ENTRY \<noteq> 0}"

lemma flags:
  "(x OR 1) AND 1 \<noteq> (0 :: u8)" "(x OR 2) AND 2 \<noteq> (0 :: u8)"
  "(x OR 1) AND 2 = (x AND 2 :: u8)" "(x OR 2) AND 1 = (x AND 1 :: u8)"
  by (simp_all add: bit.conj_disj_distrib2)

lemma codes_claim [simp]: "i < length s \<Longrightarrow> codes (s[i := s ! i OR 1]) = insert i (codes s)"
  using flags by (auto simp: codes_def nth_list_update)

lemma marked_claim [simp]: "marked (s[i := s ! i OR 1]) = marked s"
  using flags by (cases "i < length s") (auto simp: marked_def nth_list_update)

lemma marked_entry [simp]: "i < length s \<Longrightarrow> marked (s[i := s ! i OR 2]) = insert i (marked s)"
  using flags by (auto simp: marked_def nth_list_update)

lemma codes_entry [simp]: "codes (s[i := s ! i OR 2]) = codes s"
  using flags by (cases "i < length s") (auto simp: codes_def nth_list_update)

lemma codes_sub: "codes s \<subseteq> {..<length s}"
  by (auto simp: codes_def)

lemma finite_codes [simp]: "finite (codes s)"
  using codes_sub finite_subset by blast

lemma card_codes: "card (codes s) \<le> length s"
  using card_mono [OF _ codes_sub [of s]] by simp

lemma codes_zeros [simp]: "codes (replicate n 0) = {}" "marked (replicate n 0) = {}"
  by (auto simp: codes_def marked_def)

section \<open>One walk\<close>

definition ctx_ok :: "a_code \<Rightarrow> walk_ctx \<Rightarrow> bool" where
  "ctx_ok an c \<longleftrightarrow> length (seen c) = nwords an \<and> length (entry_map c) = nwords an \<and> length (owner c) = nwords an"

text \<open>Every known entry is claimed or still queued.\<close>

definition entries_pending :: "a_code \<Rightarrow> walk_ctx \<Rightarrow> bool" where
  "entries_pending an c \<longleftrightarrow> (\<forall>i<nwords an. entry_map c ! i \<longrightarrow>
     i \<in> codes (seen c) \<or> (\<exists>a\<in>set (func_queue c). a_in_range an a \<and> widx an a = i))"

text \<open>
  What a walk from \<open>c\<^sub>0\<close> keeps true: the words it claimed are its own and inside its bounds, it counts
  them, and it queues no more functions than it claimed words; \<open>k\<close> is how many it may still queue.
\<close>

definition trace_inv :: "a_code \<Rightarrow> walk_ctx \<Rightarrow> nat \<Rightarrow> trace_st \<Rightarrow> bool" where
  "trace_inv an c0 k st \<longleftrightarrow>
     (let c = t_ctx st; new = codes (seen c) - codes (seen c0) in
      ctx_ok an c \<and> cur_owner c = cur_owner c0 \<and> codes (seen c0) \<subseteq> codes (seen c) \<and>
      marked (seen c) = marked (seen c0) \<and>
      (\<forall>i<nwords an. owner c ! i = (if i \<in> new then cur_owner c0 else owner c0 ! i)) \<and>
      (\<forall>i\<in>new. unat (t_lo st) \<le> waddr an i \<and> waddr an i + 4 \<le> unat (t_end st)) \<and>
      t_insns st = of_nat (card new) \<and> n_insns c = n_insns c0 + of_nat (card new) \<and>
      length (func_queue c) + k \<le> length (func_queue c0) + card new \<and>
      set (func_queue c0) \<subseteq> set (func_queue c) \<and>
      (\<forall>i<nwords an. entry_map c0 ! i \<longrightarrow> entry_map c ! i) \<and>
      (\<forall>i<nwords an. entry_map c ! i \<longrightarrow> entry_map c0 ! i \<or> (\<exists>a\<in>set (func_queue c). a_in_range an a \<and> widx an a = i)))"

lemmas trace_defs = trace_inv_def Let_def ctx_ok_def

lemma trace_inv_weaken: "trace_inv an c0 k st \<Longrightarrow> j \<le> k \<Longrightarrow> trace_inv an c0 j st"
  by (auto simp: trace_defs)

lemma trace_inv_notes:
  assumes "trace_inv an c0 k st"
  shows "trace_inv an c0 k (note_vfpu i st)" "trace_inv an c0 k (note_invalid i st)"
    "trace_inv an c0 k (note_stub an i st)" "trace_inv an c0 k (st\<lparr>blocks := bs\<rparr>)"
    "trace_inv an c0 k (st\<lparr>t_return := b\<rparr>)" "trace_inv an c0 k (st\<lparr>t_indirect := b\<rparr>)"
    "trace_inv an c0 k (upd_ctx (\<lambda>c. c\<lparr>w_cross := cr c\<rparr>) st)"
    "trace_inv an c0 k (upd_ctx (\<lambda>c. c\<lparr>w_indirects := cr c\<rparr>) st)"
  using assms by (simp_all add: trace_defs note_vfpu_def note_invalid_def note_stub_def)

lemma seen_notes [simp]:
  "seen (t_ctx (note_vfpu i st)) = seen (t_ctx st)" "seen (t_ctx (note_invalid i st)) = seen (t_ctx st)"
  "seen (t_ctx (note_stub an i st)) = seen (t_ctx st)" "seen (t_ctx (widen a st)) = seen (t_ctx st)"
  "blocks (note_vfpu i st) = blocks st" "blocks (note_invalid i st) = blocks st"
  "blocks (note_stub an i st) = blocks st" "blocks (widen a st) = blocks st" "blocks (claim an a st) = blocks st"
  by (simp_all add: note_vfpu_def note_invalid_def note_stub_def widen_def claim_def Let_def)

lemma trace_inv_widen:
  assumes "trace_inv an c0 k st" shows "trace_inv an c0 k (widen a st)"
proof -
  have "unat (t_lo (widen a st)) \<le> unat (t_lo st)" "unat (t_end st) \<le> unat (t_end (widen a st))"
    by (auto simp: widen_def word_less_nat_alt)
  moreover have "t_ctx (widen a st) = t_ctx st" "t_insns (widen a st) = t_insns st" by (simp_all add: widen_def)
  moreover from calculation have "\<forall>i\<in>codes (seen (t_ctx st)) - codes (seen c0).
      unat (t_lo (widen a st)) \<le> waddr an i \<and> waddr an i + 4 \<le> unat (t_end (widen a st))"
    using assms unfolding trace_inv_def Let_def by (meson order_trans)
  ultimately show ?thesis using assms unfolding trace_inv_def Let_def by simp
qed

text \<open>Claiming a word and widening the bounds to it.\<close>

lemma trace_inv_claim:
  assumes ok: "an_ok an" and r: "a_in_range an a" and n: "\<not> is_code (t_ctx st) (widx an a)"
    and inv: "trace_inv an c0 k st"
  shows "trace_inv an c0 (Suc k) (widen a (claim an a st))"
    "codes (seen (t_ctx (claim an a st))) = insert (widx an a) (codes (seen (t_ctx st)))"
proof -
  let ?i = "widx an a" and ?c = "t_ctx st" and ?st = "widen a (claim an a st)"
  let ?new = "codes (seen ?c) - codes (seen c0)"
  have i: "?i < nwords an" "waddr an ?i = unat a" using in_rangeD [OF ok r] by auto
  have l: "length (seen ?c) = nwords an" using inv by (simp add: trace_defs)
  have ni: "?i \<notin> codes (seen ?c)" using n i by (simp add: codes_def is_code_def)
  show c: "codes (seen (t_ctx (claim an a st))) = insert ?i (codes (seen ?c))"
    using i l by (simp add: claim_def Let_def)
  have ni0: "?i \<notin> codes (seen c0)" using ni inv by (auto simp: trace_defs)
  have new: "codes (seen (t_ctx ?st)) - codes (seen c0) = insert ?i ?new" using c ni0 by auto
  have card: "card (insert ?i ?new) = Suc (card ?new)" using ni by simp
  have e: "unat (t_end ?st) \<ge> unat a + 4" "unat (t_end st) \<le> unat (t_end ?st)"
    "unat (t_lo ?st) \<le> unat a" "unat (t_lo ?st) \<le> unat (t_lo st)"
    using unat_after [OF ok r] by (auto simp: widen_def claim_def Let_def word_less_nat_alt not_less)
  have b: "\<forall>j\<in>insert ?i ?new. unat (t_lo ?st) \<le> waddr an j \<and> waddr an j + 4 \<le> unat (t_end ?st)"
    using e i inv unfolding trace_inv_def Let_def by (metis insert_iff order_trans)
  have f: "t_ctx ?st = ?c\<lparr>seen := (seen ?c)[?i := seen ?c ! ?i OR 1], owner := (owner ?c)[?i := cur_owner ?c],
      n_insns := n_insns ?c + 1\<rparr>" "t_insns ?st = t_insns st + 1"
    by (simp_all add: widen_def claim_def Let_def)
  have o: "owner (t_ctx ?st) ! j = (if j \<in> insert ?i ?new then cur_owner c0 else owner c0 ! j)" if "j < nwords an" for j
    using that inv i by (auto simp: f trace_defs nth_list_update)
  have sub: "codes (seen c0) \<subseteq> codes (seen (t_ctx ?st))" using inv c by (auto simp: trace_defs)
  have cn: "t_insns ?st = of_nat (card (insert ?i ?new))"
    "n_insns (t_ctx ?st) = n_insns c0 + of_nat (card (insert ?i ?new))"
    using inv unfolding card f by (simp_all add: trace_defs)
  have q: "length (func_queue (t_ctx ?st)) + Suc k \<le> length (func_queue c0) + card (insert ?i ?new)"
    "set (func_queue c0) \<subseteq> set (func_queue (t_ctx ?st))"
    using inv unfolding card f by (simp_all add: trace_defs)
  have ot: "ctx_ok an (t_ctx ?st)" "cur_owner (t_ctx ?st) = cur_owner c0" "marked (seen (t_ctx ?st)) = marked (seen c0)"
    "entry_map (t_ctx ?st) = entry_map ?c" "func_queue (t_ctx ?st) = func_queue ?c"
    using inv unfolding f by (simp_all add: trace_defs)
  note em = inv [unfolded trace_inv_def Let_def]
  show "trace_inv an c0 (Suc k) ?st"
    unfolding trace_inv_def Let_def new
    using sub cn q ot b o em by simp
qed

lemma visit_delay_ok:
  assumes ok: "an_ok an" and inv: "trace_inv an c0 k st"
  shows "trace_inv an c0 k (visit_delay an a st)" "blocks (visit_delay an a st) = blocks st"
    "codes (seen (t_ctx st)) \<subseteq> codes (seen (t_ctx (visit_delay an a st)))"
proof -
  let ?d = "a + 4"
  let ?i = "insn_at an ?d"
  show "blocks (visit_delay an a st) = blocks st" by (simp add: visit_delay_def Let_def)
  have w: "widen d (note_invalid i (note_vfpu i st)) = note_invalid i (note_vfpu i (widen d st))" for d i st
    by (simp add: widen_def note_invalid_def note_vfpu_def)
  have "trace_inv an c0 k (widen ?d (note_invalid ?i (note_vfpu ?i (claim an ?d st))))"
    if "a_in_range an ?d" "\<not> is_code (t_ctx st) (widx an ?d)"
    unfolding w
    by (intro trace_inv_notes trace_inv_weaken [OF trace_inv_claim(1) [OF ok that inv]]) simp
  then show "trace_inv an c0 k (visit_delay an a st)"
    using inv by (simp add: visit_delay_def Let_def trace_inv_widen)
  show "codes (seen (t_ctx st)) \<subseteq> codes (seen (t_ctx (visit_delay an a st)))"
    using trace_inv_claim(2) [OF ok _ _ inv, of ?d] by (auto simp: visit_delay_def Let_def)
qed

lemma push_block_ok:
  assumes "trace_inv an c0 k st"
  shows "trace_inv an c0 k (push_block an t st)" "length (blocks (push_block an t st)) \<le> Suc (length (blocks st))"
    "seen (t_ctx (push_block an t st)) = seen (t_ctx st)"
  using assms trace_inv_notes(4,7) by (auto simp: push_block_def Let_def)

lemma note_call_ok:
  assumes "trace_inv an c0 (Suc k) st"
  shows "trace_inv an c0 k (upd_ctx (note_call an t) st)"
  using assms by (auto simp: trace_defs note_call_def)

lemma tail_call_ok:
  assumes ok: "an_ok an" and inv: "trace_inv an c0 (Suc k) st" and t: "a_in_range an t"
  shows "trace_inv an c0 k (upd_ctx (\<lambda>c. c\<lparr>entry_map := (entry_map c)[widx an t := True],
    func_queue := func_queue c @ [t]\<rparr>) st)" (is "trace_inv an c0 k ?st")
proof -
  let ?em = "(entry_map (t_ctx st))[widx an t := True]"
  have l: "length (entry_map (t_ctx st)) = nwords an" using inv by (simp add: trace_defs)
  have "?em ! i \<longleftrightarrow> i = widx an t \<or> entry_map (t_ctx st) ! i" if "i < nwords an" for i
    using that l in_rangeD(2) [OF ok t] by (cases "i = widx an t") simp_all
  then have em: "\<forall>i<nwords an. entry_map c0 ! i \<longrightarrow> ?em ! i"
    "\<forall>i<nwords an. ?em ! i \<longrightarrow> entry_map c0 ! i \<or>
      (\<exists>a\<in>set (func_queue (t_ctx st) @ [t]). a_in_range an a \<and> widx an a = i)"
    using inv t unfolding trace_inv_def Let_def by (simp, metis Un_iff list.set_intros(1) set_append)
  show ?thesis
    using inv em unfolding trace_inv_def Let_def ctx_ok_def by (simp add: subset_insertI2)
qed

lemma follow_jump_ok:
  assumes ok: "an_ok an" and inv: "trace_inv an c0 (Suc k) st" and t: "a_in_range an t"
  shows "trace_inv an c0 k (follow_jump an entry a t st)"
    "length (blocks (follow_jump an entry a t st)) \<le> Suc (length (blocks st))"
    "seen (t_ctx (follow_jump an entry a t st)) = seen (t_ctx st)"
  using push_block_ok [OF trace_inv_weaken [OF inv, of k]] tail_call_ok [OF ok inv t]
    trace_inv_weaken [OF inv, of k] push_block_ok(2,3) [OF inv]
  by (auto simp: follow_jump_def)

lemma follow_ok:
  assumes ok: "an_ok an" and inv: "trace_inv an c0 (Suc k) st"
  shows "trace_inv an c0 k (snd (follow an entry a i st))"
    "length (blocks (snd (follow an entry a i st))) \<le> Suc (length (blocks st))"
    "seen (t_ctx (snd (follow an entry a i st))) = seen (t_ctx st)"
proof -
  note inv' = trace_inv_weaken [OF inv, of k, simplified]
  note pb = push_block_ok [OF inv'] push_block_ok [OF inv]
  note fj = follow_jump_ok [OF ok inv]
  have ind: "trace_inv an c0 k ((upd_ctx (\<lambda>c. c\<lparr>w_indirects := push_new a (w_indirects c)\<rparr>) st)\<lparr>t_indirect := True\<rparr>)"
    by (intro trace_inv_notes inv')
  show "trace_inv an c0 k (snd (follow an entry a i st))"
    using pb(1) fj(1) ind inv' note_call_ok [OF inv] trace_inv_notes(5,6) [OF inv'] by (simp add: follow_def)
  show "length (blocks (snd (follow an entry a i st))) \<le> Suc (length (blocks st))"
    using pb(2) fj(2) by (simp add: follow_def)
  show "seen (t_ctx (snd (follow an entry a i st))) = seen (t_ctx st)"
    using pb(3) fj(3) by (simp add: follow_def note_call_def)
qed

lemma visit_ok:
  assumes ok: "an_ok an" and r: "a_in_range an a" and n: "\<not> is_code (t_ctx st) (widx an a)"
    and inv: "trace_inv an c0 0 st"
  shows "trace_inv an c0 0 (snd (visit an entry a st))"
    "length (blocks (snd (visit an entry a st))) \<le> Suc (length (blocks st))"
    "insert (widx an a) (codes (seen (t_ctx st))) \<subseteq> codes (seen (t_ctx (snd (visit an entry a st))))"
proof -
  let ?i = "insn_at an a"
  let ?s1 = "widen a (claim an a st)"
  let ?s2 = "if has_delay_slot ?i then visit_delay an a (note_vfpu ?i ?s1) else note_vfpu ?i ?s1"
  let ?s3 = "note_stub an ?i ?s2"
  note cl = trace_inv_claim [OF ok r n inv]
  note i1 = trace_inv_notes(1) [OF cl(1), of ?i]
  note vd = visit_delay_ok [OF ok i1, of a]
  have i2: "trace_inv an c0 (Suc 0) ?s2" using vd(1) i1 by simp
  have i3: "trace_inv an c0 (Suc 0) ?s3" by (rule trace_inv_notes(3) [OF i2])
  have b3: "blocks ?s3 = blocks st" using vd(2) by simp
  have c3: "insert (widx an a) (codes (seen (t_ctx st))) \<subseteq> codes (seen (t_ctx ?s3))"
    using vd(3) cl(2) by auto
  have v: "visit an entry a st = (if i_op ?i = A_INVALID then (None, note_invalid ?i ?s1) else follow an entry a ?i ?s3)"
    by (simp add: visit_def Let_def)
  note fo = follow_ok [OF ok i3, of entry a ?i]
  have ni: "trace_inv an c0 0 (note_invalid ?i ?s1)"
    using trace_inv_notes(2) [OF trace_inv_weaken [OF cl(1), of 0]] by simp
  show "trace_inv an c0 0 (snd (visit an entry a st))" unfolding v using ni fo(1) by (simp split: if_split)
  show "length (blocks (snd (visit an entry a st))) \<le> Suc (length (blocks st))"
    unfolding v using fo(2) unfolding b3 by (simp split: if_split)
  show "insert (widx an a) (codes (seen (t_ctx st))) \<subseteq> codes (seen (t_ctx (snd (visit an entry a st))))"
    unfolding v using fo(3) c3 cl(2) by auto
qed

text \<open>
  The walk ends within its fuel, keeps the invariant, and claims its own entry. Each transition
  claims a word, pops a block or leaves the inner loop.
\<close>

lemma walk_ok:
  assumes ok: "an_ok an" and e: "a_in_range an entry"
  shows "trace_inv an c0 0 st \<Longrightarrow>
    3 * (nwords an - card (codes (seen (t_ctx st)))) + 2 * length (blocks st) + (if cur = None then 0 else 1) < fuel \<Longrightarrow>
    \<exists>st'. walk fuel an entry cur st = Some st' \<and> trace_inv an c0 0 st' \<and>
      codes (seen (t_ctx st)) \<subseteq> codes (seen (t_ctx st')) \<and>
      (cur = Some entry \<or> (cur = None \<and> blocks st \<noteq> [] \<and> last (blocks st) = entry) \<longrightarrow>
         widx an entry \<in> codes (seen (t_ctx st')))"
proof (induction fuel arbitrary: cur st)
  case (Suc fuel)
  have ei: "widx an entry < nwords an" using in_rangeD [OF ok e] by simp
  have l: "length (seen (t_ctx st)) = nwords an" using Suc.prems(1) by (simp add: trace_defs)
  show ?case
  proof (cases cur)
    case None
    show ?thesis
    proof (cases "blocks st = []")
      case True
      then show ?thesis using None Suc.prems by simp
    next
      case False
      let ?st = "st\<lparr>blocks := butlast (blocks st)\<rparr>"
      have "length (blocks st) = Suc (length (butlast (blocks st)))" using False by simp
      then have f: "3 * (nwords an - card (codes (seen (t_ctx ?st)))) + 2 * length (blocks ?st) +
          (if Some (last (blocks st)) = None then 0 else 1) < fuel"
        using Suc.prems(2) None by simp
      show ?thesis
        using Suc.IH [OF trace_inv_notes(4) [OF Suc.prems(1)] f] None False by simp
    qed
  next
    case (Some a)
    have stop: "\<exists>st'. walk fuel an entry None st = Some st' \<and> trace_inv an c0 0 st' \<and>
        codes (seen (t_ctx st)) \<subseteq> codes (seen (t_ctx st'))"
      using Suc.IH [of st None] Suc.prems Some by auto
    show ?thesis
    proof (cases "a_in_range an a \<and> \<not> is_code (t_ctx st) (widx an a) \<and> \<not> (a \<noteq> entry \<and> is_known_entry an (t_ctx st) a)")
      case False
      then have w: "walk (Suc fuel) an entry cur st = walk fuel an entry None st"
        unfolding Some walk.simps option.case by presburger
      have "widx an entry \<in> codes (seen (t_ctx st))" if "a = entry"
        using that False e ei l by (simp add: codes_def is_code_def)
      then show ?thesis using stop w Some by auto
    next
      case True
      obtain cur' st' where v: "visit an entry a st = (cur', st')" by fastforce
      have w: "walk (Suc fuel) an entry cur st = walk fuel an entry cur' st'"
        using True Some v by auto
      note vo = visit_ok [OF ok _ _ Suc.prems(1), of a entry, unfolded v snd_conv]
      have sub: "insert (widx an a) (codes (seen (t_ctx st))) \<subseteq> codes (seen (t_ctx st'))" using vo(3) True by blast
      have ni: "widx an a \<notin> codes (seen (t_ctx st))" using True by (auto simp: codes_def is_code_def)
      have "Suc (card (codes (seen (t_ctx st)))) \<le> card (codes (seen (t_ctx st')))"
        using card_mono [OF finite_codes sub] ni by simp
      moreover have "card (codes (seen (t_ctx st'))) \<le> nwords an"
        using vo(1) True card_codes [of "seen (t_ctx st')"] by (simp add: trace_defs)
      moreover have "length (blocks st') \<le> Suc (length (blocks st))" using vo(2) True by blast
      moreover have "3 * (nwords an - card (codes (seen (t_ctx st)))) + 2 * length (blocks st) < fuel"
        using Suc.prems(2) Some by simp
      ultimately have "3 * (nwords an - card (codes (seen (t_ctx st')))) + 2 * length (blocks st') + 1 < fuel"
        by linarith
      then have "3 * (nwords an - card (codes (seen (t_ctx st')))) + 2 * length (blocks st') +
          (if cur' = None then 0 else 1) < fuel" by (cases cur') simp_all
      from Suc.IH [OF _ this] vo(1) True obtain st'' where
        "walk fuel an entry cur' st' = Some st''" "trace_inv an c0 0 st''"
        "codes (seen (t_ctx st')) \<subseteq> codes (seen (t_ctx st''))" by blast
      then show ?thesis using w sub Some by auto
    qed
  qed
qed simp

lemma trace_inv_start:
  assumes "ctx_ok an c"
  shows "trace_inv an c 0 \<lparr>t_ctx = c, blocks = bs, t_end = e, t_lo = l, t_insns = 0,
    t_return = False, t_indirect = False, t_vfpu = False\<rparr>"
  using assms by (simp add: trace_inv_def)

text \<open>What tracing one function does to the context, and the function it reports.\<close>

definition traced :: "a_code \<Rightarrow> walk_ctx \<Rightarrow> walk_ctx \<Rightarrow> a_func option \<Rightarrow> bool" where
  "traced an c c' r \<longleftrightarrow>
     (let new = codes (seen c') - codes (seen c); entry = cur_owner c in
      ctx_ok an c' \<and> codes (seen c) \<subseteq> codes (seen c') \<and> marked (seen c') = marked (seen c) \<and>
      (\<forall>i<nwords an. owner c' ! i = (if i \<in> new then entry else owner c ! i)) \<and>
      n_insns c' = n_insns c + of_nat (card new) \<and>
      length (func_queue c') \<le> length (func_queue c) + card new \<and>
      set (func_queue c) \<subseteq> set (func_queue c') \<and>
      (\<forall>i<nwords an. entry_map c ! i \<longrightarrow> entry_map c' ! i) \<and>
      (\<forall>i<nwords an. entry_map c' ! i \<longrightarrow> entry_map c ! i \<or> (\<exists>a\<in>set (func_queue c'). a_in_range an a \<and> widx an a = i)) \<and>
      widx an entry \<in> codes (seen c') \<and>
      (case r of
         None \<Rightarrow> new = {}
       | Some f \<Rightarrow> widx an entry \<in> new \<and> f_addr f = entry \<and> unat (f_insns f) = card new \<and>
           (\<forall>i\<in>new. unat (f_start f) \<le> waddr an i \<and> waddr an i + 4 \<le> unat (f_end f))))"

lemma nwords_less: "nwords an < 2 ^ 32"
  unfolding nwords_def using unat_u32_less [of "drop_bit 2 (extent an)"] by simp

lemma trace_function_ok:
  assumes ok: "an_ok an" and c: "ctx_ok an c" and e: "a_in_range an (cur_owner c)"
  shows "\<exists>c' r. trace_function an (cur_owner c) c = Some (c', r) \<and> traced an c c' r"
proof -
  let ?e = "cur_owner c"
  let ?st = "\<lparr>t_ctx = c, blocks = [?e], t_end = ?e, t_lo = ?e, t_insns = 0,
    t_return = False, t_indirect = False, t_vfpu = False\<rparr>"
  have "3 * (nwords an - card (codes (seen (t_ctx ?st)))) + 2 * length (blocks ?st) +
      (if (None :: u32 option) = None then 0 else 1) < walk_fuel an"
    by (simp add: walk_fuel_def)
  from walk_ok [OF ok e trace_inv_start [OF c] this] obtain st where
    w: "walk (walk_fuel an) an ?e None ?st = Some st" and inv: "trace_inv an c 0 st"
    and en: "widx an ?e \<in> codes (seen (t_ctx st))" by auto
  let ?new = "codes (seen (t_ctx st)) - codes (seen c)"
  have nw: "?new = {}" if "widx an ?e \<in> codes (seen c)"
  proof -
    have f3: "walk_fuel an = Suc (Suc (Suc (3 * nwords an)))" by (simp add: walk_fuel_def)
    have "is_code c (widx an ?e)" using that by (simp add: codes_def is_code_def)
    then show ?thesis using w e unfolding f3 by auto
  qed
  have "card ?new \<le> nwords an"
    using inv card_codes [of "seen (t_ctx st)"] card_mono [of "codes (seen (t_ctx st))" ?new]
    by (simp add: trace_defs)
  then have n: "unat (of_nat (card ?new) :: u32) = card ?new"
    using nwords_less [of an] by (intro unat_of_nat_u32) simp
  have ti: "t_insns st = of_nat (card ?new)" using inv by (simp add: trace_defs)
  have z: "t_insns st = 0 \<longleftrightarrow> ?new = {}" using n ti by (metis card_0_eq finite_Diff finite_codes unat_eq_0)
  show ?thesis
    unfolding trace_function_def w option.case
    using e inv en z n ti nw unfolding traced_def trace_inv_def Let_def by (simp, blast)
qed

section \<open>Draining the queue\<close>

text \<open>
  What holds between two functions: a word has an owner exactly when it was claimed, its owner is a
  reported function whose bounds contain it, every reported function owns its entry and counts what
  it owns, no function is reported twice, and a traced entry is claimed.
\<close>

definition disc_inv :: "a_code \<Rightarrow> a_func list \<Rightarrow> walk_ctx \<Rightarrow> bool" where
  "disc_inv an funcs c \<longleftrightarrow>
     ctx_ok an c \<and> marked (seen c) \<subseteq> codes (seen c) \<and>
     (\<forall>i<nwords an. i \<notin> codes (seen c) \<longrightarrow> owner c ! i = A_NO_OWNER) \<and>
     (\<forall>i\<in>codes (seen c). \<exists>f\<in>set funcs. owner c ! i = f_addr f \<and>
        unat (f_start f) \<le> waddr an i \<and> waddr an i + 4 \<le> unat (f_end f)) \<and>
     (\<forall>f\<in>set funcs. a_in_range an (f_addr f) \<and> widx an (f_addr f) \<in> marked (seen c) \<and>
        owner c ! widx an (f_addr f) = f_addr f \<and>
        unat (f_insns f) = card {i. i < nwords an \<and> owner c ! i = f_addr f}) \<and>
     distinct (map f_addr funcs) \<and> n_insns c = of_nat (card (codes (seen c)))"

lemma no_owner_out: "\<not> a_in_range an A_NO_OWNER"
  by (simp add: a_in_range_def)

lemma disc_inv_none:
  assumes "disc_inv an funcs c" and "traced an c1 c' None"
    and "c1 = c\<lparr>func_queue := q, seen := (seen c)[i := seen c ! i OR 2], cur_owner := e\<rparr>"
    and "i = widx an e" "i < nwords an"
  shows "disc_inv an funcs c'"
proof -
  have l: "i < length (seen c)" using assms(1,5) by (simp add: disc_inv_def ctx_ok_def)
  have s: "codes (seen c1) = codes (seen c)" "marked (seen c1) = insert i (marked (seen c))" "owner c1 = owner c"
    "n_insns c1 = n_insns c" "cur_owner c1 = e"
    using assms(3) l by simp_all
  have t: "codes (seen c') = codes (seen c)" "marked (seen c') = insert i (marked (seen c))" "i \<in> codes (seen c)"
    "\<forall>j<nwords an. owner c' ! j = owner c ! j" "n_insns c' = n_insns c" "ctx_ok an c'"
    using assms(2,4) s by (auto simp: traced_def Let_def)
  have o: "{j. j < nwords an \<and> owner c' ! j = x} = {j. j < nwords an \<and> owner c ! j = x}" for x
    using t(4) by auto
  have lt: "j < nwords an" if "j \<in> codes (seen c)" for j
    using that assms(1) codes_sub [of "seen c"] by (auto simp: disc_inv_def ctx_ok_def)
  have ow: "owner c' ! widx an (f_addr f) = owner c ! widx an (f_addr f)" if "f \<in> set funcs" for f
    using that assms(1) lt t(4) by (auto simp: disc_inv_def)
  show ?thesis
    using assms(1) t lt ow unfolding disc_inv_def o by auto
qed

lemma disc_inv_some:
  assumes ok: "an_ok an" and inv: "disc_inv an funcs c" and t: "traced an c1 c' (Some f)"
    and c1: "c1 = c\<lparr>func_queue := q, seen := (seen c)[i := seen c ! i OR 2], cur_owner := e\<rparr>"
    and i: "i = widx an e" "i \<notin> marked (seen c)" "a_in_range an e"
  shows "disc_inv an (funcs @ [f]) c'"
proof -
  let ?new = "codes (seen c') - codes (seen c)"
  have l: "i < length (seen c)" "i < nwords an" "length (seen c) = nwords an"
    using in_rangeD [OF ok i(3)] i(1) inv by (simp_all add: disc_inv_def ctx_ok_def)
  have s: "codes (seen c1) = codes (seen c)" "marked (seen c1) = insert i (marked (seen c))" "owner c1 = owner c"
    "n_insns c1 = n_insns c" "cur_owner c1 = e"
    using c1 l by simp_all
  have tr: "codes (seen c) \<subseteq> codes (seen c')" "marked (seen c') = insert i (marked (seen c))" "i \<in> codes (seen c')"
    "\<forall>j<nwords an. owner c' ! j = (if j \<in> ?new then e else owner c ! j)"
    "n_insns c' = n_insns c + of_nat (card ?new)" "ctx_ok an c'" "i \<in> ?new" "f_addr f = e" "unat (f_insns f) = card ?new"
    "\<forall>j\<in>?new. unat (f_start f) \<le> waddr an j \<and> waddr an j + 4 \<le> unat (f_end f)"
    using t i(1) unfolding traced_def Let_def s by simp_all
  have fm: "widx an (f_addr g) \<in> marked (seen c)" "a_in_range an (f_addr g)" if "g \<in> set funcs" for g
    using inv that by (auto simp: disc_inv_def)
  have fe: "f_addr g \<noteq> e" if "g \<in> set funcs" for g
    using fm [OF that] i(1,2) by metis
  have old: "owner c ! j \<noteq> e" if "j < nwords an" for j
  proof (cases "j \<in> codes (seen c)")
    case True
    then show ?thesis using inv fe by (fastforce simp: disc_inv_def)
  next
    case False
    then show ?thesis using inv that i(3) no_owner_out by (auto simp: disc_inv_def)
  qed
  have lt: "j < nwords an" if "j \<in> codes (seen c')" for j
    using that tr(6) codes_sub [of "seen c'"] by (auto simp: ctx_ok_def)
  have o_new: "owner c' ! j = e" if "j \<in> ?new" for j using tr(4) lt that by auto
  have o_old: "owner c' ! j = owner c ! j" if "j < nwords an" "j \<notin> ?new" for j using tr(4) that by auto
  have own_e: "{j. j < nwords an \<and> owner c' ! j = e} = ?new"
  proof (rule set_eqI)
    fix j show "j \<in> {j. j < nwords an \<and> owner c' ! j = e} \<longleftrightarrow> j \<in> ?new"
      using o_new [of j] o_old [of j] old [of j] lt [of j] by (cases "j \<in> ?new") auto
  qed
  have own_g: "{j. j < nwords an \<and> owner c' ! j = f_addr g} = {j. j < nwords an \<and> owner c ! j = f_addr g}"
    if "g \<in> set funcs" for g
  proof -
    have "owner c ! j \<noteq> f_addr g" if "j \<in> ?new" for j
      using that inv lt fm(2) [OF \<open>g \<in> set funcs\<close>] no_owner_out by (auto simp: disc_inv_def)
    then have "j < nwords an \<Longrightarrow> owner c' ! j = f_addr g \<longleftrightarrow> owner c ! j = f_addr g" for j
      using o_new [of j] o_old [of j] fe [OF that] by (cases "j \<in> ?new") auto
    then show ?thesis by auto
  qed
  have "\<exists>g\<in>set (funcs @ [f]). owner c' ! j = f_addr g \<and> unat (f_start g) \<le> waddr an j \<and> waddr an j + 4 \<le> unat (f_end g)"
    if "j \<in> codes (seen c')" for j
  proof (cases "j \<in> ?new")
    case True
    then show ?thesis using o_new tr(8,10) by simp
  next
    case False
    then have "j \<in> codes (seen c)" "owner c' ! j = owner c ! j" using that o_old lt by auto
    then show ?thesis using inv by (auto simp: disc_inv_def)
  qed
  moreover have "a_in_range an (f_addr g) \<and> widx an (f_addr g) \<in> marked (seen c') \<and>
      owner c' ! widx an (f_addr g) = f_addr g \<and> unat (f_insns g) = card {j. j < nwords an \<and> owner c' ! j = f_addr g}"
    if "g \<in> set (funcs @ [f])" for g
  proof (cases "g \<in> set funcs")
    case True
    have "widx an (f_addr g) \<in> codes (seen c)" using inv fm(1) [OF True] by (auto simp: disc_inv_def)
    then have "owner c' ! widx an (f_addr g) = owner c ! widx an (f_addr g)" using o_old lt tr(1) by blast
    then show ?thesis using True inv own_g [OF True] tr(2) by (auto simp: disc_inv_def)
  next
    case False
    then have "g = f" using that by simp
    then show ?thesis using tr(2,7,8,9) own_e o_new i by simp
  qed
  moreover have "card (codes (seen c')) = card (codes (seen c)) + card ?new"
    using card_Diff_subset [OF finite_codes tr(1)] card_mono [OF finite_codes tr(1)] by simp
  moreover have "owner c' ! j = A_NO_OWNER" if "j < nwords an" "j \<notin> codes (seen c')" for j
    using that o_old inv tr(1) by (auto simp: disc_inv_def)
  moreover have "e \<notin> f_addr ` set funcs" using fe by auto
  ultimately show ?thesis
    using inv tr(1-3,5,6,8) unfolding disc_inv_def by auto
qed

text \<open>
  The queue empties within its fuel: a function queues no more than it claims words. Everything that
  was queued ends up claimed, and so does every known entry.
\<close>

lemma drain_ok:
  assumes ok: "an_ok an"
  shows "disc_inv an funcs c \<Longrightarrow> entries_pending an c \<Longrightarrow>
    2 * (nwords an - card (codes (seen c))) + length (func_queue c) < fuel \<Longrightarrow>
    \<exists>funcs' c'. drain fuel an funcs c = Some (funcs', c') \<and> disc_inv an funcs' c' \<and> func_queue c' = [] \<and>
      entries_pending an c' \<and> (\<forall>i<nwords an. entry_map c ! i \<longrightarrow> entry_map c' ! i)"
proof (induction fuel arbitrary: funcs c)
  case (Suc fuel)
  show ?case
  proof (cases "func_queue c = []")
    case True
    then show ?thesis using Suc.prems by simp
  next
    case False
    let ?e = "last (func_queue c)" and ?c = "c\<lparr>func_queue := butlast (func_queue c)\<rparr>"
    let ?i = "widx an ?e"
    have q: "func_queue c = butlast (func_queue c) @ [?e]" using False by simp
    obtain n where lq: "length (func_queue c) = Suc n" using False by (metis length_0_conv not0_implies_Suc)
    have sq: "set (func_queue c) = insert ?e (set (butlast (func_queue c)))"
      using arg_cong [OF q, of set] by (simp only: set_append list.set) blast
    have inv': "disc_inv an funcs ?c" using Suc.prems(1) by (simp add: disc_inv_def ctx_ok_def)
    have skip: "\<exists>funcs' c'. drain fuel an funcs ?c = Some (funcs', c') \<and> disc_inv an funcs' c' \<and> func_queue c' = [] \<and>
        entries_pending an c' \<and> (\<forall>i<nwords an. entry_map c ! i \<longrightarrow> entry_map c' ! i)"
      if "a_in_range an ?e \<longrightarrow> ?i \<in> codes (seen c)"
    proof -
      have pend: "entries_pending an ?c"
        unfolding entries_pending_def
      proof (intro allI impI)
        fix j assume "j < nwords an" "entry_map ?c ! j"
        then have "j \<in> codes (seen c) \<or> (\<exists>a\<in>set (func_queue c). a_in_range an a \<and> widx an a = j)"
          using Suc.prems(2) by (simp add: entries_pending_def)
        moreover have "set (func_queue c) = insert ?e (set (func_queue ?c))" using sq by simp
        ultimately show "j \<in> codes (seen ?c) \<or> (\<exists>a\<in>set (func_queue ?c). a_in_range an a \<and> widx an a = j)"
          using that by auto
      qed
      have f: "2 * (nwords an - card (codes (seen ?c))) + length (func_queue ?c) < fuel"
        using Suc.prems(3) lq by simp
      have em: "entry_map ?c = entry_map c" by simp
      from Suc.IH [OF inv' pend f] show ?thesis unfolding em .
    qed
    show ?thesis
    proof (cases "a_in_range an ?e \<and> ?i \<notin> marked (seen c)")
      case False
      have "?i \<in> codes (seen c)" if "a_in_range an ?e"
        using False that Suc.prems(1) by (auto simp: disc_inv_def)
      moreover have "drain (Suc fuel) an funcs c = drain fuel an funcs ?c"
        using False \<open>func_queue c \<noteq> []\<close> Suc.prems(1) in_rangeD(2) [OF ok, of ?e]
        by (auto simp: Let_def marked_def disc_inv_def ctx_ok_def)
      ultimately show ?thesis using skip by simp
    next
      case True
      let ?c1 = "?c\<lparr>seen := (seen c)[?i := seen c ! ?i OR 2], cur_owner := ?e\<rparr>"
      have i: "?i < nwords an" using True in_rangeD(2) [OF ok] by blast
      have ls: "length (seen c) = nwords an" using Suc.prems(1) by (simp add: disc_inv_def ctx_ok_def)
      have ck: "ctx_ok an ?c1" using Suc.prems(1) by (simp add: disc_inv_def ctx_ok_def)
      obtain c' r where t: "trace_function an ?e ?c1 = Some (c', r)" "traced an ?c1 c' r"
        using trace_function_ok [OF ok ck] True by auto
      let ?funcs = "case r of None \<Rightarrow> funcs | Some f \<Rightarrow> funcs @ [f]"
      have d: "drain (Suc fuel) an funcs c = drain fuel an ?funcs c'"
        using True \<open>func_queue c \<noteq> []\<close> t(1) ls i
        by (simp add: Let_def marked_def split: option.split)
      have c1: "?c1 = c\<lparr>func_queue := butlast (func_queue c), seen := (seen c)[?i := seen c ! ?i OR 2], cur_owner := ?e\<rparr>"
        by simp
      have inv2: "disc_inv an ?funcs c'"
        using t(2) disc_inv_none [OF Suc.prems(1) _ c1 refl i] disc_inv_some [OF ok Suc.prems(1) _ c1 refl] True
        by (cases r) auto
      have tr: "codes (seen c) \<subseteq> codes (seen c')" "?i \<in> codes (seen c')"
        "length (func_queue c') \<le> length (butlast (func_queue c)) + card (codes (seen c') - codes (seen c))"
        "set (butlast (func_queue c)) \<subseteq> set (func_queue c')"
        "\<forall>j<nwords an. entry_map c ! j \<longrightarrow> entry_map c' ! j"
        "\<forall>j<nwords an. entry_map c' ! j \<longrightarrow> entry_map c ! j \<or>
           (\<exists>a\<in>set (func_queue c'). a_in_range an a \<and> widx an a = j)"
        using t(2) by (simp_all add: traced_def Let_def)
      have pend: "entries_pending an c'"
        unfolding entries_pending_def
      proof (intro allI impI)
        fix j assume j: "j < nwords an" "entry_map c' ! j"
        show "j \<in> codes (seen c') \<or> (\<exists>a\<in>set (func_queue c'). a_in_range an a \<and> widx an a = j)"
        proof (cases "entry_map c ! j")
          case True
          then have "j \<in> codes (seen c) \<or> (\<exists>a\<in>set (func_queue c). a_in_range an a \<and> widx an a = j)"
            using Suc.prems(2) j by (simp add: entries_pending_def)
          then show ?thesis using tr(1,2,4) sq by auto
        next
          case False
          then show ?thesis using tr(6) j by blast
        qed
      qed
      have "card (codes (seen c')) = card (codes (seen c)) + card (codes (seen c') - codes (seen c))"
        using card_Diff_subset [OF finite_codes tr(1)] card_mono [OF finite_codes tr(1)] by simp
      moreover have "card (codes (seen c')) \<le> nwords an"
        using inv2 card_codes [of "seen c'"] by (simp add: disc_inv_def ctx_ok_def)
      ultimately have "2 * (nwords an - card (codes (seen c'))) + length (func_queue c') < fuel"
        using Suc.prems(3) tr(3) lq by simp
      from Suc.IH [OF inv2 pend this] show ?thesis using d tr(5) by metis
    qed
  qed
qed simp

section \<open>Entries and rounds\<close>

lemma in_range_all:
  assumes ok: "an_ok an" and a: "a_in_range an a" and i: "i < nwords an"
  shows "a_in_range an (base an + of_nat i * 4)" "widx an (base an + of_nat i * 4) = i"
proof -
  let ?b = "base an + of_nat i * 4 :: u32"
  have n: "4 * i + 4 \<le> unat (extent an)" using i by (simp add: nwords_div)
  have s: "unat (base an) + unat (extent an) < 2 ^ 32" by (rule in_rangeD(5) [OF ok a])
  have "unat (of_nat i * 4 :: u32) = 4 * i"
    using n s by (simp add: unat_word_ariths(2) unat_of_nat_u32)
  then have b: "unat ?b = unat (base an) + 4 * i"
    using n s by (simp add: unat_word_ariths(1))
  have e: "unat (base an + extent an) = unat (base an) + unat (extent an)"
    using s by (simp add: unat_word_ariths(1))
  have al: "unat (base an) mod 4 = 0" using ok by (simp add: an_ok_def and_3_iff)
  then show r: "a_in_range an ?b"
    using n b e by (simp add: a_in_range_def and_3_iff word_le_nat_alt word_less_nat_alt mod_add_eq [symmetric])
  show "widx an ?b = i" using in_rangeD(1) [OF ok r] b by (simp add: waddr_def)
qed

lemma disc_inv_clean:
  assumes "length (entry_map c) = nwords an" "seen c = replicate (nwords an) 0"
    "owner c = replicate (nwords an) A_NO_OWNER" "n_insns c = 0"
  shows "disc_inv an [] c"
  using assms by (simp add: disc_inv_def ctx_ok_def)

text \<open>While the entries are being found: nothing is walked, and every entry found is queued.\<close>

definition fresh :: "a_code \<Rightarrow> walk_ctx \<Rightarrow> bool" where
  "fresh an c \<longleftrightarrow> length (entry_map c) = nwords an \<and> seen c = replicate (nwords an) 0 \<and>
     owner c = replicate (nwords an) A_NO_OWNER \<and> n_insns c = 0 \<and> entries_pending an c"

lemma fresh_mark:
  assumes ok: "an_ok an" and f: "fresh an c" and t: "a_in_range an t"
  shows "fresh an (c\<lparr>entry_map := (entry_map c)[widx an t := True], func_queue := func_queue c @ [t]\<rparr>)"
proof -
  have "(entry_map c)[widx an t := True] ! i \<longleftrightarrow> i = widx an t \<or> entry_map c ! i" if "i < nwords an" for i
    using that f in_rangeD(2) [OF ok t] by (cases "i = widx an t") (simp_all add: fresh_def)
  then show ?thesis using f t by (auto simp: fresh_def entries_pending_def)
qed

text \<open>Each harvesting step either leaves the context alone or adds an entry in range.\<close>

lemma harvest_cases:
  "harvest_call an a c = c \<or> (\<exists>t. a_in_range an t \<and> harvest_call an a c = add_entry an t c)"
  "harvest_pointer an a c = c \<or> (\<exists>t. a_in_range an t \<and> harvest_pointer an a c = add_entry an t c)"
  "add_seed an a c = c \<or> (a_in_range an a \<and> add_seed an a c =
     c\<lparr>entry_map := (entry_map c)[widx an a := True], func_queue := func_queue c @ [a]\<rparr>)"
  unfolding harvest_call_def harvest_pointer_def add_seed_def Let_def
  by (auto split: option.split simp del: pair_value.simps)

lemma fresh_steps:
  assumes ok: "an_ok an" and f: "fresh an c"
  shows "fresh an (add_seed an a c)" "fresh an (harvest_call an a c)" "fresh an (harvest_pointer an a c)"
proof -
  have "fresh an (add_entry an t c)" if "a_in_range an t" for t
    using f fresh_mark [OF ok f that] by (simp add: add_entry_def)
  then show "fresh an (add_seed an a c)" "fresh an (harvest_call an a c)" "fresh an (harvest_pointer an a c)"
    using f fresh_mark [OF ok f] harvest_cases [of an a c] by metis+
qed

definition known :: "a_code \<Rightarrow> u32 \<Rightarrow> walk_ctx \<Rightarrow> bool" where
  "known an t c \<longleftrightarrow> a_in_range an t \<longrightarrow> entry_map c ! widx an t"

lemma nth_mark: "l ! j \<Longrightarrow> l[i := True] ! j"
  by (cases "i = j"; cases "i < length l") (simp_all add: list_update_beyond)

lemma known_steps:
  assumes "known an t c"
  shows "known an t (add_seed an a c)" "known an t (harvest_call an a c)" "known an t (harvest_pointer an a c)"
proof -
  have m: "known an t (c\<lparr>entry_map := (entry_map c)[widx an b := True], func_queue := q\<rparr>)" for b q
    using assms nth_mark by (auto simp: known_def)
  then have "known an t (add_entry an b c)" for b using assms by (simp add: add_entry_def)
  then show "known an t (add_seed an a c)" "known an t (harvest_call an a c)" "known an t (harvest_pointer an a c)"
    using assms m harvest_cases [of an a c] by metis+
qed

lemma fold_preserves: "(\<And>x s. P s \<Longrightarrow> P (f x s)) \<Longrightarrow> P s \<Longrightarrow> P (fold f xs s)"
  by (induction xs arbitrary: s) simp_all

lemma fold_establishes:
  assumes keep: "\<And>x s. P s \<Longrightarrow> P (f x s)" and i: "\<And>x s. I s \<Longrightarrow> I (f x s)"
    and est: "\<And>s. I s \<Longrightarrow> P (f x s)" and x: "x \<in> set xs" and s: "I s"
  shows "P (fold f xs s)"
  using x s
proof (induction xs arbitrary: s)
  case (Cons y ys)
  show ?case
  proof (cases "x = y")
    case True
    then show ?thesis using fold_preserves [of P f, OF keep] est Cons.prems(2) by simp
  next
    case False
    then show ?thesis using Cons.IH [of "f y s"] Cons.prems i by simp
  qed
qed simp

lemma fresh_start: "fresh an (start_ctx an)"
  by (simp add: fresh_def start_ctx_def entries_pending_def)

text \<open>What the scan finds when it ends: the addresses it visits, and the context after both passes.\<close>

definition scan_addrs :: "a_code \<Rightarrow> u32 list" where
  "scan_addrs an = filter (a_in_range an) (map (\<lambda>k. sbase an + of_nat (4 * k)) [0..<unat (ssize an) div 4])"

definition found_entries :: "a_code \<Rightarrow> u32 list \<Rightarrow> walk_ctx" where
  "found_entries an seeds =
     (let c = fold (add_seed an) seeds (start_ctx an);
          c = (if scan_calls an then fold (harvest_call an) (scan_addrs an) c else c)
      in if scan_calls an then fold (harvest_pointer an) (scan_addrs an) c else c)"

definition scan_ends :: "a_code \<Rightarrow> bool" where
  "scan_ends an \<longleftrightarrow> \<not> (scan_calls an \<and> ssize an \<ge> 0xFFFFFFFC)"

lemma scan_loop_ends:
  assumes "ssize an < 0xFFFFFFFC"
  shows "k \<le> unat (ssize an) div 4 \<Longrightarrow> scan_loop an h (of_nat (4 * k)) c =
    Some (fold h (filter (a_in_range an) (map (\<lambda>k. sbase an + of_nat (4 * k)) [k..<unat (ssize an) div 4])) c)"
proof (induction "unat (ssize an) div 4 - k" arbitrary: k c)
  case 0
  have n: "unat (ssize an) < 0xFFFFFFFC" using assms by (simp add: word_less_nat_alt)
  have k: "k = unat (ssize an) div 4" using 0 by simp
  then have "unat (of_nat (4 * k) :: u32) = 4 * k" using n by (intro unat_of_nat_u32) simp
  then have "unat (of_nat (4 * k) + 4 :: u32) = 4 * k + 4" using k n by (simp add: unat_word_ariths(1))
  then have "\<not> of_nat (4 * k) + 4 \<le> ssize an" using k by (simp add: word_le_nat_alt)
  then show ?case using k by (subst scan_loop.simps) simp
next
  case (Suc x)
  have n: "unat (ssize an) < 0xFFFFFFFC" using assms by (simp add: word_less_nat_alt)
  have k: "k < unat (ssize an) div 4" using Suc.hyps(2) by simp
  then have "unat (of_nat (4 * k) :: u32) = 4 * k" using n by (intro unat_of_nat_u32) simp
  then have "unat (of_nat (4 * k) + 4 :: u32) = 4 * k + 4" using k n by (simp add: unat_word_ariths(1))
  then have t: "of_nat (4 * k) + 4 \<le> ssize an" using k by (simp add: word_le_nat_alt)
  have u: "[k..<unat (ssize an) div 4] = k # [Suc k..<unat (ssize an) div 4]" using k by (simp add: upt_conv_Cons)
  have e: "of_nat (4 * k) + 4 = (of_nat (4 * Suc k) :: u32)" by simp
  have "scan_loop an h (of_nat (4 * k)) c = scan_loop an h (of_nat (4 * Suc k))
      (if \<not> a_in_range an (sbase an + of_nat (4 * k)) then c else h (sbase an + of_nat (4 * k)) c)"
    using t unfolding e [symmetric] by (subst scan_loop.simps) (simp only: if_True Let_def)
  also have "\<dots> = Some (fold h (filter (a_in_range an) (map (\<lambda>k. sbase an + of_nat (4 * k)) [k..<unat (ssize an) div 4])) c)"
    unfolding u using Suc.hyps(1) [of "Suc k"] Suc.hyps(2) k by simp
  finally show ?case .
qed

lemma scan_loop_diverges:
  assumes "ssize an \<ge> 0xFFFFFFFC" and "off AND 3 = 0"
  shows "scan_loop an h off c = None"
proof (rule ccontr)
  assume "scan_loop an h off c \<noteq> None"
  then obtain c' where r: "scan_loop an h off c = Some c'" by blast
  have "ssize an \<ge> 0xFFFFFFFC \<longrightarrow> off AND 3 = 0 \<longrightarrow> False"
  proof (rule scan_loop.raw_induct [OF _ r])
    fix f :: "a_code \<Rightarrow> (u32 \<Rightarrow> walk_ctx \<Rightarrow> walk_ctx) \<Rightarrow> u32 \<Rightarrow> walk_ctx \<Rightarrow> walk_ctx option"
      and an h off c y
    assume IH: "\<And>an h off c y. f an h off c = Some y \<Longrightarrow> ssize an \<ge> 0xFFFFFFFC \<longrightarrow> off AND 3 = 0 \<longrightarrow> False"
      and s: "(if off + 4 \<le> ssize an then let a = sbase an + off
           in f an h (off + 4) (if \<not> a_in_range an a then c else h a c) else Some c) = Some y"
    show "ssize an \<ge> 0xFFFFFFFC \<longrightarrow> off AND 3 = 0 \<longrightarrow> False"
    proof (intro impI)
      assume b: "ssize an \<ge> 0xFFFFFFFC" and al: "off AND 3 = 0"
      have al4: "(off + 4) AND 3 = 0" using al by (rule aligned_add) simp
      then have "unat (off + 4) mod 4 = 0" by (simp only: and_3_iff)
      then have "unat (off + 4) \<le> 0xFFFFFFFC" using unat_u32_less [of "off + 4"] by presburger
      then have "off + 4 \<le> ssize an" using b by (simp add: word_le_nat_alt)
      then show False using s IH b al4 by (auto simp: Let_def)
    qed
  qed
  then show False using assms by blast
qed

lemma find_entries_eq: "find_entries an seeds = (if scan_ends an then Some (found_entries an seeds) else None)"
proof (cases "scan_calls an")
  case True
  show ?thesis
  proof (cases "ssize an < 0xFFFFFFFC")
    case lt: True
    have "scan_loop an h 0 c = Some (fold h (scan_addrs an) c)" for h c
      using scan_loop_ends [OF lt, of 0 h c] by (simp add: scan_addrs_def)
    then show ?thesis using True lt by (simp add: find_entries_def found_entries_def scan_ends_def)
  next
    case False
    then show ?thesis using True scan_loop_diverges [of an 0]
      by (simp add: find_entries_def scan_ends_def)
  qed
qed (simp add: find_entries_def found_entries_def scan_ends_def)

lemma found_entries_fresh:
  assumes ok: "an_ok an" shows "fresh an (found_entries an seeds)"
  unfolding found_entries_def Let_def
  by (simp add: fold_preserves [where P = "fresh an" and f = "add_seed an", OF fresh_steps(1) [OF ok]]
        fold_preserves [where P = "fresh an" and f = "harvest_call an", OF fresh_steps(2) [OF ok]]
        fold_preserves [where P = "fresh an" and f = "harvest_pointer an", OF fresh_steps(3) [OF ok]] fresh_start)

lemma add_seed_known: "an_ok an \<Longrightarrow> fresh an c \<Longrightarrow> known an s (add_seed an s c)"
  using in_rangeD(2) [of an s] by (simp add: known_def add_seed_def fresh_def)

lemma found_entries_seeds:
  assumes ok: "an_ok an" and s: "s \<in> set seeds"
  shows "known an s (found_entries an seeds)"
proof -
  have "known an s (fold (add_seed an) seeds (start_ctx an))"
    using fold_establishes [where P = "known an s" and I = "fresh an" and f = "add_seed an", OF known_steps(1)
        fresh_steps(1) [OF ok] add_seed_known [OF ok] s fresh_start] .
  then show ?thesis
    unfolding found_entries_def Let_def
    by (simp add: fold_preserves [where P = "known an s" and f = "harvest_call an", OF known_steps(2)]
        fold_preserves [where P = "known an s" and f = "harvest_pointer an", OF known_steps(3)])
qed

text \<open>A direct call the linear scan sees.\<close>

definition scanned_call :: "a_code \<Rightarrow> u32 \<Rightarrow> u32 \<Rightarrow> bool" where
  "scanned_call an a t \<longleftrightarrow> scan_calls an \<and> a \<in> set (scan_addrs an) \<and> i_op (insn_at an a) = A_JAL \<and>
     has_target (insn_at an a) \<and> \<not> is_get_pc (insn_at an a) \<and> i_target (insn_at an a) = t \<and> \<not> is_import_stub an t"

lemma found_entries_calls:
  assumes ok: "an_ok an" and s: "scanned_call an a t"
  shows "known an t (found_entries an seeds)"
proof -
  let ?c = "fold (add_seed an) seeds (start_ctx an)"
  have "known an t (harvest_call an a c)" if "fresh an c" for c
    using s that in_rangeD(2) [OF ok, of t]
    by (auto simp: scanned_call_def known_def harvest_call_def add_entry_def fresh_def Let_def)
  moreover have "fresh an ?c" by (simp add: fold_preserves [where P = "fresh an" and f = "add_seed an", OF fresh_steps(1) [OF ok]] fresh_start)
  ultimately have "known an t (fold (harvest_call an) (scan_addrs an) ?c)"
    using s fold_establishes [where P = "known an t" and I = "fresh an" and f = "harvest_call an" and x = a,
        OF known_steps(2) fresh_steps(2) [OF ok]] by (simp add: scanned_call_def)
  then show ?thesis
    using s unfolding found_entries_def Let_def
    by (simp add: scanned_call_def fold_preserves [where P = "known an t" and f = "harvest_pointer an", OF known_steps(3)])
qed

lemma promote_ok:
  assumes ok: "an_ok an" and p: "promote an ts em = (em', added)" and l: "length em = nwords an"
  shows "length em' = nwords an" "\<forall>i. em ! i \<longrightarrow> em' ! i" "added = 0 \<Longrightarrow> em' = em"
    "added \<noteq> 0 \<Longrightarrow> \<exists>t. a_in_range an t \<and> em' ! widx an t"
proof -
  let ?f = "\<lambda>t (em, added). if \<not> a_in_range an t \<or> em ! widx an t then (em, added)
       else (em[widx an t := True], added + 1 :: nat)"
  have "length em' = nwords an \<and> (\<forall>i. em ! i \<longrightarrow> em' ! i) \<and> n \<le> added \<and> (added = n \<longrightarrow> em' = em) \<and>
      (added \<noteq> n \<longrightarrow> (\<exists>t. a_in_range an t \<and> em' ! widx an t))"
    if "fold ?f ts (em, n) = (em', added)" "length em = nwords an" for em n
    using that
  proof (induction ts arbitrary: em n)
    case (Cons t ts)
    show ?case
    proof (cases "\<not> a_in_range an t \<or> em ! widx an t")
      case True
      then have "fold ?f ts (em, n) = (em', added)" using Cons.prems(1) by auto
      then show ?thesis using Cons.IH Cons.prems(2) by blast
    next
      case False
      let ?em = "em[widx an t := True]"
      have IH: "length em' = nwords an \<and> (\<forall>i. ?em ! i \<longrightarrow> em' ! i) \<and> Suc n \<le> added"
        using Cons.IH [of ?em "Suc n"] Cons.prems False by auto
      have "?em ! widx an t" using False in_rangeD(2) [OF ok, of t] Cons.prems(2) by simp
      then show ?thesis using IH False nth_mark [of em] by auto
    qed
  qed simp
  from this [of em 0] p l
  show "length em' = nwords an" "\<forall>i. em ! i \<longrightarrow> em' ! i" "added = 0 \<Longrightarrow> em' = em"
    "added \<noteq> 0 \<Longrightarrow> \<exists>t. a_in_range an t \<and> em' ! widx an t"
    by (simp_all add: promote_def)
qed

lemma rewalk_ok:
  assumes ok: "an_ok an" and a: "a_in_range an a" and l: "length (entry_map c) = nwords an"
  shows "disc_inv an [] (rewalk an c)" "entries_pending an (rewalk an c)"
    "entry_map (rewalk an c) = entry_map c"
    "entry_map c ! i \<Longrightarrow> i < nwords an \<Longrightarrow> func_queue (rewalk an c) \<noteq> []"
proof -
  show "disc_inv an [] (rewalk an c)" using l by (intro disc_inv_clean) (simp_all add: rewalk_def)
  show "entry_map (rewalk an c) = entry_map c" by (simp add: rewalk_def)
  have e: "base an + of_nat j * 4 \<in> set (func_queue (rewalk an c))" if "entry_map c ! j" "j < nwords an" for j
    using that by (auto simp: rewalk_def entry_addrs_def)
  then show "entry_map c ! i \<Longrightarrow> i < nwords an \<Longrightarrow> func_queue (rewalk an c) \<noteq> []" by fastforce
  show "entries_pending an (rewalk an c)"
    unfolding entries_pending_def
  proof (intro allI impI)
    fix j assume j: "j < nwords an" "entry_map (rewalk an c) ! j"
    then have "entry_map c ! j" by (simp add: rewalk_def)
    then show "j \<in> codes (seen (rewalk an c)) \<or>
        (\<exists>a\<in>set (func_queue (rewalk an c)). a_in_range an a \<and> widx an a = j)"
      using e [of j] in_range_all [OF ok a j(1)] j(1) by blast
  qed
qed

definition settled :: "a_code \<Rightarrow> disc_st \<Rightarrow> bool" where
  "settled an d \<longleftrightarrow> disc_inv an (d_funcs d) (d_ctx d) \<and> entries_pending an (d_ctx d) \<and> func_queue (d_ctx d) = []"

definition keeps :: "a_code \<Rightarrow> walk_ctx \<Rightarrow> walk_ctx \<Rightarrow> bool" where
  "keeps an c c' \<longleftrightarrow> (\<forall>i<nwords an. entry_map c ! i \<longrightarrow> entry_map c' ! i)"

lemma run_drain_ok:
  assumes ok: "an_ok an" and inv: "disc_inv an (d_funcs d) (d_ctx d)" "entries_pending an (d_ctx d)"
  shows "\<exists>d'. run_drain an d = Some d' \<and> settled an d' \<and> keeps an (d_ctx d) (d_ctx d')"
proof -
  have "2 * (nwords an - card (codes (seen (d_ctx d)))) + length (func_queue (d_ctx d)) < drain_fuel an (d_ctx d)"
    by (simp add: drain_fuel_def)
  from drain_ok [OF ok inv this] show ?thesis
    by (auto simp: run_drain_def settled_def keeps_def)
qed

lemma next_round_ok:
  assumes ok: "an_ok an" and s: "settled an d" and n: "next_round an d = (d', go)"
  shows "keeps an (d_ctx d) (d_ctx d')" "go \<Longrightarrow> disc_inv an (d_funcs d') (d_ctx d') \<and> entries_pending an (d_ctx d')"
    "\<not> go \<Longrightarrow> settled an d'"
proof -
  let ?c = "d_ctx d"
  let ?ts = "concat (map (resolve_jump_table an) (w_indirects ?c)) @ w_cross ?c"
  obtain em added where p: "promote an ?ts (entry_map ?c) = (em, added)" by fastforce
  have l: "length (entry_map ?c) = nwords an" using s by (simp add: settled_def disc_inv_def ctx_ok_def)
  note po = promote_ok [OF ok p l]
  let ?c2 = "?c\<lparr>w_cross := [], w_indirects := [], entry_map := em\<rparr>"
  consider (stop) "d' = d" "\<not> go"
    | (same) "added = 0" "d_ctx d' = ?c2" "d_funcs d' = d_funcs d" "\<not> go"
    | (again) "added \<noteq> 0" "d_ctx d' = rewalk an ?c2" "d_funcs d' = []" "go \<longleftrightarrow> func_queue (rewalk an ?c2) \<noteq> []"
    using n p by (auto simp: next_round_def Let_def split: if_splits)
  then have "keeps an ?c (d_ctx d') \<and> (go \<longrightarrow> disc_inv an (d_funcs d') (d_ctx d') \<and> entries_pending an (d_ctx d')) \<and>
      (\<not> go \<longrightarrow> settled an d')"
  proof cases
    case stop
    then show ?thesis using s by (simp add: keeps_def)
  next
    case same
    then show ?thesis using s po(3)
      by (auto simp: keeps_def settled_def disc_inv_def ctx_ok_def entries_pending_def)
  next
    case again
    then obtain t where t: "a_in_range an t" "em ! widx an t" using po(4) by blast
    have l2: "length (entry_map ?c2) = nwords an" using po(1) by simp
    note rw = rewalk_ok [OF ok t(1) l2]
    have g: go using again(4) rw(4) [of "widx an t"] t in_rangeD(2) [OF ok t(1)] by simp
    show ?thesis using again g rw(1-3) po(2) by (simp add: keeps_def)
  qed
  then show "keeps an (d_ctx d) (d_ctx d')"
    "go \<Longrightarrow> disc_inv an (d_funcs d') (d_ctx d') \<and> entries_pending an (d_ctx d')" "\<not> go \<Longrightarrow> settled an d'"
    by blast+
qed

lemma more_rounds_ok:
  assumes ok: "an_ok an"
  shows "settled an d \<Longrightarrow> \<exists>d'. more_rounds n an d = Some d' \<and> settled an d' \<and> keeps an (d_ctx d) (d_ctx d')"
proof (induction n arbitrary: d)
  case 0
  then show ?case by (simp add: keeps_def)
next
  case (Suc n)
  obtain d1 go where n: "next_round an d = (d1, go)" by fastforce
  note nr = next_round_ok [OF ok Suc.prems n]
  show ?case
  proof (cases go)
    case False
    then show ?thesis using n nr by simp
  next
    case True
    then obtain d2 where d2: "run_drain an d1 = Some d2" "settled an d2" "keeps an (d_ctx d1) (d_ctx d2)"
      using run_drain_ok [OF ok] nr(2) by blast
    with Suc.IH [of d2] obtain d' where "more_rounds n an d2 = Some d'" "settled an d'" "keeps an (d_ctx d2) (d_ctx d')"
      by blast
    then show ?thesis using n True d2 nr(1) by (auto simp: keeps_def)
  qed
qed

text \<open>Discovery returns; what it reports comes from a settled state that knows every entry found.\<close>

lemma a_discover_ok:
  assumes ok: "an_ok an" and sc: "scan_ends an"
  shows "\<exists>r d. a_discover an seeds = Some r \<and> settled an d \<and> keeps an (found_entries an seeds) (d_ctx d) \<and>
    r_funcs r = sort_key f_addr (d_funcs d) \<and> r_owner r = owner (d_ctx d) \<and> r_insns r = n_insns (d_ctx d) \<and>
    r_bytes_reached r = of_nat (4 * length (filter (is_code (d_ctx d)) [0..<nwords an]))"
proof -
  let ?d = "\<lparr>d_ctx = found_entries an seeds, d_funcs = [], d_ntables = 0, d_ntable_targets = 0\<rparr>"
  have f: "fresh an (found_entries an seeds)" by (rule found_entries_fresh [OF ok])
  then have "disc_inv an [] (found_entries an seeds)" by (intro disc_inv_clean) (simp_all add: fresh_def)
  then obtain d1 where 1: "run_drain an ?d = Some d1" "settled an d1" "keeps an (found_entries an seeds) (d_ctx d1)"
    using run_drain_ok [OF ok, of ?d] f by (auto simp: fresh_def)
  then obtain d where 2: "more_rounds 7 an d1 = Some d" "settled an d" "keeps an (d_ctx d1) (d_ctx d)"
    using more_rounds_ok [OF ok] by blast
  have "keeps an (found_entries an seeds) (d_ctx d)" using 1(3) 2(3) by (auto simp: keeps_def)
  then show ?thesis using 1(1) 2(1,2) sc by (auto simp: a_discover_def Let_def find_entries_eq)
qed

lemma a_discover_scan_ends: "a_discover an seeds = Some r \<Longrightarrow> scan_ends an"
  by (rule ccontr) (simp add: a_discover_def find_entries_eq)

lemma settled_owned:
  assumes ok: "an_ok an" and s: "settled an d" and i: "i < nwords an"
  shows "i \<in> codes (seen (d_ctx d)) \<longleftrightarrow> owner (d_ctx d) ! i \<noteq> A_NO_OWNER"
proof
  assume "i \<in> codes (seen (d_ctx d))"
  then show "owner (d_ctx d) ! i \<noteq> A_NO_OWNER"
    using s no_owner_out by (fastforce simp: settled_def disc_inv_def)
next
  assume "owner (d_ctx d) ! i \<noteq> A_NO_OWNER"
  then show "i \<in> codes (seen (d_ctx d))" using s i by (auto simp: settled_def disc_inv_def)
qed

lemma codes_filter:
  "length (seen c) = n \<Longrightarrow> codes (seen c) = {i. i < n \<and> is_code c i}"
  "length (seen c) = n \<Longrightarrow> length (filter (is_code c) [0..<n]) = card (codes (seen c))"
proof -
  assume l: "length (seen c) = n"
  then show c: "codes (seen c) = {i. i < n \<and> is_code c i}" by (simp add: codes_def is_code_def)
  have "card (set (filter (is_code c) [0..<n])) = length (filter (is_code c) [0..<n])"
    by (rule distinct_card) simp
  then show "length (filter (is_code c) [0..<n]) = card (codes (seen c))"
    unfolding c by (simp add: conj_commute)
qed

section \<open>What discovery guarantees\<close>

text \<open>A two-function module: a call, and a callee with a branch.\<close>

definition demo_code :: a_code where
  "demo_code = \<lparr>code = concat (map (bytes_of_word 4)
       [0x0C000404 :: u32, 0, 0x03E00008, 0, 0x10800002, 0, 0x24020001, 0x03E00008, 0]),
     base = 0x1000, extent = 36, stub_addr = 0, stub_size = 0, scan_calls = True, scan_base = 0, scan_size = 0,
     a_image = None, image_base = 0, image_size = 0, text_size = 0\<rparr>"

lemma demo_ok: "an_ok demo_code" "scan_ends demo_code"
  by (simp_all add: an_ok_def demo_code_def scan_ends_def ssize_def)

text \<open>
  C12. Discovery of a module whose extent is a whole number of aligned words ends, whatever its code and
  its seeds, exactly when the linear scan does: the walks, the work queue and the rounds all run out, and
  the scan, where it is asked for, runs out if and only if its size is below \<open>0xFFFFFFFC\<close>, beyond which
  the 32-bit offset wraps for ever.
\<close>

theorem a_discover_terminates:
  assumes "an_ok an"
  shows "(\<exists>r. a_discover an seeds = Some r) \<longleftrightarrow>
    \<not> (scan_calls an \<and> (if scan_size an \<noteq> 0 then scan_size an else extent an) \<ge> 0xFFFFFFFC)"
  using a_discover_ok [OF assms] a_discover_scan_ends unfolding scan_ends_def ssize_def by metis

theorem a_discover_terminates_witness:
  "(\<exists>r. a_discover demo_code [0x1000, 0xFFFFFFFF] = Some r) \<and>
   \<not> (\<exists>r. a_discover (demo_code\<lparr>scan_size := 0xFFFFFFFD\<rparr>) [] = Some r)"
proof -
  have "an_ok (demo_code\<lparr>scan_size := 0xFFFFFFFD\<rparr>)" by (simp add: an_ok_def demo_code_def)
  from a_discover_terminates [OF this] a_discover_terminates [OF demo_ok(1), of "[0x1000, 0xFFFFFFFF]"]
  show ?thesis by (simp add: demo_code_def)
qed

text \<open>
  C7. The functions reported partition the code reached: they are sorted by entry without
  duplicates, every claimed word belongs to exactly one of them and lies inside its bounds, every
  function owns its own entry, its instruction count is the number of words it owns, and the totals
  count the claimed words.
\<close>

theorem a_discover_partition:
  assumes ok: "an_ok an" and r: "a_discover an seeds = Some r"
  shows "sorted_wrt (<) (map f_addr (r_funcs r)) \<and>
    (\<forall>i<nwords an. r_owner r ! i = A_NO_OWNER \<or>
       (\<exists>f\<in>set (r_funcs r). r_owner r ! i = f_addr f \<and>
          unat (f_start f) \<le> waddr an i \<and> waddr an i + 4 \<le> unat (f_end f))) \<and>
    (\<forall>f\<in>set (r_funcs r). a_in_range an (f_addr f) \<and> r_owner r ! widx an (f_addr f) = f_addr f \<and>
       unat (f_insns f) = card {i. i < nwords an \<and> r_owner r ! i = f_addr f}) \<and>
    r_insns r = of_nat (card {i. i < nwords an \<and> r_owner r ! i \<noteq> A_NO_OWNER}) \<and>
    r_bytes_reached r = of_nat (4 * card {i. i < nwords an \<and> r_owner r ! i \<noteq> A_NO_OWNER})"
proof -
  obtain d where s: "settled an d" and f: "r_funcs r = sort_key f_addr (d_funcs d)" "r_owner r = owner (d_ctx d)"
      "r_insns r = n_insns (d_ctx d)"
      "r_bytes_reached r = of_nat (4 * length (filter (is_code (d_ctx d)) [0..<nwords an]))"
    using a_discover_ok [OF ok a_discover_scan_ends [OF r], of seeds] r by auto
  have inv: "disc_inv an (d_funcs d) (d_ctx d)" using s by (simp add: settled_def)
  have l: "length (seen (d_ctx d)) = nwords an" using inv by (simp add: disc_inv_def ctx_ok_def)
  have own: "codes (seen (d_ctx d)) = {i. i < nwords an \<and> owner (d_ctx d) ! i \<noteq> A_NO_OWNER}"
    using settled_owned [OF ok s] codes_sub [of "seen (d_ctx d)"] l by auto
  have "sorted (map f_addr (r_funcs r))" "distinct (map f_addr (r_funcs r))"
    unfolding f using inv by (simp_all add: disc_inv_def distinct_map)
  then have "sorted_wrt (<) (map f_addr (r_funcs r))" by (simp add: strict_sorted_iff)
  moreover have "r_owner r ! i = A_NO_OWNER \<or> (\<exists>f\<in>set (r_funcs r). r_owner r ! i = f_addr f \<and>
          unat (f_start f) \<le> waddr an i \<and> waddr an i + 4 \<le> unat (f_end f))" if "i < nwords an" for i
    unfolding f using inv that by (auto simp: disc_inv_def)
  ultimately show ?thesis
    using inv unfolding f codes_filter(2) [OF l] own [symmetric] by (simp add: disc_inv_def)
qed

theorem a_discover_partition_witness:
  "\<exists>r. a_discover demo_code [0x1000] = Some r \<and> sorted_wrt (<) (map f_addr (r_funcs r)) \<and>
     r_bytes_reached r = of_nat (4 * card {i. i < nwords demo_code \<and> r_owner r ! i \<noteq> A_NO_OWNER})"
  using a_discover_ok [OF demo_ok, of "[0x1000]"] a_discover_partition [OF demo_ok(1)] by blast

text \<open>
  C13. Nothing that was known to be a function is lost: every seed in the extent, and every target of
  a direct call the linear scan sees, ends up in some function.
\<close>

theorem a_discover_covers:
  assumes ok: "an_ok an" and r: "a_discover an seeds = Some r" and t: "a_in_range an t"
    and k: "t \<in> set seeds \<or> scanned_call an a t"
  shows "\<exists>f\<in>set (r_funcs r). r_owner r ! widx an t = f_addr f"
proof -
  obtain d where s: "settled an d" and kp: "keeps an (found_entries an seeds) (d_ctx d)"
      and f: "r_funcs r = sort_key f_addr (d_funcs d)" "r_owner r = owner (d_ctx d)"
    using a_discover_ok [OF ok a_discover_scan_ends [OF r], of seeds] r by auto
  have "known an t (found_entries an seeds)"
    using k found_entries_seeds [OF ok] found_entries_calls [OF ok] by blast
  then have "entry_map (d_ctx d) ! widx an t"
    using kp t in_rangeD(2) [OF ok t] by (simp add: known_def keeps_def)
  then have "widx an t \<in> codes (seen (d_ctx d))"
    using s in_rangeD(2) [OF ok t] by (auto simp: settled_def entries_pending_def)
  then show ?thesis using s f by (auto simp: settled_def disc_inv_def)
qed

theorem a_discover_covers_witness:
  "\<exists>r. a_discover demo_code [0x1000] = Some r \<and>
     (\<exists>f\<in>set (r_funcs r). r_owner r ! widx demo_code 0x1000 = f_addr f)"
proof -
  obtain r where r: "a_discover demo_code [0x1000] = Some r" using a_discover_ok [OF demo_ok] by blast
  have "a_in_range demo_code 0x1000" by (simp add: a_in_range_def demo_code_def)
  from a_discover_covers [OF demo_ok(1) r this, of 0] r show ?thesis by simp
qed

text \<open>
  A computed jump is resolved to nothing, or to between 2 and 512 addresses, each an aligned
  address of the extent that decodes to a valid instruction.
\<close>

theorem resolve_jump_table_valid:
  "let ts = resolve_jump_table an site in
     list_all (\<lambda>t. a_in_range an t \<and> i_op (insn_at an t) \<noteq> A_INVALID) ts \<and>
     (ts = [] \<or> (2 \<le> length ts \<and> length ts \<le> 512))"
proof -
  have lim: "table_limit an site \<le> 512"
    by (auto simp: table_limit_def Let_def find_Some_iff split: option.split)
  have rt: "list_all (\<lambda>t. a_in_range an t \<and> i_op (insn_at an t) \<noteq> A_INVALID) (read_table an tb n)" for tb n
    by (auto simp: read_table_def list_all_iff is_code_pointer_def dest: set_takeWhileD)
  have le: "length (read_table an tb n) \<le> n" for tb n
    using length_takeWhile_le [of "is_code_pointer an" "map (\<lambda>i. image_read32 an (tb + of_nat i * 4)) [0..<n]"]
    by (simp add: read_table_def)
  have "resolve_jump_table an site = [] \<or> (\<exists>tb. resolve_jump_table an site = read_table an tb (table_limit an site) \<and>
        2 \<le> length (read_table an tb (table_limit an site)))"
    unfolding resolve_jump_table_def Let_def
    by (simp only: split: option.split prod.split if_split) (auto simp only: not_less)
  then consider "resolve_jump_table an site = []"
    | tb where "resolve_jump_table an site = read_table an tb (table_limit an site)"
        "2 \<le> length (read_table an tb (table_limit an site))" by blast
  then show ?thesis
  proof cases
    case 2
    then show ?thesis using rt le [of tb "table_limit an site"] lim by (simp add: Let_def)
  qed simp
qed

end
