(* ===== verification/Container.thy ===== *)
theory Container
  imports Decode "HOL-Library.Monad_Syntax"
begin

unbundle bit_operations_syntax

text \<open>
  The container stack, \<^verbatim>\<open>tools/allegrexrecomp/container.c\<close>: format sniffing, the PBP, ~PSP, ELF and
  module-info headers, and the walks over the import, export and relocation tables. The input is a
  file nobody vouches for, so every read is checked: a buffer is the list of its bytes, \<open>rd8\<close>,
  \<open>rd16\<close>, \<open>rd32\<close> and \<open>bytes_at\<close> are \<open>None\<close> outside it, and a parser that is \<open>None\<close> has read out of
  bounds. \<open>Refused\<close> is a return of -1. Offsets and sizes are \<^verbatim>\<open>size_t\<close> sums of 32-bit fields, natural
  numbers here; a sum the code truncates to 32 bits is written as a sum of words.

  The lemmas show that no parser reads outside its buffer, whatever the file holds, which extents a
  parsed ELF may claim, that the import walk ends, and that the export walk does not on some files.
\<close>

section \<open>Checked reads\<close>

definition bytes_at :: "u8 list \<Rightarrow> nat \<Rightarrow> nat \<Rightarrow> u8 list option" where
  "bytes_at d off n = (if off + n \<le> length d then Some (take n (drop off d)) else None)"

definition rd8 :: "u8 list \<Rightarrow> nat \<Rightarrow> u8 option" where
  "rd8 d off = (if off < length d then Some (d ! off) else None)"

definition rd16 :: "u8 list \<Rightarrow> nat \<Rightarrow> u16 option" where
  "rd16 d off = map_option word_of_bytes (bytes_at d off 2)"

definition rd32 :: "u8 list \<Rightarrow> nat \<Rightarrow> u32 option" where
  "rd32 d off = map_option word_of_bytes (bytes_at d off 4)"

datatype 'a reply = Refused | Accepted 'a

text \<open>A string literal without its terminator.\<close>

definition ascii :: "string \<Rightarrow> u8 list" where
  "ascii s = map of_char s"

section \<open>Sniffing\<close>

datatype psp_format = FMT_UNKNOWN | FMT_ISO9660 | FMT_PBP | FMT_PSP | FMT_SCE | FMT_ELF

abbreviation (input) ISO_SECTOR :: nat where "ISO_SECTOR \<equiv> 2048"

definition elf_magic :: "u8 list" where "elf_magic = 0x7F # ascii ''ELF''"
definition pbp_magic :: "u8 list" where "pbp_magic = 0 # ascii ''PBP''"

definition psp_sniff :: "u8 list \<Rightarrow> psp_format option" where
  "psp_sniff d =
     (if length d < 16 then Some FMT_UNKNOWN
      else do {
        m \<leftarrow> bytes_at d 0 4;
        if m = elf_magic then Some FMT_ELF
        else if m = ascii ''~PSP'' then Some FMT_PSP
        else if m = ascii ''~SCE'' then Some FMT_SCE
        else if m = pbp_magic then Some FMT_PBP
        else if length d > 16 * ISO_SECTOR + 6 then do {
          v \<leftarrow> bytes_at d (16 * ISO_SECTOR + 1) 5;
          Some (if v = ascii ''CD001'' then FMT_ISO9660 else FMT_UNKNOWN)
        }
        else Some FMT_UNKNOWN
      })"

definition psp_format_name :: "psp_format \<Rightarrow> string" where
  "psp_format_name f = (case f of
     FMT_ISO9660 \<Rightarrow> ''ISO9660 disc image''
   | FMT_PBP \<Rightarrow> ''PBP container''
   | FMT_PSP \<Rightarrow> ''~PSP encrypted PRX''
   | FMT_SCE \<Rightarrow> ''~SCE wrapper''
   | FMT_ELF \<Rightarrow> ''ELF32''
   | FMT_UNKNOWN \<Rightarrow> ''unknown'')"

section \<open>PBP\<close>

abbreviation (input) PBP_NUM_SEGMENTS :: nat where "PBP_NUM_SEGMENTS \<equiv> 8"

record pbp_info =
  p_version :: u32
  p_offset :: "u32 list"
  p_size :: "u32 list"

primrec rd32s :: "u8 list \<Rightarrow> nat \<Rightarrow> nat \<Rightarrow> u32 list option" where
  "rd32s d off 0 = Some []"
| "rd32s d off (Suc n) = do { x \<leftarrow> rd32 d off; xs \<leftarrow> rd32s d (off + 4) n; Some (x # xs) }"

text \<open>A segment runs to the next one's offset, the last to the end of the file.\<close>

definition pbp_sizes :: "u32 list \<Rightarrow> u32 \<Rightarrow> u32 list" where
  "pbp_sizes offs len =
     map2 (\<lambda>lo hi. if hi > lo then hi - lo else 0) offs (tl offs @ [len])"

definition pbp_parse :: "u8 list \<Rightarrow> pbp_info reply option" where
  "pbp_parse d =
     (if length d < 0x28 then Some Refused
      else do {
        m \<leftarrow> bytes_at d 0 4;
        if m \<noteq> pbp_magic then Some Refused
        else do {
          version \<leftarrow> rd32 d 4;
          offs \<leftarrow> rd32s d 8 PBP_NUM_SEGMENTS;
          Some (Accepted \<lparr>p_version = version, p_offset = offs, p_size = pbp_sizes offs (of_nat (length d))\<rparr>)
        }
      })"

section \<open>The ~PSP header\<close>

abbreviation (input) PSP_HEADER_SIZE :: nat where "PSP_HEADER_SIZE \<equiv> 0x150"

record psp_header =
  h_modname :: "u8 list"
  h_mod_attr :: u16
  h_comp_attr :: u16
  h_mod_ver_lo :: u8
  h_mod_ver_hi :: u8
  h_nsegments :: u8
  h_elf_size :: u32
  h_psp_size :: u32
  h_boot_entry :: u32
  h_modinfo_offset :: u32
  h_bss_size :: u32
  h_seg_address :: "u32 list"
  h_seg_size :: "u32 list"
  h_devkit_version :: u32
  h_decrypt_mode :: u8
  h_tag :: u32

definition psp_header_parse :: "u8 list \<Rightarrow> psp_header reply option" where
  "psp_header_parse d =
     (if length d < PSP_HEADER_SIZE then Some Refused
      else do {
        m \<leftarrow> bytes_at d 0 4;
        if m \<noteq> ascii ''~PSP'' then Some Refused
        else do {
          mod_attr \<leftarrow> rd16 d 0x04;
          comp_attr \<leftarrow> rd16 d 0x06;
          lo \<leftarrow> rd8 d 0x08;
          hi \<leftarrow> rd8 d 0x09;
          name \<leftarrow> bytes_at d 0x0A 28;
          nseg \<leftarrow> rd8 d 0x27;
          elf_size \<leftarrow> rd32 d 0x28;
          psp_size \<leftarrow> rd32 d 0x2C;
          boot \<leftarrow> rd32 d 0x30;
          modinfo \<leftarrow> rd32 d 0x34;
          bss \<leftarrow> rd32 d 0x38;
          addrs \<leftarrow> rd32s d 0x44 4;
          sizes \<leftarrow> rd32s d 0x54 4;
          devkit \<leftarrow> rd32 d 0x78;
          dmode \<leftarrow> rd8 d 0x7C;
          tag \<leftarrow> rd32 d 0xD0;
          Some (Accepted \<lparr>h_modname = name @ [0], h_mod_attr = mod_attr, h_comp_attr = comp_attr,
            h_mod_ver_lo = lo, h_mod_ver_hi = hi, h_nsegments = nseg, h_elf_size = elf_size,
            h_psp_size = psp_size, h_boot_entry = boot, h_modinfo_offset = modinfo, h_bss_size = bss,
            h_seg_address = addrs, h_seg_size = sizes, h_devkit_version = devkit,
            h_decrypt_mode = dmode, h_tag = tag\<rparr>)
        }
      })"

section \<open>ELF\<close>

record elf_segment =
  s_addr :: u32
  s_offset :: u32
  s_filesz :: u32
  s_memsz :: u32
  s_flags :: u32

text \<open>\<open>e_seg\<close> is the part of \<^verbatim>\<open>seg[8]\<close> in use; its length is \<^verbatim>\<open>nsegments\<close>.\<close>

record elf_info =
  e_type :: u16
  e_entry :: u32
  e_seg :: "elf_segment list"
  e_text_addr :: u32
  e_text_offset :: u32
  e_text_size :: u32
  e_text_from_section :: bool
  e_stub_addr :: u32
  e_stub_offset :: u32
  e_stub_size :: u32
  e_modinfo_addr :: u32
  e_modinfo_offset :: u32
  e_modinfo_size :: u32
  e_nsections :: nat
  e_shoff :: u32
  e_shentsize :: u32
  e_shnum :: u32

definition elf_blank :: "u16 \<Rightarrow> u32 \<Rightarrow> elf_info" where
  "elf_blank ty entry = \<lparr>e_type = ty, e_entry = entry, e_seg = [], e_text_addr = 0, e_text_offset = 0,
     e_text_size = 0, e_text_from_section = False, e_stub_addr = 0, e_stub_offset = 0, e_stub_size = 0,
     e_modinfo_addr = 0, e_modinfo_offset = 0, e_modinfo_size = 0, e_nsections = 0, e_shoff = 0,
     e_shentsize = 0, e_shnum = 0\<rparr>"

definition add_segment :: "elf_segment \<Rightarrow> elf_info \<Rightarrow> elf_info" where
  "add_segment s out =
     (let out = out\<lparr>e_seg := e_seg out @ [s]\<rparr> in
      if s_flags s AND 1 \<noteq> 0 \<and> e_text_size out = 0
      then out\<lparr>e_text_addr := s_addr s, e_text_offset := s_offset s, e_text_size := s_filesz s\<rparr>
      else out)"

definition rd_segment :: "u8 list \<Rightarrow> nat \<Rightarrow> elf_segment option" where
  "rd_segment d p = do {
     off \<leftarrow> rd32 d (p + 4);
     addr \<leftarrow> rd32 d (p + 8);
     filesz \<leftarrow> rd32 d (p + 16);
     memsz \<leftarrow> rd32 d (p + 20);
     flags \<leftarrow> rd32 d (p + 24);
     Some \<lparr>s_addr = addr, s_offset = off, s_filesz = filesz, s_memsz = memsz, s_flags = flags\<rparr>
   }"

fun segment_loop :: "u8 list \<Rightarrow> nat \<Rightarrow> nat \<Rightarrow> nat list \<Rightarrow> elf_info \<Rightarrow> elf_info option" where
  "segment_loop d phoff phentsize [] out = Some out"
| "segment_loop d phoff phentsize (i # is) out =
     (let p = phoff + i * phentsize in
      if length (e_seg out) \<ge> 8 then Some out
      else if p + 32 > length d then Some out
      else do {
        p_type \<leftarrow> rd32 d p;
        if p_type \<noteq> 1 then segment_loop d phoff phentsize is out
        else do {
          s \<leftarrow> rd_segment d p;
          segment_loop d phoff phentsize is (add_segment s out)
        }
      })"

text \<open>
  \<^verbatim>\<open>strncmp(name, lit, n) == 0\<close> where \<open>n\<close> bytes are known to be there: the literal's first \<open>n\<close>
  characters, its terminator included, are the first \<open>n\<close> bytes.
\<close>

definition name_is :: "u8 list \<Rightarrow> nat \<Rightarrow> nat \<Rightarrow> u8 list \<Rightarrow> bool option" where
  "name_is d at avail lit =
     (if avail \<ge> length lit then map_option (\<lambda>b. b = lit) (bytes_at d at (length lit)) else Some False)"

definition note_text :: "nat \<Rightarrow> u32 \<Rightarrow> u32 \<Rightarrow> u32 \<Rightarrow> elf_info \<Rightarrow> elf_info" where
  "note_text len addr off sz out =
     (if unat off + unat sz \<le> len
      then out\<lparr>e_text_addr := addr, e_text_offset := off, e_text_size := sz, e_text_from_section := True\<rparr>
      else out)"

definition note_stubs :: "u32 \<Rightarrow> u32 \<Rightarrow> u32 \<Rightarrow> elf_info \<Rightarrow> elf_info" where
  "note_stubs addr off sz out =
     (if e_stub_size out = 0
      then out\<lparr>e_stub_addr := addr, e_stub_offset := off, e_stub_size := sz\<rparr>
      else let hi = e_stub_addr out + e_stub_size out;
               hi = (if addr + sz > hi then addr + sz else hi);
               out = (if addr < e_stub_addr out
                      then out\<lparr>e_stub_offset := off, e_stub_addr := addr\<rparr> else out)
           in out\<lparr>e_stub_size := hi - e_stub_addr out\<rparr>)"

fun section_loop :: "u8 list \<Rightarrow> nat \<Rightarrow> nat \<Rightarrow> u32 \<Rightarrow> u32 \<Rightarrow> nat list \<Rightarrow> elf_info \<Rightarrow> elf_info option" where
  "section_loop d shoff shentsize stroff strsz [] out = Some out"
| "section_loop d shoff shentsize stroff strsz (i # is) out =
     (let sh = shoff + i * shentsize in
      if sh + 40 > length d then Some out
      else do {
        nameoff \<leftarrow> rd32 d sh;
        addr \<leftarrow> rd32 d (sh + 12);
        off \<leftarrow> rd32 d (sh + 16);
        sz \<leftarrow> rd32 d (sh + 20);
        if nameoff \<ge> strsz then section_loop d shoff shentsize stroff strsz is out
        else do {
          let at = unat stroff + unat nameoff;
          let avail = unat (strsz - nameoff);
          text \<leftarrow> name_is d at avail (ascii ''.text'' @ [0]);
          stub \<leftarrow> (if avail > 13 then name_is d at avail (ascii ''.sceStub.text'') else Some False);
          info \<leftarrow> name_is d at avail (ascii ''.rodata.sceModuleInfo'' @ [0]);
          section_loop d shoff shentsize stroff strsz is
            (if text then note_text (length d) addr off sz out
             else if stub then note_stubs addr off sz out
             else if info then out\<lparr>e_modinfo_addr := addr, e_modinfo_offset := off, e_modinfo_size := sz\<rparr>
             else out)
        }
      })"

text \<open>The section headers, when they are there; any inconsistency leaves what the segments gave.\<close>

definition elf_sections :: "u8 list \<Rightarrow> elf_info \<Rightarrow> elf_info option" where
  "elf_sections d out = do {
     shoff \<leftarrow> rd32 d 32;
     shentsize \<leftarrow> rd16 d 46;
     shnum \<leftarrow> rd16 d 48;
     shstrndx \<leftarrow> rd16 d 50;
     if shoff = 0 \<or> shentsize < 40 \<or> shnum = 0 \<or> shstrndx \<ge> shnum then Some out
     else do {
       let out = out\<lparr>e_shoff := shoff, e_shentsize := ucast shentsize, e_shnum := ucast shnum\<rparr>;
       let strhdr = unat shoff + unat shstrndx * unat shentsize;
       if strhdr + 40 > length d then Some out
       else do {
         stroff \<leftarrow> rd32 d (strhdr + 16);
         strsz \<leftarrow> rd32 d (strhdr + 20);
         if unat stroff + unat strsz > length d then Some out
         else section_loop d (unat shoff) (unat shentsize) stroff strsz [0..<unat shnum]
                (out\<lparr>e_nsections := unat shnum\<rparr>)
       }
     }
   }"

definition elf_parse :: "u8 list \<Rightarrow> elf_info reply option" where
  "elf_parse d =
     (if length d < 52 then Some Refused
      else do {
        m \<leftarrow> bytes_at d 0 4;
        if m \<noteq> elf_magic then Some Refused
        else do {
          cls \<leftarrow> rd8 d 4;
          dat \<leftarrow> rd8 d 5;
          if cls \<noteq> 1 \<or> dat \<noteq> 1 then Some Refused
          else do {
            ty \<leftarrow> rd16 d 16;
            entry \<leftarrow> rd32 d 24;
            phoff \<leftarrow> rd32 d 28;
            phentsize \<leftarrow> rd16 d 42;
            phnum \<leftarrow> rd16 d 44;
            if phentsize < 32 then Some Refused
            else do {
              out \<leftarrow> segment_loop d (unat phoff) (unat phentsize) [0..<unat phnum] (elf_blank ty entry);
              map_option Accepted (elf_sections d out)
            }
          }
        }
      })"

section \<open>Module info\<close>

record psp_module_info =
  m_attribute :: u32
  m_version :: "u8 \<times> u8"
  m_name :: "u8 list"
  m_gp_value :: u32
  m_ent_top :: u32
  m_ent_end :: u32
  m_stub_top :: u32
  m_stub_end :: u32

definition psp_modinfo_parse :: "u8 list \<Rightarrow> u32 \<Rightarrow> psp_module_info reply option" where
  "psp_modinfo_parse d file_offset =
     (let m = unat file_offset in
      if m + 0x34 > length d then Some Refused
      else do {
        attr \<leftarrow> rd16 d m;
        v0 \<leftarrow> rd8 d (m + 2);
        v1 \<leftarrow> rd8 d (m + 3);
        name \<leftarrow> bytes_at d (m + 4) 28;
        gp \<leftarrow> rd32 d (m + 0x20);
        ent_top \<leftarrow> rd32 d (m + 0x24);
        ent_end \<leftarrow> rd32 d (m + 0x28);
        stub_top \<leftarrow> rd32 d (m + 0x2C);
        stub_end \<leftarrow> rd32 d (m + 0x30);
        Some (Accepted \<lparr>m_attribute = ucast attr, m_version = (v0, v1), m_name = name @ [0], m_gp_value = gp,
          m_ent_top = ent_top, m_ent_end = ent_end, m_stub_top = stub_top, m_stub_end = stub_end\<rparr>)
      })"

section \<open>Import and export tables\<close>

text \<open>A walk: it returns, reads out of bounds, or is still going when the fuel is gone.\<close>

datatype 'a outcome = Done 'a | Out_of_bounds | Out_of_fuel

record psp_import_entry =
  i_thunk :: u32
  i_nid :: u32
  i_lib :: "u8 list"

text \<open>The library name, at most 31 bytes, up to its terminator or the end of the buffer.\<close>

fun lib_name :: "u8 list \<Rightarrow> nat \<Rightarrow> nat \<Rightarrow> u8 list option" where
  "lib_name d at 0 = Some []"
| "lib_name d at (Suc n) =
     (if at < length d then do {
        b \<leftarrow> rd8 d at;
        if b = 0 then Some [] else map_option (\<lambda>bs. b # bs) (lib_name d (at + 1) n)
      }
      else Some [])"

text \<open>The functions of one library: NIDs from the table, thunks eight bytes apart.\<close>

fun lib_imports :: "u8 list \<Rightarrow> nat \<Rightarrow> u32 \<Rightarrow> u8 list \<Rightarrow> nat list \<Rightarrow> psp_import_entry list option" where
  "lib_imports d nids stub_tbl lib [] = Some []"
| "lib_imports d nids stub_tbl lib (i # is) =
     (if nids + i * 4 + 4 > length d then Some []
      else do {
        nid \<leftarrow> rd32 d (nids + i * 4);
        rest \<leftarrow> lib_imports d nids stub_tbl lib is;
        Some (\<lparr>i_thunk = stub_tbl + of_nat i * 8, i_nid = nid, i_lib = lib\<rparr> # rest)
      })"

text \<open>One \<^verbatim>\<open>PspLibStub\<close> entry at \<open>off\<close>: its imports and the distance to the next.\<close>

definition import_entry :: "u8 list \<Rightarrow> u32 \<Rightarrow> nat \<Rightarrow> (psp_import_entry list \<times> u32) option" where
  "import_entry d load_bias off = do {
     name_ptr \<leftarrow> rd32 d off;
     ent_len \<leftarrow> rd8 d (off + 0x08);
     func_cnt \<leftarrow> rd16 d (off + 0x0A);
     nid_table \<leftarrow> rd32 d (off + 0x0C);
     stub_tbl \<leftarrow> rd32 d (off + 0x10);
     let stride = (if ent_len \<noteq> 0 then ucast ent_len * 4 else 0x14);
     let np = unat (name_ptr + load_bias);
     lib \<leftarrow> (if name_ptr \<noteq> 0 \<and> np < length d then lib_name d np 31 else Some []);
     its \<leftarrow> lib_imports d (unat (nid_table + load_bias)) stub_tbl
       (if lib \<noteq> [] then lib else ascii ''unknown'') [0..<unat func_cnt];
     Some (its, stride)
   }"

fun import_loop :: "nat \<Rightarrow> u8 list \<Rightarrow> u32 \<Rightarrow> u32 \<Rightarrow> u32 \<Rightarrow> psp_import_entry list \<Rightarrow> psp_import_entry list outcome" where
  "import_loop 0 d stub_end load_bias e found = Out_of_fuel"
| "import_loop (Suc fuel) d stub_end load_bias e found =
     (if e + 0x14 \<le> stub_end then
        (let off = unat (e + load_bias) in
         if off + 0x14 > length d then Done found
         else case import_entry d load_bias off of
             None \<Rightarrow> Out_of_bounds
           | Some (its, stride) \<Rightarrow>
               (if stride < 0x14 then Done (found @ its)
                else import_loop fuel d stub_end load_bias (e + stride) (found @ its)))
      else Done found)"

text \<open>The entries found; the caller's array keeps the first \<^verbatim>\<open>max\<close> and the count is of all.\<close>

definition psp_collect_imports :: "nat \<Rightarrow> u8 list \<Rightarrow> psp_module_info \<Rightarrow> u32 \<Rightarrow> psp_import_entry list outcome" where
  "psp_collect_imports fuel d mi load_bias =
     (if m_stub_end mi \<le> m_stub_top mi then Done []
      else import_loop fuel d (m_stub_end mi) load_bias (m_stub_top mi) [])"

text \<open>One export entry: \<open>None\<close> in place of the addresses is the \<^verbatim>\<open>continue\<close> of the code.\<close>

definition export_entry :: "u8 list \<Rightarrow> u32 \<Rightarrow> nat \<Rightarrow> (u32 list option \<times> u32) option" where
  "export_entry d load_bias off = do {
     ent_len \<leftarrow> rd8 d (off + 0x08);
     nvar \<leftarrow> rd8 d (off + 0x09);
     nfunc \<leftarrow> rd16 d (off + 0x0A);
     table \<leftarrow> rd32 d (off + 0x0C);
     let total = unat nfunc + unat nvar;
     let addrs = unat (table + load_bias) + total * 4;
     let stride = (if ent_len \<noteq> 0 then ucast ent_len * 4 else 0x10);
     if addrs + unat nfunc * 4 > length d then Some (None, stride)
     else do {
       fns \<leftarrow> rd32s d addrs (unat nfunc);
       Some (Some fns, stride)
     }
   }"

fun export_loop :: "nat \<Rightarrow> u8 list \<Rightarrow> u32 \<Rightarrow> u32 \<Rightarrow> u32 \<Rightarrow> u32 list \<Rightarrow> u32 list outcome" where
  "export_loop 0 d ent_end load_bias e found = Out_of_fuel"
| "export_loop (Suc fuel) d ent_end load_bias e found =
     (if e + 0x10 \<le> ent_end then
        (let off = unat (e + load_bias) in
         if off + 0x10 > length d then Done found
         else case export_entry d load_bias off of
             None \<Rightarrow> Out_of_bounds
           | Some (None, stride) \<Rightarrow> export_loop fuel d ent_end load_bias e found
           | Some (Some fns, stride) \<Rightarrow>
               (if stride < 0x10 then Done (found @ fns)
                else export_loop fuel d ent_end load_bias (e + stride) (found @ fns)))
      else Done found)"

definition psp_collect_exports :: "nat \<Rightarrow> u8 list \<Rightarrow> psp_module_info \<Rightarrow> u32 \<Rightarrow> u32 list outcome" where
  "psp_collect_exports fuel d mi load_bias =
     (if m_ent_end mi \<le> m_ent_top mi then Done []
      else export_loop fuel d (m_ent_end mi) load_bias (m_ent_top mi) [])"

section \<open>Pointer seeds\<close>

abbreviation (input) CODE_PROBE :: nat where "CODE_PROBE \<equiv> 6"
abbreviation (input) R_MIPS_32 :: u32 where "R_MIPS_32 \<equiv> 2"
abbreviation (input) R_MIPS_HI16 :: u32 where "R_MIPS_HI16 \<equiv> 5"
abbreviation (input) R_MIPS_LO16 :: u32 where "R_MIPS_LO16 \<equiv> 6"

primrec probe_loop :: "u8 list \<Rightarrow> nat \<Rightarrow> u32 \<Rightarrow> nat \<Rightarrow> bool option" where
  "probe_loop d at target 0 = Some True"
| "probe_loop d at target (Suc n) = do {
     w \<leftarrow> rd32 d at;
     if i_op (fst (a_decode w target)) = A_INVALID then Some False
     else probe_loop d (at + 4) (target + 4) n
   }"

definition looks_like_code :: "u8 list \<Rightarrow> elf_info \<Rightarrow> u32 \<Rightarrow> u32 \<Rightarrow> u32 \<Rightarrow> u32 \<Rightarrow> bool option" where
  "looks_like_code d e load_bias target text_lo text_hi =
     (if target \<ge> text_lo \<and> target < text_hi then Some True
      else case e_seg e of
          [] \<Rightarrow> Some False
        | s # _ \<Rightarrow>
           (let lo = s_addr s; hi = lo + s_filesz s; at = unat (target + load_bias) in
            if target < lo \<or> target + of_nat (CODE_PROBE * 4) > hi then Some False
            else if at + CODE_PROBE * 4 > length d then Some False
            else probe_loop d at target CODE_PROBE))"

text \<open>The address a HI16/LO16 pair of instructions forms, if it is in \<open>.text\<close>.\<close>

definition pair_seed :: "u8 list \<Rightarrow> u32 \<Rightarrow> u32 \<Rightarrow> u32 \<Rightarrow> u32 \<Rightarrow> u32 \<Rightarrow> u32 list option" where
  "pair_seed d load_bias text_lo text_hi r_offset lo_offset =
     (let hi_at = unat (r_offset + load_bias); lo_at = unat (lo_offset + load_bias) in
      if hi_at + 4 \<le> length d \<and> lo_at + 4 \<le> length d then do {
        hi \<leftarrow> rd32 d hi_at;
        lo \<leftarrow> rd32 d lo_at;
        let target = push_bit 16 (hi AND 0xFFFF) + scast (ucast lo :: u16);
        Some (if target \<ge> text_lo \<and> target < text_hi \<and> target AND 3 = 0 then [target] else [])
      }
      else Some [])"

text \<open>A word that holds an address.\<close>

definition word_seed :: "u8 list \<Rightarrow> elf_info \<Rightarrow> u32 \<Rightarrow> u32 \<Rightarrow> u32 \<Rightarrow> u32 \<Rightarrow> u32 list option" where
  "word_seed d e load_bias text_lo text_hi r_offset =
     (let at = unat (r_offset + load_bias) in
      if at + 4 > length d then Some []
      else do {
        target \<leftarrow> rd32 d at;
        if target AND 3 \<noteq> 0 then Some []
        else do {
          ok \<leftarrow> looks_like_code d e load_bias target text_lo text_hi;
          Some (if ok then [target] else [])
        }
      })"

text \<open>
  The relocation at offset \<open>r\<close> of a section of \<open>sz\<close> bytes at \<open>off\<close>. The offset is a 32-bit number, and
  so are the sums compared with the size; the reads add it to the pointer.
\<close>

definition reloc_seed :: "u8 list \<Rightarrow> elf_info \<Rightarrow> u32 \<Rightarrow> u32 \<Rightarrow> u32 \<Rightarrow> nat \<Rightarrow> u32 \<Rightarrow> u32 \<Rightarrow> u32 list option" where
  "reloc_seed d e load_bias text_lo text_hi off sz r = do {
     r_offset \<leftarrow> rd32 d (off + unat r);
     r_info \<leftarrow> rd32 d (off + unat r + 4);
     if r_info AND 0xFF = R_MIPS_HI16 \<and> r + 16 \<le> sz then do {
       lo_info \<leftarrow> rd32 d (off + unat r + 12);
       if lo_info AND 0xFF = R_MIPS_LO16 then do {
         lo_offset \<leftarrow> rd32 d (off + unat r + 8);
         pair_seed d load_bias text_lo text_hi r_offset lo_offset
       }
       else Some []
     }
     else if r_info AND 0xFF \<noteq> R_MIPS_32 then Some []
     else word_seed d e load_bias text_lo text_hi r_offset
   }"

text \<open>The relocations of one section, from offset \<open>r\<close> on.\<close>

fun reloc_loop :: "nat \<Rightarrow> (u32 \<Rightarrow> u32 list option) \<Rightarrow> u32 \<Rightarrow> u32 \<Rightarrow> u32 list \<Rightarrow> u32 list outcome" where
  "reloc_loop 0 seed sz r found = Out_of_fuel"
| "reloc_loop (Suc fuel) seed sz r found =
     (if r + 8 \<le> sz
      then case seed r of None \<Rightarrow> Out_of_bounds | Some ts \<Rightarrow> reloc_loop fuel seed sz (r + 8) (found @ ts)
      else Done found)"

definition read_then :: "'a option \<Rightarrow> ('a \<Rightarrow> 'b outcome) \<Rightarrow> 'b outcome" where
  "read_then m f = (case m of None \<Rightarrow> Out_of_bounds | Some x \<Rightarrow> f x)"

fun seed_loop :: "nat \<Rightarrow> u8 list \<Rightarrow> elf_info \<Rightarrow> u32 \<Rightarrow> nat list \<Rightarrow> u32 list \<Rightarrow> u32 list outcome" where
  "seed_loop fuel d e load_bias [] found = Done found"
| "seed_loop fuel d e load_bias (i # is) found =
     (let sh = unat (e_shoff e) + i * unat (e_shentsize e) in
      if sh + 40 > length d then Done found
      else read_then (rd32 d (sh + 4)) (\<lambda>type.
        if type \<noteq> 9 \<and> type \<noteq> 0x700000A0 then seed_loop fuel d e load_bias is found
        else read_then (rd32 d (sh + 16)) (\<lambda>off.
          read_then (rd32 d (sh + 20)) (\<lambda>sz.
            if unat off + unat sz > length d then seed_loop fuel d e load_bias is found
            else case reloc_loop fuel (reloc_seed d e load_bias (e_text_addr e) (e_text_addr e + e_text_size e)
                         (unat off) sz) sz 0 found of
                Done found \<Rightarrow> seed_loop fuel d e load_bias is found
              | other \<Rightarrow> other))))"

text \<open>The seeds found; the caller's array keeps the first \<^verbatim>\<open>max\<close> and the count is of all.\<close>

definition psp_collect_pointer_seeds :: "nat \<Rightarrow> u8 list \<Rightarrow> elf_info \<Rightarrow> u32 \<Rightarrow> u32 list outcome" where
  "psp_collect_pointer_seeds fuel d e load_bias =
     (if e_shoff e = 0 \<or> e_shnum e = 0 \<or> e_text_size e = 0 then Done []
      else seed_loop fuel d e load_bias [0..<unat (e_shnum e)] [])"

section \<open>Reads stay inside the buffer\<close>

definition safe :: "'a option \<Rightarrow> bool" where
  "safe m \<longleftrightarrow> m \<noteq> None"

named_theorems safe_rules

lemma safe_Some [safe_rules]: "safe (Some x)"
  by (simp add: safe_def)

lemma safe_bind [safe_rules]: "safe m \<Longrightarrow> (\<And>x. m = Some x \<Longrightarrow> safe (f x)) \<Longrightarrow> safe (Option.bind m f)"
  by (cases m) (simp_all add: safe_def)

lemma safe_if [safe_rules]: "(b \<Longrightarrow> safe x) \<Longrightarrow> (\<not> b \<Longrightarrow> safe y) \<Longrightarrow> safe (if b then x else y)"
  by simp

lemma safe_map [safe_rules]: "safe m \<Longrightarrow> safe (map_option f m)"
  by (simp add: safe_def)

lemma safe_let [safe_rules]: "(\<And>y. y = x \<Longrightarrow> safe (f y)) \<Longrightarrow> safe (let y = x in f y)"
  by simp

lemma safe_reads [safe_rules]:
  "off + n \<le> length d \<Longrightarrow> safe (bytes_at d off n)" "off < length d \<Longrightarrow> safe (rd8 d off)"
  "off + 2 \<le> length d \<Longrightarrow> safe (rd16 d off)" "off + 4 \<le> length d \<Longrightarrow> safe (rd32 d off)"
  by (simp_all add: safe_def bytes_at_def rd8_def rd16_def rd32_def)

lemma safe_rd32s [safe_rules]: "off + 4 * n \<le> length d \<Longrightarrow> safe (rd32s d off n)"
  by (induction n arbitrary: off) (auto intro!: safe_rules)

lemma psp_sniff_safe: "safe (psp_sniff d)"
  unfolding psp_sniff_def by (intro safe_rules) simp_all

lemma pbp_parse_safe: "safe (pbp_parse d)"
  unfolding pbp_parse_def by (intro safe_rules) simp_all

lemma psp_header_parse_safe: "safe (psp_header_parse d)"
  unfolding psp_header_parse_def by (intro safe_rules) simp_all

lemma psp_modinfo_parse_safe: "safe (psp_modinfo_parse d off)"
  unfolding psp_modinfo_parse_def by (intro safe_rules) simp_all

lemma rd_segment_safe [safe_rules]: "p + 32 \<le> length d \<Longrightarrow> safe (rd_segment d p)"
  unfolding rd_segment_def by (intro safe_rules) simp_all

lemma segment_loop_safe [safe_rules]: "safe (segment_loop d phoff phentsize is out)"
  by (induction d phoff phentsize "is" out rule: segment_loop.induct)
     (simp add: safe_rules, subst segment_loop.simps, intro safe_rules, simp_all)

lemma name_is_safe [safe_rules]: "at + avail \<le> length d \<Longrightarrow> safe (name_is d at avail lit)"
  unfolding name_is_def by (intro safe_rules) simp_all

lemma section_loop_safe [safe_rules]:
  "unat stroff + unat strsz \<le> length d \<Longrightarrow> safe (section_loop d shoff shentsize stroff strsz is out)"
proof (induction "is" arbitrary: out)
  case (Cons i "is")
  have a: "unat stroff + unat n + unat (strsz - n) \<le> length d" if "\<not> n \<ge> strsz" for n
    using that Cons.prems by (simp add: unat_sub word_le_nat_alt not_le word_less_nat_alt)
  show ?case
    unfolding section_loop.simps
    by (intro safe_rules Cons.IH Cons.prems) (simp_all add: a)
qed (simp add: safe_rules)

lemma elf_sections_safe [safe_rules]: "52 \<le> length d \<Longrightarrow> safe (elf_sections d out)"
  unfolding elf_sections_def by (intro safe_rules) simp_all

lemma elf_parse_safe: "safe (elf_parse d)"
  unfolding elf_parse_def by (intro safe_rules) simp_all

lemma lib_name_safe [safe_rules]: "safe (lib_name d at n)"
  by (induction d at n rule: lib_name.induct) (auto intro!: safe_rules simp del: lib_name.simps simp: lib_name.simps)

lemma lib_imports_safe [safe_rules]: "safe (lib_imports d nids stub_tbl lib is)"
  by (induction "is") (auto intro!: safe_rules)

lemma import_entry_safe [safe_rules]: "off + 0x14 \<le> length d \<Longrightarrow> safe (import_entry d b off)"
  unfolding import_entry_def by (intro safe_rules) simp_all

lemma export_entry_safe [safe_rules]: "off + 0x10 \<le> length d \<Longrightarrow> safe (export_entry d b off)"
  unfolding export_entry_def by (intro safe_rules) simp_all

lemma probe_loop_safe [safe_rules]: "at + 4 * n \<le> length d \<Longrightarrow> safe (probe_loop d at t n)"
  by (induction n arbitrary: at t) (auto intro!: safe_rules)

lemma looks_like_code_safe [safe_rules]: "safe (looks_like_code d e b t lo hi)"
proof (cases "e_seg e")
  case (Cons s ss)
  then show ?thesis
    unfolding looks_like_code_def Cons list.case by (intro safe_rules) simp_all
qed (auto simp: looks_like_code_def intro: safe_rules)

lemma pair_seed_safe [safe_rules]: "safe (pair_seed d b lo hi ro loff)"
  unfolding pair_seed_def by (intro safe_rules) simp_all

lemma word_seed_safe [safe_rules]: "safe (word_seed d e b lo hi ro)"
  unfolding word_seed_def by (intro safe_rules) simp_all

lemma reloc_seed_safe [safe_rules]:
  assumes "off + unat sz \<le> length d" "r + 8 \<le> sz" "unat r + 16 < 2 ^ 32"
  shows "safe (reloc_seed d e b lo hi off sz r)"
proof -
  have "unat (r + 8) = unat r + 8" "unat (r + 16) = unat r + 16"
    using assms(3) by (simp_all add: unat_word_ariths(1))
  then have a: "off + unat r + 8 \<le> length d" "r + 16 \<le> sz \<Longrightarrow> off + unat r + 16 \<le> length d"
    using assms(1,2) by (simp_all add: word_le_nat_alt)
  show ?thesis unfolding reloc_seed_def by (intro safe_rules) (use a in auto)
qed

text \<open>
  A relocation section that lies in a buffer of less than \<open>2 ^ 32 - 8\<close> bytes is walked to its end, and
  inside the buffer.
\<close>

lemma reloc_loop_ok:
  assumes sz: "off + unat sz \<le> length d" "length d < 0xFFFFFFF8"
  shows "unat r \<le> unat sz \<Longrightarrow> 8 dvd unat r \<Longrightarrow>
    reloc_loop fuel (reloc_seed d e b lo hi off sz) sz r found \<noteq> Out_of_bounds \<and>
    (unat sz + 8 < unat r + 8 * fuel \<longrightarrow>
       reloc_loop fuel (reloc_seed d e b lo hi off sz) sz r found \<noteq> Out_of_fuel)"
proof (induction fuel arbitrary: r found)
  case (Suc fuel)
  have u8: "unat (r + 8) = unat r + 8"
    using Suc.prems sz by (auto simp: unat_word_ariths(1) elim!: dvdE)
  show ?case
  proof (cases "r + 8 \<le> sz")
    case True
    then have "unat r + 8 \<le> unat sz" using u8 by (simp add: word_le_nat_alt)
    then have "safe (reloc_seed d e b lo hi off sz r)" using True sz by (intro reloc_seed_safe) simp_all
    then obtain ts where t: "reloc_seed d e b lo hi off sz r = Some ts" by (auto simp: safe_def)
    have "unat (r + 8) \<le> unat sz" "8 dvd unat (r + 8)" using u8 \<open>unat r + 8 \<le> unat sz\<close> Suc.prems(2) by simp_all
    then show ?thesis using True t Suc.IH [of "r + 8" "found @ ts"] u8 by simp
  qed simp
qed simp

lemma seed_loop_ok:
  assumes "length d < 0xFFFFFFF8"
  shows "seed_loop fuel d e b is found \<noteq> Out_of_bounds \<and>
    (length d + 8 < 8 * fuel \<longrightarrow> seed_loop fuel d e b is found \<noteq> Out_of_fuel)"
proof (induction "is" arbitrary: found)
  case (Cons i "is")
  let ?sh = "unat (e_shoff e) + i * unat (e_shentsize e)"
  show ?case
  proof (cases "?sh + 40 > length d")
    case False
    then obtain type off sz where r: "rd32 d (?sh + 4) = Some type" "rd32 d (?sh + 16) = Some off" "rd32 d (?sh + 20) = Some sz"
      using safe_reads(4) [of "?sh + 4" d] safe_reads(4) [of "?sh + 16" d] safe_reads(4) [of "?sh + 20" d]
      by (auto simp: safe_def)
    show ?thesis
    proof (cases "unat off + unat sz > length d")
      case True
      then show ?thesis using False r Cons.IH by (simp add: Let_def read_then_def)
    next
      case inside: False
      let ?l = "reloc_loop fuel (reloc_seed d e b (e_text_addr e) (e_text_addr e + e_text_size e) (unat off) sz) sz 0 found"
      have "?l \<noteq> Out_of_bounds" "length d + 8 < 8 * fuel \<Longrightarrow> ?l \<noteq> Out_of_fuel"
        using reloc_loop_ok [of "unat off" sz d 0 fuel e b] inside assms by auto
      then show ?thesis using False r inside Cons.IH by (cases ?l) (auto simp: Let_def read_then_def)
    qed
  qed (simp add: Let_def)
qed simp

lemma psp_collect_pointer_seeds_ok:
  assumes "length d < 0xFFFFFFF8"
  shows "psp_collect_pointer_seeds fuel d e b \<noteq> Out_of_bounds"
    "length d + 8 < 8 * fuel \<Longrightarrow> psp_collect_pointer_seeds fuel d e b \<noteq> Out_of_fuel"
  using seed_loop_ok [OF assms] by (auto simp: psp_collect_pointer_seeds_def)

text \<open>Without the bound: the offset of a section of \<open>2 ^ 32 - 8\<close> bytes or more wraps and never passes its end.\<close>

lemma reloc_loop_wraps:
  assumes "0xFFFFFFF8 \<le> sz" "\<And>r. seed r = Some []"
  shows "8 dvd unat r \<Longrightarrow> reloc_loop fuel seed sz r found = Out_of_fuel"
proof (induction fuel arbitrary: r)
  case (Suc fuel)
  obtain k where k: "unat r = 8 * k" using Suc.prems by blast
  have "k < 2 ^ 29" using k unat_u32_less [of r] by simp
  then have "unat (r + 8) = (if k = 2 ^ 29 - 1 then 0 else 8 * Suc k)"
    using k by (auto simp: unat_word_ariths(1))
  then have "unat (r + 8) \<le> 0xFFFFFFF8" "8 dvd unat (r + 8)" using \<open>k < 2 ^ 29\<close> by auto
  moreover have "0xFFFFFFF8 \<le> unat sz" using assms(1) by (simp add: word_le_nat_alt)
  ultimately have "r + 8 \<le> sz" by (simp add: word_le_nat_alt)
  then show ?case using assms(2) Suc.IH \<open>8 dvd unat (r + 8)\<close> by simp
qed simp

lemma import_loop_safe: "import_loop fuel d en b e found \<noteq> Out_of_bounds"
proof (induction fuel arbitrary: e found)
  case (Suc fuel)
  have "safe (import_entry d b (unat (e + b)))" if "\<not> unat (e + b) + 0x14 > length d"
    using that by (intro safe_rules) simp
  then show ?case using Suc.IH by (auto simp: Let_def safe_def split: option.split)
qed simp

lemma export_loop_safe: "export_loop fuel d en b e found \<noteq> Out_of_bounds"
proof (induction fuel arbitrary: e found)
  case (Suc fuel)
  have "safe (export_entry d b (unat (e + b)))" if "\<not> unat (e + b) + 0x10 > length d"
    using that by (intro safe_rules) simp
  then show ?case using Suc.IH by (auto simp: Let_def safe_def split: option.split)
qed simp

text \<open>
  C11. These parsers read nothing outside their buffer, whatever the file holds and however long the table
  walks run: the format sniffer, the PBP, \<^verbatim>\<open>~PSP\<close>, ELF and module-information parsers, and the walks over
  the import table, the export table and the relocations of a file of less than \<open>2 ^ 32 - 8\<close> bytes; every
  header field, table entry, section name, library name and probed instruction is inside. The walk over
  the relocations also ends.
\<close>

theorem container_reads_in_bounds:
  assumes "length d < 0xFFFFFFF8"
  shows "psp_sniff d \<noteq> None \<and> pbp_parse d \<noteq> None \<and> psp_header_parse d \<noteq> None \<and> elf_parse d \<noteq> None \<and>
   psp_modinfo_parse d off \<noteq> None \<and>
   psp_collect_imports fuel d mi b \<noteq> Out_of_bounds \<and> psp_collect_exports fuel d mi b \<noteq> Out_of_bounds \<and>
   psp_collect_pointer_seeds fuel d e b \<noteq> Out_of_bounds \<and>
   (\<exists>seeds. psp_collect_pointer_seeds (length d div 8 + 2) d e b = Done seeds)"
proof -
  have "length d + 8 < 8 * (length d div 8 + 2)" by simp
  from psp_collect_pointer_seeds_ok(2) [OF assms this]
  have "\<exists>seeds. psp_collect_pointer_seeds (length d div 8 + 2) d e b = Done seeds"
    using psp_collect_pointer_seeds_ok(1) [OF assms, of "length d div 8 + 2" e b]
    by (cases "psp_collect_pointer_seeds (length d div 8 + 2) d e b") auto
  then show ?thesis
    using psp_sniff_safe pbp_parse_safe psp_header_parse_safe elf_parse_safe psp_modinfo_parse_safe
      psp_collect_pointer_seeds_ok(1) [OF assms] import_loop_safe export_loop_safe
    unfolding safe_def psp_collect_imports_def psp_collect_exports_def by auto
qed

section \<open>What a parsed ELF may claim\<close>

text \<open>At most eight segments, and a \<open>.text\<close> taken from a section header lies inside the file.\<close>

definition elf_ok :: "nat \<Rightarrow> elf_info \<Rightarrow> bool" where
  "elf_ok len e \<longleftrightarrow> length (e_seg e) \<le> 8 \<and>
     (e_text_from_section e \<longrightarrow> unat (e_text_offset e) + unat (e_text_size e) \<le> len)"

lemma segment_loop_ok:
  "segment_loop d phoff phentsize is out = Some e \<Longrightarrow> length (e_seg out) \<le> 8 \<Longrightarrow> \<not> e_text_from_section out \<Longrightarrow>
     length (e_seg e) \<le> 8 \<and> \<not> e_text_from_section e"
proof (induction "is" arbitrary: out)
  case (Cons i "is")
  have "length (e_seg (add_segment s out)) = Suc (length (e_seg out))"
    "e_text_from_section (add_segment s out) = e_text_from_section out" for s
    by (simp_all add: add_segment_def Let_def)
  then show ?case using Cons by (auto simp: Let_def split: if_splits Option.bind_splits)
qed simp

lemma section_loop_ok:
  "section_loop d shoff shentsize stroff strsz is out = Some e \<Longrightarrow> elf_ok (length d) out \<Longrightarrow> elf_ok (length d) e"
proof (induction "is" arbitrary: out)
  case (Cons i "is")
  have n: "elf_ok (length d) (if is_text then note_text (length d) addr off sz out
      else if is_stub then note_stubs addr off sz out
      else if is_info then out\<lparr>e_modinfo_addr := addr, e_modinfo_offset := off, e_modinfo_size := sz\<rparr> else out)"
    for is_text is_stub is_info addr off sz
    using Cons.prems(2) by (simp add: elf_ok_def note_text_def note_stubs_def Let_def)
  show ?case
    using Cons.prems(1) Cons.IH [OF _ n] Cons.IH [OF _ Cons.prems(2)] Cons.prems(2)
    unfolding section_loop.simps Let_def
    by (auto split: if_split_asm Option.bind_split_asm)
qed simp

lemma elf_sections_ok:
  assumes "elf_sections d out = Some e" and "elf_ok (length d) out"
  shows "elf_ok (length d) e"
proof -
  have "elf_ok (length d) (out\<lparr>e_shoff := a, e_shentsize := b, e_shnum := c\<rparr>)"
    "elf_ok (length d) (out\<lparr>e_shoff := a, e_shentsize := b, e_shnum := c, e_nsections := n\<rparr>)" for a b c n
    using assms(2) by (simp_all add: elf_ok_def)
  then show ?thesis
    using assms section_loop_ok unfolding elf_sections_def Let_def
    by (auto split: if_split_asm Option.bind_split_asm)
qed

text \<open>
  An accepted ELF has at most eight segments, and when its code extent comes from a section
  header that extent lies inside the file.
\<close>

theorem elf_parse_extents:
  assumes "elf_parse d = Some (Accepted e)"
  shows "length (e_seg e) \<le> 8 \<and>
    (e_text_from_section e \<longrightarrow> unat (e_text_offset e) + unat (e_text_size e) \<le> length d)"
proof -
  have "\<exists>ty entry phoff phentsize phnum out.
      segment_loop d phoff phentsize phnum (elf_blank ty entry) = Some out \<and> elf_sections d out = Some e"
    using assms unfolding elf_parse_def by (auto split: if_split_asm Option.bind_split_asm) blast
  then obtain ty entry phoff phentsize phnum out where
    s: "segment_loop d phoff phentsize phnum (elf_blank ty entry) = Some out" and e: "elf_sections d out = Some e"
    by blast
  have "elf_ok (length d) out" using segment_loop_ok [OF s] by (simp add: elf_blank_def elf_ok_def)
  from elf_sections_ok [OF e this] show ?thesis by (simp add: elf_ok_def)
qed

text \<open>The smallest acceptable file: a bare header with no program and no section headers.\<close>

definition bare_elf :: "u8 list" where
  "bare_elf = [0x7F, 0x45, 0x4C, 0x46, 1, 1, 0, 0, 0, 0, 0, 0, 0, 0, 0, 0, 0, 0, 0, 0, 0, 0, 0, 0, 0, 0, 0, 0, 0, 0,
     0, 0, 0, 0, 0, 0, 0, 0, 0, 0, 0, 0, 32, 0, 0, 0, 0, 0, 0, 0, 0, 0]"

lemma bare_elf_parse: "elf_parse bare_elf = Some (Accepted (elf_blank 0 0))"
proof -
  have r: "rd32 bare_elf 24 = Some 0" "rd32 bare_elf 28 = Some 0" "rd32 bare_elf 32 = Some 0" "rd16 bare_elf 16 = Some 0"
    "rd16 bare_elf 42 = Some 32" "rd16 bare_elf 44 = Some 0" "rd16 bare_elf 46 = Some 0" "rd16 bare_elf 48 = Some 0"
    "rd16 bare_elf 50 = Some 0" "rd8 bare_elf 4 = Some 1" "rd8 bare_elf 5 = Some 1" "bytes_at bare_elf 0 4 = Some elf_magic"
    "length bare_elf = 52"
    by (simp_all add: bare_elf_def rd32_def rd16_def rd8_def bytes_at_def elf_magic_def ascii_def)
  show ?thesis by (simp add: elf_parse_def elf_sections_def r)
qed

theorem container_reads_in_bounds_witness:
  "psp_collect_pointer_seeds 3 bare_elf ((elf_blank 0 0)\<lparr>e_shoff := 4, e_shnum := 1, e_text_size := 8\<rparr>) 0 \<noteq> Out_of_bounds"
  using container_reads_in_bounds [of bare_elf 0 3 undefined 0 "(elf_blank 0 0)\<lparr>e_shoff := 4, e_shnum := 1, e_text_size := 8\<rparr>"]
  by (simp add: bare_elf_def)

theorem elf_parse_extents_witness:
  "elf_parse bare_elf = Some (Accepted (elf_blank 0 0)) \<and> length (e_seg (elf_blank 0 0)) \<le> 8"
  using bare_elf_parse elf_parse_extents [OF bare_elf_parse] by simp

section \<open>The table walks\<close>

lemma stride_bound: "import_entry d b off = Some (its, stride) \<Longrightarrow> unat stride \<le> 0x3FC"
proof -
  have "unat (ucast (x :: u8) * 4 :: u32) \<le> 0x3FC" for x
  proof -
    have x: "unat x < 256" using unsigned_less [of x, where 'a = nat] by simp
    then have "unat (ucast x :: u32) = unat x" by (simp add: unsigned_ucast_eq take_bit_nat_eq_self)
    then show ?thesis using x by (simp add: unat_word_ariths(2))
  qed
  then show "import_entry d b off = Some (its, stride) \<Longrightarrow> unat stride \<le> 0x3FC"
    unfolding import_entry_def Let_def by (auto split: Option.bind_split_asm if_split_asm)
qed

lemma import_loop_ends:
  assumes "length d < 0xFFFFFC00"
  shows "length d < unat (e + b) + 0x14 * fuel \<Longrightarrow> import_loop (Suc fuel) d en b e found \<noteq> Out_of_fuel"
proof (induction fuel arbitrary: e found)
  case 0
  then show ?case by (simp add: Let_def)
next
  case (Suc fuel)
  let ?off = "unat (e + b)"
  show ?case
  proof (cases "e + 0x14 \<le> en \<and> ?off + 0x14 \<le> length d")
    case False
    then show ?thesis by (auto simp: Let_def)
  next
    case True
    obtain its stride where i: "import_entry d b ?off = Some (its, stride)"
      using import_entry_safe [of ?off d b] True by (auto simp: safe_def)
    have "length d < unat (e + stride + b) + 0x14 * fuel" if "\<not> stride < 0x14"
    proof -
      have a: "e + stride + b = (e + b) + stride" by simp
      have "unat ((e + b) + stride) = ?off + unat stride"
        using stride_bound [OF i] True assms by (simp add: unat_word_ariths(1))
      moreover have "0x14 \<le> unat stride" using that by (simp add: word_less_nat_alt)
      ultimately show ?thesis using Suc.prems unfolding a by simp
    qed
    then show ?thesis using True i Suc.IH by (simp add: Let_def)
  qed
qed

text \<open>
  The import walk ends on every file shorter than 4 GiB less 1 KiB, in a number of steps bounded
  by the file's length, whatever strides and counts the table claims.
\<close>

theorem psp_collect_imports_terminates:
  assumes "length d < 0xFFFFFC00"
  shows "\<exists>its. psp_collect_imports (length d div 20 + 2) d mi load_bias = Done its"
proof -
  let ?f = "length d div 20 + 1"
  have "length d < 20 * ?f" by simp
  then have "length d < unat (m_stub_top mi + load_bias) + 20 * ?f" by linarith
  then have "import_loop (Suc ?f) d (m_stub_end mi) load_bias (m_stub_top mi) [] \<noteq> Out_of_fuel"
    using import_loop_ends [OF assms] by blast
  then show ?thesis
    using import_loop_safe [of "Suc ?f" d "m_stub_end mi" load_bias "m_stub_top mi" "[]"]
    unfolding psp_collect_imports_def by (cases "import_loop (Suc ?f) d (m_stub_end mi) load_bias (m_stub_top mi) []") auto
qed

theorem psp_collect_imports_terminates_witness:
  "\<exists>its. psp_collect_imports (length (replicate 40 (0 :: u8)) div 20 + 2) (replicate 40 0)
     \<lparr>m_attribute = 0, m_version = (0, 0), m_name = [], m_gp_value = 0, m_ent_top = 0, m_ent_end = 0,
      m_stub_top = 0, m_stub_end = 40\<rparr> 0 = Done its"
  by (rule psp_collect_imports_terminates) simp

text \<open>
  The export walk has no such bound: an entry whose address table would run past the end of the file
  is skipped without moving on to the next entry, and the walk stays on it for ever.
\<close>

definition stuck_exports :: "u8 list" where
  "stuck_exports = [0, 0, 0, 0, 0, 0, 0, 0, 4, 0, 100, 0, 0, 0, 0, 0]"

theorem psp_collect_exports_hangs:
  "psp_collect_exports fuel stuck_exports
     \<lparr>m_attribute = 0, m_version = (0, 0), m_name = [], m_gp_value = 0, m_ent_top = 0, m_ent_end = 16,
      m_stub_top = 0, m_stub_end = 0\<rparr> 0 = Out_of_fuel"
proof -
  have r: "rd8 stuck_exports 8 = Some 4" "rd8 stuck_exports 9 = Some 0" "rd16 stuck_exports 10 = Some 100"
    "rd32 stuck_exports 12 = Some 0" "length stuck_exports = 16"
    by (simp_all add: stuck_exports_def rd32_def rd16_def rd8_def bytes_at_def)
  have e: "export_entry stuck_exports 0 0 = Some (None, 16)"
    by (simp add: export_entry_def r Let_def)
  have "export_loop fuel stuck_exports 16 0 0 [] = Out_of_fuel"
    by (induction fuel) (simp_all add: e r Let_def)
  then show ?thesis by (simp add: psp_collect_exports_def)
qed

end
