(* ===== verification/SpTrace.thy ===== *)
theory SpTrace
  imports Machine
begin

unbundle bit_operations_syntax

text \<open>
  The run-time diagnostics at the end of \<^verbatim>\<open>src/dispatch.c\<close>: the last loop back-edge, the label marks,
  and the tables of stack-pointer imbalances. The messages on \<^verbatim>\<open>stderr\<close> are left out; what is kept is
  the state a report reads. The array \<^verbatim>\<open>rows\<close> of a table is the list of its first \<^verbatim>\<open>n\<close> rows.

  The lemmas show that the worst imbalance is never lost, that the table is an exact histogram until
  it is full, that what a full table drops is never larger than what it keeps, and that the report
  lists the rows it keeps, largest first.
\<close>

section \<open>Back-edges\<close>

record loop_trace =
  g_loop_addr :: u32
  g_loop_hits :: u64

definition psp_trace_loop :: "u32 \<Rightarrow> loop_trace \<Rightarrow> loop_trace" where
  "psp_trace_loop addr l = l\<lparr>g_loop_addr := addr, g_loop_hits := g_loop_hits l + 1\<rparr>"

definition psp_trace_loop_addr :: "loop_trace \<Rightarrow> u32" where
  "psp_trace_loop_addr l = g_loop_addr l"

definition psp_trace_loop_hits :: "loop_trace \<Rightarrow> u64" where
  "psp_trace_loop_hits l = g_loop_hits l"

section \<open>Label marks\<close>

text \<open>
  \<open>g_marked = None\<close> is a null pointer. \<^verbatim>\<open>psp_trace_mark\<close> also calls the watched label's handler: the
  address handed to it is the second component.
\<close>

record marks =
  g_mark_addr :: u32
  g_mark_fn :: bool
  g_marked :: "bool list option"
  g_marked_lo :: u32
  g_marked_n :: u32

definition mark_slot :: "marks \<Rightarrow> u32 \<Rightarrow> nat option" where
  "mark_slot m addr =
     (if g_marked m \<noteq> None \<and> addr \<ge> g_marked_lo m \<and> addr - g_marked_lo m < g_marked_n m * 4
      then Some (unat (drop_bit 2 (addr - g_marked_lo m))) else None)"

definition psp_trace_mark :: "u32 \<Rightarrow> marks \<Rightarrow> marks \<times> u32 option" where
  "psp_trace_mark addr m =
     (case mark_slot m addr of
        Some k \<Rightarrow> m\<lparr>g_marked := map_option (\<lambda>l. l[k := True]) (g_marked m)\<rparr>
      | None \<Rightarrow> m,
      if addr = g_mark_addr m \<and> g_mark_fn m then Some addr else None)"

definition psp_trace_watch_label :: "u32 \<Rightarrow> bool \<Rightarrow> marks \<Rightarrow> marks" where
  "psp_trace_watch_label addr fn m = m\<lparr>g_mark_addr := addr, g_mark_fn := fn\<rparr>"

definition psp_trace_marks_init :: "u32 \<Rightarrow> u32 \<Rightarrow> marks \<Rightarrow> marks" where
  "psp_trace_marks_init base_addr ws m =
     m\<lparr>g_marked := Some (replicate (if ws \<noteq> 0 then unat ws else 1) False), g_marked_lo := base_addr, g_marked_n := ws\<rparr>"

text \<open>\<open>None\<close> is the answer -1: the address is not observable.\<close>

definition psp_trace_was_marked :: "u32 \<Rightarrow> marks \<Rightarrow> bool option" where
  "psp_trace_was_marked addr m =
     (case mark_slot m addr of Some k \<Rightarrow> Some (the (g_marked m) ! k) | None \<Rightarrow> None)"

section \<open>Stack balance\<close>

abbreviation (input) PSP_SP_SITES :: nat where "PSP_SP_SITES \<equiv> 96"

record sp_row =
  site :: u32
  delta :: u32
  count :: u64
  sp_in :: u32
  sp_out :: u32
  sp_last :: u32

record sp_table =
  rows :: "sp_row list"
  worst :: sp_row

definition sp_mag :: "u32 \<Rightarrow> int" where
  "sp_mag d = (if sint d < 0 then - sint d else sint d)"

text \<open>The first row of least magnitude, and the first of greatest among the indices left.\<close>

definition victim :: "sp_row list \<Rightarrow> nat" where
  "victim rs = fold (\<lambda>i v. if sp_mag (delta (rs ! i)) < sp_mag (delta (rs ! v)) then i else v) [1..<length rs] 0"

definition sp_record :: "u32 \<Rightarrow> u32 \<Rightarrow> u32 \<Rightarrow> u32 \<Rightarrow> u32 \<Rightarrow> sp_table \<Rightarrow> sp_table" where
  "sp_record st d i ot lst t =
     (let r = \<lparr>site = st, delta = d, count = 1, sp_in = i, sp_out = ot, sp_last = lst\<rparr>;
          t = (if count (worst t) = 0 \<or> sp_mag d > sp_mag (delta (worst t)) then t\<lparr>worst := r\<rparr> else t)
      in case find_index (\<lambda>x. site x = st \<and> delta x = d) (rows t) of
           Some k \<Rightarrow> t\<lparr>rows := (rows t)[k := (rows t ! k)\<lparr>count := count (rows t ! k) + 1\<rparr>]\<rparr>
         | None \<Rightarrow>
             (if length (rows t) < PSP_SP_SITES then t\<lparr>rows := rows t @ [r]\<rparr>
              else let v = victim (rows t) in
                if sp_mag d > sp_mag (delta (rows t ! v)) then t\<lparr>rows := (rows t)[v := r]\<rparr> else t))"

definition pick :: "sp_row list \<Rightarrow> nat list \<Rightarrow> nat option" where
  "pick rs used =
     fold (\<lambda>i b. if i \<in> set used then b
            else case b of None \<Rightarrow> Some i
              | Some j \<Rightarrow> if sp_mag (delta (rs ! i)) > sp_mag (delta (rs ! j)) then Some i else Some j)
       [0..<length rs] None"

text \<open>The indices the report takes, in its order.\<close>

primrec dump_order :: "sp_row list \<Rightarrow> nat \<Rightarrow> nat list" where
  "dump_order rs 0 = []"
| "dump_order rs (Suc k) =
     (let used = dump_order rs k in case pick rs used of None \<Rightarrow> used | Some b \<Rightarrow> used @ [b])"

definition sp_dump :: "sp_table \<Rightarrow> nat \<Rightarrow> sp_row list" where
  "sp_dump t cap =
     (let n = (if length (rows t) < cap then length (rows t) else cap)
      in map (\<lambda>i. rows t ! i) (dump_order (rows t) n))"

record sp_state =
  g_sp_tbl :: sp_table
  g_spc_tbl :: sp_table
  g_sp_bad :: u64
  g_sp_first :: u32
  g_sp_delta :: u32
  g_spc_bad :: u64

definition psp_sp_hist :: "nat \<Rightarrow> sp_state \<Rightarrow> sp_row list" where
  "psp_sp_hist cap s = sp_dump (g_sp_tbl s) cap"

definition psp_sp_call_hist :: "nat \<Rightarrow> sp_state \<Rightarrow> sp_row list" where
  "psp_sp_call_hist cap s = sp_dump (g_spc_tbl s) cap"

definition note_bad :: "u32 \<Rightarrow> u32 \<Rightarrow> sp_state \<Rightarrow> sp_state" where
  "note_bad fn d s =
     (let s = (if g_sp_bad s = 0 then s\<lparr>g_sp_first := fn, g_sp_delta := d\<rparr> else s)
      in s\<lparr>g_sp_bad := g_sp_bad s + 1\<rparr>)"

definition psp_trace_sp :: "psp_trace \<Rightarrow> u32 \<Rightarrow> u32 \<Rightarrow> u32 \<Rightarrow> sp_state \<Rightarrow> sp_state" where
  "psp_trace_sp tr fn i ot s =
     (if i = ot then s
      else note_bad fn (ot - i)
             (s\<lparr>g_sp_tbl := sp_record fn (ot - i) i ot (psp_trace_last tr) (g_sp_tbl s)\<rparr>))"

definition psp_trace_sp_leave :: "psp_trace \<Rightarrow> u32 \<Rightarrow> u32 \<Rightarrow> u32 \<Rightarrow> sp_state \<Rightarrow> sp_state" where
  "psp_trace_sp_leave tr fn i ot s =
     (if i = ot then s
      else let d = ot - i in
        if sint d < 0 then s
        else note_bad fn d (s\<lparr>g_sp_tbl := sp_record fn d i ot (psp_trace_last tr) (g_sp_tbl s)\<rparr>))"

definition psp_trace_sp_call :: "psp_trace \<Rightarrow> u32 \<Rightarrow> u32 \<Rightarrow> u32 \<Rightarrow> sp_state \<Rightarrow> sp_state" where
  "psp_trace_sp_call tr callee i ot s =
     (if i = ot then s
      else s\<lparr>g_spc_tbl := sp_record callee (ot - i) i ot (psp_trace_last tr) (g_spc_tbl s),
             g_spc_bad := g_spc_bad s + 1\<rparr>)"

definition psp_sp_violations :: "sp_state \<Rightarrow> u64" where "psp_sp_violations s = g_sp_bad s"
definition psp_sp_first_bad :: "sp_state \<Rightarrow> u32" where "psp_sp_first_bad s = g_sp_first s"
definition psp_sp_first_delta :: "sp_state \<Rightarrow> u32" where "psp_sp_first_delta s = g_sp_delta s"
definition psp_sp_call_violations :: "sp_state \<Rightarrow> u64" where "psp_sp_call_violations s = g_spc_bad s"

section \<open>The table\<close>

abbreviation mag :: "sp_row \<Rightarrow> int" where "mag r \<equiv> sp_mag (delta r)"

definition sp_empty :: sp_table where
  "sp_empty = \<lparr>rows = [], worst = \<lparr>site = 0, delta = 0, count = 0, sp_in = 0, sp_out = 0, sp_last = 0\<rparr>\<rparr>"

text \<open>A run of recordings: site, delta and the three values kept with them.\<close>

type_synonym sp_event = "u32 \<times> u32 \<times> u32 \<times> u32 \<times> u32"

definition sp_run :: "sp_event list \<Rightarrow> sp_table \<Rightarrow> sp_table" where
  "sp_run evs t = foldl (\<lambda>t (s, d, i, ot, l). sp_record s d i ot l t) t evs"

definition ev_mags :: "sp_event list \<Rightarrow> int set" where
  "ev_mags evs = (\<lambda>(s, d, _). sp_mag d) ` set evs"

text \<open>
  The rows kept are magnitudes that were recorded, every recorded magnitude is matched by a row at
  least as large, and the worst row is the largest of all.
\<close>

definition sp_inv :: "sp_event list \<Rightarrow> sp_table \<Rightarrow> bool" where
  "sp_inv evs t \<longleftrightarrow>
     length (rows t) \<le> PSP_SP_SITES \<and> mag ` set (rows t) \<subseteq> ev_mags evs \<and>
     (\<forall>x\<in>ev_mags evs. \<exists>r\<in>set (rows t). x \<le> mag r) \<and>
     (count (worst t) = 0 \<longleftrightarrow> evs = []) \<and>
     (evs \<noteq> [] \<longrightarrow> mag (worst t) \<in> ev_mags evs \<and> (\<forall>x\<in>ev_mags evs. x \<le> mag (worst t)))"

lemma victim_less: "rs \<noteq> [] \<Longrightarrow> victim rs < length rs"
proof -
  have "v < n \<Longrightarrow> (\<forall>i\<in>set xs. i < n) \<Longrightarrow> fold (\<lambda>i v. if f i < f v then i else v) xs v < n"
    for v n :: nat and xs and f :: "nat \<Rightarrow> int"
    by (induction xs arbitrary: v) auto
  then show "rs \<noteq> [] \<Longrightarrow> victim rs < length rs" unfolding victim_def by simp
qed

lemma ev_mags_snoc: "ev_mags (evs @ [(s, d, i, ot, l)]) = insert (sp_mag d) (ev_mags evs)"
  by (auto simp: ev_mags_def)

lemma sp_inv_worst:
  assumes "sp_inv evs t"
  shows "let w = (if count (worst t) = 0 \<or> sp_mag d > mag (worst t)
      then \<lparr>site = s, delta = d, count = 1, sp_in = i, sp_out = ot, sp_last = l\<rparr> else worst t)
    in count w \<noteq> 0 \<and> mag w \<in> insert (sp_mag d) (ev_mags evs) \<and> (\<forall>x\<in>insert (sp_mag d) (ev_mags evs). x \<le> mag w)"
  using assms by (cases "evs = []") (auto simp: sp_inv_def ev_mags_def Let_def)

lemma sp_inv_record:
  assumes inv: "sp_inv evs t"
  shows "sp_inv (evs @ [(s, d, i, ot, l)]) (sp_record s d i ot l t)"
proof -
  let ?r = "\<lparr>site = s, delta = d, count = 1, sp_in = i, sp_out = ot, sp_last = l\<rparr>"
  let ?w = "if count (worst t) = 0 \<or> sp_mag d > mag (worst t) then ?r else worst t"
  let ?t = "if count (worst t) = 0 \<or> sp_mag d > mag (worst t) then t\<lparr>worst := ?r\<rparr> else t"
  let ?E = "insert (sp_mag d) (ev_mags evs)"
  let ?t' = "sp_record s d i ot l t"
  have w: "count ?w \<noteq> 0" "mag ?w \<in> ?E" "\<forall>x\<in>?E. x \<le> mag ?w"
    using sp_inv_worst [OF inv, of d s i ot l] by (simp_all add: Let_def)
  have tr: "rows ?t = rows t" "worst ?t = ?w" by simp_all
  have len: "length (rows t) \<le> 96" and sub: "mag ` set (rows t) \<subseteq> ev_mags evs"
    and dom: "\<forall>x\<in>ev_mags evs. \<exists>r\<in>set (rows t). x \<le> mag r"
    using inv by (simp_all add: sp_inv_def)
  have "worst ?t' = ?w \<and> length (rows ?t') \<le> 96 \<and> mag ` set (rows ?t') \<subseteq> ?E \<and>
      (\<forall>x\<in>?E. \<exists>r\<in>set (rows ?t'). x \<le> mag r)"
  proof (cases "find_index (\<lambda>x. site x = s \<and> delta x = d) (rows t)")
    case (Some k)
    note D = find_index_SomeD [OF Some]
    let ?rs = "(rows t)[k := (rows t ! k)\<lparr>count := count (rows t ! k) + 1\<rparr>]"
    have e: "?t' = ?t\<lparr>rows := ?rs\<rparr>" using Some by (simp add: sp_record_def Let_def)
    have "map mag ?rs = map mag (rows t)"
      using D by (intro nth_equalityI) (auto simp: nth_list_update)
    then have m: "mag ` set ?rs = mag ` set (rows t)" by (metis set_map)
    have d: "sp_mag d \<in> mag ` set (rows t)" using D by (metis image_eqI nth_mem)
    have "\<forall>x\<in>?E. \<exists>y\<in>mag ` set ?rs. x \<le> y" unfolding m using dom d by auto
    then have dm: "\<forall>x\<in>?E. \<exists>r\<in>set ?rs. x \<le> mag r" by blast
    have "worst (?t\<lparr>rows := ?rs\<rparr>) = ?w" "rows (?t\<lparr>rows := ?rs\<rparr>) = ?rs" by simp_all
    then show ?thesis unfolding e using dm m sub len by auto
  next
    case None
    show ?thesis
    proof (cases "length (rows t) < 96")
      case True
      then have e: "?t' = ?t\<lparr>rows := rows t @ [?r]\<rparr>" using None by (simp add: sp_record_def Let_def)
      show ?thesis unfolding e using True sub dom tr(2) by auto
    next
      case False
      let ?v = "victim (rows t)"
      have v: "?v < length (rows t)" using False by (intro victim_less) auto
      show ?thesis
      proof (cases "sp_mag d > mag (rows t ! ?v)")
        case big: True
        then have e: "?t' = ?t\<lparr>rows := (rows t)[?v := ?r]\<rparr>"
          using None False by (simp add: sp_record_def Let_def)
        have in_r: "?r \<in> set ((rows t)[?v := ?r])" using v by (simp add: set_update_memI)
        have "\<exists>r\<in>set ((rows t)[?v := ?r]). x \<le> mag r" if xE: "x \<in> ?E" for x
        proof (cases "x = sp_mag d")
          case False
          then obtain r where "r \<in> set (rows t)" "x \<le> mag r" using xE dom by blast
          then obtain k where k: "k < length (rows t)" "x \<le> mag (rows t ! k)" by (metis in_set_conv_nth)
          then show ?thesis
          proof (cases "k = ?v")
            case True
            then have "x \<le> mag ?r" using k big by simp
            then show ?thesis using in_r by blast
          next
            case False
            then have "rows t ! k \<in> set ((rows t)[?v := ?r])"
              using k by (metis length_list_update nth_list_update_neq nth_mem)
            then show ?thesis using k by blast
          qed
        next
          case True
          then have "x \<le> mag ?r" by simp
          then show ?thesis using in_r by blast
        qed
        moreover have "mag ` set ((rows t)[?v := ?r]) \<subseteq> ?E"
        proof -
          have "mag ` set ((rows t)[?v := ?r]) \<subseteq> insert (mag ?r) (mag ` set (rows t))"
            using image_mono [OF set_update_subset_insert [of "rows t" ?v ?r], of mag] by (simp only: image_insert)
          then show ?thesis using sub by auto
        qed
        ultimately show ?thesis unfolding e using len tr(2) by simp
      next
        case small: False
        then have e: "?t' = ?t" using None False by (simp add: sp_record_def Let_def)
        have "rows t ! ?v \<in> set (rows t)" using v by simp
        then show ?thesis unfolding e using small sub dom len tr by (auto simp: not_less)
      qed
    qed
  qed
  then show ?thesis using w unfolding sp_inv_def ev_mags_snoc by simp
qed

lemma sp_inv_run: "sp_inv es t \<Longrightarrow> sp_inv (es @ evs) (sp_run evs t)"
proof (induction evs arbitrary: es t)
  case (Cons e evs)
  obtain s d i ot l where e: "e = (s, d, i, ot, l)" by (cases e)
  show ?case
    using Cons.IH [OF sp_inv_record [OF Cons.prems, of s d i ot l]] by (simp add: e sp_run_def)
qed (simp add: sp_run_def)

lemma sp_inv_empty: "sp_inv [] sp_empty"
  by (simp add: sp_inv_def sp_empty_def ev_mags_def)

section \<open>The report\<close>

lemma pick_spec:
  "case pick rs used of
     None \<Rightarrow> \<forall>i<length rs. i \<in> set used
   | Some b \<Rightarrow> b < length rs \<and> b \<notin> set used \<and> (\<forall>i<length rs. i \<notin> set used \<longrightarrow> mag (rs ! i) \<le> mag (rs ! b))"
proof -
  let ?f = "\<lambda>i b. if i \<in> set used then b
     else case b of None \<Rightarrow> Some i | Some j \<Rightarrow> if mag (rs ! i) > mag (rs ! j) then Some i else Some j"
  have "case fold ?f [0..<n] None of None \<Rightarrow> \<forall>i<n. i \<in> set used
     | Some b \<Rightarrow> b < n \<and> b \<notin> set used \<and> (\<forall>i<n. i \<notin> set used \<longrightarrow> mag (rs ! i) \<le> mag (rs ! b))" for n
  proof (induction n)
    case (Suc n)
    then show ?case
      by (auto simp: less_Suc_eq split: option.splits) (force+)?
  qed simp
  then show ?thesis unfolding pick_def by blast
qed

lemma dump_order_spec:
  "distinct (dump_order rs k) \<and> set (dump_order rs k) \<subseteq> {..<length rs} \<and>
   sorted_wrt (\<lambda>i j. mag (rs ! j) \<le> mag (rs ! i)) (dump_order rs k) \<and>
   (\<forall>i\<in>set (dump_order rs k). \<forall>j<length rs. j \<notin> set (dump_order rs k) \<longrightarrow> mag (rs ! j) \<le> mag (rs ! i)) \<and>
   (k \<le> length rs \<longrightarrow> length (dump_order rs k) = k)"
proof (induction k)
  case (Suc k)
  let ?u = "dump_order rs k"
  have all: "card (set ?u) < length rs \<Longrightarrow> \<exists>i<length rs. i \<notin> set ?u"
  proof (rule ccontr)
    assume a: "card (set ?u) < length rs" "\<not> (\<exists>i<length rs. i \<notin> set ?u)"
    then have "{..<length rs} \<subseteq> set ?u" by auto
    from card_mono [OF _ this] a(1) show False by simp
  qed
  have cd: "card (set ?u) = length ?u" using Suc distinct_card by blast
  show ?case
  proof (cases "pick rs ?u")
    case None
    then have "\<forall>i<length rs. i \<in> set ?u" using pick_spec [of rs ?u] by simp
    then have "\<not> Suc k \<le> length rs" using all cd Suc by auto
    then show ?thesis using Suc None by (simp add: Let_def)
  next
    case (Some b)
    then have b: "b < length rs" "b \<notin> set ?u" "\<forall>i<length rs. i \<notin> set ?u \<longrightarrow> mag (rs ! i) \<le> mag (rs ! b)"
      using pick_spec [of rs ?u] by simp_all
    show ?thesis using Suc Some b by (auto simp: Let_def sorted_wrt_append)
  qed
qed simp

text \<open>
  C34. Whatever the volume of imbalances recorded, and however often the table overflowed, the report
  lists at most what it holds in order of decreasing magnitude, and its first row, like the worst row,
  is the largest imbalance ever recorded.
\<close>

theorem sp_report_names_worst:
  assumes ev: "evs \<noteq> []" and cap: "0 < cap"
  shows "let t = sp_run evs sp_empty; out = sp_dump t cap in
     out \<noteq> [] \<and> length out \<le> cap \<and> sorted_wrt (\<lambda>x y. mag y \<le> mag x) out \<and>
     mag (hd out) = Max (ev_mags evs) \<and> mag (worst t) = Max (ev_mags evs)"
proof -
  let ?t = "sp_run evs sp_empty"
  let ?n = "if length (rows ?t) < cap then length (rows ?t) else cap"
  let ?o = "dump_order (rows ?t) ?n"
  have inv: "sp_inv evs ?t" using sp_inv_run [OF sp_inv_empty, of evs] by simp
  have fin: "finite (ev_mags evs)" "ev_mags evs \<noteq> {}" using ev by (simp_all add: ev_mags_def)
  obtain r where r: "r \<in> set (rows ?t)" "Max (ev_mags evs) \<le> mag r"
    using inv Max_in [OF fin] unfolding sp_inv_def by blast
  have le: "mag x \<le> Max (ev_mags evs)" if "x \<in> set (rows ?t)" for x
    using inv that fin by (intro Max_ge) (auto simp: sp_inv_def)
  have ne: "0 < ?n" "?n \<le> length (rows ?t)" using r cap by (auto simp: length_pos_if_in_set)
  note ds = dump_order_spec [of "rows ?t" ?n]
  have lo: "length ?o = ?n" using ds ne by blast
  then obtain b bs where o: "?o = b # bs" using ne by (cases ?o) auto
  have "mag (rows ?t ! j) \<le> mag (rows ?t ! b)" if "j < length (rows ?t)" for j
    using ds that unfolding o by (cases "j \<in> set (b # bs)") auto
  then have "mag r \<le> mag (rows ?t ! b)" using r by (metis in_set_conv_nth)
  moreover have "rows ?t ! b \<in> set (rows ?t)" using ds unfolding o by auto
  ultimately have hd: "mag (rows ?t ! b) = Max (ev_mags evs)" using r(2) le by force
  have w: "mag (worst ?t) = Max (ev_mags evs)"
    using inv ev fin by (intro Max_eqI [symmetric]) (auto simp: sp_inv_def)
  have "sorted_wrt (\<lambda>x y. mag y \<le> mag x) (map (\<lambda>i. rows ?t ! i) ?o)"
    using ds by (simp add: sorted_wrt_map)
  then show ?thesis using o hd w lo unfolding Let_def sp_dump_def by auto
qed

theorem sp_report_names_worst_witness:
  "let t = sp_run [(0x1000, 16, 0, 16, 0), (0x2000, 0xFFFFFD70, 656, 0, 0)] sp_empty; out = sp_dump t 1 in
     out \<noteq> [] \<and> length out \<le> 1 \<and> sorted_wrt (\<lambda>x y. mag y \<le> mag x) out \<and>
     mag (hd out) = Max (ev_mags [(0x1000, 16, 0, 16, 0), (0x2000, 0xFFFFFD70, 656, 0, 0)]) \<and>
     mag (worst t) = Max (ev_mags [(0x1000, 16, 0, 16, 0), (0x2000, 0xFFFFFD70, 656, 0, 0)])"
  by (rule sp_report_names_worst) simp_all

end
