(* ===== verification/Kernel.thy ===== *)
theory Kernel
  imports Dispatch Sysmem
begin

unbundle bit_operations_syntax

text \<open>
  The state the thread manager (\<^verbatim>\<open>src/hle/threadman.c\<close>) and the interrupt manager
  (\<^verbatim>\<open>src/hle/intrman.c\<close>) share with the user-memory allocator and the machine, and how control leaves
  a firmware call. The build option \<^verbatim>\<open>PSPRECOMP_REAL_THREADS\<close> is off, as it is by default: a thread
  body runs inline in \<^verbatim>\<open>sceKernelStartThread\<close>, a wake-up wakes nobody and a park only advances the
  virtual clock.

  Guest code is the generated program, which is not part of the repository: it is the argument
  \<open>run\<close>, a function from the address called and the whole state to the way control comes back.
\<close>

section \<open>Threads and kernel objects\<close>

abbreviation (input) MAX_THREADS :: nat where "MAX_THREADS \<equiv> 128"
abbreviation (input) MAX_SEMAS :: nat where "MAX_SEMAS \<equiv> 128"
abbreviation (input) MAX_FLAGS :: nat where "MAX_FLAGS \<equiv> 128"
abbreviation (input) MAX_CBS :: nat where "MAX_CBS \<equiv> 64"
abbreviation (input) MAX_VPLS :: nat where "MAX_VPLS \<equiv> 64"
abbreviation (input) MAX_VPL_BLOCKS :: nat where "MAX_VPL_BLOCKS \<equiv> 512"
abbreviation (input) MAX_SUBINTR :: nat where "MAX_SUBINTR \<equiv> 64"
abbreviation (input) TM_UID_BASE :: u32 where "TM_UID_BASE \<equiv> 0x00040000"
abbreviation (input) TICK_US :: u64 where "TICK_US \<equiv> 1000"
abbreviation (input) FRAME_US :: u64 where "FRAME_US \<equiv> 16667"

abbreviation (input) SCE_KERNEL_ERROR_ERROR :: u32 where "SCE_KERNEL_ERROR_ERROR \<equiv> 0x80020001"
abbreviation (input) SCE_KERNEL_ERROR_ILLEGAL_ADDR :: u32 where "SCE_KERNEL_ERROR_ILLEGAL_ADDR \<equiv> 0x80020005"
abbreviation (input) SCE_KERNEL_ERROR_ILLEGAL_MEMBLOCK :: u32 where "SCE_KERNEL_ERROR_ILLEGAL_MEMBLOCK \<equiv> 0x800201A9"
abbreviation (input) SCE_KERNEL_ERROR_ILLEGAL_THID :: u32 where "SCE_KERNEL_ERROR_ILLEGAL_THID \<equiv> 0x80020197"
abbreviation (input) SCE_KERNEL_ERROR_WAIT_TIMEOUT :: u32 where "SCE_KERNEL_ERROR_WAIT_TIMEOUT \<equiv> 0x800201A8"
abbreviation (input) SCE_KERNEL_ERROR_THREAD_TERMINATED :: u32 where "SCE_KERNEL_ERROR_THREAD_TERMINATED \<equiv> 0x800201AC"
abbreviation (input) SCE_KERNEL_ERROR_SEMA_ZERO :: u32 where "SCE_KERNEL_ERROR_SEMA_ZERO \<equiv> 0x800201AD"
abbreviation (input) SCE_KERNEL_ERROR_EVF_COND :: u32 where "SCE_KERNEL_ERROR_EVF_COND \<equiv> 0x800201AF"

datatype th_state = TH_DORMANT | TH_READY | TH_RUNNING | TH_SUSPENDED

text \<open>
  A thread record, with the fields the inline build uses. \<open>t_end_waits\<close> is the chain of
  \<^verbatim>\<open>struct end_ctx\<close> frames on the host stack, innermost first, each by the index of its target.
\<close>

record psp_thread =
  t_uid :: u32
  t_name :: "u8 list"
  t_entry :: u32
  t_priority :: u32
  t_stack_size :: u32
  t_stack_base :: u32
  t_attr :: u32
  t_gp :: u32
  t_state :: th_state
  t_exit_status :: u32
  t_used :: bool
  t_wakeups :: u64
  t_terminated :: bool
  t_delete_after :: bool
  t_exited :: bool
  t_end_waiters :: int
  t_end_waits :: "nat list"
  t_unwind_set :: bool

record psp_sema =
  s_uid :: u32
  s_name :: "u8 list"
  s_count :: u32
  s_max_count :: u32
  s_used :: bool

record psp_evflag =
  f_uid :: u32
  f_name :: "u8 list"
  f_pattern :: u32
  f_used :: bool

record psp_callback =
  c_uid :: u32
  c_name :: "u8 list"
  c_func :: u32
  c_arg :: u32
  c_owner :: u32
  c_notify_arg :: u32
  c_notify_count :: u32
  c_delivery_status :: u32
  c_used :: bool

record psp_vpl =
  v_uid :: u32
  v_name :: "u8 list"
  v_attr :: u32
  v_pool_size :: u32
  v_free_size :: u32
  v_used :: bool

record psp_vpl_block =
  vb_vpl :: u32
  vb_addr :: u32
  vb_size :: u32
  vb_used :: bool

text \<open>A zeroed record of each kind, what \<^verbatim>\<open>memset\<close> leaves.\<close>

definition zero_thread :: psp_thread where
  "zero_thread = \<lparr>t_uid = 0, t_name = replicate 32 0, t_entry = 0, t_priority = 0, t_stack_size = 0,
     t_stack_base = 0, t_attr = 0, t_gp = 0, t_state = TH_DORMANT, t_exit_status = 0, t_used = False,
     t_wakeups = 0, t_terminated = False, t_delete_after = False, t_exited = False,
     t_end_waiters = 0, t_end_waits = [], t_unwind_set = False\<rparr>"

definition zero_sema :: psp_sema where
  "zero_sema = \<lparr>s_uid = 0, s_name = replicate 32 0, s_count = 0, s_max_count = 0, s_used = False\<rparr>"

definition zero_flag :: psp_evflag where
  "zero_flag = \<lparr>f_uid = 0, f_name = replicate 32 0, f_pattern = 0, f_used = False\<rparr>"

definition zero_cb :: psp_callback where
  "zero_cb = \<lparr>c_uid = 0, c_name = replicate 32 0, c_func = 0, c_arg = 0, c_owner = 0,
     c_notify_arg = 0, c_notify_count = 0, c_delivery_status = 0, c_used = False\<rparr>"

definition zero_vpl :: psp_vpl where
  "zero_vpl = \<lparr>v_uid = 0, v_name = replicate 32 0, v_attr = 0, v_pool_size = 0, v_free_size = 0,
     v_used = False\<rparr>"

definition zero_vplblk :: psp_vpl_block where
  "zero_vplblk = \<lparr>vb_vpl = 0, vb_addr = 0, vb_size = 0, vb_used = False\<rparr>"

text \<open>The statics of \<^verbatim>\<open>threadman.c\<close>; a pointer to a thread record is its index.\<close>

record threadman =
  g_thread :: "psp_thread list"
  g_sema :: "psp_sema list"
  g_flag :: "psp_evflag list"
  g_cb :: "psp_callback list"
  g_vpl :: "psp_vpl list"
  g_vplblk :: "psp_vpl_block list"
  g_cb_deliveries :: u64
  g_cb_unresolved :: u64
  g_cb_unresolved_logged :: u64
  g_cb_deliver_deferred :: u64
  g_cb_delivering :: bool
  tm_next_uid :: u32
  g_current :: "nat option"
  g_tls_me :: "nat option"
  g_tls_intr_depth :: int
  g_created :: u64
  g_started :: u64
  g_wait_gaveup :: u64
  g_vtime_us :: u64
  g_epoch_us :: u64

record psp_subintr =
  si_intr :: u32
  si_subintr :: u32
  si_handler :: u32
  si_arg :: u32
  si_enabled :: bool
  si_used :: bool

record intrman =
  g_sub :: "psp_subintr list"
  g_deliveries :: u64
  g_unresolved :: u64
  g_unresolved_logged :: int
  g_delivering :: bool

record kern =
  mach :: psp_machine
  sys :: sysmem
  tm :: threadman
  im :: intrman

section \<open>How control comes back\<close>

text \<open>
  A firmware call or a guest function returns, or is unwound by \<^verbatim>\<open>longjmp\<close> to the \<^verbatim>\<open>setjmp\<close> of a
  started thread, or does not come back at all.
\<close>

datatype 'a flow = Done 'a kern | Unwound nat kern | Diverged

type_synonym guest = "u32 \<Rightarrow> kern \<Rightarrow> unit flow"

primrec flow_bind :: "'a flow \<Rightarrow> ('a \<Rightarrow> kern \<Rightarrow> 'b flow) \<Rightarrow> 'b flow" where
  "flow_bind (Done a k) g = g a k"
| "flow_bind (Unwound i k) g = Unwound i k"
| "flow_bind Diverged g = Diverged"

definition karg :: "nat \<Rightarrow> kern \<Rightarrow> u32" where
  "karg n k = fst (psp_arg n (mach k))"

definition kret :: "u32 \<Rightarrow> kern \<Rightarrow> kern" where
  "kret x k = k\<lparr>mach := psp_ret x (mach k)\<rparr>"

definition kwrite32 :: "u32 \<Rightarrow> u32 \<Rightarrow> kern \<Rightarrow> kern" where
  "kwrite32 a v k = k\<lparr>mach := psp_write32 a v (mach k)\<rparr>"

definition set_gpr :: "nat \<Rightarrow> u32 \<Rightarrow> kern \<Rightarrow> kern" where
  "set_gpr r v k = k\<lparr>mach := (mach k)\<lparr>cpu := (cpu (mach k))\<lparr>gpr := (gpr (cpu (mach k)))[r := v]\<rparr>\<rparr>\<rparr>"

definition set_cpu :: "psp_cpu_state \<Rightarrow> kern \<Rightarrow> kern" where
  "set_cpu c k = k\<lparr>mach := (mach k)\<lparr>cpu := c\<rparr>\<rparr>"

text \<open>\<^verbatim>\<open>psp_str\<close> into a zeroed field of 32 characters.\<close>

definition kname :: "u32 \<Rightarrow> kern \<Rightarrow> u8 list \<times> kern" where
  "kname addr k = (let (s, M) = psp_str addr 32 (mach k)
                   in (s @ replicate (32 - length s) 0, k\<lparr>mach := M\<rparr>))"

text \<open>
  \<^verbatim>\<open>psp_call_from_host\<close> over the whole state. A \<^verbatim>\<open>longjmp\<close> leaves the frame where it is; the
  \<^verbatim>\<open>setjmp\<close> that catches it restores the registers.
\<close>

definition call_guest :: "guest \<Rightarrow> u32 \<Rightarrow> kern \<Rightarrow> unit flow" where
  "call_guest run addr k =
     (let prev = frame (cpu (mach k)) in
      flow_bind (run addr (set_cpu ((cpu (mach k))\<lparr>frame := 0 # prev\<rparr>) k))
        (\<lambda>_ k1. Done () (set_cpu ((cpu (mach k1))\<lparr>frame := prev, unwind := 0\<rparr>) k1)))"

definition resolves :: "'f dispatch \<Rightarrow> u32 \<Rightarrow> bool" where
  "resolves d addr = (case psp_lookup addr d of Some (Some f) \<Rightarrow> True | _ \<Rightarrow> False)"

section \<open>Reset\<close>

definition boot_record :: "psp_thread" where
  "boot_record = zero_thread\<lparr>t_uid := TM_UID_BASE - 1,
     t_name := [98, 111, 111, 116] @ replicate 28 0, t_state := TH_RUNNING, t_used := True\<rparr>"

text \<open>\<^verbatim>\<open>psp_threadman_reset\<close>, with the wall clock it reads as its argument.\<close>

definition psp_threadman_reset :: "u64 \<Rightarrow> threadman" where
  "psp_threadman_reset host_now =
     \<lparr>g_thread = (replicate MAX_THREADS zero_thread)[MAX_THREADS - 1 := boot_record],
      g_sema = replicate MAX_SEMAS zero_sema,
      g_flag = replicate MAX_FLAGS zero_flag,
      g_cb = replicate MAX_CBS zero_cb,
      g_vpl = replicate MAX_VPLS zero_vpl,
      g_vplblk = replicate MAX_VPL_BLOCKS zero_vplblk,
      g_cb_deliveries = 0, g_cb_unresolved = 0, g_cb_unresolved_logged = 0,
      g_cb_deliver_deferred = 0, g_cb_delivering = False,
      tm_next_uid = TM_UID_BASE,
      g_current = Some (MAX_THREADS - 1), g_tls_me = Some (MAX_THREADS - 1),
      g_tls_intr_depth = 0, g_created = 0, g_started = 0, g_wait_gaveup = 0,
      g_vtime_us = 0, g_epoch_us = host_now\<rparr>"

definition psp_intrman_reset :: intrman where
  "psp_intrman_reset =
     \<lparr>g_sub = replicate MAX_SUBINTR
        \<lparr>si_intr = 0, si_subintr = 0, si_handler = 0, si_arg = 0, si_enabled = False, si_used = False\<rparr>,
      g_deliveries = 0, g_unresolved = 0, g_unresolved_logged = 0, g_delivering = False\<rparr>"

section \<open>Critical sections\<close>

definition psp_threadman_intr_suspend :: "kern \<Rightarrow> bool \<times> kern" where
  "psp_threadman_intr_suspend k =
     (g_tls_intr_depth (tm k) = 0, k\<lparr>tm := (tm k)\<lparr>g_tls_intr_depth := g_tls_intr_depth (tm k) + 1\<rparr>\<rparr>)"

definition psp_threadman_intr_resume :: "u32 \<Rightarrow> kern \<Rightarrow> kern" where
  "psp_threadman_intr_resume cookie k =
     (let d = g_tls_intr_depth (tm k);
          d1 = (if d > 0 then d - 1 else d)
      in k\<lparr>tm := (tm k)\<lparr>g_tls_intr_depth := if cookie \<noteq> 0 then 0 else d1\<rparr>\<rparr>)"

definition psp_threadman_intr_disabled :: "kern \<Rightarrow> bool" where
  "psp_threadman_intr_disabled k \<longleftrightarrow> g_tls_intr_depth (tm k) > 0"

end
