(* ===== verification/Intrman.thy ===== *)
theory Intrman
  imports Kernel
begin

unbundle bit_operations_syntax

text \<open>
  The interrupt manager of \<^verbatim>\<open>src/hle/intrman.c\<close>: the table of sub-interrupt handlers and the
  delivery of one interrupt to every enabled handler, with its re-entrance guard.
\<close>

section \<open>The handler table\<close>

definition psp_intrman_init :: intrman where
  "psp_intrman_init = psp_intrman_reset"

definition find_subintr :: "u32 \<Rightarrow> u32 \<Rightarrow> intrman \<Rightarrow> nat option" where
  "find_subintr intr subintr I =
     find_index (\<lambda>s. si_used s \<and> si_intr s = intr \<and> si_subintr s = subintr) (g_sub I)"

definition subintr_slot :: "u32 \<Rightarrow> u32 \<Rightarrow> intrman \<Rightarrow> nat option" where
  "subintr_slot intr subintr I =
     (case find_subintr intr subintr I of Some i \<Rightarrow> Some i
      | None \<Rightarrow> find_index (\<lambda>s. \<not> si_used s) (g_sub I))"

definition hle_RegisterSubIntrHandler :: "kern \<Rightarrow> kern" where
  "hle_RegisterSubIntrHandler k =
     (case subintr_slot (karg 0 k) (karg 1 k) (im k) of
        None \<Rightarrow> kret SCE_KERNEL_ERROR_NO_MEMORY k
      | Some i \<Rightarrow> kret SCE_KERNEL_ERROR_OK (k\<lparr>im := (im k)\<lparr>g_sub := (g_sub (im k))[i :=
          \<lparr>si_intr = karg 0 k, si_subintr = karg 1 k, si_handler = karg 2 k, si_arg = karg 3 k,
           si_enabled = False, si_used = True\<rparr>]\<rparr>\<rparr>))"

definition hle_EnableSubIntr :: "kern \<Rightarrow> kern" where
  "hle_EnableSubIntr k =
     (case find_subintr (karg 0 k) (karg 1 k) (im k) of
        None \<Rightarrow> kret SCE_KERNEL_ERROR_ERROR k
      | Some i \<Rightarrow> kret (if si_enabled (g_sub (im k) ! i) then 1 else 0)
          (k\<lparr>im := (im k)\<lparr>g_sub := (g_sub (im k))[i := (g_sub (im k) ! i)\<lparr>si_enabled := True\<rparr>]\<rparr>\<rparr>))"

definition hle_ReleaseSubIntrHandler :: "kern \<Rightarrow> kern" where
  "hle_ReleaseSubIntrHandler k =
     (case find_subintr (karg 0 k) (karg 1 k) (im k) of
        None \<Rightarrow> kret SCE_KERNEL_ERROR_ERROR k
      | Some i \<Rightarrow> kret SCE_KERNEL_ERROR_OK
          (k\<lparr>im := (im k)\<lparr>g_sub := (g_sub (im k))[i := (g_sub (im k) ! i)\<lparr>si_used := False\<rparr>]\<rparr>\<rparr>))"

section \<open>Delivery\<close>

text \<open>
  The registers of a call into the guest from a wait point: the two arguments and a zero return
  address over the registers of what is interrupted.
\<close>

definition enter_regs :: "u32 \<Rightarrow> u32 \<Rightarrow> kern \<Rightarrow> kern" where
  "enter_regs a0 a1 k = set_gpr PSP_REG_RA 0 (set_gpr PSP_REG_A1 a1 (set_gpr PSP_REG_A0 a0 k))"

definition note_unresolved :: "kern \<Rightarrow> kern" where
  "note_unresolved k =
     k\<lparr>im := (im k)\<lparr>g_unresolved := g_unresolved (im k) + 1,
        g_unresolved_logged := (if g_unresolved_logged (im k) < 8 then g_unresolved_logged (im k) + 1
                                else g_unresolved_logged (im k))\<rparr>\<rparr>"

text \<open>The loop of \<^verbatim>\<open>psp_intr_tick\<close> over the slots still to be looked at.\<close>

primrec intr_loop :: "guest \<Rightarrow> 'f dispatch \<Rightarrow> nat list \<Rightarrow> kern \<Rightarrow> unit flow" where
  "intr_loop run d [] k = Done () k"
| "intr_loop run d (i # is) k =
     (let s = g_sub (im k) ! i in
      if \<not> si_used s \<or> \<not> si_enabled s then intr_loop run d is k
      else if \<not> resolves d (si_handler s) then intr_loop run d is (note_unresolved k)
      else flow_bind (call_guest run (si_handler s) (enter_regs (si_subintr s) (si_arg s) k))
             (\<lambda>_ k1. let k2 = set_cpu (cpu (mach k)) k1 in
                     intr_loop run d is (k2\<lparr>im := (im k2)\<lparr>g_deliveries := g_deliveries (im k2) + 1\<rparr>\<rparr>)))"

definition psp_intr_tick :: "guest \<Rightarrow> 'f dispatch \<Rightarrow> kern \<Rightarrow> unit flow" where
  "psp_intr_tick run d k =
     (if g_delivering (im k) \<or> psp_threadman_intr_disabled k then Done () k
      else flow_bind (intr_loop run d [0..<MAX_SUBINTR] (k\<lparr>im := (im k)\<lparr>g_delivering := True\<rparr>\<rparr>))
             (\<lambda>_ k1. Done () (k1\<lparr>im := (im k1)\<lparr>g_delivering := False\<rparr>\<rparr>)))"

definition psp_intr_handlers :: "kern \<Rightarrow> nat" where
  "psp_intr_handlers k = length (filter si_used (g_sub (im k)))"

definition psp_intr_enabled :: "kern \<Rightarrow> nat" where
  "psp_intr_enabled k = length (filter (\<lambda>s. si_used s \<and> si_enabled s) (g_sub (im k)))"

definition psp_intr_deliveries :: "kern \<Rightarrow> u64" where
  "psp_intr_deliveries k = g_deliveries (im k)"

definition psp_intr_unresolved :: "kern \<Rightarrow> u64" where
  "psp_intr_unresolved k = g_unresolved (im k)"

end
