(* ===== verification/Threadman.thy ===== *)
theory Threadman
  imports Intrman
begin

unbundle bit_operations_syntax

text \<open>
  The thread manager of \<^verbatim>\<open>src/hle/threadman.c\<close> in its default, inline build: waits, callbacks,
  threads, the virtual clock, semaphores, event flags and variable-size pools, one definition per
  function in the order of the source. A call that can run guest code, be unwound or not come back
  has a result of type \<open>flow\<close>; the others map the state to the state.
\<close>

section \<open>Unwinding and parking\<close>

definition find_thread :: "u32 \<Rightarrow> kern \<Rightarrow> nat option" where
  "find_thread uid k = find_index (\<lambda>t. t_used t \<and> t_uid t = uid) (g_thread (tm k))"

definition upd_thread :: "nat \<Rightarrow> (psp_thread \<Rightarrow> psp_thread) \<Rightarrow> kern \<Rightarrow> kern" where
  "upd_thread i f k = k\<lparr>tm := (tm k)\<lparr>g_thread := (g_thread (tm k))[i := f (g_thread (tm k) ! i)]\<rparr>\<rparr>"

text \<open>The records the chain \<^verbatim>\<open>end_waits\<close> pins are released one by one, then the thread is left.\<close>

primrec release_waits :: "nat list \<Rightarrow> kern \<Rightarrow> kern" where
  "release_waits [] k = k"
| "release_waits (j # js) k = release_waits js (upd_thread j (\<lambda>t. t\<lparr>t_end_waiters := t_end_waiters t - 1\<rparr>) k)"

definition thread_unwind :: "nat \<Rightarrow> u32 \<Rightarrow> kern \<Rightarrow> unit flow" where
  "thread_unwind i status k =
     (let t = g_thread (tm k) ! i in
      if \<not> t_unwind_set t then Done () k
      else Unwound i (upd_thread i (\<lambda>t. t\<lparr>t_end_waits := [], t_exit_status := status\<rparr>)
                       (release_waits (t_end_waits t) k)))"

definition check_terminated :: "kern \<Rightarrow> unit flow" where
  "check_terminated k =
     (case g_tls_me (tm k) of
        Some i \<Rightarrow> if t_terminated (g_thread (tm k) ! i)
                  then thread_unwind i SCE_KERNEL_ERROR_THREAD_TERMINATED k else Done () k
      | None \<Rightarrow> Done () k)"

definition park_us :: "u64 \<Rightarrow> kern \<Rightarrow> kern" where
  "park_us us k = k\<lparr>tm := (tm k)\<lparr>g_vtime_us := g_vtime_us (tm k) + us\<rparr>\<rparr>"

definition park_for :: "u64 \<Rightarrow> kern \<Rightarrow> unit flow" where
  "park_for us k = flow_bind (check_terminated k) (\<lambda>_ k1. check_terminated (park_us us k1))"

section \<open>Callbacks\<close>

definition find_callback :: "u32 \<Rightarrow> kern \<Rightarrow> nat option" where
  "find_callback uid k = find_index (\<lambda>c. c_used c \<and> c_uid c = uid) (g_cb (tm k))"

definition psp_callback_valid :: "u32 \<Rightarrow> kern \<Rightarrow> bool" where
  "psp_callback_valid uid k \<longleftrightarrow> find_callback uid k \<noteq> None"

definition upd_cb :: "nat \<Rightarrow> (psp_callback \<Rightarrow> psp_callback) \<Rightarrow> kern \<Rightarrow> kern" where
  "upd_cb i f k = k\<lparr>tm := (tm k)\<lparr>g_cb := (g_cb (tm k))[i := f (g_cb (tm k) ! i)]\<rparr>\<rparr>"

definition my_uid :: "kern \<Rightarrow> u32" where
  "my_uid k = (case g_tls_me (tm k) of Some i \<Rightarrow> t_uid (g_thread (tm k) ! i) | None \<Rightarrow> 0)"

abbreviation (input) CB_DELIVER_MAX :: nat where "CB_DELIVER_MAX \<equiv> 16"

definition drop_notify :: "nat \<Rightarrow> kern \<Rightarrow> kern" where
  "drop_notify i k =
     (let k1 = upd_cb i (\<lambda>c. c\<lparr>c_notify_count := 0\<rparr>) k
      in k1\<lparr>tm := (tm k1)\<lparr>g_cb_unresolved := g_cb_unresolved (tm k1) + 1,
           g_cb_unresolved_logged := (if g_cb_unresolved_logged (tm k1) < 4
             then g_cb_unresolved_logged (tm k1) + 1 else g_cb_unresolved_logged (tm k1))\<rparr>\<rparr>)"

text \<open>One delivery: what the notification carried is taken before the call, the result after it.\<close>

definition deliver_one :: "guest \<Rightarrow> nat \<Rightarrow> kern \<Rightarrow> unit flow" where
  "deliver_one run i k =
     (let c = g_cb (tm k) ! i;
          k1 = upd_cb i (\<lambda>c. c\<lparr>c_notify_count := c_notify_count c - 1, c_notify_arg := 0\<rparr>) k
      in flow_bind (call_guest run (c_func c) (enter_regs (c_arg c) (c_notify_arg c) k1))
           (\<lambda>_ k2. let k3 = upd_cb i (\<lambda>c. c\<lparr>c_delivery_status := gpr (cpu (mach k2)) ! PSP_REG_V0\<rparr>) k2;
                       k4 = set_cpu (cpu (mach k1)) k3
                   in Done () (k4\<lparr>tm := (tm k4)\<lparr>g_cb_deliveries := g_cb_deliveries (tm k4) + 1\<rparr>\<rparr>)))"

primrec cb_loop :: "guest \<Rightarrow> 'f dispatch \<Rightarrow> u32 \<Rightarrow> nat list \<Rightarrow> nat \<Rightarrow> kern \<Rightarrow> nat flow" where
  "cb_loop run d me [] cnt k = Done cnt k"
| "cb_loop run d me (i # is) cnt k =
     (if cnt \<ge> CB_DELIVER_MAX then Done cnt k
      else let c = g_cb (tm k) ! i in
           if \<not> c_used c \<or> c_notify_count c = 0 \<or> c_owner c \<noteq> me then cb_loop run d me is cnt k
           else if \<not> resolves d (c_func c) then cb_loop run d me is cnt (drop_notify i k)
           else flow_bind (deliver_one run i k) (\<lambda>_ k1. cb_loop run d me is (cnt + 1) k1))"

definition deliver_callbacks :: "guest \<Rightarrow> 'f dispatch \<Rightarrow> kern \<Rightarrow> nat flow" where
  "deliver_callbacks run d k =
     (if g_cb_delivering (tm k) \<or> psp_threadman_intr_disabled k then Done 0 k
      else flow_bind (cb_loop run d (my_uid k) [0..<MAX_CBS] 0 (k\<lparr>tm := (tm k)\<lparr>g_cb_delivering := True\<rparr>\<rparr>))
             (\<lambda>cnt k1. Done cnt (k1\<lparr>tm := (tm k1)\<lparr>g_cb_delivering := False,
                g_cb_deliver_deferred := (if cnt = CB_DELIVER_MAX then g_cb_deliver_deferred (tm k1) + 1
                                          else g_cb_deliver_deferred (tm k1))\<rparr>\<rparr>)))"

definition deliver_tick :: "guest \<Rightarrow> 'f dispatch \<Rightarrow> kern \<Rightarrow> unit flow" where
  "deliver_tick run d k =
     flow_bind (check_terminated k) (\<lambda>_ k1.
       flow_bind (psp_intr_tick run d k1) (\<lambda>_ k2.
         flow_bind (deliver_callbacks run d k2) (\<lambda>_ k3. Done () k3)))"

definition hle_CreateCallback :: "kern \<Rightarrow> kern" where
  "hle_CreateCallback k =
     (case find_index (\<lambda>c. \<not> c_used c) (g_cb (tm k)) of
        None \<Rightarrow> kret SCE_KERNEL_ERROR_NO_MEMORY k
      | Some i \<Rightarrow>
          (let (name, k1) = kname (karg 0 k) k; u = tm_next_uid (tm k);
               c = zero_cb\<lparr>c_name := name, c_func := karg 1 k, c_arg := karg 2 k, c_owner := my_uid k,
                     c_uid := u, c_used := True\<rparr>
           in kret u (k1\<lparr>tm := (tm k1)\<lparr>g_cb := (g_cb (tm k1))[i := c], tm_next_uid := u + 1\<rparr>\<rparr>)))"

definition hle_DeleteCallback :: "kern \<Rightarrow> kern" where
  "hle_DeleteCallback k =
     (case find_callback (karg 0 k) k of
        None \<Rightarrow> kret SCE_KERNEL_ERROR_UNKNOWN_UID k
      | Some i \<Rightarrow> kret SCE_KERNEL_ERROR_OK (upd_cb i (\<lambda>c. c\<lparr>c_used := False\<rparr>) k))"

definition hle_NotifyCallback :: "kern \<Rightarrow> kern" where
  "hle_NotifyCallback k =
     (case find_callback (karg 0 k) k of
        None \<Rightarrow> kret SCE_KERNEL_ERROR_UNKNOWN_UID k
      | Some i \<Rightarrow> kret SCE_KERNEL_ERROR_OK (upd_cb i (\<lambda>c. c\<lparr>c_notify_arg := karg 1 k,
          c_notify_count := (if c_notify_count c < 0x7FFFFFFF then c_notify_count c + 1
                             else c_notify_count c)\<rparr>) k))"

definition hle_CheckCallback :: "guest \<Rightarrow> 'f dispatch \<Rightarrow> kern \<Rightarrow> unit flow" where
  "hle_CheckCallback run d k =
     flow_bind (deliver_callbacks run d k) (\<lambda>cnt k1. Done () (kret (if cnt \<noteq> 0 then 1 else 0) k1))"

section \<open>The shape of every wait\<close>

text \<open>
  \<^verbatim>\<open>wait_loop\<close> in the inline build: the condition is tested once, after one delivery; no other
  guest code can make it true, so a wait that is not satisfied returns a timeout at once.
\<close>

definition warn_wait :: "kern \<Rightarrow> kern" where
  "warn_wait k = k\<lparr>tm := (tm k)\<lparr>g_wait_gaveup := g_wait_gaveup (tm k) + 1\<rparr>\<rparr>"

definition wait_loop :: "guest \<Rightarrow> 'f dispatch \<Rightarrow> (kern \<Rightarrow> bool) \<Rightarrow> kern \<Rightarrow> u32 flow" where
  "wait_loop run d ready k =
     flow_bind (check_terminated k) (\<lambda>_ k1.
       flow_bind (deliver_tick run d k1) (\<lambda>_ k2.
         if ready k2 then Done SCE_KERNEL_ERROR_OK k2
         else Done SCE_KERNEL_ERROR_WAIT_TIMEOUT (warn_wait k2)))"

definition psp_threadman_yield :: "kern \<Rightarrow> unit flow" where
  "psp_threadman_yield k = park_for TICK_US k"

definition psp_threadman_frame_wait :: "guest \<Rightarrow> 'f dispatch \<Rightarrow> kern \<Rightarrow> unit flow" where
  "psp_threadman_frame_wait run d k = flow_bind (deliver_tick run d k) (\<lambda>_ k1. park_for FRAME_US k1)"

section \<open>Threads\<close>

primrec reap_loop :: "nat list \<Rightarrow> kern \<Rightarrow> kern" where
  "reap_loop [] k = k"
| "reap_loop (i # is) k =
     (let t = g_thread (tm k) ! i in
      if \<not> t_used t \<or> \<not> t_delete_after t \<or> \<not> t_exited t \<or> t_end_waiters t \<noteq> 0 then reap_loop is k
      else reap_loop is (upd_thread i (\<lambda>t. t\<lparr>t_used := False\<rparr>) k))"

definition reap_deleted_threads :: "kern \<Rightarrow> kern" where
  "reap_deleted_threads k = reap_loop [0..<MAX_THREADS - 1] k"

text \<open>
  \<^verbatim>\<open>hle_CreateThread\<close>: the record is cleared and filled before the stack is allocated, and stays
  unused when there is no room for the stack.
\<close>

definition hle_CreateThread :: "kern \<Rightarrow> unit flow" where
  "hle_CreateThread k0 =
     (let k = reap_deleted_threads k0 in
      case find_index (\<lambda>t. \<not> t_used t) (take (MAX_THREADS - 1) (g_thread (tm k))) of
        None \<Rightarrow> Done () (kret SCE_KERNEL_ERROR_NO_MEMORY k)
      | Some i \<Rightarrow>
          (let (name, k1) = kname (karg 0 k) k;
               sz = (if karg 3 k < 0x1000 then 0x1000 else karg 3 k);
               t = zero_thread\<lparr>t_name := name, t_entry := karg 1 k, t_priority := karg 2 k,
                     t_stack_size := sz, t_attr := karg 4 k, t_gp := gpr (cpu (mach k)) ! PSP_REG_GP\<rparr>;
               k2 = upd_thread i (\<lambda>_. t) k1
           in case psp_sysmem_alloc sz True (sys k2) of
                None \<Rightarrow> Diverged
              | Some (base, S) \<Rightarrow>
                  if base = 0 then Done () (kret SCE_KERNEL_ERROR_NO_MEMORY k2)
                  else (let u = tm_next_uid (tm k2);
                            k3 = upd_thread i (\<lambda>t. t\<lparr>t_stack_base := base, t_uid := u, t_used := True\<rparr>)
                                   (k2\<lparr>sys := S\<rparr>)
                        in Done () (kret u (k3\<lparr>tm := (tm k3)\<lparr>tm_next_uid := u + 1,
                                         g_created := g_created (tm k3) + 1\<rparr>\<rparr>)))))"

definition thread_sp :: "psp_thread \<Rightarrow> u32" where
  "thread_sp t = (t_stack_base t + t_stack_size t - 64) AND NOT 15"

text \<open>The stack of thread \<open>i\<close> goes back to the allocator.\<close>

definition free_stack :: "nat \<Rightarrow> kern \<Rightarrow> kern" where
  "free_stack i k =
     upd_thread i (\<lambda>t. t\<lparr>t_stack_base := 0\<rparr>)
       (k\<lparr>sys := psp_sysmem_release (t_stack_base (g_thread (tm k) ! i)) (sys k)\<rparr>)"

text \<open>
  \<^verbatim>\<open>hle_StartThread\<close> before the body, after it, and around it. The body ends by returning, or by an
  unwind to this thread's \<^verbatim>\<open>setjmp\<close>; an unwind to another thread's passes through.
\<close>

definition thread_enter :: "nat \<Rightarrow> kern \<Rightarrow> kern" where
  "thread_enter i k =
     (let k1 = k\<lparr>tm := (tm k)\<lparr>g_tls_intr_depth := 0, g_current := Some i, g_tls_me := Some i\<rparr>\<rparr>;
          k2 = set_gpr PSP_REG_A0 (karg 1 k1) k1;
          k3 = set_gpr PSP_REG_A1 (karg 2 k2) k2;
          k4 = set_gpr PSP_REG_RA 0 (set_gpr PSP_REG_SP (thread_sp (g_thread (tm k) ! i)) k3);
          k5 = upd_thread i (\<lambda>t. t\<lparr>t_state := TH_RUNNING, t_exited := False, t_terminated := False,
                 t_delete_after := False, t_unwind_set := True\<rparr>) k4
      in k5\<lparr>tm := (tm k5)\<lparr>g_started := g_started (tm k5) + 1\<rparr>\<rparr>)"

definition thread_leave :: "nat \<Rightarrow> kern \<Rightarrow> kern \<Rightarrow> kern" where
  "thread_leave i k0 k =
     (let k1 = upd_thread i (\<lambda>t. t\<lparr>t_unwind_set := False, t_exited := True, t_state := TH_DORMANT\<rparr>) k;
          t = g_thread (tm k1) ! i;
          k2 = (if t_delete_after t \<and> t_stack_base t \<noteq> 0 then free_stack i k1 else k1);
          k3 = k2\<lparr>tm := (tm k2)\<lparr>g_current := g_current (tm k0), g_tls_me := g_tls_me (tm k0),
                    g_tls_intr_depth := g_tls_intr_depth (tm k0)\<rparr>\<rparr>
      in kret SCE_KERNEL_ERROR_OK (set_cpu (cpu (mach k0)) k3))"

definition hle_StartThread :: "guest \<Rightarrow> kern \<Rightarrow> unit flow" where
  "hle_StartThread run k =
     (case find_thread (karg 0 k) k of
        None \<Rightarrow> Done () (kret SCE_KERNEL_ERROR_ILLEGAL_THID k)
      | Some i \<Rightarrow>
          if t_state (g_thread (tm k) ! i) = TH_RUNNING then Done () (kret SCE_KERNEL_ERROR_ILLEGAL_THID k)
          else (case call_guest run (t_entry (g_thread (tm k) ! i)) (thread_enter i k) of
                  Done _ k1 \<Rightarrow> Done () (thread_leave i k
                    (upd_thread i (\<lambda>t. t\<lparr>t_exit_status := gpr (cpu (mach k1)) ! PSP_REG_V0\<rparr>) k1))
                | Unwound j k1 \<Rightarrow> if j = i then Done () (thread_leave i k k1) else Unwound j k1
                | Diverged \<Rightarrow> Diverged))"

definition hle_ExitThread :: "kern \<Rightarrow> unit flow" where
  "hle_ExitThread k =
     (case g_current (tm k) of
        Some i \<Rightarrow> if t_unwind_set (g_thread (tm k) ! i) then thread_unwind i (karg 0 k) k
                  else Done () (kret SCE_KERNEL_ERROR_OK k)
      | None \<Rightarrow> Done () (kret SCE_KERNEL_ERROR_OK k))"

definition hle_ExitDeleteThread :: "kern \<Rightarrow> unit flow" where
  "hle_ExitDeleteThread k =
     hle_ExitThread (case g_current (tm k) of
        Some i \<Rightarrow> upd_thread i (\<lambda>t. t\<lparr>t_delete_after := True\<rparr>) k | None \<Rightarrow> k)"

definition hle_TerminateThread :: "kern \<Rightarrow> kern" where
  "hle_TerminateThread k =
     (case find_thread (karg 0 k) k of
        None \<Rightarrow> kret SCE_KERNEL_ERROR_ILLEGAL_THID k
      | Some i \<Rightarrow> if g_current (tm k) = Some i then kret SCE_KERNEL_ERROR_ILLEGAL_THID k
                  else kret SCE_KERNEL_ERROR_OK (upd_thread i (\<lambda>t. t\<lparr>t_terminated := True\<rparr>) k))"

definition hle_DeleteThread :: "kern \<Rightarrow> kern" where
  "hle_DeleteThread k =
     (case find_thread (karg 0 k) k of
        None \<Rightarrow> kret SCE_KERNEL_ERROR_ILLEGAL_THID k
      | Some i \<Rightarrow>
          (let t = g_thread (tm k) ! i;
               k1 = (if t_state t = TH_DORMANT \<and> t_stack_base t \<noteq> 0 then free_stack i k else k);
               k2 = (if t_state t \<noteq> TH_RUNNING then upd_thread i (\<lambda>t. t\<lparr>t_used := False\<rparr>) k1 else k1)
           in kret SCE_KERNEL_ERROR_OK k2))"

text \<open>\<^verbatim>\<open>park_ticks\<close>: the duration in steps of one tick, a zero duration being one tick.\<close>

function park_loop :: "u64 \<Rightarrow> kern \<Rightarrow> unit flow" where
  "park_loop left k =
     (if left = 0 then Done () k
      else let step = (if left < TICK_US then left else TICK_US) in
           case park_for step k of
             Done _ k1 \<Rightarrow> park_loop (left - step) k1
           | Unwound j k1 \<Rightarrow> Unwound j k1
           | Diverged \<Rightarrow> Diverged)"
  by pat_completeness auto
termination
proof (relation "measure (\<lambda>(left, _). unat left)")
  show "wf (measure (\<lambda>(left :: u64, _ :: kern). unat left))" by simp
next
  fix left :: u64 and k step u k1
  assume "left \<noteq> 0" and st: "step = (if left < TICK_US then left else TICK_US)"
  then have "0 < unat step" "unat step \<le> unat left"
    by (auto simp: word_less_nat_alt unat_gt_0 word_le_nat_alt split: if_splits)
  then show "((left - step, k1), left, k) \<in> measure (\<lambda>(left :: u64, _ :: kern). unat left)"
    by (simp add: unat_sub word_le_nat_alt)
qed

declare park_loop.simps [simp del]

definition park_ticks :: "u64 \<Rightarrow> kern \<Rightarrow> unit flow" where
  "park_ticks us k = park_loop (if us \<noteq> 0 then us else TICK_US) k"

definition psp_threadman_delay :: "u64 \<Rightarrow> kern \<Rightarrow> unit flow" where
  "psp_threadman_delay us k = park_ticks us k"

definition hle_DelayThread :: "guest \<Rightarrow> 'f dispatch \<Rightarrow> kern \<Rightarrow> unit flow" where
  "hle_DelayThread run d k =
     flow_bind (park_ticks (ucast (karg 0 k)) k) (\<lambda>_ k1.
       flow_bind (deliver_tick run d k1) (\<lambda>_ k2. Done () (kret SCE_KERNEL_ERROR_OK k2)))"

definition take_wakeup :: "nat option \<Rightarrow> kern \<Rightarrow> kern" where
  "take_wakeup me k =
     (case me of None \<Rightarrow> k
      | Some i \<Rightarrow> if t_wakeups (g_thread (tm k) ! i) \<noteq> 0
                  then upd_thread i (\<lambda>t. t\<lparr>t_wakeups := t_wakeups t - 1\<rparr>) k else k)"

definition hle_SleepThread :: "guest \<Rightarrow> 'f dispatch \<Rightarrow> kern \<Rightarrow> unit flow" where
  "hle_SleepThread run d k =
     (let me = g_tls_me (tm k);
          already_woken = (case me of None \<Rightarrow> False | Some i \<Rightarrow> t_wakeups (g_thread (tm k) ! i) > 0)
      in flow_bind (if already_woken then Done () k else park_for TICK_US k) (\<lambda>_ k1.
           flow_bind (deliver_tick run d (take_wakeup me k1)) (\<lambda>_ k2.
             Done () (kret SCE_KERNEL_ERROR_OK k2))))"

definition hle_WakeupThread :: "kern \<Rightarrow> kern" where
  "hle_WakeupThread k =
     (case find_thread (karg 0 k) k of
        None \<Rightarrow> kret SCE_KERNEL_ERROR_ILLEGAL_THID k
      | Some i \<Rightarrow> kret SCE_KERNEL_ERROR_OK (upd_thread i (\<lambda>t. t\<lparr>t_wakeups := t_wakeups t + 1\<rparr>) k))"

definition hle_CancelWakeupThread :: "kern \<Rightarrow> kern" where
  "hle_CancelWakeupThread k =
     (case find_thread (karg 0 k) k of
        None \<Rightarrow> kret SCE_KERNEL_ERROR_ILLEGAL_THID k
      | Some i \<Rightarrow> kret (ucast (t_wakeups (g_thread (tm k) ! i))) (upd_thread i (\<lambda>t. t\<lparr>t_wakeups := 0\<rparr>) k))"

definition end_reached :: "nat \<Rightarrow> kern \<Rightarrow> bool" where
  "end_reached i k = t_exited (g_thread (tm k) ! i)"

definition set_end_waits :: "nat option \<Rightarrow> nat list \<Rightarrow> kern \<Rightarrow> kern" where
  "set_end_waits me ws k = (case me of None \<Rightarrow> k | Some m \<Rightarrow> upd_thread m (\<lambda>t. t\<lparr>t_end_waits := ws\<rparr>) k)"

text \<open>
  \<^verbatim>\<open>wait_thread_end\<close> pins the target's record while it waits. The chain the frame links to is the
  one of the waiting thread on entry.
\<close>

definition hle_WaitThreadEnd :: "guest \<Rightarrow> 'f dispatch \<Rightarrow> kern \<Rightarrow> unit flow" where
  "hle_WaitThreadEnd run d k =
     (case find_thread (karg 0 k) k of
        None \<Rightarrow> Done () (kret SCE_KERNEL_ERROR_ILLEGAL_THID k)
      | Some i \<Rightarrow>
          (let me = g_tls_me (tm k);
               prev = (case me of None \<Rightarrow> [] | Some m \<Rightarrow> t_end_waits (g_thread (tm k) ! m));
               k1 = upd_thread i (\<lambda>t. t\<lparr>t_end_waiters := t_end_waiters t + 1\<rparr>) k
           in flow_bind (wait_loop run d (end_reached i) (set_end_waits me (i # prev) k1)) (\<lambda>rc k2.
                let k3 = (if karg 1 k \<noteq> 0 then kwrite32 (karg 1 k) (t_exit_status (g_thread (tm k2) ! i)) k2
                          else k2);
                    k4 = upd_thread i (\<lambda>t. t\<lparr>t_end_waiters := t_end_waiters t - 1\<rparr>) k3
                in Done () (kret rc (set_end_waits (g_tls_me (tm k4)) prev k4)))))"

definition hle_GetThreadExitStatus :: "kern \<Rightarrow> kern" where
  "hle_GetThreadExitStatus k =
     (case find_thread (karg 0 k) k of
        None \<Rightarrow> kret SCE_KERNEL_ERROR_ILLEGAL_THID k
      | Some i \<Rightarrow> kret SCE_KERNEL_ERROR_OK
          (if karg 1 k \<noteq> 0 then kwrite32 (karg 1 k) (t_exit_status (g_thread (tm k) ! i)) k else k))"

definition hle_GetThreadId :: "kern \<Rightarrow> kern" where
  "hle_GetThreadId k =
     kret (case g_current (tm k) of Some i \<Rightarrow> t_uid (g_thread (tm k) ! i) | None \<Rightarrow> 0) k"

definition hle_SuspendThread :: "kern \<Rightarrow> kern" where
  "hle_SuspendThread k =
     (case find_thread (karg 0 k) k of
        None \<Rightarrow> kret SCE_KERNEL_ERROR_ILLEGAL_THID k
      | Some i \<Rightarrow> kret SCE_KERNEL_ERROR_OK (upd_thread i (\<lambda>t. t\<lparr>t_state := TH_SUSPENDED\<rparr>) k))"

definition hle_ResumeThread :: "kern \<Rightarrow> kern" where
  "hle_ResumeThread k =
     (case find_thread (karg 0 k) k of
        None \<Rightarrow> kret SCE_KERNEL_ERROR_ILLEGAL_THID k
      | Some i \<Rightarrow> kret SCE_KERNEL_ERROR_OK (upd_thread i (\<lambda>t. t\<lparr>t_state := TH_READY\<rparr>) k))"

definition hle_ChangeThreadPriority :: "kern \<Rightarrow> kern" where
  "hle_ChangeThreadPriority k =
     (case find_thread (karg 0 k) k of
        None \<Rightarrow> kret SCE_KERNEL_ERROR_ILLEGAL_THID k
      | Some i \<Rightarrow> kret SCE_KERNEL_ERROR_OK (upd_thread i (\<lambda>t. t\<lparr>t_priority := karg 1 k\<rparr>) k))"

definition hle_GetThreadCurrentPriority :: "kern \<Rightarrow> kern" where
  "hle_GetThreadCurrentPriority k =
     kret (case g_current (tm k) of Some i \<Rightarrow> t_priority (g_thread (tm k) ! i) | None \<Rightarrow> 0) k"

definition hle_ChangeCurrentThreadAttr :: "kern \<Rightarrow> kern" where
  "hle_ChangeCurrentThreadAttr k =
     kret SCE_KERNEL_ERROR_OK (case g_current (tm k) of
        Some i \<Rightarrow> upd_thread i (\<lambda>t. t\<lparr>t_attr := (t_attr t AND NOT (karg 0 k)) OR karg 1 k\<rparr>) k
      | None \<Rightarrow> k)"

definition hle_GetThreadStackFreeSize :: "kern \<Rightarrow> kern" where
  "hle_GetThreadStackFreeSize k =
     kret (case find_thread (karg 0 k) k of Some i \<Rightarrow> t_stack_size (g_thread (tm k) ! i)
           | None \<Rightarrow> (case g_current (tm k) of Some i \<Rightarrow> t_stack_size (g_thread (tm k) ! i) | None \<Rightarrow> 0)) k"

section \<open>The clock\<close>

definition now_us :: "kern \<Rightarrow> u64" where
  "now_us k = g_epoch_us (tm k) + g_vtime_us (tm k)"

definition hle_GetSystemTime :: "kern \<Rightarrow> kern" where
  "hle_GetSystemTime k =
     (let out = karg 0 k; us = now_us k in
      kret SCE_KERNEL_ERROR_OK
        (if out \<noteq> 0 then kwrite32 (out + 4) (ucast (drop_bit 32 us)) (kwrite32 out (ucast us) k) else k))"

definition hle_GetSystemTimeWide :: "kern \<Rightarrow> kern" where
  "hle_GetSystemTimeWide k =
     (let us = now_us k in set_gpr PSP_REG_V1 (ucast (drop_bit 32 us)) (set_gpr PSP_REG_V0 (ucast us) k))"

section \<open>Semaphores\<close>

text \<open>
  The counts are \<^verbatim>\<open>int32_t\<close>: kept as words and read as signed. A sum that leaves the signed range
  is undefined in C; the model wraps, and the properties say where no wrap occurs.
\<close>

definition find_sema :: "u32 \<Rightarrow> kern \<Rightarrow> nat option" where
  "find_sema uid k = find_index (\<lambda>s. s_used s \<and> s_uid s = uid) (g_sema (tm k))"

definition upd_sema :: "nat \<Rightarrow> (psp_sema \<Rightarrow> psp_sema) \<Rightarrow> kern \<Rightarrow> kern" where
  "upd_sema i f k = k\<lparr>tm := (tm k)\<lparr>g_sema := (g_sema (tm k))[i := f (g_sema (tm k) ! i)]\<rparr>\<rparr>"

definition hle_CreateSema :: "kern \<Rightarrow> kern" where
  "hle_CreateSema k =
     (case find_index (\<lambda>s. \<not> s_used s) (g_sema (tm k)) of
        None \<Rightarrow> kret SCE_KERNEL_ERROR_NO_MEMORY k
      | Some i \<Rightarrow>
          (let (name, k1) = kname (karg 0 k) k; u = tm_next_uid (tm k);
               s = zero_sema\<lparr>s_name := name, s_count := karg 2 k, s_max_count := karg 3 k,
                     s_uid := u, s_used := True\<rparr>
           in kret u (k1\<lparr>tm := (tm k1)\<lparr>g_sema := (g_sema (tm k1))[i := s], tm_next_uid := u + 1\<rparr>\<rparr>)))"

definition hle_DeleteSema :: "kern \<Rightarrow> kern" where
  "hle_DeleteSema k =
     (case find_sema (karg 0 k) k of
        None \<Rightarrow> kret SCE_KERNEL_ERROR_UNKNOWN_UID k
      | Some i \<Rightarrow> kret SCE_KERNEL_ERROR_OK (upd_sema i (\<lambda>s. s\<lparr>s_used := False\<rparr>) k))"

definition signal_count :: "u32 \<Rightarrow> psp_sema \<Rightarrow> u32" where
  "signal_count n s =
     (let c = s_count s + n in
      if sint (s_max_count s) > 0 \<and> sint c > sint (s_max_count s) then s_max_count s else c)"

definition hle_SignalSema :: "kern \<Rightarrow> kern" where
  "hle_SignalSema k =
     (case find_sema (karg 0 k) k of
        None \<Rightarrow> kret SCE_KERNEL_ERROR_UNKNOWN_UID k
      | Some i \<Rightarrow> kret SCE_KERNEL_ERROR_OK (upd_sema i (\<lambda>s. s\<lparr>s_count := signal_count (karg 1 k) s\<rparr>) k))"

definition sema_ready :: "nat \<Rightarrow> u32 \<Rightarrow> kern \<Rightarrow> bool" where
  "sema_ready i need k \<longleftrightarrow> sint (s_count (g_sema (tm k) ! i)) \<ge> sint need"

definition sema_need :: "u32 \<Rightarrow> u32" where
  "sema_need n = (if sint n < 1 then 1 else n)"

definition take_sema :: "guest \<Rightarrow> 'f dispatch \<Rightarrow> kern \<Rightarrow> u32 flow" where
  "take_sema run d k =
     (case find_sema (karg 0 k) k of
        None \<Rightarrow> Done SCE_KERNEL_ERROR_UNKNOWN_UID k
      | Some i \<Rightarrow>
          (let need = sema_need (karg 1 k) in
           flow_bind (wait_loop run d (sema_ready i need) k) (\<lambda>rc k1.
             Done rc (if rc = SCE_KERNEL_ERROR_OK
                      then upd_sema i (\<lambda>s. s\<lparr>s_count := s_count s - need\<rparr>) k1 else k1))))"

definition hle_WaitSema :: "guest \<Rightarrow> 'f dispatch \<Rightarrow> kern \<Rightarrow> unit flow" where
  "hle_WaitSema run d k = flow_bind (take_sema run d k) (\<lambda>rc k1. Done () (kret rc k1))"

definition hle_PollSema :: "kern \<Rightarrow> kern" where
  "hle_PollSema k =
     (case find_sema (karg 0 k) k of
        None \<Rightarrow> kret SCE_KERNEL_ERROR_UNKNOWN_UID k
      | Some i \<Rightarrow>
          (let need = sema_need (karg 1 k) in
           if sint (s_count (g_sema (tm k) ! i)) < sint need then kret SCE_KERNEL_ERROR_SEMA_ZERO k
           else kret SCE_KERNEL_ERROR_OK (upd_sema i (\<lambda>s. s\<lparr>s_count := s_count s - need\<rparr>) k)))"

definition hle_CancelSema :: "kern \<Rightarrow> kern" where
  "hle_CancelSema k =
     (case find_sema (karg 0 k) k of
        None \<Rightarrow> kret SCE_KERNEL_ERROR_UNKNOWN_UID k
      | Some i \<Rightarrow>
          (let k1 = upd_sema i (\<lambda>s. s\<lparr>s_count := karg 1 k\<rparr>) k in
           kret SCE_KERNEL_ERROR_OK (if karg 2 k \<noteq> 0 then kwrite32 (karg 2 k) 0 k1 else k1)))"

section \<open>Event flags\<close>

definition find_flag :: "u32 \<Rightarrow> kern \<Rightarrow> nat option" where
  "find_flag uid k = find_index (\<lambda>f. f_used f \<and> f_uid f = uid) (g_flag (tm k))"

definition upd_flag :: "nat \<Rightarrow> (psp_evflag \<Rightarrow> psp_evflag) \<Rightarrow> kern \<Rightarrow> kern" where
  "upd_flag i g k = k\<lparr>tm := (tm k)\<lparr>g_flag := (g_flag (tm k))[i := g (g_flag (tm k) ! i)]\<rparr>\<rparr>"

definition hle_CreateEventFlag :: "kern \<Rightarrow> kern" where
  "hle_CreateEventFlag k =
     (case find_index (\<lambda>f. \<not> f_used f) (g_flag (tm k)) of
        None \<Rightarrow> kret SCE_KERNEL_ERROR_NO_MEMORY k
      | Some i \<Rightarrow>
          (let (name, k1) = kname (karg 0 k) k; u = tm_next_uid (tm k);
               f = zero_flag\<lparr>f_name := name, f_pattern := karg 2 k, f_uid := u, f_used := True\<rparr>
           in kret u (k1\<lparr>tm := (tm k1)\<lparr>g_flag := (g_flag (tm k1))[i := f], tm_next_uid := u + 1\<rparr>\<rparr>)))"

definition hle_DeleteEventFlag :: "kern \<Rightarrow> kern" where
  "hle_DeleteEventFlag k =
     (case find_flag (karg 0 k) k of
        None \<Rightarrow> kret SCE_KERNEL_ERROR_UNKNOWN_UID k
      | Some i \<Rightarrow> kret SCE_KERNEL_ERROR_OK (upd_flag i (\<lambda>f. f\<lparr>f_used := False\<rparr>) k))"

definition hle_SetEventFlag :: "kern \<Rightarrow> kern" where
  "hle_SetEventFlag k =
     (case find_flag (karg 0 k) k of
        None \<Rightarrow> kret SCE_KERNEL_ERROR_UNKNOWN_UID k
      | Some i \<Rightarrow> kret SCE_KERNEL_ERROR_OK (upd_flag i (\<lambda>f. f\<lparr>f_pattern := f_pattern f OR karg 1 k\<rparr>) k))"

definition hle_ClearEventFlag :: "kern \<Rightarrow> kern" where
  "hle_ClearEventFlag k =
     (case find_flag (karg 0 k) k of
        None \<Rightarrow> kret SCE_KERNEL_ERROR_UNKNOWN_UID k
      | Some i \<Rightarrow> kret SCE_KERNEL_ERROR_OK (upd_flag i (\<lambda>f. f\<lparr>f_pattern := f_pattern f AND karg 1 k\<rparr>) k))"

abbreviation (input) PSP_EVENT_WAITOR :: u32 where "PSP_EVENT_WAITOR \<equiv> 1"
abbreviation (input) PSP_EVENT_WAITCLEAR :: u32 where "PSP_EVENT_WAITCLEAR \<equiv> 0x20"

definition flag_ready :: "nat \<Rightarrow> u32 \<Rightarrow> u32 \<Rightarrow> kern \<Rightarrow> bool" where
  "flag_ready i bits mode k =
     (if mode AND PSP_EVENT_WAITOR \<noteq> 0 then f_pattern (g_flag (tm k) ! i) AND bits \<noteq> 0
      else f_pattern (g_flag (tm k) ! i) AND bits = bits)"

definition flag_clear :: "nat \<Rightarrow> u32 \<Rightarrow> u32 \<Rightarrow> kern \<Rightarrow> kern" where
  "flag_clear i bits mode k =
     (if mode AND PSP_EVENT_WAITCLEAR \<noteq> 0
      then upd_flag i (\<lambda>f. f\<lparr>f_pattern := f_pattern f AND NOT bits\<rparr>) k else k)"

definition flag_out :: "nat \<Rightarrow> u32 \<Rightarrow> kern \<Rightarrow> kern" where
  "flag_out i out k = (if out \<noteq> 0 then kwrite32 out (f_pattern (g_flag (tm k) ! i)) k else k)"

definition wait_flag :: "guest \<Rightarrow> 'f dispatch \<Rightarrow> kern \<Rightarrow> u32 flow" where
  "wait_flag run d k =
     (case find_flag (karg 0 k) k of
        None \<Rightarrow> Done SCE_KERNEL_ERROR_UNKNOWN_UID k
      | Some i \<Rightarrow>
          flow_bind (wait_loop run d (flag_ready i (karg 1 k) (karg 2 k)) k) (\<lambda>rc k1.
            let k2 = flag_out i (karg 3 k) k1 in
            Done rc (if rc = SCE_KERNEL_ERROR_OK then flag_clear i (karg 1 k) (karg 2 k) k2 else k2)))"

definition hle_WaitEventFlag :: "guest \<Rightarrow> 'f dispatch \<Rightarrow> kern \<Rightarrow> unit flow" where
  "hle_WaitEventFlag run d k = flow_bind (wait_flag run d k) (\<lambda>rc k1. Done () (kret rc k1))"

definition hle_PollEventFlag :: "kern \<Rightarrow> kern" where
  "hle_PollEventFlag k =
     (case find_flag (karg 0 k) k of
        None \<Rightarrow> kret SCE_KERNEL_ERROR_UNKNOWN_UID k
      | Some i \<Rightarrow>
          (let k1 = flag_out i (karg 3 k) k in
           if \<not> flag_ready i (karg 1 k) (karg 2 k) k1 then kret SCE_KERNEL_ERROR_EVF_COND k1
           else kret SCE_KERNEL_ERROR_OK (flag_clear i (karg 1 k) (karg 2 k) k1)))"

section \<open>Variable-size pools\<close>

definition find_vpl :: "u32 \<Rightarrow> kern \<Rightarrow> nat option" where
  "find_vpl uid k = find_index (\<lambda>v. v_used v \<and> v_uid v = uid) (g_vpl (tm k))"

definition upd_vpl :: "nat \<Rightarrow> (psp_vpl \<Rightarrow> psp_vpl) \<Rightarrow> kern \<Rightarrow> kern" where
  "upd_vpl i f k = k\<lparr>tm := (tm k)\<lparr>g_vpl := (g_vpl (tm k))[i := f (g_vpl (tm k) ! i)]\<rparr>\<rparr>"

definition set_blk :: "nat \<Rightarrow> psp_vpl_block \<Rightarrow> kern \<Rightarrow> kern" where
  "set_blk j b k = k\<lparr>tm := (tm k)\<lparr>g_vplblk := (g_vplblk (tm k))[j := b]\<rparr>\<rparr>"

definition drop_blk :: "nat \<Rightarrow> kern \<Rightarrow> kern" where
  "drop_blk j k = set_blk j ((g_vplblk (tm k) ! j)\<lparr>vb_used := False\<rparr>)
     (k\<lparr>sys := psp_sysmem_release (vb_addr (g_vplblk (tm k) ! j)) (sys k)\<rparr>)"

definition hle_CreateVpl :: "kern \<Rightarrow> kern" where
  "hle_CreateVpl k =
     (case find_index (\<lambda>v. \<not> v_used v) (g_vpl (tm k)) of
        None \<Rightarrow> kret SCE_KERNEL_ERROR_NO_MEMORY k
      | Some i \<Rightarrow>
          (let (name, k1) = kname (karg 0 k) k; u = tm_next_uid (tm k);
               v = zero_vpl\<lparr>v_name := name, v_attr := karg 2 k, v_pool_size := karg 3 k,
                     v_free_size := karg 3 k, v_uid := u, v_used := True\<rparr>
           in kret u (k1\<lparr>tm := (tm k1)\<lparr>g_vpl := (g_vpl (tm k1))[i := v], tm_next_uid := u + 1\<rparr>\<rparr>)))"

primrec release_pool :: "u32 \<Rightarrow> nat list \<Rightarrow> kern \<Rightarrow> kern" where
  "release_pool uid [] k = k"
| "release_pool uid (j # js) k =
     release_pool uid js (if vb_used (g_vplblk (tm k) ! j) \<and> vb_vpl (g_vplblk (tm k) ! j) = uid
                          then drop_blk j k else k)"

definition hle_DeleteVpl :: "kern \<Rightarrow> kern" where
  "hle_DeleteVpl k =
     (case find_vpl (karg 0 k) k of
        None \<Rightarrow> kret SCE_KERNEL_ERROR_UNKNOWN_UID k
      | Some i \<Rightarrow> kret SCE_KERNEL_ERROR_OK (upd_vpl i (\<lambda>v. v\<lparr>v_used := False\<rparr>)
          (release_pool (v_uid (g_vpl (tm k) ! i)) [0..<MAX_VPL_BLOCKS] k)))"

definition find_blk :: "u32 \<Rightarrow> u32 \<Rightarrow> kern \<Rightarrow> nat option" where
  "find_blk uid addr k =
     find_index (\<lambda>b. vb_used b \<and> vb_vpl b = uid \<and> vb_addr b = addr) (g_vplblk (tm k))"

definition hle_FreeVpl :: "kern \<Rightarrow> kern" where
  "hle_FreeVpl k =
     (case find_vpl (karg 0 k) k of
        None \<Rightarrow> kret SCE_KERNEL_ERROR_UNKNOWN_UID k
      | Some i \<Rightarrow>
          (case find_blk (v_uid (g_vpl (tm k) ! i)) (karg 1 k) k of
             None \<Rightarrow> kret SCE_KERNEL_ERROR_ILLEGAL_MEMBLOCK k
           | Some j \<Rightarrow> kret SCE_KERNEL_ERROR_OK (drop_blk j
               (upd_vpl i (\<lambda>v. v\<lparr>v_free_size := v_free_size v + vb_size (g_vplblk (tm k) ! j)\<rparr>) k))))"

definition vpl_room :: "nat \<Rightarrow> u32 \<Rightarrow> kern \<Rightarrow> bool" where
  "vpl_room i sz k \<longleftrightarrow> v_free_size (g_vpl (tm k) ! i) \<ge> sz"

text \<open>The block itself, once the pool has room for it.\<close>

definition carve_block :: "nat \<Rightarrow> u32 \<Rightarrow> u32 \<Rightarrow> kern \<Rightarrow> u32 flow" where
  "carve_block i sz outp k =
     (case psp_sysmem_alloc sz False (sys k) of
        None \<Rightarrow> Diverged
      | Some (addr, S) \<Rightarrow>
          if addr = 0 then Done SCE_KERNEL_ERROR_NO_MEMORY k
          else (case find_index (\<lambda>b. \<not> vb_used b) (g_vplblk (tm k)) of
                  None \<Rightarrow> Done SCE_KERNEL_ERROR_NO_MEMORY (k\<lparr>sys := psp_sysmem_release addr S\<rparr>)
                | Some j \<Rightarrow> Done SCE_KERNEL_ERROR_OK (kwrite32 outp addr
                    (upd_vpl i (\<lambda>v. v\<lparr>v_free_size := v_free_size v - sz\<rparr>)
                      (set_blk j \<lparr>vb_vpl = v_uid (g_vpl (tm k) ! i), vb_addr = addr, vb_size = sz,
                                  vb_used = True\<rparr> (k\<lparr>sys := S\<rparr>))))))"

definition take_vpl_block :: "guest \<Rightarrow> 'f dispatch \<Rightarrow> bool \<Rightarrow> kern \<Rightarrow> u32 flow" where
  "take_vpl_block run d blocking k =
     (case find_vpl (karg 0 k) k of
        None \<Rightarrow> Done SCE_KERNEL_ERROR_UNKNOWN_UID k
      | Some i \<Rightarrow>
          (let outp = karg 2 k; tptr = karg 3 k;
               k1 = (if tptr \<noteq> 0 then k\<lparr>mach := snd (psp_read32 tptr (mach k))\<rparr> else k);
               sz = (if karg 1 k = 0 then 1 else karg 1 k)
           in if outp = 0 then Done SCE_KERNEL_ERROR_ILLEGAL_ADDR k1
              else if blocking
              then flow_bind (wait_loop run d (vpl_room i sz) k1) (\<lambda>rc k2.
                     if rc \<noteq> SCE_KERNEL_ERROR_OK then Done rc k2 else carve_block i sz outp k2)
              else if \<not> vpl_room i sz k1 then Done SCE_KERNEL_ERROR_WAIT_TIMEOUT k1
              else carve_block i sz outp k1))"

definition hle_AllocateVpl :: "guest \<Rightarrow> 'f dispatch \<Rightarrow> kern \<Rightarrow> unit flow" where
  "hle_AllocateVpl run d k = flow_bind (take_vpl_block run d True k) (\<lambda>rc k1. Done () (kret rc k1))"

definition hle_TryAllocateVpl :: "guest \<Rightarrow> 'f dispatch \<Rightarrow> kern \<Rightarrow> unit flow" where
  "hle_TryAllocateVpl run d k = flow_bind (take_vpl_block run d False k) (\<lambda>rc k1. Done () (kret rc k1))"

primrec write_name :: "u32 \<Rightarrow> u8 list \<Rightarrow> psp_machine \<Rightarrow> psp_machine" where
  "write_name a [] M = M"
| "write_name a (c # cs) M = write_name (a + 1) cs (psp_write8 a c M)"

definition hle_ReferVplStatus :: "kern \<Rightarrow> kern" where
  "hle_ReferVplStatus k =
     (case find_vpl (karg 0 k) k of
        None \<Rightarrow> kret SCE_KERNEL_ERROR_UNKNOWN_UID k
      | Some i \<Rightarrow>
          (let info = karg 1 k; v = g_vpl (tm k) ! i in
           if info = 0 then kret SCE_KERNEL_ERROR_ILLEGAL_ADDR k
           else kret SCE_KERNEL_ERROR_OK
             (kwrite32 (info + 48) 0 (kwrite32 (info + 44) (v_free_size v)
               (kwrite32 (info + 40) (v_pool_size v) (kwrite32 (info + 36) (v_attr v)
                 (k\<lparr>mach := write_name (info + 4) (v_name v) (mach k)\<rparr>)))))))"

definition hle_CancelVpl :: "kern \<Rightarrow> kern" where
  "hle_CancelVpl k =
     (case find_vpl (karg 0 k) k of
        None \<Rightarrow> kret SCE_KERNEL_ERROR_UNKNOWN_UID k
      | Some i \<Rightarrow> kret SCE_KERNEL_ERROR_OK (if karg 1 k \<noteq> 0 then kwrite32 (karg 1 k) 0 k else k))"

section \<open>The firmware calls by name\<close>

text \<open>
  A constructor per handler of \<^verbatim>\<open>psp_threadman_register\<close> and \<^verbatim>\<open>psp_intrman_register\<close>, and what the
  handler does.
\<close>

datatype syscall = Sys_CreateThread | Sys_StartThread | Sys_ExitThread | Sys_ExitDeleteThread
    | Sys_TerminateThread | Sys_DeleteThread | Sys_DelayThread | Sys_SleepThread
    | Sys_WakeupThread | Sys_CancelWakeupThread | Sys_WaitThreadEnd | Sys_GetThreadExitStatus
    | Sys_GetThreadId | Sys_SuspendThread | Sys_ResumeThread | Sys_ChangeThreadPriority
    | Sys_GetThreadCurrentPriority | Sys_ChangeCurrentThreadAttr | Sys_GetThreadStackFreeSize
    | Sys_GetSystemTime | Sys_GetSystemTimeWide | Sys_CreateSema | Sys_DeleteSema | Sys_SignalSema
    | Sys_WaitSema | Sys_PollSema | Sys_CancelSema | Sys_CreateEventFlag | Sys_DeleteEventFlag
    | Sys_SetEventFlag | Sys_ClearEventFlag | Sys_WaitEventFlag | Sys_PollEventFlag
    | Sys_CreateVpl | Sys_DeleteVpl | Sys_AllocateVpl | Sys_TryAllocateVpl | Sys_FreeVpl
    | Sys_ReferVplStatus | Sys_CancelVpl | Sys_CreateCallback | Sys_DeleteCallback
    | Sys_NotifyCallback | Sys_CheckCallback | Sys_RegisterSubIntrHandler
    | Sys_ReleaseSubIntrHandler | Sys_EnableSubIntr

primrec tm_call :: "guest \<Rightarrow> 'f dispatch \<Rightarrow> syscall \<Rightarrow> kern \<Rightarrow> unit flow" where
  "tm_call run d Sys_CreateThread k = hle_CreateThread k"
| "tm_call run d Sys_StartThread k = hle_StartThread run k"
| "tm_call run d Sys_ExitThread k = hle_ExitThread k"
| "tm_call run d Sys_ExitDeleteThread k = hle_ExitDeleteThread k"
| "tm_call run d Sys_TerminateThread k = Done () (hle_TerminateThread k)"
| "tm_call run d Sys_DeleteThread k = Done () (hle_DeleteThread k)"
| "tm_call run d Sys_DelayThread k = hle_DelayThread run d k"
| "tm_call run d Sys_SleepThread k = hle_SleepThread run d k"
| "tm_call run d Sys_WakeupThread k = Done () (hle_WakeupThread k)"
| "tm_call run d Sys_CancelWakeupThread k = Done () (hle_CancelWakeupThread k)"
| "tm_call run d Sys_WaitThreadEnd k = hle_WaitThreadEnd run d k"
| "tm_call run d Sys_GetThreadExitStatus k = Done () (hle_GetThreadExitStatus k)"
| "tm_call run d Sys_GetThreadId k = Done () (hle_GetThreadId k)"
| "tm_call run d Sys_SuspendThread k = Done () (hle_SuspendThread k)"
| "tm_call run d Sys_ResumeThread k = Done () (hle_ResumeThread k)"
| "tm_call run d Sys_ChangeThreadPriority k = Done () (hle_ChangeThreadPriority k)"
| "tm_call run d Sys_GetThreadCurrentPriority k = Done () (hle_GetThreadCurrentPriority k)"
| "tm_call run d Sys_ChangeCurrentThreadAttr k = Done () (hle_ChangeCurrentThreadAttr k)"
| "tm_call run d Sys_GetThreadStackFreeSize k = Done () (hle_GetThreadStackFreeSize k)"
| "tm_call run d Sys_GetSystemTime k = Done () (hle_GetSystemTime k)"
| "tm_call run d Sys_GetSystemTimeWide k = Done () (hle_GetSystemTimeWide k)"
| "tm_call run d Sys_CreateSema k = Done () (hle_CreateSema k)"
| "tm_call run d Sys_DeleteSema k = Done () (hle_DeleteSema k)"
| "tm_call run d Sys_SignalSema k = Done () (hle_SignalSema k)"
| "tm_call run d Sys_WaitSema k = hle_WaitSema run d k"
| "tm_call run d Sys_PollSema k = Done () (hle_PollSema k)"
| "tm_call run d Sys_CancelSema k = Done () (hle_CancelSema k)"
| "tm_call run d Sys_CreateEventFlag k = Done () (hle_CreateEventFlag k)"
| "tm_call run d Sys_DeleteEventFlag k = Done () (hle_DeleteEventFlag k)"
| "tm_call run d Sys_SetEventFlag k = Done () (hle_SetEventFlag k)"
| "tm_call run d Sys_ClearEventFlag k = Done () (hle_ClearEventFlag k)"
| "tm_call run d Sys_WaitEventFlag k = hle_WaitEventFlag run d k"
| "tm_call run d Sys_PollEventFlag k = Done () (hle_PollEventFlag k)"
| "tm_call run d Sys_CreateVpl k = Done () (hle_CreateVpl k)"
| "tm_call run d Sys_DeleteVpl k = Done () (hle_DeleteVpl k)"
| "tm_call run d Sys_AllocateVpl k = hle_AllocateVpl run d k"
| "tm_call run d Sys_TryAllocateVpl k = hle_TryAllocateVpl run d k"
| "tm_call run d Sys_FreeVpl k = Done () (hle_FreeVpl k)"
| "tm_call run d Sys_ReferVplStatus k = Done () (hle_ReferVplStatus k)"
| "tm_call run d Sys_CancelVpl k = Done () (hle_CancelVpl k)"
| "tm_call run d Sys_CreateCallback k = Done () (hle_CreateCallback k)"
| "tm_call run d Sys_DeleteCallback k = Done () (hle_DeleteCallback k)"
| "tm_call run d Sys_NotifyCallback k = Done () (hle_NotifyCallback k)"
| "tm_call run d Sys_CheckCallback k = hle_CheckCallback run d k"
| "tm_call run d Sys_RegisterSubIntrHandler k = Done () (hle_RegisterSubIntrHandler k)"
| "tm_call run d Sys_ReleaseSubIntrHandler k = Done () (hle_ReleaseSubIntrHandler k)"
| "tm_call run d Sys_EnableSubIntr k = Done () (hle_EnableSubIntr k)"

type_synonym hle_row = "u32 \<times> string \<times> syscall"

definition threadman_rows :: "hle_row list" where
  "threadman_rows =
    [(0x446D8DE6, ''sceKernelCreateThread'', Sys_CreateThread),
     (0xF475845D, ''sceKernelStartThread'', Sys_StartThread),
     (0xAA73C935, ''sceKernelExitThread'', Sys_ExitThread),
     (0x809CE29B, ''sceKernelExitDeleteThread'', Sys_ExitDeleteThread),
     (0x616403BA, ''sceKernelTerminateThread'', Sys_TerminateThread),
     (0x9FA03CD3, ''sceKernelDeleteThread'', Sys_DeleteThread),
     (0xCEADEB47, ''sceKernelDelayThread'', Sys_DelayThread),
     (0x68DA9E36, ''sceKernelDelayThreadCB'', Sys_DelayThread),
     (0x9ACE131E, ''sceKernelSleepThread'', Sys_SleepThread),
     (0x82826F70, ''sceKernelSleepThreadCB'', Sys_SleepThread),
     (0xD59EAD2F, ''sceKernelWakeupThread'', Sys_WakeupThread),
     (0xFCCFAD26, ''sceKernelCancelWakeupThread'', Sys_CancelWakeupThread),
     (0x278C0DF5, ''sceKernelWaitThreadEnd'', Sys_WaitThreadEnd),
     (0x840E8133, ''sceKernelWaitThreadEndCB'', Sys_WaitThreadEnd),
     (0x3B183E26, ''sceKernelGetThreadExitStatus'', Sys_GetThreadExitStatus),
     (0x293B45B8, ''sceKernelGetThreadId'', Sys_GetThreadId),
     (0x9944F31F, ''sceKernelSuspendThread'', Sys_SuspendThread),
     (0x75156E8F, ''sceKernelResumeThread'', Sys_ResumeThread),
     (0x71BC9871, ''sceKernelChangeThreadPriority'', Sys_ChangeThreadPriority),
     (0x94AA61EE, ''sceKernelGetThreadCurrentPriority'', Sys_GetThreadCurrentPriority),
     (0xEA748E31, ''sceKernelChangeCurrentThreadAttr'', Sys_ChangeCurrentThreadAttr),
     (0x52089CA1, ''sceKernelGetThreadStackFreeSize'', Sys_GetThreadStackFreeSize),
     (0xDB738F35, ''sceKernelGetSystemTime'', Sys_GetSystemTime),
     (0x82BC5777, ''sceKernelGetSystemTimeWide'', Sys_GetSystemTimeWide),
     (0xD6DA4BA1, ''sceKernelCreateSema'', Sys_CreateSema),
     (0x28B6489C, ''sceKernelDeleteSema'', Sys_DeleteSema),
     (0x3F53E640, ''sceKernelSignalSema'', Sys_SignalSema),
     (0x4E3A1105, ''sceKernelWaitSema'', Sys_WaitSema),
     (0x58B1F937, ''sceKernelPollSema'', Sys_PollSema),
     (0x8FFDF9A2, ''sceKernelCancelSema'', Sys_CancelSema),
     (0x55C20A00, ''sceKernelCreateEventFlag'', Sys_CreateEventFlag),
     (0xEF9E4C70, ''sceKernelDeleteEventFlag'', Sys_DeleteEventFlag),
     (0x1FB15A32, ''sceKernelSetEventFlag'', Sys_SetEventFlag),
     (0x812346E4, ''sceKernelClearEventFlag'', Sys_ClearEventFlag),
     (0x402FCF22, ''sceKernelWaitEventFlag'', Sys_WaitEventFlag),
     (0x30FD48F0, ''sceKernelPollEventFlag'', Sys_PollEventFlag),
     (0x56C039B5, ''sceKernelCreateVpl'', Sys_CreateVpl),
     (0x89B3D48C, ''sceKernelDeleteVpl'', Sys_DeleteVpl),
     (0xBED27435, ''sceKernelAllocateVpl'', Sys_AllocateVpl),
     (0xEC0A693F, ''sceKernelAllocateVplCB'', Sys_AllocateVpl),
     (0xAF36D708, ''sceKernelTryAllocateVpl'', Sys_TryAllocateVpl),
     (0xB736E9FF, ''sceKernelFreeVpl'', Sys_FreeVpl),
     (0x39810265, ''sceKernelReferVplStatus'', Sys_ReferVplStatus),
     (0x1D371B8A, ''sceKernelCancelVpl'', Sys_CancelVpl),
     (0xE81CAF8F, ''sceKernelCreateCallback'', Sys_CreateCallback),
     (0xEDBA5844, ''sceKernelDeleteCallback'', Sys_DeleteCallback),
     (0xC11BA8C4, ''sceKernelNotifyCallback'', Sys_NotifyCallback),
     (0x349D6D6C, ''sceKernelCheckCallback'', Sys_CheckCallback)]"

definition intrman_rows :: "hle_row list" where
  "intrman_rows =
    [(0xCA04A2B9, ''sceKernelRegisterSubIntrHandler'', Sys_RegisterSubIntrHandler),
     (0xD61E6961, ''sceKernelReleaseSubIntrHandler'', Sys_ReleaseSubIntrHandler),
     (0xFB8E22EC, ''sceKernelEnableSubIntr'', Sys_EnableSubIntr)]"

definition psp_threadman_register :: "syscall hle_state \<Rightarrow> syscall hle_state" where
  "psp_threadman_register h =
     fold (\<lambda>(nid, name, f). psp_hle_register nid ''ThreadManForUser'' (Some name) f) threadman_rows h"

definition psp_intrman_register :: "syscall hle_state \<Rightarrow> syscall hle_state" where
  "psp_intrman_register h =
     fold (\<lambda>(nid, name, f). psp_hle_register nid ''InterruptManager'' (Some name) f) intrman_rows h"

end
