(* ===== verification/TmInv.thy ===== *)
theory TmInv
  imports Threadman
begin

unbundle bit_operations_syntax

text \<open>
  The invariant of the thread manager. Every kernel object lives in a fixed table and is named by a
  uid; the locale \<open>obj_table\<close> states what the five tables have in common, once. On top of it the
  pools' accounting: what a pool has left and what it has handed out add up to its size. Every
  firmware call keeps the invariant, provided the guest code it runs does, and so does every
  execution of guest code that only acts through firmware calls.
\<close>

section \<open>Tables of named objects\<close>

definition obj_ok :: "('o \<Rightarrow> bool) \<Rightarrow> ('o \<Rightarrow> u32) \<Rightarrow> u32 \<Rightarrow> 'o list \<Rightarrow> bool" where
  "obj_ok used uid n xs \<longleftrightarrow>
     (\<forall>i<length xs. uid (xs ! i) < n \<and> (used (xs ! i) \<longrightarrow> uid (xs ! i) \<noteq> 0)) \<and>
     (\<forall>i<length xs. \<forall>j<length xs. i \<noteq> j \<and> used (xs ! i) \<longrightarrow> uid (xs ! i) \<noteq> uid (xs ! j))"

definition obj_map :: "('o \<Rightarrow> bool) \<Rightarrow> ('o \<Rightarrow> u32) \<Rightarrow> 'o list \<Rightarrow> u32 \<Rightarrow> 'o option" where
  "obj_map used uid xs u = map_option (\<lambda>i. xs ! i) (find_index (\<lambda>x. used x \<and> uid x = u) xs)"

locale obj_table =
  fixes used :: "'o \<Rightarrow> bool" and uid :: "'o \<Rightarrow> u32" and clear :: "'o \<Rightarrow> 'o" and zero :: 'o
  assumes clear_used: "\<not> used (clear x)" and clear_uid: "uid (clear x) = uid x"
    and zero_used: "\<not> used zero" and zero_uid: "uid zero = 0"
begin

lemma ok_mono:
  assumes "obj_ok used uid n xs" and "n < 0xFFFFFFFF"
  shows "obj_ok used uid (n + 1) xs"
proof -
  have "x < n \<Longrightarrow> x < n + 1" for x using assms(2)
    by (simp add: word_less_nat_alt unat_word_ariths)
  then show ?thesis using assms(1) by (simp add: obj_ok_def)
qed

lemma ok_put:
  assumes ok: "obj_ok used uid n xs" and n: "0 < n" "n < 0xFFFFFFFF" and x: "uid x = n"
  shows "obj_ok used uid (n + 1) (xs[i := x])"
proof -
  have lt: "y < n \<Longrightarrow> y < n + 1" "n < n + 1" for y using n(2)
    by (simp_all add: word_less_nat_alt unat_word_ariths)
  show ?thesis
  proof (cases "i < length xs")
    case True
    then show ?thesis using ok n x lt unfolding obj_ok_def by (auto simp: nth_list_update)
  next
    case False
    then show ?thesis using ok_mono [OF ok n(2)] by (simp add: list_update_beyond)
  qed
qed

lemma ok_upd:
  assumes "obj_ok used uid n xs" and "i < length xs \<Longrightarrow> uid x = uid (xs ! i)"
    and "i < length xs \<Longrightarrow> used x \<Longrightarrow> used (xs ! i)"
  shows "obj_ok used uid n (xs[i := x])"
  using assms unfolding obj_ok_def by (cases "i < length xs") (auto simp: nth_list_update)

lemma ok_clear: "obj_ok used uid n xs \<Longrightarrow> obj_ok used uid n (xs[i := clear (xs ! i)])"
  by (rule ok_upd) (simp_all add: clear_used clear_uid)

lemma ok_zero:
  assumes "obj_ok used uid n xs" and "0 < n" and "uid x = 0" and "\<not> used x"
  shows "obj_ok used uid n (xs[i := x])"
  using assms unfolding obj_ok_def by (cases "i < length xs") (auto simp: nth_list_update)

lemma ok_fresh: "0 < n \<Longrightarrow> obj_ok used uid n (replicate m zero)"
  by (simp add: obj_ok_def zero_used zero_uid)

lemma ok_inj:
  "obj_ok used uid n xs \<Longrightarrow> i < length xs \<Longrightarrow> j < length xs \<Longrightarrow> used (xs ! i) \<Longrightarrow>
     uid (xs ! j) = uid (xs ! i) \<Longrightarrow> j = i"
  unfolding obj_ok_def by metis

lemma map_slot:
  assumes ok: "obj_ok used uid n xs" and i: "i < length xs" "used (xs ! i)"
  shows "find_index (\<lambda>x. used x \<and> uid x = uid (xs ! i)) xs = Some i"
  using assms by (intro find_index_SomeI) (auto simp: obj_ok_def)

lemma map_slot_iff:
  assumes "obj_ok used uid n xs"
  shows "obj_map used uid xs u = Some y \<longleftrightarrow> (\<exists>i<length xs. used (xs ! i) \<and> uid (xs ! i) = u \<and> xs ! i = y)"
  using map_slot [OF assms] by (auto simp: obj_map_def dest: find_index_SomeD)

lemma map_ext:
  assumes ok: "obj_ok used uid n xs"
    and m: "\<And>u y. m u = Some y \<longleftrightarrow> (\<exists>i<length xs. used (xs ! i) \<and> uid (xs ! i) = u \<and> xs ! i = y)"
  shows "obj_map used uid xs = m"
proof
  fix u
  have "obj_map used uid xs u = Some y \<longleftrightarrow> m u = Some y" for y by (simp only: map_slot_iff [OF ok] m)
  then show "obj_map used uid xs u = m u" by (metis option.exhaust)
qed

text \<open>Creation in a free slot adds the new uid, an update in place changes one entry, a deletion removes it.\<close>

lemma map_put:
  assumes ok: "obj_ok used uid n xs" and n: "0 < n" "n < 0xFFFFFFFF"
    and i: "i < length xs" "\<not> used (xs ! i)" and x: "uid x = n" "used x"
  shows "obj_map used uid (xs[i := x]) = (obj_map used uid xs)(n \<mapsto> x)"
proof (rule map_ext [OF ok_put [OF ok n x(1)]])
  fix u y
  have "uid (xs ! j) \<noteq> n" if "j < length xs" for j using ok that by (auto simp: obj_ok_def)
  then show "((obj_map used uid xs)(n \<mapsto> x)) u = Some y \<longleftrightarrow>
      (\<exists>j<length (xs[i := x]). used (xs[i := x] ! j) \<and> uid (xs[i := x] ! j) = u \<and> xs[i := x] ! j = y)"
    using i x map_slot_iff [OF ok] by (auto simp: nth_list_update split: if_splits) metis+
qed

lemma map_upd:
  assumes ok: "obj_ok used uid n xs" and i: "i < length xs" "used (xs ! i)" and x: "uid x = uid (xs ! i)" "used x"
  shows "obj_map used uid (xs[i := x]) = (obj_map used uid xs)(uid x \<mapsto> x)"
proof (rule map_ext)
  show "obj_ok used uid n (xs[i := x])" by (rule ok_upd [OF ok]) (simp_all add: x i)
  fix u y
  have "j = i" if "j < length xs" "uid (xs ! j) = uid x" for j
    using ok_inj [OF ok i(1) that(1) i(2)] that(2) x(1) by simp
  then show "((obj_map used uid xs)(uid x \<mapsto> x)) u = Some y \<longleftrightarrow>
      (\<exists>j<length (xs[i := x]). used (xs[i := x] ! j) \<and> uid (xs[i := x] ! j) = u \<and> xs[i := x] ! j = y)"
    using i x map_slot_iff [OF ok] by (auto simp: nth_list_update split: if_splits)
qed

lemma map_clear:
  assumes ok: "obj_ok used uid n xs" and i: "i < length xs" "used (xs ! i)"
  shows "obj_map used uid (xs[i := clear (xs ! i)]) = (obj_map used uid xs)(uid (xs ! i) := None)"
proof (rule map_ext [OF ok_clear [OF ok]])
  fix u y
  have "j = i" if "j < length xs" "uid (xs ! j) = uid (xs ! i)" for j
    using ok_inj [OF ok i(1) that(1) i(2)] that(2) by simp
  then show "((obj_map used uid xs)(uid (xs ! i) := None)) u = Some y \<longleftrightarrow>
      (\<exists>j<length (xs[i := clear (xs ! i)]). used (xs[i := clear (xs ! i)] ! j) \<and>
         uid (xs[i := clear (xs ! i)] ! j) = u \<and> xs[i := clear (xs ! i)] ! j = y)"
    using i map_slot_iff [OF ok] clear_used by (auto simp: nth_list_update split: if_splits) metis+
qed

end

interpretation th_tab: obj_table t_used t_uid "\<lambda>t. t\<lparr>t_used := False\<rparr>" zero_thread
  by unfold_locales (simp_all add: zero_thread_def)

interpretation sema_tab: obj_table s_used s_uid "\<lambda>s. s\<lparr>s_used := False\<rparr>" zero_sema
  by unfold_locales (simp_all add: zero_sema_def)

interpretation flag_tab: obj_table f_used f_uid "\<lambda>f. f\<lparr>f_used := False\<rparr>" zero_flag
  by unfold_locales (simp_all add: zero_flag_def)

interpretation cb_tab: obj_table c_used c_uid "\<lambda>c. c\<lparr>c_used := False\<rparr>" zero_cb
  by unfold_locales (simp_all add: zero_cb_def)

interpretation vpl_tab: obj_table v_used v_uid "\<lambda>v. v\<lparr>v_used := False\<rparr>" zero_vpl
  by unfold_locales (simp_all add: zero_vpl_def)

section \<open>The invariant\<close>

definition blk_of :: "u32 \<Rightarrow> psp_vpl_block \<Rightarrow> nat" where
  "blk_of u b = (if vb_used b \<and> vb_vpl b = u then unat (vb_size b) else 0)"

definition blk_sum :: "u32 \<Rightarrow> psp_vpl_block list \<Rightarrow> nat" where
  "blk_sum u bs = sum_list (map (blk_of u) bs)"

definition pools_ok :: "threadman \<Rightarrow> bool" where
  "pools_ok T \<longleftrightarrow>
     (\<forall>i<length (g_vpl T). v_used (g_vpl T ! i) \<longrightarrow>
        unat (v_free_size (g_vpl T ! i)) + blk_sum (v_uid (g_vpl T ! i)) (g_vplblk T) =
        unat (v_pool_size (g_vpl T ! i))) \<and>
     (\<forall>b\<in>set (g_vplblk T). vb_used b \<longrightarrow> vb_vpl b < tm_next_uid T)"

definition tabs_ok :: "threadman \<Rightarrow> bool" where
  "tabs_ok T \<longleftrightarrow>
     length (g_thread T) = MAX_THREADS \<and> length (g_sema T) = MAX_SEMAS \<and>
     length (g_flag T) = MAX_FLAGS \<and> length (g_cb T) = MAX_CBS \<and> length (g_vpl T) = MAX_VPLS \<and>
     length (g_vplblk T) = MAX_VPL_BLOCKS \<and> 0 < tm_next_uid T \<and>
     obj_ok t_used t_uid (tm_next_uid T) (g_thread T) \<and>
     obj_ok s_used s_uid (tm_next_uid T) (g_sema T) \<and>
     obj_ok f_used f_uid (tm_next_uid T) (g_flag T) \<and>
     obj_ok c_used c_uid (tm_next_uid T) (g_cb T) \<and>
     obj_ok v_used v_uid (tm_next_uid T) (g_vpl T)"

definition tm_inv :: "kern \<Rightarrow> bool" where
  "tm_inv k \<longleftrightarrow> tabs_ok (tm k) \<and> pools_ok (tm k)"

lemma tm_frame [simp]:
  "tm (kret x k) = tm k" "tm (kwrite32 a v k) = tm k" "tm (set_gpr r v k) = tm k"
  "tm (set_cpu c k) = tm k" "tm (snd (kname a k)) = tm k" "tm (enter_regs a b k) = tm k"
  "tm (note_unresolved k) = tm k"
  by (simp_all add: kret_def kwrite32_def set_gpr_def set_cpu_def kname_def enter_regs_def
      note_unresolved_def case_prod_unfold Let_def)

lemma upd_thread_uid [simp]: "tm_next_uid (tm (upd_thread i f k)) = tm_next_uid (tm k)"
  by (simp add: upd_thread_def)

lemma tm_inv_cong: "tm k' = tm k \<Longrightarrow> tm_inv k' = tm_inv k"
  by (simp add: tm_inv_def)

lemma blk_sum_update:
  assumes "j < length bs"
  shows "blk_sum u (bs[j := b]) + blk_of u (bs ! j) = blk_sum u bs + blk_of u b"
proof -
  have "blk_of u (bs ! j) \<le> sum_list (map (blk_of u) bs)"
    using assms by (intro member_le_sum_list) auto
  then show ?thesis using assms by (simp add: blk_sum_def map_update sum_list_update)
qed

lemma blk_sum_none: "\<forall>b\<in>set bs. vb_used b \<longrightarrow> vb_vpl b \<noteq> u \<Longrightarrow> blk_sum u bs = 0"
  by (induction bs) (auto simp: blk_sum_def blk_of_def)

text \<open>What the operations do to one table.\<close>

lemma inv_thread:
  assumes "tm_inv k" and "t_uid (f (g_thread (tm k) ! i)) = t_uid (g_thread (tm k) ! i)"
    and "t_used (f (g_thread (tm k) ! i)) \<longrightarrow> t_used (g_thread (tm k) ! i)"
  shows "tm_inv (upd_thread i f k)"
  using assms th_tab.ok_upd [of "tm_next_uid (tm k)" "g_thread (tm k)" i "f (g_thread (tm k) ! i)"]
  by (simp add: tm_inv_def tabs_ok_def pools_ok_def upd_thread_def)

lemma inv_cb:
  assumes "tm_inv k" and "c_uid (f (g_cb (tm k) ! i)) = c_uid (g_cb (tm k) ! i)"
    and "c_used (f (g_cb (tm k) ! i)) \<longrightarrow> c_used (g_cb (tm k) ! i)"
  shows "tm_inv (upd_cb i f k)"
  using assms cb_tab.ok_upd [of "tm_next_uid (tm k)" "g_cb (tm k)" i "f (g_cb (tm k) ! i)"]
  by (simp add: tm_inv_def tabs_ok_def pools_ok_def upd_cb_def)

lemma inv_sema:
  assumes "tm_inv k" and "s_uid (f (g_sema (tm k) ! i)) = s_uid (g_sema (tm k) ! i)"
    and "s_used (f (g_sema (tm k) ! i)) \<longrightarrow> s_used (g_sema (tm k) ! i)"
  shows "tm_inv (upd_sema i f k)"
  using assms sema_tab.ok_upd [of "tm_next_uid (tm k)" "g_sema (tm k)" i "f (g_sema (tm k) ! i)"]
  by (simp add: tm_inv_def tabs_ok_def pools_ok_def upd_sema_def)

lemma inv_flag:
  assumes "tm_inv k" and "f_uid (f (g_flag (tm k) ! i)) = f_uid (g_flag (tm k) ! i)"
    and "f_used (f (g_flag (tm k) ! i)) \<longrightarrow> f_used (g_flag (tm k) ! i)"
  shows "tm_inv (upd_flag i f k)"
  using assms flag_tab.ok_upd [of "tm_next_uid (tm k)" "g_flag (tm k)" i "f (g_flag (tm k) ! i)"]
  by (simp add: tm_inv_def tabs_ok_def pools_ok_def upd_flag_def)

text \<open>The fields outside the tables do not matter.\<close>

lemma inv_fields [simp]:
  "tm_inv (k\<lparr>mach := M\<rparr>) = tm_inv k" "tm_inv (k\<lparr>sys := S\<rparr>) = tm_inv k" "tm_inv (k\<lparr>im := I\<rparr>) = tm_inv k"
  "tm_inv (kret x k) = tm_inv k" "tm_inv (kwrite32 a v k) = tm_inv k" "tm_inv (set_gpr r v k) = tm_inv k"
  "tm_inv (set_cpu c k) = tm_inv k" "tm_inv (snd (kname a k)) = tm_inv k"
  "tm_inv (enter_regs a b k) = tm_inv k" "tm_inv (note_unresolved k) = tm_inv k"
  by (simp_all add: tm_inv_def)

lemma inv_tm_fields [simp]:
  "tm_inv (k\<lparr>tm := T\<lparr>g_cb_delivering := b\<rparr>\<rparr>) = tm_inv (k\<lparr>tm := T\<rparr>)"
  "tm_inv (k\<lparr>tm := T\<lparr>g_cb_deliveries := n\<rparr>\<rparr>) = tm_inv (k\<lparr>tm := T\<rparr>)"
  "tm_inv (k\<lparr>tm := T\<lparr>g_cb_unresolved := n\<rparr>\<rparr>) = tm_inv (k\<lparr>tm := T\<rparr>)"
  "tm_inv (k\<lparr>tm := T\<lparr>g_cb_unresolved_logged := n\<rparr>\<rparr>) = tm_inv (k\<lparr>tm := T\<rparr>)"
  "tm_inv (k\<lparr>tm := T\<lparr>g_cb_deliver_deferred := n\<rparr>\<rparr>) = tm_inv (k\<lparr>tm := T\<rparr>)"
  "tm_inv (k\<lparr>tm := T\<lparr>g_wait_gaveup := n\<rparr>\<rparr>) = tm_inv (k\<lparr>tm := T\<rparr>)"
  "tm_inv (k\<lparr>tm := T\<lparr>g_vtime_us := n\<rparr>\<rparr>) = tm_inv (k\<lparr>tm := T\<rparr>)"
  "tm_inv (k\<lparr>tm := T\<lparr>g_started := n\<rparr>\<rparr>) = tm_inv (k\<lparr>tm := T\<rparr>)"
  "tm_inv (k\<lparr>tm := T\<lparr>g_created := n\<rparr>\<rparr>) = tm_inv (k\<lparr>tm := T\<rparr>)"
  "tm_inv (k\<lparr>tm := T\<lparr>g_current := c\<rparr>\<rparr>) = tm_inv (k\<lparr>tm := T\<rparr>)"
  "tm_inv (k\<lparr>tm := T\<lparr>g_tls_me := c\<rparr>\<rparr>) = tm_inv (k\<lparr>tm := T\<rparr>)"
  "tm_inv (k\<lparr>tm := T\<lparr>g_tls_intr_depth := i\<rparr>\<rparr>) = tm_inv (k\<lparr>tm := T\<rparr>)"
  "tm_inv (k\<lparr>tm := tm k'\<rparr>) = tm_inv k'"
  by (simp_all add: tm_inv_def tabs_ok_def pools_ok_def)

section \<open>Creating objects\<close>

lemma inv_next_uid:
  "tm_inv k \<Longrightarrow> tm_next_uid (tm k) < 0xFFFFFFFF \<Longrightarrow> 0 < tm_next_uid (tm k) + 1 \<and> tm_next_uid (tm k) < tm_next_uid (tm k) + 1"
  by (simp add: word_less_nat_alt unat_word_ariths)

lemmas tab_monos = th_tab.ok_mono sema_tab.ok_mono flag_tab.ok_mono cb_tab.ok_mono vpl_tab.ok_mono

lemma pools_mono:
  assumes "pools_ok T" and "tm_next_uid T < 0xFFFFFFFF" and "g_vpl T' = g_vpl T" and "g_vplblk T' = g_vplblk T"
    and "tm_next_uid T' = tm_next_uid T + 1"
  shows "pools_ok T'"
proof -
  have "x < tm_next_uid T \<Longrightarrow> x < tm_next_uid T + 1" for x using assms(2)
    by (simp add: word_less_nat_alt unat_word_ariths)
  then show ?thesis using assms by (simp add: pools_ok_def)
qed

lemma inv_new_sema:
  assumes inv: "tm_inv k" and n: "tm_next_uid (tm k) < 0xFFFFFFFF" and s: "s_uid s = tm_next_uid (tm k)"
  shows "tm_inv (k\<lparr>tm := (tm k)\<lparr>g_sema := (g_sema (tm k))[i := s], tm_next_uid := tm_next_uid (tm k) + 1\<rparr>\<rparr>)"
  using inv n inv_next_uid [OF inv n] sema_tab.ok_put [OF _ _ n s]
  by (auto simp: tm_inv_def tabs_ok_def intro: tab_monos pools_mono [of "tm k"])

lemma inv_new_flag:
  assumes inv: "tm_inv k" and n: "tm_next_uid (tm k) < 0xFFFFFFFF" and s: "f_uid s = tm_next_uid (tm k)"
  shows "tm_inv (k\<lparr>tm := (tm k)\<lparr>g_flag := (g_flag (tm k))[i := s], tm_next_uid := tm_next_uid (tm k) + 1\<rparr>\<rparr>)"
  using inv n inv_next_uid [OF inv n] flag_tab.ok_put [OF _ _ n s]
  by (auto simp: tm_inv_def tabs_ok_def intro: tab_monos pools_mono [of "tm k"])

lemma inv_new_cb:
  assumes inv: "tm_inv k" and n: "tm_next_uid (tm k) < 0xFFFFFFFF" and s: "c_uid s = tm_next_uid (tm k)"
  shows "tm_inv (k\<lparr>tm := (tm k)\<lparr>g_cb := (g_cb (tm k))[i := s], tm_next_uid := tm_next_uid (tm k) + 1\<rparr>\<rparr>)"
  using inv n inv_next_uid [OF inv n] cb_tab.ok_put [OF _ _ n s]
  by (auto simp: tm_inv_def tabs_ok_def intro: tab_monos pools_mono [of "tm k"])

lemma inv_new_thread:
  assumes inv: "tm_inv k" and n: "tm_next_uid (tm k) < 0xFFFFFFFF" and s: "t_uid s = tm_next_uid (tm k)"
  shows "tm_inv (k\<lparr>tm := (tm k)\<lparr>g_thread := (g_thread (tm k))[i := s], tm_next_uid := tm_next_uid (tm k) + 1\<rparr>\<rparr>)"
  using inv n inv_next_uid [OF inv n] th_tab.ok_put [OF _ _ n s]
  by (auto simp: tm_inv_def tabs_ok_def intro: tab_monos pools_mono [of "tm k"])

text \<open>No block belongs to a new pool: the blocks' uids are old ones.\<close>

lemma inv_new_vpl:
  assumes inv: "tm_inv k" and n: "tm_next_uid (tm k) < 0xFFFFFFFF"
    and v: "v_uid v = tm_next_uid (tm k)" "v_free_size v = v_pool_size v"
  shows "tm_inv (k\<lparr>tm := (tm k)\<lparr>g_vpl := (g_vpl (tm k))[i := v], tm_next_uid := tm_next_uid (tm k) + 1\<rparr>\<rparr>)"
proof -
  let ?T = "(tm k)\<lparr>g_vpl := (g_vpl (tm k))[i := v], tm_next_uid := tm_next_uid (tm k) + 1\<rparr>"
  have "\<forall>b\<in>set (g_vplblk (tm k)). vb_used b \<longrightarrow> vb_vpl b \<noteq> v_uid v"
    using inv v by (auto simp: tm_inv_def pools_ok_def)
  then have z: "blk_sum (v_uid v) (g_vplblk (tm k)) = 0" by (rule blk_sum_none)
  have lt: "x < tm_next_uid (tm k) \<Longrightarrow> x < tm_next_uid (tm k) + 1" for x using n
    by (simp add: word_less_nat_alt unat_word_ariths)
  have "pools_ok ?T" unfolding pools_ok_def
  proof (intro conjI allI impI ballI)
    fix j assume j: "j < length (g_vpl ?T)" "v_used (g_vpl ?T ! j)"
    show "unat (v_free_size (g_vpl ?T ! j)) + blk_sum (v_uid (g_vpl ?T ! j)) (g_vplblk ?T) =
        unat (v_pool_size (g_vpl ?T ! j))"
      using inv j v z by (cases "j = i") (simp_all add: tm_inv_def pools_ok_def)
  next
    fix b assume "b \<in> set (g_vplblk ?T)" "vb_used b"
    then show "vb_vpl b < tm_next_uid ?T" using inv lt by (simp add: tm_inv_def pools_ok_def)
  qed
  then show ?thesis using inv n inv_next_uid [OF inv n] vpl_tab.ok_put [OF _ _ n v(1)]
    by (auto simp: tm_inv_def tabs_ok_def intro: tab_monos)
qed

section \<open>Pools\<close>

text \<open>
  One pool and one block change together: what the pool gains the block loses, and no other pool
  owns the block before or after.
\<close>

lemma inv_pool_block:
  assumes inv: "tm_inv k" and i: "i < MAX_VPLS" and j: "j < MAX_VPL_BLOCKS"
    and v: "v_uid v' = v_uid (g_vpl (tm k) ! i)" "v_used v' \<Longrightarrow> v_used (g_vpl (tm k) ! i)"
      "v_pool_size v' = v_pool_size (g_vpl (tm k) ! i)"
    and b: "vb_used b' \<Longrightarrow> vb_vpl b' < tm_next_uid (tm k)"
    and other: "\<And>u. u \<noteq> v_uid v' \<Longrightarrow> blk_of u b' = blk_of u (g_vplblk (tm k) ! j)"
    and moved: "v_used v' \<Longrightarrow> unat (v_free_size v') + blk_of (v_uid v') b' =
      unat (v_free_size (g_vpl (tm k) ! i)) + blk_of (v_uid v') (g_vplblk (tm k) ! j)"
  shows "tm_inv (k\<lparr>tm := (tm k)\<lparr>g_vpl := (g_vpl (tm k))[i := v'], g_vplblk := (g_vplblk (tm k))[j := b']\<rparr>\<rparr>)"
proof -
  let ?V = "g_vpl (tm k)" and ?B = "g_vplblk (tm k)"
  let ?T = "(tm k)\<lparr>g_vpl := ?V[i := v'], g_vplblk := ?B[j := b']\<rparr>"
  have len: "length ?V = MAX_VPLS" "length ?B = MAX_VPL_BLOCKS"
    and ok: "obj_ok v_used v_uid (tm_next_uid (tm k)) ?V" using inv by (simp_all add: tm_inv_def tabs_ok_def)
  have ok': "obj_ok v_used v_uid (tm_next_uid (tm k)) (?V[i := v'])"
    by (rule vpl_tab.ok_upd [OF ok]) (use v in simp_all)
  have sum: "blk_sum u (?B[j := b']) + blk_of u (?B ! j) = blk_sum u ?B + blk_of u b'" for u
    using j len by (intro blk_sum_update) simp
  have acc: "unat (v_free_size (?V ! m)) + blk_sum (v_uid (?V ! m)) ?B = unat (v_pool_size (?V ! m))"
    if "m < MAX_VPLS" "v_used (?V ! m)" for m
    using inv that len by (simp add: tm_inv_def pools_ok_def)
  have "pools_ok ?T" unfolding pools_ok_def
  proof (intro conjI allI impI ballI)
    fix m assume m: "m < length (g_vpl ?T)" "v_used (g_vpl ?T ! m)"
    show "unat (v_free_size (g_vpl ?T ! m)) + blk_sum (v_uid (g_vpl ?T ! m)) (g_vplblk ?T) =
        unat (v_pool_size (g_vpl ?T ! m))"
    proof (cases "m = i")
      case True
      then have "v_used v'" using m len i by simp
      then show ?thesis using True acc [of i] moved sum [of "v_uid v'"] v i len by simp
    next
      case False
      have "v_uid v' \<noteq> v_uid (?V ! m)"
        using vpl_tab.ok_inj [OF ok, of m i] m False i len v(1) by auto
      then show ?thesis using False acc [of m] other [of "v_uid (?V ! m)"] sum [of "v_uid (?V ! m)"] m len by simp
    qed
  next
    fix x assume x: "x \<in> set (g_vplblk ?T)" "vb_used x"
    then have "x = b' \<or> x \<in> set ?B" using set_update_subset_insert [of ?B j b'] by auto
    then show "vb_vpl x < tm_next_uid ?T" using x(2) b inv by (auto simp: tm_inv_def pools_ok_def)
  qed
  then show ?thesis using inv ok' by (simp add: tm_inv_def tabs_ok_def)
qed

lemma release_pool_only:
  assumes "length (g_vplblk (tm k)) = MAX_VPL_BLOCKS" and "\<forall>j\<in>set js. j < MAX_VPL_BLOCKS"
  shows "\<exists>B. tm (release_pool u js k) = (tm k)\<lparr>g_vplblk := B\<rparr> \<and> length B = MAX_VPL_BLOCKS \<and>
    (\<forall>u'. u' \<noteq> u \<longrightarrow> blk_sum u' B = blk_sum u' (g_vplblk (tm k))) \<and>
    (\<forall>n. (\<forall>b\<in>set (g_vplblk (tm k)). vb_used b \<longrightarrow> vb_vpl b < n) \<longrightarrow> (\<forall>b\<in>set B. vb_used b \<longrightarrow> vb_vpl b < n))"
  using assms
proof (induction js arbitrary: k)
  case Nil
  then show ?case by (intro exI [of _ "g_vplblk (tm k)"]) simp
next
  case (Cons j js)
  let ?B = "g_vplblk (tm k)"
  show ?case
  proof (cases "vb_used (?B ! j) \<and> vb_vpl (?B ! j) = u")
    case False
    then have "release_pool u (j # js) k = release_pool u js k" by auto
    then show ?thesis using Cons.IH [OF Cons.prems(1)] Cons.prems(2) by simp
  next
    case True
    let ?b = "(?B ! j)\<lparr>vb_used := False\<rparr>"
    have d: "tm (drop_blk j k) = (tm k)\<lparr>g_vplblk := ?B[j := ?b]\<rparr>" by (simp add: drop_blk_def set_blk_def)
    have j: "j < length ?B" using Cons.prems by simp
    have s: "blk_sum u' (?B[j := ?b]) = blk_sum u' ?B" if "u' \<noteq> u" for u'
      using blk_sum_update [OF j, of u' ?b] True that by (simp add: blk_of_def)
    have n: "\<forall>b\<in>set (?B[j := ?b]). vb_used b \<longrightarrow> vb_vpl b < n" if "\<forall>b\<in>set ?B. vb_used b \<longrightarrow> vb_vpl b < n" for n
      using that set_update_subset_insert [of ?B j ?b] by auto
    obtain B where B: "tm (release_pool u js (drop_blk j k)) = (tm (drop_blk j k))\<lparr>g_vplblk := B\<rparr>"
      "length B = MAX_VPL_BLOCKS"
      "\<And>u'. u' \<noteq> u \<Longrightarrow> blk_sum u' B = blk_sum u' (g_vplblk (tm (drop_blk j k)))"
      "\<And>n. \<forall>b\<in>set (g_vplblk (tm (drop_blk j k))). vb_used b \<longrightarrow> vb_vpl b < n \<Longrightarrow>
         \<forall>b\<in>set B. vb_used b \<longrightarrow> vb_vpl b < n"
      using Cons.IH [of "drop_blk j k"] Cons.prems d by auto
    have "release_pool u (j # js) k = release_pool u js (drop_blk j k)" using True by simp
    then show ?thesis using B s n d by (intro exI [of _ B]) simp
  qed
qed

lemma inv_delete_pool:
  assumes inv: "tm_inv k" and i: "i < MAX_VPLS"
  shows "tm_inv (upd_vpl i (\<lambda>v. v\<lparr>v_used := False\<rparr>)
    (release_pool (v_uid (g_vpl (tm k) ! i)) [0..<MAX_VPL_BLOCKS] k))"
proof -
  let ?V = "g_vpl (tm k)" let ?u = "v_uid (?V ! i)"
  have len: "length ?V = MAX_VPLS" "length (g_vplblk (tm k)) = MAX_VPL_BLOCKS"
    and ok: "obj_ok v_used v_uid (tm_next_uid (tm k)) ?V" using inv by (simp_all add: tm_inv_def tabs_ok_def)
  obtain B where B: "tm (release_pool ?u [0..<MAX_VPL_BLOCKS] k) = (tm k)\<lparr>g_vplblk := B\<rparr>"
    "length B = MAX_VPL_BLOCKS" "\<And>u'. u' \<noteq> ?u \<Longrightarrow> blk_sum u' B = blk_sum u' (g_vplblk (tm k))"
    "\<And>n. \<forall>b\<in>set (g_vplblk (tm k)). vb_used b \<longrightarrow> vb_vpl b < n \<Longrightarrow> \<forall>b\<in>set B. vb_used b \<longrightarrow> vb_vpl b < n"
    using release_pool_only [OF len(2), of "[0..<MAX_VPL_BLOCKS]" ?u]
    by (metis atLeastLessThan_iff set_upt)
  let ?T = "(tm k)\<lparr>g_vpl := ?V[i := (?V ! i)\<lparr>v_used := False\<rparr>], g_vplblk := B\<rparr>"
  have ok': "obj_ok v_used v_uid (tm_next_uid (tm k)) (?V[i := (?V ! i)\<lparr>v_used := False\<rparr>])"
    by (rule vpl_tab.ok_clear [OF ok])
  have "pools_ok ?T" unfolding pools_ok_def
  proof (intro conjI allI impI)
    fix m assume m: "m < length (g_vpl ?T)" "v_used (g_vpl ?T ! m)"
    then have mi: "m \<noteq> i" "m < MAX_VPLS" "v_used (?V ! m)" using len i by (auto simp: nth_list_update split: if_splits)
    then have "v_uid (?V ! m) \<noteq> ?u" using vpl_tab.ok_inj [OF ok, of m i] i len by auto
    then show "unat (v_free_size (g_vpl ?T ! m)) + blk_sum (v_uid (g_vpl ?T ! m)) (g_vplblk ?T) =
        unat (v_pool_size (g_vpl ?T ! m))"
      using mi B(3) inv len by (simp add: tm_inv_def pools_ok_def)
  next
    show "\<forall>b\<in>set (g_vplblk ?T). vb_used b \<longrightarrow> vb_vpl b < tm_next_uid ?T"
      using B(4) [of "tm_next_uid (tm k)"] inv by (simp add: tm_inv_def pools_ok_def)
  qed
  then have "tabs_ok ?T \<and> pools_ok ?T" using inv ok' B(2) by (simp add: tm_inv_def tabs_ok_def)
  moreover have "tm (upd_vpl i (\<lambda>v. v\<lparr>v_used := False\<rparr>) (release_pool ?u [0..<MAX_VPL_BLOCKS] k)) = ?T"
    unfolding upd_vpl_def by (simp only: B(1) kern.select_convs kern.update_convs threadman.select_convs) (simp add: B(1))
  ultimately show ?thesis by (simp add: tm_inv_def)
qed

lemma find_vplD:
  "find_vpl u k = Some i \<Longrightarrow> tm_inv k \<Longrightarrow> i < MAX_VPLS \<and> v_used (g_vpl (tm k) ! i) \<and> v_uid (g_vpl (tm k) ! i) = u"
  by (auto simp: find_vpl_def tm_inv_def tabs_ok_def dest: find_index_SomeD)

lemma blk_le_sum:
  "j < length bs \<Longrightarrow> blk_of u (bs ! j) \<le> blk_sum u bs"
  unfolding blk_sum_def by (intro member_le_sum_list) auto

text \<open>A block given back: the pool's free size does not overflow.\<close>

lemma inv_free_block:
  assumes inv: "tm_inv k" and i: "i < MAX_VPLS" "v_used (g_vpl (tm k) ! i)"
    and j: "find_blk (v_uid (g_vpl (tm k) ! i)) a k = Some j"
  shows "unat (v_free_size (g_vpl (tm k) ! i) + vb_size (g_vplblk (tm k) ! j)) =
      unat (v_free_size (g_vpl (tm k) ! i)) + unat (vb_size (g_vplblk (tm k) ! j))"
    and "tm_inv (drop_blk j (upd_vpl i (\<lambda>v. v\<lparr>v_free_size := v_free_size v + vb_size (g_vplblk (tm k) ! j)\<rparr>) k))"
proof -
  let ?v = "g_vpl (tm k) ! i" and ?b = "g_vplblk (tm k) ! j"
  have jl: "j < length (g_vplblk (tm k))" "vb_used ?b" "vb_vpl ?b = v_uid ?v"
    using find_index_SomeD [OF j [unfolded find_blk_def]] by auto
  have len: "length (g_vpl (tm k)) = MAX_VPLS" "length (g_vplblk (tm k)) = MAX_VPL_BLOCKS"
    using inv by (simp_all add: tm_inv_def tabs_ok_def)
  have "unat (v_free_size ?v) + blk_sum (v_uid ?v) (g_vplblk (tm k)) = unat (v_pool_size ?v)"
    using inv i len by (simp add: tm_inv_def pools_ok_def)
  moreover have "unat (vb_size ?b) \<le> blk_sum (v_uid ?v) (g_vplblk (tm k))"
    using blk_le_sum [OF jl(1), of "v_uid ?v"] jl(2,3) by (simp add: blk_of_def)
  ultimately have "unat (v_free_size ?v) + unat (vb_size ?b) < 4294967296"
    using unat_u32_less [of "v_pool_size ?v"] by linarith
  then show u: "unat (v_free_size ?v + vb_size ?b) = unat (v_free_size ?v) + unat (vb_size ?b)"
    by (simp add: unat_word_ariths)
  let ?v' = "?v\<lparr>v_free_size := v_free_size ?v + vb_size ?b\<rparr>"
  have "tm_inv (k\<lparr>tm := (tm k)\<lparr>g_vpl := (g_vpl (tm k))[i := ?v'],
      g_vplblk := (g_vplblk (tm k))[j := ?b\<lparr>vb_used := False\<rparr>]\<rparr>\<rparr>)"
    by (rule inv_pool_block [OF inv i(1)]) (use jl len u in \<open>simp_all add: blk_of_def\<close>)
  then show "tm_inv (drop_blk j (upd_vpl i (\<lambda>v. v\<lparr>v_free_size := v_free_size v + vb_size ?b\<rparr>) k))"
    by (simp add: drop_blk_def set_blk_def upd_vpl_def tm_inv_def)
qed

text \<open>A block carved out of a pool with room.\<close>

lemma inv_new_block:
  assumes inv: "tm_inv k" and i: "i < MAX_VPLS" and room: "vpl_room i sz k"
    and j: "find_index (\<lambda>b. \<not> vb_used b) (g_vplblk (tm k)) = Some j"
  shows "tm_inv (upd_vpl i (\<lambda>v. v\<lparr>v_free_size := v_free_size v - sz\<rparr>)
    (set_blk j \<lparr>vb_vpl = v_uid (g_vpl (tm k) ! i), vb_addr = a, vb_size = sz, vb_used = True\<rparr> k))"
proof -
  let ?v = "g_vpl (tm k) ! i"
  let ?v' = "?v\<lparr>v_free_size := v_free_size ?v - sz\<rparr>"
  let ?b = "\<lparr>vb_vpl = v_uid ?v, vb_addr = a, vb_size = sz, vb_used = True\<rparr>"
  have jl: "j < length (g_vplblk (tm k))" "\<not> vb_used (g_vplblk (tm k) ! j)" using find_index_SomeD [OF j] by auto
  have len: "length (g_vpl (tm k)) = MAX_VPLS" "length (g_vplblk (tm k)) = MAX_VPL_BLOCKS"
    and lt: "v_uid ?v < tm_next_uid (tm k)" using inv i by (simp_all add: tm_inv_def tabs_ok_def obj_ok_def)
  have "sz \<le> v_free_size ?v" using room by (simp add: vpl_room_def)
  then have "unat (v_free_size ?v - sz) + unat sz = unat (v_free_size ?v)"
    by (simp add: unat_sub word_le_nat_alt)
  then have "tm_inv (k\<lparr>tm := (tm k)\<lparr>g_vpl := (g_vpl (tm k))[i := ?v'], g_vplblk := (g_vplblk (tm k))[j := ?b]\<rparr>\<rparr>)"
    by (intro inv_pool_block [OF inv i]) (use jl len lt in \<open>simp_all add: blk_of_def\<close>)
  then show ?thesis by (simp add: set_blk_def upd_vpl_def tm_inv_def tabs_ok_def pools_ok_def)
qed

section \<open>Assertions over the ways control comes back\<close>

text \<open>A state predicate holds however control comes back; the rules follow the structure of a call.\<close>

definition flow_all :: "(kern \<Rightarrow> bool) \<Rightarrow> 'a flow \<Rightarrow> bool" where
  "flow_all P f = (case f of Done a k \<Rightarrow> P k | Unwound i k \<Rightarrow> P k | Diverged \<Rightarrow> True)"

definition guest_keeps :: "(kern \<Rightarrow> bool) \<Rightarrow> guest \<Rightarrow> bool" where
  "guest_keeps P run \<longleftrightarrow> (\<forall>a k. P k \<longrightarrow> flow_all P (run a k))"

lemma flow_all_simps [simp]:
  "flow_all P (Done a k) = P k" "flow_all P (Unwound i k) = P k" "flow_all P Diverged"
  by (simp_all add: flow_all_def)

lemma flow_all_bind:
  "flow_all P f \<Longrightarrow> (\<And>a k. P k \<Longrightarrow> flow_all P (g a k)) \<Longrightarrow> flow_all P (flow_bind f g)"
  by (cases f) simp_all

lemma flow_bind_DoneE:
  assumes "flow_bind f g = Done b k'"
  obtains a k1 where "f = Done a k1" "g a k1 = Done b k'"
  using assms by (cases f) auto

lemma call_guest_keeps:
  "guest_keeps tm_inv run \<Longrightarrow> tm_inv k \<Longrightarrow> flow_all tm_inv (call_guest run a k)"
  unfolding call_guest_def Let_def by (rule flow_all_bind) (simp_all add: guest_keeps_def)

section \<open>Every firmware call keeps the invariant\<close>

lemma inv_release_waits: "tm_inv k \<Longrightarrow> tm_inv (release_waits js k)"
  by (induction js arbitrary: k) (simp_all add: inv_thread)

lemma unwind_keeps: "tm_inv k \<Longrightarrow> flow_all tm_inv (thread_unwind i st k)"
  by (simp add: thread_unwind_def Let_def inv_thread inv_release_waits)

lemma check_terminated_keeps: "tm_inv k \<Longrightarrow> flow_all tm_inv (check_terminated k)"
  by (simp add: check_terminated_def unwind_keeps split: option.split)

lemma inv_park_us: "tm_inv (park_us us k) = tm_inv k"
  by (simp add: park_us_def)

lemma park_for_keeps: "tm_inv k \<Longrightarrow> flow_all tm_inv (park_for us k)"
  unfolding park_for_def by (rule flow_all_bind) (simp_all add: check_terminated_keeps inv_park_us)

lemma park_loop_keeps: "tm_inv k \<Longrightarrow> flow_all tm_inv (park_loop left k)"
proof (induction left k rule: park_loop.induct)
  case (1 left k)
  show ?case
  proof (cases "left = 0")
    case False
    define step where "step = (if left < TICK_US then left else TICK_US)"
    have "flow_all tm_inv (park_for step k)" by (rule park_for_keeps [OF "1.prems"])
    then show ?thesis using 1 False
      by (subst park_loop.simps) (auto simp: Let_def simp flip: step_def split: flow.split)
  qed (use 1 in \<open>simp add: park_loop.simps\<close>)
qed

locale guest_code =
  fixes run :: guest
  assumes guest: "guest_keeps tm_inv run"
begin

lemma intr_loop_keeps: "tm_inv k \<Longrightarrow> flow_all tm_inv (intr_loop run d is k)"
proof (induction "is" arbitrary: k)
  case (Cons i "is")
  show ?case
    by (auto simp: Let_def Cons intro!: flow_all_bind call_guest_keeps [OF guest])
qed simp

lemma intr_tick_keeps: "tm_inv k \<Longrightarrow> flow_all tm_inv (psp_intr_tick run d k)"
  unfolding psp_intr_tick_def by (auto intro!: flow_all_bind intr_loop_keeps)

lemma deliver_one_keeps: "tm_inv k \<Longrightarrow> flow_all tm_inv (deliver_one run i k)"
  unfolding deliver_one_def Let_def
  by (rule flow_all_bind) (simp_all add: call_guest_keeps [OF guest] inv_cb)

lemma cb_loop_keeps: "tm_inv k \<Longrightarrow> flow_all tm_inv (cb_loop run d me is n k)"
proof (induction "is" arbitrary: n k me)
  case (Cons i "is")
  have "tm_inv (drop_notify i k)" using Cons.prems by (simp add: drop_notify_def Let_def inv_cb)
  then show ?case using Cons.prems
    by (auto simp: Let_def Cons.IH intro!: flow_all_bind deliver_one_keeps)
qed simp

lemma deliver_callbacks_keeps: "tm_inv k \<Longrightarrow> flow_all tm_inv (deliver_callbacks run d k)"
  unfolding deliver_callbacks_def by (auto intro!: flow_all_bind cb_loop_keeps)

lemma deliver_tick_keeps: "tm_inv k \<Longrightarrow> flow_all tm_inv (deliver_tick run d k)"
  unfolding deliver_tick_def
  by (intro flow_all_bind check_terminated_keeps intr_tick_keeps deliver_callbacks_keeps) simp_all

lemma wait_loop_keeps: "tm_inv k \<Longrightarrow> flow_all tm_inv (wait_loop run d ready k)"
  unfolding wait_loop_def warn_wait_def
  by (intro flow_all_bind check_terminated_keeps deliver_tick_keeps) simp_all

end

lemma kname_simps [simp]: "kname a k = (nm, k1) \<Longrightarrow> tm k1 = tm k" "kname a k = (nm, k1) \<Longrightarrow> sys k1 = sys k"
  by (auto simp: kname_def Let_def case_prod_unfold)

text \<open>The calls that run no guest code and create nothing.\<close>

lemma plain_calls_keep:
  assumes "tm_inv k"
  shows "tm_inv (hle_DeleteCallback k)" "tm_inv (hle_NotifyCallback k)" "tm_inv (hle_TerminateThread k)"
    "tm_inv (hle_WakeupThread k)" "tm_inv (hle_CancelWakeupThread k)" "tm_inv (hle_GetThreadExitStatus k)"
    "tm_inv (hle_GetThreadId k)" "tm_inv (hle_SuspendThread k)" "tm_inv (hle_ResumeThread k)"
    "tm_inv (hle_ChangeThreadPriority k)" "tm_inv (hle_GetThreadCurrentPriority k)"
    "tm_inv (hle_ChangeCurrentThreadAttr k)" "tm_inv (hle_GetThreadStackFreeSize k)"
    "tm_inv (hle_GetSystemTime k)" "tm_inv (hle_GetSystemTimeWide k)"
  using assms
  by (simp_all add: hle_DeleteCallback_def hle_NotifyCallback_def hle_TerminateThread_def hle_WakeupThread_def
      hle_CancelWakeupThread_def hle_GetThreadExitStatus_def hle_GetThreadId_def hle_SuspendThread_def
      hle_ResumeThread_def hle_ChangeThreadPriority_def hle_GetThreadCurrentPriority_def
      hle_ChangeCurrentThreadAttr_def hle_GetThreadStackFreeSize_def hle_GetSystemTime_def
      hle_GetSystemTimeWide_def Let_def inv_thread inv_cb split: option.split)

lemma object_calls_keep:
  assumes "tm_inv k"
  shows "tm_inv (hle_DeleteSema k)" "tm_inv (hle_SignalSema k)" "tm_inv (hle_PollSema k)"
    "tm_inv (hle_CancelSema k)" "tm_inv (hle_DeleteEventFlag k)" "tm_inv (hle_SetEventFlag k)"
    "tm_inv (hle_ClearEventFlag k)" "tm_inv (hle_PollEventFlag k)" "tm_inv (hle_ReferVplStatus k)"
    "tm_inv (hle_CancelVpl k)" "tm_inv (hle_RegisterSubIntrHandler k)" "tm_inv (hle_EnableSubIntr k)"
    "tm_inv (hle_ReleaseSubIntrHandler k)"
  using assms
  by (simp_all add: hle_DeleteSema_def hle_SignalSema_def hle_PollSema_def hle_CancelSema_def
      hle_DeleteEventFlag_def hle_SetEventFlag_def hle_ClearEventFlag_def hle_PollEventFlag_def
      hle_ReferVplStatus_def hle_CancelVpl_def hle_RegisterSubIntrHandler_def hle_EnableSubIntr_def
      hle_ReleaseSubIntrHandler_def flag_out_def flag_clear_def Let_def inv_sema inv_flag split: option.split)

lemma DeleteThread_keeps: "tm_inv k \<Longrightarrow> tm_inv (hle_DeleteThread k)"
  by (simp add: hle_DeleteThread_def free_stack_def Let_def inv_thread split: option.split)

lemma DeleteVpl_keeps:
  assumes "tm_inv k" shows "tm_inv (hle_DeleteVpl k)"
proof (cases "find_vpl (karg 0 k) k")
  case (Some i)
  then have "i < MAX_VPLS" using find_vplD [OF _ assms] by blast
  from inv_delete_pool [OF assms this] show ?thesis
    unfolding hle_DeleteVpl_def Some option.case inv_fields .
qed (use assms in \<open>simp add: hle_DeleteVpl_def\<close>)

lemma FreeVpl_keeps: "tm_inv k \<Longrightarrow> tm_inv (hle_FreeVpl k)"
  by (auto simp: hle_FreeVpl_def inv_free_block(2) dest: find_vplD split: option.split)

text \<open>The calls that take a uid.\<close>

lemma create_calls_keep:
  assumes "tm_inv k" and "tm_next_uid (tm k) < 0xFFFFFFFF"
  shows "tm_inv (hle_CreateCallback k)" "tm_inv (hle_CreateSema k)" "tm_inv (hle_CreateEventFlag k)"
    "tm_inv (hle_CreateVpl k)"
  using assms inv_new_cb [of "snd (kname (karg 0 k) k)"] inv_new_sema [of "snd (kname (karg 0 k) k)"]
    inv_new_flag [of "snd (kname (karg 0 k) k)"] inv_new_vpl [of "snd (kname (karg 0 k) k)"]
  by (simp_all add: hle_CreateCallback_def hle_CreateSema_def hle_CreateEventFlag_def hle_CreateVpl_def
      Let_def case_prod_unfold split: option.split)

lemma inv_reap_loop: "tm_inv k \<Longrightarrow> tm_inv (reap_loop is k)"
  by (induction "is" arbitrary: k) (simp_all add: Let_def inv_thread)

lemma reap_next_uid: "tm_next_uid (tm (reap_loop is k)) = tm_next_uid (tm k)"
  by (induction "is" arbitrary: k) (simp_all add: Let_def upd_thread_def)

lemma inv_zero_thread:
  assumes "tm_inv k" and "t_uid t = 0" and "\<not> t_used t"
  shows "tm_inv (upd_thread i (\<lambda>_. t) k)"
  using assms th_tab.ok_zero [of "tm_next_uid (tm k)" "g_thread (tm k)" t i]
  by (simp add: tm_inv_def tabs_ok_def pools_ok_def upd_thread_def)

lemma CreateThread_keeps:
  assumes "tm_inv k" and "tm_next_uid (tm k) < 0xFFFFFFFF"
  shows "flow_all tm_inv (hle_CreateThread k)"
proof -
  let ?k = "reap_deleted_threads k"
  let ?k1 = "snd (kname (karg 0 ?k) ?k)"
  have inv: "tm_inv ?k" "tm_next_uid (tm ?k) = tm_next_uid (tm k)"
    using assms(1) by (simp_all only: reap_deleted_threads_def inv_reap_loop reap_next_uid)
  have z: "tm_inv (upd_thread i (\<lambda>_. t) ?k1)" if "t_uid t = 0" "\<not> t_used t" for i t
    using inv_zero_thread [of ?k1 t i] inv that by simp
  have new: "tm_inv (k''\<lparr>tm := (tm (upd_thread i f k'))\<lparr>tm_next_uid := n + 1\<rparr>\<rparr>)"
    if "tm_inv k'" "n = tm_next_uid (tm k)" "tm_next_uid (tm k') = n" "t_uid (f (g_thread (tm k') ! i)) = n"
    for k'' k' i f n
    using inv_new_thread [of k' "f (g_thread (tm k') ! i)" i] that assms(2)
    by (simp add: upd_thread_def tm_inv_def)
  show ?thesis using inv z new
    by (auto simp: hle_CreateThread_def Let_def case_prod_unfold zero_thread_def split: option.split)
qed

text \<open>The calls that run guest code keep the invariant when that code does.\<close>

context guest_code
begin

lemma carve_keeps:
  assumes "tm_inv k" and "i < MAX_VPLS" and "vpl_room i sz k"
  shows "flow_all tm_inv (carve_block i sz outp k)"
proof -
  have "tm_inv (upd_vpl i (\<lambda>v. v\<lparr>v_free_size := v_free_size v - sz\<rparr>)
      (set_blk j \<lparr>vb_vpl = v_uid (g_vpl (tm k) ! i), vb_addr = a, vb_size = sz, vb_used = True\<rparr> (k\<lparr>sys := S\<rparr>)))"
    if "find_index (\<lambda>b. \<not> vb_used b) (g_vplblk (tm k)) = Some j" for j a S
    using inv_new_block [of "k\<lparr>sys := S\<rparr>" i sz j a] assms that by (simp add: vpl_room_def)
  then show ?thesis using assms(1) by (auto simp: carve_block_def split: option.split)
qed

lemma wait_loop_ready:
  "wait_loop run d ready k = Done rc k' \<Longrightarrow> rc = SCE_KERNEL_ERROR_OK \<Longrightarrow> ready k'"
  unfolding wait_loop_def
  by (cases "check_terminated k"; simp) (auto elim: flow_bind_DoneE split: if_splits)

lemma take_vpl_keeps: "tm_inv k \<Longrightarrow> flow_all tm_inv (take_vpl_block run d blocking k)"
proof (cases "find_vpl (karg 0 k) k")
  case (Some i)
  assume inv: "tm_inv k"
  then have i: "i < MAX_VPLS" using find_vplD [OF Some] by blast
  have w: "flow_all tm_inv (flow_bind (wait_loop run d (vpl_room i sz) k1)
      (\<lambda>rc k2. if rc \<noteq> SCE_KERNEL_ERROR_OK then Done rc k2 else carve_block i sz outp k2))"
    if "tm_inv k1" for sz outp k1
    using wait_loop_keeps [OF that, of d "vpl_room i sz"] wait_loop_ready [of d "vpl_room i sz" k1]
    by (cases "wait_loop run d (vpl_room i sz) k1") (auto intro: carve_keeps [OF _ i])
  show ?thesis using inv i w
    by (auto simp: take_vpl_block_def Some Let_def vpl_room_def intro!: carve_keeps)
qed (simp add: take_vpl_block_def)

lemma StartThread_keeps: "tm_inv k \<Longrightarrow> flow_all tm_inv (hle_StartThread run k)"
proof -
  assume inv: "tm_inv k"
  have e: "flow_all tm_inv (call_guest run a (thread_enter i k))" for a i
    by (rule call_guest_keeps [OF guest]) (simp add: thread_enter_def Let_def inv inv_thread)
  have l: "tm_inv (thread_leave i k k')" if "tm_inv k'" for i k'
    using that by (simp add: thread_leave_def free_stack_def Let_def inv_thread)
  show ?thesis
  proof (cases "find_thread (karg 0 k) k")
    case (Some i)
    show ?thesis using inv l e [of "t_entry (g_thread (tm k) ! i)" i]
      by (cases "call_guest run (t_entry (g_thread (tm k) ! i)) (thread_enter i k)")
        (simp_all add: hle_StartThread_def Some inv_thread)
  qed (simp add: hle_StartThread_def inv)
qed

lemma WaitThreadEnd_keeps: "tm_inv k \<Longrightarrow> flow_all tm_inv (hle_WaitThreadEnd run d k)"
  by (auto simp: hle_WaitThreadEnd_def Let_def set_end_waits_def inv_thread
      intro!: flow_all_bind wait_loop_keeps split: option.split)

lemma wait_calls_keep:
  assumes "tm_inv k"
  shows "flow_all tm_inv (hle_CheckCallback run d k)" "flow_all tm_inv (hle_DelayThread run d k)"
    "flow_all tm_inv (hle_SleepThread run d k)" "flow_all tm_inv (hle_WaitSema run d k)"
    "flow_all tm_inv (hle_WaitEventFlag run d k)" "flow_all tm_inv (hle_AllocateVpl run d k)"
    "flow_all tm_inv (hle_TryAllocateVpl run d k)"
proof -
  have w: "tm_inv (take_wakeup me k')" if "tm_inv k'" for me k'
    using that by (simp add: take_wakeup_def inv_thread split: option.split)
  show "flow_all tm_inv (hle_CheckCallback run d k)" unfolding hle_CheckCallback_def
    by (rule flow_all_bind) (simp_all add: assms deliver_callbacks_keeps)
  show "flow_all tm_inv (hle_DelayThread run d k)" unfolding hle_DelayThread_def park_ticks_def
    by (rule flow_all_bind park_loop_keeps deliver_tick_keeps assms | simp)+
  show "flow_all tm_inv (hle_SleepThread run d k)" unfolding hle_SleepThread_def Let_def
    by (rule flow_all_bind deliver_tick_keeps w | simp add: assms park_for_keeps)+
  show "flow_all tm_inv (hle_WaitSema run d k)"
    using assms by (auto simp: hle_WaitSema_def take_sema_def Let_def inv_sema
        intro!: flow_all_bind wait_loop_keeps split: option.split)
  show "flow_all tm_inv (hle_WaitEventFlag run d k)"
    using assms by (auto simp: hle_WaitEventFlag_def wait_flag_def flag_out_def flag_clear_def Let_def inv_flag
        intro!: flow_all_bind wait_loop_keeps split: option.split)
  show "flow_all tm_inv (hle_AllocateVpl run d k)" "flow_all tm_inv (hle_TryAllocateVpl run d k)"
    unfolding hle_AllocateVpl_def hle_TryAllocateVpl_def
    by (rule flow_all_bind take_vpl_keeps assms | simp)+
qed

lemma tm_call_keeps:
  assumes "tm_inv k" and "tm_next_uid (tm k) < 0xFFFFFFFF"
  shows "flow_all tm_inv (tm_call run d c k)"
proof -
  have e: "flow_all tm_inv (hle_ExitThread k')" if "tm_inv k'" for k'
    using that by (simp add: hle_ExitThread_def unwind_keeps split: option.split)
  have "flow_all tm_inv (hle_ExitDeleteThread k)" unfolding hle_ExitDeleteThread_def
    by (rule e) (simp add: assms inv_thread split: option.split)
  then show ?thesis using assms e
    by (cases c) (simp_all add: plain_calls_keep object_calls_keep create_calls_keep CreateThread_keeps
        DeleteThread_keeps DeleteVpl_keeps FreeVpl_keeps StartThread_keeps WaitThreadEnd_keeps wait_calls_keep)
qed

end

section \<open>Executions of guest code\<close>

text \<open>
  Guest code that acts on the machine and the user memory as it likes and on the kernel through
  firmware calls: at step \<open>s\<close> the function at address \<open>a\<close> sets the machine and the allocator, both a
  function of the whole state, and makes a call or returns. \<open>exec\<close> runs it with a bound on the depth
  of nested guest calls and on the steps of one function; an execution past a bound, or one that
  would use up the 32-bit uids, does not come back.
\<close>

type_synonym code = "u32 \<Rightarrow> nat \<Rightarrow> kern \<Rightarrow> psp_machine \<times> sysmem \<times> syscall option"

primrec body_loop :: "code \<Rightarrow> 'f dispatch \<Rightarrow> guest \<Rightarrow> u32 \<Rightarrow> nat \<Rightarrow> nat \<Rightarrow> kern \<Rightarrow> unit flow" where
  "body_loop code d run a 0 s k = Diverged"
| "body_loop code d run a (Suc n) s k =
     (case code a s k of
        (M, S, None) \<Rightarrow> Done () (k\<lparr>mach := M, sys := S\<rparr>)
      | (M, S, Some c) \<Rightarrow>
          if tm_next_uid (tm k) = 0xFFFFFFFF then Diverged
          else flow_bind (tm_call run d c (k\<lparr>mach := M, sys := S\<rparr>))
                 (\<lambda>_ k1. body_loop code d run a n (Suc s) k1))"

primrec exec :: "code \<Rightarrow> 'f dispatch \<Rightarrow> nat \<Rightarrow> guest" where
  "exec code d 0 = (\<lambda>a k. Diverged)"
| "exec code d (Suc n) = (\<lambda>a k. body_loop code d (exec code d n) a n 0 k)"

lemma body_loop_keeps:
  assumes "guest_code run"
  shows "tm_inv k \<Longrightarrow> flow_all tm_inv (body_loop code d run a n s k)"
proof (induction n arbitrary: s k)
  case (Suc n)
  have "tm_next_uid (tm k) < 0xFFFFFFFF" if "tm_next_uid (tm k) \<noteq> 0xFFFFFFFF"
    using that unat_u32_less [of "tm_next_uid (tm k)"] by (auto simp: word_less_nat_alt word_unat_eq_iff)
  then show ?case using Suc
    by (auto intro!: flow_all_bind guest_code.tm_call_keeps [OF assms] split: prod.split option.split)
qed simp

interpretation ex: guest_code "exec code d n" for code d n
proof
  show "guest_keeps tm_inv (exec code d n)"
  proof (induction n)
    case 0
    show ?case by (simp add: guest_keeps_def)
  next
    case (Suc n)
    then have "guest_code (exec code d n)" by unfold_locales
    then show ?case by (simp add: guest_keeps_def body_loop_keeps)
  qed
qed

lemma tm_inv_reset: "tm k = psp_threadman_reset now \<Longrightarrow> tm_inv k"
proof -
  assume T: "tm k = psp_threadman_reset now"
  have "obj_ok t_used t_uid TM_UID_BASE ((replicate MAX_THREADS zero_thread)[MAX_THREADS - 1 := boot_record])"
    unfolding obj_ok_def by (auto simp: nth_list_update boot_record_def zero_thread_def)
  then show ?thesis unfolding tm_inv_def T psp_threadman_reset_def
    by (simp add: tabs_ok_def pools_ok_def vpl_tab.zero_used zero_vplblk_def sema_tab.ok_fresh
        flag_tab.ok_fresh cb_tab.ok_fresh vpl_tab.ok_fresh)
qed

text \<open>The state at the start of a run, for the witnesses.\<close>

definition boot_kern :: kern where
  "boot_kern = \<lparr>mach = boot_machine, sys = psp_sysmem_reset, tm = psp_threadman_reset 0, im = psp_intrman_reset\<rparr>"

lemma find_index_replicate: "0 < n \<Longrightarrow> P x \<Longrightarrow> find_index P (replicate n x) = Some 0"
  by (cases n) simp_all

text \<open>
  C1. Whatever guest code does on the machine and through firmware calls, nested through thread bodies,
  interrupt handlers and callbacks to any depth, the kernel tables keep their invariant from reset on,
  also when the execution ends by an unwind: every table has its size, the objects in use in a table
  have different, non-zero uids below the next one (so a uid names one object and is never given out
  twice before the counter wraps), and in every pool the free size and the sizes of the blocks handed
  out add up to the pool size.
\<close>
theorem tm_executions_keep_inv:
  assumes "tm k = psp_threadman_reset now"
  shows "flow_all tm_inv (exec code d n a k)"
  using ex.guest tm_inv_reset [OF assms] unfolding guest_keeps_def by blast

theorem tm_executions_keep_inv_witness:
  "\<exists>k'. exec (\<lambda>a s k. (mach k, sys k, if s = 0 then Some Sys_CreateSema else None)) (dispatch_start :: nat dispatch)
      3 0x100 boot_kern = Done () k' \<and> s_used (g_sema (tm k') ! 0) \<and> tm_inv k'"
proof -
  let ?code = "\<lambda>a s k. (mach k, sys k, if s = 0 then Some Sys_CreateSema else None)"
  have f: "find_index (\<lambda>s. \<not> s_used s) (replicate MAX_SEMAS zero_sema) = Some 0"
    by (rule find_index_replicate) (simp_all add: zero_sema_def)
  obtain k' where k': "exec ?code (dispatch_start :: nat dispatch) 3 0x100 boot_kern = Done () k'"
      "s_used (g_sema (tm k') ! 0)"
    by (simp add: numeral_3_eq_3 boot_kern_def psp_threadman_reset_def hle_CreateSema_def f case_prod_unfold
        Let_def del: One_nat_def)
  have "tm boot_kern = psp_threadman_reset 0" by (simp add: boot_kern_def)
  from tm_executions_keep_inv [OF this, of ?code "dispatch_start :: nat dispatch" 3 "0x100"] show ?thesis
    using k' by auto
qed

end
