(* ===== verification/TmQuiet.thy ===== *)
theory TmQuiet
  imports TmInv
begin

unbundle bit_operations_syntax

text \<open>
  The re-entrance guard of interrupt delivery, over whole executions: while it is set no firmware call
  delivers an interrupt or clears it, and so does no execution of guest code. The rules have the shape
  of those of the theory \<open>TmInv\<close>, for the predicate \<open>quiet I\<close>: the guard is set and the two counters of
  delivery attempts stand where they stood in \<open>I\<close>.
\<close>

definition quiet :: "intrman \<Rightarrow> kern \<Rightarrow> bool" where
  "quiet I k \<longleftrightarrow> g_delivering (im k) \<and> g_deliveries (im k) = g_deliveries I \<and> g_unresolved (im k) = g_unresolved I"

section \<open>What leaves the interrupt manager alone\<close>

lemma im_fields [simp]:
  "im (kret x k) = im k" "im (kwrite32 a v k) = im k" "im (set_gpr r v k) = im k" "im (set_cpu c k) = im k"
  "im (snd (kname a k)) = im k" "im (enter_regs a b k) = im k" "im (upd_thread i f k) = im k"
  "im (upd_cb i g k) = im k" "im (upd_sema i h k) = im k" "im (upd_flag i l k) = im k" "im (upd_vpl i m k) = im k"
  "im (set_blk i vb k) = im k" "im (free_stack i k) = im k" "im (park_us us k) = im k"
  "im (drop_blk i k) = im k"
  by (simp_all add: kret_def kwrite32_def set_gpr_def set_cpu_def kname_def Let_def case_prod_unfold enter_regs_def
      upd_thread_def upd_cb_def upd_sema_def upd_flag_def upd_vpl_def set_blk_def free_stack_def park_us_def drop_blk_def)

lemma im_kname [simp]: "kname a k = (nm, k1) \<Longrightarrow> im k1 = im k"
  using im_fields(5) [of a k] by simp

lemma im_thread [simp]: "im (thread_enter i k) = im k" "im (thread_leave i k0 k) = im k"
  by (simp_all add: thread_enter_def thread_leave_def Let_def)

lemma im_release_waits [simp]: "im (release_waits js k) = im k"
  by (induction js arbitrary: k) simp_all

lemma im_release_pool [simp]: "im (release_pool u js k) = im k"
  by (induction js arbitrary: k) (simp_all add: Let_def)

lemma im_reap_loop [simp]: "im (reap_loop js k) = im k"
  by (induction js arbitrary: k) (simp_all add: Let_def)

lemma quiet_fields [simp]:
  "quiet I (kret x k) = quiet I k" "quiet I (kwrite32 a v k) = quiet I k" "quiet I (set_cpu c k) = quiet I k"
  "quiet I (upd_thread i f k) = quiet I k" "quiet I (upd_sema i h k) = quiet I k" "quiet I (upd_flag i l k) = quiet I k"
  "quiet I (park_us us k) = quiet I k"
  by (simp_all add: quiet_def)

lemma quiet_kern [simp]:
  "quiet I (k\<lparr>mach := M\<rparr>) = quiet I k" "quiet I (k\<lparr>sys := S\<rparr>) = quiet I k" "quiet I (k\<lparr>tm := T\<rparr>) = quiet I k"
  by (simp_all add: quiet_def)

lemma quiet_unwind: "quiet I k \<Longrightarrow> flow_all (quiet I) (thread_unwind i st k)"
  by (simp add: thread_unwind_def Let_def quiet_def)

lemma quiet_check: "quiet I k \<Longrightarrow> flow_all (quiet I) (check_terminated k)"
  by (simp add: check_terminated_def quiet_unwind split: option.split)

lemma quiet_park_for: "quiet I k \<Longrightarrow> flow_all (quiet I) (park_for us k)"
  unfolding park_for_def by (rule flow_all_bind) (simp_all add: quiet_check)

lemma quiet_park_loop: "quiet I k \<Longrightarrow> flow_all (quiet I) (park_loop left k)"
proof (induction left k rule: park_loop.induct)
  case (1 left k)
  show ?case
  proof (cases "left = 0")
    case False
    define step where "step = (if left < TICK_US then left else TICK_US)"
    have "flow_all (quiet I) (park_for step k)" by (rule quiet_park_for [OF "1.prems"])
    then show ?thesis using 1 False
      by (subst park_loop.simps) (auto simp: Let_def simp flip: step_def split: flow.split)
  qed (use 1 in \<open>simp add: park_loop.simps\<close>)
qed

text \<open>Calls that run no guest code: they leave the interrupt manager as it is, or only its handler table changes.\<close>

lemma quiet_plain:
  assumes "quiet I k"
  shows "quiet I (hle_DeleteCallback k)" "quiet I (hle_NotifyCallback k)" "quiet I (hle_TerminateThread k)"
    "quiet I (hle_WakeupThread k)" "quiet I (hle_CancelWakeupThread k)" "quiet I (hle_GetThreadExitStatus k)"
    "quiet I (hle_GetThreadId k)" "quiet I (hle_SuspendThread k)" "quiet I (hle_ResumeThread k)"
    "quiet I (hle_ChangeThreadPriority k)" "quiet I (hle_GetThreadCurrentPriority k)"
    "quiet I (hle_ChangeCurrentThreadAttr k)" "quiet I (hle_GetThreadStackFreeSize k)"
    "quiet I (hle_GetSystemTime k)" "quiet I (hle_GetSystemTimeWide k)" "quiet I (hle_DeleteThread k)"
  using assms
  by (simp_all add: quiet_def hle_DeleteCallback_def hle_NotifyCallback_def hle_TerminateThread_def hle_WakeupThread_def
      hle_CancelWakeupThread_def hle_GetThreadExitStatus_def hle_GetThreadId_def hle_SuspendThread_def
      hle_ResumeThread_def hle_ChangeThreadPriority_def hle_GetThreadCurrentPriority_def
      hle_ChangeCurrentThreadAttr_def hle_GetThreadStackFreeSize_def hle_GetSystemTime_def
      hle_GetSystemTimeWide_def hle_DeleteThread_def Let_def split: option.split)

lemma quiet_objects:
  assumes "quiet I k"
  shows "quiet I (hle_DeleteSema k)" "quiet I (hle_SignalSema k)" "quiet I (hle_PollSema k)"
    "quiet I (hle_CancelSema k)" "quiet I (hle_DeleteEventFlag k)" "quiet I (hle_SetEventFlag k)"
    "quiet I (hle_ClearEventFlag k)" "quiet I (hle_PollEventFlag k)" "quiet I (hle_ReferVplStatus k)"
    "quiet I (hle_CancelVpl k)" "quiet I (hle_RegisterSubIntrHandler k)" "quiet I (hle_EnableSubIntr k)"
    "quiet I (hle_ReleaseSubIntrHandler k)" "quiet I (hle_DeleteVpl k)" "quiet I (hle_FreeVpl k)"
  using assms
  by (simp_all add: quiet_def hle_DeleteSema_def hle_SignalSema_def hle_PollSema_def hle_CancelSema_def
      hle_DeleteEventFlag_def hle_SetEventFlag_def hle_ClearEventFlag_def hle_PollEventFlag_def
      hle_ReferVplStatus_def hle_CancelVpl_def hle_RegisterSubIntrHandler_def hle_EnableSubIntr_def
      hle_ReleaseSubIntrHandler_def hle_DeleteVpl_def hle_FreeVpl_def flag_out_def flag_clear_def Let_def split: option.split)

lemma quiet_create:
  assumes "quiet I k"
  shows "quiet I (hle_CreateCallback k)" "quiet I (hle_CreateSema k)" "quiet I (hle_CreateEventFlag k)"
    "quiet I (hle_CreateVpl k)" "flow_all (quiet I) (hle_CreateThread k)"
  using assms
  by (simp_all add: quiet_def hle_CreateCallback_def hle_CreateSema_def hle_CreateEventFlag_def hle_CreateVpl_def
      hle_CreateThread_def reap_deleted_threads_def Let_def case_prod_unfold split: option.split)

section \<open>What runs guest code\<close>

locale quiet_code =
  fixes run :: guest and I :: intrman
  assumes guest: "guest_keeps (quiet I) run"
begin

lemma call_guest_quiet: "quiet I k \<Longrightarrow> flow_all (quiet I) (call_guest run a k)"
  unfolding call_guest_def Let_def
  by (rule flow_all_bind) (use guest in \<open>auto simp: guest_keeps_def quiet_def\<close>)

lemma deliver_callbacks_quiet: "quiet I k \<Longrightarrow> flow_all (quiet I) (deliver_callbacks run d k)"
proof -
  have one: "flow_all (quiet I) (deliver_one run i k)" if "quiet I k" for i k
    unfolding deliver_one_def Let_def
    by (rule flow_all_bind) (use that in \<open>simp_all add: call_guest_quiet quiet_def\<close>)
  have "flow_all (quiet I) (cb_loop run d me is n k)" if "quiet I k" for me "is" n k
    using that
  proof (induction "is" arbitrary: n k me)
    case (Cons i "is")
    have "quiet I (drop_notify i k)" using Cons.prems by (simp add: drop_notify_def Let_def quiet_def)
    then show ?case using Cons.prems
      by (auto simp: Let_def Cons.IH intro!: flow_all_bind one)
  qed simp
  then show "quiet I k \<Longrightarrow> flow_all (quiet I) (deliver_callbacks run d k)"
    unfolding deliver_callbacks_def by (auto intro!: flow_all_bind)
qed

text \<open>The guard is set, so no interrupt is delivered.\<close>

lemma intr_tick_quiet: "quiet I k \<Longrightarrow> psp_intr_tick run' d k = Done () k"
  by (simp add: psp_intr_tick_def quiet_def)

lemma deliver_tick_quiet: "quiet I k \<Longrightarrow> flow_all (quiet I) (deliver_tick run d k)"
  unfolding deliver_tick_def
  by (intro flow_all_bind quiet_check deliver_callbacks_quiet) (simp_all add: intr_tick_quiet)

lemma wait_loop_quiet: "quiet I k \<Longrightarrow> flow_all (quiet I) (wait_loop run d ready k)"
  unfolding wait_loop_def warn_wait_def
  by (intro flow_all_bind quiet_check deliver_tick_quiet) simp_all

lemma take_vpl_quiet: "quiet I k \<Longrightarrow> flow_all (quiet I) (take_vpl_block run d blocking k)"
proof -
  have c: "flow_all (quiet I) (carve_block i sz outp k1)" if "quiet I k1" for i sz outp k1
    using that by (auto simp: carve_block_def quiet_def split: option.split)
  show "quiet I k \<Longrightarrow> flow_all (quiet I) (take_vpl_block run d blocking k)"
    by (auto simp: take_vpl_block_def Let_def intro!: flow_all_bind wait_loop_quiet c split: option.split)
qed

lemma StartThread_quiet: "quiet I k \<Longrightarrow> flow_all (quiet I) (hle_StartThread run k)"
proof -
  assume q: "quiet I k"
  have e: "flow_all (quiet I) (call_guest run a (thread_enter i k))" for a i
    by (rule call_guest_quiet) (use q in \<open>simp add: thread_enter_def Let_def quiet_def\<close>)
  have l: "quiet I (thread_leave i k k')" if "quiet I k'" for i k'
    using that by (simp add: thread_leave_def Let_def quiet_def)
  show ?thesis
  proof (cases "find_thread (karg 0 k) k")
    case (Some i)
    show ?thesis using q l e [of "t_entry (g_thread (tm k) ! i)" i]
      by (cases "call_guest run (t_entry (g_thread (tm k) ! i)) (thread_enter i k)")
        (simp_all add: hle_StartThread_def Some quiet_def)
  qed (use q in \<open>simp add: hle_StartThread_def quiet_def\<close>)
qed

lemma wait_calls_quiet:
  assumes "quiet I k"
  shows "flow_all (quiet I) (hle_CheckCallback run d k)" "flow_all (quiet I) (hle_DelayThread run d k)"
    "flow_all (quiet I) (hle_SleepThread run d k)" "flow_all (quiet I) (hle_WaitSema run d k)"
    "flow_all (quiet I) (hle_WaitEventFlag run d k)" "flow_all (quiet I) (hle_AllocateVpl run d k)"
    "flow_all (quiet I) (hle_TryAllocateVpl run d k)" "flow_all (quiet I) (hle_WaitThreadEnd run d k)"
proof -
  have w: "quiet I (take_wakeup me k')" if "quiet I k'" for me k'
    using that by (simp add: take_wakeup_def quiet_def split: option.split)
  show "flow_all (quiet I) (hle_CheckCallback run d k)" unfolding hle_CheckCallback_def
    by (rule flow_all_bind) (simp_all add: assms deliver_callbacks_quiet)
  show "flow_all (quiet I) (hle_DelayThread run d k)" unfolding hle_DelayThread_def park_ticks_def
    by (rule flow_all_bind quiet_park_loop deliver_tick_quiet assms | simp)+
  show "flow_all (quiet I) (hle_SleepThread run d k)" unfolding hle_SleepThread_def Let_def
    by (rule flow_all_bind deliver_tick_quiet w | simp add: assms quiet_park_for)+
  show "flow_all (quiet I) (hle_WaitSema run d k)"
    using assms by (auto simp: hle_WaitSema_def take_sema_def Let_def
        intro!: flow_all_bind wait_loop_quiet split: option.split)
  show "flow_all (quiet I) (hle_WaitEventFlag run d k)"
    using assms by (auto simp: hle_WaitEventFlag_def wait_flag_def flag_out_def flag_clear_def Let_def intro!: flow_all_bind wait_loop_quiet split: option.split)
  show "flow_all (quiet I) (hle_AllocateVpl run d k)" "flow_all (quiet I) (hle_TryAllocateVpl run d k)"
    unfolding hle_AllocateVpl_def hle_TryAllocateVpl_def
    by (rule flow_all_bind take_vpl_quiet assms | simp)+
  show "flow_all (quiet I) (hle_WaitThreadEnd run d k)"
    using assms by (auto simp: hle_WaitThreadEnd_def Let_def set_end_waits_def 
      intro!: flow_all_bind wait_loop_quiet split: option.split)
qed

lemma tm_call_quiet: "quiet I k \<Longrightarrow> flow_all (quiet I) (tm_call run d c k)"
proof -
  assume q: "quiet I k"
  have e: "flow_all (quiet I) (hle_ExitThread k')" if "quiet I k'" for k'
    using that by (simp add: hle_ExitThread_def quiet_unwind split: option.split)
  have "flow_all (quiet I) (hle_ExitDeleteThread k)" unfolding hle_ExitDeleteThread_def
    by (rule e) (simp add: q split: option.split)
  then show ?thesis using q e
    by (cases c) (simp_all add: quiet_plain quiet_objects quiet_create StartThread_quiet wait_calls_quiet)
qed

lemma body_loop_quiet: "quiet I k \<Longrightarrow> flow_all (quiet I) (body_loop code d run a n s k)"
  by (induction n arbitrary: s k) (auto intro!: flow_all_bind tm_call_quiet split: prod.split option.split)

end

interpretation qt: quiet_code "exec code d n" I for code d n I
proof
  show "guest_keeps (quiet I) (exec code d n)"
  proof (induction n)
    case 0
    show ?case by (simp add: guest_keeps_def)
  next
    case (Suc n)
    then have "quiet_code (exec code d n) I" by unfold_locales
    then show ?case by (simp add: guest_keeps_def quiet_code.body_loop_quiet)
  qed
qed

lemma exec_quiet: "quiet I k \<Longrightarrow> flow_all (quiet I) (exec code d n a k)"
  using qt.guest unfolding guest_keeps_def by blast

end
