(* ===== verification/TmProps.thy ===== *)
theory TmProps
  imports TmQuiet
begin

unbundle bit_operations_syntax

text \<open>
  What the thread manager's firmware calls promise: semaphores and event flags as maps from uids to
  counters and bit patterns, what a wait and a started thread leave of their caller, the clock, and
  the pools over the user-memory allocator.
\<close>

section \<open>Registers across the helpers\<close>

lemma cpu_write32 [simp]: "cpu (psp_write32 a v M) = cpu M"
  by (simp add: psp_write32_def write_body_def Let_def split: option.split)

lemma cpu_read8 [simp]: "cpu (snd (psp_read8 a M)) = cpu M"
  by (simp add: psp_read8_def read_body_def Let_def case_prod_unfold split: option.split)

lemma cpu_str_loop [simp]: "cpu (snd (str_loop n a M)) = cpu M"
  by (induction n arbitrary: a M) (simp_all add: Let_def case_prod_unfold)

lemma cpu_kernel [simp]:
  "cpu (mach (snd (kname a k))) = cpu (mach k)" "cpu (mach (kwrite32 a v k)) = cpu (mach k)"
  "cpu (mach (upd_thread i f1 k)) = cpu (mach k)" "cpu (mach (upd_cb i f2 k)) = cpu (mach k)"
  "cpu (mach (upd_sema i f3 k)) = cpu (mach k)" "cpu (mach (upd_flag i f4 k)) = cpu (mach k)"
  "cpu (mach (upd_vpl i f5 k)) = cpu (mach k)" "cpu (mach (set_cpu c k)) = c"
  "cpu (mach (note_unresolved k)) = cpu (mach k)"
  by (simp_all add: kname_def Let_def case_prod_unfold psp_str_def kwrite32_def upd_thread_def upd_cb_def
      upd_sema_def upd_flag_def upd_vpl_def set_cpu_def note_unresolved_def)

definition v0 :: "kern \<Rightarrow> u32" where
  "v0 k = gpr (cpu (mach k)) ! PSP_REG_V0"

definition regs_ok :: "kern \<Rightarrow> bool" where
  "regs_ok k \<longleftrightarrow> length (gpr (cpu (mach k))) = PSP_NUM_GPR"

lemma v0_kret: "length (gpr (cpu (mach k))) = PSP_NUM_GPR \<Longrightarrow> v0 (kret x k) = x"
  by (simp add: v0_def kret_def psp_ret_def)

section \<open>Semaphores are counters\<close>

text \<open>The semaphores in use: by uid, the count and the maximum as the numbers they mean.\<close>

definition sema_abs :: "kern \<Rightarrow> u32 \<Rightarrow> (int \<times> int) option" where
  "sema_abs k u = map_option (\<lambda>s. (sint (s_count s), sint (s_max_count s)))
     (obj_map s_used s_uid (g_sema (tm k)) u)"

lemma sema_abs_find:
  "sema_abs k u = map_option (\<lambda>i. (sint (s_count (g_sema (tm k) ! i)), sint (s_max_count (g_sema (tm k) ! i))))
     (find_sema u k)"
  by (simp add: sema_abs_def obj_map_def find_sema_def option.map_comp comp_def)

lemma find_semaD:
  assumes "find_sema u k = Some i"
  shows "i < length (g_sema (tm k))" "s_used (g_sema (tm k) ! i)" "s_uid (g_sema (tm k) ! i) = u"
  using find_index_SomeD [OF assms [unfolded find_sema_def]] by auto

lemma sema_abs_frame [simp]: "sema_abs (kret x k) = sema_abs k" "sema_abs (kwrite32 a v k) = sema_abs k"
  by (simp_all add: sema_abs_def fun_eq_iff)

lemma sema_tab_ok: "tm_inv k \<Longrightarrow> obj_ok s_used s_uid (tm_next_uid (tm k)) (g_sema (tm k))"
  by (simp add: tm_inv_def tabs_ok_def)

lemma sema_abs_upd:
  assumes inv: "tm_inv k" and i: "find_sema u k = Some i"
    and f: "s_uid (f (g_sema (tm k) ! i)) = u" "s_used (f (g_sema (tm k) ! i))"
  shows "sema_abs (upd_sema i f k) = (sema_abs k)(u \<mapsto> (sint (s_count (f (g_sema (tm k) ! i))),
    sint (s_max_count (f (g_sema (tm k) ! i)))))"
  using sema_tab.map_upd [OF sema_tab_ok [OF inv] find_semaD(1,2) [OF i], of "f (g_sema (tm k) ! i)"] f
    find_semaD(3) [OF i]
  by (simp add: sema_abs_def upd_sema_def fun_eq_iff)

lemma sema_abs_delete:
  assumes inv: "tm_inv k" and i: "find_sema u k = Some i"
  shows "sema_abs (upd_sema i (\<lambda>s. s\<lparr>s_used := False\<rparr>) k) = (sema_abs k)(u := None)"
  using sema_tab.map_clear [OF sema_tab_ok [OF inv] find_semaD(1,2) [OF i]] find_semaD(3) [OF i]
  by (simp add: sema_abs_def upd_sema_def fun_eq_iff)

lemma sint_arith:
  fixes a b :: u32
  shows "- (2 ^ 31) \<le> sint a + sint b \<Longrightarrow> sint a + sint b < 2 ^ 31 \<Longrightarrow> sint (a + b) = sint a + sint b"
    and "- (2 ^ 31) \<le> sint a - sint b \<Longrightarrow> sint a - sint b < 2 ^ 31 \<Longrightarrow> sint (a - b) = sint a - sint b"
  by (simp_all add: sint_word_ariths(1,2) signed_take_bit_int_eq_self)

lemma sint_need: "sint (sema_need n) = max 1 (sint n)"
  by (simp add: sema_need_def)

lemma sint_range32: "- (2 ^ 31) \<le> sint (x :: u32)" "sint (x :: u32) < 2 ^ 31"
  using sint_ge [of x] sint_lt [of x] by simp_all

lemma sint_taken:
  "\<not> sint c < max 1 (sint n) \<Longrightarrow> sint (c - sema_need n) = sint c - max 1 (sint n)"
  using sint_range32 [of c] by (subst sint_arith(2)) (auto simp: sint_need max_def)

lemma sint_signalled:
  assumes "- (2 ^ 31) \<le> sint (s_count s) + sint n" and "sint (s_count s) + sint n < 2 ^ 31"
  shows "sint (signal_count n s) =
    (if sint (s_max_count s) > 0 then min (sint (s_max_count s)) (sint (s_count s) + sint n)
     else sint (s_count s) + sint n)"
  using sint_arith(1) [OF assms] by (auto simp: signal_count_def Let_def)

lemma sema_unknown:
  assumes "find_sema (karg 0 k) k = None"
  shows "hle_DeleteSema k = kret SCE_KERNEL_ERROR_UNKNOWN_UID k"
    "hle_SignalSema k = kret SCE_KERNEL_ERROR_UNKNOWN_UID k"
    "hle_PollSema k = kret SCE_KERNEL_ERROR_UNKNOWN_UID k"
    "hle_CancelSema k = kret SCE_KERNEL_ERROR_UNKNOWN_UID k"
  using assms by (simp_all add: hle_DeleteSema_def hle_SignalSema_def hle_PollSema_def hle_CancelSema_def)

lemma sema_known:
  assumes inv: "tm_inv k" and i: "find_sema (karg 0 k) k = Some i"
    and s: "s = g_sema (tm k) ! i" and m: "m = sema_abs k"
  shows "\<not> sint (s_count s) < max 1 (sint (karg 1 k)) \<Longrightarrow> sema_abs (hle_PollSema k) =
      m(karg 0 k \<mapsto> (sint (s_count s) - max 1 (sint (karg 1 k)), sint (s_max_count s)))"
    and "sema_abs (hle_SignalSema k) =
      m(karg 0 k \<mapsto> (sint (signal_count (karg 1 k) s), sint (s_max_count s)))"
    and "sema_abs (hle_CancelSema k) = m(karg 0 k \<mapsto> (sint (karg 1 k), sint (s_max_count s)))"
    and "sema_abs (hle_DeleteSema k) = m(karg 0 k := None)"
    and "sint (s_count s) < max 1 (sint (karg 1 k)) \<Longrightarrow> sema_abs (hle_PollSema k) = m"
  using sema_abs_delete [OF inv i] find_semaD [OF i]
  by (simp_all add: hle_PollSema_def hle_SignalSema_def hle_CancelSema_def hle_DeleteSema_def i Let_def s m
      sema_abs_upd [OF inv i] sint_taken sint_need)

lemma sema_created:
  assumes inv: "tm_inv k" and n: "tm_next_uid (tm k) < 0xFFFFFFFF"
    and i: "find_index (\<lambda>s. \<not> s_used s) (g_sema (tm k)) = Some i"
  shows "sema_abs (hle_CreateSema k) = (sema_abs k)(tm_next_uid (tm k) \<mapsto> (sint (karg 2 k), sint (karg 3 k)))"
proof -
  let ?s = "zero_sema\<lparr>s_name := fst (kname (karg 0 k) k), s_count := karg 2 k, s_max_count := karg 3 k,
    s_uid := tm_next_uid (tm k), s_used := True\<rparr>"
  have "0 < tm_next_uid (tm k)" using inv by (simp add: tm_inv_def tabs_ok_def)
  then have "obj_map s_used s_uid ((g_sema (tm k))[i := ?s]) =
      (obj_map s_used s_uid (g_sema (tm k)))(tm_next_uid (tm k) \<mapsto> ?s)"
    using find_index_SomeD [OF i] by (intro sema_tab.map_put [OF sema_tab_ok [OF inv] _ n]) simp_all
  then show ?thesis
    by (simp add: hle_CreateSema_def i Let_def case_prod_unfold sema_abs_def fun_eq_iff)
qed

lemma sema_v0:
  assumes "length (gpr (cpu (mach k))) = PSP_NUM_GPR"
  shows "find_sema (karg 0 k) k = Some i \<Longrightarrow> v0 (hle_SignalSema k) = SCE_KERNEL_ERROR_OK \<and>
      v0 (hle_CancelSema k) = SCE_KERNEL_ERROR_OK \<and> v0 (hle_DeleteSema k) = SCE_KERNEL_ERROR_OK \<and>
      v0 (hle_PollSema k) = (if sint (s_count (g_sema (tm k) ! i)) < max 1 (sint (karg 1 k))
        then SCE_KERNEL_ERROR_SEMA_ZERO else SCE_KERNEL_ERROR_OK)"
    and "v0 (hle_CreateSema k) = (if \<forall>s\<in>set (g_sema (tm k)). s_used s then SCE_KERNEL_ERROR_NO_MEMORY
      else tm_next_uid (tm k))"
  using assms by (auto simp: hle_PollSema_def hle_SignalSema_def hle_CancelSema_def hle_DeleteSema_def
      hle_CreateSema_def Let_def case_prod_unfold v0_kret sint_need find_index_None_iff
      split: option.split dest: find_index_SomeD)

text \<open>
  C14. The semaphore calls implement counters named by uids. In a state that keeps the invariant, with
  \<open>u\<close> and \<open>n\<close> the first two arguments: on a uid that names no semaphore, delete, signal, poll and cancel
  return the unknown-uid error and change no semaphore. Otherwise, with count \<open>c\<close> and maximum \<open>mx\<close>: a
  signal adds \<open>n\<close>, up to a positive maximum (where the sum fits in 32 bits); a poll takes \<open>n\<close>, at least
  one, when the count reaches that, and otherwise reports zero and takes nothing; cancel sets the count;
  delete forgets the uid. Create adds a semaphore under a fresh uid, or reports that the table is full.
  No call touches any other semaphore.
\<close>
theorem sema_calls_refine_counters:
  assumes inv: "tm_inv k" and regs: "length (gpr (cpu (mach k))) = PSP_NUM_GPR"
  shows "let m = sema_abs k; u = karg 0 k; n = sint (karg 1 k); result = (\<lambda>k'. (v0 k', sema_abs k')) in
    (case m u of
       None \<Rightarrow> (\<forall>call \<in> {hle_DeleteSema, hle_SignalSema, hle_PollSema, hle_CancelSema}.
         result (call k) = (SCE_KERNEL_ERROR_UNKNOWN_UID, m))
     | Some (c, mx) \<Rightarrow>
         result (hle_PollSema k) = (if c < max 1 n then (SCE_KERNEL_ERROR_SEMA_ZERO, m)
           else (SCE_KERNEL_ERROR_OK, m(u \<mapsto> (c - max 1 n, mx)))) \<and>
         (- (2 ^ 31) \<le> c + n \<and> c + n < 2 ^ 31 \<longrightarrow> result (hle_SignalSema k) =
           (SCE_KERNEL_ERROR_OK, m(u \<mapsto> (if mx > 0 then min mx (c + n) else c + n, mx)))) \<and>
         result (hle_CancelSema k) = (SCE_KERNEL_ERROR_OK, m(u \<mapsto> (n, mx))) \<and>
         result (hle_DeleteSema k) = (SCE_KERNEL_ERROR_OK, m(u := None))) \<and>
    (tm_next_uid (tm k) < 0xFFFFFFFF \<longrightarrow> result (hle_CreateSema k) =
       (if \<forall>s\<in>set (g_sema (tm k)). s_used s then (SCE_KERNEL_ERROR_NO_MEMORY, m)
        else (tm_next_uid (tm k), m(tm_next_uid (tm k) \<mapsto> (sint (karg 2 k), sint (karg 3 k))))))"
proof -
  let ?m = "sema_abs k" and ?u = "karg 0 k"
  have create: "(v0 (hle_CreateSema k), sema_abs (hle_CreateSema k)) =
      (if \<forall>s\<in>set (g_sema (tm k)). s_used s then (SCE_KERNEL_ERROR_NO_MEMORY, ?m)
       else (tm_next_uid (tm k), ?m(tm_next_uid (tm k) \<mapsto> (sint (karg 2 k), sint (karg 3 k)))))"
    if n: "tm_next_uid (tm k) < 0xFFFFFFFF"
  proof (cases "find_index (\<lambda>s. \<not> s_used s) (g_sema (tm k))")
    case None
    then have "hle_CreateSema k = kret SCE_KERNEL_ERROR_NO_MEMORY k" by (simp add: hle_CreateSema_def)
    moreover have "\<forall>s\<in>set (g_sema (tm k)). s_used s" using None by (simp add: find_index_None_iff)
    ultimately show ?thesis using sema_v0(2) [OF regs] by simp
  next
    case (Some i)
    then have "\<not> (\<forall>s\<in>set (g_sema (tm k)). s_used s)" using find_index_SomeD [OF Some] by force
    then show ?thesis using sema_v0(2) [OF regs] sema_created [OF inv n Some] by (simp only: if_False prod.inject)
  qed
  show ?thesis
  proof (cases "find_sema ?u k")
    case None
    then have "?m ?u = None" by (simp add: sema_abs_find)
    then show ?thesis using sema_unknown [OF None] create by (simp add: Let_def v0_kret regs)
  next
    case (Some i)
    then have "?m ?u = Some (sint (s_count (g_sema (tm k) ! i)), sint (s_max_count (g_sema (tm k) ! i)))"
      by (simp add: sema_abs_find)
    then show ?thesis
      using sema_known [OF inv Some refl refl] sema_v0(1) [OF regs Some] create
        sint_signalled [of "g_sema (tm k) ! i" "karg 1 k"]
      by (simp add: Let_def)
  qed
qed

theorem sema_calls_refine_counters_witness:
  "let k1 = hle_CreateSema (set_gpr 6 2 (set_gpr 7 3 boot_kern)); k = set_gpr 4 0x40000 (set_gpr 5 4 k1)
   in sema_abs k 0x40000 = Some (2, 3) \<and> v0 (hle_SignalSema k) = SCE_KERNEL_ERROR_OK \<and>
      sema_abs (hle_SignalSema k) 0x40000 = Some (3, 3) \<and> v0 (hle_PollSema k) = SCE_KERNEL_ERROR_SEMA_ZERO"
proof -
  let ?a = "set_gpr 6 2 (set_gpr 7 3 boot_kern)"
  let ?b = "hle_CreateSema ?a"
  let ?k = "set_gpr 4 0x40000 (set_gpr 5 4 ?b)"
  have f: "find_index (\<lambda>s. \<not> s_used s) (replicate MAX_SEMAS zero_sema) = Some 0"
    by (rule find_index_replicate) (simp_all add: zero_sema_def)
  have t0: "tm ?a = psp_threadman_reset 0" by (simp add: boot_kern_def)
  have i0: "tm_inv ?a" by (rule tm_inv_reset [OF t0])
  have u0: "tm_next_uid (tm ?a) < 0xFFFFFFFF" unfolding t0 by (simp add: psp_threadman_reset_def)
  have "tm_inv ?k" using create_calls_keep(2) [OF i0 u0] by simp
  moreover have len: "length (gpr (cpu (mach ?k))) = PSP_NUM_GPR"
    by (simp add: set_gpr_def hle_CreateSema_def kret_def psp_ret_def Let_def case_prod_unfold boot_kern_def
        boot_machine_def psp_cpu_reset_def split: option.split)
  ultimately have spec: "let m = sema_abs ?k; u = karg 0 ?k; n = sint (karg 1 ?k); result = (\<lambda>k'. (v0 k', sema_abs k')) in
    (case m u of
       None \<Rightarrow> (\<forall>call \<in> {hle_DeleteSema, hle_SignalSema, hle_PollSema, hle_CancelSema}.
         result (call ?k) = (SCE_KERNEL_ERROR_UNKNOWN_UID, m))
     | Some (c, mx) \<Rightarrow>
         result (hle_PollSema ?k) = (if c < max 1 n then (SCE_KERNEL_ERROR_SEMA_ZERO, m)
           else (SCE_KERNEL_ERROR_OK, m(u \<mapsto> (c - max 1 n, mx)))) \<and>
         (- (2 ^ 31) \<le> c + n \<and> c + n < 2 ^ 31 \<longrightarrow> result (hle_SignalSema ?k) =
           (SCE_KERNEL_ERROR_OK, m(u \<mapsto> (if mx > 0 then min mx (c + n) else c + n, mx)))) \<and>
         result (hle_CancelSema ?k) = (SCE_KERNEL_ERROR_OK, m(u \<mapsto> (n, mx))) \<and>
         result (hle_DeleteSema ?k) = (SCE_KERNEL_ERROR_OK, m(u := None)))"
    using sema_calls_refine_counters [of ?k] by (simp only: Let_def)
  have a: "karg 2 ?a = 2" "karg 3 ?a = 3"
    by (simp_all add: karg_def psp_arg_def set_gpr_def boot_kern_def boot_machine_def psp_cpu_reset_def)
  have "sema_abs ?b 0x40000 = Some (2, 3)"
    using sema_created [OF i0 u0, of 0] f a unfolding t0 by (simp add: psp_threadman_reset_def)
  then have s: "sema_abs ?k 0x40000 = Some (2, 3)" by (simp add: sema_abs_def)
  have "karg 0 ?k = 0x40000" "karg 1 ?k = 4"
    using len by (simp_all add: karg_def psp_arg_def set_gpr_def)
  then show ?thesis using spec s by (simp add: Let_def)
qed

section \<open>What a wait leaves of the registers\<close>

lemma intr_loop_cpu: "intr_loop run d is k = Done u k' \<Longrightarrow> cpu (mach k') = cpu (mach k)"
proof (induction "is" arbitrary: k)
  case (Cons i "is")
  then show ?case by (auto simp: Let_def split: if_splits elim!: flow_bind_DoneE dest!: Cons.IH)
qed simp

lemma deliver_one_cpu: "deliver_one run i k = Done u k' \<Longrightarrow> cpu (mach k') = cpu (mach k)"
  by (auto simp: deliver_one_def Let_def elim!: flow_bind_DoneE)

lemma cb_loop_cpu:
  "cb_loop run d me is n k = Done m k' \<Longrightarrow> n \<le> CB_DELIVER_MAX \<Longrightarrow> cpu (mach k') = cpu (mach k) \<and> m \<le> CB_DELIVER_MAX"
proof (induction "is" arbitrary: n k me)
  case (Cons i "is")
  have drop: "cpu (mach (drop_notify i k)) = cpu (mach k)" by (simp add: drop_notify_def Let_def)
  show ?case using Cons.prems drop
    by (auto simp: Let_def split: if_splits elim!: flow_bind_DoneE dest!: Cons.IH deliver_one_cpu)
qed simp

lemma check_terminated_Done: "check_terminated k = Done u k' \<Longrightarrow> k' = k"
  by (auto simp: check_terminated_def thread_unwind_def Let_def split: option.splits if_splits)

text \<open>
  C26. Guest code that runs at a wait point does not disturb what it interrupted. Whatever the interrupt
  handlers and callbacks do, when a delivery comes back the whole register file is what it was; a
  delivery of callbacks runs at most sixteen of them, and sceKernelCheckCallback reports 1 exactly when
  one ran, changing nothing but the result register.
\<close>
theorem deliveries_keep_registers:
  "(deliver_tick run d k = Done () k' \<longrightarrow> cpu (mach k') = cpu (mach k)) \<and>
   (deliver_callbacks run d k = Done n k' \<longrightarrow> cpu (mach k') = cpu (mach k) \<and> n \<le> CB_DELIVER_MAX \<and>
      hle_CheckCallback run d k = Done () (kret (if n = 0 then 0 else 1) k'))"
proof -
  have cb: "cpu (mach k') = cpu (mach k) \<and> n \<le> CB_DELIVER_MAX" if "deliver_callbacks run d k = Done n k'" for k k' n
    using that by (auto simp: deliver_callbacks_def split: if_splits elim!: flow_bind_DoneE dest!: cb_loop_cpu)
  have it: "cpu (mach k') = cpu (mach k)" if "psp_intr_tick run d k = Done u k'" for k k' u
    using that by (auto simp: psp_intr_tick_def split: if_splits elim!: flow_bind_DoneE dest!: intr_loop_cpu)
  have "cpu (mach k') = cpu (mach k)" if "deliver_tick run d k = Done () k'"
    using that by (auto simp: deliver_tick_def elim!: flow_bind_DoneE dest!: check_terminated_Done it cb)
  then show ?thesis using cb by (auto simp: hle_CheckCallback_def)
qed

text \<open>A dispatch table with one function, and a boot state with one notified callback to it.\<close>

definition one_fn :: "nat dispatch" where
  "one_fn = dispatch_start\<lparr>g_table := Some [\<lparr>s_addr = 0x100, s_fn = Some 0, s_used = True\<rparr>, free_slot], g_cap := 2\<rparr>"

definition cb_kern :: kern where
  "cb_kern = boot_kern\<lparr>tm := (tm boot_kern)\<lparr>g_cb := (replicate MAX_CBS zero_cb)[0 :=
     zero_cb\<lparr>c_uid := 0x40000, c_func := 0x100, c_arg := 5, c_owner := 0x3FFFF, c_notify_count := 1,
       c_used := True\<rparr>]\<rparr>\<rparr>"

lemma one_fn_resolves: "resolves one_fn 0x100"
proof -
  have h: "hash_addr 0x100 AND 1 = 0" by (simp add: hash_addr_def)
  have p: "probe (free_or 0x100) (\<lparr>s_addr = 0x100, s_fn = Some 0, s_used = True\<rparr> # t) 1 (Suc n) 0 = Some 0"
    for t :: "nat slot list" and n by (simp add: free_or_def)
  show ?thesis using p [of _ 1] h by (simp add: resolves_def one_fn_def psp_lookup_def Let_def numeral_2_eq_2 [symmetric])
qed

lemma cb_loop_idle:
  "(\<And>i. i \<in> set is \<Longrightarrow> \<not> c_used (g_cb (tm k) ! i)) \<Longrightarrow> cb_loop run d me is n k = Done n k"
  by (induction "is") auto

theorem deliveries_keep_registers_witness:
  "\<exists>k'. deliver_callbacks (\<lambda>a k. Done () (set_gpr 2 7 (set_gpr 29 9 k))) one_fn cb_kern = Done 1 k' \<and>
     c_delivery_status (g_cb (tm k') ! 0) = 7 \<and> cpu (mach k') = cpu (mach cb_kern)"
proof -
  let ?run = "\<lambda>a k. Done () (set_gpr 2 7 (set_gpr 29 9 k))"
  let ?k = "cb_kern\<lparr>tm := (tm cb_kern)\<lparr>g_cb_delivering := True\<rparr>\<rparr>"
  have cb: "g_cb (tm ?k) ! 0 = zero_cb\<lparr>c_uid := 0x40000, c_func := 0x100, c_arg := 5, c_owner := 0x3FFFF,
      c_notify_count := 1, c_used := True\<rparr>" "0 < length (g_cb (tm ?k))"
    by (simp_all add: cb_kern_def)
  have idle: "\<not> c_used (g_cb (tm ?k) ! i)" if "i \<in> set [1..<MAX_CBS]" for i
    using that by (simp add: cb_kern_def cb_tab.zero_used)
  have regs: "length (gpr (cpu (mach cb_kern))) = 32"
    by (simp add: cb_kern_def boot_kern_def boot_machine_def psp_cpu_reset_def)
  obtain k1 where k1: "deliver_one ?run 0 ?k = Done () k1" "c_delivery_status (g_cb (tm k1) ! 0) = 7"
    "\<And>i. i \<noteq> 0 \<Longrightarrow> g_cb (tm k1) ! i = g_cb (tm ?k) ! i"
    using cb(2) regs by (simp add: deliver_one_def Let_def call_guest_def upd_cb_def set_gpr_def set_cpu_def enter_regs_def)
  have "cb_loop ?run one_fn 0x3FFFF (0 # [1..<MAX_CBS]) 0 ?k = Done 1 k1"
  proof -
    have "cb_loop ?run one_fn 0x3FFFF [1..<MAX_CBS] 1 k1 = Done 1 k1"
      by (rule cb_loop_idle) (use k1(3) idle in \<open>auto simp del: upt_rec_numeral\<close>)
    then show ?thesis using k1(1) cb(1) one_fn_resolves by (simp del: upt_rec_numeral)
  qed
  moreover have "[0..<MAX_CBS] = 0 # [1..<MAX_CBS]" by (simp add: upt_conv_Cons del: upt_rec_numeral)
  moreover have "my_uid cb_kern = 0x3FFFF" "\<not> g_cb_delivering (tm cb_kern)" "\<not> psp_threadman_intr_disabled cb_kern"
    by (simp_all add: my_uid_def cb_kern_def boot_kern_def psp_threadman_reset_def boot_record_def
        psp_threadman_intr_disabled_def)
  ultimately obtain k' where k': "deliver_callbacks ?run one_fn cb_kern = Done 1 k'" "g_cb (tm k') = g_cb (tm k1)"
    by (simp add: deliver_callbacks_def)
  then show ?thesis using k1(2) deliveries_keep_registers [of ?run one_fn cb_kern k' 1] by simp
qed

section \<open>A started thread and its caller\<close>

lemma thread_leave_frame:
  "cpu (mach (thread_leave i k k1)) = (cpu (mach k))\<lparr>gpr := (gpr (cpu (mach k)))[PSP_REG_V0 := SCE_KERNEL_ERROR_OK]\<rparr>"
  "g_current (tm (thread_leave i k k1)) = g_current (tm k)" "g_tls_me (tm (thread_leave i k k1)) = g_tls_me (tm k)"
  "g_tls_intr_depth (tm (thread_leave i k k1)) = g_tls_intr_depth (tm k)"
  by (simp_all add: thread_leave_def Let_def kret_def psp_ret_def)

lemma thread_leave_thread:
  assumes "i < length (g_thread (tm k1))"
  shows "let t = g_thread (tm (thread_leave i k k1)) ! i in
    t_state t = TH_DORMANT \<and> t_exited t \<and> \<not> t_unwind_set t \<and>
    t_exit_status t = t_exit_status (g_thread (tm k1) ! i) \<and>
    (t_delete_after (g_thread (tm k1) ! i) \<longrightarrow> t_stack_base t = 0)"
  using assms by (simp add: thread_leave_def Let_def free_stack_def upd_thread_def)

text \<open>The kernel state of an execution has all its thread records.\<close>

lemma inv_threads: "tm_inv k \<Longrightarrow> length (g_thread (tm k)) = MAX_THREADS"
  by (simp add: tm_inv_def tabs_ok_def)

lemma find_threadD:
  "find_thread u k = Some i \<Longrightarrow> i < length (g_thread (tm k)) \<and> t_used (g_thread (tm k) ! i) \<and> t_uid (g_thread (tm k) ! i) = u"
  using find_index_SomeD by (fastforce simp: find_thread_def)

lemma StartThread_cases:
  assumes "hle_StartThread run k = Done () k'"
  obtains "k' = kret SCE_KERNEL_ERROR_ILLEGAL_THID k"
    | i k1 where "find_thread (karg 0 k) k = Some i" "t_state (g_thread (tm k) ! i) \<noteq> TH_RUNNING"
      "call_guest run (t_entry (g_thread (tm k) ! i)) (thread_enter i k) = Done () k1"
      "k' = thread_leave i k (upd_thread i (\<lambda>t. t\<lparr>t_exit_status := gpr (cpu (mach k1)) ! PSP_REG_V0\<rparr>) k1)"
    | i k1 where "find_thread (karg 0 k) k = Some i" "t_state (g_thread (tm k) ! i) \<noteq> TH_RUNNING"
      "call_guest run (t_entry (g_thread (tm k) ! i)) (thread_enter i k) = Unwound i k1"
      "k' = thread_leave i k k1"
  using assms by (auto simp: hle_StartThread_def split: option.splits if_splits flow.splits)

text \<open>
  C15. Starting a thread runs its body inline and gives the caller everything back. However the body ends,
  by returning or by leaving through sceKernelExitThread or a termination, the caller has its whole
  register file back with only the result register changed, is the current thread again, and is in the
  same critical section. The thread is then dormant, has exited and cannot be unwound to; its exit
  status is the value the body returned, or the one it exited with; a thread deleted on exit has no
  stack any more. A thread that is not known or already running is refused and nothing is changed.
\<close>
theorem StartThread_isolates_caller:
  assumes start: "hle_StartThread run k = Done () k'" and inv: "tm_inv k" and keeps: "guest_keeps tm_inv run"
  shows "\<exists>rc. cpu (mach k') = (cpu (mach k))\<lparr>gpr := (gpr (cpu (mach k)))[PSP_REG_V0 := rc]\<rparr> \<and>
    g_current (tm k') = g_current (tm k) \<and> g_tls_me (tm k') = g_tls_me (tm k) \<and>
    g_tls_intr_depth (tm k') = g_tls_intr_depth (tm k) \<and>
    (rc = SCE_KERNEL_ERROR_ILLEGAL_THID \<and> k' = kret rc k \<or>
     rc = SCE_KERNEL_ERROR_OK \<and> (\<exists>i k1 status. find_thread (karg 0 k) k = Some i \<and>
       (call_guest run (t_entry (g_thread (tm k) ! i)) (thread_enter i k) = Done () k1 \<and>
          status = gpr (cpu (mach k1)) ! PSP_REG_V0 \<or>
        call_guest run (t_entry (g_thread (tm k) ! i)) (thread_enter i k) = Unwound i k1 \<and>
          status = t_exit_status (g_thread (tm k1) ! i)) \<and>
       (let t = g_thread (tm k') ! i in t_state t = TH_DORMANT \<and> t_exited t \<and> \<not> t_unwind_set t \<and>
          t_exit_status t = status \<and> (t_delete_after (g_thread (tm k1) ! i) \<longrightarrow> t_stack_base t = 0))))"
    (is "\<exists>rc. _ \<and> _ \<and> _ \<and> _ \<and> (_ \<or> _ \<and> ?ended)")
proof -
  have enter: "flow_all tm_inv (call_guest run a (thread_enter i k))" for a i
    by (rule call_guest_keeps [OF keeps]) (simp add: thread_enter_def Let_def inv inv_thread)
  have il: "i < length (g_thread (tm k1))" if "find_thread (karg 0 k) k = Some i" "tm_inv k1" for i k1
    using find_threadD [OF that(1)] inv_threads [OF inv] inv_threads [OF that(2)] by simp
  from start show ?thesis
  proof (cases rule: StartThread_cases)
    case 1
    then show ?thesis by (intro exI [of _ SCE_KERNEL_ERROR_ILLEGAL_THID]) (simp add: kret_def psp_ret_def)
  next
    case (2 i k1)
    have "tm_inv k1" using enter [of "t_entry (g_thread (tm k) ! i)" i] 2(3) by simp
    note l = il [OF 2(1) this]
    have ?ended
      by (rule exI [of _ i], rule exI [of _ k1], rule exI [of _ "gpr (cpu (mach k1)) ! PSP_REG_V0"])
        (use 2 l thread_leave_thread [of i "upd_thread i (\<lambda>t. t\<lparr>t_exit_status := gpr (cpu (mach k1)) ! PSP_REG_V0\<rparr>) k1" k]
          in \<open>simp add: Let_def upd_thread_def\<close>)
    then show ?thesis using 2(4) thread_leave_frame [of i k] by (intro exI [of _ SCE_KERNEL_ERROR_OK]) simp
  next
    case (3 i k1)
    have "tm_inv k1" using enter [of "t_entry (g_thread (tm k) ! i)" i] 3(3) by simp
    note l = il [OF 3(1) this]
    have ?ended
      by (rule exI [of _ i], rule exI [of _ k1], rule exI [of _ "t_exit_status (g_thread (tm k1) ! i)"])
        (use 3 thread_leave_thread [OF l, of k] in \<open>simp add: Let_def\<close>)
    then show ?thesis using 3(4) thread_leave_frame [of i k] by (intro exI [of _ SCE_KERNEL_ERROR_OK]) simp
  qed
qed

text \<open>A boot state with one dormant thread, whose uid is the first argument register.\<close>

definition one_thread :: kern where
  "one_thread = set_gpr PSP_REG_A0 0x40000 (boot_kern\<lparr>tm := (tm boot_kern)\<lparr>
     g_thread := (g_thread (tm boot_kern))[0 := zero_thread\<lparr>t_uid := 0x40000, t_entry := 0x100,
       t_stack_base := 0x09FF0000, t_stack_size := 0x1000, t_used := True\<rparr>],
     tm_next_uid := tm_next_uid (tm boot_kern) + 1\<rparr>\<rparr>)"

lemma inv_boot: "tm_inv boot_kern"
  by (rule tm_inv_reset [of _ 0]) (simp add: boot_kern_def)

lemma inv_one_thread: "tm_inv one_thread"
  unfolding one_thread_def inv_fields
  by (rule inv_new_thread [OF inv_boot]) (simp_all add: boot_kern_def psp_threadman_reset_def)

theorem StartThread_isolates_caller_witness:
  "\<exists>k'. hle_StartThread (\<lambda>a k. Done () (set_gpr 2 7 (set_gpr 29 0 k))) one_thread = Done () k' \<and>
     cpu (mach k') = cpu (mach one_thread)"
proof -
  let ?run = "\<lambda>a k. Done () (set_gpr 2 7 (set_gpr 29 0 k))"
  have regs: "gpr (cpu (mach one_thread)) = (replicate 32 0)[4 := 0x40000]"
    by (simp add: one_thread_def set_gpr_def boot_kern_def boot_machine_def psp_cpu_reset_def)
  have f: "find_thread (karg 0 one_thread) one_thread = Some 0"
    unfolding find_thread_def
    by (rule find_index_SomeI)
      (simp_all add: karg_def psp_arg_def one_thread_def set_gpr_def boot_kern_def boot_machine_def psp_cpu_reset_def
        psp_threadman_reset_def)
  have st: "t_state (g_thread (tm one_thread) ! 0) = TH_DORMANT"
    by (simp add: one_thread_def boot_kern_def psp_threadman_reset_def zero_thread_def)
  have g: "call_guest ?run a k = Done () (set_cpu ((cpu (mach (set_gpr 2 7 (set_gpr 29 0
      (set_cpu ((cpu (mach k))\<lparr>frame := 0 # frame (cpu (mach k))\<rparr>) k)))))\<lparr>frame := frame (cpu (mach k)), unwind := 0\<rparr>)
      (set_gpr 2 7 (set_gpr 29 0 (set_cpu ((cpu (mach k))\<lparr>frame := 0 # frame (cpu (mach k))\<rparr>) k))))" for a k
    by (simp add: call_guest_def Let_def)
  obtain k' where k': "hle_StartThread ?run one_thread = Done () k'" using f st by (simp add: hle_StartThread_def g)
  have keeps: "guest_keeps tm_inv ?run" by (simp add: guest_keeps_def)
  obtain rc where rc: "cpu (mach k') = (cpu (mach one_thread))\<lparr>gpr := (gpr (cpu (mach one_thread)))[PSP_REG_V0 := rc]\<rparr>"
      "rc = SCE_KERNEL_ERROR_ILLEGAL_THID \<and> k' = kret rc one_thread \<or> rc = SCE_KERNEL_ERROR_OK"
    using StartThread_isolates_caller [OF k' inv_one_thread keeps] by metis
  have "v0 k' = SCE_KERNEL_ERROR_OK"
    using k' f st regs by (auto simp: hle_StartThread_def g thread_leave_def Let_def v0_kret)
  then have "rc = SCE_KERNEL_ERROR_OK" using rc regs by (auto simp: v0_def)
  moreover have "(gpr (cpu (mach one_thread)))[PSP_REG_V0 := 0] = gpr (cpu (mach one_thread))"
    unfolding regs by (simp add: list_update_swap [of 2 4] list_update_same_conv)
  ultimately show ?thesis using k' rc(1) by simp
qed

section \<open>An interrupt handler that ends its thread\<close>

lemma intr_loop_exit:
  assumes i: "i \<in> set is" "si_used (g_sub (im k) ! i)" "si_enabled (g_sub (im k) ! i)" "resolves d (si_handler (g_sub (im k) ! i))"
    and t: "g_current (tm k) = Some t" "t_unwind_set (g_thread (tm k) ! t)" and g: "g_delivering (im k)"
  shows "\<exists>k'. intr_loop (\<lambda>a. hle_ExitThread) d is k = Unwound t k' \<and> g_delivering (im k')"
  using assms
proof (induction "is" arbitrary: k)
  case (Cons j js)
  let ?s = "g_sub (im k) ! j"
  consider (skip) "\<not> si_used ?s \<or> \<not> si_enabled ?s" | (miss) "si_used ?s" "si_enabled ?s" "\<not> resolves d (si_handler ?s)"
    | (call) "si_used ?s" "si_enabled ?s" "resolves d (si_handler ?s)" by blast
  then show ?case
  proof cases
    case skip
    then show ?thesis using Cons.IH [of k] Cons.prems by auto
  next
    case miss
    then show ?thesis using Cons.IH [of "note_unresolved k"] Cons.prems by (auto simp: note_unresolved_def)
  next
    case call
    have im: "im (release_waits js k1) = im k1" for js k1
      by (induction js arbitrary: k1) (simp_all add: upd_thread_def)
    show ?thesis using call Cons.prems(5,6,7)
      by (simp add: Let_def call_guest_def enter_regs_def set_gpr_def set_cpu_def hle_ExitThread_def thread_unwind_def
          upd_thread_def im)
  qed
qed simp

text \<open>
  C28. A handler that ends the thread it interrupted stops interrupts for good. When the body of a started
  thread reaches a delivery with the guard clear, interrupts enabled and an enabled handler in place, and
  the handler calls sceKernelExitThread, sceKernelStartThread comes back to its caller with the
  re-entrance guard still set. From there on, whatever guest code does, nested to any depth and through
  any firmware call, the guard stays set and no delivery is attempted any more: both counters of handled
  and of unresolved interrupts stand still. Only a reset of the interrupt manager, which guest code cannot
  ask for, clears the guard.
\<close>
theorem intr_exit_stops_interrupts:
  assumes tick: "\<not> g_delivering (im k)" "\<not> psp_threadman_intr_disabled k"
    and handler: "i < MAX_SUBINTR" "si_used (g_sub (im k) ! i)" "si_enabled (g_sub (im k) ! i)"
      "resolves d (si_handler (g_sub (im k) ! i))"
    and thread: "g_current (tm k) = Some t" "t_unwind_set (g_thread (tm k) ! t)"
    and start: "find_thread (karg 0 k0) k0 = Some t" "t_state (g_thread (tm k0) ! t) \<noteq> TH_RUNNING"
    and body: "call_guest run (t_entry (g_thread (tm k0) ! t)) (thread_enter t k0) =
      psp_intr_tick (\<lambda>a. hle_ExitThread) d k"
  shows "\<exists>k'. hle_StartThread run k0 = Done () k' \<and> g_delivering (im k') \<and>
    (\<forall>code d' n a. flow_all (\<lambda>k2. g_delivering (im k2) \<and> g_deliveries (im k2) = g_deliveries (im k') \<and>
       g_unresolved (im k2) = g_unresolved (im k')) (exec code d' n a k'))"
proof -
  let ?k = "k\<lparr>im := (im k)\<lparr>g_delivering := True\<rparr>\<rparr>"
  obtain k1 where "intr_loop (\<lambda>a. hle_ExitThread) d [0..<MAX_SUBINTR] ?k = Unwound t k1" "g_delivering (im k1)"
    using intr_loop_exit [of i "[0..<MAX_SUBINTR]" ?k d t] handler thread by (auto simp del: upt_rec_numeral)
  then have u: "call_guest run (t_entry (g_thread (tm k0) ! t)) (thread_enter t k0) = Unwound t k1"
    "g_delivering (im k1)"
    using tick body by (simp_all add: psp_intr_tick_def del: upt_rec_numeral)
  let ?k' = "thread_leave t k0 k1"
  have g: "g_delivering (im ?k')" using u(2) by (simp add: thread_leave_def Let_def)
  then have "quiet (im ?k') ?k'" by (simp add: quiet_def)
  note q = exec_quiet [OF this, unfolded quiet_def [abs_def]]
  show ?thesis
    by (intro exI [of _ ?k'] conjI allI) (use u(1) start g q in \<open>simp_all add: hle_StartThread_def\<close>)
qed

theorem intr_exit_stops_interrupts_witness:
  "let k0 = one_thread\<lparr>im := psp_intrman_reset\<lparr>g_sub := [\<lparr>si_intr = 30, si_subintr = 0, si_handler = 0x100, si_arg = 0,
             si_enabled = True, si_used = True\<rparr>]\<rparr>\<rparr>
   in \<exists>k'. hle_StartThread (\<lambda>a. psp_intr_tick (\<lambda>a. hle_ExitThread) one_fn) k0 = Done () k' \<and> g_delivering (im k') \<and>
        (\<forall>code d' n a. flow_all (\<lambda>k2. g_delivering (im k2) \<and> g_deliveries (im k2) = g_deliveries (im k') \<and>
           g_unresolved (im k2) = g_unresolved (im k')) (exec code (d' :: nat dispatch) n a k'))"
proof -
  let ?I = "psp_intrman_reset\<lparr>g_sub := [\<lparr>si_intr = 30, si_subintr = 0, si_handler = 0x100, si_arg = 0,
             si_enabled = True, si_used = True\<rparr>]\<rparr>"
  let ?s = "one_thread\<lparr>im := ?I\<rparr>"
  let ?k = "set_cpu ((cpu (mach (thread_enter 0 ?s)))\<lparr>frame := 0 # frame (cpu (mach (thread_enter 0 ?s)))\<rparr>) (thread_enter 0 ?s)"
  let ?b = "psp_intr_tick (\<lambda>a. hle_ExitThread) one_fn"
  have f: "find_thread (karg 0 ?s) ?s = Some 0"
    unfolding find_thread_def
    by (rule find_index_SomeI)
      (simp_all add: karg_def psp_arg_def one_thread_def set_gpr_def boot_kern_def boot_machine_def psp_cpu_reset_def
        psp_threadman_reset_def)
  have l: "0 < length (g_thread (tm ?s))" by (simp add: one_thread_def boot_kern_def psp_threadman_reset_def)
  have e: "im ?k = ?I" "g_current (tm ?k) = Some 0" "t_unwind_set (g_thread (tm ?k) ! 0)"
    "\<not> psp_threadman_intr_disabled ?k"
    using l by (simp_all add: thread_enter_def Let_def upd_thread_def set_gpr_def set_cpu_def psp_threadman_intr_disabled_def)
  have st: "t_state (g_thread (tm ?s) ! 0) \<noteq> TH_RUNNING"
    by (simp add: one_thread_def boot_kern_def psp_threadman_reset_def zero_thread_def)
  obtain k1 where k1: "intr_loop (\<lambda>a. hle_ExitThread) one_fn [0..<MAX_SUBINTR] (?k\<lparr>im := (im ?k)\<lparr>g_delivering := True\<rparr>\<rparr>) = Unwound 0 k1"
    using intr_loop_exit [of 0 "[0..<MAX_SUBINTR]" "?k\<lparr>im := (im ?k)\<lparr>g_delivering := True\<rparr>\<rparr>" one_fn 0] e one_fn_resolves
    by (auto simp: psp_intrman_reset_def simp del: upt_rec_numeral)
  then have "?b ?k = Unwound 0 k1"
    using e by (simp add: psp_intr_tick_def psp_intrman_reset_def del: upt_rec_numeral)
  then have "call_guest (\<lambda>a. ?b) (t_entry (g_thread (tm ?s) ! 0)) (thread_enter 0 ?s) = ?b ?k"
    by (simp add: call_guest_def Let_def)
  from intr_exit_stops_interrupts [OF _ e(4) _ _ _ _ e(2,3) f st this, of 0] show ?thesis
    unfolding Let_def by (simp add: e(1) psp_intrman_reset_def one_fn_resolves)
qed

section \<open>The clock\<close>

lemma check_terminated_park: "check_terminated k = Done () k \<Longrightarrow> check_terminated (park_us us k) = Done () (park_us us k)"
  by (auto simp: check_terminated_def thread_unwind_def park_us_def Let_def split: option.splits if_splits)

lemma park_us_add: "park_us b (park_us a k) = park_us (a + b) k"
  by (simp add: park_us_def add.assoc)

lemma park_loop_clock: "check_terminated k = Done () k \<Longrightarrow> park_loop left k = Done () (park_us left k)"
proof (induction left k rule: park_loop.induct)
  case (1 left k)
  show ?case
  proof (cases "left = 0")
    case False
    define step where "step = (if left < TICK_US then left else TICK_US)"
    have p: "park_for step k = Done () (park_us step k)"
      using 1(2) check_terminated_park [OF 1(2)] by (simp add: park_for_def)
    have "park_loop (left - step) (park_us step k) = Done () (park_us (left - step) (park_us step k))"
      using 1(1) [OF False, of step] p check_terminated_park [OF 1(2)] by (simp add: step_def)
    then show ?thesis using False p
      by (subst park_loop.simps) (simp add: Let_def park_us_add flip: step_def)
  next
    case True
    then show ?thesis by (simp add: park_loop.simps park_us_def)
  qed
qed

text \<open>
  Virtual time passes exactly as the guest asks. A delay of any 64-bit length comes back, having
  advanced the clock by that many microseconds (by one tick when it asks for none) and changed nothing
  else, and the time the guest then reads is the epoch plus the sum of what it waited; unless the thread
  was terminated meanwhile, which ends the wait by unwinding.
\<close>
theorem park_ticks_advances_clock:
  assumes "check_terminated k = Done () k"
  shows "\<exists>k'. park_ticks us k = Done () k' \<and>
    k' = k\<lparr>tm := (tm k)\<lparr>g_vtime_us := g_vtime_us (tm k) + (if us = 0 then TICK_US else us)\<rparr>\<rparr> \<and>
    now_us k' = now_us k + (if us = 0 then TICK_US else us) \<and> check_terminated k' = Done () k'"
  using park_loop_clock [OF assms] check_terminated_park [OF assms]
  by (simp add: park_ticks_def park_us_def now_us_def add.assoc)

theorem park_ticks_advances_clock_witness:
  "\<exists>k'. park_ticks 2500 boot_kern = Done () k' \<and> now_us k' = 2500"
proof -
  have "check_terminated boot_kern = Done () boot_kern"
    by (simp add: check_terminated_def boot_kern_def psp_threadman_reset_def boot_record_def zero_thread_def)
  from park_ticks_advances_clock [OF this, of 2500] show ?thesis
    by (auto simp: now_us_def boot_kern_def psp_threadman_reset_def)
qed

section \<open>Critical sections\<close>

text \<open>
  Critical sections nest. The cookie a suspend returns, passed back to the resume, restores the
  masking state it was taken in: an inner pair leaves interrupts masked, the outer pair unmasks them;
  and while they are masked neither interrupts nor callbacks are delivered.
\<close>
theorem intr_suspend_resume_nests:
  assumes "0 \<le> g_tls_intr_depth (tm k)"
  shows "let (was, k1) = psp_threadman_intr_suspend k;
             k2 = psp_threadman_intr_resume (if was then 1 else 0) k1
         in k2 = k \<and> was = (\<not> psp_threadman_intr_disabled k) \<and> psp_threadman_intr_disabled k1 \<and>
            psp_intr_tick run d k1 = Done () k1 \<and> deliver_callbacks run d k1 = Done 0 k1"
  using assms by (simp add: psp_threadman_intr_suspend_def psp_threadman_intr_resume_def psp_threadman_intr_disabled_def
      psp_intr_tick_def deliver_callbacks_def Let_def)

theorem intr_suspend_resume_nests_witness:
  "let (was, k1) = psp_threadman_intr_suspend boot_kern;
       k2 = psp_threadman_intr_resume (if was then 1 else 0) k1
   in k2 = boot_kern \<and> was \<and> psp_intr_tick (\<lambda>a k. Diverged) one_fn k1 = Done () k1"
proof -
  have "0 \<le> g_tls_intr_depth (tm boot_kern)" "\<not> psp_threadman_intr_disabled boot_kern"
    by (simp_all add: boot_kern_def psp_threadman_reset_def psp_threadman_intr_disabled_def)
  then show ?thesis using intr_suspend_resume_nests [of boot_kern "\<lambda>a k. Diverged" one_fn]
    by (auto simp: Let_def case_prod_unfold)
qed

section \<open>Event flags are bit patterns\<close>

definition flag_abs :: "kern \<Rightarrow> u32 \<Rightarrow> u32 option" where
  "flag_abs k u = map_option f_pattern (obj_map f_used f_uid (g_flag (tm k)) u)"

lemma flag_abs_find: "flag_abs k u = map_option (\<lambda>i. f_pattern (g_flag (tm k) ! i)) (find_flag u k)"
  by (simp add: flag_abs_def obj_map_def find_flag_def option.map_comp comp_def)

lemma find_flagD:
  assumes "find_flag u k = Some i"
  shows "i < length (g_flag (tm k))" "f_used (g_flag (tm k) ! i)" "f_uid (g_flag (tm k) ! i) = u"
  using find_index_SomeD [OF assms [unfolded find_flag_def]] by auto

lemma flag_abs_frame [simp]: "flag_abs (kret x k) = flag_abs k" "flag_abs (kwrite32 a v k) = flag_abs k"
  by (simp_all add: flag_abs_def fun_eq_iff)

lemma flag_tab_ok: "tm_inv k \<Longrightarrow> obj_ok f_used f_uid (tm_next_uid (tm k)) (g_flag (tm k))"
  by (simp add: tm_inv_def tabs_ok_def)

lemma flag_abs_upd:
  assumes inv: "tm_inv k" and i: "find_flag u k = Some i"
    and f: "f_uid (f (g_flag (tm k) ! i)) = u" "f_used (f (g_flag (tm k) ! i))"
  shows "flag_abs (upd_flag i f k) = (flag_abs k)(u \<mapsto> f_pattern (f (g_flag (tm k) ! i)))"
  using flag_tab.map_upd [OF flag_tab_ok [OF inv] find_flagD(1,2) [OF i], of "f (g_flag (tm k) ! i)"] f
    find_flagD(3) [OF i]
  by (simp add: flag_abs_def upd_flag_def fun_eq_iff)

lemma flag_abs_delete:
  assumes inv: "tm_inv k" and i: "find_flag u k = Some i"
  shows "flag_abs (upd_flag i (\<lambda>f. f\<lparr>f_used := False\<rparr>) k) = (flag_abs k)(u := None)"
  using flag_tab.map_clear [OF flag_tab_ok [OF inv] find_flagD(1,2) [OF i]] find_flagD(3) [OF i]
  by (simp add: flag_abs_def upd_flag_def fun_eq_iff)

lemma mode_bits: "(mode AND 1 = (0 :: u32)) = (\<not> bit mode 0)" "(mode AND 0x20 = (0 :: u32)) = (\<not> bit mode 5)"
  using and_exp_eq_0_iff_not_bit [of mode 0] and_exp_eq_0_iff_not_bit [of mode 5] by simp_all

text \<open>What a wait on pattern \<open>p\<close> for \<open>bits\<close> in \<open>mode\<close> needs, and what a satisfied wait leaves.\<close>

definition flag_met :: "u32 \<Rightarrow> u32 \<Rightarrow> u32 \<Rightarrow> bool" where
  "flag_met p bits mode = (if bit mode 0 then \<exists>n. bit p n \<and> bit bits n else \<forall>n. bit bits n \<longrightarrow> bit p n)"

lemma and_zero_iff: "(p AND b = (0 :: u32)) = (\<forall>n. \<not> (bit p n \<and> bit b n))"
proof
  assume "p AND b = 0"
  then have "bit (p AND b) n = bit (0 :: u32) n" for n by simp
  then show "\<forall>n. \<not> (bit p n \<and> bit b n)" by (simp add: bit_and_iff)
next
  assume "\<forall>n. \<not> (bit p n \<and> bit b n)"
  then show "p AND b = 0" by (intro bit_word_eqI) (simp add: bit_and_iff)
qed

lemma and_id_iff: "(p AND b = (b :: u32)) = (\<forall>n. bit b n \<longrightarrow> bit p n)"
proof
  assume "p AND b = b"
  then have "bit (p AND b) n = bit b n" for n by simp
  then show "\<forall>n. bit b n \<longrightarrow> bit p n" by (auto simp: bit_and_iff)
next
  assume "\<forall>n. bit b n \<longrightarrow> bit p n"
  then show "p AND b = b" by (intro bit_word_eqI) (auto simp: bit_and_iff)
qed

lemma flag_ready_met: "flag_ready i bits mode k = flag_met (f_pattern (g_flag (tm k) ! i)) bits mode"
  unfolding flag_ready_def mode_bits by (simp add: flag_met_def and_zero_iff and_id_iff)

lemma flag_unknown:
  assumes "find_flag (karg 0 k) k = None"
  shows "hle_DeleteEventFlag k = kret SCE_KERNEL_ERROR_UNKNOWN_UID k"
    "hle_SetEventFlag k = kret SCE_KERNEL_ERROR_UNKNOWN_UID k"
    "hle_ClearEventFlag k = kret SCE_KERNEL_ERROR_UNKNOWN_UID k"
    "hle_PollEventFlag k = kret SCE_KERNEL_ERROR_UNKNOWN_UID k"
  using assms by (simp_all add: hle_DeleteEventFlag_def hle_SetEventFlag_def hle_ClearEventFlag_def hle_PollEventFlag_def)

lemma flag_out_same [simp]: "tm (flag_out i out k) = tm k" "cpu (mach (flag_out i out k)) = cpu (mach k)"
  by (simp_all add: flag_out_def)

lemma flag_clear_cpu [simp]: "cpu (mach (flag_clear i bits mode k)) = cpu (mach k)"
  by (simp add: flag_clear_def)

lemma flag_known:
  assumes inv: "tm_inv k" and i: "find_flag (karg 0 k) k = Some i"
    and p: "p = f_pattern (g_flag (tm k) ! i)" and m: "m = flag_abs k"
  shows "flag_abs (hle_SetEventFlag k) = m(karg 0 k \<mapsto> p OR karg 1 k)"
    and "flag_abs (hle_ClearEventFlag k) = m(karg 0 k \<mapsto> p AND karg 1 k)"
    and "flag_abs (hle_DeleteEventFlag k) = m(karg 0 k := None)"
    and "flag_abs (hle_PollEventFlag k) = (if flag_met p (karg 1 k) (karg 2 k) \<and> bit (karg 2 k) 5
      then m(karg 0 k \<mapsto> p AND NOT (karg 1 k)) else m)"
proof -
  have fr: "flag_ready i b md (flag_out i o' k) = flag_met p b md" for b md o'
    unfolding flag_ready_met p by simp
  have io: "tm_inv (flag_out i o' k)" "find_flag (karg 0 k) (flag_out i o' k) = Some i"
    "flag_abs (flag_out i o' k) = flag_abs k" for o'
    using inv i by (simp_all add: tm_inv_def find_flag_def flag_abs_def fun_eq_iff)
  show "flag_abs (hle_PollEventFlag k) = (if flag_met p (karg 1 k) (karg 2 k) \<and> bit (karg 2 k) 5
      then m(karg 0 k \<mapsto> p AND NOT (karg 1 k)) else m)"
    using find_flagD [OF i] io flag_abs_upd [OF io(1,2)] p m
    by (simp add: hle_PollEventFlag_def i Let_def fr flag_clear_def mode_bits)
qed (use flag_abs_delete [OF inv i] find_flagD [OF i] in
    \<open>simp_all add: hle_SetEventFlag_def hle_ClearEventFlag_def hle_DeleteEventFlag_def i p m flag_abs_upd [OF inv i]\<close>)

lemma flag_v0:
  assumes "length (gpr (cpu (mach k))) = PSP_NUM_GPR" and "find_flag (karg 0 k) k = Some i"
  shows "v0 (hle_SetEventFlag k) = SCE_KERNEL_ERROR_OK" "v0 (hle_ClearEventFlag k) = SCE_KERNEL_ERROR_OK"
    "v0 (hle_DeleteEventFlag k) = SCE_KERNEL_ERROR_OK"
    "v0 (hle_PollEventFlag k) = (if flag_met (f_pattern (g_flag (tm k) ! i)) (karg 1 k) (karg 2 k)
       then SCE_KERNEL_ERROR_OK else SCE_KERNEL_ERROR_EVF_COND)"
  using assms by (simp_all add: hle_SetEventFlag_def hle_ClearEventFlag_def hle_DeleteEventFlag_def
      hle_PollEventFlag_def flag_ready_met Let_def v0_kret)

text \<open>
  C27. The event-flag calls implement 32-bit patterns named by uids. With \<open>u\<close>, \<open>bits\<close> and \<open>mode\<close> the
  arguments: on a uid that names no flag every call returns the unknown-uid error and changes no flag.
  Otherwise, with pattern \<open>p\<close>: set adds bits, clear keeps only the given bits, delete forgets the uid;
  a poll succeeds when any awaited bit is set (mode bit 0) or all of them are, and then takes the
  awaited bits away when mode bit 5 asks for it; a poll that is not satisfied says so and changes
  nothing. No call touches any other flag.
\<close>
theorem flag_calls_refine_patterns:
  assumes inv: "tm_inv k" and regs: "length (gpr (cpu (mach k))) = PSP_NUM_GPR"
  shows "let m = flag_abs k; u = karg 0 k; bits = karg 1 k; mode = karg 2 k;
           result = (\<lambda>k'. (v0 k', flag_abs k')) in
    case m u of
      None \<Rightarrow> (\<forall>call \<in> {hle_DeleteEventFlag, hle_SetEventFlag, hle_ClearEventFlag, hle_PollEventFlag}.
        result (call k) = (SCE_KERNEL_ERROR_UNKNOWN_UID, m))
    | Some p \<Rightarrow>
        result (hle_SetEventFlag k) = (SCE_KERNEL_ERROR_OK, m(u \<mapsto> p OR bits)) \<and>
        result (hle_ClearEventFlag k) = (SCE_KERNEL_ERROR_OK, m(u \<mapsto> p AND bits)) \<and>
        result (hle_DeleteEventFlag k) = (SCE_KERNEL_ERROR_OK, m(u := None)) \<and>
        result (hle_PollEventFlag k) =
          (if flag_met p bits mode
           then (SCE_KERNEL_ERROR_OK, if bit mode 5 then m(u \<mapsto> p AND NOT bits) else m)
           else (SCE_KERNEL_ERROR_EVF_COND, m))"
proof (cases "find_flag (karg 0 k) k")
  case None
  then have "flag_abs k (karg 0 k) = None" by (simp add: flag_abs_find)
  then show ?thesis using flag_unknown [OF None] by (simp add: Let_def v0_kret regs)
next
  case (Some i)
  then have "flag_abs k (karg 0 k) = Some (f_pattern (g_flag (tm k) ! i))" by (simp add: flag_abs_find)
  then show ?thesis using flag_known [OF inv Some refl refl] flag_v0 [OF regs Some] by (simp add: Let_def)
qed

text \<open>A boot state with one event flag, about to be polled for bit 1 in the mode or-and-clear.\<close>

definition one_flag :: kern where
  "one_flag = set_gpr PSP_REG_A0 0x40000 (set_gpr PSP_REG_A1 2 (set_gpr 6 0x21 (boot_kern\<lparr>tm := (tm boot_kern)\<lparr>
     g_flag := (g_flag (tm boot_kern))[0 := zero_flag\<lparr>f_uid := 0x40000, f_pattern := 6, f_used := True\<rparr>],
     tm_next_uid := tm_next_uid (tm boot_kern) + 1\<rparr>\<rparr>)))"

theorem flag_calls_refine_patterns_witness:
  "flag_abs one_flag 0x40000 = Some 6 \<and> v0 (hle_PollEventFlag one_flag) = SCE_KERNEL_ERROR_OK \<and>
   flag_abs (hle_PollEventFlag one_flag) 0x40000 = Some 4"
proof -
  have inv: "tm_inv one_flag" unfolding one_flag_def inv_fields
    by (rule inv_new_flag [OF inv_boot]) (simp_all add: boot_kern_def psp_threadman_reset_def)
  have regs: "length (gpr (cpu (mach one_flag))) = PSP_NUM_GPR" "karg 0 one_flag = 0x40000" "karg 1 one_flag = 2"
    "karg 2 one_flag = 0x21"
    by (simp_all add: karg_def psp_arg_def one_flag_def set_gpr_def boot_kern_def boot_machine_def psp_cpu_reset_def)
  have "find_flag 0x40000 one_flag = Some 0" unfolding find_flag_def
    by (rule find_index_SomeI) (simp_all add: one_flag_def boot_kern_def psp_threadman_reset_def)
  then have a: "flag_abs one_flag 0x40000 = Some 6"
    by (simp add: flag_abs_find one_flag_def boot_kern_def psp_threadman_reset_def)
  have "bit (6 :: u32) 1 \<and> bit (2 :: u32) 1" "bit (0x21 :: u32) 0" "bit (0x21 :: u32) 5"
    by (simp_all add: bit_numeral_rec)
  then have "flag_met 6 2 0x21" unfolding flag_met_def by metis
  moreover have "(6 AND NOT 2 :: u32) = 4" by simp
  ultimately show ?thesis
    using flag_calls_refine_patterns [OF inv regs(1)] a \<open>bit (0x21 :: u32) 5\<close> by (simp add: Let_def regs [unfolded One_nat_def])
qed

section \<open>Pools over the user-memory allocator\<close>

lemma filter_update_same:
  "i < length xs \<Longrightarrow> \<not> P (xs ! i) \<Longrightarrow> \<not> P x \<Longrightarrow> filter P (xs[i := x]) = filter P xs"
  by (subst (2) id_take_nth_drop [of i xs]) (simp_all add: upd_conv_take_nth_drop)

lemma sysmem_alloc_low:
  assumes inv: "sysmem_inv S" and uid: "g_next_uid S < 0xFFFFFFFF" and sz: "unat sz \<le> 0xDFFFFF00"
  obtains (full) "psp_sysmem_alloc sz False S = Some (0, S)"
    | (fit) a S' i where "psp_sysmem_alloc sz False S = Some (a, S')" "a \<noteq> 0" "sysmem_inv S'"
        "fits S (unat (round_size sz)) 0x100 (unat a)" "i < length (g_block S)" "\<not> b_used (g_block S ! i)"
        "g_block S' = (g_block S)[i := \<lparr>b_uid = g_next_uid S, b_addr = a, b_size = round_size sz,
           b_name = internal_name, b_used = True\<rparr>]"
proof -
  note rs = unat_round_size [OF sz]
  obtain r where r: "place_low (round_size sz) 0x100 S = Some r"
    "r \<noteq> 0 \<longrightarrow> fits S (unat (round_size sz)) 0x100 (unat r)"
    using place_low_ok [OF inv rs(1,2), of 8] by (auto split: if_splits)
  show thesis
  proof (cases "r = 0 \<or> take_slot r (round_size sz) internal_name S = None")
    case True
    then have "psp_sysmem_alloc sz False S = Some (0, S)" using r(1) by (auto simp: psp_sysmem_alloc_def Let_def)
    then show thesis by (rule full)
  next
    case False
    then obtain u S' where t: "take_slot r (round_size sz) internal_name S = Some (u, S')" by auto
    then obtain i where i: "alloc_slot S = Some i" by (auto simp: take_slot_def split: option.splits)
    have il: "i < length (g_block S)" "\<not> b_used (g_block S ! i)"
      using find_index_SomeD [OF i [unfolded alloc_slot_def]] by auto
    have f: "fits S (unat (round_size sz)) 0x100 (unat r)" using r(2) False by blast
    show thesis
    proof (rule fit [OF _ _ _ f il])
      show "psp_sysmem_alloc sz False S = Some (r, S')" using r(1) False t by (simp add: psp_sysmem_alloc_def)
      show "sysmem_inv S'" by (rule take_slot_inv [OF inv f rs(1) uid t])
      show "g_block S' = (g_block S)[i := \<lparr>b_uid = g_next_uid S, b_addr = r, b_size = round_size sz,
          b_name = internal_name, b_used = True\<rparr>]" using t i by (auto simp: take_slot_def)
    qed (use False in blast)
  qed
qed

text \<open>No block in use has the address of a new one.\<close>

lemma fits_fresh:
  assumes "sysmem_inv S" and "fits S n A (unat a)" and "0 < n" and "b \<in> set (g_block S)" and "b_used b"
  shows "b_addr b \<noteq> a"
  using inv_block [OF assms(1,4,5)] assms by (auto simp: fits_def block_ok_def bstart_def bend_def apart_def)

lemma release_new:
  assumes inv: "sysmem_inv S" and f: "fits S n A (unat a)" "0 < n" and i: "i < length (g_block S)" "\<not> b_used (g_block S ! i)"
    and S': "g_block S' = (g_block S)[i := x]" "b_used x" "b_addr x = a"
  shows "filter b_used (g_block (psp_sysmem_release a S')) = filter b_used (g_block S)"
proof -
  have "find_index (\<lambda>b. b_used b \<and> b_addr b = a) (g_block S') = Some i" unfolding S'(1)
  proof (rule find_index_SomeI)
    fix j assume "j < i"
    then have "(g_block S)[i := x] ! j = g_block S ! j" "g_block S ! j \<in> set (g_block S)" using i by simp_all
    then show "\<not> (b_used ((g_block S)[i := x] ! j) \<and> b_addr ((g_block S)[i := x] ! j) = a)"
      using fits_fresh [OF inv f] by auto
  qed (use i S' in simp_all)
  then have "g_block (psp_sysmem_release a S') = (g_block S)[i := x\<lparr>b_used := False\<rparr>]"
    using i S' by (simp add: psp_sysmem_release_def)
  then show ?thesis using i by (simp add: filter_update_same)
qed

definition blocks_live :: "kern \<Rightarrow> bool" where
  "blocks_live k \<longleftrightarrow> (\<forall>b\<in>set (g_vplblk (tm k)). vb_used b \<longrightarrow>
     (\<exists>c\<in>set (g_block (sys k)). b_used c \<and> b_addr c = vb_addr b))"

lemma try_alloc_cases:
  assumes "take_vpl_block run d False k = Done SCE_KERNEL_ERROR_OK k1" and "find_vpl (karg 0 k) k = Some i" and "karg 1 k \<noteq> 0"
  obtains a S j k0 where "tm k0 = tm k" "sys k0 = sys k" "store (mem (mach k0)) = store (mem (mach k))"
    "psp_sysmem_alloc (karg 1 k) False (sys k) = Some (a, S)" "a \<noteq> 0" "vpl_room i (karg 1 k) k"
    "find_index (\<lambda>b. \<not> vb_used b) (g_vplblk (tm k)) = Some j"
    "k1 = kwrite32 (karg 2 k) a (upd_vpl i (\<lambda>v. v\<lparr>v_free_size := v_free_size v - karg 1 k\<rparr>)
       (set_blk j \<lparr>vb_vpl = v_uid (g_vpl (tm k) ! i), vb_addr = a, vb_size = karg 1 k, vb_used = True\<rparr> (k0\<lparr>sys := S\<rparr>)))"
proof -
  define k0 where "k0 = (if karg 3 k \<noteq> 0 then k\<lparr>mach := snd (psp_read32 (karg 3 k) (mach k))\<rparr> else k)"
  have k0: "tm k0 = tm k" "sys k0 = sys k" "store (mem (mach k0)) = store (mem (mach k))"
    by (simp_all add: k0_def psp_read32_def)
  have "vpl_room i (karg 1 k) k0 \<and> carve_block i (karg 1 k) (karg 2 k) k0 = Done SCE_KERNEL_ERROR_OK k1"
    using assms unfolding take_vpl_block_def by (auto simp: Let_def k0_def [symmetric] split: if_splits)
  then show thesis
    using that [OF k0] by (auto simp: carve_block_def k0 vpl_room_def split: option.splits if_splits)
qed

lemma live_new:
  assumes live: "blocks_live k" and j: "j < length (g_vplblk (tm k))" and i: "i < length (g_block (sys k))" "\<not> b_used (g_block (sys k) ! i)"
    and x: "b_used x" "b_addr x = vb_addr b" and k1: "g_vplblk (tm k1) = (g_vplblk (tm k))[j := b]" "g_block (sys k1) = (g_block (sys k))[i := x]"
  shows "blocks_live k1"
  unfolding blocks_live_def
proof (intro ballI impI)
  fix c assume c: "c \<in> set (g_vplblk (tm k1))" "vb_used c"
  have x1: "x \<in> set (g_block (sys k1))" unfolding k1 using i by (simp add: set_update_memI)
  consider "c = b" | "c \<in> set (g_vplblk (tm k))"
    using c set_update_subset_insert [of "g_vplblk (tm k)" j b] unfolding k1 by blast
  then show "\<exists>y\<in>set (g_block (sys k1)). b_used y \<and> b_addr y = vb_addr c"
  proof cases
    case 1
    then show ?thesis using x x1 by blast
  next
    case 2
    then obtain y where y: "y \<in> set (g_block (sys k))" "b_used y" "b_addr y = vb_addr c"
      using live c(2) by (auto simp: blocks_live_def)
    then obtain m where m: "m < length (g_block (sys k))" "g_block (sys k) ! m = y" by (auto simp: in_set_conv_nth)
    then have "m \<noteq> i" using i y by auto
    then have "g_block (sys k1) ! m = y" "m < length (g_block (sys k1))" using m by (simp_all add: k1)
    then have "y \<in> set (g_block (sys k1))" using nth_mem by metis
    then show ?thesis using y by blast
  qed
qed

lemma find_new_blk:
  assumes live: "blocks_live k" and sinv: "sysmem_inv (sys k)" and f: "fits (sys k) n A (unat a)" "0 < n"
    and j: "j < length (g_vplblk (tm k))" and b: "vb_used b" "vb_addr b = a"
    and k2: "g_vplblk (tm k2) = (g_vplblk (tm k))[j := b]"
  shows "find_blk (vb_vpl b) a k2 = Some j"
  unfolding find_blk_def k2
proof (rule find_index_SomeI)
  fix m assume "m < j"
  then have m: "(g_vplblk (tm k))[j := b] ! m = g_vplblk (tm k) ! m" "g_vplblk (tm k) ! m \<in> set (g_vplblk (tm k))"
    using j by simp_all
  have "vb_addr (g_vplblk (tm k) ! m) \<noteq> a" if "vb_used (g_vplblk (tm k) ! m)"
    using live m(2) that fits_fresh [OF sinv f] by (fastforce simp: blocks_live_def)
  then show "\<not> (vb_used ((g_vplblk (tm k))[j := b] ! m) \<and> vb_vpl ((g_vplblk (tm k))[j := b] ! m) = vb_vpl b \<and>
      vb_addr ((g_vplblk (tm k))[j := b] ! m) = a)" using m(1) by auto
qed (use j b in simp_all)

lemma free_gives_back:
  assumes inv: "tm_inv k2" and i: "find_vpl (karg 0 k2) k2 = Some i"
    and j: "find_blk (v_uid (g_vpl (tm k2) ! i)) (karg 1 k2) k2 = Some j"
  shows "g_vpl (tm (hle_FreeVpl k2)) = (g_vpl (tm k2))[i := (g_vpl (tm k2) ! i)
      \<lparr>v_free_size := v_free_size (g_vpl (tm k2) ! i) + vb_size (g_vplblk (tm k2) ! j)\<rparr>]"
    "sys (hle_FreeVpl k2) = psp_sysmem_release (karg 1 k2) (sys k2)"
  using find_index_SomeD [OF j [unfolded find_blk_def]]
  by (simp_all add: hle_FreeVpl_def i j [unfolded One_nat_def] drop_blk_def set_blk_def upd_vpl_def kret_def)

text \<open>
  C16. A block taken from a pool is the caller's alone and comes back whole. When an allocation succeeds,
  in a state where the pools' blocks are live in the user-memory allocator, the block lies in the heap,
  aligned, with room for the requested size, apart from every block in use, its address is stored where
  the caller asked; the pool has exactly that much less, and the invariants of pools and allocator
  hold. Freeing that address then restores the pool table and the set of used memory blocks to what
  they were.
\<close>
theorem vpl_alloc_free_roundtrip:
  assumes inv: "tm_inv k" and sinv: "sysmem_inv (sys k)" and uid: "g_next_uid (sys k) < 0xFFFFFFFF"
    and live: "blocks_live k" and vpl: "find_vpl (karg 0 k) k = Some i"
    and sz: "karg 1 k \<noteq> 0" "unat (karg 1 k) \<le> 0xDFFFFF00"
    and ok: "take_vpl_block run d False k = Done SCE_KERNEL_ERROR_OK k1"
  shows "\<exists>addr M. fits (sys k) (unat (round_size (karg 1 k))) 0x100 (unat addr) \<and>
      unat (karg 1 k) \<le> unat (round_size (karg 1 k)) \<and>
      mach k1 = psp_write32 (karg 2 k) addr M \<and> store (mem M) = store (mem (mach k)) \<and>
      unat (v_free_size (g_vpl (tm k1) ! i)) + unat (karg 1 k) = unat (v_free_size (g_vpl (tm k) ! i)) \<and>
      tm_inv k1 \<and> sysmem_inv (sys k1) \<and> blocks_live k1 \<and>
      (\<forall>k2. tm k2 = tm k1 \<and> sys k2 = sys k1 \<and> karg 0 k2 = karg 0 k \<and> karg 1 k2 = addr \<longrightarrow>
         g_vpl (tm (hle_FreeVpl k2)) = g_vpl (tm k) \<and>
         filter b_used (g_block (sys (hle_FreeVpl k2))) = filter b_used (g_block (sys k)))"
proof -
  let ?sz = "karg 1 k" and ?V = "g_vpl (tm k)" and ?B = "g_vplblk (tm k)"
  obtain a S j k0 where k0: "tm k0 = tm k" "sys k0 = sys k" "store (mem (mach k0)) = store (mem (mach k))"
    and al: "psp_sysmem_alloc ?sz False (sys k) = Some (a, S)" "a \<noteq> 0" and room: "vpl_room i ?sz k"
    and j: "find_index (\<lambda>b. \<not> vb_used b) ?B = Some j"
    and k1: "k1 = kwrite32 (karg 2 k) a (upd_vpl i (\<lambda>v. v\<lparr>v_free_size := v_free_size v - ?sz\<rparr>)
       (set_blk j \<lparr>vb_vpl = v_uid (?V ! i), vb_addr = a, vb_size = ?sz, vb_used = True\<rparr> (k0\<lparr>sys := S\<rparr>)))"
    by (rule try_alloc_cases [OF ok vpl sz(1)])
  note rs = unat_round_size [OF sz(2)]
  from sysmem_alloc_low [OF sinv uid sz(2)] al obtain m where S: "sysmem_inv S"
    "fits (sys k) (unat (round_size ?sz)) 0x100 (unat a)" "m < length (g_block (sys k))" "\<not> b_used (g_block (sys k) ! m)"
    "g_block S = (g_block (sys k))[m := \<lparr>b_uid = g_next_uid (sys k), b_addr = a, b_size = round_size ?sz,
       b_name = internal_name, b_used = True\<rparr>]" by auto
  note i = find_vplD [OF vpl inv]
  have jl: "j < length ?B" using find_index_SomeD [OF j] by blast
  let ?b = "\<lparr>vb_vpl = v_uid (?V ! i), vb_addr = a, vb_size = ?sz, vb_used = True\<rparr>"
  let ?v = "(?V ! i)\<lparr>v_free_size := v_free_size (?V ! i) - ?sz\<rparr>"
  have T1: "g_vpl (tm k1) = ?V[i := ?v]" "g_vplblk (tm k1) = ?B[j := ?b]" "sys k1 = S"
    "mach k1 = psp_write32 (karg 2 k) a (mach k0)"
    by (simp_all add: k1 kwrite32_def upd_vpl_def set_blk_def k0)
  have len: "length ?V = MAX_VPLS" using inv by (simp add: tm_inv_def tabs_ok_def)
  have inv1: "tm_inv k1" unfolding k1 inv_fields
    using inv_new_block [of "k0\<lparr>sys := S\<rparr>" i ?sz j a] inv i room j tm_inv_cong [OF k0(1)] by (simp add: k0 vpl_room_def)
  have free: "unat (v_free_size (g_vpl (tm k1) ! i)) + unat ?sz = unat (v_free_size (?V ! i))"
    using room i len by (simp add: T1 vpl_room_def unat_sub word_le_nat_alt)
  have live1: "blocks_live k1"
    by (rule live_new [OF live jl S(3,4) _ _ T1(2) S(5) [folded T1(3)]]) simp_all
  have freed: "g_vpl (tm (hle_FreeVpl k2)) = ?V \<and>
      filter b_used (g_block (sys (hle_FreeVpl k2))) = filter b_used (g_block (sys k))"
    if k2: "tm k2 = tm k1" "sys k2 = sys k1" "karg 0 k2 = karg 0 k" "karg 1 k2 = a" for k2
  proof -
    have inv2: "tm_inv k2" using inv1 tm_inv_cong [OF k2(1)] by simp
    have vi: "g_vpl (tm k2) ! i = ?v" "i < length (g_vpl (tm k2))" using i len by (simp_all add: k2 T1)
    have "obj_ok v_used v_uid (tm_next_uid (tm k2)) (g_vpl (tm k2))" using inv2 by (simp add: tm_inv_def tabs_ok_def)
    from vpl_tab.map_slot [OF this vi(2)] have f: "find_vpl (karg 0 k2) k2 = Some i"
      using vi i by (simp add: find_vpl_def k2(3))
    have fb: "find_blk (v_uid (g_vpl (tm k2) ! i)) (karg 1 k2) k2 = Some j"
      using find_new_blk [OF live sinv S(2) rs(1) jl, of ?b k2] T1(2) vi by (simp add: k2 [unfolded One_nat_def])
    have g: "g_vpl (tm (hle_FreeVpl k2)) = ?V"
      unfolding free_gives_back(1) [OF inv2 f fb] using vi i jl len by (simp add: k2 T1 list_update_same_conv)
    have "filter b_used (g_block (sys (hle_FreeVpl k2))) = filter b_used (g_block (sys k))"
      unfolding free_gives_back(2) [OF inv2 f fb] k2 T1(3)
      by (rule release_new [OF sinv S(2) rs(1) S(3,4,5)]) simp_all
    with g show ?thesis by blast
  qed
  show ?thesis using S(1,2) rs(3) T1(3,4) k0(3) free inv1 live1 freed by blast
qed

text \<open>A boot state with one pool of 4 KiB, about to be asked for 256 bytes.\<close>

definition one_pool :: kern where
  "one_pool = set_gpr PSP_REG_A0 0x40000 (set_gpr PSP_REG_A1 0x100 (set_gpr 6 0x08800000 (boot_kern\<lparr>tm := (tm boot_kern)\<lparr>
     g_vpl := (g_vpl (tm boot_kern))[0 := zero_vpl\<lparr>v_uid := 0x40000, v_pool_size := 0x1000, v_free_size := 0x1000,
       v_used := True\<rparr>],
     tm_next_uid := tm_next_uid (tm boot_kern) + 1\<rparr>\<rparr>)))"

lemma alloc_at_reset: "\<exists>S. psp_sysmem_alloc 0x100 False psp_sysmem_reset = Some (0x08C00000, S)"
proof -
  have "overlaps a sz psp_sysmem_reset = False" for a sz
    by (simp add: overlaps_def psp_sysmem_reset_def hits_def free_block_def list_ex_iff)
  moreover have "MAX_BLOCKS + 1 = Suc 512" by simp
  ultimately have "place_low 0x100 0x100 psp_sysmem_reset = Some 0x08C00000"
    unfolding place_low_def by (simp only: low_loop.simps) (simp add: align_up_def psp_sysmem_reset_def)
  moreover have "alloc_slot psp_sysmem_reset = Some 0" unfolding alloc_slot_def psp_sysmem_reset_def
    by (simp only: sysmem.select_convs) (rule find_index_replicate, simp_all add: free_block_def)
  moreover have "round_size 0x100 = 0x100" by (simp add: round_size_def)
  ultimately show ?thesis by (simp add: psp_sysmem_alloc_def take_slot_def)
qed

theorem vpl_alloc_free_roundtrip_witness:
  "\<exists>k1. take_vpl_block (\<lambda>a k. Diverged) one_fn False one_pool = Done SCE_KERNEL_ERROR_OK k1 \<and> tm_inv k1 \<and>
     unat (v_free_size (g_vpl (tm k1) ! 0)) + 0x100 = 0x1000"
proof -
  let ?run = "\<lambda>a k. Diverged"
  have inv: "tm_inv one_pool" unfolding one_pool_def inv_fields
    by (rule inv_new_vpl [OF inv_boot]) (simp_all add: boot_kern_def psp_threadman_reset_def)
  have sys: "sys one_pool = psp_sysmem_reset" by (simp add: one_pool_def set_gpr_def boot_kern_def)
  have args: "karg 0 one_pool = 0x40000" "karg 1 one_pool = 0x100" "karg 2 one_pool = 0x08800000" "karg 3 one_pool = 0"
    by (simp_all add: karg_def psp_arg_def one_pool_def set_gpr_def boot_kern_def boot_machine_def psp_cpu_reset_def)
  have pool: "g_vpl (tm one_pool) ! 0 = zero_vpl\<lparr>v_uid := 0x40000, v_pool_size := 0x1000, v_free_size := 0x1000,
      v_used := True\<rparr>" "g_vplblk (tm one_pool) = replicate MAX_VPL_BLOCKS zero_vplblk"
    by (simp_all add: one_pool_def boot_kern_def psp_threadman_reset_def)
  have vpl: "find_vpl (karg 0 one_pool) one_pool = Some 0" unfolding find_vpl_def args
    by (rule find_index_SomeI) (simp_all add: one_pool_def boot_kern_def psp_threadman_reset_def)
  have blk: "find_index (\<lambda>b. \<not> vb_used b) (g_vplblk (tm one_pool)) = Some 0" unfolding pool(2)
    by (rule find_index_replicate) (simp_all add: zero_vplblk_def)
  have live: "blocks_live one_pool" by (simp add: blocks_live_def pool(2) zero_vplblk_def)
  obtain k1 where k1: "take_vpl_block ?run one_fn False one_pool = Done SCE_KERNEL_ERROR_OK k1"
    using alloc_at_reset blk
    by (auto simp: take_vpl_block_def vpl [unfolded args] Let_def args [unfolded One_nat_def] vpl_room_def pool(1) carve_block_def sys)
  have "g_next_uid (sys one_pool) < 0xFFFFFFFF" "sysmem_inv (sys one_pool)"
    by (simp_all add: sys sysmem_inv_reset, simp add: psp_sysmem_reset_def)
  from vpl_alloc_free_roundtrip [OF inv this(2,1) live vpl _ _ k1] show ?thesis
    using k1 pool(1) by (auto simp: args [unfolded One_nat_def])
qed

end
