(* ===== verification/Float32.thy ===== *)
theory Float32
  imports Runtime
begin

unbundle bit_operations_syntax

text \<open>
  Single-precision arithmetic as the C sources use it: IEEE 754 binary32 with round to nearest, ties
  to even, on the bit patterns the register files hold. A finite pattern is a signed integer times a
  power of two; an operation computes its exact result and rounds it once. Where the standard leaves
  the pattern of a NaN result open, it is the quiet NaN \<open>0x7FC00000\<close>. A conversion to
  \<^verbatim>\<open>int\<close> whose value does not fit, which C leaves undefined, is \<^verbatim>\<open>INT_MIN\<close>, what the conversion
  instruction of the host returns.
\<close>

section \<open>Patterns\<close>

definition f32_sign :: "u32 \<Rightarrow> bool" where "f32_sign x \<longleftrightarrow> bit x 31"

definition f32_exp :: "u32 \<Rightarrow> int" where "f32_exp x = uint (drop_bit 23 x AND 0xFF)"

definition f32_frac :: "u32 \<Rightarrow> int" where "f32_frac x = uint (x AND 0x7FFFFF)"

definition f32_fin :: "u32 \<Rightarrow> bool" where "f32_fin x \<longleftrightarrow> f32_exp x \<noteq> 255"

definition f32_inf :: "u32 \<Rightarrow> bool" where "f32_inf x \<longleftrightarrow> f32_exp x = 255 \<and> f32_frac x = 0"

text \<open>The magnitude of a finite pattern is \<open>f32_mant x * 2 ^ f32_scale x\<close>.\<close>

definition f32_mant :: "u32 \<Rightarrow> int" where
  "f32_mant x = (if f32_exp x = 0 then f32_frac x else f32_frac x + 0x800000)"

definition f32_scale :: "u32 \<Rightarrow> int" where
  "f32_scale x = (if f32_exp x = 0 then - 149 else f32_exp x - 150)"

definition f32_smant :: "u32 \<Rightarrow> int" where
  "f32_smant x = (if f32_sign x then - f32_mant x else f32_mant x)"

abbreviation (input) f32_qnan :: u32 where "f32_qnan \<equiv> 0x7FC00000"

definition f32_signed :: "bool \<Rightarrow> u32 \<Rightarrow> u32" where
  "f32_signed s x = (if s then x OR 0x80000000 else x)"

section \<open>Rounding\<close>

function ilog2 :: "int \<Rightarrow> int" where
  "ilog2 n = (if n < 2 then 0 else 1 + ilog2 (n div 2))"
  by pat_completeness auto
termination by (relation "measure nat") auto

declare ilog2.simps [simp del]

definition div_even :: "int \<Rightarrow> int \<Rightarrow> int" where
  "div_even a b =
     (let q = a div b; r = a mod b
      in if 2 * r < b then q else if 2 * r > b then q + 1 else q + q mod 2)"

text \<open>
  The pattern nearest to \<open>n / d\<close>. The quotient lies in \<open>[2 ^ e, 2 ^ (e + 1))\<close>; the unit in the last
  place is \<open>2 ^ q\<close>; adding the rounded multiple to the exponent field carries by itself.
\<close>

definition f32_round :: "bool \<Rightarrow> int \<Rightarrow> int \<Rightarrow> u32" where
  "f32_round s n d =
     f32_signed s
       (if n = 0 then 0
        else let l = ilog2 n - ilog2 d;
                 e = (if n * 2 ^ nat (- l) \<ge> d * 2 ^ nat l then l else l - 1);
                 q = max (e - 23) (- 149);
                 b = (q + 149) * 0x800000 + div_even (n * 2 ^ nat (- q)) (d * 2 ^ nat q)
             in if b \<ge> 0x7F800000 then 0x7F800000 else of_int b)"

definition f32_of_dyadic :: "bool \<Rightarrow> int \<Rightarrow> int \<Rightarrow> u32" where
  "f32_of_dyadic s m q = f32_round s (m * 2 ^ nat q) (2 ^ nat (- q))"

section \<open>Operators\<close>

definition f32_neg :: "u32 \<Rightarrow> u32" where "f32_neg x = x XOR 0x80000000"

definition f32_abs :: "u32 \<Rightarrow> u32" where "f32_abs x = x AND 0x7FFFFFFF"

definition f32_add :: "u32 \<Rightarrow> u32 \<Rightarrow> u32" where
  "f32_add x y =
     (if f32_nan x \<or> f32_nan y then f32_qnan
      else if f32_inf x then (if f32_inf y \<and> f32_sign x \<noteq> f32_sign y then f32_qnan else x)
      else if f32_inf y then y
      else let q = min (f32_scale x) (f32_scale y);
               m = f32_smant x * 2 ^ nat (f32_scale x - q) + f32_smant y * 2 ^ nat (f32_scale y - q)
           in if m = 0 then f32_signed (f32_sign x \<and> f32_sign y) 0
              else f32_of_dyadic (m < 0) \<bar>m\<bar> q)"

definition f32_sub :: "u32 \<Rightarrow> u32 \<Rightarrow> u32" where
  "f32_sub x y = f32_add x (f32_neg y)"

definition f32_mul :: "u32 \<Rightarrow> u32 \<Rightarrow> u32" where
  "f32_mul x y =
     (let s = (f32_sign x \<noteq> f32_sign y) in
      if f32_nan x \<or> f32_nan y then f32_qnan
      else if f32_inf x then (if f32_fin y \<and> f32_mant y = 0 then f32_qnan else f32_signed s 0x7F800000)
      else if f32_inf y then (if f32_mant x = 0 then f32_qnan else f32_signed s 0x7F800000)
      else f32_of_dyadic s (f32_mant x * f32_mant y) (f32_scale x + f32_scale y))"

definition f32_div :: "u32 \<Rightarrow> u32 \<Rightarrow> u32" where
  "f32_div x y =
     (let s = (f32_sign x \<noteq> f32_sign y) in
      if f32_nan x \<or> f32_nan y then f32_qnan
      else if f32_inf x then (if f32_inf y then f32_qnan else f32_signed s 0x7F800000)
      else if f32_inf y then f32_signed s 0
      else if f32_mant y = 0 then (if f32_mant x = 0 then f32_qnan else f32_signed s 0x7F800000)
      else (let q = f32_scale x - f32_scale y
            in f32_round s (f32_mant x * 2 ^ nat q) (f32_mant y * 2 ^ nat (- q))))"

section \<open>Conversions\<close>

definition f32_of_int :: "int \<Rightarrow> u32" where
  "f32_of_int i = f32_round (i < 0) \<bar>i\<bar> 1"

definition f32_trunc :: "u32 \<Rightarrow> int" where
  "f32_trunc x =
     (let t = f32_mant x * 2 ^ nat (f32_scale x) div 2 ^ nat (- f32_scale x)
      in if f32_sign x then - t else t)"

definition f32_to_int :: "u32 \<Rightarrow> int" where
  "f32_to_int x =
     (let t = f32_trunc x
      in if f32_fin x \<and> - 0x80000000 \<le> t \<and> t < 0x80000000 then t else - 0x80000000)"

definition f32_floor :: "u32 \<Rightarrow> u32" where
  "f32_floor x =
     (if \<not> f32_fin x \<or> f32_scale x \<ge> 0 then x
      else let k = f32_smant x div 2 ^ nat (- f32_scale x)
           in if k = 0 then f32_signed (f32_sign x) 0 else f32_of_int k)"

text \<open>The mathematical functions of the host's C library, whose results the language does not fix.\<close>

record libm =
  sinf :: "u32 \<Rightarrow> u32"
  cosf :: "u32 \<Rightarrow> u32"
  asinf :: "u32 \<Rightarrow> u32"
  powf :: "u32 \<Rightarrow> u32 \<Rightarrow> u32"
  logf :: "u32 \<Rightarrow> u32"
  sqrtf :: "u32 \<Rightarrow> u32"

section \<open>The square root of recomp\_rt.h\<close>

primrec fsqrt_steps :: "nat \<Rightarrow> u32 \<Rightarrow> u32 \<Rightarrow> u32" where
  "fsqrt_steps 0 v g = g"
| "fsqrt_steps (Suc n) v g = fsqrt_steps n v (f32_mul 0x3F000000 (f32_add g (f32_div v g)))"

definition psp_fsqrt :: "u32 \<Rightarrow> u32" where
  "psp_fsqrt v = (if f32_le v 0 then 0 else fsqrt_steps 24 v v)"

section \<open>Rounding an exact value\<close>

lemma ilog2_eq: "2 ^ k \<le> n \<Longrightarrow> n < 2 ^ Suc k \<Longrightarrow> ilog2 n = int k"
proof (induction k arbitrary: n)
  case 0
  then show ?case by (subst ilog2.simps) simp
next
  case (Suc k)
  then have "ilog2 (n div 2) = int k" by (intro Suc.IH) auto
  moreover have "\<not> n < 2" using Suc.prems self_le_power [of "2 :: int" "Suc k"] by linarith
  ultimately show ?case by (subst ilog2.simps) simp
qed

lemma ilog2_ex: "0 < n \<Longrightarrow> \<exists>k. ilog2 n = int k \<and> 2 ^ k \<le> n \<and> n < 2 ^ Suc k"
proof (induction n rule: ilog2.induct)
  case (1 n)
  show ?case
  proof (cases "n < 2")
    case True
    then have "n = 1" using 1(2) by simp
    then show ?thesis using ilog2_eq [of 0 1] by (intro exI [of _ 0]) simp
  next
    case False
    then have "0 < n div 2" by linarith
    with False obtain k where k: "ilog2 (n div 2) = int k" "2 ^ k \<le> n div 2" "n div 2 < 2 ^ Suc k"
      using 1(1) by blast
    then have "2 ^ Suc k \<le> n" "n < 2 ^ Suc (Suc k)" by auto
    then show ?thesis using ilog2_eq [of "Suc k" n] by blast
  qed
qed

lemma ilog2_shift: "0 < n \<Longrightarrow> ilog2 (n * 2 ^ j) = ilog2 n + int j"
proof -
  assume "0 < n"
  then obtain k where k: "ilog2 n = int k" "2 ^ k \<le> n" "n < 2 ^ Suc k" using ilog2_ex by blast
  have "2 ^ (k + j) \<le> n * 2 ^ j" using k(2) by (simp add: power_add)
  moreover have "n * 2 ^ j < 2 ^ Suc (k + j)" using k(3) by (simp add: power_add)
  ultimately show ?thesis using ilog2_eq [of "k + j" "n * 2 ^ j"] k(1) by simp
qed

lemma div_even_exact: "0 < b \<Longrightarrow> div_even (m * b) b = m"
  by (simp add: div_even_def)

lemma pow2_split: "(2 :: int) ^ nat q * 2 ^ nat (- q) = 2 ^ nat \<bar>q\<bar>"
  by (cases "0 \<le> q") auto

text \<open>A mantissa and a scale that a pattern has are rounded to that pattern.\<close>

lemma f32_round_exact:
  assumes "0 < m" and "m < 0x1000000" and "- 149 \<le> q" and "q = - 149 \<or> 0x800000 \<le> m"
    and "(q + 149) * 0x800000 + m < 0x7F800000"
  shows "f32_of_dyadic s m q = f32_signed s (of_int ((q + 149) * 0x800000 + m))"
proof -
  define n d where "n = m * 2 ^ nat q" and "d = (2 :: int) ^ nat (- q)"
  have d: "0 < d" and n: "0 < n" using assms(1) by (simp_all add: n_def d_def)
  obtain k where k: "ilog2 m = int k" "2 ^ k \<le> m" "m < 2 ^ Suc k" using ilog2_ex assms(1) by blast
  have "ilog2 d = int (nat (- q))" using ilog2_eq [of "nat (- q)" d] by (simp add: d_def)
  moreover have "ilog2 n = int k + int (nat q)" using ilog2_shift [OF assms(1)] k(1) by (simp add: n_def)
  ultimately have l: "ilog2 n - ilog2 d = int k + q" by simp
  have e: "d * 2 ^ nat (int k + q) \<le> n * 2 ^ nat (- (int k + q))"
  proof -
    have "d * 2 ^ nat (int k + q) = 2 ^ k * 2 ^ nat q * 2 ^ nat (- (int k + q))"
      unfolding d_def power_add [symmetric] by (rule arg_cong [where f = "(^) 2"]) simp
    also have "\<dots> \<le> n * 2 ^ nat (- (int k + q))" unfolding n_def using k(2) by simp
    finally show ?thesis .
  qed
  have k23: "k \<le> 23"
  proof (rule ccontr)
    assume "\<not> k \<le> 23"
    then have "(2 :: int) ^ 24 \<le> 2 ^ k" by (intro power_increasing) auto
    then show False using k(2) assms(2) by simp
  qed
  have "k = 23" if "0x800000 \<le> m"
  proof (rule ccontr)
    assume "k \<noteq> 23"
    then have "(2 :: int) ^ Suc k \<le> 2 ^ 23" using k23 by (intro power_increasing) auto
    then show False using k(3) that by simp
  qed
  then have q: "max (int k + q - 23) (- 149) = q" using assms(3,4) k23 by auto
  have "div_even (n * 2 ^ nat (- q)) (d * 2 ^ nat q) = m"
    using div_even_exact [of "d * 2 ^ nat q" m] d by (simp add: n_def d_def mult.commute mult.left_commute)
  then show ?thesis
    using n e q assms(5)
    by (simp only: f32_of_dyadic_def f32_round_def n_def [symmetric] d_def [symmetric] l Let_def if_True q) simp
qed

section \<open>Finite patterns\<close>

lemma f32_exp_less: "0 \<le> f32_exp x" "f32_exp x < 256"
proof -
  have "uint (drop_bit 23 x AND 0xFF) \<le> uint (0xFF :: u32)"
    by (metis word_and_le1 word_le_def)
  then show "f32_exp x < 256" by (simp add: f32_exp_def)
qed (simp add: f32_exp_def)

lemma f32_frac_eq: "f32_frac x = uint x mod 0x800000"
proof -
  have "(0x7FFFFF :: u32) = mask 23" by (simp add: mask_eq_exp_minus_1)
  then show ?thesis unfolding f32_frac_def
    by (simp only: take_bit_eq_mask [symmetric] unsigned_take_bit_eq) (simp add: take_bit_eq_mod)
qed

lemma uint_div_pow2: "uint (drop_bit k x) = uint (x :: u32) div 2 ^ k"
proof -
  have "take_bit 32 (uint x) = uint x" using uint_lt2p [of x] by (simp add: take_bit_eq_mod)
  then show ?thesis using unsigned_drop_bit_eq [where ?'a = int, of k x] by (simp add: drop_bit_eq_div)
qed

lemma top_bit_div: "0 \<le> u \<Longrightarrow> u < 0x100000000 \<Longrightarrow> u div 0x80000000 = (if 0x80000000 \<le> u then 1 else 0 :: int)"
  by (auto intro: int_div_pos_eq [of _ _ 1 "u - 0x80000000"])

lemma f32_exp_eq: "f32_exp x = uint x div 0x800000 mod 256"
proof -
  have "(0xFF :: u32) = mask 8" by (simp add: mask_eq_exp_minus_1)
  then show ?thesis unfolding f32_exp_def
    by (simp only: take_bit_eq_mask [symmetric] unsigned_take_bit_eq uint_div_pow2)
       (simp add: take_bit_eq_mod)
qed

lemma f32_sign_eq: "f32_sign x \<longleftrightarrow> 0x80000000 \<le> uint x"
proof -
  have "uint x < 2 ^ 32" using uint_lt2p [of x] by simp
  moreover have "f32_sign x \<longleftrightarrow> odd (uint x div 2 ^ 31)"
    unfolding f32_sign_def bit_iff_odd [symmetric] by (simp add: bit_uint_iff)
  ultimately show ?thesis using top_bit_div [of "uint x"] by simp
qed

lemma f32_uint: "uint x = (if f32_sign x then 0x80000000 else 0) + f32_exp x * 0x800000 + f32_frac x"
proof -
  have u: "u = (if 0x80000000 \<le> u then 0x80000000 else 0) + u div 0x800000 mod 256 * 0x800000 + u mod 0x800000"
    if "0 \<le> u" "u < 0x100000000" for u :: int
  proof -
    have "u div 0x800000 div 256 = (if 0x80000000 \<le> u then 1 else 0)"
      using top_bit_div [OF that] by (simp add: zdiv_zmult2_eq [symmetric])
    moreover have "u div 0x800000 mod 256 = u div 0x800000 - u div 0x800000 div 256 * 256"
      by (simp only: minus_div_mult_eq_mod)
    moreover have "u div 0x800000 * 0x800000 + u mod 0x800000 = u" by simp
    ultimately show ?thesis by (simp only: left_diff_distrib) (simp split: if_splits)
  qed
  show ?thesis unfolding f32_sign_eq f32_exp_eq f32_frac_eq
    by (rule u) (use uint_lt2p [of x] in auto)
qed

lemma f32_mant_range: "0 \<le> f32_mant x" "f32_mant x < 0x1000000"
  by (simp_all add: f32_mant_def f32_frac_eq) (smt (verit) pos_mod_bound)

lemma f32_scale_range: "- 149 \<le> f32_scale x" "f32_fin x \<Longrightarrow> f32_scale x \<le> 104"
  using f32_exp_less [of x] by (auto simp: f32_scale_def f32_fin_def)

lemma f32_signed_uint: "uint y < 0x80000000 \<Longrightarrow> uint (f32_signed s y) = (if s then 0x80000000 else 0) + uint y"
proof -
  assume y: "uint y < 0x80000000"
  have "y OR 0x80000000 = y + 0x80000000"
  proof (rule disjunctive_add [symmetric])
    fix n show "\<not> bit y n \<or> \<not> bit (0x80000000 :: u32) n"
    proof (cases "n = 31")
      case True
      then show ?thesis using y f32_sign_eq [of y] by (simp add: f32_sign_def)
    next
      case False
      moreover have "(0x80000000 :: u32) = push_bit 31 1" by simp
      ultimately show ?thesis by (simp only: bit_push_bit_iff bit_1_iff) auto
    qed
  qed
  then show ?thesis using y by (simp add: f32_signed_def uint_word_ariths)
qed

text \<open>Every finite pattern is the rounding of its own value.\<close>

lemma f32_of_dyadic_id:
  assumes "f32_fin x"
  shows "f32_of_dyadic (f32_sign x) (f32_mant x) (f32_scale x) = x"
proof (cases "f32_mant x = 0")
  case True
  then have "f32_exp x = 0" "f32_frac x = 0"
    using pos_mod_sign [of "0x800000" "uint x"] by (auto simp: f32_mant_def f32_frac_eq split: if_splits)
  then have "uint x = uint (f32_signed (f32_sign x) 0)"
    using f32_uint [of x] f32_signed_uint [of 0 "f32_sign x"] by simp
  then show ?thesis using True by (simp add: f32_of_dyadic_def f32_round_def word_uint_eq_iff)
next
  case False
  have e: "f32_exp x < 255" using f32_exp_less [of x] assms by (simp add: f32_fin_def)
  have fr: "0 \<le> f32_frac x" "f32_frac x < 0x800000" by (simp_all add: f32_frac_eq)
  define b where "b = (f32_scale x + 149) * 0x800000 + f32_mant x"
  have b: "b = f32_exp x * 0x800000 + f32_frac x"
    by (simp add: b_def f32_scale_def f32_mant_def algebra_simps)
  then have "0 \<le> b" "b < 0x7F800000" using e fr f32_exp_less [of x] by auto
  moreover from this have "uint (of_int b :: u32) = b" by (simp add: word_of_int_eq_iff [symmetric] uint_word_of_int)
  ultimately have "uint (f32_signed (f32_sign x) (of_int b)) = uint x"
    using f32_signed_uint [of "of_int b" "f32_sign x"] f32_uint [of x] b by simp
  then have "f32_signed (f32_sign x) (of_int b) = x" by (simp add: word_uint_eq_iff)
  moreover have "f32_of_dyadic (f32_sign x) (f32_mant x) (f32_scale x) = f32_signed (f32_sign x) (of_int b)"
    unfolding b_def
  proof (rule f32_round_exact)
    show "0 < f32_mant x" using False f32_mant_range [of x] by simp
    show "f32_scale x = - 149 \<or> 0x800000 \<le> f32_mant x"
      using fr by (auto simp: f32_scale_def f32_mant_def)
    show "(f32_scale x + 149) * 0x800000 + f32_mant x < 0x7F800000" using \<open>b < 0x7F800000\<close> by (simp add: b_def)
  qed (use f32_mant_range [of x] f32_scale_range [of x] in auto)
  ultimately show ?thesis by simp
qed

section \<open>Units and zeros\<close>

lemma div_even_scale: "0 < k \<Longrightarrow> div_even (a * k) (b * k) = div_even a b"
  unfolding div_even_def by (simp add: mod_mult_mult2 Let_def mult.assoc [symmetric])

text \<open>Rounding depends on the quotient only.\<close>

lemma f32_round_scale:
  assumes "0 \<le> n" and "0 < d"
  shows "f32_round s (n * 2 ^ j) (d * 2 ^ j) = f32_round s n d"
proof (cases "n = 0")
  case False
  then have n: "0 < n" using assms(1) by simp
  have l: "ilog2 (n * 2 ^ j) - ilog2 (d * 2 ^ j) = ilog2 n - ilog2 d"
    using ilog2_shift n assms(2) by simp
  have c: "d * 2 ^ j * x \<le> n * 2 ^ j * y \<longleftrightarrow> d * x \<le> n * y" for x y :: int
    using mult_le_cancel_right_pos [of "2 ^ j" "d * x" "n * y"] by (simp add: mult.commute mult.left_commute)
  have e: "div_even (n * 2 ^ j * x) (d * 2 ^ j * y) = div_even (n * x) (d * y)" for x y :: int
    using div_even_scale [of "2 ^ j" "n * x" "d * y"] by (simp add: mult.commute mult.left_commute mult.assoc)
  show ?thesis using False by (simp add: f32_round_def l c e)
qed (simp add: f32_round_def)

lemma f32_round_ratio:
  assumes "0 \<le> n" and "n * 2 ^ b = n' * 2 ^ a"
  shows "f32_round s n (2 ^ a) = f32_round s n' (2 ^ b)"
proof (cases "a \<le> b")
  case True
  then have p: "(2 :: int) ^ b = 2 ^ a * 2 ^ (b - a)" by (simp add: power_add [symmetric])
  then have "n' = n * 2 ^ (b - a)" using assms(2) by simp
  then show ?thesis using f32_round_scale [OF assms(1), of "2 ^ a" s "b - a"] p by simp
next
  case False
  then have p: "(2 :: int) ^ a = 2 ^ b * 2 ^ (a - b)" by (simp add: power_add [symmetric])
  then have n: "n = n' * 2 ^ (a - b)" using assms(2) by simp
  then have "0 \<le> n'" using assms(1) by (simp add: zero_le_mult_iff)
  then show ?thesis using f32_round_scale [of n' "2 ^ b" s "a - b"] p n by simp
qed

lemma f32_of_dyadic_shift:
  assumes "0 \<le> m"
  shows "f32_of_dyadic s (m * 2 ^ j) (q - int j) = f32_of_dyadic s m q"
  unfolding f32_of_dyadic_def
proof (rule f32_round_ratio)
  have "(2 :: int) ^ j * 2 ^ nat (q - int j) * 2 ^ nat (- q) = 2 ^ nat q * 2 ^ nat (- (q - int j))"
    unfolding power_add [symmetric] by (rule arg_cong [where f = "(^) 2"]) simp
  then show "m * 2 ^ j * 2 ^ nat (q - int j) * 2 ^ nat (- q) = m * 2 ^ nat q * 2 ^ nat (- (q - int j))"
    by (simp add: mult.assoc)
qed (use assms in simp)

lemma f32_fin_not: "f32_fin x \<Longrightarrow> \<not> f32_nan x" "f32_fin x \<Longrightarrow> \<not> f32_inf x"
proof -
  assume fin: "f32_fin x"
  then show "\<not> f32_inf x" by (simp add: f32_fin_def f32_inf_def)
  have "x AND 0x7F800000 \<noteq> 0x7F800000"
  proof
    assume "x AND 0x7F800000 = 0x7F800000"
    then have "drop_bit 23 (x AND 0x7F800000) = (0xFF :: u32)" by simp
    then have "drop_bit 23 x AND 0xFF = 0xFF" by (simp add: drop_bit_and)
    then show False using fin by (simp add: f32_fin_def f32_exp_def)
  qed
  then show "\<not> f32_nan x" by (simp add: f32_nan_def)
qed

lemma f32_one_parts:
  "f32_fin 0x3F800000" "f32_mant 0x3F800000 = 2 ^ 23" "f32_scale 0x3F800000 = - 23" "\<not> f32_sign 0x3F800000"
  by (simp_all add: f32_fin_def f32_mant_def f32_scale_def f32_exp_eq f32_frac_eq f32_sign_eq)

lemma f32_zero_parts:
  "f32_fin 0" "f32_mant 0 = 0" "\<not> f32_sign 0" "f32_scale 0 = - 149" "f32_smant 0 = 0"
  by (simp_all add: f32_fin_def f32_mant_def f32_scale_def f32_exp_eq f32_frac_eq f32_sign_eq f32_smant_def)

lemma f32_nzero_parts:
  "f32_fin 0x80000000" "f32_mant 0x80000000 = 0" "f32_sign 0x80000000" "f32_scale 0x80000000 = - 149"
  "f32_smant 0x80000000 = 0"
  by (simp_all add: f32_fin_def f32_mant_def f32_scale_def f32_exp_eq f32_frac_eq f32_sign_eq f32_smant_def)

lemmas f32_consts = f32_one_parts f32_zero_parts f32_nzero_parts

lemma f32_mul_one: "f32_fin x \<Longrightarrow> f32_mul x 0x3F800000 = x"
proof -
  assume fin: "f32_fin x"
  have "f32_mul x 0x3F800000 = f32_of_dyadic (f32_sign x) (f32_mant x * 2 ^ 23) (f32_scale x - int 23)"
    using fin f32_fin_not [OF fin] f32_fin_not [OF f32_one_parts(1)]
    by (simp only: f32_mul_def Let_def f32_consts) simp
  also have "\<dots> = x"
    unfolding f32_of_dyadic_shift [OF f32_mant_range(1)] by (rule f32_of_dyadic_id [OF fin])
  finally show ?thesis .
qed

lemma f32_mul_zero: "f32_fin x \<Longrightarrow> f32_mul x 0 = f32_signed (f32_sign x) 0"
  using f32_fin_not [of x] f32_fin_not [OF f32_zero_parts(1)]
  by (simp add: f32_mul_def Let_def f32_consts f32_of_dyadic_def f32_round_def)

lemma f32_smant_nz:
  assumes "f32_mant x \<noteq> 0"
  shows "f32_smant x \<noteq> 0" "f32_smant x < 0 \<longleftrightarrow> f32_sign x" "\<bar>f32_smant x\<bar> = f32_mant x"
  using assms f32_mant_range [of x] by (auto simp: f32_smant_def)

text \<open>A positive zero, and adding a zero of either sign.\<close>

definition pos_zero :: "u32 \<Rightarrow> u32" where
  "pos_zero x = (if f32_mant x = 0 then 0 else x)"

lemma f32_add_zero:
  assumes "f32_fin x" and "z = 0 \<or> z = 0x80000000"
  shows "f32_mant x \<noteq> 0 \<Longrightarrow> f32_add x z = x" and "f32_mant x \<noteq> 0 \<Longrightarrow> f32_add z x = x"
proof -
  have z: "f32_fin z" "f32_scale z = - 149" "f32_smant z = 0" using assms(2) by (auto simp: f32_consts)
  define j where "j = nat (f32_scale x + 149)"
  have q: "min (f32_scale x) (- 149) = f32_scale x - int j" "nat (f32_scale x - (f32_scale x - int j)) = j"
    using f32_scale_range [of x] by (auto simp: j_def)
  assume nz: "f32_mant x \<noteq> 0"
  note s = f32_smant_nz [OF nz]
  have m: "f32_smant x * 2 ^ j \<noteq> 0" "f32_smant x * 2 ^ j < 0 \<longleftrightarrow> f32_sign x"
    "\<bar>f32_smant x * 2 ^ j\<bar> = f32_mant x * 2 ^ j"
    using s by (simp_all add: mult_less_0_iff abs_mult)
  have "f32_of_dyadic (f32_sign x) (f32_mant x * 2 ^ j) (f32_scale x - int j) = x"
    unfolding f32_of_dyadic_shift [OF f32_mant_range(1)] by (rule f32_of_dyadic_id [OF assms(1)])
  then show "f32_add x z = x" "f32_add z x = x"
    using f32_fin_not [OF assms(1)] f32_fin_not [OF z(1)] m q(2)
    by (simp_all add: f32_add_def Let_def z q(1) min.commute [of "- 149"] del: diff_diff_eq2)
qed

lemma f32_zero_add:
  assumes "f32_fin x"
  shows "f32_add 0 x = pos_zero x"
proof (cases "f32_mant x = 0")
  case True
  then show ?thesis
    using f32_fin_not [OF assms] f32_fin_not [OF f32_zero_parts(1)]
    by (simp add: f32_add_def Let_def f32_consts pos_zero_def f32_smant_def f32_signed_def)
next
  case False
  then show ?thesis using f32_add_zero(2) [OF assms, of 0] by (simp add: pos_zero_def)
qed

lemma f32_add_zeros: "z = 0 \<or> z = 0x80000000 \<Longrightarrow> f32_fin x \<Longrightarrow> f32_add (pos_zero x) z = pos_zero x"
  using f32_add_zero(1) [of x z] f32_zero_add [of z] by (auto simp: pos_zero_def f32_consts)

section \<open>Integers that a pattern holds exactly\<close>

lemma f32_normal_parts:
  fixes s :: bool
  assumes "0x800000 \<le> m" and "m < 0x1000000" and "- 149 \<le> q" and "q \<le> 104"
  defines "x \<equiv> f32_of_dyadic s m q"
  shows "f32_fin x" and "f32_sign x = s" and "f32_mant x = m" and "f32_scale x = q"
proof -
  define b where "b = (q + 149) * 0x800000 + m"
  have b: "0 \<le> b" "b < 0x7F800000" "b = (q + 150) * 0x800000 + (m - 0x800000)"
    using assms(1-4) by (auto simp: b_def)
  have x: "x = f32_signed s (of_int b)"
    unfolding x_def b_def by (rule f32_round_exact) (use assms(1-4) b in \<open>auto simp: b_def\<close>)
  have "uint (of_int b :: u32) = b" using b(1,2) by (simp add: uint_word_of_int)
  then have u: "uint x = (if s then 0x80000000 else 0) + b"
    using f32_signed_uint [of "of_int b" s] b(2) by (simp add: x)
  then show sgn: "f32_sign x = s" using b by (simp add: f32_sign_eq)
  define k where "k = (if s then 256 else 0) + (q + 150)"
  have ux: "uint x = k * 0x800000 + (m - 0x800000)" using u b(3) by (simp add: k_def algebra_simps)
  have d1: "uint x div 0x800000 = k" by (rule int_div_pos_eq [of _ _ _ "m - 0x800000"]) (use assms(1,2) ux in auto)
  moreover have "uint x mod 0x800000 = uint x - uint x div 0x800000 * 0x800000" by (simp only: minus_div_mult_eq_mod)
  ultimately have d: "uint x div 0x800000 = k" "uint x mod 0x800000 = m - 0x800000" using ux by simp_all
  have e: "f32_exp x = q + 150"
  proof -
    have "f32_exp x = (q + 150) mod 256" unfolding f32_exp_eq d(1) k_def by (cases s) (simp_all only: if_True if_False mod_add_self1 add_0)
    then show ?thesis using assms(3,4) by simp
  qed
  then show "f32_fin x" "f32_scale x = q" using assms(3,4) by (simp_all add: f32_fin_def f32_scale_def)
  show "f32_mant x = m" using e assms(3) by (simp add: f32_mant_def f32_frac_eq d(2))
qed

text \<open>An integer of at most 24 bits over a power of two, as a pattern and back.\<close>

lemma f32_small_int:
  assumes "i \<noteq> 0" and "\<bar>i\<bar> < 0x1000000" and "s \<le> 31"
  obtains j where "f32_fin (f32_round (i < 0) \<bar>i\<bar> (2 ^ s))"
    and "f32_smant (f32_round (i < 0) \<bar>i\<bar> (2 ^ s)) = i * 2 ^ j"
    and "f32_scale (f32_round (i < 0) \<bar>i\<bar> (2 ^ s)) = - int s - int j"
proof -
  obtain k where k: "2 ^ k \<le> \<bar>i\<bar>" "\<bar>i\<bar> < 2 ^ Suc k" using ilog2_ex [of "\<bar>i\<bar>"] assms(1) by auto
  have k23: "k \<le> 23"
  proof (rule ccontr)
    assume "\<not> k \<le> 23"
    then have "(2 :: int) ^ 24 \<le> 2 ^ k" by (intro power_increasing) auto
    then show False using k(1) assms(2) by simp
  qed
  define j where "j = 23 - k"
  define m where "m = \<bar>i\<bar> * 2 ^ j"
  have p: "(2 :: int) ^ k * 2 ^ j = 2 ^ 23" using k23 by (simp add: j_def power_add [symmetric])
  have m: "0x800000 \<le> m" "m < 0x1000000"
  proof -
    have "2 ^ k * 2 ^ j \<le> m" unfolding m_def using k(1) by (intro mult_right_mono) auto
    then show "0x800000 \<le> m" by (simp add: p)
    have "m < 2 ^ Suc k * 2 ^ j" unfolding m_def using k(2) by (intro mult_strict_right_mono) auto
    then show "m < 0x1000000" using p by simp
  qed
  let ?x = "f32_round (i < 0) \<bar>i\<bar> (2 ^ s)"
  have "?x = f32_of_dyadic (i < 0) \<bar>i\<bar> (- int s)" by (simp add: f32_of_dyadic_def)
  also have "\<dots> = f32_of_dyadic (i < 0) m (- int s - int j)"
    unfolding m_def by (rule f32_of_dyadic_shift [symmetric]) simp
  finally have x: "?x = f32_of_dyadic (i < 0) m (- int s - int j)" .
  have q: "- 149 \<le> - int s - int j" "- int s - int j \<le> 104" using assms(3) by (auto simp: j_def)
  note P = f32_normal_parts [OF m q, of "i < 0"]
  show thesis
  proof (rule that [of j])
    show "f32_fin ?x" "f32_scale ?x = - int s - int j" using P x by simp_all
    show "f32_smant ?x = i * 2 ^ j" unfolding f32_smant_def x P(2,3) by (auto simp: m_def)
  qed
qed

section \<open>How far the square root gets\<close>

lemma fsqrt_steps_add: "fsqrt_steps (m + n) v g = fsqrt_steps n v (fsqrt_steps m v g)"
  by (induction m arbitrary: g) simp_all

lemma fsqrt_big_halves:
  "fsqrt_steps 8 0x7F000000 0x7F000000 = 0x7B000000" "fsqrt_steps 8 0x7F000000 0x7B000000 = 0x77000000"
  "fsqrt_steps 8 0x7F000000 0x77000000 = 0x73000000"
  by code_simp+

lemma fsqrt_small:
  "fsqrt_steps 8 0x40800000 0x40800000 = 0x40000000" "fsqrt_steps 8 0x40800000 0x40000000 = 0x40000000"
  by code_simp+

lemma fsqrt_guards: "\<not> f32_le 0x40800000 0" "\<not> f32_le 0x7F000000 0" by code_simp+

text \<open>
  The square root iterates a fixed 24 times from the argument itself, and each step at most halves
  the estimate: the root of 4 is exact, but the root of \<open>2 ^ 127\<close> comes out as \<open>2 ^ 103\<close> instead of a
  value near \<open>2 ^ 63\<close>.
\<close>
theorem psp_fsqrt_not_converged:
  "psp_fsqrt 0x40800000 = 0x40000000 \<and> psp_fsqrt 0x7F000000 = 0x73000000"
proof -
  have "fsqrt_steps 24 v g = fsqrt_steps 16 v (fsqrt_steps 8 v g)" "fsqrt_steps 16 v g = fsqrt_steps 8 v (fsqrt_steps 8 v g)" for v g
    using fsqrt_steps_add [of 8 16 v g] fsqrt_steps_add [of 8 8 v g] by simp_all
  then show ?thesis by (simp add: psp_fsqrt_def fsqrt_guards fsqrt_big_halves fsqrt_small)
qed

end
