(* ===== verification/Vfpu.thy ===== *)
theory Vfpu
  imports Float32
begin

unbundle bit_operations_syntax

text \<open>
  The vector unit: \<^verbatim>\<open>src/vfpu.c\<close> with the enumerations of \<^verbatim>\<open>include/psprecomp/vfpu.h\<close>. The 128
  registers are the bit patterns of \<open>vreg\<close>; a size is the number of lanes, from one to four. The
  results of the mathematical functions of the host's C library, which the language does not fix, are
  an argument.
\<close>

section \<open>State\<close>

record vfpu =
  g_prefix :: "u32 list"
  g_prefix_set :: "bool list"
  g_traps :: u64

record vmachine =
  vf :: vfpu
  vm :: psp_machine

definition psp_vfpu_reset :: vfpu where
  "psp_vfpu_reset = \<lparr>g_prefix = [0, 0, 0], g_prefix_set = [False, False, False], g_traps = 0\<rparr>"

definition psp_vfpu_set_prefix :: "int \<Rightarrow> u32 \<Rightarrow> vfpu \<Rightarrow> vfpu" where
  "psp_vfpu_set_prefix which value u =
     (if which < 0 \<or> which > 2 then u
      else u\<lparr>g_prefix := (g_prefix u)[nat which := value],
             g_prefix_set := (g_prefix_set u)[nat which := True]\<rparr>)"

definition psp_vfpu_prefix_pending :: "vfpu \<Rightarrow> bool" where
  "psp_vfpu_prefix_pending u \<longleftrightarrow> g_prefix_set u ! 0 \<or> g_prefix_set u ! 1 \<or> g_prefix_set u ! 2"

definition psp_vfpu_unimplemented :: "vfpu \<Rightarrow> vfpu" where
  "psp_vfpu_unimplemented u = u\<lparr>g_traps := g_traps u + 1\<rparr>"

definition clear_prefixes :: "vfpu \<Rightarrow> vfpu" where
  "clear_prefixes u = u\<lparr>g_prefix_set := [False, False, False]\<rparr>"

definition take_prefixes :: "vmachine \<Rightarrow> bool \<times> vmachine" where
  "take_prefixes V =
     (if \<not> psp_vfpu_prefix_pending (vf V) then (True, V)
      else (False, V\<lparr>vf := psp_vfpu_unimplemented (clear_prefixes (vf V))\<rparr>))"

definition end_op :: "vmachine \<Rightarrow> vmachine" where
  "end_op V = V\<lparr>vf := clear_prefixes (vf V)\<rparr>"

abbreviation vregs :: "vmachine \<Rightarrow> u32 list" where
  "vregs V \<equiv> vreg (cpu (vm V))"

definition set_vregs :: "u32 list \<Rightarrow> vmachine \<Rightarrow> vmachine" where
  "set_vregs r V = V\<lparr>vm := (vm V)\<lparr>cpu := (cpu (vm V))\<lparr>vreg := r\<rparr>\<rparr>\<rparr>"

definition set_vcc :: "u32 \<Rightarrow> vmachine \<Rightarrow> vmachine" where
  "set_vcc x V = V\<lparr>vm := (vm V)\<lparr>cpu := (cpu (vm V))\<lparr>vfpu_cc := x\<rparr>\<rparr>\<rparr>"

section \<open>Register addressing\<close>

definition vfield :: "u32 \<Rightarrow> nat \<Rightarrow> u32 \<Rightarrow> nat" where
  "vfield v s m = unat (drop_bit s v AND m)"

definition lanes4 :: "u32 \<Rightarrow> nat \<Rightarrow> nat list" where
  "lanes4 v sz =
     (let mtx = vfield v 2 7; col = vfield v 0 3;
          transpose = (if sz = 1 then 0 else vfield v 5 1);
          row = (if sz = 1 then vfield v 5 3 else if sz = 3 then vfield v 6 1 else vfield v 5 2)
      in map (\<lambda>i. let step = (row + i) mod 4
                  in if transpose \<noteq> 0 then mtx * 4 + step * 32 + col else mtx * 4 + col * 32 + step)
           [0..<4])"

definition psp_vfpu_regs :: "u32 \<Rightarrow> nat \<Rightarrow> nat list" where
  "psp_vfpu_regs v sz =
     (let len = (if sz \<ge> 1 \<and> sz \<le> 4 then sz else 4) in take len (lanes4 v len))"

section \<open>Prefixes\<close>

abbreviation (input) f32_one :: u32 where "f32_one \<equiv> 0x3F800000"

definition PFX_CONST :: "u32 list" where
  "PFX_CONST = [0, f32_one, 0x40000000, 0x3F000000, 0x40400000, f32_div f32_one 0x40400000, 0x3E800000,
     f32_div f32_one 0x40C00000]"

definition sat0 :: "u32 \<Rightarrow> u32" where
  "sat0 v = (if f32_lt v 0 then 0 else if f32_lt f32_one v then f32_one else v)"

definition sat1 :: "u32 \<Rightarrow> u32" where
  "sat1 v = (if f32_lt v 0xBF800000 then 0xBF800000 else if f32_lt f32_one v then f32_one else v)"

definition src_lane :: "u32 \<Rightarrow> nat list \<Rightarrow> nat \<Rightarrow> vmachine \<Rightarrow> u32" where
  "src_lane p l i V =
     (let sw = vfield p (2 * i) 3; ab = vfield p (8 + i) 1; k = vfield p (12 + i) 1;
          x0 = (if k \<noteq> 0 then PFX_CONST ! (sw + 4 * ab) else vregs V ! (l ! sw));
          x1 = (if k = 0 \<and> ab \<noteq> 0 then f32_abs x0 else x0)
      in if vfield p (16 + i) 1 \<noteq> 0 then f32_neg x1 else x1)"

definition read_src :: "nat \<Rightarrow> u32 \<Rightarrow> nat \<Rightarrow> vmachine \<Rightarrow> u32 list" where
  "read_src which v sz V =
     (let l = lanes4 v sz in
      if \<not> g_prefix_set (vf V) ! which then map (\<lambda>i. vregs V ! (l ! i)) [0..<sz]
      else map (\<lambda>i. src_lane (g_prefix (vf V) ! which) l i V) [0..<sz])"

definition dst_value :: "u32 \<Rightarrow> nat \<Rightarrow> u32 \<Rightarrow> u32" where
  "dst_value p i x = (let k = vfield p (2 * i) 3 in if k = 1 then sat0 x else if k = 3 then sat1 x else x)"

primrec write_lanes :: "u32 \<Rightarrow> nat list \<Rightarrow> u32 list \<Rightarrow> nat list \<Rightarrow> u32 list \<Rightarrow> u32 list" where
  "write_lanes p l xs [] r = r"
| "write_lanes p l xs (i # is) r =
     write_lanes p l xs is
       (if vfield p (8 + i) 1 \<noteq> 0 then r else r[l ! i := dst_value p i (xs ! i)])"

definition dst_prefix :: "vmachine \<Rightarrow> u32" where
  "dst_prefix V = (if g_prefix_set (vf V) ! 2 then g_prefix (vf V) ! 2 else 0)"

definition write_dst :: "u32 \<Rightarrow> nat \<Rightarrow> u32 list \<Rightarrow> vmachine \<Rightarrow> vmachine" where
  "write_dst v sz xs V = set_vregs (write_lanes (dst_prefix V) (lanes4 v sz) xs [0..<sz] (vregs V)) V"

section \<open>Moves between the integer and vector files\<close>

definition psp_mfv :: "u32 \<Rightarrow> vmachine \<Rightarrow> u32" where
  "psp_mfv reg V =
     (if reg AND 0x80 \<noteq> 0
      then (let c = reg AND 0x7F
            in if c \<le> 2 then g_prefix (vf V) ! unat (reg AND 3)
               else if c = 3 then vfpu_cc (cpu (vm V)) else 0)
      else vregs V ! (lanes4 (reg AND 0x7F) 1 ! 0))"

definition psp_mtv :: "u32 \<Rightarrow> u32 \<Rightarrow> vmachine \<Rightarrow> vmachine" where
  "psp_mtv reg bits V =
     (if reg AND 0x80 \<noteq> 0
      then (let c = reg AND 0x7F
            in if c \<le> 2 then V\<lparr>vf := psp_vfpu_set_prefix (uint (reg AND 3)) (bits AND 0xFFFFF) (vf V)\<rparr>
               else if c = 3 then set_vcc (bits AND 0x3F) V else V)
      else set_vregs ((vregs V)[lanes4 (reg AND 0x7F) 1 ! 0 := bits]) V)"

section \<open>Load and store\<close>

definition vread :: "u32 \<Rightarrow> vmachine \<Rightarrow> u32 \<times> vmachine" where
  "vread a V = (let (x, M) = psp_read_f32 a (vm V) in (x, V\<lparr>vm := M\<rparr>))"

definition vwrite :: "u32 \<Rightarrow> u32 \<Rightarrow> vmachine \<Rightarrow> vmachine" where
  "vwrite a x V = V\<lparr>vm := psp_write_f32 a x (vm V)\<rparr>"

definition load_lane :: "nat \<Rightarrow> u32 \<Rightarrow> vmachine \<Rightarrow> vmachine" where
  "load_lane r a V = (let (x, V1) = vread a V in set_vregs ((vregs V1)[r := x]) V1)"

definition psp_lv_s :: "u32 \<Rightarrow> u32 \<Rightarrow> vmachine \<Rightarrow> vmachine" where
  "psp_lv_s vt addr V = load_lane (psp_vfpu_regs vt 1 ! 0) (addr AND NOT 3) V"

definition psp_sv_s :: "u32 \<Rightarrow> u32 \<Rightarrow> vmachine \<Rightarrow> vmachine" where
  "psp_sv_s vt addr V = vwrite (addr AND NOT 3) (vregs V ! (psp_vfpu_regs vt 1 ! 0)) V"

definition psp_lv_q :: "u32 \<Rightarrow> u32 \<Rightarrow> vmachine \<Rightarrow> vmachine" where
  "psp_lv_q vt addr V =
     (let r = psp_vfpu_regs vt 4; a = addr AND NOT 15
      in fold (\<lambda>i. load_lane (r ! i) (a + of_nat i * 4)) [0..<4] V)"

definition psp_sv_q :: "u32 \<Rightarrow> u32 \<Rightarrow> vmachine \<Rightarrow> vmachine" where
  "psp_sv_q vt addr V =
     (let r = psp_vfpu_regs vt 4; a = addr AND NOT 15
      in fold (\<lambda>i V. vwrite (a + of_nat i * 4) (vregs V ! (r ! i)) V) [0..<4] V)"

section \<open>Arithmetic\<close>

text \<open>\<^verbatim>\<open>BINOP\<close>, with the scalar expression as its argument.\<close>

definition vbinop :: "(u32 \<Rightarrow> u32 \<Rightarrow> u32) \<Rightarrow> u32 \<Rightarrow> u32 \<Rightarrow> u32 \<Rightarrow> nat \<Rightarrow> vmachine \<Rightarrow> vmachine" where
  "vbinop f vd vs vt sz V =
     (let s = read_src 0 vs sz V; t = read_src 1 vt sz V
      in end_op (write_dst vd sz (map (\<lambda>i. f (s ! i) (t ! i)) [0..<sz]) V))"

definition psp_vadd :: "u32 \<Rightarrow> u32 \<Rightarrow> u32 \<Rightarrow> nat \<Rightarrow> vmachine \<Rightarrow> vmachine" where
  "psp_vadd = vbinop f32_add"
definition psp_vsub :: "u32 \<Rightarrow> u32 \<Rightarrow> u32 \<Rightarrow> nat \<Rightarrow> vmachine \<Rightarrow> vmachine" where
  "psp_vsub = vbinop f32_sub"
definition psp_vmul :: "u32 \<Rightarrow> u32 \<Rightarrow> u32 \<Rightarrow> nat \<Rightarrow> vmachine \<Rightarrow> vmachine" where
  "psp_vmul = vbinop f32_mul"
definition psp_vdiv :: "u32 \<Rightarrow> u32 \<Rightarrow> u32 \<Rightarrow> nat \<Rightarrow> vmachine \<Rightarrow> vmachine" where
  "psp_vdiv = vbinop f32_div"
definition psp_vmin :: "u32 \<Rightarrow> u32 \<Rightarrow> u32 \<Rightarrow> nat \<Rightarrow> vmachine \<Rightarrow> vmachine" where
  "psp_vmin = vbinop (\<lambda>a b. if f32_lt a b then a else b)"
definition psp_vmax :: "u32 \<Rightarrow> u32 \<Rightarrow> u32 \<Rightarrow> nat \<Rightarrow> vmachine \<Rightarrow> vmachine" where
  "psp_vmax = vbinop (\<lambda>a b. if f32_lt b a then a else b)"
definition psp_vsge :: "u32 \<Rightarrow> u32 \<Rightarrow> u32 \<Rightarrow> nat \<Rightarrow> vmachine \<Rightarrow> vmachine" where
  "psp_vsge = vbinop (\<lambda>a b. if f32_le b a then f32_one else 0)"
definition psp_vslt :: "u32 \<Rightarrow> u32 \<Rightarrow> u32 \<Rightarrow> nat \<Rightarrow> vmachine \<Rightarrow> vmachine" where
  "psp_vslt = vbinop (\<lambda>a b. if f32_lt a b then f32_one else 0)"
definition psp_vscmp :: "u32 \<Rightarrow> u32 \<Rightarrow> u32 \<Rightarrow> nat \<Rightarrow> vmachine \<Rightarrow> vmachine" where
  "psp_vscmp = vbinop (\<lambda>a b. if f32_lt a b then 0xBF800000 else if f32_lt b a then f32_one else 0)"

text \<open>The running sum of products of lanes \<open>0\<close> to \<open>n - 1\<close>, from zero.\<close>

definition dot_sum :: "u32 list \<Rightarrow> u32 list \<Rightarrow> nat \<Rightarrow> u32" where
  "dot_sum s t n = fold (\<lambda>i acc. f32_add acc (f32_mul (s ! i) (t ! i))) [0..<n] 0"

definition psp_vdot :: "u32 \<Rightarrow> u32 \<Rightarrow> u32 \<Rightarrow> nat \<Rightarrow> vmachine \<Rightarrow> vmachine" where
  "psp_vdot vd vs vt sz V =
     (let s = read_src 0 vs sz V; t = read_src 1 vt sz V
      in end_op (write_dst vd 1 [dot_sum s t sz] V))"

definition psp_vhdp :: "u32 \<Rightarrow> u32 \<Rightarrow> u32 \<Rightarrow> nat \<Rightarrow> vmachine \<Rightarrow> vmachine" where
  "psp_vhdp vd vs vt sz V =
     (let s = read_src 0 vs sz V; t = read_src 1 vt sz V
      in end_op (write_dst vd 1 [f32_add (dot_sum s t (sz - 1)) (t ! (sz - 1))] V))"

definition psp_vscl :: "u32 \<Rightarrow> u32 \<Rightarrow> u32 \<Rightarrow> nat \<Rightarrow> vmachine \<Rightarrow> vmachine" where
  "psp_vscl vd vs vt sz V =
     (let s = read_src 0 vs sz V; t = read_src 1 vt 1 V
      in end_op (write_dst vd sz (map (\<lambda>i. f32_mul (s ! i) (t ! 0)) [0..<sz]) V))"

definition psp_vcrs :: "u32 \<Rightarrow> u32 \<Rightarrow> u32 \<Rightarrow> nat \<Rightarrow> vmachine \<Rightarrow> vmachine" where
  "psp_vcrs vd vs vt sz V =
     (let s = read_src 0 vs 3 V; t = read_src 1 vt 3 V
      in end_op (write_dst vd 3
           [f32_mul (s ! 1) (t ! 2), f32_mul (s ! 2) (t ! 0), f32_mul (s ! 0) (t ! 1)] V))"

definition psp_vcrsp :: "u32 \<Rightarrow> u32 \<Rightarrow> u32 \<Rightarrow> nat \<Rightarrow> vmachine \<Rightarrow> vmachine" where
  "psp_vcrsp vd vs vt sz V =
     (if sz = 4
      then (let s = read_src 0 vs 4 V; t = read_src 1 vt 4 V;
                p = (\<lambda>i j. f32_mul (s ! i) (t ! j)); n = (\<lambda>i j. f32_mul (f32_neg (s ! i)) (t ! j))
            in end_op (write_dst vd 4
                 [f32_add (f32_sub (f32_add (p 0 3) (p 1 2)) (p 2 1)) (p 3 0),
                  f32_add (f32_add (f32_add (n 0 2) (p 1 3)) (p 2 0)) (p 3 1),
                  f32_add (f32_add (f32_sub (p 0 1) (p 1 0)) (p 2 3)) (p 3 2),
                  f32_add (f32_sub (f32_sub (n 0 0) (p 1 1)) (p 2 2)) (p 3 3)] V))
      else (let s = read_src 0 vs 3 V; t = read_src 1 vt 3 V;
                p = (\<lambda>i j. f32_mul (s ! i) (t ! j))
            in end_op (write_dst vd 3
                 [f32_sub (p 1 2) (p 2 1), f32_sub (p 2 0) (p 0 2), f32_sub (p 0 1) (p 1 0)] V)))"

definition psp_vdet :: "u32 \<Rightarrow> u32 \<Rightarrow> u32 \<Rightarrow> nat \<Rightarrow> vmachine \<Rightarrow> vmachine" where
  "psp_vdet vd vs vt sz V =
     (let s = read_src 0 vs 2 V; t = read_src 1 vt 2 V
      in end_op (write_dst vd 1 [f32_sub (f32_mul (s ! 0) (t ! 1)) (f32_mul (s ! 1) (t ! 0))] V))"

section \<open>Unary operations and conversions\<close>

datatype vu_op = VU_MOV | VU_ABS | VU_NEG | VU_ZERO | VU_ONE | VU_RCP | VU_RSQ | VU_SQRT | VU_SIN | VU_COS
    | VU_EXP2 | VU_LOG2 | VU_SAT0 | VU_SAT1 | VU_NRCP | VU_NSIN | VU_REXP2 | VU_ASIN | VU_F2IZ | VU_I2F
    | VU_F2IN | VU_F2IU | VU_F2ID | VU_OCP | VU_SGN

text \<open>
  \<^verbatim>\<open>f2i\<close> computes in \<^verbatim>\<open>double\<close>, exactly: the value is the integer \<open>n\<close> over the power of two \<open>d\<close>,
  and \<^verbatim>\<open>round_even\<close> is \<open>div_even\<close>.
\<close>

definition f2i_int :: "u32 \<Rightarrow> nat \<Rightarrow> vu_op \<Rightarrow> int" where
  "f2i_int x scale opc =
     (let e = f32_scale x + int scale; n = f32_smant x * 2 ^ nat e; d = 2 ^ nat (- e)
      in case opc of VU_F2IN \<Rightarrow> div_even n d
           | VU_F2IU \<Rightarrow> - ((- n) div d)
           | VU_F2ID \<Rightarrow> n div d
           | _ \<Rightarrow> if n < 0 then - ((- n) div d) else n div d)"

definition f2i :: "u32 \<Rightarrow> nat \<Rightarrow> vu_op \<Rightarrow> u32" where
  "f2i x scale opc =
     (if f32_nan x then 0x7FFFFFFF
      else if \<not> f32_fin x then (if f32_sign x then 0x80000000 else 0x7FFFFFFF)
      else let r = f2i_int x scale opc
           in if r \<ge> 0x80000000 then 0x7FFFFFFF else if r \<le> - 0x80000000 then 0x80000000 else of_int r)"

definition i2f :: "u32 \<Rightarrow> nat \<Rightarrow> u32" where
  "i2f bits scale = f32_round (sint bits < 0) \<bar>sint bits\<bar> (2 ^ scale)"

definition vu_scalar :: "libm \<Rightarrow> vu_op \<Rightarrow> u32 \<Rightarrow> u32 option" where
  "vu_scalar L opc a =
     (case opc of
        VU_MOV \<Rightarrow> Some a
      | VU_ABS \<Rightarrow> Some (if f32_lt a 0 then f32_neg a else a)
      | VU_NEG \<Rightarrow> Some (f32_neg a)
      | VU_ZERO \<Rightarrow> Some 0
      | VU_ONE \<Rightarrow> Some f32_one
      | VU_RCP \<Rightarrow> Some (f32_div f32_one a)
      | VU_NRCP \<Rightarrow> Some (f32_div 0xBF800000 a)
      | VU_RSQ \<Rightarrow> Some (f32_div f32_one (psp_fsqrt a))
      | VU_SQRT \<Rightarrow> Some (psp_fsqrt a)
      | VU_SIN \<Rightarrow> Some (sinf L (f32_mul a 0x3FC90FDB))
      | VU_COS \<Rightarrow> Some (cosf L (f32_mul a 0x3FC90FDB))
      | VU_NSIN \<Rightarrow> Some (f32_neg (sinf L (f32_mul a 0x3FC90FDB)))
      | VU_ASIN \<Rightarrow> Some (f32_mul (asinf L a) 0x3F22F983)
      | VU_EXP2 \<Rightarrow> Some (powf L 0x40000000 a)
      | VU_REXP2 \<Rightarrow> Some (f32_div f32_one (powf L 0x40000000 a))
      | VU_LOG2 \<Rightarrow> Some (f32_mul (logf L a) 0x3FB8AA3B)
      | VU_SAT0 \<Rightarrow> Some (sat0 a)
      | VU_SAT1 \<Rightarrow> Some (sat1 a)
      | VU_OCP \<Rightarrow> Some (f32_sub f32_one a)
      | VU_SGN \<Rightarrow> Some (if f32_lt 0 a then f32_one else if f32_lt a 0 then 0xBF800000 else 0)
      | VU_F2IZ \<Rightarrow> Some (f2i a 0 opc)
      | VU_I2F \<Rightarrow> Some (i2f a 0)
      | _ \<Rightarrow> None)"

text \<open>The loop over the lanes: an operation the switch does not have traps at the first lane.\<close>

definition vmap_lanes :: "(u32 \<Rightarrow> u32 option) \<Rightarrow> u32 \<Rightarrow> u32 \<Rightarrow> nat \<Rightarrow> vmachine \<Rightarrow> vmachine" where
  "vmap_lanes f vd vs sz V =
     (case those (map f (read_src 0 vs sz V)) of
        None \<Rightarrow> end_op (V\<lparr>vf := psp_vfpu_unimplemented (vf V)\<rparr>)
      | Some out \<Rightarrow> end_op (write_dst vd sz out V))"

definition psp_vunary :: "libm \<Rightarrow> vu_op \<Rightarrow> u32 \<Rightarrow> u32 \<Rightarrow> nat \<Rightarrow> vmachine \<Rightarrow> vmachine" where
  "psp_vunary L opc = vmap_lanes (vu_scalar L opc)"

definition cvt_scalar :: "vu_op \<Rightarrow> nat \<Rightarrow> u32 \<Rightarrow> u32 option" where
  "cvt_scalar opc scale a =
     (if opc \<in> {VU_F2IN, VU_F2IZ, VU_F2IU, VU_F2ID} then Some (f2i a scale opc)
      else if opc = VU_I2F then Some (i2f a scale) else None)"

definition psp_vcvt :: "vu_op \<Rightarrow> u32 \<Rightarrow> u32 \<Rightarrow> nat \<Rightarrow> nat \<Rightarrow> vmachine \<Rightarrow> vmachine" where
  "psp_vcvt opc vd vs sz scale = vmap_lanes (cvt_scalar opc scale) vd vs sz"

section \<open>Packing\<close>

datatype vp_op = VP_I2UC | VP_I2C | VP_I2US | VP_I2S | VP_UC2I | VP_C2I | VP_US2I | VP_S2I

definition pack_byte :: "vp_op \<Rightarrow> u32 \<Rightarrow> u32" where
  "pack_byte opc v = (if opc = VP_I2UC then (if v <s 0 then 0 else drop_bit 23 v AND 0xFF)
                      else drop_bit 24 v AND 0xFF)"

definition pack_half :: "vp_op \<Rightarrow> u32 \<Rightarrow> u32" where
  "pack_half opc v = (if opc = VP_I2US then (if v <s 0 then 0 else drop_bit 15 v AND 0xFFFF)
                      else drop_bit 16 v AND 0xFFFF)"

definition unpack_byte :: "vp_op \<Rightarrow> u32 \<Rightarrow> nat \<Rightarrow> u32" where
  "unpack_byte opc w i =
     (let b = drop_bit (8 * i) w AND 0xFF
      in if opc = VP_UC2I then drop_bit 1 (b * 0x01010101) else push_bit 24 b)"

definition unpack_half :: "vp_op \<Rightarrow> u32 list \<Rightarrow> nat \<Rightarrow> u32" where
  "unpack_half opc ws i =
     (let h = drop_bit (16 * (i mod 2)) (ws ! (i div 2)) AND 0xFFFF
      in if opc = VP_US2I then push_bit 15 h else push_bit 16 h)"

text \<open>
  The packed words, the first \<open>nout\<close> entries of the array \<^verbatim>\<open>out\<close>. The byte forms read four lanes
  whatever the size is; the emitter passes four.
\<close>

definition vpack_out :: "vp_op \<Rightarrow> u32 list \<Rightarrow> nat \<Rightarrow> u32 list" where
  "vpack_out opc ws sz =
     (if opc = VP_I2UC \<or> opc = VP_I2C
      then [fold (\<lambda>i acc. acc OR push_bit (8 * i) (pack_byte opc (ws ! i))) [0..<4] 0]
      else if opc = VP_I2US \<or> opc = VP_I2S
      then map (\<lambda>j. pack_half opc (ws ! (2 * j)) OR push_bit 16 (pack_half opc (ws ! (2 * j + 1)))) [0..<sz div 2]
      else if opc = VP_UC2I \<or> opc = VP_C2I then map (unpack_byte opc (ws ! 0)) [0..<4]
      else map (unpack_half opc ws) [0..<min (sz * 2) 4])"

definition psp_vpack :: "vp_op \<Rightarrow> u32 \<Rightarrow> u32 \<Rightarrow> nat \<Rightarrow> vmachine \<Rightarrow> vmachine" where
  "psp_vpack opc vd vs sz V =
     (let sl = lanes4 vs sz;
          ws = map (\<lambda>i. vregs V ! (sl ! i)) [0..<sz];
          out0 = vpack_out opc ws sz;
          out = (if out0 = [] then [0] else out0);
          dl = lanes4 vd (length out);
          m = dst_prefix V
      in end_op (set_vregs (fold (\<lambda>i r. if vfield m (8 + i) 1 \<noteq> 0 then r else r[dl ! i := out ! i])
                              [0..<length out] (vregs V)) V))"

definition psp_vrot :: "libm \<Rightarrow> u32 \<Rightarrow> u32 \<Rightarrow> u32 \<Rightarrow> nat \<Rightarrow> vmachine \<Rightarrow> vmachine" where
  "psp_vrot L vd vs imm sz V =
     (let ang = f32_mul (read_src 0 vs 1 V ! 0) 0x3FC90FDB;
          sn = (if imm AND 0x10 \<noteq> 0 then f32_neg (sinf L ang) else sinf L ang); cs = cosf L ang;
          ci = vfield imm 0 3; si = vfield imm 2 3
      in end_op (write_dst vd sz
           (map (\<lambda>i. if i = ci then cs else if si = ci \<or> i = si then sn else 0) [0..<sz]) V))"

section \<open>Matrices\<close>

definition matrix_cols :: "u32 \<Rightarrow> nat \<Rightarrow> nat list list" where
  "matrix_cols v sz =
     (let mtx = drop_bit 2 v AND 7; transpose = drop_bit 5 v AND 1
      in map (\<lambda>c. psp_vfpu_regs (push_bit 2 mtx OR of_nat c OR push_bit 5 transpose) sz) [0..<sz])"

definition matrix_read :: "u32 \<Rightarrow> nat \<Rightarrow> vmachine \<Rightarrow> u32 list list" where
  "matrix_read v sz V = map (map (\<lambda>j. vregs V ! j)) (matrix_cols v sz)"

text \<open>The double loop, column by column.\<close>

definition write_cells :: "nat list list \<Rightarrow> u32 list list \<Rightarrow> u32 list \<Rightarrow> u32 list" where
  "write_cells cols m r = fold (\<lambda>(j, x) r. r[j := x]) (zip (concat cols) (concat m)) r"

definition matrix_write :: "u32 \<Rightarrow> nat \<Rightarrow> u32 list list \<Rightarrow> vmachine \<Rightarrow> vmachine" where
  "matrix_write v sz m V = set_vregs (write_cells (matrix_cols v sz) m (vregs V)) V"

definition square :: "nat \<Rightarrow> (nat \<Rightarrow> nat \<Rightarrow> u32) \<Rightarrow> u32 list list" where
  "square n f = map (\<lambda>c. map (f c) [0..<n]) [0..<n]"

text \<open>A matrix operation with a prefix pending traps and does nothing else.\<close>

definition matrix_op :: "(vmachine \<Rightarrow> vmachine) \<Rightarrow> vmachine \<Rightarrow> vmachine" where
  "matrix_op f V = (let (go, V1) = take_prefixes V in if go then f V1 else V1)"

definition psp_vmidt :: "u32 \<Rightarrow> nat \<Rightarrow> vmachine \<Rightarrow> vmachine" where
  "psp_vmidt vd sz = matrix_op (matrix_write vd sz (square sz (\<lambda>c r. if c = r then f32_one else 0)))"

definition psp_vidt :: "u32 \<Rightarrow> nat \<Rightarrow> vmachine \<Rightarrow> vmachine" where
  "psp_vidt vd sz V =
     (let one = vfield vd 0 (if sz = 2 then 1 else 3)
      in end_op (write_dst vd sz (map (\<lambda>i. if i = one then f32_one else 0) [0..<sz]) V))"

definition vcst_table :: "u32 list" where
  "vcst_table = [0, 0x7F7FFFFF, 0x3FB504F3, 0x3F3504F3, 0x3F906EBB, 0x3F22F983, 0x3EA2F984, 0x3F490FDB,
     0x3FC90FDB, 0x40490FDB, 0x402DF854, 0x3FB8AA3B, 0x3EDE5BD9, 0x3F317218, 0x40135D8E, 0x40C90FDB,
     0x3F060A92, 0x3E9A209B, 0x40549A78, 0x3F5DB3D7]"

definition psp_vcst :: "u32 \<Rightarrow> u32 \<Rightarrow> nat \<Rightarrow> vmachine \<Rightarrow> vmachine" where
  "psp_vcst vd which sz V =
     end_op (write_dst vd sz (replicate 4 (if which < 20 then vcst_table ! unat which else 0)) V)"

definition psp_vmzero :: "u32 \<Rightarrow> nat \<Rightarrow> vmachine \<Rightarrow> vmachine" where
  "psp_vmzero vd sz = matrix_op (matrix_write vd sz (square sz (\<lambda>c r. 0)))"

definition psp_vmone :: "u32 \<Rightarrow> nat \<Rightarrow> vmachine \<Rightarrow> vmachine" where
  "psp_vmone vd sz = matrix_op (matrix_write vd sz (square sz (\<lambda>c r. f32_one)))"

definition psp_vmmov :: "u32 \<Rightarrow> u32 \<Rightarrow> nat \<Rightarrow> vmachine \<Rightarrow> vmachine" where
  "psp_vmmov vd vs sz = matrix_op (\<lambda>V. matrix_write vd sz (matrix_read vs sz V) V)"

definition psp_vmscl :: "u32 \<Rightarrow> u32 \<Rightarrow> u32 \<Rightarrow> nat \<Rightarrow> vmachine \<Rightarrow> vmachine" where
  "psp_vmscl vd vs vt sz = matrix_op (\<lambda>V.
     let k = vregs V ! (psp_vfpu_regs vt 1 ! 0)
     in matrix_write vd sz (map (map (\<lambda>x. f32_mul x k)) (matrix_read vs sz V)) V)"

definition psp_vtfm :: "u32 \<Rightarrow> u32 \<Rightarrow> u32 \<Rightarrow> nat \<Rightarrow> vmachine \<Rightarrow> vmachine" where
  "psp_vtfm vd vs vt sz = matrix_op (\<lambda>V.
     let m = matrix_read vs sz V;
         xs = map (\<lambda>j. vregs V ! j) (psp_vfpu_regs vt sz);
         out = map (\<lambda>r. fold (\<lambda>c acc. f32_add acc (f32_mul (m ! c ! r) (xs ! c))) [0..<sz] 0) [0..<sz]
     in set_vregs (fold (\<lambda>(j, x) r. r[j := x]) (zip (psp_vfpu_regs vd sz) out) (vregs V)) V)"

definition psp_vmmul :: "u32 \<Rightarrow> u32 \<Rightarrow> u32 \<Rightarrow> nat \<Rightarrow> vmachine \<Rightarrow> vmachine" where
  "psp_vmmul vd vs vt sz = matrix_op (\<lambda>V.
     let a = matrix_read vs sz V; b = matrix_read vt sz V
     in matrix_write vd sz (square sz (\<lambda>c r. dot_sum (a ! r) (b ! c) sz)) V)"

section \<open>Comparison and immediates\<close>

definition vcmp_lane :: "u32 \<Rightarrow> u32 \<Rightarrow> u32 \<Rightarrow> bool" where
  "vcmp_lane cond a b =
     (let c = cond AND 0xF in
      if c = 0 then False
      else if c = 1 then f32_eq a b
      else if c = 2 then f32_lt a b
      else if c = 3 then f32_le a b
      else if c = 4 then True
      else if c = 5 then \<not> f32_eq a b
      else if c = 6 then f32_le b a
      else if c = 7 then f32_lt b a
      else if c = 8 then f32_eq a 0
      else if c = 9 then f32_nan a
      else if c = 10 then f32_inf a
      else if c = 11 then f32_nan a \<or> f32_inf a
      else if c = 12 then \<not> f32_eq a 0
      else if c = 13 then \<not> f32_nan a
      else if c = 14 then \<not> f32_inf a
      else \<not> (f32_nan a \<or> f32_inf a))"

definition psp_vcmp :: "u32 \<Rightarrow> u32 \<Rightarrow> u32 \<Rightarrow> nat \<Rightarrow> vmachine \<Rightarrow> vmachine" where
  "psp_vcmp cond vs vt sz V =
     (let s = read_src 0 vs sz V; t = read_src 1 vt sz V;
          (cc, all, any) = fold (\<lambda>i (cc, all, any).
             if vcmp_lane cond (s ! i) (t ! i) then (cc OR push_bit i 1, all, True) else (cc, False, any))
             [0..<sz] (0, True, False);
          cc1 = (if any then cc OR push_bit 4 1 else cc);
          cc2 = (if all then cc1 OR push_bit 5 1 else cc1)
      in end_op (set_vcc cc2 V))"

definition psp_vimm :: "u32 \<Rightarrow> u32 \<Rightarrow> vmachine \<Rightarrow> vmachine" where
  "psp_vimm vd value V = set_vregs ((vregs V)[psp_vfpu_regs vd 1 ! 0 := value]) V"

section \<open>The register file\<close>

text \<open>Element \<open>(a, b)\<close> of matrix \<open>m\<close>, and that the 128 cells are different.\<close>

definition cell :: "nat \<Rightarrow> nat \<Rightarrow> nat \<Rightarrow> nat" where
  "cell m a b = m * 4 + a * 32 + b"

lemma cell_inj:
  assumes "cell m a b = cell m' a' b'" and "m < 8" "b < 4" and "m' < 8" "b' < 4"
  shows "m = m' \<and> a = a' \<and> b = b'"
proof -
  have d: "cell m a b div 32 = a" "cell m a b mod 4 = b" "cell m a b mod 32 div 4 = m" if "m < 8" "b < 4" for m a b
  proof -
    have s: "cell m a b = (m * 4 + b) + a * 32" "m * 4 + b < 32" using that by (simp_all add: cell_def)
    then show "cell m a b div 32 = a" "cell m a b mod 32 div 4 = m" using that by simp_all
    have "cell m a b = b + (m + a * 8) * 4" by (simp add: cell_def)
    then show "cell m a b mod 4 = b" using that by (simp only: mod_mult_self1) simp
  qed
  show ?thesis using d [OF assms(2,3), of a] d [OF assms(4,5), of a'] assms(1) by simp
qed

lemma cell_less: "m < 8 \<Longrightarrow> a < 4 \<Longrightarrow> b < 4 \<Longrightarrow> cell m a b < 128"
  by (simp add: cell_def)

lemma vfield_le: "vfield v s m \<le> unat m"
  unfolding vfield_def by (rule unat_and_le_left)

lemma vfield_less: "vfield v 2 7 < 8" "vfield v 0 3 < 4" "vfield v s 1 < 2" "vfield v s 3 < 4"
  using vfield_le [of v 2 7] vfield_le [of v 0 3] vfield_le [of v s 1] vfield_le [of v s 3] by auto

definition lane_row :: "u32 \<Rightarrow> nat \<Rightarrow> nat" where
  "lane_row v sz = (if sz = 1 then vfield v 5 3 else if sz = 3 then vfield v 6 1 else vfield v 5 2)"

lemma lanes4_nth:
  "i < 4 \<Longrightarrow> lanes4 v sz ! i =
     (if sz \<noteq> 1 \<and> vfield v 5 1 \<noteq> 0 then cell (vfield v 2 7) ((lane_row v sz + i) mod 4) (vfield v 0 3)
      else cell (vfield v 2 7) (vfield v 0 3) ((lane_row v sz + i) mod 4))"
  by (auto simp: lanes4_def Let_def lane_row_def cell_def)

lemma lanes4_length [simp]: "length (lanes4 v sz) = 4"
  by (simp add: lanes4_def Let_def)

lemma lanes4_less: "i < 4 \<Longrightarrow> lanes4 v sz ! i < 128"
  by (simp add: lanes4_nth) (auto intro!: cell_less vfield_less)

lemma lanes4_inj:
  assumes "i < 4" "j < 4" and "lanes4 v sz ! i = lanes4 v sz ! j"
  shows "i = j"
proof -
  have "(lane_row v sz + i) mod 4 = (lane_row v sz + j) mod 4"
    using assms vfield_less [of v] by (auto simp: lanes4_nth split: if_splits dest!: cell_inj)
  then show ?thesis using assms(1,2) by presburger
qed

lemma lanes4_distinct: "distinct (lanes4 v sz)"
  unfolding distinct_conv_nth using lanes4_inj by auto

lemma vfpu_regs_nth:
  "1 \<le> n \<Longrightarrow> n \<le> 4 \<Longrightarrow> i < n \<Longrightarrow> psp_vfpu_regs v n ! i = lanes4 v n ! i"
  by (simp add: psp_vfpu_regs_def)

lemma vfpu_regs_length [simp]: "1 \<le> n \<Longrightarrow> n \<le> 4 \<Longrightarrow> length (psp_vfpu_regs v n) = n"
  by (simp add: psp_vfpu_regs_def)

lemma vfpu_regs_ok:
  assumes "1 \<le> n" "n \<le> 4"
  shows "distinct (psp_vfpu_regs v n)" "\<forall>j\<in>set (psp_vfpu_regs v n). j < 128"
  using assms lanes4_distinct [of v n] lanes4_less [of _ v n]
  by (auto simp: psp_vfpu_regs_def in_set_conv_nth dest!: in_set_takeD)

section \<open>Writing cells\<close>

definition put_cells :: "(nat \<times> u32) list \<Rightarrow> u32 list \<Rightarrow> u32 list" where
  "put_cells ps r = fold (\<lambda>(j, x) r. r[j := x]) ps r"

lemma put_cells_length [simp]: "length (put_cells ps r) = length r"
  by (induction ps arbitrary: r) (auto simp: put_cells_def)

lemma put_cells_other: "j \<notin> fst ` set ps \<Longrightarrow> put_cells ps r ! j = r ! j"
  by (induction ps arbitrary: r) (auto simp: put_cells_def)

lemma put_cells_same:
  "length js = length xs \<Longrightarrow> distinct js \<Longrightarrow> \<forall>j\<in>set js. j < length r \<Longrightarrow>
   map ((!) (put_cells (zip js xs) r)) js = xs"
proof (induction js xs arbitrary: r rule: list_induct2)
  case (Cons j js x xs)
  have u: "put_cells (zip (j # js) (x # xs)) r = put_cells (zip js xs) (r[j := x])"
    by (simp add: put_cells_def)
  have "put_cells (zip js xs) (r[j := x]) ! j = x"
    using Cons.prems by (subst put_cells_other) (auto dest: set_zip_leftD)
  moreover have "map ((!) (put_cells (zip js xs) (r[j := x]))) js = xs"
    using Cons.prems by (intro Cons.IH) auto
  ultimately show ?case unfolding u by simp
qed simp

section \<open>Matrices as arrays of cells\<close>

lemma and7_cases: "(w :: u32) AND 7 \<in> {0, 1, 2, 3, 4, 5, 6, 7}"
proof -
  have "unat (w AND 7) < 8" using and_mask_unat [of w 3] by (simp add: mask_eq_exp_minus_1)
  then have "unat (w AND 7) \<in> {0, 1, 2, 3, 4, 5, 6, 7}" by simp presburger
  then have "of_nat (unat (w AND 7)) \<in> (of_nat ` {0, 1, 2, 3, 4, 5, 6, 7} :: u32 set)" by (rule imageI)
  then show ?thesis by simp
qed

lemma and1_cases: "(w :: u32) AND 1 \<in> {0, 1}"
proof -
  have "unat (w AND 1) < 2" using and_mask_unat [of w 1] by (simp add: mask_eq_exp_minus_1)
  then have "unat (w AND 1) \<in> {0, 1}" by simp presburger
  then have "of_nat (unat (w AND 1)) \<in> (of_nat ` {0, 1} :: u32 set)" by (rule imageI)
  then show ?thesis by simp
qed

lemma nat4_cases: "c < (4 :: nat) \<Longrightarrow> c \<in> {0, 1, 2, 3}"
  by simp presburger

lemma column_fields:
  fixes m t :: u32
  assumes "m \<in> {0, 1, 2, 3, 4, 5, 6, 7}" and "t \<in> {0, 1}" and "c \<in> {0, 1, 2, 3 :: nat}"
  defines "w \<equiv> push_bit 2 m OR of_nat c OR push_bit 5 t"
  shows "vfield w 2 7 = unat m" and "vfield w 0 3 = c" and "vfield w 5 1 = unat t"
    and "vfield w 6 1 = 0" and "vfield w 5 2 = 0"
  using assms unfolding w_def vfield_def by (elim insertE emptyE; simp)+

abbreviation msize :: "nat \<Rightarrow> bool" where "msize n \<equiv> 2 \<le> n \<and> n \<le> 4"

lemma matrix_cols_nth:
  assumes "msize n" "c < n" "r < n"
  shows "matrix_cols v n ! c ! r =
    (if vfield v 5 1 \<noteq> 0 then cell (vfield v 2 7) r c else cell (vfield v 2 7) c r)"
proof -
  define w where "w = push_bit 2 (drop_bit 2 v AND 7) OR of_nat c OR push_bit 5 (drop_bit 5 v AND 1)"
  have c: "c \<in> {0, 1, 2, 3}" using assms by (intro nat4_cases) simp
  note f = column_fields [OF and7_cases [of "drop_bit 2 v"] and1_cases [of "drop_bit 5 v"] c, folded w_def]
  have f': "unat (drop_bit 2 v AND 7) = vfield v 2 7" "unat (drop_bit 5 v AND 1) = vfield v 5 1"
    by (simp_all add: vfield_def)
  have "matrix_cols v n ! c = psp_vfpu_regs w n" using assms by (simp add: matrix_cols_def w_def Let_def)
  then show ?thesis
    using assms by (simp add: vfpu_regs_nth lanes4_nth lane_row_def f f')
qed

lemma matrix_cols_shape:
  "msize n \<Longrightarrow> length (matrix_cols v n) = n"
  "msize n \<Longrightarrow> col \<in> set (matrix_cols v n) \<Longrightarrow> length col = n"
  by (auto simp: matrix_cols_def Let_def)

lemma concat_square_nth:
  assumes "\<forall>x\<in>set xs. length x = n" and "i < length xs * n"
  shows "concat xs ! i = xs ! (i div n) ! (i mod n)"
  using assms
proof (induction xs arbitrary: i)
  case (Cons x xs)
  show ?case
  proof (cases "i < n")
    case False
    then have "0 < n" using Cons.prems by (cases n) auto
    then have "i div n = Suc ((i - n) div n)" "i mod n = (i - n) mod n"
      using False by (simp_all add: le_div_geq le_mod_geq)
    then show ?thesis using Cons False by (simp add: nth_append)
  qed (use Cons in \<open>simp add: nth_append\<close>)
qed simp

lemma length_concat_square: "\<forall>x\<in>set xs. length x = n \<Longrightarrow> length (concat xs) = length xs * n"
  by (induction xs) auto

lemma matrix_cells_ok:
  assumes "msize n"
  shows "distinct (concat (matrix_cols v n))" and "\<forall>j\<in>set (concat (matrix_cols v n)). j < 128"
    and "length (concat (matrix_cols v n)) = n * n"
proof -
  have shape: "\<forall>x\<in>set (matrix_cols v n). length x = n" "length (matrix_cols v n) = n"
    using matrix_cols_shape assms by blast+
  show len: "length (concat (matrix_cols v n)) = n * n" using length_concat_square shape by metis
  have nth: "concat (matrix_cols v n) ! i = matrix_cols v n ! (i div n) ! (i mod n)" "i div n < n" "i mod n < n"
    if "i < n * n" for i
    using concat_square_nth [OF shape(1)] shape(2) that assms
    by (auto simp: less_mult_imp_div_less)
  have n4: "i mod n < 4" "i < n \<Longrightarrow> i < 4" for i
    using assms mod_less_divisor [of n i] by linarith+
  show "distinct (concat (matrix_cols v n))"
    unfolding distinct_conv_nth len
  proof (intro allI impI)
    fix i j assume ij: "i < n * n" "j < n * n" "i \<noteq> j"
    have "i div n \<noteq> j div n \<or> i mod n \<noteq> j mod n" using ij(3) by (metis div_mult_mod_eq)
    then show "concat (matrix_cols v n) ! i \<noteq> concat (matrix_cols v n) ! j"
      using nth [OF ij(1)] nth [OF ij(2)] assms vfield_less [of v]
      by (auto simp: matrix_cols_nth [OF assms] n4 dest!: cell_inj split: if_splits)
  qed
  show "\<forall>j\<in>set (concat (matrix_cols v n)). j < 128"
  proof
    fix j assume "j \<in> set (concat (matrix_cols v n))"
    then obtain i where "i < n * n" "j = concat (matrix_cols v n) ! i"
      by (metis in_set_conv_nth len)
    then show "j < 128" using nth [of i] assms vfield_less [of v]
      by (auto simp: matrix_cols_nth [OF assms] n4 intro!: cell_less)
  qed
qed

lemma vregs_set [simp]: "vregs (set_vregs r V) = r" "vf (set_vregs r V) = vf V"
  by (simp_all add: set_vregs_def)

lemma matrix_write_frame:
  "j \<notin> set (concat (matrix_cols v n)) \<Longrightarrow> vregs (matrix_write v n m V) ! j = vregs V ! j"
proof -
  assume "j \<notin> set (concat (matrix_cols v n))"
  then have "j \<notin> fst ` set (zip (concat (matrix_cols v n)) (concat m))" by (auto dest!: set_zip_leftD)
  from put_cells_other [OF this, of "vregs V"] show ?thesis
    by (simp add: matrix_write_def write_cells_def put_cells_def)
qed

definition is_square :: "nat \<Rightarrow> u32 list list \<Rightarrow> bool" where
  "is_square n m \<longleftrightarrow> length m = n \<and> (\<forall>x\<in>set m. length x = n)"

lemma matrix_read_write:
  assumes "msize n" "is_square n m" "length (vregs V) = 128"
  shows "matrix_read v n (matrix_write v n m V) = m"
proof -
  let ?r = "put_cells (zip (concat (matrix_cols v n)) (concat m)) (vregs V)"
  note ok = matrix_cells_ok [OF assms(1), of v]
  have "map ((!) ?r) (concat (matrix_cols v n)) = concat m"
    using ok assms(2,3) length_concat_square [of m n] by (intro put_cells_same) (auto simp: is_square_def)
  then have c: "concat (map (map ((!) ?r)) (matrix_cols v n)) = concat m" by (simp add: map_concat)
  let ?A = "map (map ((!) ?r)) (matrix_cols v n)"
  have A: "length x = n" if "x \<in> set ?A" for x
    using that matrix_cols_shape(2) [OF assms(1)] by auto
  have shape: "length ?A = length m" "\<forall>(x, y)\<in>set (zip ?A m). length x = length y"
  proof -
    show "length ?A = length m" using matrix_cols_shape(1) [OF assms(1)] assms(2) by (simp add: is_square_def)
    show "\<forall>(x, y)\<in>set (zip ?A m). length x = length y"
    proof (intro ballI, clarify)
      fix x y assume "(x, y) \<in> set (zip ?A m)"
      then show "length x = length y"
        using A set_zip_leftD set_zip_rightD assms(2) unfolding is_square_def by metis
    qed
  qed
  have "map (map ((!) ?r)) (matrix_cols v n) = m" using concat_eq_concat_iff [OF shape(2,1)] c by simp
  then show ?thesis by (simp add: matrix_read_def matrix_write_def write_cells_def put_cells_def)
qed

lemma is_square_read: "msize n \<Longrightarrow> is_square n (matrix_read v n V)"
  using matrix_cols_shape [of n] by (auto simp: is_square_def matrix_read_def)

lemma is_square_square: "is_square n (square n f)"
  by (auto simp: is_square_def square_def)

lemma square_nth: "c < n \<Longrightarrow> r < n \<Longrightarrow> square n f ! c ! r = f c r"
  by (simp add: square_def)

lemma matrix_read_nth:
  assumes "msize n" "c < n" "r < n"
  shows "matrix_read v n V ! c ! r = vregs V !
    (if vfield v 5 1 \<noteq> 0 then cell (vfield v 2 7) r c else cell (vfield v 2 7) c r)"
  using assms matrix_cols_nth [OF assms, of v] matrix_cols_shape(1) [OF assms(1), of v]
    matrix_cols_shape(2) [OF assms(1), of "matrix_cols v n ! c" v]
  by (simp add: matrix_read_def)

lemma matrix_op_run: "\<not> psp_vfpu_prefix_pending (vf V) \<Longrightarrow> matrix_op f V = f V"
  by (simp add: matrix_op_def take_prefixes_def)

lemma transposed_fields: "vfield (v XOR 0x20) 2 7 = vfield v 2 7" "vfield (v XOR 0x20) 5 1 \<noteq> 0 \<longleftrightarrow> vfield v 5 1 = 0"
proof -
  have "drop_bit 2 (v XOR 0x20) AND 7 = drop_bit 2 v AND 7" by (simp add: bit.conj_xor_distrib2)
  then show "vfield (v XOR 0x20) 2 7 = vfield v 2 7" by (simp only: vfield_def)
  have "drop_bit 5 (v XOR 0x20) AND 1 = (drop_bit 5 v AND 1) XOR 1" by (simp add: bit.conj_xor_distrib2)
  then show "vfield (v XOR 0x20) 5 1 \<noteq> 0 \<longleftrightarrow> vfield v 5 1 = 0"
    using and1_cases [of "drop_bit 5 v"] by (auto simp: vfield_def)
qed

section \<open>Properties of the matrix operations\<close>

text \<open>A prefix left pending stops a matrix operation; a vector operation uses it up.\<close>

lemma matrix_op_trap:
  assumes "psp_vfpu_prefix_pending (vf V)"
  shows "vm (matrix_op f V) = vm V" "g_traps (vf (matrix_op f V)) = g_traps (vf V) + 1"
    "\<not> psp_vfpu_prefix_pending (vf (matrix_op f V))"
  using assms
  by (simp_all add: matrix_op_def take_prefixes_def psp_vfpu_unimplemented_def clear_prefixes_def
      psp_vfpu_prefix_pending_def)

lemma dot_basis:
  assumes "\<forall>i<n. f32_fin (s ! i)" and "\<forall>i<n. t ! i = (if i = k then 0x3F800000 else 0)"
  shows "dot_sum s t n = (if k < n then pos_zero (s ! k) else 0)"
  using assms
proof (induction n)
  case 0
  then show ?case by (simp add: dot_sum_def)
next
  case (Suc n)
  have IH: "dot_sum s t n = (if k < n then pos_zero (s ! k) else 0)" by (rule Suc.IH) (use Suc.prems in auto)
  have fin: "f32_fin (s ! n)" and tn: "t ! n = (if n = k then 0x3F800000 else 0)" using Suc.prems by auto
  have step: "dot_sum s t (Suc n) = f32_add (dot_sum s t n) (f32_mul (s ! n) (t ! n))"
    by (simp add: dot_sum_def)
  have z: "f32_signed b 0 = 0 \<or> f32_signed b 0 = 0x80000000" for b by (simp add: f32_signed_def)
  have zz: "f32_add 0 (f32_signed b 0) = 0" for b
    using z [of b] f32_zero_add [OF f32_zero_parts(1)] f32_zero_add [OF f32_nzero_parts(1)]
    by (auto simp: pos_zero_def f32_consts)
  show ?case
    using Suc.prems(1) fin tn IH step f32_mul_one [OF fin] f32_mul_zero [OF fin] f32_zero_add [OF fin]
      f32_add_zeros [OF z, of "s ! k"] zz
    by (auto simp: less_Suc_eq)
qed

text \<open>
  Copying a matrix register is right whatever the two registers share. After \<^verbatim>\<open>vmmov\<close> the
  destination reads as the source did, no register outside the destination has changed, and a copy
  from the transposed view of the destination itself transposes the matrix in place.
\<close>
theorem psp_vmmov_overlap:
  assumes "\<not> psp_vfpu_prefix_pending (vf V)" and "2 \<le> n \<and> n \<le> 4" and "length (vregs V) = 128"
  shows "matrix_read vd n (psp_vmmov vd vs n V) = matrix_read vs n V \<and>
    (\<forall>j. j \<notin> set (concat (matrix_cols vd n)) \<longrightarrow> vregs (psp_vmmov vd vs n V) ! j = vregs V ! j) \<and>
    (\<forall>c<n. \<forall>r<n. matrix_read vd n (psp_vmmov vd (vd XOR 0x20) n V) ! c ! r = matrix_read vd n V ! r ! c)"
proof -
  have run: "psp_vmmov vd w n V = matrix_write vd n (matrix_read w n V) V" for w
    unfolding psp_vmmov_def by (rule matrix_op_run [OF assms(1)])
  have rw: "matrix_read vd n (psp_vmmov vd w n V) = matrix_read w n V" for w
    unfolding run by (rule matrix_read_write [OF assms(2) is_square_read [OF assms(2)] assms(3)])
  have "matrix_read (vd XOR 0x20) n V ! c ! r = matrix_read vd n V ! r ! c" if "c < n" "r < n" for c r
    using that transposed_fields [of vd] by (auto simp: matrix_read_nth [OF assms(2)])
  then show ?thesis using rw matrix_write_frame run by simp
qed

lemma matrix_read_transposed:
  assumes "msize n" "c < n" "r < n"
  shows "matrix_read (v XOR 0x20) n V ! c ! r = matrix_read v n V ! r ! c"
  using assms(2,3) transposed_fields [of v] by (auto simp: matrix_read_nth [OF assms(1)])

lemma psp_vmmul_product:
  assumes "\<not> psp_vfpu_prefix_pending (vf V)" and "msize n" and "length (vregs V) = 128"
  shows "matrix_read vd n (psp_vmmul vd vs vt n V) =
    square n (\<lambda>c r. dot_sum (matrix_read vs n V ! r) (matrix_read vt n V ! c) n)"
  unfolding psp_vmmul_def matrix_op_run [OF assms(1)] Let_def
  by (rule matrix_read_write [OF assms(2) is_square_square assms(3)])

lemma psp_vtfm_product:
  assumes "\<not> psp_vfpu_prefix_pending (vf V)" and "msize n" and "length (vregs V) = 128"
  shows "map ((!) (vregs (psp_vtfm vd vs vt n V))) (psp_vfpu_regs vd n) =
    map (\<lambda>r. dot_sum (map (\<lambda>k. matrix_read vs n V ! k ! r) [0..<n]) (map ((!) (vregs V)) (psp_vfpu_regs vt n)) n) [0..<n]"
proof -
  let ?m = "matrix_read vs n V" and ?xs = "map ((!) (vregs V)) (psp_vfpu_regs vt n)"
  let ?o = "map (\<lambda>r. fold (\<lambda>c acc. f32_add acc (f32_mul (?m ! c ! r) (?xs ! c))) [0..<n] 0) [0..<n]"
  have n: "1 \<le> n" "n \<le> 4" using assms(2) by auto
  have "vregs (psp_vtfm vd vs vt n V) = put_cells (zip (psp_vfpu_regs vd n) ?o) (vregs V)"
    unfolding psp_vtfm_def matrix_op_run [OF assms(1)] Let_def put_cells_def by simp
  then have "map ((!) (vregs (psp_vtfm vd vs vt n V))) (psp_vfpu_regs vd n) = ?o"
    using put_cells_same [of "psp_vfpu_regs vd n" ?o "vregs V"] vfpu_regs_ok [OF n, of vd] n assms(3) by simp
  also have "?o = map (\<lambda>r. dot_sum (map (\<lambda>k. ?m ! k ! r) [0..<n]) ?xs n) [0..<n]"
    unfolding dot_sum_def by (intro map_cong refl fold_cong) auto
  finally show ?thesis .
qed

text \<open>
  C40. The orientation of the matrix product and its agreement with the transform, for any matrices of
  any values and whatever registers they share. Given the transposed view of \<open>vs\<close>, \<^verbatim>\<open>vmmul\<close> leaves the
  ordinary product of the two matrices as they were: element \<open>r\<close> of its column \<open>c\<close> is row \<open>r\<close> of \<open>vs\<close> times
  column \<open>c\<close> of \<open>vt\<close>. \<^verbatim>\<open>vtfm\<close> of the untransposed \<open>vs\<close> on the vector register that is column \<open>c\<close> of \<open>vt\<close>
  gives the same column bit for bit. And when that column is the \<open>k\<close>-th basis vector and \<open>vs\<close> is
  finite, the result is column \<open>k\<close> of \<open>vs\<close>, up to the sign of a zero.
\<close>
theorem psp_vmmul_vtfm_orientation:
  assumes "\<not> psp_vfpu_prefix_pending (vf V)" and "2 \<le> n \<and> n \<le> 4" and "length (vregs V) = 128"
    and "c < n" and "psp_vfpu_regs u n = matrix_cols vd n ! c" and "psp_vfpu_regs v n = matrix_cols vt n ! c"
  shows "matrix_read vd n (psp_vmmul vd (vs XOR 0x20) vt n V) ! c =
      map (\<lambda>r. dot_sum (map (\<lambda>k. matrix_read vs n V ! k ! r) [0..<n]) (matrix_read vt n V ! c) n) [0..<n] \<and>
    map ((!) (vregs (psp_vtfm u vs v n V))) (matrix_cols vd n ! c) =
      matrix_read vd n (psp_vmmul vd (vs XOR 0x20) vt n V) ! c \<and>
    (\<forall>k<n. (\<forall>i<n. matrix_read vt n V ! c ! i = (if i = k then 0x3F800000 else 0)) \<and>
       (\<forall>i<n. \<forall>r<n. f32_fin (matrix_read vs n V ! i ! r)) \<longrightarrow>
       matrix_read vd n (psp_vmmul vd (vs XOR 0x20) vt n V) ! c = map (\<lambda>r. pos_zero (matrix_read vs n V ! k ! r)) [0..<n])"
proof -
  let ?col = "map (\<lambda>r. dot_sum (map (\<lambda>k. matrix_read vs n V ! k ! r) [0..<n]) (matrix_read vt n V ! c) n) [0..<n]"
  have row: "dot_sum (matrix_read (vs XOR 0x20) n V ! r) t n = dot_sum (map (\<lambda>k. matrix_read vs n V ! k ! r) [0..<n]) t n"
    if "r < n" for r t
    unfolding dot_sum_def using that by (intro fold_cong refl) (simp add: matrix_read_transposed [OF assms(2)])
  have prod: "matrix_read vd n (psp_vmmul vd (vs XOR 0x20) vt n V) ! c = ?col"
    unfolding psp_vmmul_product [OF assms(1-3)] square_def using assms(4) by (simp add: row)
  have vt: "map ((!) (vregs V)) (psp_vfpu_regs v n) = matrix_read vt n V ! c"
    using assms(4,6) matrix_cols_shape(1) [OF assms(2), of vt] by (simp add: matrix_read_def)
  have tfm: "map ((!) (vregs (psp_vtfm u vs v n V))) (matrix_cols vd n ! c) = ?col"
    using psp_vtfm_product [OF assms(1-3), of u vs v] unfolding vt assms(5) .
  have "?col = map (\<lambda>r. pos_zero (matrix_read vs n V ! k ! r)) [0..<n]"
    if "k < n" "\<forall>i<n. matrix_read vt n V ! c ! i = (if i = k then 0x3F800000 else 0)"
      "\<forall>i<n. \<forall>r<n. f32_fin (matrix_read vs n V ! i ! r)" for k
    using that by (intro map_cong refl, subst dot_basis [where k = k]) auto
  then show ?thesis unfolding prod tfm by blast
qed

text \<open>The unit after a reset, with the identity in matrix 1, for the witnesses.\<close>

definition idle_unit :: vmachine where
  "idle_unit = \<lparr>vf = psp_vfpu_reset, vm = boot_machine\<rparr>"

definition ident_unit :: vmachine where
  "ident_unit = psp_vmidt 4 4 idle_unit"

lemma idle_unit_ok: "\<not> psp_vfpu_prefix_pending (vf idle_unit)" "length (vregs idle_unit) = 128"
  by (simp_all add: idle_unit_def psp_vfpu_reset_def psp_vfpu_prefix_pending_def boot_machine_def psp_cpu_reset_def)

lemma ident_unit_eq: "ident_unit = matrix_write 4 4 (square 4 (\<lambda>c r. if c = r then 0x3F800000 else 0)) idle_unit"
  unfolding ident_unit_def psp_vmidt_def by (rule matrix_op_run [OF idle_unit_ok(1)])

lemma ident_unit_ok: "\<not> psp_vfpu_prefix_pending (vf ident_unit)" "length (vregs ident_unit) = 128"
  using idle_unit_ok put_cells_length unfolding ident_unit_eq matrix_write_def write_cells_def
  by (simp_all add: put_cells_def)

lemma ident_unit_read: "matrix_read 4 4 ident_unit = square 4 (\<lambda>c r. if c = r then 0x3F800000 else 0)"
  unfolding ident_unit_eq by (rule matrix_read_write [OF _ is_square_square idle_unit_ok(2)]) simp

theorem psp_vmmov_overlap_witness:
  "matrix_read 4 4 (psp_vmmov 4 0x24 4 ident_unit) ! 3 ! 3 = 0x3F800000"
  using psp_vmmov_overlap [OF ident_unit_ok(1) _ ident_unit_ok(2), of 4 4 0] ident_unit_read
  by (simp add: square_nth)

theorem psp_vmmul_vtfm_orientation_witness:
  "matrix_read 8 4 (psp_vmmul 8 (4 XOR 0x20) 4 4 ident_unit) ! 1 = [0, 0x3F800000, 0, 0] \<and>
   map ((!) (vregs (psp_vtfm 9 4 5 4 ident_unit))) (matrix_cols 8 4 ! 1) = [0, 0x3F800000, 0, 0]"
proof -
  have regs: "psp_vfpu_regs 9 4 = matrix_cols 8 4 ! 1" "psp_vfpu_regs 5 4 = matrix_cols 4 4 ! 1" by code_simp+
  have fin: "\<forall>c<4. \<forall>r<4. f32_fin (matrix_read 4 4 ident_unit ! c ! r)"
    and one: "\<forall>i<4. matrix_read 4 4 ident_unit ! 1 ! i = (if i = 1 then 0x3F800000 else 0)"
    by (simp_all add: ident_unit_read square_nth f32_consts)
  have "map (\<lambda>r. pos_zero (matrix_read 4 4 ident_unit ! 1 ! r)) [0..<4] = [0, 0x3F800000, 0, 0]"
    unfolding ident_unit_read by code_simp
  moreover note o = psp_vmmul_vtfm_orientation [OF ident_unit_ok(1) _ ident_unit_ok(2) _ regs, where vs = 4]
  have "matrix_read 8 4 (psp_vmmul 8 (4 XOR 0x20) 4 4 ident_unit) ! 1 = map (\<lambda>r. pos_zero (matrix_read 4 4 ident_unit ! 1 ! r)) [0..<4]"
    using conjunct2 [OF conjunct2 [OF o]] fin one by fastforce
  moreover have "map ((!) (vregs (psp_vtfm 9 4 5 4 ident_unit))) (matrix_cols 8 4 ! 1) =
      matrix_read 8 4 (psp_vmmul 8 (4 XOR 0x20) 4 4 ident_unit) ! 1"
    by (rule conjunct1 [OF conjunct2 [OF o]]) simp_all
  ultimately show ?thesis by (simp only:)
qed

section \<open>Condition codes\<close>

lemma bit_pow2_u32: "k < 32 \<Longrightarrow> bit (2 ^ k :: u32) i \<longleftrightarrow> i = k"
  using bit_push_bit_iff [of k "1 :: u32" i] by (auto simp: bit_1_iff)

lemma vcmp_fold:
  assumes "n \<le> 4"
  shows "fold (\<lambda>i (cc, all, any). if L i then (cc OR push_bit i 1, all, True) else (cc, False, any)) [0..<n]
     (0 :: u32, True, False) = (cc, all, any) \<Longrightarrow>
   (\<forall>i. bit cc i \<longleftrightarrow> i < n \<and> L i) \<and> (all \<longleftrightarrow> (\<forall>i<n. L i)) \<and> (any \<longleftrightarrow> (\<exists>i<n. L i))"
  using assms
proof (induction n arbitrary: cc all any)
  case (Suc n)
  obtain cc0 all0 any0 where f: "fold (\<lambda>i (cc, all, any). if L i then (cc OR push_bit i 1, all, True)
    else (cc, False, any)) [0..<n] (0 :: u32, True, False) = (cc0, all0, any0)" by (rule prod_cases3)
  note IH = Suc.IH [OF f]
  have b: "bit (2 ^ n :: u32) i \<longleftrightarrow> i = n" for i
    using Suc.prems(2) by (intro bit_pow2_u32) simp
  have "(cc, all, any) = (if L n then (cc0 OR push_bit n 1, all0, True) else (cc0, False, any0))"
    using Suc.prems(1) f by simp
  moreover have "(\<forall>i. bit cc0 i \<longleftrightarrow> i < n \<and> L i) \<and> (all0 \<longleftrightarrow> (\<forall>i<n. L i)) \<and> (any0 \<longleftrightarrow> (\<exists>i<n. L i))"
    using IH Suc.prems(2) by simp
  ultimately show ?case by (cases "L n") (simp_all add: bit_or_iff b less_Suc_eq, blast+)
qed auto

definition vcmp_at :: "u32 \<Rightarrow> u32 \<Rightarrow> u32 \<Rightarrow> nat \<Rightarrow> vmachine \<Rightarrow> nat \<Rightarrow> bool" where
  "vcmp_at cond vs vt n V i = vcmp_lane cond (read_src 0 vs n V ! i) (read_src 1 vt n V ! i)"

text \<open>
  What a vector comparison leaves in the condition register: bit \<open>i\<close> for a lane that satisfies
  the condition, bit 4 when some lane does, bit 5 when all do, and nothing else. Conditions \<open>c\<close> and
  \<open>c + 4\<close> are complementary on every lane for \<open>c\<close> below 2 and from 8 to 11; \<^verbatim>\<open>LT\<close> and \<^verbatim>\<open>GE\<close> are so
  only when no operand is a NaN. The prefixes are used up.
\<close>
theorem psp_vcmp_bits:
  assumes "n \<le> 4"
  shows "(\<forall>i. bit (vfpu_cc (cpu (vm (psp_vcmp cond vs vt n V)))) i \<longleftrightarrow>
            i < n \<and> vcmp_at cond vs vt n V i \<or> i = 4 \<and> (\<exists>j<n. vcmp_at cond vs vt n V j) \<or>
            i = 5 \<and> (\<forall>j<n. vcmp_at cond vs vt n V j)) \<and>
    vregs (psp_vcmp cond vs vt n V) = vregs V \<and>
    \<not> psp_vfpu_prefix_pending (vf (psp_vcmp cond vs vt n V)) \<and>
    (\<forall>c\<in>{0, 1, 8, 9, 10, 11}. vcmp_lane (c + 4) a b = (\<not> vcmp_lane c a b)) \<and>
    (\<not> f32_nan a \<longrightarrow> \<not> f32_nan b \<longrightarrow> vcmp_lane 6 a b = (\<not> vcmp_lane 2 a b))"
proof -
  let ?L = "vcmp_at cond vs vt n V"
  obtain cc all any where f: "fold (\<lambda>i (cc, all, any). if ?L i then (cc OR push_bit i 1, all, True)
    else (cc, False, any)) [0..<n] (0 :: u32, True, False) = (cc, all, any)" by (rule prod_cases3)
  note r = vcmp_fold [OF assms(1) f]
  let ?c = "if any then cc OR push_bit 4 1 else cc"
  have v: "psp_vcmp cond vs vt n V = end_op (set_vcc (if all then ?c OR push_bit 5 1 else ?c) V)"
    using f by (simp add: psp_vcmp_def Let_def vcmp_at_def)
  have b: "bit (push_bit 4 1 :: u32) i \<longleftrightarrow> i = 4" "bit (push_bit 5 1 :: u32) i \<longleftrightarrow> i = 5" for i
    using bit_pow2_u32 [of 4 i] bit_pow2_u32 [of 5 i] unfolding push_bit_of_1 by simp_all
  have cc: "bit (if all then ?c OR push_bit 5 1 else ?c) i \<longleftrightarrow> bit cc i \<or> any \<and> i = 4 \<or> all \<and> i = 5" for i
    by (cases all; cases any; simp only: if_True if_False bit_or_iff b simp_thms; blast)
  have vcc: "vfpu_cc (cpu (vm (psp_vcmp cond vs vt n V))) = (if all then ?c OR push_bit 5 1 else ?c)"
    unfolding v by (simp only: end_op_def set_vcc_def) simp
  have "bit (vfpu_cc (cpu (vm (psp_vcmp cond vs vt n V)))) i \<longleftrightarrow>
      i < n \<and> ?L i \<or> i = 4 \<and> (\<exists>j<n. ?L j) \<or> i = 5 \<and> (\<forall>j<n. ?L j)" for i
    unfolding vcc cc using r by blast
  moreover have "vregs (psp_vcmp cond vs vt n V) = vregs V" "\<not> psp_vfpu_prefix_pending (vf (psp_vcmp cond vs vt n V))"
    by (simp_all add: v end_op_def set_vcc_def clear_prefixes_def psp_vfpu_prefix_pending_def)
  moreover have "\<forall>c\<in>{0, 1, 8, 9, 10, 11}. vcmp_lane (c + 4) a b = (\<not> vcmp_lane c a b)"
    by (simp add: vcmp_lane_def)
  moreover have "\<not> f32_nan a \<longrightarrow> \<not> f32_nan b \<longrightarrow> vcmp_lane 6 a b = (\<not> vcmp_lane 2 a b)"
    by (auto simp: vcmp_lane_def f32_le_def f32_lt_def)
  ultimately show ?thesis by blast
qed

theorem psp_vcmp_bits_witness:
  "vcmp_lane 6 0x40000000 0x3F800000 \<and> bit (vfpu_cc (cpu (vm (psp_vcmp 4 0 0 2 idle_unit)))) 5"
proof -
  have nan: "\<not> f32_nan 0x40000000" "\<not> f32_nan 0x3F800000" by (simp_all add: f32_nan_def)
  have lt: "\<not> vcmp_lane 2 0x40000000 0x3F800000" by (simp add: vcmp_lane_def f32_lt_def f32_ord_def)
  have t: "vcmp_lane 4 x y" for x y by (simp add: vcmp_lane_def)
  show ?thesis using psp_vcmp_bits [of 2 4 0 0 idle_unit "0x40000000" "0x3F800000"] nan lt t by (simp add: vcmp_at_def)
qed

section \<open>Packing and unpacking\<close>

lemma byte_join:
  "(w AND 0xFF) OR push_bit 8 (drop_bit 8 w AND 0xFF) OR push_bit 16 (drop_bit 16 w AND 0xFF) OR
   push_bit 24 (drop_bit 24 w AND 0xFF) = (w :: u32)"
proof -
  have m: "(0xFF :: u32) = mask 8" by (simp add: mask_eq_exp_minus_1)
  show ?thesis unfolding m
  proof (rule word_bitI)
    fix n assume n: "n < LENGTH(32)"
    consider "n < 8" | "8 \<le> n" "n < 16" | "16 \<le> n" "n < 24" | "24 \<le> n" "n < 32" using n by fastforce
    then show "bit ((w AND mask 8) OR push_bit 8 (drop_bit 8 w AND mask 8) OR
      push_bit 16 (drop_bit 16 w AND mask 8) OR push_bit 24 (drop_bit 24 w AND mask 8)) n = bit w n"
      by cases (auto simp: bit_or_iff bit_and_iff bit_mask_iff bit_push_bit_iff bit_drop_bit_eq)
  qed
qed

lemma half_join:
  "(w AND 0xFFFF) OR push_bit 16 (drop_bit 16 w AND 0xFFFF) = (w :: u32)"
proof -
  have m: "(0xFFFF :: u32) = mask 16" by (simp add: mask_eq_exp_minus_1)
  show ?thesis unfolding m
  proof (rule word_bitI)
    fix n assume n: "n < LENGTH(32)"
    then show "bit ((w AND mask 16) OR push_bit 16 (drop_bit 16 w AND mask 16)) n = bit w n"
      by (cases "n < 16") (auto simp: bit_or_iff bit_and_iff bit_mask_iff bit_push_bit_iff bit_drop_bit_eq)
  qed
qed

lemma sless_zero: "(v :: u32) <s 0 \<longleftrightarrow> 0x80000000 \<le> unat v"
proof -
  have "v <s 0 \<longleftrightarrow> bit v 31" using bit_last_iff [of v] by (simp add: word_sless_alt)
  moreover have "uint v = int (unat v)" by simp
  ultimately show ?thesis using f32_sign_eq [of v] unfolding f32_sign_def by linarith
qed

lemma unat_eqI: "unat (x :: u32) = unat y \<Longrightarrow> x = y"
  by (simp add: word_unat_eq_iff)

lemma unat_push:
  assumes "unat w * 2 ^ k < 2 ^ 32"
  shows "unat (push_bit k w :: u32) = unat w * 2 ^ k"
  using unsigned_push_bit_eq [where ?'a = nat, of k w] mod_less [OF assms]
  by (simp only: push_bit_eq_mult [where ?'a = nat] take_bit_eq_mod) simp

lemma and_low_unat: "unat ((w :: u32) AND 0xFF) < 256" "unat (w AND 0xFFFF) < 65536"
  using and_mask_unat [of w 8] and_mask_unat [of w 16] by (simp_all add: mask_eq_exp_minus_1)

lemma pack_unpack_byte:
  assumes "opc = VP_I2UC \<and> opu = VP_UC2I \<or> opc = VP_I2C \<and> opu = VP_C2I"
  shows "pack_byte opc (unpack_byte opu w i) = drop_bit (8 * i) w AND 0xFF"
proof -
  define b where "b = drop_bit (8 * i) w AND 0xFF"
  have b: "unat b < 256" unfolding b_def by (rule and_low_unat)
  have bb: "b AND 0xFF = b" by (simp add: b_def and.assoc)
  have u: "unat (b * 0x01010101) = unat b * 0x01010101" using b by (simp add: unat_word_ariths)
  have "drop_bit 23 (drop_bit 1 (b * 0x01010101)) = b"
  proof (rule unat_eqI)
    have "unat b * 0x01010101 div 2 ^ (23 + 1) = unat b" using b by simp
    then show "unat (drop_bit 23 (drop_bit 1 (b * 0x01010101))) = unat b"
      by (simp only: drop_bit_drop_bit unat_drop_bit_eq u drop_bit_eq_div [where ?'a = nat])
  qed
  moreover have "\<not> drop_bit 1 (b * 0x01010101) <s 0"
    using b by (simp only: sless_zero unat_drop_bit_eq u drop_bit_eq_div [where ?'a = nat]) simp
  moreover have "drop_bit 24 (push_bit 24 b) = b"
  proof (rule unat_eqI)
    have "unat (push_bit 24 b) = unat b * 2 ^ 24" by (rule unat_push) (use b in simp)
    then show "unat (drop_bit 24 (push_bit 24 b)) = unat b"
      by (simp only: unat_drop_bit_eq drop_bit_eq_div [where ?'a = nat]) simp
  qed
  ultimately show ?thesis using assms
    by (auto simp: pack_byte_def unpack_byte_def b_def [symmetric] Let_def bb)
qed

lemma pack_unpack_half:
  assumes "opc = VP_I2US \<and> opu = VP_US2I \<or> opc = VP_I2S \<and> opu = VP_S2I"
  shows "pack_half opc (unpack_half opu ws i) = drop_bit (16 * (i mod 2)) (ws ! (i div 2)) AND 0xFFFF"
proof -
  define h where "h = drop_bit (16 * (i mod 2)) (ws ! (i div 2)) AND 0xFFFF"
  have h: "unat h < 65536" unfolding h_def by (rule and_low_unat)
  have hh: "h AND 0xFFFF = h" by (simp add: h_def and.assoc)
  have u: "unat (push_bit k h) = unat h * 2 ^ k" if "k \<le> 16" for k
  proof -
    have "unat h * 2 ^ k < 65536 * 2 ^ 16" using h that by (intro mult_less_le_imp_less power_increasing) auto
    then show ?thesis by (intro unat_push) simp
  qed
  have "drop_bit k (push_bit k h) = h" if "k \<le> 16" for k
    by (rule unat_eqI) (simp only: unat_drop_bit_eq drop_bit_eq_div [where ?'a = nat] u [OF that], simp)
  moreover have "\<not> push_bit 15 h <s 0" using h by (simp only: sless_zero u) simp
  ultimately show ?thesis using assms
    by (auto simp: pack_half_def unpack_half_def h_def [symmetric] Let_def hh)
qed

section \<open>A vector operation without prefixes\<close>

lemma no_prefix: "\<not> psp_vfpu_prefix_pending u \<Longrightarrow>
  \<not> g_prefix_set u ! 0 \<and> \<not> g_prefix_set u ! 1 \<and> \<not> g_prefix_set u ! 2"
  by (simp add: psp_vfpu_prefix_pending_def)

lemma lanes4_set: "j \<in> set (lanes4 v n) \<Longrightarrow> j < 128"
  using lanes4_less [of _ v n] by (metis in_set_conv_nth lanes4_length)

lemma vpack_lanes:
  assumes "\<not> psp_vfpu_prefix_pending (vf V)" and "length (vregs V) = 128"
    and "out = vpack_out opc (map (\<lambda>i. vregs V ! (lanes4 vs sz ! i)) [0..<sz]) sz" and "out \<noteq> []" "length out \<le> 4"
  shows "map (\<lambda>i. vregs (psp_vpack opc vd vs sz V) ! (lanes4 vd (length out) ! i)) [0..<length out] = out"
    and "length (vregs (psp_vpack opc vd vs sz V)) = 128"
    and "\<not> psp_vfpu_prefix_pending (vf (psp_vpack opc vd vs sz V))"
proof -
  let ?d = "take (length out) (lanes4 vd (length out))"
  have fold: "fold (\<lambda>i r. r[dl ! i := xs ! i]) [0..<length xs] r = put_cells (zip dl xs) r"
    if "length dl = length xs" for dl and xs r :: "u32 list"
    using that
  proof (induction dl xs arbitrary: r rule: list_induct2)
    case (Cons d dl x xs)
    have "fold (\<lambda>i r. r[(d # dl) ! i := (x # xs) ! i]) [0..<length (x # xs)] r =
      fold (\<lambda>i r. r[dl ! i := xs ! i]) [0..<length xs] (r[d := x])"
      by (simp only: length_Cons upt_conv_Cons map_Suc_upt [symmetric]) (simp add: fold_map comp_def upt_conv_Cons
          del: upt_Suc map_Suc_upt)
    then show ?case using Cons.IH by (simp add: put_cells_def)
  qed (simp add: put_cells_def)
  have p0: "dst_prefix V = 0" using no_prefix [OF assms(1)] by (simp add: dst_prefix_def)
  have "fold (\<lambda>i r. if vfield 0 (8 + i) 1 \<noteq> 0 then r else r[lanes4 vd (length out) ! i := out ! i])
      [0..<length out] (vregs V) = fold (\<lambda>i r. r[?d ! i := out ! i]) [0..<length out] (vregs V)"
    using assms(5) by (intro fold_cong refl) (auto simp: vfield_def)
  also have "\<dots> = put_cells (zip ?d out) (vregs V)" using assms(5) by (intro fold) simp
  finally have w: "fold (\<lambda>i r. if vfield 0 (8 + i) 1 \<noteq> 0 then r else r[lanes4 vd (length out) ! i := out ! i])
      [0..<length out] (vregs V) = put_cells (zip ?d out) (vregs V)" .
  have o: "(if vpack_out opc (map (\<lambda>i. vregs V ! (lanes4 vs sz ! i)) [0..<sz]) sz = [] then [0]
      else vpack_out opc (map (\<lambda>i. vregs V ! (lanes4 vs sz ! i)) [0..<sz]) sz) = out"
    using assms(3,4) by simp
  have v: "psp_vpack opc vd vs sz V = end_op (set_vregs (put_cells (zip ?d out) (vregs V)) V)"
    by (simp only: psp_vpack_def Let_def o p0 w)
  have "distinct ?d" using lanes4_distinct by (rule distinct_take)
  moreover have "\<forall>j\<in>set ?d. j < length (vregs V)"
  proof
    fix j assume "j \<in> set ?d"
    then have "j \<in> set (lanes4 vd (length out))" by (rule in_set_takeD)
    then show "j < length (vregs V)" using lanes4_set assms(2) by simp
  qed
  ultimately have "map ((!) (put_cells (zip ?d out) (vregs V))) ?d = out"
    using assms(5) by (intro put_cells_same) auto
  moreover have "map (\<lambda>i. vregs (psp_vpack opc vd vs sz V) ! (lanes4 vd (length out) ! i)) [0..<length out] =
      map ((!) (put_cells (zip ?d out) (vregs V))) ?d"
    using assms(5) unfolding v by (intro nth_equalityI) (simp_all add: end_op_def)
  ultimately show "map (\<lambda>i. vregs (psp_vpack opc vd vs sz V) ! (lanes4 vd (length out) ! i)) [0..<length out] = out"
    by simp
  show "length (vregs (psp_vpack opc vd vs sz V)) = 128" "\<not> psp_vfpu_prefix_pending (vf (psp_vpack opc vd vs sz V))"
    using assms(2) by (simp_all add: v end_op_def clear_prefixes_def psp_vfpu_prefix_pending_def)
qed

text \<open>
  Packing undoes unpacking, register to register. A word unpacked by \<^verbatim>\<open>vuc2i\<close> or \<^verbatim>\<open>vc2i\<close> into
  four lanes and packed by \<^verbatim>\<open>vi2uc\<close> or \<^verbatim>\<open>vi2c\<close> is the word again, and two words unpacked by
  \<^verbatim>\<open>vus2i\<close> or \<^verbatim>\<open>vs2i\<close> come back from \<^verbatim>\<open>vi2us\<close> or \<^verbatim>\<open>vi2s\<close>.
\<close>
theorem psp_vpack_roundtrip:
  assumes "\<not> psp_vfpu_prefix_pending (vf V)" and "length (vregs V) = 128"
  shows "(opc = VP_I2UC \<and> opu = VP_UC2I \<or> opc = VP_I2C \<and> opu = VP_C2I \<longrightarrow>
            vregs (psp_vpack opc vd vq 4 (psp_vpack opu vq vs 1 V)) ! (lanes4 vd 1 ! 0) = vregs V ! (lanes4 vs 1 ! 0)) \<and>
         (opc = VP_I2US \<and> opu = VP_US2I \<or> opc = VP_I2S \<and> opu = VP_S2I \<longrightarrow>
            (\<forall>i<2. vregs (psp_vpack opc vd vq 4 (psp_vpack opu vq vs 2 V)) ! (lanes4 vd 2 ! i) =
                    vregs V ! (lanes4 vs 2 ! i)))"
proof (intro conjI impI)
  assume o: "opc = VP_I2UC \<and> opu = VP_UC2I \<or> opc = VP_I2C \<and> opu = VP_C2I"
  let ?w = "vregs V ! (lanes4 vs 1 ! 0)" and ?U = "psp_vpack opu vq vs 1 V"
  have u: "map (unpack_byte opu ?w) [0..<4] = vpack_out opu (map (\<lambda>i. vregs V ! (lanes4 vs 1 ! i)) [0..<1]) 1"
    using o by (auto simp: vpack_out_def)
  note U = vpack_lanes [OF assms u]
  have lanes: "map (\<lambda>i. vregs ?U ! (lanes4 vq 4 ! i)) [0..<4] = map (unpack_byte opu ?w) [0..<4]"
    using U(1) [of vq] by simp
  have p: "[?w] = vpack_out opc (map (\<lambda>i. vregs ?U ! (lanes4 vq 4 ! i)) [0..<4]) 4"
    unfolding lanes using o byte_join [of ?w] pack_unpack_byte [OF o, of ?w]
    by (auto simp: vpack_out_def upt_conv_Cons or.assoc)
  show "vregs (psp_vpack opc vd vq 4 ?U) ! (lanes4 vd 1 ! 0) = ?w"
    using vpack_lanes(1) [OF U(3,2) p] by simp
next
  assume o: "opc = VP_I2US \<and> opu = VP_US2I \<or> opc = VP_I2S \<and> opu = VP_S2I"
  let ?ws = "map (\<lambda>i. vregs V ! (lanes4 vs 2 ! i)) [0..<2]" and ?U = "psp_vpack opu vq vs 2 V"
  have u: "map (unpack_half opu ?ws) [0..<4] = vpack_out opu ?ws 2"
    using o by (auto simp: vpack_out_def)
  note U = vpack_lanes [OF assms u]
  have lanes: "map (\<lambda>i. vregs ?U ! (lanes4 vq 4 ! i)) [0..<4] = map (unpack_half opu ?ws) [0..<4]"
    using U(1) [of vq] by simp
  have p: "?ws = vpack_out opc (map (\<lambda>i. vregs ?U ! (lanes4 vq 4 ! i)) [0..<4]) 4"
  proof -
    have "vpack_out opc (map (unpack_half opu ?ws) [0..<4]) 4 =
      map (\<lambda>j. pack_half opc (unpack_half opu ?ws (2 * j)) OR push_bit 16 (pack_half opc (unpack_half opu ?ws (2 * j + 1)))) [0..<2]"
      using o by (auto simp: vpack_out_def)
    also have "\<dots> = map (\<lambda>j. ?ws ! j) [0..<2]"
      unfolding pack_unpack_half [OF o] by (intro map_cong refl) (use half_join in simp)
    finally show ?thesis unfolding lanes by (simp add: upt_conv_Cons numeral_2_eq_2)
  qed
  show "\<forall>i<2. vregs (psp_vpack opc vd vq 4 ?U) ! (lanes4 vd 2 ! i) = vregs V ! (lanes4 vs 2 ! i)"
    using vpack_lanes(1) [OF U(3,2) p, of vd] by (auto simp: list_eq_iff_nth_eq)
qed

theorem psp_vpack_roundtrip_witness:
  "vregs (psp_vpack VP_I2UC 8 4 4 (psp_vpack VP_UC2I 4 0 1 idle_unit)) ! (lanes4 8 1 ! 0) =
     vregs idle_unit ! (lanes4 0 1 ! 0)"
  using psp_vpack_roundtrip [OF idle_unit_ok, of VP_I2UC VP_UC2I] by simp

section \<open>Conversions\<close>

lemma div_pow2_exact: "i * 2 ^ j div 2 ^ j = (i :: int)" "- (i * 2 ^ j) div 2 ^ j = - i" "div_even (i * 2 ^ j) (2 ^ j) = i"
  using div_even_exact [of "2 ^ j" i] by (simp_all add: minus_mult_left [symmetric] del: minus_mult_left)
    (metis minus_mult_left nonzero_mult_div_cancel_right power_not_zero zero_neq_numeral)

text \<open>
  The conversions invert each other on every integer a single holds exactly. An integer of at
  most 24 bits converted by \<^verbatim>\<open>vi2f\<close> and back by \<^verbatim>\<open>vf2in\<close>, \<^verbatim>\<open>vf2iz\<close>, \<^verbatim>\<open>vf2iu\<close> or \<^verbatim>\<open>vf2id\<close> with the same
  scale is the integer again; and whatever the pattern, a conversion to an integer is the rounded
  value where that fits in 32 bits and the nearest bound where it does not.
\<close>
theorem f2i_i2f_roundtrip:
  assumes "opc \<in> {VU_F2IN, VU_F2IZ, VU_F2IU, VU_F2ID}" and "s \<le> 31" and "\<bar>sint b\<bar> < 0x1000000"
  shows "f2i (i2f b s) s opc = b \<and>
    (f32_fin x \<longrightarrow> sint (f2i x s opc) = max (- 0x80000000) (min 0x7FFFFFFF (f2i_int x s opc)))"
proof
  show "f2i (i2f b s) s opc = b"
  proof (cases "sint b = 0")
    case True
    then have "b = 0" by simp
    moreover have "f2i 0 s opc = 0"
      using assms(1) f32_fin_not [OF f32_zero_parts(1)]
      by (auto simp: f2i_def f2i_int_def f32_consts Let_def div_even_def)
    ultimately show ?thesis by (simp add: i2f_def f32_round_def f32_signed_def)
  next
    case False
    obtain j where x: "f32_fin (i2f b s)" "f32_smant (i2f b s) = sint b * 2 ^ j"
      "f32_scale (i2f b s) = - int s - int j"
      using f32_small_int [OF False assms(3,2)] unfolding i2f_def by blast
    have "f2i_int (i2f b s) s opc = sint b"
      using assms(1) by (auto simp: f2i_int_def x Let_def div_pow2_exact)
    then show ?thesis using x(1) f32_fin_not [OF x(1)] assms(3) by (auto simp: f2i_def Let_def)
  qed
  have "sint (of_int r :: u32) = r" if "- 0x80000000 < r" "r < 0x80000000" for r
    using that by (intro sint_of_int_u32) auto
  then show "f32_fin x \<longrightarrow> sint (f2i x s opc) = max (- 0x80000000) (min 0x7FFFFFFF (f2i_int x s opc))"
    using f32_fin_not [of x] by (auto simp: f2i_def Let_def)
qed

theorem f2i_i2f_roundtrip_witness:
  "f2i (i2f (- 12345) 8) 8 VU_F2IN = - 12345 \<and> sint (f2i 0x3F800000 31 VU_F2IZ) = 0x7FFFFFFF"
proof -
  have "f2i_int 0x3F800000 31 VU_F2IZ = 0x80000000"
    by (simp add: f2i_int_def f32_smant_def f32_consts)
  moreover have "sint (- 12345 :: u32) = - 12345" by simp
  ultimately show ?thesis
    using f2i_i2f_roundtrip [of VU_F2IN 8 "- 12345" 0] f2i_i2f_roundtrip [of VU_F2IZ 31 0 "0x3F800000"]
      f32_one_parts(1) by simp
qed

section \<open>Vector operations through the prefixes\<close>

lemma write_lanes_append: "write_lanes p l xs (is @ js) r = write_lanes p l xs js (write_lanes p l xs is r)"
  by (induction "is" arbitrary: r) auto

lemma write_lanes_spec:
  assumes "n \<le> 4" and "length r = 128"
  shows "length (write_lanes p (lanes4 v sz) xs [0..<n] r) = 128 \<and>
    (\<forall>i<n. write_lanes p (lanes4 v sz) xs [0..<n] r ! (lanes4 v sz ! i) =
       (if vfield p (8 + i) 1 \<noteq> 0 then r ! (lanes4 v sz ! i) else dst_value p i (xs ! i))) \<and>
    (\<forall>j. j \<notin> set (take n (lanes4 v sz)) \<longrightarrow> write_lanes p (lanes4 v sz) xs [0..<n] r ! j = r ! j)"
  using assms
proof (induction n)
  case (Suc n)
  let ?l = "lanes4 v sz" and ?r = "write_lanes p (lanes4 v sz) xs [0..<n] r"
  have IH: "length ?r = 128" "\<And>i. i < n \<Longrightarrow> ?r ! (?l ! i) = (if vfield p (8 + i) 1 \<noteq> 0 then r ! (?l ! i) else dst_value p i (xs ! i))"
    "\<And>j. j \<notin> set (take n ?l) \<Longrightarrow> ?r ! j = r ! j"
    using Suc by simp_all
  have step: "write_lanes p ?l xs [0..<Suc n] r =
    (if vfield p (8 + n) 1 \<noteq> 0 then ?r else ?r[?l ! n := dst_value p n (xs ! n)])"
    by (simp add: write_lanes_append)
  have tk: "take (Suc n) ?l = take n ?l @ [?l ! n]" using Suc.prems(1) by (simp add: take_Suc_conv_app_nth)
  have new: "?l ! n \<notin> set (take n ?l)"
    using lanes4_distinct [of v sz] Suc.prems(1) tk distinct_take [of ?l "Suc n"] by simp
  have ne: "?l ! i \<noteq> ?l ! n" if "i < n" for i using lanes4_inj [of i n v sz] that Suc.prems(1) by auto
  have ln: "?l ! n < 128" using Suc.prems(1) by (intro lanes4_less) simp
  show ?case
    unfolding step tk
  proof (intro conjI allI impI)
    show "length (if vfield p (8 + n) 1 \<noteq> 0 then ?r else ?r[?l ! n := dst_value p n (xs ! n)]) = 128"
      using IH(1) by simp
  next
    fix i assume "i < Suc n"
    then show "(if vfield p (8 + n) 1 \<noteq> 0 then ?r else ?r[?l ! n := dst_value p n (xs ! n)]) ! (?l ! i) =
      (if vfield p (8 + i) 1 \<noteq> 0 then r ! (?l ! i) else dst_value p i (xs ! i))"
      using IH ln ne [of i] new by (cases "i = n") (simp_all add: nth_list_update)
  next
    fix j assume "j \<notin> set (take n ?l @ [?l ! n])"
    then show "(if vfield p (8 + n) 1 \<noteq> 0 then ?r else ?r[?l ! n := dst_value p n (xs ! n)]) ! j = r ! j"
      using IH(3) [of j] by simp
  qed
qed simp

text \<open>
  Every lane-by-lane operation of the vector unit, through the prefixes. Both operands are read
  before a lane is written, so a destination that overlaps a source does no harm: lane \<open>i\<close> of the
  destination gets the saturated result of the operand lanes the registers held before, unless the
  destination prefix masks it; no other register changes; and no prefix is left for the next
  instruction. With no prefix pending, lane \<open>i\<close> is the plain result.
\<close>
theorem vbinop_lanes:
  assumes "1 \<le> n \<and> n \<le> 4" and "length (vregs V) = 128"
  shows "(\<forall>i<n. vregs (vbinop f vd vs vt n V) ! (lanes4 vd n ! i) =
            (if vfield (dst_prefix V) (8 + i) 1 \<noteq> 0 then vregs V ! (lanes4 vd n ! i)
             else dst_value (dst_prefix V) i (f (read_src 0 vs n V ! i) (read_src 1 vt n V ! i)))) \<and>
    (\<forall>j. j \<notin> set (take n (lanes4 vd n)) \<longrightarrow> vregs (vbinop f vd vs vt n V) ! j = vregs V ! j) \<and>
    \<not> psp_vfpu_prefix_pending (vf (vbinop f vd vs vt n V)) \<and>
    (\<not> psp_vfpu_prefix_pending (vf V) \<longrightarrow>
      (\<forall>i<n. vregs (vbinop f vd vs vt n V) ! (lanes4 vd n ! i) =
              f (vregs V ! (lanes4 vs n ! i)) (vregs V ! (lanes4 vt n ! i))))"
proof -
  let ?xs = "map (\<lambda>i. f (read_src 0 vs n V ! i) (read_src 1 vt n V ! i)) [0..<n]"
  have v: "vregs (vbinop f vd vs vt n V) = write_lanes (dst_prefix V) (lanes4 vd n) ?xs [0..<n] (vregs V)"
    "vf (vbinop f vd vs vt n V) = clear_prefixes (vf V)"
    by (simp_all add: vbinop_def Let_def end_op_def write_dst_def)
  note W = write_lanes_spec [OF conjunct2 [OF assms(1)] assms(2), of "dst_prefix V" vd n ?xs]
  have lanes: "vregs (vbinop f vd vs vt n V) ! (lanes4 vd n ! i) =
      (if vfield (dst_prefix V) (8 + i) 1 \<noteq> 0 then vregs V ! (lanes4 vd n ! i)
       else dst_value (dst_prefix V) i (f (read_src 0 vs n V ! i) (read_src 1 vt n V ! i)))" if "i < n" for i
    using W that by (simp add: v(1))
  have "\<not> psp_vfpu_prefix_pending (vf (vbinop f vd vs vt n V))"
    by (simp add: v(2) clear_prefixes_def psp_vfpu_prefix_pending_def)
  moreover have "\<forall>j. j \<notin> set (take n (lanes4 vd n)) \<longrightarrow> vregs (vbinop f vd vs vt n V) ! j = vregs V ! j"
    using W by (simp add: v(1))
  moreover have "vregs (vbinop f vd vs vt n V) ! (lanes4 vd n ! i) =
      f (vregs V ! (lanes4 vs n ! i)) (vregs V ! (lanes4 vt n ! i))"
    if "\<not> psp_vfpu_prefix_pending (vf V)" "i < n" for i
    using lanes [OF that(2)] no_prefix [OF that(1)] that(2)
    by (simp add: dst_prefix_def read_src_def Let_def dst_value_def vfield_def)
  ultimately show ?thesis using lanes by blast
qed

theorem vbinop_lanes_witness:
  "vregs (psp_vadd 4 4 4 4 ident_unit) ! (lanes4 4 4 ! 0) =
     f32_add (vregs ident_unit ! (lanes4 4 4 ! 0)) (vregs ident_unit ! (lanes4 4 4 ! 0))"
proof -
  have r: "1 \<le> (4 :: nat) \<and> 4 \<le> (4 :: nat)" by simp
  have "\<forall>i<4. vregs (vbinop f32_add 4 4 4 4 ident_unit) ! (lanes4 4 4 ! i) =
      f32_add (vregs ident_unit ! (lanes4 4 4 ! i)) (vregs ident_unit ! (lanes4 4 4 ! i))"
    using vbinop_lanes [OF r ident_unit_ok(2), of f32_add 4 4 4] ident_unit_ok(1) by blast
  then show ?thesis by (simp add: psp_vadd_def)
qed

end
