(* ===== verification/Render.thy ===== *)
theory Render
  imports Float32
begin

unbundle bit_operations_syntax

text \<open>
  The render backends of \<^verbatim>\<open>src/render.c\<close> with the types of \<^verbatim>\<open>include/psprecomp/render.h\<close>: colour
  formats, texture fetch, the per-pixel pipeline, triangles and sprites of the software backend, and
  the null backend. A coordinate is the integer a 32-bit C \<^verbatim>\<open>int\<close> holds. The products and
  differences of coordinates leave that range (the triangle of \<open>edge_overflows\<close> has corners that fit
  in 16 bits), so they are wrapped: \<open>c_int\<close> is the two's complement result, and as it commutes with
  sums and products one wrap around an expression stands for a wrap at each of its operations. Where C
  would convert to \<^verbatim>\<open>uint32_t\<close> the definitions do. A fragment reads and writes guest memory, so the machine is part of the state.
\<close>

section \<open>Vertices, draw state and targets\<close>

record psp_vertex =
  vx :: int
  vy :: int
  vz :: u32
  vrgba :: u32
  vu :: u32
  vv :: u32
  behind :: bool

record psp_draw_state =
  clear :: bool
  clear_color :: bool
  clear_alpha :: bool
  clear_depth :: bool
  gouraud :: bool
  tex_enable :: bool
  tex_addr :: u32
  tex_bw :: nat
  tex_w :: nat
  tex_h :: nat
  tex_fmt :: nat
  tex_swizzle :: bool
  tex_clamp_u :: bool
  tex_clamp_v :: bool
  tex_func :: nat
  tex_alpha :: bool
  tex_double :: bool
  tex_env :: u32
  clut :: "u8 list option"
  clut_fmt :: nat
  clut_shift :: nat
  clut_mask :: nat
  clut_start :: nat
  blend_on :: bool
  blend_src :: nat
  blend_dst :: nat
  blend_op :: nat
  blend_sfix :: u32
  blend_dfix :: u32
  atest :: bool
  atest_func :: nat
  atest_ref :: nat
  atest_mask :: nat
  sc_x0 :: int
  sc_y0 :: int
  sc_x1 :: int
  sc_y1 :: int
  ztest :: bool
  zfunc :: nat
  zwrite :: bool
  zaddr :: u32
  zbw :: nat

datatype backend = psp_render_software | psp_render_null

record renderer =
  g_fb_addr :: u32
  g_fb_stride :: u32
  g_fb_fmt :: nat
  g_pixels :: u64
  g_bad_texels :: u64
  g_backend :: backend

text \<open>The renderer's statics with the machine it draws into.\<close>

type_synonym screen = "renderer \<times> psp_machine"

definition psp_render_reset_pixels :: "renderer \<Rightarrow> renderer" where
  "psp_render_reset_pixels R = R\<lparr>g_pixels := 0, g_bad_texels := 0\<rparr>"

section \<open>Colours\<close>

definition chan :: "nat \<Rightarrow> u32 \<Rightarrow> int" where
  "chan i c = uint (drop_bit (8 * i) c AND 0xFF)"

abbreviation cR :: "u32 \<Rightarrow> int" where "cR \<equiv> chan 0"
abbreviation cG :: "u32 \<Rightarrow> int" where "cG \<equiv> chan 1"
abbreviation cB :: "u32 \<Rightarrow> int" where "cB \<equiv> chan 2"
abbreviation cA :: "u32 \<Rightarrow> int" where "cA \<equiv> chan 3"

definition clamp8 :: "int \<Rightarrow> int" where
  "clamp8 v = max 0 (min 255 v)"

definition rgba :: "int \<Rightarrow> int \<Rightarrow> int \<Rightarrow> int \<Rightarrow> u32" where
  "rgba r g b a = of_int (clamp8 r) OR push_bit 8 (of_int (clamp8 g)) OR push_bit 16 (of_int (clamp8 b)) OR
     push_bit 24 (of_int (clamp8 a))"

definition mul8 :: "int \<Rightarrow> int \<Rightarrow> int" where
  "mul8 a b = (a * b + 127) div 255"

definition bits_of :: "nat \<Rightarrow> u32 \<Rightarrow> u32 \<Rightarrow> int" where
  "bits_of s m px = uint (drop_bit s px AND m)"

text \<open>A 5-, 6- or 4-bit component widened to eight bits by repeating its high bits.\<close>

definition up5 :: "int \<Rightarrow> int" where "up5 r = r * 8 + r div 4"
definition up6 :: "int \<Rightarrow> int" where "up6 g = g * 4 + g div 16"
definition up4 :: "int \<Rightarrow> int" where "up4 a = a * 16 + a"

definition psp_color_expand :: "u32 \<Rightarrow> nat \<Rightarrow> u32" where
  "psp_color_expand px fmt =
     (if fmt = 0 then rgba (up5 (bits_of 0 0x1F px)) (up6 (bits_of 5 0x3F px)) (up5 (bits_of 11 0x1F px)) 255
      else if fmt = 1
      then rgba (up5 (bits_of 0 0x1F px)) (up5 (bits_of 5 0x1F px)) (up5 (bits_of 10 0x1F px))
             (if px AND 0x8000 \<noteq> 0 then 255 else 0)
      else if fmt = 2
      then rgba (up4 (bits_of 0 0xF px)) (up4 (bits_of 4 0xF px)) (up4 (bits_of 8 0xF px)) (up4 (bits_of 12 0xF px))
      else px)"

definition color_pack :: "u32 \<Rightarrow> nat \<Rightarrow> u32" where
  "color_pack c fmt =
     (if fmt = 0
      then of_int (cR c div 8) OR push_bit 5 (of_int (cG c div 4)) OR push_bit 11 (of_int (cB c div 8))
      else if fmt = 1
      then of_int (cR c div 8) OR push_bit 5 (of_int (cG c div 8)) OR push_bit 10 (of_int (cB c div 8)) OR
           push_bit 15 (of_int (cA c div 128))
      else if fmt = 2
      then of_int (cR c div 16) OR push_bit 4 (of_int (cG c div 16)) OR push_bit 8 (of_int (cB c div 16)) OR
           push_bit 12 (of_int (cA c div 16))
      else c)"

section \<open>Textures\<close>

abbreviation (input) PSP_TPSM_8888 :: nat where "PSP_TPSM_8888 \<equiv> 3"
abbreviation (input) PSP_TPSM_T4 :: nat where "PSP_TPSM_T4 \<equiv> 4"
abbreviation (input) PSP_TPSM_T8 :: nat where "PSP_TPSM_T8 \<equiv> 5"
abbreviation (input) PSP_TPSM_T16 :: nat where "PSP_TPSM_T16 \<equiv> 6"
abbreviation (input) PSP_TPSM_DXT1 :: nat where "PSP_TPSM_DXT1 \<equiv> 8"
abbreviation (input) PSP_TPSM_DXT3 :: nat where "PSP_TPSM_DXT3 \<equiv> 9"
abbreviation (input) PSP_TPSM_DXT5 :: nat where "PSP_TPSM_DXT5 \<equiv> 10"

definition TEX_BPP :: "u32 list" where
  "TEX_BPP = [16, 16, 16, 32, 4, 8, 16, 32, 4, 8, 8]"

definition tex_offset :: "psp_draw_state \<Rightarrow> u32 \<Rightarrow> u32 \<Rightarrow> u32" where
  "tex_offset st xb y =
     (let rowb = of_nat (tex_bw st) * TEX_BPP ! tex_fmt st div 8 in
      if \<not> tex_swizzle st then y * rowb + xb
      else let blocks = rowb div 16
           in (drop_bit 3 y * blocks + drop_bit 4 xb) * 128 + (y AND 7) * 16 + (xb AND 15))"

definition clut_entry :: "psp_draw_state \<Rightarrow> u32 \<Rightarrow> u32" where
  "clut_entry st idx =
     (let e = (drop_bit (clut_shift st) idx AND of_nat (clut_mask st)) OR push_bit 4 (of_nat (clut_start st))
      in case clut st of
           None \<Rightarrow> 0
         | Some p \<Rightarrow>
             if clut_fmt st = 3
             then (if e \<ge> 256 then 0 else word_of_bytes (map (\<lambda>i. p ! (unat e * 4 + i)) [0..<4]))
             else if e \<ge> 512 then 0
             else psp_color_expand (word_of_bytes (map (\<lambda>i. p ! (unat e * 2 + i)) [0..<2])) (clut_fmt st))"

definition wrap :: "int \<Rightarrow> int \<Rightarrow> bool \<Rightarrow> int" where
  "wrap c sz clampd = (if clampd then (if c < 0 then 0 else if c \<ge> sz then sz - 1 else c) else c AND (sz - 1))"

text \<open>The two interpolated colours of a block: \<open>p\<close> parts of \<open>a\<close> and \<open>q\<close> of \<open>b\<close>.\<close>

definition dxt_mix :: "int \<Rightarrow> u32 \<Rightarrow> int \<Rightarrow> u32 \<Rightarrow> u32" where
  "dxt_mix p a q b =
     (let f = (\<lambda>i. (p * chan i a + q * chan i b) div (p + q)) in rgba (f 0) (f 1) (f 2) 255)"

definition dxt_color :: "nat \<Rightarrow> u16 \<Rightarrow> u16 \<Rightarrow> u32 \<Rightarrow> u32" where
  "dxt_color fmt c0 c1 sel =
     (let a = psp_color_expand (ucast c0) 0; b = psp_color_expand (ucast c1) 0;
          four = (c0 > c1 \<or> fmt \<noteq> PSP_TPSM_DXT1)
      in if sel = 0 then a
         else if sel = 1 then b
         else if sel = 2 then (if four then dxt_mix 2 a 1 b else dxt_mix 1 a 1 b)
         else (if four then dxt_mix 1 a 2 b else 0))"

definition dxt5_alpha :: "u64 \<Rightarrow> int \<Rightarrow> int \<Rightarrow> nat \<Rightarrow> int" where
  "dxt5_alpha bits a0 a1 i =
     (let k = uint (drop_bit (3 * i) bits AND 7)
      in if k = 0 then a0
         else if k = 1 then a1
         else if a0 > a1 then ((8 - k) * a0 + (k - 1) * a1) div 7
         else if k < 6 then ((6 - k) * a0 + (k - 1) * a1) div 5
         else if k = 6 then 0 else 255)"

definition dxt_texel :: "psp_draw_state \<Rightarrow> u32 \<Rightarrow> u32 \<Rightarrow> psp_machine \<Rightarrow> u32 \<times> psp_machine" where
  "dxt_texel st x y M0 =
     (let sz = (if tex_fmt st = PSP_TPSM_DXT1 then 8 else 16);
          blk = tex_addr st + (drop_bit 2 y * (of_nat (tex_bw st) div 4) + drop_bit 2 x) * sz;
          i = unat ((y AND 3) * 4 + (x AND 3));
          (c0, M1) = psp_read16 (blk + 4) M0;
          (c1, M2) = psp_read16 (blk + 6) M1;
          (w, M3) = psp_read32 blk M2;
          out = dxt_color (tex_fmt st) c0 c1 (drop_bit (2 * i) w AND 3)
      in if tex_fmt st = PSP_TPSM_DXT3
         then (let (h, M4) = psp_read16 (blk + 8 + (y AND 3) * 2) M3;
                   al = drop_bit (unat ((x AND 3) * 4)) (ucast h :: u32) AND 0xF
               in ((out AND 0x00FFFFFF) OR push_bit 24 (al * 17), M4))
         else if tex_fmt st = PSP_TPSM_DXT5
         then (let (h, M4) = psp_read16 (blk + 12) M3; (v, M5) = psp_read32 (blk + 8) M4;
                   (a0, M6) = psp_read8 (blk + 14) M5; (a1, M7) = psp_read8 (blk + 15) M6;
                   al = dxt5_alpha (ucast h OR push_bit 16 (ucast v)) (uint a0) (uint a1) i
               in ((out AND 0x00FFFFFF) OR push_bit 24 (of_int al), M7))
         else (out, M3))"

definition psp_tex_fetch :: "psp_draw_state \<Rightarrow> int \<Rightarrow> int \<Rightarrow> screen \<Rightarrow> u32 \<times> screen" where
  "psp_tex_fetch st x0 y0 S =
     (let (R, M) = S in
      if tex_fmt st > PSP_TPSM_DXT5 \<or> tex_w st = 0 \<or> tex_h st = 0 \<or> tex_bw st = 0
      then (0xFFFF00FF, R\<lparr>g_bad_texels := g_bad_texels R + 1\<rparr>, M)
      else let x = wrap x0 (int (tex_w st)) (tex_clamp_u st); y = wrap y0 (int (tex_h st)) (tex_clamp_v st) in
           if tex_fmt st \<ge> PSP_TPSM_DXT1
           then (let (c, M1) = dxt_texel st (of_int x) (of_int y) M in (c, R, M1))
           else let at = tex_addr st + tex_offset st (of_int x * TEX_BPP ! tex_fmt st div 8) (of_int y) in
                if tex_fmt st \<le> 2 then (let (h, M1) = psp_read16 at M in (psp_color_expand (ucast h) (tex_fmt st), R, M1))
                else if tex_fmt st = PSP_TPSM_8888 then (let (w, M1) = psp_read32 at M in (w, R, M1))
                else if tex_fmt st = PSP_TPSM_T4
                then (let (b, M1) = psp_read8 at M
                      in (clut_entry st (drop_bit (if odd x then 4 else 0) (ucast b) AND 0xF), R, M1))
                else if tex_fmt st = PSP_TPSM_T8 then (let (b, M1) = psp_read8 at M in (clut_entry st (ucast b), R, M1))
                else if tex_fmt st = PSP_TPSM_T16 then (let (h, M1) = psp_read16 at M in (clut_entry st (ucast h), R, M1))
                else (let (w, M1) = psp_read32 at M in (clut_entry st w, R, M1)))"

section \<open>Combining and testing\<close>

definition tex_combine :: "psp_draw_state \<Rightarrow> u32 \<Rightarrow> u32 \<Rightarrow> u32" where
  "tex_combine st t c =
     (let modulated = (if tex_alpha st then mul8 (cA t) (cA c) else cA c);
          (f, a) =
            (if tex_func st = 0 then (\<lambda>i. mul8 (chan i t) (chan i c), modulated)
             else if tex_func st = 1
             then (\<lambda>i. if tex_alpha st then (chan i t * cA t + chan i c * (255 - cA t) + 127) div 255 else chan i t,
                   cA c)
             else if tex_func st = 2
             then (\<lambda>i. (chan i c * (255 - chan i t) + chan i (tex_env st) * chan i t + 127) div 255, modulated)
             else if tex_func st = 3 then (\<lambda>i. chan i t, if tex_alpha st then cA t else cA c)
             else (\<lambda>i. chan i t + chan i c, modulated));
          k = (if tex_double st then 2 else 1)
      in rgba (f 0 * k) (f 1 * k) (f 2 * k) a)"

text \<open>The eight comparison functions the alpha and depth tests share.\<close>

definition compare_pass :: "nat \<Rightarrow> int \<Rightarrow> int \<Rightarrow> bool" where
  "compare_pass func a b =
     (if func = 0 then False else if func = 1 then True else if func = 2 then a = b
      else if func = 3 then a \<noteq> b else if func = 4 then a < b else if func = 5 then a \<le> b
      else if func = 6 then a > b else a \<ge> b)"

definition alpha_pass :: "psp_draw_state \<Rightarrow> u32 \<Rightarrow> bool" where
  "alpha_pass st c =
     compare_pass (atest_func st) (cA c AND int (atest_mask st)) (int (atest_ref st) AND int (atest_mask st))"

definition depth_pass :: "nat \<Rightarrow> int \<Rightarrow> int \<Rightarrow> bool" where
  "depth_pass func z d = compare_pass func z d"

definition blend_factor :: "nat \<Rightarrow> bool \<Rightarrow> nat \<Rightarrow> u32 \<Rightarrow> u32 \<Rightarrow> u32 \<Rightarrow> int" where
  "blend_factor code is_src ch s d fixv =
     (let other = (if is_src then chan ch d else chan ch s) in
      if code = 0 then other
      else if code = 1 then 255 - other
      else if code = 2 then cA s
      else if code = 3 then 255 - cA s
      else if code = 4 then cA d
      else if code = 5 then 255 - cA d
      else if code = 6 then (if 2 * cA s > 255 then 255 else 2 * cA s)
      else if code = 7 then (if 255 - 2 * cA s < 0 then 0 else 255 - 2 * cA s)
      else if code = 8 then (if 2 * cA d > 255 then 255 else 2 * cA d)
      else if code = 9 then (if 255 - 2 * cA d < 0 then 0 else 255 - 2 * cA d)
      else chan ch fixv)"

definition blend_channel :: "psp_draw_state \<Rightarrow> u32 \<Rightarrow> u32 \<Rightarrow> nat \<Rightarrow> int" where
  "blend_channel st s d ch =
     (let sc = chan ch s; dc = chan ch d;
          sv = mul8 sc (blend_factor (blend_src st) True ch s d (blend_sfix st));
          dv = mul8 dc (blend_factor (blend_dst st) False ch s d (blend_dfix st))
      in if blend_op st = 0 then sv + dv
         else if blend_op st = 1 then sv - dv
         else if blend_op st = 2 then dv - sv
         else if blend_op st = 3 then (if sc < dc then sc else dc)
         else if blend_op st = 4 then (if sc > dc then sc else dc)
         else if sc > dc then sc - dc else dc - sc)"

definition blend :: "psp_draw_state \<Rightarrow> u32 \<Rightarrow> u32 \<Rightarrow> u32" where
  "blend st s d = rgba (blend_channel st s d 0) (blend_channel st s d 1) (blend_channel st s d 2) (cA s)"

section \<open>The software backend\<close>

definition sw_target :: "u32 \<Rightarrow> u32 \<Rightarrow> nat \<Rightarrow> renderer \<Rightarrow> renderer" where
  "sw_target addr stride fmt R = R\<lparr>g_fb_addr := addr, g_fb_stride := stride, g_fb_fmt := fmt\<rparr>"

definition fb_read :: "u32 \<Rightarrow> screen \<Rightarrow> u32 \<times> screen" where
  "fb_read at S =
     (let (R, M) = S in
      if g_fb_fmt R = 3 then (let (w, M1) = psp_read32 at M in (w, R, M1))
      else (let (h, M1) = psp_read16 at M in (psp_color_expand (ucast h) (g_fb_fmt R), R, M1)))"

definition frag_depth :: "u32 \<Rightarrow> int" where
  "frag_depth zf =
     (if f32_lt zf 0 then 0 else if f32_lt 0x477FFF00 zf then 65535 else f32_to_int (f32_add zf 0x3F000000))"

definition fb_at :: "renderer \<Rightarrow> int \<Rightarrow> int \<Rightarrow> u32" where
  "fb_at R x y = g_fb_addr R + of_int (y * sint (g_fb_stride R) + x) * (if g_fb_fmt R = 3 then 4 else 2)"

definition z_at :: "psp_draw_state \<Rightarrow> int \<Rightarrow> int \<Rightarrow> u32" where
  "z_at st x y = zaddr st + of_int (y * int (zbw st) + x) * 2"

text \<open>The texel coordinate: the integer part, rounded down for negative values.\<close>

definition texel_coord :: "u32 \<Rightarrow> int" where
  "texel_coord u = (let t = f32_to_int u in if f32_lt u 0 \<and> \<not> f32_eq (f32_of_int t) u then t - 1 else t)"

definition frag_clipped :: "psp_draw_state \<Rightarrow> int \<Rightarrow> int \<Rightarrow> renderer \<Rightarrow> bool" where
  "frag_clipped st x y R \<longleftrightarrow>
     g_fb_addr R = 0 \<or> g_fb_stride R = 0 \<or> x < 0 \<or> y < 0 \<or> x \<ge> 480 \<or> y \<ge> 272 \<or>
     x < sc_x0 st \<or> x > sc_x1 st \<or> y < sc_y0 st \<or> y > sc_y1 st"

text \<open>
  The two halves of a fragment. Each gives the colour to write, or \<open>None\<close> where the C function
  returns before the write.
\<close>

definition frag_clear :: "psp_draw_state \<Rightarrow> int \<Rightarrow> int \<Rightarrow> u32 \<Rightarrow> int \<Rightarrow> screen \<Rightarrow> u32 option \<times> screen" where
  "frag_clear st x y c z S =
     (let (R, M) = S;
          S1 = (R, if clear_depth st \<and> zaddr st \<noteq> 0 \<and> zbw st > 0 then psp_write16 (z_at st x y) (of_int z) M else M)
      in if \<not> clear_color st \<and> \<not> clear_alpha st then (None, S1)
         else if clear_color st \<and> clear_alpha st then (Some c, S1)
         else let (d, S2) = fb_read (fb_at R x y) S1
              in (Some (if clear_color st then (c AND 0x00FFFFFF) OR (d AND 0xFF000000)
                        else (d AND 0x00FFFFFF) OR (c AND 0xFF000000)), S2))"

definition frag_shade :: "psp_draw_state \<Rightarrow> int \<Rightarrow> int \<Rightarrow> u32 \<Rightarrow> u32 \<Rightarrow> u32 \<Rightarrow> int \<Rightarrow> screen \<Rightarrow> u32 option \<times> screen" where
  "frag_shade st x y c0 u v z S0 =
     (let (c, S1) = (if tex_enable st
                     then (let (t, S') = psp_tex_fetch st (texel_coord u) (texel_coord v) S0 in (tex_combine st t c0, S'))
                     else (c0, S0))
      in if atest st \<and> \<not> alpha_pass st c then (None, S1)
         else let (ok, S2) =
                (if ztest st \<and> zaddr st \<noteq> 0 \<and> zbw st > 0
                 then (let (R, M) = S1; (d, M1) = psp_read16 (z_at st x y) M
                       in if \<not> depth_pass (zfunc st) z (uint d) then (False, R, M1)
                          else (True, R, if zwrite st then psp_write16 (z_at st x y) (of_int z) M1 else M1))
                 else (True, S1))
              in if \<not> ok then (None, S2)
                 else if blend_on st then (let (d, S3) = fb_read (fb_at (fst S2) x y) S2 in (Some (blend st c d), S3))
                 else (Some c, S2))"

definition fragment :: "psp_draw_state \<Rightarrow> int \<Rightarrow> int \<Rightarrow> u32 \<Rightarrow> u32 \<Rightarrow> u32 \<Rightarrow> u32 \<Rightarrow> screen \<Rightarrow> screen" where
  "fragment st x y c u v zf S =
     (if frag_clipped st x y (fst S) then S
      else let z = frag_depth zf;
               (out, S1) = (if clear st then frag_clear st x y c z S else frag_shade st x y c u v z S)
           in case out of
                None \<Rightarrow> S1
              | Some c1 \<Rightarrow>
                  (let (R, M) = S1; at = fb_at (fst S) x y
                   in (R\<lparr>g_pixels := g_pixels R + 1\<rparr>,
                       if g_fb_fmt (fst S) = 3 then psp_write32 at c1 M
                       else psp_write16 at (ucast (color_pack c1 (g_fb_fmt (fst S)))) M)))"

text \<open>The value a 32-bit \<^verbatim>\<open>int\<close> has after wrapping around.\<close>

definition c_int :: "int \<Rightarrow> int" where
  "c_int i = sint (of_int i :: u32)"

definition edge :: "psp_vertex \<Rightarrow> psp_vertex \<Rightarrow> int \<Rightarrow> int \<Rightarrow> int" where
  "edge p q x y = c_int ((vx q - vx p) * (y - vy p) - (vy q - vy p) * (x - vx p))"

definition tri_covers :: "psp_vertex \<Rightarrow> psp_vertex \<Rightarrow> psp_vertex \<Rightarrow> int \<Rightarrow> int \<Rightarrow> bool" where
  "tri_covers a b c x y \<longleftrightarrow>
     (let w0 = edge a b x y; w1 = edge b c x y; w2 = edge c a x y
      in w0 \<ge> 0 \<and> w1 \<ge> 0 \<and> w2 \<ge> 0 \<or> w0 \<le> 0 \<and> w1 \<le> 0 \<and> w2 \<le> 0)"

text \<open>\<open>x la + y lb + z lc\<close> in the order of the source.\<close>

definition mix3 :: "u32 \<Rightarrow> u32 \<Rightarrow> u32 \<Rightarrow> u32 \<Rightarrow> u32 \<Rightarrow> u32 \<Rightarrow> u32" where
  "mix3 x la y lb z lc = f32_add (f32_add (f32_mul x la) (f32_mul y lb)) (f32_mul z lc)"

definition mix_chan :: "nat \<Rightarrow> psp_vertex \<Rightarrow> u32 \<Rightarrow> psp_vertex \<Rightarrow> u32 \<Rightarrow> psp_vertex \<Rightarrow> u32 \<Rightarrow> int" where
  "mix_chan i a la b lb c lc =
     f32_to_int (f32_add (mix3 (f32_of_int (chan i (vrgba a))) la (f32_of_int (chan i (vrgba b))) lb
       (f32_of_int (chan i (vrgba c))) lc) 0x3F000000)"

definition half_shift :: "psp_vertex \<Rightarrow> psp_vertex \<Rightarrow> u32" where
  "half_shift p q = f32_mul 0x3F000000 (f32_of_int (c_int ((vx q - vx p) - (vy q - vy p))))"

text \<open>One pixel of the double loop of \<^verbatim>\<open>sw_tri\<close>.\<close>

definition tri_pixel :: "psp_vertex \<Rightarrow> psp_vertex \<Rightarrow> psp_vertex \<Rightarrow> psp_draw_state \<Rightarrow> int \<Rightarrow> int \<Rightarrow> screen \<Rightarrow> screen" where
  "tri_pixel a b c st x y S =
     (if \<not> tri_covers a b c x y then S
      else let invd = f32_div 0x3F800000 (f32_of_int (edge a b (vx c) (vy c)));
               la = f32_mul (f32_add (f32_of_int (edge b c x y)) (half_shift b c)) invd;
               lb = f32_mul (f32_add (f32_of_int (edge c a x y)) (half_shift c a)) invd;
               lc = f32_mul (f32_add (f32_of_int (edge a b x y)) (half_shift a b)) invd;
               m = (\<lambda>i. mix_chan i a la b lb c lc);
               col = (if gouraud st then rgba (m 0) (m 1) (m 2) (m 3) else vrgba c)
           in fragment st x y col (mix3 (vu a) la (vu b) lb (vu c) lc) (mix3 (vv a) la (vv b) lb (vv c) lc)
                (mix3 (vz a) la (vz b) lb (vz c) lc) S)"

definition raster :: "int \<Rightarrow> int \<Rightarrow> int \<Rightarrow> int \<Rightarrow> (int \<Rightarrow> int \<Rightarrow> screen \<Rightarrow> screen) \<Rightarrow> screen \<Rightarrow> screen" where
  "raster x0 x1 y0 y1 f S = fold (\<lambda>y S. fold (\<lambda>x S. f x y S) [x0..x1] S) [y0..y1] S"

definition sw_tri :: "psp_vertex \<Rightarrow> psp_vertex \<Rightarrow> psp_vertex \<Rightarrow> psp_draw_state \<Rightarrow> screen \<Rightarrow> screen" where
  "sw_tri a b c st S =
     (let minx = min (vx a) (min (vx b) (vx c)); maxx = max (vx a) (max (vx b) (vx c));
          miny = min (vy a) (min (vy b) (vy c)); maxy = max (vy a) (max (vy b) (vy c))
      in if behind a \<or> behind b \<or> behind c then S
         else if edge a b (vx c) (vy c) = 0 then S
         else raster (max minx 0) (min maxx 479) (max miny 0) (min maxy 271) (tri_pixel a b c st) S)"

definition sprite_pixel :: "psp_vertex \<Rightarrow> psp_vertex \<Rightarrow> psp_draw_state \<Rightarrow> int \<Rightarrow> int \<Rightarrow> screen \<Rightarrow> screen" where
  "sprite_pixel a b st x y S =
     (let du = f32_div (f32_sub (vu b) (vu a)) (f32_of_int (c_int (vx b - vx a)));
          dv = f32_div (f32_sub (vv b) (vv a)) (f32_of_int (c_int (vy b - vy a)))
      in fragment st x y (vrgba b)
           (f32_add (vu a) (f32_mul (f32_add (f32_of_int (c_int (x - vx a))) 0x3F000000) du))
           (f32_add (vv a) (f32_mul (f32_add (f32_of_int (c_int (y - vy a))) 0x3F000000) dv)) (vz b) S)"

definition sw_sprite :: "psp_vertex \<Rightarrow> psp_vertex \<Rightarrow> psp_draw_state \<Rightarrow> screen \<Rightarrow> screen" where
  "sw_sprite a b st S =
     (let x0 = min (vx a) (vx b); x1 = max (vx a) (vx b); y0 = min (vy a) (vy b); y1 = max (vy a) (vy b)
      in if x0 = x1 \<or> y0 = y1 then S
         else raster x0 (x1 - 1) y0 (y1 - 1) (sprite_pixel a b st) S)"

text \<open>The primitives a vertex list stands for, in the order they are drawn.\<close>

fun sprites_of :: "psp_vertex list \<Rightarrow> (psp_vertex \<times> psp_vertex) list" where
  "sprites_of (a # b # vs) = (a, b) # sprites_of vs"
| "sprites_of vs = []"

fun triangles_of :: "psp_vertex list \<Rightarrow> (psp_vertex \<times> psp_vertex \<times> psp_vertex) list" where
  "triangles_of (a # b # c # vs) = (a, b, c) # triangles_of vs"
| "triangles_of vs = []"

fun strip_of :: "psp_vertex list \<Rightarrow> (psp_vertex \<times> psp_vertex \<times> psp_vertex) list" where
  "strip_of (a # b # c # vs) = (a, b, c) # strip_of (b # c # vs)"
| "strip_of vs = []"

fun fan_of :: "psp_vertex \<Rightarrow> psp_vertex list \<Rightarrow> (psp_vertex \<times> psp_vertex \<times> psp_vertex) list" where
  "fan_of a (b # c # vs) = (a, b, c) # fan_of a (c # vs)"
| "fan_of a vs = []"

definition sw_draw :: "nat \<Rightarrow> psp_vertex list \<Rightarrow> psp_draw_state \<Rightarrow> screen \<Rightarrow> screen" where
  "sw_draw prim vs st S =
     (let tris = fold (\<lambda>(a, b, c). sw_tri a b c st) in
      if prim = 6 then fold (\<lambda>(a, b). sw_sprite a b st) (sprites_of vs) S
      else if prim = 3 then tris (triangles_of vs) S
      else if prim = 4 then tris (strip_of vs) S
      else if prim = 5 then tris (case vs of [] \<Rightarrow> [] | a # vs' \<Rightarrow> fan_of a vs') S
      else S)"

section \<open>Selection\<close>

definition backend_target :: "u32 \<Rightarrow> u32 \<Rightarrow> nat \<Rightarrow> renderer \<Rightarrow> renderer" where
  "backend_target addr stride fmt R =
     (case g_backend R of psp_render_software \<Rightarrow> sw_target addr stride fmt R | psp_render_null \<Rightarrow> R)"

definition backend_draw :: "nat \<Rightarrow> psp_vertex list \<Rightarrow> psp_draw_state \<Rightarrow> screen \<Rightarrow> screen" where
  "backend_draw prim vs st S =
     (case g_backend (fst S) of psp_render_software \<Rightarrow> sw_draw prim vs st S | psp_render_null \<Rightarrow> S)"

definition psp_render_select :: "string option \<Rightarrow> renderer \<Rightarrow> int \<times> renderer" where
  "psp_render_select name R =
     (case name of
        None \<Rightarrow> (- 1, R)
      | Some s \<Rightarrow> if s = ''software'' then (0, R\<lparr>g_backend := psp_render_software\<rparr>)
                  else if s = ''null'' then (0, R\<lparr>g_backend := psp_render_null\<rparr>)
                  else (- 1, R))"

section \<open>Colours, arithmetically\<close>

lemma clamp8_range: "0 \<le> clamp8 v" "clamp8 v < 256"
  by (simp_all add: clamp8_def)

lemma clamp8_id: "0 \<le> v \<Longrightarrow> v < 256 \<Longrightarrow> clamp8 v = v"
  by (simp add: clamp8_def)

lemma byte_of_int: "0 \<le> v \<Longrightarrow> v < 256 \<Longrightarrow> bit (of_int v :: u32) n \<Longrightarrow> n < 8"
proof -
  assume v: "0 \<le> v" "v < 256" and "bit (of_int v :: u32) n"
  then have b: "bit v n" by (simp add: bit_word_of_int_iff)
  show "n < 8"
  proof (rule ccontr)
    assume "\<not> n < 8"
    then have "(2 :: int) ^ 8 \<le> 2 ^ n" by (intro power_increasing) auto
    then have "v div 2 ^ n = 0" using v by (intro div_pos_pos_trivial) auto
    then show False using b by (simp add: bit_iff_odd)
  qed
qed

lemma chan_rgba:
  "chan 0 (rgba r g b a) = clamp8 r" "chan 1 (rgba r g b a) = clamp8 g"
  "chan 2 (rgba r g b a) = clamp8 b" "chan 3 (rgba r g b a) = clamp8 a"
proof -
  have m: "(0xFF :: u32) = mask 8" by (simp add: mask_eq_exp_minus_1)
  note B = byte_of_int [OF clamp8_range]
  have u: "uint (of_int (clamp8 v) :: u32) = clamp8 v" for v
    using clamp8_range [of v] by (simp add: unsigned_of_int take_bit_int_eq_self)
  have k: "drop_bit (8 * i) (rgba r g b a) AND 0xFF = of_int (clamp8 v)"
    if "(i, v) \<in> {(0, r), (1, g), (2, b), (3, a)}" for i v
    unfolding m
  proof (rule word_bitI)
    fix n assume n: "n < LENGTH(32)"
    show "bit (drop_bit (8 * i) (rgba r g b a) AND mask 8) n = bit (of_int (clamp8 v) :: u32) n"
    proof (cases "n < 8")
      case False
      then show ?thesis using B [of v n] by (auto simp: bit_and_iff bit_mask_iff)
    next
      case True
      then have B': "\<not> bit (of_int (clamp8 w) :: u32) (k + n)" if "8 \<le> k" for w k
        using B [of w "k + n"] that by auto
      show ?thesis using that True B'
        by (auto simp: rgba_def bit_and_iff bit_mask_iff bit_drop_bit_eq bit_or_iff bit_push_bit_iff)
    qed
  qed
  show "chan 0 (rgba r g b a) = clamp8 r" "chan 1 (rgba r g b a) = clamp8 g"
    "chan 2 (rgba r g b a) = clamp8 b" "chan 3 (rgba r g b a) = clamp8 a"
    using k [of 0 r] k [of 1 g] k [of 2 b] k [of 3 a] by (simp_all add: chan_def u)
qed

lemma bits_of_range: "0 \<le> bits_of s m px" "bits_of s m px \<le> uint m"
  unfolding bits_of_def by simp_all (metis word_and_le1 word_le_def)

lemma widen_narrow:
  "0 \<le> r \<Longrightarrow> r < 32 \<Longrightarrow> up5 r div 8 = r \<and> 0 \<le> up5 r \<and> up5 r < 256"
  "0 \<le> g \<Longrightarrow> g < 64 \<Longrightarrow> up6 g div 4 = g \<and> 0 \<le> up6 g \<and> up6 g < 256"
  "0 \<le> a \<Longrightarrow> a < 16 \<Longrightarrow> up4 a div 16 = a \<and> 0 \<le> up4 a \<and> up4 a < 256"
  by (auto simp: up5_def up6_def up4_def)

lemma bits_of_word: "of_int (bits_of s m px) = drop_bit s px AND m"
  by (simp add: bits_of_def)

lemma fields_join:
  fixes px :: u32
  assumes "px < 0x10000"
  shows "(px AND 0x1F) OR push_bit 5 (drop_bit 5 px AND 0x3F) OR push_bit 11 (drop_bit 11 px AND 0x1F) = px"
    and "(px AND 0x1F) OR push_bit 5 (drop_bit 5 px AND 0x1F) OR push_bit 10 (drop_bit 10 px AND 0x1F) OR
      push_bit 15 (if px AND 0x8000 \<noteq> 0 then 1 else 0) = px"
    and "(px AND 0xF) OR push_bit 4 (drop_bit 4 px AND 0xF) OR push_bit 8 (drop_bit 8 px AND 0xF) OR
      push_bit 12 (drop_bit 12 px AND 0xF) = px"
proof -
  have m: "(0x1F :: u32) = mask 5" "(0x3F :: u32) = mask 6" "(0xF :: u32) = mask 4"
    by (simp_all add: mask_eq_exp_minus_1)
  have hi: "\<not> bit px n" if "16 \<le> n" for n
  proof
    assume "bit px n"
    then have "odd (unat px div 2 ^ n)" by (simp add: bit_iff_odd [symmetric] bit_unsigned_iff)
    moreover have "(2 :: nat) ^ 16 \<le> 2 ^ n" using that by (intro power_increasing) auto
    then have "unat px div 2 ^ n = 0" using assms by (simp add: word_less_nat_alt)
    ultimately show False by simp
  qed
  have p15: "(0x8000 :: u32) = push_bit 15 1" by simp
  have b15: "px AND 0x8000 \<noteq> 0 \<longleftrightarrow> bit px 15"
    unfolding p15 by (auto simp: bit_eq_iff [where ?'a = "32 word"] bit_and_iff bit_push_bit_iff bit_1_iff simp del: push_bit_of_1)
  show "(px AND 0x1F) OR push_bit 5 (drop_bit 5 px AND 0x3F) OR push_bit 11 (drop_bit 11 px AND 0x1F) = px"
    unfolding m
  proof (rule word_bitI)
    fix n assume "n < LENGTH(32)"
    then show "bit ((px AND mask 5) OR push_bit 5 (drop_bit 5 px AND mask 6) OR push_bit 11 (drop_bit 11 px AND mask 5)) n =
        bit px n"
      by (cases "n < 11") (auto simp: bit_or_iff bit_and_iff bit_mask_iff bit_push_bit_iff bit_drop_bit_eq hi)
  qed
  show "(px AND 0xF) OR push_bit 4 (drop_bit 4 px AND 0xF) OR push_bit 8 (drop_bit 8 px AND 0xF) OR
      push_bit 12 (drop_bit 12 px AND 0xF) = px"
    unfolding m
  proof (rule word_bitI)
    fix n assume "n < LENGTH(32)"
    consider "n < 8" | "8 \<le> n" "n < 12" | "12 \<le> n" by linarith
    then show "bit ((px AND mask 4) OR push_bit 4 (drop_bit 4 px AND mask 4) OR push_bit 8 (drop_bit 8 px AND mask 4) OR
        push_bit 12 (drop_bit 12 px AND mask 4)) n = bit px n"
      by cases (auto simp: bit_or_iff bit_and_iff bit_mask_iff bit_push_bit_iff bit_drop_bit_eq hi)
  qed
  show "(px AND 0x1F) OR push_bit 5 (drop_bit 5 px AND 0x1F) OR push_bit 10 (drop_bit 10 px AND 0x1F) OR
      push_bit 15 (if px AND 0x8000 \<noteq> 0 then 1 else 0) = px"
    unfolding m b15
  proof (rule word_bitI)
    fix n assume "n < LENGTH(32)"
    consider "n < 10" | "10 \<le> n" "n < 15" | "n = 15" | "16 \<le> n" by linarith
    then show "bit ((px AND mask 5) OR push_bit 5 (drop_bit 5 px AND mask 5) OR push_bit 10 (drop_bit 10 px AND mask 5) OR
        push_bit 15 (if bit px 15 then 1 else 0)) n = bit px n"
      by cases (auto simp: bit_or_iff bit_and_iff bit_mask_iff bit_push_bit_iff bit_drop_bit_eq hi bit_1_iff)
  qed
qed

text \<open>
  The 16-bit framebuffer formats lose nothing on the way back: a 565, 5551 or 4444 pixel
  expanded to eight bits a channel and packed again is the same pixel.
\<close>
theorem psp_color_roundtrip:
  assumes "px < 0x10000" and "fmt \<le> 2"
  shows "color_pack (psp_color_expand px fmt) fmt = px"
proof -
  have f: "fmt \<in> {0, 1, 2}" using assms(2) by auto
  note R = bits_of_range [of _ "0x1F" px] bits_of_range [of _ "0x3F" px] bits_of_range [of _ "0xF" px]
  have c5: "clamp8 (up5 (bits_of s 0x1F px)) div 8 = bits_of s 0x1F px" for s
    using R(1,2) [of s] widen_narrow(1) [of "bits_of s 0x1F px"] by (simp add: clamp8_id)
  have c6: "clamp8 (up6 (bits_of s 0x3F px)) div 4 = bits_of s 0x3F px" for s
    using R(3,4) [of s] widen_narrow(2) [of "bits_of s 0x3F px"] by (simp add: clamp8_id)
  have c4: "clamp8 (up4 (bits_of s 0xF px)) div 16 = bits_of s 0xF px" for s
    using R(5,6) [of s] widen_narrow(3) [of "bits_of s 0xF px"] by (simp add: clamp8_id)
  have ca: "of_int (clamp8 (if b then 255 else 0) div 128) = (if b then 1 else 0 :: u32)" for b
    by (simp add: clamp8_def)
  have n: "(2 :: nat) \<noteq> 0" "(2 :: nat) \<noteq> 1" "(1 :: nat) \<noteq> 0" by simp_all
  note J = fields_join [OF assms(1)]
  have "color_pack (psp_color_expand px 0) 0 = px"
    by (simp only: psp_color_expand_def color_pack_def if_True refl chan_rgba c5 c6 bits_of_word
        drop_bit_0 id_apply J(1))
  moreover have "color_pack (psp_color_expand px 1) 1 = px"
    by (simp only: psp_color_expand_def color_pack_def if_True if_False n refl chan_rgba c5 ca bits_of_word
        drop_bit_0 id_apply J(2))
  moreover have "color_pack (psp_color_expand px 2) 2 = px"
    by (simp only: psp_color_expand_def color_pack_def if_True if_False n refl chan_rgba c4 bits_of_word
        drop_bit_0 id_apply J(3))
  ultimately show ?thesis using f by auto
qed

theorem psp_color_roundtrip_witness: "color_pack (psp_color_expand 0x8421 1) 1 = 0x8421"
  using psp_color_roundtrip [of "0x8421" 1] by simp

section \<open>Coverage\<close>

definition on_segment :: "psp_vertex \<Rightarrow> psp_vertex \<Rightarrow> int \<Rightarrow> int \<Rightarrow> bool" where
  "on_segment a b x y \<longleftrightarrow>
     (\<exists>n s. 0 \<le> s \<and> s \<le> n \<and> 0 < n \<and> n * (x - vx a) = s * (vx b - vx a) \<and> n * (y - vy a) = s * (vy b - vy a))"

text \<open>
  The edge function in the integers, and the coordinates for which the 32-bit one agrees with it: with
  15-bit signed coordinates a difference fits in 16 bits, and the difference of two products in 32.
\<close>

definition edge_z :: "psp_vertex \<Rightarrow> psp_vertex \<Rightarrow> int \<Rightarrow> int \<Rightarrow> int" where
  "edge_z p q x y = (vx q - vx p) * (y - vy p) - (vy q - vy p) * (x - vx p)"

definition coord :: "int \<Rightarrow> int \<Rightarrow> bool" where
  "coord x y \<longleftrightarrow> -16384 \<le> x \<and> x < 16384 \<and> -16384 \<le> y \<and> y < 16384"

abbreviation corner :: "psp_vertex \<Rightarrow> bool" where "corner p \<equiv> coord (vx p) (vy p)"

lemma c_int_id: "- (2 ^ 31) \<le> i \<Longrightarrow> i < 2 ^ 31 \<Longrightarrow> c_int i = i"
  by (simp add: c_int_def sint_sbintrunc' signed_take_bit_int_eq_self)

lemma c_int_diff: "\<bar>m\<bar> \<le> 1073676289 \<Longrightarrow> \<bar>n\<bar> \<le> 1073676289 \<Longrightarrow> c_int (m - n) = m - n"
  by (rule c_int_id) auto

lemma prod_bound:
  fixes m n :: int
  assumes "\<bar>m\<bar> \<le> 32767" "\<bar>n\<bar> \<le> 32767"
  shows "\<bar>m * n\<bar> \<le> 1073676289"
  using mult_mono [OF assms] by (simp add: abs_mult)

lemma edge_exact:
  assumes "corner p" "corner q" "coord x y"
  shows "edge p q x y = edge_z p q x y"
proof -
  have "\<bar>(vx q - vx p) * (y - vy p)\<bar> \<le> 1073676289" "\<bar>(vy q - vy p) * (x - vx p)\<bar> \<le> 1073676289"
    using assms by (auto simp: coord_def intro!: prod_bound)
  then show ?thesis unfolding edge_def edge_z_def by (rule c_int_diff)
qed

lemma edge_signs:
  assumes "on_segment a b x y"
  shows "edge_z a b x y = 0 \<and> (if 0 \<le> edge_z a b (vx c) (vy c) then 0 \<le> edge_z b c x y \<and> 0 \<le> edge_z c a x y
    else edge_z b c x y \<le> 0 \<and> edge_z c a x y \<le> 0)"
proof -
  obtain n s where n: "0 \<le> s" "s \<le> n" "0 < n" and x: "n * (x - vx a) = s * (vx b - vx a)"
    and y: "n * (y - vy a) = s * (vy b - vy a)" using assms by (auto simp: on_segment_def)
  let ?A = "edge_z a b (vx c) (vy c)"
  have e0: "n * edge_z a b x y = 0" unfolding edge_z_def using x y by algebra
  have e1: "n * edge_z b c x y = (n - s) * ?A" unfolding edge_z_def using x y by algebra
  have e2: "n * edge_z c a x y = s * ?A" unfolding edge_z_def using x y by algebra
  have pos: "0 \<le> n * z \<longleftrightarrow> 0 \<le> z" "n * z \<le> 0 \<longleftrightarrow> z \<le> 0" for z
    using n(3) by (simp_all add: zero_le_mult_iff mult_le_0_iff)
  have "edge_z a b x y = 0" using e0 n(3) by simp
  moreover have "0 \<le> edge_z b c x y \<and> 0 \<le> edge_z c a x y" if "0 \<le> ?A"
    using that n e1 e2 pos(1) [of "edge_z b c x y"] pos(1) [of "edge_z c a x y"] by simp
  moreover have "edge_z b c x y \<le> 0 \<and> edge_z c a x y \<le> 0" if "\<not> 0 \<le> ?A"
  proof -
    have "(n - s) * ?A \<le> 0" "s * ?A \<le> 0" using that n by (simp_all add: mult_le_0_iff)
    then show ?thesis using e1 e2 pos(2) [of "edge_z b c x y"] pos(2) [of "edge_z c a x y"] by simp
  qed
  ultimately show ?thesis by simp
qed

lemma edge_z_turn:
  "edge_z b a x y = - edge_z a b x y" "edge_z a c x y = - edge_z c a x y" "edge_z c b x y = - edge_z b c x y"
  by (simp_all add: edge_z_def algebra_simps)

lemma covers_exact:
  assumes "corner a" "corner b" "corner c" "coord x y"
  shows "tri_covers a b c x y \<longleftrightarrow>
    0 \<le> edge_z a b x y \<and> 0 \<le> edge_z b c x y \<and> 0 \<le> edge_z c a x y \<or>
    edge_z a b x y \<le> 0 \<and> edge_z b c x y \<le> 0 \<and> edge_z c a x y \<le> 0"
  using assms by (simp add: tri_covers_def Let_def edge_exact)

text \<open>
  C38. A shared edge belongs to both triangles, as long as the arithmetic is exact. For corners with
  15-bit signed coordinates, whatever two triangles have the edge from \<open>a\<close> to \<open>b\<close> in common, every pixel
  of the screen on that edge is covered by each of them, in either winding, so adjacent triangles draw
  their common edge twice; the comment on \<^verbatim>\<open>sw_tri\<close> says that a shared edge belongs to exactly one
  triangle. Corners further out can overflow the \<^verbatim>\<open>int\<close> products and lose the pixel
  (\<open>edge_overflows\<close>).
\<close>
theorem sw_tri_shared_edge_twice:
  assumes "on_segment a b x y" and "corner a" "corner b" "corner c" "corner d"
    and "0 \<le> x" "x \<le> 479" "0 \<le> y" "y \<le> 271"
  shows "tri_covers a b c x y \<and> tri_covers b a d x y \<and> tri_covers a c b x y"
proof -
  have xy: "coord x y" using assms(6-9) by (simp add: coord_def)
  note ex = covers_exact [OF _ _ _ xy]
  have "tri_covers a b e x y" "tri_covers b a e x y" "tri_covers a e b x y" if "corner e" for e
    using edge_signs [OF assms(1), of e] edge_z_turn [of b a x y] edge_z_turn [of a e x y] edge_z_turn [of e b x y]
    by (cases "0 \<le> edge_z a b (vx e) (vy e)"; simp add: ex assms(2,3) that)+
  then show ?thesis using assms(4,5) by blast
qed

definition vert :: "int \<Rightarrow> int \<Rightarrow> psp_vertex" where
  "vert x y = \<lparr>vx = x, vy = y, vz = 0, vrgba = 0xFFFFFFFF, vu = 0, vv = 0, behind = False\<rparr>"

theorem sw_tri_shared_edge_twice_witness:
  "tri_covers (vert 0 0) (vert 4 4) (vert 4 0) 2 2 \<and> tri_covers (vert 4 4) (vert 0 0) (vert 0 4) 2 2"
proof -
  have "on_segment (vert 0 0) (vert 4 4) 2 2"
    unfolding on_segment_def vert_def by (rule exI [of _ 2], rule exI [of _ 1]) simp
  from sw_tri_shared_edge_twice [OF this, of "vert 4 0" "vert 0 4"] show ?thesis by (simp add: vert_def coord_def)
qed

text \<open>With corners at the ends of the 16-bit range a pixel in the middle of the shared edge is lost.\<close>

lemma edge_overflows:
  "on_segment (vert (-32768) (-32768)) (vert 32767 32767) 271 271 \<and>
   \<not> tri_covers (vert (-32768) (-32768)) (vert 32767 32767) (vert 32767 (-32768)) 271 271"
proof
  show "on_segment (vert (-32768) (-32768)) (vert 32767 32767) 271 271"
    unfolding on_segment_def vert_def by (rule exI [of _ 65535], rule exI [of _ 33039]) simp
  show "\<not> tri_covers (vert (-32768) (-32768)) (vert 32767 32767) (vert 32767 (-32768)) 271 271"
    by code_simp
qed

text \<open>The pixels of a sprite, in drawing order.\<close>

definition sprite_pixels :: "psp_vertex \<Rightarrow> psp_vertex \<Rightarrow> (int \<times> int) list" where
  "sprite_pixels a b =
     (let x0 = min (vx a) (vx b); x1 = max (vx a) (vx b); y0 = min (vy a) (vy b); y1 = max (vy a) (vy b)
      in if x0 = x1 \<or> y0 = y1 then [] else List.product [y0..y1 - 1] [x0..x1 - 1])"

lemma raster_product: "raster x0 x1 y0 y1 f S = fold (\<lambda>(y, x). f x y) (List.product [y0..y1] [x0..x1]) S"
proof -
  have "fold (\<lambda>y S. fold (\<lambda>x S. f x y S) xs S) ys S = fold (\<lambda>(y, x). f x y) (List.product ys xs) S" for xs ys
    by (induction ys arbitrary: S) (simp_all add: fold_map comp_def)
  then show ?thesis by (simp add: raster_def)
qed

text \<open>
  C37. Sprites tile. A sprite draws each pixel of its rectangle once, without the far edges, so two
  sprites that share a vertical side draw disjoint pixels, and together exactly those of the sprite
  that spans both.
\<close>
theorem sw_sprite_tiles:
  assumes "vx a \<le> xm" and "xm \<le> vx b"
  shows "sw_sprite a b st S = fold (\<lambda>(y, x). sprite_pixel a b st x y) (sprite_pixels a b) S \<and>
    distinct (sprite_pixels a b) \<and>
    set (sprite_pixels a b) = {(y, x). vx a \<le> x \<and> x < vx b \<and> min (vy a) (vy b) \<le> y \<and> y < max (vy a) (vy b)} \<and>
    set (sprite_pixels a (b\<lparr>vx := xm\<rparr>)) \<inter> set (sprite_pixels (a\<lparr>vx := xm\<rparr>) b) = {} \<and>
    set (sprite_pixels a (b\<lparr>vx := xm\<rparr>)) \<union> set (sprite_pixels (a\<lparr>vx := xm\<rparr>) b) = set (sprite_pixels a b)"
proof -
  have s: "set (sprite_pixels p q) = {(y, x). vx p \<le> x \<and> x < vx q \<and> min (vy p) (vy q) \<le> y \<and> y < max (vy p) (vy q)}"
    if "vx p \<le> vx q" for p q
    using that by (auto simp: sprite_pixels_def Let_def)
  have "sw_sprite a b st S = fold (\<lambda>(y, x). sprite_pixel a b st x y) (sprite_pixels a b) S"
    by (simp add: sw_sprite_def sprite_pixels_def Let_def raster_product)
  moreover have "distinct (sprite_pixels a b)"
    by (simp add: sprite_pixels_def Let_def distinct_product)
  ultimately show ?thesis using assms by (auto simp: s)
qed

theorem sw_sprite_tiles_witness:
  "set (sprite_pixels (vert 0 0) (vert 3 1)) \<inter> set (sprite_pixels (vert 3 0) (vert 5 1)) = {}"
  using sw_sprite_tiles [of "vert 0 0" 3 "vert 5 1"] by (simp add: vert_def)

section \<open>What drawing writes\<close>

definition bytes_apart :: "u32 \<Rightarrow> nat \<Rightarrow> u32 \<Rightarrow> nat \<Rightarrow> bool" where
  "bytes_apart a n w k \<longleftrightarrow> canon w + k \<le> canon a \<or> canon a + n \<le> canon w"

text \<open>The bytes \<open>w\<close> to \<open>w + k\<close> are no part of pixel \<open>(x, y)\<close> of the framebuffer or the depth buffer.\<close>

definition pixel_apart :: "psp_draw_state \<Rightarrow> renderer \<Rightarrow> u32 \<Rightarrow> nat \<Rightarrow> int \<Rightarrow> int \<Rightarrow> bool" where
  "pixel_apart st R w k x y \<longleftrightarrow>
     bytes_apart (fb_at R x y) (if g_fb_fmt R = 3 then 4 else 2) w k \<and>
     (zaddr st \<noteq> 0 \<longrightarrow> zbw st > 0 \<longrightarrow> bytes_apart (z_at st x y) 2 w k)"

definition leaves :: "u32 \<Rightarrow> nat \<Rightarrow> screen \<Rightarrow> screen \<Rightarrow> bool" where
  "leaves w k S S' \<longleftrightarrow>
     (g_fb_addr (fst S'), g_fb_stride (fst S'), g_fb_fmt (fst S'), g_backend (fst S')) =
     (g_fb_addr (fst S), g_fb_stride (fst S), g_fb_fmt (fst S), g_backend (fst S)) \<and>
     cpu (snd S') = cpu (snd S) \<and> peek k (mem (snd S')) w = peek k (mem (snd S)) w"

lemma leaves_refl [simp]: "leaves w k S S"
  by (simp add: leaves_def)

lemma leaves_trans: "leaves w k S S' \<Longrightarrow> leaves w k S' S'' \<Longrightarrow> leaves w k S S''"
  by (simp add: leaves_def)

lemma leaves_read:
  "leaves w k (R, M) (R, snd (psp_read8 a M))" "leaves w k (R, M) (R, snd (psp_read16 a M))"
  "leaves w k (R, M) (R, snd (psp_read32 a M))"
  by (simp_all add: leaves_def psp_read8_def psp_read16_def psp_read32_def)

lemma leaves_write:
  "bytes_apart a 2 w k \<Longrightarrow> leaves w k (R, M) (R, psp_write16 a v M)"
  "bytes_apart a 4 w k \<Longrightarrow> leaves w k (R, M) (R, psp_write32 a v' M)"
  by (simp_all add: leaves_def psp_write16_def psp_write32_def bytes_apart_def peek_write_disjoint)

lemma leaves_counters:
  "leaves w k (R, M) (R\<lparr>g_pixels := p\<rparr>, M)" "leaves w k (R, M) (R\<lparr>g_bad_texels := p\<rparr>, M)"
  by (simp_all add: leaves_def)

lemma read_keeps:
  "peek k (mem (snd (psp_read8 a M))) w = peek k (mem M) w" "cpu (snd (psp_read8 a M)) = cpu M"
  "peek k (mem (snd (psp_read16 a M))) w = peek k (mem M) w" "cpu (snd (psp_read16 a M)) = cpu M"
  "peek k (mem (snd (psp_read32 a M))) w = peek k (mem M) w" "cpu (snd (psp_read32 a M)) = cpu M"
  by (simp_all add: psp_read8_def psp_read16_def psp_read32_def)

lemma leaves_fb_read: "leaves w k S (snd (fb_read at S))"
  by (simp add: fb_read_def Let_def case_prod_unfold leaves_def read_keeps)

lemma leaves_fetch: "leaves w k S (snd (psp_tex_fetch st x y S))"
  by (simp add: psp_tex_fetch_def dxt_texel_def Let_def case_prod_unfold leaves_def read_keeps)

lemma leaves_clear:
  assumes "pixel_apart st (fst S) w k x y"
  shows "leaves w k S (snd (frag_clear st x y c z S))"
proof -
  obtain R M where S: "S = (R, M)" by (cases S)
  define S1 where
    "S1 = (R, if clear_depth st \<and> zaddr st \<noteq> 0 \<and> zbw st > 0 then psp_write16 (z_at st x y) (of_int z) M else M)"
  have "leaves w k S S1" using assms leaves_write(1) by (simp add: S S1_def pixel_apart_def)
  moreover have "snd (frag_clear st x y c z S) \<in> {S1, snd (fb_read (fb_at R x y) S1)}"
    unfolding frag_clear_def S Let_def prod.case S1_def [symmetric] by (simp add: case_prod_unfold)
  moreover have "leaves w k S (snd (fb_read at S1))" for at
    using calculation(1) leaves_fb_read by (rule leaves_trans)
  ultimately show ?thesis by (metis insertE singletonD)
qed

lemma leaves_shade:
  assumes "pixel_apart st (fst S) w k x y"
  shows "leaves w k S (snd (frag_shade st x y c u v z S))"
proof -
  define tx where "tx = (if tex_enable st
      then (let (t, S') = psp_tex_fetch st (texel_coord u) (texel_coord v) S in (tex_combine st t c, S'))
      else (c, S))"
  have t: "leaves w k S (snd tx)" using leaves_fetch by (simp add: tx_def case_prod_unfold Let_def)
  obtain c1 R M where e: "tx = (c1, R, M)" by (cases tx) auto
  have pa: "pixel_apart st R w k x y" using t assms by (simp add: e leaves_def pixel_apart_def fb_at_def)
  define zt where "zt = (if ztest st \<and> zaddr st \<noteq> 0 \<and> zbw st > 0
      then (let (d, M1) = psp_read16 (z_at st x y) M
            in if \<not> depth_pass (zfunc st) z (uint d) then (False, R, M1)
               else (True, R, if zwrite st then psp_write16 (z_at st x y) (of_int z) M1 else M1))
      else (True, R, M))"
  have "leaves w k (R, M) (snd zt)"
    using pa leaves_read(2) [of w k R M "z_at st x y"]
      leaves_trans [OF leaves_read(2) leaves_write(1)]
    by (simp add: zt_def pixel_apart_def case_prod_unfold Let_def)
  then have zt: "leaves w k S (snd zt)" using t leaves_trans by (simp add: e)
  have "frag_shade st x y c u v z S =
    (if atest st \<and> \<not> alpha_pass st c1 then (None, R, M)
     else if \<not> fst zt then (None, snd zt)
     else if blend_on st then (let (d, S3) = fb_read (fb_at (fst (snd zt)) x y) (snd zt) in (Some (blend st c1 d), S3))
     else (Some c1, snd zt))"
    unfolding frag_shade_def tx_def [symmetric] e by (simp add: zt_def case_prod_unfold Let_def)
  then show ?thesis using t zt leaves_trans [OF zt leaves_fb_read] by (simp add: e case_prod_unfold Let_def)
qed

lemma leaves_fragment:
  assumes "\<not> frag_clipped st x y (fst S) \<Longrightarrow> pixel_apart st (fst S) w k x y"
  shows "leaves w k S (fragment st x y c u v zf S)"
proof (cases "frag_clipped st x y (fst S)")
  case True
  then show ?thesis by (simp add: fragment_def)
next
  case False
  note pa = assms [OF False]
  define h where "h = (if clear st then frag_clear st x y c (frag_depth zf) S else frag_shade st x y c u v (frag_depth zf) S)"
  have h: "leaves w k S (snd h)" using leaves_clear [OF pa] leaves_shade [OF pa] by (simp add: h_def)
  obtain out R M where e: "h = (out, R, M)" by (cases h) auto
  have wr: "leaves w k (R, M) (R\<lparr>g_pixels := g_pixels R + 1\<rparr>,
      if g_fb_fmt (fst S) = 3 then psp_write32 (fb_at (fst S) x y) c1 M
      else psp_write16 (fb_at (fst S) x y) (ucast (color_pack c1 (g_fb_fmt (fst S)))) M)" for c1
    using pa by (cases "g_fb_fmt (fst S) = 3")
      (auto simp: pixel_apart_def intro: leaves_trans [OF leaves_write(1) leaves_counters(1)]
        leaves_trans [OF leaves_write(2) leaves_counters(1)])
  have "fragment st x y c u v zf S = (case out of None \<Rightarrow> (R, M) | Some c1 \<Rightarrow> (R\<lparr>g_pixels := g_pixels R + 1\<rparr>,
      if g_fb_fmt (fst S) = 3 then psp_write32 (fb_at (fst S) x y) c1 M
      else psp_write16 (fb_at (fst S) x y) (ucast (color_pack c1 (g_fb_fmt (fst S)))) M))"
    unfolding fragment_def Let_def h_def [symmetric] e using False by (simp split: option.split)
  then show ?thesis using h leaves_trans [OF _ wr] by (simp add: e split: option.split)
qed

lemma leaves_fold:
  assumes "\<And>i S'. i \<in> set is \<Longrightarrow> leaves w k S S' \<Longrightarrow> leaves w k S' (f i S')" and "leaves w k S T"
  shows "leaves w k S (fold f is T)"
  using assms
proof (induction "is" arbitrary: T)
  case (Cons i "is")
  have "leaves w k S (f i T)" using Cons.prems leaves_trans by simp
  then show ?case using Cons by simp
qed simp

text \<open>The pixels a draw state lets through.\<close>

definition drawable :: "psp_draw_state \<Rightarrow> int \<Rightarrow> int \<Rightarrow> bool" where
  "drawable st x y \<longleftrightarrow> max 0 (sc_x0 st) \<le> x \<and> x \<le> min 479 (sc_x1 st) \<and> max 0 (sc_y0 st) \<le> y \<and> y \<le> min 271 (sc_y1 st)"

definition outside :: "psp_draw_state \<Rightarrow> renderer \<Rightarrow> u32 \<Rightarrow> nat \<Rightarrow> bool" where
  "outside st R w k \<longleftrightarrow>
     g_fb_addr R = 0 \<or> g_fb_stride R = 0 \<or> (\<forall>x y. drawable st x y \<longrightarrow> pixel_apart st R w k x y)"

lemma leaves_outside:
  assumes "outside st (fst S) w k" and "leaves w k S T"
  shows "leaves w k T (fragment st x y c u v zf T)"
proof (rule leaves_fragment)
  assume "\<not> frag_clipped st x y (fst T)"
  then show "pixel_apart st (fst T) w k x y"
    using assms by (auto simp: outside_def frag_clipped_def drawable_def leaves_def pixel_apart_def fb_at_def)
qed

lemma leaves_tri:
  assumes "outside st (fst S) w k" and "leaves w k S T"
  shows "leaves w k T (sw_tri a b c st T)"
proof -
  have "leaves w k T (raster x0 x1 y0 y1 (tri_pixel a b c st) T)" for x0 x1 y0 y1
    unfolding raster_product
    by (rule leaves_fold) (use leaves_outside [OF assms(1)] leaves_trans [OF assms(2)] in
      \<open>auto simp: tri_pixel_def Let_def split: prod.split\<close>)
  then show ?thesis by (simp add: sw_tri_def Let_def)
qed

lemma leaves_sprite:
  assumes "outside st (fst S) w k" and "leaves w k S T"
  shows "leaves w k T (sw_sprite a b st T)"
proof -
  have "leaves w k T (raster x0 x1 y0 y1 (sprite_pixel a b st) T)" for x0 x1 y0 y1
    unfolding raster_product
    by (rule leaves_fold) (use leaves_outside [OF assms(1)] leaves_trans [OF assms(2)] in
      \<open>auto simp: sprite_pixel_def Let_def split: prod.split\<close>)
  then show ?thesis by (simp add: sw_sprite_def Let_def)
qed

text \<open>
  C3. Drawing stays inside the target. Whatever the primitive, its vertices, the textures and the
  draw state, a draw changes no byte of guest memory that is not part of a framebuffer pixel, or of a
  depth-buffer cell, on the screen and inside the scissor rectangle; it changes no register and not
  the target; and before a framebuffer has been set it changes no memory at all.
\<close>
theorem backend_draw_stays_inside:
  assumes "outside st (fst S) w k"
  shows "peek k (mem (snd (backend_draw prim vs st S))) w = peek k (mem (snd S)) w \<and>
    cpu (snd (backend_draw prim vs st S)) = cpu (snd S) \<and>
    g_fb_addr (fst (backend_draw prim vs st S)) = g_fb_addr (fst S)"
proof -
  have t: "leaves w k S (fold (\<lambda>(a, b, c). sw_tri a b c st) ts S)" for ts
    by (rule leaves_fold) (use leaves_tri [OF assms] in \<open>auto split: prod.split\<close>)
  have "leaves w k S (fold (\<lambda>(a, b). sw_sprite a b st) ss S)" for ss
    by (rule leaves_fold) (use leaves_sprite [OF assms] in \<open>auto split: prod.split\<close>)
  then have "leaves w k S (sw_draw prim vs st S)" using t by (simp add: sw_draw_def Let_def)
  then have "leaves w k S (backend_draw prim vs st S)" by (simp add: backend_draw_def split: backend.split)
  then show ?thesis by (simp add: leaves_def)
qed

section \<open>Texture addresses\<close>

definition swz :: "nat \<Rightarrow> nat \<Rightarrow> nat \<Rightarrow> nat" where
  "swz B x y = (y div 8 * B + x div 16) * 128 + y mod 8 * 16 + x mod 16"

lemma div_less_blocks: "x < 16 * B \<Longrightarrow> x div 16 < (B :: nat)"
  by (simp add: less_mult_imp_div_less mult.commute)

lemma swz_bound:
  assumes "x < 16 * B" "y < h"
  shows "swz B x y < 16 * B * (8 * ((h + 7) div 8))"
proof -
  have x: "x div 16 < B" using assms(1) by (rule div_less_blocks)
  have "y div 8 < (h + 7) div 8" using assms(2) by linarith
  then have "(y div 8 + 1) * B \<le> (h + 7) div 8 * B" by (intro mult_right_mono) auto
  then have q: "y div 8 * B + x div 16 + 1 \<le> (h + 7) div 8 * B" using x by simp
  have "swz B x y < (y div 8 * B + x div 16 + 1) * 128"
    using mod_less_divisor [of 8 y] mod_less_divisor [of 16 x] by (simp add: swz_def)
  also have "\<dots> \<le> (h + 7) div 8 * B * 128" using q by (intro mult_right_mono) auto
  finally show ?thesis by (simp add: mult.commute mult.left_commute)
qed

lemma swz_parts:
  "swz B x y mod 16 = x mod 16" "swz B x y div 16 mod 8 = y mod 8" "swz B x y div 128 = y div 8 * B + x div 16"
proof -
  define K where "K = y div 8 * B + x div 16"
  define L where "L = y mod 8 + K * 8"
  have e: "swz B x y = x mod 16 + L * 16" by (simp add: swz_def L_def K_def)
  show "swz B x y mod 16 = x mod 16" by (simp only: e mod_mult_self1 mod_mod_trivial)
  have d: "swz B x y div 16 = L" unfolding e by simp
  have "L mod 8 = y mod 8" by (simp only: L_def mod_mult_self1 mod_mod_trivial)
  then show "swz B x y div 16 mod 8 = y mod 8" by (simp only: d)
  have "L div 8 = K" by (simp add: L_def)
  then show "swz B x y div 128 = y div 8 * B + x div 16"
    using div_mult2_eq [of "swz B x y" 16 8] d by (simp add: K_def)
qed

lemma swz_inj:
  assumes "swz B x y = swz B x' y'" "x < 16 * B" "x' < 16 * B"
  shows "x = x' \<and> y = y'"
proof -
  note lt = assms(2,3) [THEN div_less_blocks]
  have q: "y div 8 * B + x div 16 = y' div 8 * B + x' div 16"
    using arg_cong [OF assms(1), of "\<lambda>z. z div 128"] by (simp only: swz_parts)
  have "x div 16 = x' div 16" using arg_cong [OF q, of "\<lambda>z. z mod B"] lt by simp
  moreover have "y div 8 = y' div 8" using arg_cong [OF q, of "\<lambda>z. z div B"] lt by simp
  moreover have "x mod 16 = x' mod 16" "y mod 8 = y' mod 8"
    using arg_cong [OF assms(1), of "\<lambda>z. z mod 16"] arg_cong [OF assms(1), of "\<lambda>z. z div 16 mod 8"]
    by (simp_all only: swz_parts)
  ultimately have "x div 16 * 16 + x mod 16 = x' div 16 * 16 + x' mod 16"
    "y div 8 * 8 + y mod 8 = y' div 8 * 8 + y' mod 8" by simp_all
  then show ?thesis by (simp only: div_mult_mod_eq)
qed

text \<open>The bytes of a row, and the offset as a number where it fits.\<close>

definition row_bytes :: "psp_draw_state \<Rightarrow> nat" where
  "row_bytes st = unat (of_nat (tex_bw st) * TEX_BPP ! tex_fmt st div 8 :: u32)"

lemma tex_offset_swizzled:
  assumes "tex_swizzle st" "row_bytes st = 16 * B" "swz B (unat x) (unat y) < 2 ^ 32"
  shows "unat (tex_offset st x y) = swz B (unat x) (unat y)"
proof -
  have w: "w = of_nat (unat w)" for w :: u32 by simp
  define R where "R = (of_nat (tex_bw st) * TEX_BPP ! tex_fmt st div 8 :: u32)"
  have "unat (R div 16) = B" using assms(2) by (simp add: unat_div row_bytes_def R_def)
  then have blocks: "R div 16 = of_nat B" using w [of "R div 16"] by simp
  have "unat (drop_bit 3 y) = unat y div 8" "unat (drop_bit 4 x) = unat x div 16"
    by (simp_all only: unat_drop_bit_eq drop_bit_eq_div [where ?'a = nat]) simp_all
  moreover have "unat (y AND 7) = unat y mod 8" "unat (x AND 15) = unat x mod 16"
    using and_mask_unat [of y 3] and_mask_unat [of x 4] by (simp_all add: mask_eq_exp_minus_1)
  ultimately have p: "drop_bit 3 y = of_nat (unat y div 8)" "y AND 7 = of_nat (unat y mod 8)"
    "drop_bit 4 x = of_nat (unat x div 16)" "x AND 15 = of_nat (unat x mod 16)"
    using w [of "drop_bit 3 y"] w [of "y AND 7"] w [of "drop_bit 4 x"] w [of "x AND 15"] by simp_all
  have "tex_offset st x y = of_nat (swz B (unat x) (unat y))"
    unfolding tex_offset_def Let_def R_def [symmetric] using assms(1) by (simp only: blocks p swz_def) simp
  then show ?thesis using assms(3) by (simp add: unat_of_nat_u32)
qed

lemma tex_offset_linear:
  assumes "\<not> tex_swizzle st" "unat y * row_bytes st + unat x < 2 ^ 32"
  shows "unat (tex_offset st x y) = unat y * row_bytes st + unat x"
proof -
  have "tex_offset st x y = of_nat (unat y * row_bytes st + unat x)"
    using assms(1) by (simp add: tex_offset_def row_bytes_def Let_def)
  then show ?thesis using assms(2) unat_of_nat_u32 [of "unat y * row_bytes st + unat x"] by (simp only:) simp
qed

lemma linear_bound: "x < R \<Longrightarrow> y < h \<Longrightarrow> y * R + x < R * (h :: nat)"
  using mult_le_mono1 [of "Suc y" h R] by (simp add: mult.commute)

lemma linear_inj:
  assumes "y * R + x = y' * R + x'" "x < R" "x' < (R :: nat)"
  shows "x = x' \<and> y = y'"
  using arg_cong [OF assms(1), of "\<lambda>z. z div R"] arg_cong [OF assms(1), of "\<lambda>z. z mod R"] assms(2,3) by simp

text \<open>
  C39. A texture has a place of its own for every byte of its rows. A position is a byte column below
  the row length and a row below the height (two 4-bit texels share a byte and so a column). When the
  texture fits in the address space and, if it is swizzled, a row is a whole number of 16-byte
  blocks, two different positions have different offsets. A linear texture takes the row length times
  the height, a swizzled one the row length times the height rounded up to a whole number of 8-row
  blocks, and every offset is below that.
\<close>
theorem tex_offset_injective:
  assumes "tex_swizzle st \<longrightarrow> row_bytes st mod 16 = 0" and "row_bytes st * (8 * ((h + 7) div 8)) < 2 ^ 32"
    and "unat xb < row_bytes st" "unat y < h" and "unat xb' < row_bytes st" "unat y' < h"
  shows "unat (tex_offset st xb y) < row_bytes st * (if tex_swizzle st then 8 * ((h + 7) div 8) else h) \<and>
    (tex_offset st xb y = tex_offset st xb' y' \<longrightarrow> xb = xb' \<and> y = y')"
proof (cases "tex_swizzle st")
  case True
  then obtain B where B: "row_bytes st = 16 * B" using assms(1) by (auto simp: mod_eq_0_iff_dvd)
  have b: "swz B (unat xb) (unat y) < 16 * B * (8 * ((h + 7) div 8))" "swz B (unat xb') (unat y') < 16 * B * (8 * ((h + 7) div 8))"
    by (rule swz_bound; use assms(3-6) B in simp)+
  then have v: "unat (tex_offset st xb y) = swz B (unat xb) (unat y)" "unat (tex_offset st xb' y') = swz B (unat xb') (unat y')"
    using assms(2) B by (auto intro!: tex_offset_swizzled [OF True B])
  have "xb = xb' \<and> y = y'" if "tex_offset st xb y = tex_offset st xb' y'"
    using swz_inj [of B "unat xb" "unat y" "unat xb'" "unat y'"] v that assms(3,5) B by (simp add: word_unat_eq_iff)
  then show ?thesis using b(1) v(1) B True by simp
next
  case False
  have "h \<le> 8 * ((h + 7) div 8)" by linarith
  then have h: "row_bytes st * h < 2 ^ 32" using assms(2) mult_le_mono2 [of h _ "row_bytes st"] by (meson le_less_trans)
  have b: "unat y * row_bytes st + unat xb < row_bytes st * h" "unat y' * row_bytes st + unat xb' < row_bytes st * h"
    by (rule linear_bound; use assms(3-6) in simp)+
  then have v: "unat (tex_offset st xb y) = unat y * row_bytes st + unat xb"
    "unat (tex_offset st xb' y') = unat y' * row_bytes st + unat xb'"
    using h by (auto intro!: tex_offset_linear [OF False])
  have "xb = xb' \<and> y = y'" if "tex_offset st xb y = tex_offset st xb' y'"
    using linear_inj [of "unat y" "row_bytes st" "unat xb" "unat y'" "unat xb'"] v that assms(3,5) by (simp add: word_unat_eq_iff)
  then show ?thesis using b(1) v(1) False by simp
qed

definition swizzled16 :: psp_draw_state where
  "swizzled16 = \<lparr>clear = False, clear_color = False, clear_alpha = False, clear_depth = False, gouraud = False,
     tex_enable = True, tex_addr = 0, tex_bw = 16, tex_w = 16, tex_h = 8, tex_fmt = 0, tex_swizzle = True,
     tex_clamp_u = False, tex_clamp_v = False, tex_func = 0, tex_alpha = True, tex_double = False, tex_env = 0,
     clut = None, clut_fmt = 0, clut_shift = 0, clut_mask = 255, clut_start = 0, blend_on = False,
     blend_src = 0, blend_dst = 0, blend_op = 0, blend_sfix = 0, blend_dfix = 0, atest = False,
     atest_func = 1, atest_ref = 0, atest_mask = 255, sc_x0 = 0, sc_y0 = 0, sc_x1 = 479, sc_y1 = 271,
     ztest = False, zfunc = 0, zwrite = True, zaddr = 0, zbw = 0\<rparr>"

theorem tex_offset_injective_witness:
  "unat (tex_offset swizzled16 17 7) < 256 \<and> tex_offset swizzled16 17 7 \<noteq> tex_offset swizzled16 1 7"
  using tex_offset_injective [of swizzled16 8 17 7 1 7] by (simp add: swizzled16_def row_bytes_def TEX_BPP_def)

definition blank_screen :: screen where
  "blank_screen = (\<lparr>g_fb_addr = 0x04000000, g_fb_stride = 512, g_fb_fmt = 3, g_pixels = 0, g_bad_texels = 0,
     g_backend = psp_render_software\<rparr>, boot_machine)"

theorem backend_draw_stays_inside_witness:
  "peek 4 (mem (snd (backend_draw 6 [vert 0 0, vert 9 9] swizzled16 blank_screen))) 0x04200000 =
     peek 4 (mem boot_machine) 0x04200000"
proof -
  have "outside swizzled16 (fst blank_screen) 0x04200000 4"
    unfolding outside_def
  proof (intro disjI2 allI impI)
    fix x y assume d: "drawable swizzled16 x y"
    define o' where "o' = (y * 512 + x) * 4"
    have o: "0 \<le> o'" "o' < 0x200000 - 4" using d by (auto simp: drawable_def swizzled16_def o'_def)
    have "fb_at (fst blank_screen) x y = of_int (0x04000000 + o')"
      by (simp add: fb_at_def blank_screen_def o'_def)
    moreover have "unat (of_int a :: u32) = nat a" if "0 \<le> a" "a < 0x100000000" for a
      using that by (simp add: unat_eq_nat_uint unsigned_of_int take_bit_int_eq_self)
    from this [of "0x04000000 + o'"] have "unat (of_int (0x04000000 + o') :: u32) = nat (0x04000000 + o')"
      using o by linarith
    ultimately have "canon (fb_at (fst blank_screen) x y) = nat (0x04000000 + o')"
      using o by (simp add: canon_mod nat_mod_distrib)
    moreover have "canon 0x04200000 = 0x04200000" by (simp add: canon_mod)
    moreover have "nat (0x04000000 + o') + 4 \<le> 0x04200000" using o by simp
    ultimately show "pixel_apart swizzled16 (fst blank_screen) 0x04200000 4 x y"
      by (simp add: pixel_apart_def bytes_apart_def swizzled16_def blank_screen_def)
  qed
  from backend_draw_stays_inside [OF this] show ?thesis by (simp add: blank_screen_def)
qed

end
