(* ===== verification/Ge.thy ===== *)
theory Ge
  imports Render Sysmem
begin

unbundle bit_operations_syntax

text \<open>
  The display-list interpreter of \<^verbatim>\<open>src/hle/ge.c\<close>: the state the commands set, vertex decoding,
  transformation and lighting, the walk of a list with its jumps, calls and stall address, and the
  firmware calls that queue lists. Floating-point values are their bit patterns. \<^verbatim>\<open>PSPRECOMP_TRACE_GE\<close>
  is unset, so nothing is logged; the report \<^verbatim>\<open>psp_ge_dump_stats\<close> only prints the counters.
\<close>

section \<open>State\<close>

abbreviation (input) MAX_QUEUES :: nat where "MAX_QUEUES \<equiv> 8"
abbreviation (input) GE_STACK :: nat where "GE_STACK \<equiv> 8"
abbreviation (input) GE_FIRST_ID :: u32 where "GE_FIRST_ID \<equiv> 0x00080000"

record ge_queue =
  q_id :: u32
  q_list :: u32
  q_stall :: u32
  q_base :: u32
  q_origin :: u32
  q_used :: bool
  q_done :: bool

record ge_lights =
  l_enable :: bool
  l_on :: "bool list"
  l_type :: "nat list"
  l_comp :: "nat list"
  l_cmat :: nat
  l_rnorm :: bool
  l_emissive :: u32
  l_diffuse :: u32
  l_specular :: u32
  l_ambient :: u32
  l_spow :: u32
  l_pos :: "u32 list list"
  l_dir :: "u32 list list"
  l_att :: "u32 list list"
  l_spot_exp :: "u32 list"
  l_spot_cut :: "u32 list"
  l_col :: "u32 list list"

record ge_xform =
  x_world :: "u32 list"
  x_view :: "u32 list"
  x_proj :: "u32 list"
  x_wi :: nat
  x_vi :: nat
  x_pi :: nat
  x_xscale :: u32
  x_yscale :: u32
  x_xpos :: u32
  x_ypos :: u32
  x_offx :: u32
  x_offy :: u32
  x_uscale :: u32
  x_vscale :: u32
  x_uoff :: u32
  x_voff :: u32
  x_zscale :: u32
  x_zpos :: u32
  x_behind :: u64

record ge_track =
  t_fbp :: u32
  t_fbw :: u32
  t_vtype :: u32
  t_vaddr :: u32
  t_iaddr :: u32
  t_commands :: u64
  t_prims :: "u64 list"
  t_vertices :: u64
  t_unknown :: u64
  t_lists :: u64
  t_finishes :: u64
  t_op_count :: "u64 list"
  t_op_last :: "u32 list"

record ge_state =
  g_queue :: "ge_queue list"
  ge_next_id :: u32
  g_unsupported :: u64
  g_ds :: psp_draw_state
  g_tbp :: u32
  g_tbw :: u32
  g_cbp :: u32
  g_psm :: nat
  g_clut :: "u8 list"
  g_material :: u32
  g_lt :: ge_lights
  g_zbp :: u32
  g_zbw :: u32
  g_xf :: ge_xform
  g_ge :: ge_track

text \<open>The interpreter with the renderer and the machine.\<close>

record gpu =
  gs :: ge_state
  gr :: renderer
  gm :: psp_machine

section \<open>Reset\<close>

definition f24 :: "u32 \<Rightarrow> u32" where "f24 arg = push_bit 8 arg"

definition xf_reset :: ge_xform where
  "xf_reset =
     \<lparr>x_world = ((replicate 12 0)[0 := 0x3F800000])[4 := 0x3F800000, 8 := 0x3F800000],
      x_view = ((replicate 12 0)[0 := 0x3F800000])[4 := 0x3F800000, 8 := 0x3F800000],
      x_proj = (replicate 16 0)[0 := 0x3F800000, 5 := 0x3F800000, 10 := 0x3F800000, 15 := 0x3F800000],
      x_wi = 0, x_vi = 0, x_pi = 0, x_xscale = 0, x_yscale = 0, x_xpos = 0, x_ypos = 0, x_offx = 0,
      x_offy = 0, x_uscale = 0x3F800000, x_vscale = 0x3F800000, x_uoff = 0, x_voff = 0, x_zscale = 0,
      x_zpos = 0, x_behind = 0\<rparr>"

definition ds_reset :: psp_draw_state where
  "ds_reset =
     \<lparr>clear = False, clear_color = False, clear_alpha = False, clear_depth = False, gouraud = False,
      tex_enable = False, tex_addr = 0, tex_bw = 0, tex_w = 1, tex_h = 1, tex_fmt = 0, tex_swizzle = False,
      tex_clamp_u = False, tex_clamp_v = False, tex_func = 0, tex_alpha = True, tex_double = False,
      tex_env = 0, clut = Some (replicate 1024 0), clut_fmt = 0, clut_shift = 0, clut_mask = 0xFF,
      clut_start = 0, blend_on = False, blend_src = 0, blend_dst = 0, blend_op = 0, blend_sfix = 0,
      blend_dfix = 0, atest = False, atest_func = 1, atest_ref = 0, atest_mask = 0xFF, sc_x0 = 0, sc_y0 = 0,
      sc_x1 = 479, sc_y1 = 271, ztest = False, zfunc = 0, zwrite = True, zaddr = 0, zbw = 0\<rparr>"

definition lights_reset :: ge_lights where
  "lights_reset =
     \<lparr>l_enable = False, l_on = replicate 4 False, l_type = replicate 4 0, l_comp = replicate 4 0, l_cmat = 0,
      l_rnorm = False, l_emissive = 0, l_diffuse = 0, l_specular = 0, l_ambient = 0, l_spow = 0,
      l_pos = replicate 4 [0, 0, 0], l_dir = replicate 4 [0, 0, 0], l_att = replicate 4 [0, 0, 0],
      l_spot_exp = replicate 4 0, l_spot_cut = replicate 4 0, l_col = replicate 4 [0, 0, 0]\<rparr>"

definition track_reset :: ge_track where
  "track_reset =
     \<lparr>t_fbp = 0, t_fbw = 0, t_vtype = 0, t_vaddr = 0, t_iaddr = 0, t_commands = 0, t_prims = replicate 8 0,
      t_vertices = 0, t_unknown = 0, t_lists = 0, t_finishes = 0, t_op_count = replicate 256 0,
      t_op_last = replicate 256 0\<rparr>"

definition no_queue :: ge_queue where
  "no_queue = \<lparr>q_id = 0, q_list = 0, q_stall = 0, q_base = 0, q_origin = 0, q_used = False, q_done = False\<rparr>"

definition ge_reset_state :: ge_state where
  "ge_reset_state =
     \<lparr>g_queue = replicate MAX_QUEUES no_queue, ge_next_id = GE_FIRST_ID, g_unsupported = 0, g_ds = ds_reset,
      g_tbp = 0, g_tbw = 0, g_cbp = 0, g_psm = 3, g_clut = replicate 1024 0, g_material = 0xFFFFFFFF,
      g_lt = lights_reset, g_zbp = 0, g_zbw = 0, g_xf = xf_reset, g_ge = track_reset\<rparr>"

definition psp_ge_reset :: "gpu \<Rightarrow> gpu" where
  "psp_ge_reset G = G\<lparr>gs := ge_reset_state, gr := psp_render_reset_pixels (gr G)\<rparr>"

section \<open>Light commands\<close>

definition set2 :: "nat \<Rightarrow> nat \<Rightarrow> 'a \<Rightarrow> 'a list list \<Rightarrow> 'a list list" where
  "set2 i j x m = m[i := (m ! i)[j := x]]"

definition light_cmd :: "nat \<Rightarrow> u32 \<Rightarrow> ge_lights \<Rightarrow> ge_lights option" where
  "light_cmd cmd arg l =
     (let in_block = (\<lambda>lo hi. lo \<le> cmd \<and> cmd \<le> hi);
          bit0 = (arg AND 1 \<noteq> 0) in
      if in_block 0x18 0x1B then Some (l\<lparr>l_on := (l_on l)[cmd - 0x18 := bit0]\<rparr>)
      else if in_block 0x5F 0x62
      then Some (l\<lparr>l_comp := (l_comp l)[cmd - 0x5F := unat (arg AND 3)],
                   l_type := (l_type l)[cmd - 0x5F := unat (drop_bit 8 arg AND 3)]\<rparr>)
      else if in_block 0x63 0x6E then Some (l\<lparr>l_pos := set2 ((cmd - 0x63) div 3) ((cmd - 0x63) mod 3) (f24 arg) (l_pos l)\<rparr>)
      else if in_block 0x6F 0x7A then Some (l\<lparr>l_dir := set2 ((cmd - 0x6F) div 3) ((cmd - 0x6F) mod 3) (f24 arg) (l_dir l)\<rparr>)
      else if in_block 0x7B 0x86 then Some (l\<lparr>l_att := set2 ((cmd - 0x7B) div 3) ((cmd - 0x7B) mod 3) (f24 arg) (l_att l)\<rparr>)
      else if in_block 0x87 0x8A then Some (l\<lparr>l_spot_exp := (l_spot_exp l)[cmd - 0x87 := f24 arg]\<rparr>)
      else if in_block 0x8B 0x8E then Some (l\<lparr>l_spot_cut := (l_spot_cut l)[cmd - 0x8B := f24 arg]\<rparr>)
      else if in_block 0x8F 0x9A then Some (l\<lparr>l_col := set2 ((cmd - 0x8F) div 3) ((cmd - 0x8F) mod 3) arg (l_col l)\<rparr>)
      else if cmd = 0x17 then Some (l\<lparr>l_enable := bit0\<rparr>)
      else if cmd = 0x51 then Some (l\<lparr>l_rnorm := bit0\<rparr>)
      else if cmd = 0x53 then Some (l\<lparr>l_cmat := unat (arg AND 7)\<rparr>)
      else if cmd = 0x54 then Some (l\<lparr>l_emissive := arg\<rparr>)
      else if cmd = 0x56 then Some (l\<lparr>l_diffuse := arg\<rparr>)
      else if cmd = 0x57 then Some (l\<lparr>l_specular := arg\<rparr>)
      else if cmd = 0x5B then Some (l\<lparr>l_spow := f24 arg\<rparr>)
      else if cmd = 0x5C then Some (l\<lparr>l_ambient := (l_ambient l AND 0xFF000000) OR arg\<rparr>)
      else if cmd = 0x5D then Some (l\<lparr>l_ambient := (l_ambient l AND 0x00FFFFFF) OR push_bit 24 (arg AND 0xFF)\<rparr>)
      else None)"

section \<open>Transformation and lighting\<close>

text \<open>A matrix of columns of \<open>n\<close> rows applied to \<open>p\<close>: row \<open>r\<close>, products only, then with the last column.\<close>

definition row3 :: "nat \<Rightarrow> u32 list \<Rightarrow> nat \<Rightarrow> u32 list \<Rightarrow> u32" where
  "row3 n m r p = f32_add (f32_add (f32_mul (m ! r) (p ! 0)) (f32_mul (m ! (n + r)) (p ! 1))) (f32_mul (m ! (2 * n + r)) (p ! 2))"

definition row4 :: "nat \<Rightarrow> u32 list \<Rightarrow> nat \<Rightarrow> u32 list \<Rightarrow> u32" where
  "row4 n m r p = f32_add (row3 n m r p) (m ! (3 * n + r))"

definition transform :: "ge_xform \<Rightarrow> u32 list \<Rightarrow> (u32 \<times> u32 \<times> u32) option" where
  "transform X p =
     (let w = map (\<lambda>r. row4 3 (x_world X) r p) [0..<3];
          v = map (\<lambda>r. row4 3 (x_view X) r w) [0..<3];
          c = map (\<lambda>r. row4 4 (x_proj X) r v) [0..<4]
      in if f32_le (c ! 3) 0 then None
         else Some (f32_sub (f32_add (f32_mul (f32_div (c ! 0) (c ! 3)) (x_xscale X)) (x_xpos X)) (x_offx X),
                    f32_sub (f32_add (f32_mul (f32_div (c ! 1) (c ! 3)) (x_yscale X)) (x_ypos X)) (x_offy X),
                    f32_add (f32_mul (f32_div (c ! 2) (c ! 3)) (x_zscale X)) (x_zpos X)))"

definition unpack4 :: "u32 \<Rightarrow> u32 list" where
  "unpack4 c = map (\<lambda>i. f32_of_int (chan i c)) [0..<4]"

definition dot3 :: "u32 list \<Rightarrow> u32 list \<Rightarrow> u32" where
  "dot3 a b = f32_add (f32_add (f32_mul (a ! 0) (b ! 0)) (f32_mul (a ! 1) (b ! 1))) (f32_mul (a ! 2) (b ! 2))"

definition norm3 :: "libm \<Rightarrow> u32 list \<Rightarrow> u32 \<times> u32 list" where
  "norm3 L v = (let l = sqrtf L (dot3 v v) in (l, if f32_lt 0 l then map (\<lambda>x. f32_div x l) v else v))"

text \<open>The direction to light \<open>i\<close> and its attenuation at \<open>wp\<close>.\<close>

definition light_dir :: "libm \<Rightarrow> ge_lights \<Rightarrow> nat \<Rightarrow> u32 list \<Rightarrow> u32 list \<times> u32" where
  "light_dir L l i wp =
     (if l_type l ! i = 0 then (snd (norm3 L (l_pos l ! i)), 0x3F800000)
      else let (d, D) = norm3 L (map (\<lambda>r. f32_sub (l_pos l ! i ! r) (wp ! r)) [0..<3]);
               a = l_att l ! i;
               den = f32_add (f32_add (a ! 0) (f32_mul (a ! 1) d)) (f32_mul (f32_mul (a ! 2) d) d);
               att0 = (if f32_lt 0 den then f32_div 0x3F800000 den else 0x3F800000);
               att = (if f32_lt 0x3F800000 att0 then 0x3F800000 else att0);
               cs = f32_neg (dot3 D (snd (norm3 L (l_dir l ! i))))
           in (D, if l_type l ! i = 2
                  then f32_mul att (if f32_lt (l_spot_cut l ! i) cs then powf L cs (l_spot_exp l ! i) else 0)
                  else att))"

definition light_one :: "libm \<Rightarrow> ge_lights \<Rightarrow> u32 list \<Rightarrow> u32 list \<Rightarrow> u32 list \<Rightarrow> u32 list \<Rightarrow> u32 list \<Rightarrow> nat \<Rightarrow> u32 list \<Rightarrow> u32 list" where
  "light_one L l wp wn ma md ms i out =
     (if \<not> l_on l ! i then out
      else let (D, att) = light_dir L l i wp;
               la = unpack4 (l_col l ! i ! 0); ld = unpack4 (l_col l ! i ! 1); ls = unpack4 (l_col l ! i ! 2);
               ndl0 = dot3 wn D;
               ndl1 = (if f32_lt ndl0 0 then 0 else ndl0);
               ndl = (if l_comp l ! i = 2 then powf L ndl1 (l_spow l) else ndl1);
               H = snd (norm3 L [D ! 0, D ! 1, f32_add (D ! 2) 0x3F800000]);
               ndh = dot3 wn H;
               spec = (if l_comp l ! i = 1 \<and> f32_lt 0 ndl \<and> f32_lt 0 ndh then powf L ndh (l_spow l) else 0)
           in map (\<lambda>k. f32_add (out ! k) (f32_div (f32_mul att
                    (f32_add (f32_add (f32_mul (la ! k) (ma ! k)) (f32_mul (f32_mul (ld ! k) (md ! k)) ndl))
                             (f32_mul (f32_mul (ls ! k) (ms ! k)) spec))) 0x437F0000)) [0..<3])"

definition light_vertex :: "libm \<Rightarrow> ge_state \<Rightarrow> u32 list \<Rightarrow> u32 list \<Rightarrow> u32 \<Rightarrow> u32" where
  "light_vertex L g p n vcol =
     (let l = g_lt g; W = x_world (g_xf g);
          wp = map (\<lambda>r. row4 3 W r p) [0..<3];
          wn0 = map (\<lambda>r. row3 3 W r n) [0..<3];
          wn = snd (norm3 L (if l_rnorm l then map f32_neg wn0 else wn0));
          ma = unpack4 (if odd (l_cmat l) then vcol else g_material g);
          md = unpack4 (if odd (l_cmat l div 2) then vcol else l_diffuse l);
          ms = unpack4 (if odd (l_cmat l div 4) then vcol else l_specular l);
          e = unpack4 (l_emissive l); al = unpack4 (l_ambient l);
          out0 = map (\<lambda>k. f32_add (e ! k) (f32_div (f32_mul (al ! k) (ma ! k)) 0x437F0000)) [0..<3];
          out = fold (light_one L l wp wn ma md ms) [0..<4] out0;
          byte = (\<lambda>x. if f32_lt 0x437F0000 x then 255 else f32_to_int x)
      in fold (\<lambda>k c. c OR push_bit (8 * k) (of_int (byte (out ! k)))) [0..<3]
           (push_bit 24 (of_int (f32_trunc (ma ! 3)))))"

section \<open>Vertices\<close>

definition vt_field :: "u32 \<Rightarrow> nat \<Rightarrow> u32 \<Rightarrow> nat" where
  "vt_field v s m = unat (drop_bit s v AND m)"

abbreviation VT_TEX :: "u32 \<Rightarrow> nat" where "VT_TEX v \<equiv> vt_field v 0 3"
abbreviation VT_COLOR :: "u32 \<Rightarrow> nat" where "VT_COLOR v \<equiv> vt_field v 2 7"
abbreviation VT_NORMAL :: "u32 \<Rightarrow> nat" where "VT_NORMAL v \<equiv> vt_field v 5 3"
abbreviation VT_POS :: "u32 \<Rightarrow> nat" where "VT_POS v \<equiv> vt_field v 7 3"
abbreviation VT_WEIGHT :: "u32 \<Rightarrow> nat" where "VT_WEIGHT v \<equiv> vt_field v 9 3"
abbreviation VT_INDEX :: "u32 \<Rightarrow> nat" where "VT_INDEX v \<equiv> vt_field v 11 3"
abbreviation VT_THROUGH :: "u32 \<Rightarrow> nat" where "VT_THROUGH v \<equiv> vt_field v 23 1"

definition align_comp :: "nat \<Rightarrow> nat \<Rightarrow> nat" where
  "align_comp off s = (off + s - 1) div s * s"

text \<open>One component of \<open>n\<close> elements of size \<open>s\<close>: its offset if present, the next free offset, the alignment.\<close>

definition place_comp :: "nat \<Rightarrow> nat \<Rightarrow> nat \<Rightarrow> nat \<Rightarrow> nat option \<times> nat \<times> nat" where
  "place_comp s n off al =
     (if s = 0 then (None, off, al) else (Some (align_comp off s), align_comp off s + s * n, max al s))"

definition vertex_layout :: "u32 \<Rightarrow> (nat \<times> nat option \<times> nat option \<times> nat option \<times> nat) option" where
  "vertex_layout vtype =
     (let ts = [0, 1, 2, 4] ! VT_TEX vtype; cs = [0, 0, 0, 0, 2, 2, 2, 4] ! VT_COLOR vtype;
          ns = [0, 1, 2, 4] ! VT_NORMAL vtype; ps = [0, 1, 2, 4] ! VT_POS vtype
      in if VT_WEIGHT vtype \<noteq> 0 then None
         else let (tex, o1, a1) = place_comp ts 2 0 1;
                  (col, o2, a2) = place_comp cs 1 o1 a1;
                  (nrm, o3, a3) = place_comp ns 3 o2 a2
              in if ps = 0 then None
                 else let (pos, o4, a4) = place_comp ps 3 o3 a3
                      in Some (align_comp o4 a4, tex, col, nrm, the pos))"

definition ge_rd8 :: "u32 \<Rightarrow> gpu \<Rightarrow> u32 \<times> gpu" where
  "ge_rd8 a G = (let (x, M) = psp_read8 a (gm G) in (ucast x, G\<lparr>gm := M\<rparr>))"
definition ge_rd16 :: "u32 \<Rightarrow> gpu \<Rightarrow> u32 \<times> gpu" where
  "ge_rd16 a G = (let (x, M) = psp_read16 a (gm G) in (ucast x, G\<lparr>gm := M\<rparr>))"
definition ge_rd32 :: "u32 \<Rightarrow> gpu \<Rightarrow> u32 \<times> gpu" where
  "ge_rd32 a G = (let (x, M) = psp_read32 a (gm G) in (x, G\<lparr>gm := M\<rparr>))"
definition ge_rdf :: "u32 \<Rightarrow> gpu \<Rightarrow> u32 \<times> gpu" where
  "ge_rdf a G = (let (x, M) = psp_read_f32 a (gm G) in (x, G\<lparr>gm := M\<rparr>))"

text \<open>One component of \<^verbatim>\<open>read3\<close>: signed 8- or 16-bit, fixed point unless \<open>raw\<close>, or a float.\<close>

definition read_comp :: "u32 \<Rightarrow> nat \<Rightarrow> bool \<Rightarrow> nat \<Rightarrow> gpu \<Rightarrow> u32 \<times> gpu" where
  "read_comp a fmt raw i G =
     (if fmt = 1
      then (let (x, G1) = ge_rd8 (a + of_nat i) G; f = f32_of_int (sint (ucast x :: u8))
            in (if raw then f else f32_div f 0x43000000, G1))
      else if fmt = 2
      then (let (x, G1) = ge_rd16 (a + of_nat i * 2) G; f = f32_of_int (sint (ucast x :: u16))
            in (if raw then f else f32_div f 0x47000000, G1))
      else ge_rdf (a + of_nat i * 4) G)"

definition read3 :: "u32 \<Rightarrow> nat \<Rightarrow> bool \<Rightarrow> gpu \<Rightarrow> u32 list \<times> gpu" where
  "read3 a fmt raw G =
     (let (x, G1) = read_comp a fmt raw 0 G; (y, G2) = read_comp a fmt raw 1 G1; (z, G3) = read_comp a fmt raw 2 G2
      in ([x, y, z], G3))"

definition read_uv :: "u32 \<Rightarrow> nat \<Rightarrow> bool \<Rightarrow> gpu \<Rightarrow> u32 \<times> u32 \<times> gpu" where
  "read_uv t fmt through G =
     (if fmt = 1
      then (let (u, G1) = ge_rd8 t G; (v, G2) = ge_rd8 (t + 1) G1;
                f = (\<lambda>x. if through then f32_of_int (uint x) else f32_div (f32_of_int (uint x)) 0x43000000)
            in (f u, f v, G2))
      else if fmt = 2
      then (let (u, G1) = ge_rd16 t G; (v, G2) = ge_rd16 (t + 2) G1;
                f = (\<lambda>x. if through then f32_of_int (uint x) else f32_div (f32_of_int (uint x)) 0x47000000)
            in (f u, f v, G2))
      else (let (u, G1) = ge_rdf t G; (v, G2) = ge_rdf (t + 4) G1 in (u, v, G2)))"

definition vertex_color :: "u32 \<Rightarrow> u32 \<Rightarrow> nat option \<Rightarrow> gpu \<Rightarrow> u32 \<times> gpu" where
  "vertex_color addr vtype col G =
     (case col of
        None \<Rightarrow> (g_material (gs G), G)
      | Some o1 \<Rightarrow>
          if VT_COLOR vtype = 7 then ge_rd32 (addr + of_nat o1) G
          else (let (x, G1) = ge_rd16 (addr + of_nat o1) G in (psp_color_expand x (VT_COLOR vtype - 4), G1)))"

definition vertex_uv :: "u32 \<Rightarrow> u32 \<Rightarrow> nat option \<Rightarrow> gpu \<Rightarrow> u32 \<times> u32 \<times> gpu" where
  "vertex_uv addr vtype tex G =
     (case tex of
        None \<Rightarrow> (0, 0, G)
      | Some o1 \<Rightarrow>
          (let through = (VT_THROUGH vtype \<noteq> 0); (u, v, G1) = read_uv (addr + of_nat o1) (VT_TEX vtype) through G;
               X = g_xf (gs G); D = g_ds (gs G)
           in if through then (u, v, G1)
              else (f32_mul (f32_add (f32_mul u (x_uscale X)) (x_uoff X)) (f32_of_int (int (tex_w D))),
                    f32_mul (f32_add (f32_mul v (x_vscale X)) (x_voff X)) (f32_of_int (int (tex_h D))), G1)))"

definition upd_xf :: "(ge_xform \<Rightarrow> ge_xform) \<Rightarrow> gpu \<Rightarrow> gpu" where
  "upd_xf f G = G\<lparr>gs := (gs G)\<lparr>g_xf := f (g_xf (gs G))\<rparr>\<rparr>"

text \<open>
  \<^verbatim>\<open>read_vertex\<close>, called where \<open>vertex_layout\<close> found a position. The fields a vertex behind the eye
  leaves unset keep what the static buffer held; nothing reads them, and here they are zero.
\<close>

definition read_vertex ::
  "libm \<Rightarrow> u32 \<Rightarrow> u32 \<Rightarrow> nat option \<Rightarrow> nat option \<Rightarrow> nat option \<Rightarrow> nat \<Rightarrow> gpu \<Rightarrow> psp_vertex \<times> gpu" where
  "read_vertex L addr vtype tex col nrm pos G =
     (let through = (VT_THROUGH vtype \<noteq> 0);
          (c, G1) = vertex_color addr vtype col G;
          (u, v, G2) = vertex_uv addr vtype tex G1;
          (p, G3) = read3 (addr + of_nat pos) (VT_POS vtype) through G2
      in if through
         then (let (z, G4) = (if VT_POS vtype = 2
                              then (let (h, G') = ge_rd16 (addr + of_nat pos + 4) G3 in (f32_of_int (uint h), G'))
                              else (p ! 2, G3))
               in (\<lparr>vx = f32_to_int (p ! 0), vy = f32_to_int (p ! 1), vz = z, vrgba = c, vu = u, vv = v, behind = False\<rparr>, G4))
         else let (c1, G4) =
                (if l_enable (g_lt (gs G3))
                 then (let (n, G') = (case nrm of None \<Rightarrow> ([0, 0, 0x3F800000], G3)
                                      | Some o1 \<Rightarrow> read3 (addr + of_nat o1) (VT_NORMAL vtype) False G3)
                       in (light_vertex L (gs G') p n c, G'))
                 else (c, G3))
              in case transform (g_xf (gs G4)) p of
                   None \<Rightarrow> (\<lparr>vx = 0, vy = 0, vz = 0, vrgba = c1, vu = u, vv = v, behind = True\<rparr>,
                            upd_xf (\<lambda>X. X\<lparr>x_behind := x_behind X + 1\<rparr>) G4)
                 | Some (sx, sy, sz) \<Rightarrow>
                     (\<lparr>vx = f32_to_int (f32_floor sx), vy = f32_to_int (f32_floor sy), vz = sz, vrgba = c1,
                       vu = u, vv = v, behind = False\<rparr>, G4))"

definition upd_track :: "(ge_track \<Rightarrow> ge_track) \<Rightarrow> gpu \<Rightarrow> gpu" where
  "upd_track f G = G\<lparr>gs := (gs G)\<lparr>g_ge := f (g_ge (gs G))\<rparr>\<rparr>"

definition read_index :: "nat \<Rightarrow> u32 \<Rightarrow> nat \<Rightarrow> gpu \<Rightarrow> u32 \<times> gpu" where
  "read_index isz base n G =
     (if isz = 1 then ge_rd8 (base + of_nat n) G
      else if isz = 2 then ge_rd16 (base + of_nat n * 2) G
      else if isz = 4 then ge_rd32 (base + of_nat n * 4) G
      else (of_nat n, G))"

primrec read_vertices ::
  "(nat \<Rightarrow> gpu \<Rightarrow> psp_vertex \<times> gpu) \<Rightarrow> nat list \<Rightarrow> gpu \<Rightarrow> psp_vertex list \<times> gpu" where
  "read_vertices f [] G = ([], G)"
| "read_vertices f (n # ns) G = (let (v, G1) = f n G; (vs, G2) = read_vertices f ns G1 in (v # vs, G2))"

definition draw_backend :: "nat \<Rightarrow> psp_vertex list \<Rightarrow> gpu \<Rightarrow> gpu" where
  "draw_backend prim vs G =
     (let (R, M) = backend_draw prim vs (g_ds (gs G)) (gr G, gm G) in G\<lparr>gr := R, gm := M\<rparr>)"

definition unsupported :: "nat \<Rightarrow> gpu \<Rightarrow> gpu" where
  "unsupported n G = G\<lparr>gs := (gs G)\<lparr>g_unsupported := g_unsupported (gs G) + of_nat n\<rparr>\<rparr>"

definition draw_prim :: "libm \<Rightarrow> nat \<Rightarrow> nat \<Rightarrow> gpu \<Rightarrow> gpu" where
  "draw_prim L prim cnt G =
     (let T = g_ge (gs G); isz = [0, 1, 2, 4] ! VT_INDEX (t_vtype T) in
      if t_vaddr T = 0 then unsupported cnt G
      else case vertex_layout (t_vtype T) of
             None \<Rightarrow> unsupported cnt G
           | Some (stride, tex, col, nrm, pos) \<Rightarrow>
               if isz \<noteq> 0 \<and> t_iaddr T = 0 then unsupported cnt G
               else let (vs, G1) = read_vertices (\<lambda>n G'. let (i, G'') = read_index isz (t_iaddr T) n G'
                          in read_vertex L (t_vaddr T + i * of_nat stride) (t_vtype T) tex col nrm pos G'') [0..<cnt] G;
                        G2 = upd_track (\<lambda>T. if isz \<noteq> 0 then T\<lparr>t_iaddr := t_iaddr T + of_nat (cnt * isz)\<rparr>
                                            else T\<lparr>t_vaddr := t_vaddr T + of_nat (cnt * stride)\<rparr>) G1
                    in if vs = [] then G2 else draw_backend prim vs G2)"

section \<open>State commands\<close>

abbreviation upd_ds :: "(psp_draw_state \<Rightarrow> psp_draw_state) \<Rightarrow> gpu \<Rightarrow> gpu" where
  "upd_ds f G \<equiv> G\<lparr>gs := (gs G)\<lparr>g_ds := f (g_ds (gs G))\<rparr>\<rparr>"

definition fb_vram :: "gpu \<Rightarrow> u32" where
  "fb_vram G = PSP_VRAM_BASE OR (t_fbp (g_ge (gs G)) AND (PSP_VRAM_SIZE - 1))"

definition set_target :: "gpu \<Rightarrow> gpu" where
  "set_target G = G\<lparr>gr := backend_target (fb_vram G) (t_fbw (g_ge (gs G))) (g_psm (gs G)) (gr G)\<rparr>"

text \<open>A 12.4 fixed-point offset as a float.\<close>

definition fixed4 :: "u32 \<Rightarrow> u32" where
  "fixed4 arg = f32_div (f32_of_int (uint (arg AND 0xFFFF))) 0x41800000"

primrec load_clut :: "nat list \<Rightarrow> gpu \<Rightarrow> gpu" where
  "load_clut [] G = G"
| "load_clut (i # is) G =
     (let (b, M) = psp_read8 (g_cbp (gs G) + of_nat i) (gm G);
          c = (g_clut (gs G))[i := b]
      in load_clut is (G\<lparr>gm := M, gs := (gs G)\<lparr>g_clut := c, g_ds := (g_ds (gs G))\<lparr>clut := Some c\<rparr>\<rparr>\<rparr>))"

definition matrix_put :: "nat \<Rightarrow> u32 \<Rightarrow> nat \<Rightarrow> u32 list \<Rightarrow> nat \<times> u32 list" where
  "matrix_put n x i m = (if i < n then (i + 1, m[i := x]) else (i, m))"

definition xform_cmd :: "nat \<Rightarrow> u32 \<Rightarrow> ge_xform \<Rightarrow> ge_xform option" where
  "xform_cmd cmd arg X =
     (if cmd = 0x3A then Some (X\<lparr>x_wi := unat (arg AND 0xF)\<rparr>)
      else if cmd = 0x3B then (let (i, m) = matrix_put 12 (f24 arg) (x_wi X) (x_world X) in Some (X\<lparr>x_wi := i, x_world := m\<rparr>))
      else if cmd = 0x3C then Some (X\<lparr>x_vi := unat (arg AND 0xF)\<rparr>)
      else if cmd = 0x3D then (let (i, m) = matrix_put 12 (f24 arg) (x_vi X) (x_view X) in Some (X\<lparr>x_vi := i, x_view := m\<rparr>))
      else if cmd = 0x3E then Some (X\<lparr>x_pi := unat (arg AND 0xF)\<rparr>)
      else if cmd = 0x3F then (let (i, m) = matrix_put 16 (f24 arg) (x_pi X) (x_proj X) in Some (X\<lparr>x_pi := i, x_proj := m\<rparr>))
      else if cmd = 0x42 then Some (X\<lparr>x_xscale := f24 arg\<rparr>)
      else if cmd = 0x43 then Some (X\<lparr>x_yscale := f24 arg\<rparr>)
      else if cmd = 0x45 then Some (X\<lparr>x_xpos := f24 arg\<rparr>)
      else if cmd = 0x46 then Some (X\<lparr>x_ypos := f24 arg\<rparr>)
      else if cmd = 0x48 then Some (X\<lparr>x_uscale := f24 arg\<rparr>)
      else if cmd = 0x49 then Some (X\<lparr>x_vscale := f24 arg\<rparr>)
      else if cmd = 0x4A then Some (X\<lparr>x_uoff := f24 arg\<rparr>)
      else if cmd = 0x4B then Some (X\<lparr>x_voff := f24 arg\<rparr>)
      else if cmd = 0x4C then Some (X\<lparr>x_offx := fixed4 arg\<rparr>)
      else if cmd = 0x4D then Some (X\<lparr>x_offy := fixed4 arg\<rparr>)
      else if cmd = 0x44 then Some (X\<lparr>x_zscale := f24 arg\<rparr>)
      else if cmd = 0x47 then Some (X\<lparr>x_zpos := f24 arg\<rparr>)
      else None)"

text \<open>The commands that only change the draw state.\<close>

definition ds_cmd :: "nat \<Rightarrow> u32 \<Rightarrow> psp_draw_state \<Rightarrow> psp_draw_state option" where
  "ds_cmd cmd arg D =
     (let b = (\<lambda>n. bit arg n); f = (\<lambda>s m. unat (drop_bit s arg AND m)); i = (\<lambda>s m. int (unat (drop_bit s arg AND m))) in
      if cmd = 0x1E then Some (D\<lparr>tex_enable := b 0\<rparr>)
      else if cmd = 0x21 then Some (D\<lparr>blend_on := b 0\<rparr>)
      else if cmd = 0x22 then Some (D\<lparr>atest := b 0\<rparr>)
      else if cmd = 0x50 then Some (D\<lparr>gouraud := b 0\<rparr>)
      else if cmd = 0xD3 then Some (D\<lparr>clear := b 0, clear_color := b 8, clear_alpha := b 9, clear_depth := b 10\<rparr>)
      else if cmd = 0x23 then Some (D\<lparr>ztest := b 0\<rparr>)
      else if cmd = 0xDE then Some (D\<lparr>zfunc := f 0 7\<rparr>)
      else if cmd = 0xE7 then Some (D\<lparr>zwrite := \<not> b 0\<rparr>)
      else if cmd = 0xB8 then Some (D\<lparr>tex_w := 2 ^ f 0 0xF, tex_h := 2 ^ f 8 0xF\<rparr>)
      else if cmd = 0xC2 then Some (D\<lparr>tex_swizzle := b 0\<rparr>)
      else if cmd = 0xC3 then Some (D\<lparr>tex_fmt := f 0 0xF\<rparr>)
      else if cmd = 0xC7 then Some (D\<lparr>tex_clamp_u := b 0, tex_clamp_v := b 8\<rparr>)
      else if cmd = 0xC9 then Some (D\<lparr>tex_func := f 0 7, tex_alpha := b 8, tex_double := b 16\<rparr>)
      else if cmd = 0xCA then Some (D\<lparr>tex_env := arg\<rparr>)
      else if cmd = 0xC5
      then Some (D\<lparr>clut_fmt := f 0 3, clut_shift := f 2 0x1F, clut_mask := f 8 0xFF, clut_start := f 16 0x1F\<rparr>)
      else if cmd = 0xD4 then Some (D\<lparr>sc_x0 := i 0 0x3FF, sc_y0 := i 10 0x3FF\<rparr>)
      else if cmd = 0xD5 then Some (D\<lparr>sc_x1 := i 0 0x3FF, sc_y1 := i 10 0x3FF\<rparr>)
      else if cmd = 0xDB then Some (D\<lparr>atest_func := f 0 7, atest_ref := f 8 0xFF, atest_mask := f 16 0xFF\<rparr>)
      else if cmd = 0xDF then Some (D\<lparr>blend_src := f 0 0xF, blend_dst := f 4 0xF, blend_op := f 8 0xF\<rparr>)
      else if cmd = 0xE0 then Some (D\<lparr>blend_sfix := arg\<rparr>)
      else if cmd = 0xE1 then Some (D\<lparr>blend_dfix := arg\<rparr>)
      else None)"

text \<open>The commands on the words a value spans and on the target.\<close>

definition tex_base :: "ge_state \<Rightarrow> u32" where
  "tex_base g = push_bit 8 (g_tbw g AND 0xFF0000) OR g_tbp g"

definition depth_target :: "ge_state \<Rightarrow> ge_state" where
  "depth_target g = g\<lparr>g_ds := (g_ds g)\<lparr>
     zaddr := PSP_VRAM_BASE OR ((push_bit 8 (g_zbw g AND 0xFF0000) OR g_zbp g) AND (PSP_VRAM_SIZE - 1)),
     zbw := unat (g_zbw g AND 0xFFFF)\<rparr>\<rparr>"

definition word_cmd :: "nat \<Rightarrow> u32 \<Rightarrow> gpu \<Rightarrow> gpu option" where
  "word_cmd cmd arg G =
     (let g = gs G in
      if cmd = 0x12 then Some (upd_track (\<lambda>T. T\<lparr>t_vtype := arg\<rparr>) G)
      else if cmd = 0x9C then Some (set_target (upd_track (\<lambda>T. T\<lparr>t_fbp := (t_fbp T AND 0xFF000000) OR arg\<rparr>) G))
      else if cmd = 0x9D
      then Some (set_target (upd_track (\<lambda>T. T\<lparr>t_fbw := arg AND 0xFFFF,
                   t_fbp := (t_fbp T AND 0x00FFFFFF) OR push_bit 8 (arg AND 0xFF0000)\<rparr>) G))
      else if cmd = 0xD2 then Some (set_target (G\<lparr>gs := g\<lparr>g_psm := unat (arg AND 3)\<rparr>\<rparr>))
      else if cmd = 0x55 then Some (G\<lparr>gs := g\<lparr>g_material := (g_material g AND 0xFF000000) OR arg\<rparr>\<rparr>)
      else if cmd = 0x58 then Some (G\<lparr>gs := g\<lparr>g_material := (g_material g AND 0x00FFFFFF) OR push_bit 24 (arg AND 0xFF)\<rparr>\<rparr>)
      else if cmd = 0x9E then Some (G\<lparr>gs := depth_target (g\<lparr>g_zbp := arg\<rparr>)\<rparr>)
      else if cmd = 0x9F then Some (G\<lparr>gs := depth_target (g\<lparr>g_zbw := arg\<rparr>)\<rparr>)
      else if cmd = 0xA0 then Some (G\<lparr>gs := g\<lparr>g_tbp := arg, g_ds := (g_ds g)\<lparr>tex_addr := tex_base (g\<lparr>g_tbp := arg\<rparr>)\<rparr>\<rparr>\<rparr>)
      else if cmd = 0xA8
      then Some (G\<lparr>gs := g\<lparr>g_tbw := arg, g_ds := (g_ds g)\<lparr>tex_bw := unat (arg AND 0xFFFF),
                                                          tex_addr := tex_base (g\<lparr>g_tbw := arg\<rparr>)\<rparr>\<rparr>\<rparr>)
      else if cmd = 0xB0 then Some (G\<lparr>gs := g\<lparr>g_cbp := (g_cbp g AND 0xFF000000) OR arg\<rparr>\<rparr>)
      else if cmd = 0xB1 then Some (G\<lparr>gs := g\<lparr>g_cbp := (g_cbp g AND 0x00FFFFFF) OR push_bit 8 (arg AND 0x0F0000)\<rparr>\<rparr>)
      else if cmd = 0xC4 then Some (load_clut [0..<min (unat (arg AND 0x3F) * 32) 1024] G)
      else None)"

text \<open>Every command that does not move the read pointer; the ones nobody decodes are counted.\<close>

definition state_cmd :: "nat \<Rightarrow> u32 \<Rightarrow> gpu \<Rightarrow> gpu" where
  "state_cmd cmd arg G =
     (case word_cmd cmd arg G of
        Some G1 \<Rightarrow> G1
      | None \<Rightarrow>
        (case xform_cmd cmd arg (g_xf (gs G)) of
           Some X \<Rightarrow> upd_xf (\<lambda>_. X) G
         | None \<Rightarrow>
           (case ds_cmd cmd arg (g_ds (gs G)) of
              Some D \<Rightarrow> upd_ds (\<lambda>_. D) G
            | None \<Rightarrow>
              (case light_cmd cmd arg (g_lt (gs G)) of
                 Some l \<Rightarrow> G\<lparr>gs := (gs G)\<lparr>g_lt := l\<rparr>\<rparr>
               | None \<Rightarrow> upd_track (\<lambda>T. T\<lparr>t_unknown := t_unknown T + 1,
                           t_op_count := (t_op_count T)[cmd := t_op_count T ! cmd + 1],
                           t_op_last := (t_op_last T)[cmd := arg]\<rparr>) G))))"

section \<open>The walk\<close>

record ge_cursor =
  c_q :: ge_queue
  c_stack :: "u32 list"

text \<open>
  One command. \<open>c_stack\<close> has the innermost return address first; a call with eight pending does not
  record its return. The last result says that the list has ended.
\<close>

definition ge_step :: "libm \<Rightarrow> ge_cursor \<Rightarrow> gpu \<Rightarrow> ge_cursor \<times> gpu \<times> bool" where
  "ge_step L c G0 =
     (let q0 = c_q c;
          (w, Gr) = ge_rd32 (q_list q0) G0;
          cmd = unat (drop_bit 24 w); arg = w AND 0x00FFFFFF;
          q = q0\<lparr>q_list := q_list q0 + 4\<rparr>;
          G = upd_track (\<lambda>T. T\<lparr>t_commands := t_commands T + 1\<rparr>) Gr;
          target = q_base q OR (arg AND 0xFFFFFC);
          go = (\<lambda>q G. (c\<lparr>c_q := q\<rparr>, G, False))
      in if cmd = 0x00 \<or> cmd = 0x09 \<or> cmd = 0x0E then go q G
         else if cmd = 0x04
         then (let prim = unat (drop_bit 16 arg AND 7); cnt = unat (arg AND 0xFFFF)
               in go q (draw_prim L prim cnt (upd_track (\<lambda>T. T\<lparr>t_prims := (t_prims T)[prim := t_prims T ! prim + 1],
                          t_vertices := t_vertices T + of_nat cnt\<rparr>) G)))
         else if cmd = 0x05 \<or> cmd = 0x06 then go q (upd_track (\<lambda>T. T\<lparr>t_prims := (t_prims T)[3 := t_prims T ! 3 + 1]\<rparr>) G)
         else if cmd = 0x08 then go (q\<lparr>q_list := target\<rparr>) G
         else if cmd = 0x0A
         then (c\<lparr>c_q := q\<lparr>q_list := target\<rparr>,
                 c_stack := (if length (c_stack c) < GE_STACK then q_list q # c_stack c else c_stack c)\<rparr>, G, False)
         else if cmd = 0x0B
         then (case c_stack c of [] \<Rightarrow> go q G | r # rs \<Rightarrow> (\<lparr>c_q = q\<lparr>q_list := r\<rparr>, c_stack = rs\<rparr>, G, False))
         else if cmd = 0x0C \<or> cmd = 0x0F
         then (c\<lparr>c_q := q\<lparr>q_done := True, q_used := False\<rparr>\<rparr>,
               if cmd = 0x0F then upd_track (\<lambda>T. T\<lparr>t_finishes := t_finishes T + 1\<rparr>) G else G, True)
         else if cmd = 0x10 then go (q\<lparr>q_base := push_bit 8 (arg AND 0xFF0000)\<rparr>) G
         else if cmd = 0x14 then go (q\<lparr>q_origin := q_list q - 4\<rparr>) G
         else if cmd = 0x13 then go (q\<lparr>q_base := push_bit 8 arg\<rparr>) G
         else if cmd = 0x01 then go q (upd_track (\<lambda>T. T\<lparr>t_vaddr := q_base q OR (arg AND 0xFFFFFF)\<rparr>) G)
         else if cmd = 0x02 then go q (upd_track (\<lambda>T. T\<lparr>t_iaddr := q_base q OR (arg AND 0xFFFFFF)\<rparr>) G)
         else go q (state_cmd cmd arg G))"

text \<open>The loop, with the budget of the source as its fuel.\<close>

primrec ge_run :: "libm \<Rightarrow> nat \<Rightarrow> ge_cursor \<Rightarrow> gpu \<Rightarrow> ge_cursor \<times> gpu" where
  "ge_run L 0 c G = (c, G)"
| "ge_run L (Suc n) c G =
     (if q_stall (c_q c) \<noteq> 0 \<and> q_list (c_q c) = q_stall (c_q c) then (c, G)
      else let (c1, G1, stop) = ge_step L c G in if stop then (c1, G1) else ge_run L n c1 G1)"

abbreviation (input) GE_BUDGET :: nat where "GE_BUDGET \<equiv> 4194304"

text \<open>The queue is worked on in place; nothing else reads its slot during the walk.\<close>

definition run_list :: "libm \<Rightarrow> nat \<Rightarrow> gpu \<Rightarrow> gpu" where
  "run_list L i G =
     (let (c, G1) = ge_run L GE_BUDGET \<lparr>c_q = g_queue (gs G) ! i, c_stack = []\<rparr>
                      (upd_track (\<lambda>T. T\<lparr>t_lists := t_lists T + 1\<rparr>) G)
      in G1\<lparr>gs := (gs G1)\<lparr>g_queue := (g_queue (gs G1))[i := c_q c]\<rparr>\<rparr>)"

section \<open>The firmware calls\<close>

definition garg :: "nat \<Rightarrow> gpu \<Rightarrow> u32" where "garg n G = fst (psp_arg n (gm G))"
definition gret :: "u32 \<Rightarrow> gpu \<Rightarrow> gpu" where "gret x G = G\<lparr>gm := psp_ret x (gm G)\<rparr>"

definition find_queue :: "u32 \<Rightarrow> ge_state \<Rightarrow> nat option" where
  "find_queue ident g = find_index (\<lambda>q. q_used q \<and> q_id q = ident) (g_queue g)"

definition new_queue :: "u32 \<Rightarrow> u32 \<Rightarrow> u32 \<Rightarrow> ge_queue" where
  "new_queue ident lst stall = no_queue\<lparr>q_id := ident, q_list := lst AND NOT 3, q_stall := stall AND NOT 3, q_used := True\<rparr>"

definition enqueue :: "libm \<Rightarrow> gpu \<Rightarrow> gpu" where
  "enqueue L G =
     (case find_index (\<lambda>q. \<not> q_used q) (g_queue (gs G)) of
        None \<Rightarrow> gret SCE_KERNEL_ERROR_NO_MEMORY G
      | Some i \<Rightarrow>
          (let u = ge_next_id (gs G)
           in gret u (run_list L i (G\<lparr>gs := (gs G)\<lparr>
                g_queue := (g_queue (gs G))[i := new_queue u (garg 0 G) (garg 1 G)], ge_next_id := u + 1\<rparr>\<rparr>))))"

definition hle_ListEnQueue :: "libm \<Rightarrow> gpu \<Rightarrow> gpu" where "hle_ListEnQueue = enqueue"
definition hle_ListEnQueueHead :: "libm \<Rightarrow> gpu \<Rightarrow> gpu" where "hle_ListEnQueueHead = enqueue"

definition hle_ListUpdateStallAddr :: "libm \<Rightarrow> gpu \<Rightarrow> gpu" where
  "hle_ListUpdateStallAddr L G =
     (case find_queue (garg 0 G) (gs G) of
        None \<Rightarrow> gret (if garg 0 G \<ge> GE_FIRST_ID \<and> garg 0 G < ge_next_id (gs G) then SCE_KERNEL_ERROR_OK
                      else SCE_KERNEL_ERROR_UNKNOWN_UID) G
      | Some i \<Rightarrow>
          (let q = (g_queue (gs G) ! i)\<lparr>q_stall := garg 1 G AND NOT 3\<rparr>;
               G1 = G\<lparr>gs := (gs G)\<lparr>g_queue := (g_queue (gs G))[i := q]\<rparr>\<rparr>
           in gret SCE_KERNEL_ERROR_OK (if q_done q then G1 else run_list L i G1)))"

text \<open>The calls that only return a constant.\<close>

definition hle_GeOk :: "gpu \<Rightarrow> gpu" where "hle_GeOk = gret SCE_KERNEL_ERROR_OK"
definition hle_SetCallback :: "gpu \<Rightarrow> gpu" where "hle_SetCallback = gret 0"
definition hle_EdramGetAddr :: "gpu \<Rightarrow> gpu" where "hle_EdramGetAddr = gret PSP_VRAM_BASE"
definition hle_EdramGetSize :: "gpu \<Rightarrow> gpu" where "hle_EdramGetSize = gret PSP_VRAM_SIZE"

section \<open>Vertex layouts\<close>

lemma align_comp_props:
  assumes "0 < s"
  shows "s dvd align_comp off s" "off \<le> align_comp off s"
proof -
  show "s dvd align_comp off s" by (simp add: align_comp_def)
  have "(off + s - 1) div s * s + (off + s - 1) mod s = off + s - 1" by simp
  moreover have "(off + s - 1) mod s < s" using assms by simp
  ultimately show "off \<le> align_comp off s" unfolding align_comp_def by linarith
qed

definition comp_size :: "nat \<Rightarrow> bool" where "comp_size s \<longleftrightarrow> s = 1 \<or> s = 2 \<or> s = 4"

lemma comp_size_dvd: "comp_size a \<Longrightarrow> comp_size b \<Longrightarrow> a \<le> b \<Longrightarrow> a dvd b"
  by (auto simp: comp_size_def)

text \<open>The parts of a vertex that are present: offset, element size, number of elements.\<close>

definition part :: "nat \<Rightarrow> nat \<Rightarrow> nat option \<Rightarrow> (nat \<times> nat \<times> nat) list" where
  "part s n off = (case off of None \<Rightarrow> [] | Some o1 \<Rightarrow> [(o1, s, n)])"

definition comps_fit :: "nat \<Rightarrow> nat \<Rightarrow> (nat \<times> nat \<times> nat) list \<Rightarrow> bool" where
  "comps_fit al lim ps \<longleftrightarrow> comp_size al \<and>
     (\<forall>(o1, s, n)\<in>set ps. comp_size s \<and> s \<le> al \<and> s dvd o1 \<and> o1 + s * n \<le> lim) \<and>
     sorted_wrt (\<lambda>(o1, s, n) (o2, s', n'). o1 + s * n \<le> o2) ps"

lemma comps_fit_place:
  assumes "comps_fit al off ps" and "s = 0 \<or> comp_size s" and "place_comp s n off al = (o1, off', al')"
  shows "comps_fit al' off' (ps @ part s n o1)"
proof (cases "s = 0")
  case True
  then show ?thesis using assms by (simp add: place_comp_def part_def)
next
  case False
  then have s: "comp_size s" "0 < s" using assms(2) by auto
  have e: "o1 = Some (align_comp off s)" "off' = align_comp off s + s * n" "al' = max al s"
    using assms(3) False by (auto simp: place_comp_def)
  have "comp_size (max al s)" using assms(1) s by (simp add: comps_fit_def max_def)
  moreover have "o2 + s' * n' \<le> align_comp off s" "s' \<le> max al s" if "(o2, s', n') \<in> set ps" for o2 s' n'
    using assms(1) that align_comp_props(2) [OF s(2), of off] by (fastforce simp: comps_fit_def)+
  ultimately show ?thesis
    using assms(1) s align_comp_props(1) [OF s(2)] by (fastforce simp: comps_fit_def e part_def sorted_wrt_append)
qed

lemma vt_field_less: "vt_field v s 3 < 4" "vt_field v s 7 < 8" "vt_field v s 1 < 2"
  using and_mask_unat [of "drop_bit s v" 2] and_mask_unat [of "drop_bit s v" 3] and_mask_unat [of "drop_bit s v" 1]
  by (simp_all add: vt_field_def mask_eq_exp_minus_1)

lemma size_tables:
  "i < 4 \<Longrightarrow> [0, 1, 2, 4 :: nat] ! i = 0 \<or> comp_size ([0, 1, 2, 4] ! i)"
  "j < 8 \<Longrightarrow> [0, 0, 0, 0, 2, 2, 2, 4 :: nat] ! j = 0 \<or> comp_size ([0, 0, 0, 0, 2, 2, 2, 4] ! j)"
  by (auto simp: comp_size_def less_Suc_eq numeral_eq_Suc)

text \<open>
  C35. The layout of a vertex. When a vertex type is accepted, its components lie one after the
  other without overlap, each at a multiple of its element size, the stride is a positive multiple of
  every element size, and the whole vertex comps_fit in it; so every component of every vertex of an array
  that starts at an aligned address is aligned.
\<close>
theorem vertex_layout_sound:
  assumes "vertex_layout v = Some (stride, tex, col, nrm, pos)"
  defines "ps \<equiv> part ([0, 1, 2, 4] ! VT_TEX v) 2 tex @ part ([0, 0, 0, 0, 2, 2, 2, 4] ! VT_COLOR v) 1 col @
    part ([0, 1, 2, 4] ! VT_NORMAL v) 3 nrm @ part ([0, 1, 2, 4] ! VT_POS v) 3 (Some pos)"
  shows "(\<forall>(o1, s, n)\<in>set ps. 0 < s \<and> s dvd o1 \<and> s dvd stride \<and> o1 + s * n \<le> stride) \<and>
    sorted_wrt (\<lambda>(o1, s, n) (o2, s', n'). o1 + s * n \<le> o2) ps \<and> 0 < stride"
proof -
  define ts cs ns psz where "ts = [0, 1, 2, 4 :: nat] ! VT_TEX v" and "cs = [0, 0, 0, 0, 2, 2, 2, 4 :: nat] ! VT_COLOR v"
    and "ns = [0, 1, 2, 4 :: nat] ! VT_NORMAL v" and "psz = [0, 1, 2, 4 :: nat] ! VT_POS v"
  note sz = size_tables(1) [OF vt_field_less(1) [of v 0]] size_tables(2) [OF vt_field_less(2) [of v 2]]
    size_tables(1) [OF vt_field_less(1) [of v 5]] size_tables(1) [OF vt_field_less(1) [of v 7]]
  obtain tex' o1 a1 where 1: "place_comp ts 2 0 1 = (tex', o1, a1)" by (rule prod_cases3)
  obtain col' o2 a2 where 2: "place_comp cs 1 o1 a1 = (col', o2, a2)" by (rule prod_cases3)
  obtain nrm' o3 a3 where 3: "place_comp ns 3 o2 a2 = (nrm', o3, a3)" by (rule prod_cases3)
  obtain pos' o4 a4 where 4: "place_comp psz 3 o3 a3 = (pos', o4, a4)" by (rule prod_cases3)
  have r: "psz \<noteq> 0" "stride = align_comp o4 a4" "tex' = tex" "col' = col" "nrm' = nrm" "the pos' = pos"
    using assms(1) by (simp_all del: One_nat_def add: vertex_layout_def Let_def ts_def [symmetric] cs_def [symmetric]
        ns_def [symmetric] psz_def [symmetric] 1 2 3 4 split: if_splits)
  have "pos' \<noteq> None" using 4 r(1) by (auto simp: place_comp_def)
  then have pos: "pos' = Some pos" using r(6) by auto
  have "comps_fit 1 0 []" by (simp add: comps_fit_def comp_size_def)
  from comps_fit_place [OF this _ 1] have "comps_fit a1 o1 (part ts 2 tex)" using sz(1) r by (simp add: ts_def)
  from comps_fit_place [OF this _ 2] have "comps_fit a2 o2 (part ts 2 tex @ part cs 1 col)" using sz(2) r by (simp add: cs_def)
  from comps_fit_place [OF this _ 3] have "comps_fit a3 o3 (part ts 2 tex @ part cs 1 col @ part ns 3 nrm)"
    using sz(3) r by (simp add: ns_def)
  from comps_fit_place [OF this _ 4] have F: "comps_fit a4 o4 ps"
    using sz(4) pos by (simp add: ps_def psz_def ts_def cs_def ns_def)
  have a4: "comp_size a4" "0 < a4" using F by (auto simp: comps_fit_def comp_size_def)
  note al = align_comp_props [OF a4(2), of o4]
  have el: "0 < s \<and> s dvd o1 \<and> s dvd stride \<and> o1 + s * n \<le> stride" if "(o1, s, n) \<in> set ps" for o1 s n
  proof -
    have "comp_size s" "s \<le> a4" "s dvd o1" "o1 + s * n \<le> o4" using F that by (auto simp: comps_fit_def)
    then show ?thesis using comp_size_dvd [OF _ a4(1)] al r(2) by (auto simp: comp_size_def intro: dvd_trans)
  qed
  moreover have "0 < stride"
  proof -
    have "(pos, psz, 3) \<in> set ps" by (simp add: ps_def part_def psz_def)
    from el [OF this] show ?thesis by auto
  qed
  ultimately show ?thesis using F by (auto simp: comps_fit_def)
qed

theorem vertex_layout_sound_witness:
  "list_all (\<lambda>(o1, s, n). 0 < s \<and> s dvd o1 \<and> s dvd (16 :: nat) \<and> o1 + s * n \<le> 16) [(0, 2, 2), (4, 4, 1), (8, 2, 3)]"
proof -
  have v: "vertex_layout 0x11E = Some (16, Some 0, Some 4, None, 8)"
    by (simp add: vertex_layout_def Let_def vt_field_def place_comp_def align_comp_def)
  have e: "part ([0, 1, 2, 4] ! VT_TEX 0x11E) 2 (Some 0) @ part ([0, 0, 0, 0, 2, 2, 2, 4] ! VT_COLOR 0x11E) 1 (Some 4) @
      part ([0, 1, 2, 4] ! VT_NORMAL 0x11E) 3 None @ part ([0, 1, 2, 4] ! VT_POS 0x11E) 3 (Some 8) =
    [(0, 2, 2), (4, 4, 1), (8, 2, 3)]"
    by (simp add: part_def vt_field_def)
  show ?thesis unfolding list_all_iff by (rule conjunct1 [OF vertex_layout_sound [OF v], unfolded e])
qed

section \<open>What the commands keep\<close>

text \<open>No command reaches the queue or the id counter, and the readers change nothing but the machine.\<close>

definition same_queue :: "gpu \<Rightarrow> gpu \<Rightarrow> bool" where
  "same_queue G G' \<longleftrightarrow> g_queue (gs G') = g_queue (gs G) \<and> ge_next_id (gs G') = ge_next_id (gs G)"

named_theorems gpu_frame

lemma same_queue_refl [simp]: "same_queue G G" by (simp add: same_queue_def)

lemma same_queue_trans: "same_queue G G' \<Longrightarrow> same_queue G' G'' \<Longrightarrow> same_queue G G''"
  by (simp add: same_queue_def)

lemma rd_gs [gpu_frame]:
  "gs (snd (ge_rd8 a G)) = gs G" "gs (snd (ge_rd16 a G)) = gs G" "gs (snd (ge_rd32 a G)) = gs G" "gs (snd (ge_rdf a G)) = gs G"
  by (simp_all add: ge_rd8_def ge_rd16_def ge_rd32_def ge_rdf_def split: prod.split)

lemma read_comp_gs [gpu_frame]: "gs (snd (read_comp a fmt raw i G)) = gs G"
  using rd_gs by (simp add: read_comp_def Let_def split: prod.split) (metis snd_conv)

lemma read3_gs [gpu_frame]: "gs (snd (read3 a fmt raw G)) = gs G"
  using read_comp_gs by (simp add: read3_def split: prod.split) (metis snd_conv)

lemma read_uv_gs [gpu_frame]: "gs (snd (snd (read_uv t fmt th G))) = gs G"
  using rd_gs by (simp add: read_uv_def Let_def split: prod.split) (metis snd_conv)

lemma vertex_color_gs [gpu_frame]: "gs (snd (vertex_color a vt col G)) = gs G"
  using rd_gs by (simp add: vertex_color_def split: option.split prod.split) (metis snd_conv)

lemma vertex_uv_gs [gpu_frame]: "gs (snd (snd (vertex_uv a vt tex G))) = gs G"
  using read_uv_gs by (simp add: vertex_uv_def Let_def split: option.split prod.split) (metis snd_conv)

lemma upd_same [gpu_frame]:
  "same_queue G (upd_xf f G)" "same_queue G (upd_track h G)" "same_queue G (upd_ds k G)" "same_queue G (unsupported n G)"
  "same_queue G (draw_backend p vs G)" "same_queue G (set_target G)" "same_queue G (G\<lparr>gm := M\<rparr>)" "same_queue G (gret x G)"
  by (simp_all add: same_queue_def upd_xf_def upd_track_def unsupported_def draw_backend_def set_target_def gret_def
      split: prod.split)

lemma gs_same: "gs G' = gs G \<Longrightarrow> same_queue G G'" by (simp add: same_queue_def)

lemma reader_dests:
  "ge_rd16 a G = (x, G') \<Longrightarrow> gs G' = gs G" "read3 a fmt raw G = (p, G') \<Longrightarrow> gs G' = gs G"
  "vertex_color a vt col G = (c, G') \<Longrightarrow> gs G' = gs G" "vertex_uv a vt tex G = (u, v, G') \<Longrightarrow> gs G' = gs G"
  using rd_gs(2) [of a G] read3_gs [of a fmt raw G] vertex_color_gs [of a vt col G] vertex_uv_gs [of a vt tex G]
  by auto

lemma read_vertex_same: "same_queue G (snd (read_vertex L a vt tex col nrm pos G))"
  by (auto simp: read_vertex_def Let_def same_queue_def upd_xf_def split: option.split prod.split dest!: reader_dests)

lemma read_index_gs [gpu_frame]: "gs (snd (read_index isz b n G)) = gs G"
  by (simp add: read_index_def rd_gs)

lemma read_vertices_same:
  assumes "\<And>n G. same_queue G (snd (f n G))"
  shows "same_queue G (snd (read_vertices f ns G))"
proof (induction ns arbitrary: G)
  case (Cons n ns)
  obtain v G1 where 1: "f n G = (v, G1)" by fastforce
  obtain vs G2 where 2: "read_vertices f ns G1 = (vs, G2)" by fastforce
  from assms [of G n] Cons [of G1] show ?case by (auto simp: 1 2 intro: same_queue_trans)
qed simp

lemma read_vertices_dest:
  assumes "\<And>n G. same_queue G (snd (f n G))" and "read_vertices f ns G = (vs, G1)"
  shows "same_queue G G1"
  using read_vertices_same [of f G ns, OF assms(1)] assms(2) by simp

lemma draw_prim_same [gpu_frame]: "same_queue G (draw_prim L prim cnt G)"
proof -
  have v: "same_queue G' (snd (let (i, G'') = read_index isz b n G'
      in read_vertex L (va + i * of_nat stride) vt tex col nrm pos G''))" for isz b n G' va stride vt tex col nrm pos
  proof -
    obtain i G'' where r: "read_index isz b n G' = (i, G'')" by fastforce
    have "same_queue G' G''" using read_index_gs [of isz b n G'] r by (simp add: gs_same)
    from same_queue_trans [OF this read_vertex_same] show ?thesis by (simp add: r)
  qed
  have w: "same_queue G G1" if "read_vertices (\<lambda>n G'. let (i, G'') = read_index isz b n G'
      in read_vertex L (va + i * of_nat stride) vt tex col nrm pos G'') ns G = (vs, G1)"
    for isz b va stride vt tex col nrm pos ns vs G1
    by (rule read_vertices_dest [OF v that])
  show ?thesis
  proof (cases "vertex_layout (t_vtype (g_ge (gs G)))")
    case None
    then show ?thesis by (simp add: draw_prim_def Let_def upd_same)
  next
    case (Some lay)
    obtain stride tex col nrm pos where lay: "lay = (stride, tex, col, nrm, pos)" by (cases lay)
    obtain vs G1 where r: "read_vertices (\<lambda>n G'. let (i, G'') = read_index ([0, 1, 2, 4] ! VT_INDEX (t_vtype (g_ge (gs G)))) (t_iaddr (g_ge (gs G))) n G'
        in read_vertex L (t_vaddr (g_ge (gs G)) + i * of_nat stride) (t_vtype (g_ge (gs G))) tex col nrm pos G'') [0..<cnt] G = (vs, G1)"
      by fastforce
    note s1 = same_queue_trans [OF w [OF r] upd_same(2)]
    note s2 = same_queue_trans [OF s1 upd_same(5)]
    show ?thesis
      unfolding draw_prim_def Let_def Some lay option.case prod.case r [unfolded Let_def]
      using s1 s2 upd_same(4) by (simp only: split: if_split) blast
  qed
qed

lemma load_clut_same [gpu_frame]: "same_queue G (load_clut is G)"
proof (induction "is" arbitrary: G)
  case (Cons i "is")
  obtain b M where r: "psp_read8 (g_cbp (gs G) + of_nat i) (gm G) = (b, M)" by fastforce
  let ?c = "(g_clut (gs G))[i := b]"
  let ?G = "G\<lparr>gm := M, gs := (gs G)\<lparr>g_clut := ?c, g_ds := (g_ds (gs G))\<lparr>clut := Some ?c\<rparr>\<rparr>\<rparr>"
  have "same_queue G ?G" by (simp add: same_queue_def)
  from same_queue_trans [OF this Cons] show ?case by (simp add: r Let_def)
qed simp

lemma word_cmd_same: "word_cmd cmd arg G = Some G' \<Longrightarrow> same_queue G G'"
  by (auto simp: word_cmd_def Let_def depth_target_def same_queue_def upd_track_def set_target_def
      load_clut_same [unfolded same_queue_def] split: if_splits)

lemma state_cmd_same [gpu_frame]: "same_queue G (state_cmd cmd arg G)"
  by (auto simp: state_cmd_def same_queue_def upd_xf_def upd_track_def split: option.split
      dest: word_cmd_same [unfolded same_queue_def])

section \<open>The walk in two parts\<close>

definition with_stall :: "u32 \<Rightarrow> ge_cursor \<Rightarrow> ge_cursor" where
  "with_stall s c = c\<lparr>c_q := (c_q c)\<lparr>q_stall := s\<rparr>\<rparr>"

lemma with_stall_simps [simp]:
  "with_stall s (with_stall t c) = with_stall s c" "q_stall (c_q (with_stall s c)) = s"
  "q_list (c_q (with_stall s c)) = q_list (c_q c)" "q_done (c_q (with_stall s c)) = q_done (c_q c)"
  "c_stack (with_stall s c) = c_stack c"
  by (simp_all add: with_stall_def)

lemma ge_step_stall:
  "ge_step L (with_stall s c) G = (case ge_step L c G of (c1, G1, stop) \<Rightarrow> (with_stall s c1, G1, stop))"
  by (simp add: ge_step_def Let_def with_stall_def split: prod.split list.split)

text \<open>What a step keeps: the identity of the queue entry, its stall address, and the queue of the device.\<close>

lemma ge_step_keeps:
  assumes "ge_step L c G = (c1, G1, stop)"
  shows "q_id (c_q c1) = q_id (c_q c)" "q_stall (c_q c1) = q_stall (c_q c)" "same_queue G G1"
    "stop \<Longrightarrow> q_done (c_q c1) \<and> \<not> q_used (c_q c1)"
    "\<not> stop \<Longrightarrow> q_done (c_q c1) = q_done (c_q c) \<and> q_used (c_q c1) = q_used (c_q c)"
proof -
  obtain w Gr where r: "ge_rd32 (q_list (c_q c)) G = (w, Gr)" by fastforce
  have "same_queue G Gr" using rd_gs(3) [of "q_list (c_q c)" G] r by (simp add: gs_same)
  from same_queue_trans [OF this upd_same(2)]
  have t: "same_queue G (upd_track f Gr)" for f .
  note tt = same_queue_trans [OF t]
  note steps = t tt [OF upd_same(2)] tt [OF state_cmd_same] tt [OF same_queue_trans [OF upd_same(2) draw_prim_same]]
  have "same_queue G (fst (snd (ge_step L c G)))"
    unfolding ge_step_def Let_def r prod.case if_distrib [of "\<lambda>x. same_queue G (fst (snd x))"]
    by (simp only: fst_conv snd_conv steps if_cancel list.case_distrib [of "\<lambda>x. same_queue G (fst (snd x))"] split: list.split)
      (simp add: steps)
  then show "same_queue G G1" using assms by simp
  show "q_id (c_q c1) = q_id (c_q c)" "q_stall (c_q c1) = q_stall (c_q c)"
    "stop \<Longrightarrow> q_done (c_q c1) \<and> \<not> q_used (c_q c1)"
    "\<not> stop \<Longrightarrow> q_done (c_q c1) = q_done (c_q c) \<and> q_used (c_q c1) = q_used (c_q c)"
    using assms unfolding ge_step_def Let_def r by (auto split: if_splits list.splits)
qed

abbreviation stalled :: "ge_cursor \<Rightarrow> bool" where
  "stalled c \<equiv> q_stall (c_q c) \<noteq> 0 \<and> q_list (c_q c) = q_stall (c_q c)"

lemma ge_run_step:
  assumes "\<not> stalled c" and "ge_step L c G = (c2, G2, stop)"
  shows "ge_run L (Suc n) c G = (if stop then (c2, G2) else ge_run L n c2 G2)"
  unfolding ge_run.simps if_not_P [OF assms(1)] assms(2) Let_def prod.case ..

lemma ge_run_keeps:
  assumes "ge_run L n c G = (c1, G1)" and "q_used (c_q c) \<longleftrightarrow> \<not> q_done (c_q c)"
  shows "q_id (c_q c1) = q_id (c_q c) \<and> q_stall (c_q c1) = q_stall (c_q c) \<and> same_queue G G1 \<and>
    (q_used (c_q c1) \<longleftrightarrow> \<not> q_done (c_q c1))"
  using assms
proof (induction n arbitrary: c G)
  case (Suc n)
  obtain c2 G2 stop where s: "ge_step L c G = (c2, G2, stop)" by (rule prod_cases3)
  note k = ge_step_keeps [OF s]
  consider "stalled c" | "\<not> stalled c" "stop" | "\<not> stalled c" "\<not> stop" by blast
  then show ?case
  proof cases
    case 1
    then show ?thesis using Suc.prems by simp
  next
    case 2
    then have "c1 = c2" "G1 = G2" using Suc.prems(1) ge_run_step [OF 2(1) s, of n] by simp_all
    then show ?thesis using k(1-4) 2(2) by simp
  next
    case 3
    then have "ge_run L n c2 G2 = (c1, G1)" using Suc.prems(1) ge_run_step [OF 3(1) s, of n] by simp
    moreover have "q_used (c_q c2) = (\<not> q_done (c_q c2))" using k(5) 3(2) Suc.prems(2) by simp
    ultimately show ?thesis using Suc.IH [of c2 G2] k(1-3) same_queue_trans [OF k(3)] by simp
  qed
qed simp

lemma ge_run_keeps_id: "ge_run L n c G = (c1, G1) \<Longrightarrow> q_stall (c_q c1) = q_stall (c_q c)"
proof (induction n arbitrary: c G)
  case (Suc n)
  obtain c2 G2 stop where s: "ge_step L c G = (c2, G2, stop)" by (rule prod_cases3)
  show ?case using Suc ge_step_keeps(2) [OF s] by (cases "stalled c"; cases stop) (auto simp: s)
qed simp

text \<open>A walk that ended the list, or stands at the stall address, does the same with any larger budget.\<close>

lemma ge_run_more:
  assumes "ge_run L n c G = (c1, G1)" "q_done (c_q c1) \<or> stalled c1" "\<not> q_done (c_q c)" "n \<le> m"
  shows "ge_run L m c G = (c1, G1)"
  using assms
proof (induction n arbitrary: c G m)
  case 0
  then show ?case by (cases m) auto
next
  case (Suc n)
  then obtain m' where m: "m = Suc m'" "n \<le> m'" by (cases m) auto
  obtain c2 G2 stop where s: "ge_step L c G = (c2, G2, stop)" by (rule prod_cases3)
  show ?case
    using Suc m ge_step_keeps(5) [OF s] by (cases "stalled c"; cases stop) (auto simp: s m(1))
qed

lemma ge_run_budget:
  assumes "q_done (c_q (fst (ge_run L n c G))) \<or> stalled (fst (ge_run L n c G))" "\<not> q_done (c_q c)" "n \<le> m"
  shows "ge_run L m c G = ge_run L n c G"
  using ge_run_more [of L n c G "fst (ge_run L n c G)" "snd (ge_run L n c G)" m] assms by simp

lemma ge_run_two_parts:
  assumes "ge_run L n (with_stall 0 c) G = (c2, G2)" "q_done (c_q c2)" "\<not> q_done (c_q c)"
    "ge_run L n (with_stall s c) G = (c1, G1)" "\<not> q_done (c_q c1)"
  shows "ge_run L n (with_stall 0 c1) G1 = (c2, G2)"
  using assms
proof (induction n arbitrary: c G)
  case (Suc n)
  obtain c' G' stop where s: "ge_step L c G = (c', G', stop)" by (rule prod_cases3)
  have s0: "ge_step L (with_stall t c) G = (with_stall t c', G', stop)" for t by (simp add: ge_step_stall s)
  show ?case
  proof (cases "stalled (with_stall s c)")
    case True
    then show ?thesis using Suc.prems by auto
  next
    case False
    then have "\<not> stop" using Suc.prems(4,5) ge_step_keeps(4) [OF s0 [of s]] ge_run_step [OF False s0, of n] by auto
    then have "ge_run L n (with_stall 0 c') G' = (c2, G2)" "ge_run L n (with_stall s c') G' = (c1, G1)"
      using Suc.prems(1,4) ge_run_step [OF False s0, of n] ge_run_step [OF _ s0 [of 0], of n] \<open>\<not> stop\<close> by simp_all
    moreover have "\<not> q_done (c_q c')" using ge_step_keeps(5) [OF s] \<open>\<not> stop\<close> Suc.prems(3) by simp
    ultimately have "ge_run L n (with_stall 0 c1) G1 = (c2, G2)" using Suc.prems(2,5) by (intro Suc.IH [of c' G'])
    from ge_run_more [OF this disjI1 [OF Suc.prems(2)] _ le_SucI [OF order_refl]] show ?thesis using Suc.prems(5) by simp
  qed
qed auto

text \<open>
  C2. Feeding a display list in parts. Take a list that, read without a stall address, ends within
  the budget. Reading it with any stall address first, and then resuming what is left with an empty
  call stack, as \<open>sceGeListUpdateStallAddr\<close> does, reaches the same end: the same cursor, the same
  interpreter state, the same pixels and the same memory, provided the stall did not fall
  inside a called sub-list.
\<close>
theorem ge_list_in_two_parts:
  assumes "ge_run L n \<lparr>c_q = q\<lparr>q_stall := 0\<rparr>, c_stack = []\<rparr> G = (c2, G2)" and "q_done (c_q c2)"
    and "\<not> q_done q" and "ge_run L n \<lparr>c_q = q\<lparr>q_stall := s\<rparr>, c_stack = []\<rparr> G = (c1, G1)"
    and "\<not> q_done (c_q c1)" and "c_stack c1 = []"
  shows "ge_run L n \<lparr>c_q = (c_q c1)\<lparr>q_stall := 0\<rparr>, c_stack = []\<rparr> G1 = (c2, G2)"
proof -
  let ?c = "\<lparr>c_q = q, c_stack = []\<rparr>"
  have "with_stall t ?c = \<lparr>c_q = q\<lparr>q_stall := t\<rparr>, c_stack = []\<rparr>" for t by (simp add: with_stall_def)
  moreover have "with_stall 0 c1 = \<lparr>c_q = (c_q c1)\<lparr>q_stall := 0\<rparr>, c_stack = []\<rparr>"
    using assms(6) by (simp add: with_stall_def)
  ultimately show ?thesis using ge_run_two_parts [of L n ?c G c2 G2 s c1 G1] assms by simp
qed

section \<open>A list with a sub-list\<close>

text \<open>
  A machine whose memory starts with the words \<open>ws\<close> and whose first two arguments are \<open>a\<close> and \<open>b\<close>.
  The list \<open>call_list\<close> calls the sub-list at its fifth word (a colour and a return) and then finishes;
  behind the sub-list stands an \<^verbatim>\<open>END\<close>.
\<close>

definition with_words :: "u32 list \<Rightarrow> gpu" where
  "with_words ws = \<lparr>gs = ge_reset_state, gr = fst blank_screen,
     gm = boot_machine\<lparr>mem := boot_mem\<lparr>store := (\<lambda>_ i. if i < 4 * length ws then bytes_of_word 4 (ws ! (i div 4)) ! (i mod 4) else 0)\<rparr>\<rparr>\<rparr>"

definition with_args :: "u32 \<Rightarrow> u32 \<Rightarrow> gpu \<Rightarrow> gpu" where
  "with_args a b G = G\<lparr>gm := (gm G)\<lparr>cpu := (cpu (gm G))\<lparr>gpr := (gpr (cpu (gm G)))[PSP_REG_A0 := a, PSP_REG_A0 + 1 := b]\<rparr>\<rparr>\<rparr>"

definition call_list :: "u32 list" where
  "call_list = [0x10080000, 0x0A000010, 0x0F000000, 0, 0x55123456, 0x0B000000, 0x0C000000]"

definition first_cursor :: "u32 \<Rightarrow> ge_cursor" where
  "first_cursor s = \<lparr>c_q = new_queue GE_FIRST_ID 0x08000000 s, c_stack = []\<rparr>"

lemma call_list_runs:
  "q_done (c_q (fst (ge_run L 6 (first_cursor 0) (with_words call_list))))"
  by code_simp

lemma ge_budget_bound: "6 \<le> GE_BUDGET" by simp

text \<open>The same witness list, read to the second word and resumed.\<close>

theorem ge_list_in_two_parts_witness:
  "\<forall>L. ge_run L 6 \<lparr>c_q = (c_q (fst (ge_run L 6 (first_cursor 0x08000004) (with_words call_list))))\<lparr>q_stall := 0\<rparr>, c_stack = []\<rparr>
     (snd (ge_run L 6 (first_cursor 0x08000004) (with_words call_list))) =
   ge_run L 6 (first_cursor 0) (with_words call_list)"
proof
  fix L
  let ?q = "new_queue GE_FIRST_ID 0x08000000 0"
  have c: "first_cursor s = \<lparr>c_q = ?q\<lparr>q_stall := s\<rparr>, c_stack = []\<rparr>" if "s AND NOT 3 = s" for s
    using that by (simp add: first_cursor_def new_queue_def)
  have c0: "first_cursor 0 = \<lparr>c_q = ?q\<lparr>q_stall := 0\<rparr>, c_stack = []\<rparr>"
    "first_cursor 0x08000004 = \<lparr>c_q = ?q\<lparr>q_stall := 0x08000004\<rparr>, c_stack = []\<rparr>"
    by (rule c, simp)+
  have d: "\<not> q_done (c_q (fst (ge_run L 6 (first_cursor 0x08000004) (with_words call_list))))"
    "c_stack (fst (ge_run L 6 (first_cursor 0x08000004) (with_words call_list))) = []"
    by code_simp+
  have n: "\<not> q_done ?q" by (simp add: new_queue_def no_queue_def)
  show "ge_run L 6 \<lparr>c_q = (c_q (fst (ge_run L 6 (first_cursor 0x08000004) (with_words call_list))))\<lparr>q_stall := 0\<rparr>, c_stack = []\<rparr>
      (snd (ge_run L 6 (first_cursor 0x08000004) (with_words call_list))) =
    ge_run L 6 (first_cursor 0) (with_words call_list)"
    using ge_list_in_two_parts [of L 6 ?q "with_words call_list" "fst (ge_run L 6 (first_cursor 0) (with_words call_list))"
        "snd (ge_run L 6 (first_cursor 0) (with_words call_list))" "0x08000004"
        "fst (ge_run L 6 (first_cursor 0x08000004) (with_words call_list))"
        "snd (ge_run L 6 (first_cursor 0x08000004) (with_words call_list))"]
      call_list_runs d n by (simp add: c0)
qed

section \<open>The call stack across a stall\<close>

text \<open>What the firmware calls leave of the counters, for lists whose walk is over within six commands.\<close>

definition walk6 :: "libm \<Rightarrow> nat \<Rightarrow> gpu \<Rightarrow> ge_cursor \<times> gpu" where
  "walk6 L i G = ge_run L 6 \<lparr>c_q = g_queue (gs G) ! i, c_stack = []\<rparr> (upd_track (\<lambda>T. T\<lparr>t_lists := t_lists T + 1\<rparr>) G)"

definition run_list6 :: "libm \<Rightarrow> nat \<Rightarrow> gpu \<Rightarrow> gpu" where
  "run_list6 L i G =
     (let (c, G1) = walk6 L i G in G1\<lparr>gs := (gs G1)\<lparr>g_queue := (g_queue (gs G1))[i := c_q c]\<rparr>\<rparr>)"

lemma run_list_short:
  assumes "q_done (c_q (fst (walk6 L i G))) \<or> stalled (fst (walk6 L i G))" and "\<not> q_done (g_queue (gs G) ! i)"
  shows "run_list L i G = run_list6 L i G"
  using ge_run_budget [OF assms(1) [unfolded walk6_def] _ ge_budget_bound] assms(2)
  by (simp add: run_list_def run_list6_def walk6_def)

text \<open>The two firmware calls on the first slot of the queue.\<close>

definition submit :: "u32 \<Rightarrow> gpu \<Rightarrow> gpu" where
  "submit s G = G\<lparr>gs := (gs G)\<lparr>g_queue := (g_queue (gs G))[0 := new_queue GE_FIRST_ID 0x08000000 s],
     ge_next_id := GE_FIRST_ID + 1\<rparr>\<rparr>"

definition resume :: "gpu \<Rightarrow> gpu" where
  "resume G = G\<lparr>gs := (gs G)\<lparr>g_queue := (g_queue (gs G))[0 := (g_queue (gs G) ! 0)\<lparr>q_stall := 0\<rparr>]\<rparr>\<rparr>"

abbreviation demo :: "u32 \<Rightarrow> gpu" where "demo s \<equiv> with_args 0x08000000 s (with_words call_list)"

lemma demo_slot:
  "find_index (\<lambda>q. \<not> q_used q) (g_queue (gs (demo 0))) = Some 0"
  "find_index (\<lambda>q. \<not> q_used q) (g_queue (gs (demo 0x08000014))) = Some 0"
  "ge_next_id (gs (demo 0)) = GE_FIRST_ID" "ge_next_id (gs (demo 0x08000014)) = GE_FIRST_ID"
  "garg 0 (demo 0) = 0x08000000" "garg 0 (demo 0x08000014) = 0x08000000"
  "garg 1 (demo 0) = 0" "garg 1 (demo 0x08000014) = 0x08000014"
  by code_simp+

lemma demo_whole: "hle_ListEnQueue L (demo 0) = gret GE_FIRST_ID (run_list6 L 0 (submit 0 (demo 0)))"
proof -
  have "q_done (c_q (fst (walk6 L 0 (submit 0 (demo 0)))))" "\<not> q_done (g_queue (gs (submit 0 (demo 0))) ! 0)"
    by code_simp+
  then show ?thesis
    using run_list_short [of L 0 "submit 0 (demo 0)"]
    by (simp del: One_nat_def add: hle_ListEnQueue_def enqueue_def Let_def demo_slot submit_def)
qed

definition half :: "libm \<Rightarrow> gpu" where
  "half L = gret GE_FIRST_ID (run_list6 L 0 (submit 0x08000014 (demo 0x08000014)))"

lemma demo_half: "hle_ListEnQueue L (demo 0x08000014) = half L"
proof -
  have "stalled (fst (walk6 L 0 (submit 0x08000014 (demo 0x08000014))))"
    "\<not> q_done (g_queue (gs (submit 0x08000014 (demo 0x08000014))) ! 0)"
    by code_simp+
  then show ?thesis
    using run_list_short [of L 0 "submit 0x08000014 (demo 0x08000014)"]
    by (simp del: One_nat_def add: hle_ListEnQueue_def enqueue_def Let_def demo_slot submit_def half_def)
qed

lemma demo_rest:
  "hle_ListUpdateStallAddr L (with_args GE_FIRST_ID 0 (half L)) =
     gret SCE_KERNEL_ERROR_OK (run_list6 L 0 (resume (with_args GE_FIRST_ID 0 (half L))))"
proof -
  have "q_done (c_q (fst (walk6 L 0 (resume (with_args GE_FIRST_ID 0 (half L))))))"
    "\<not> q_done (g_queue (gs (resume (with_args GE_FIRST_ID 0 (half L)))) ! 0)"
    "find_queue (garg 0 (with_args GE_FIRST_ID 0 (half L))) (gs (with_args GE_FIRST_ID 0 (half L))) = Some 0"
    "garg 1 (with_args GE_FIRST_ID 0 (half L)) = 0" "\<not> q_done (g_queue (gs (with_args GE_FIRST_ID 0 (half L))) ! 0)"
    by code_simp+
  then show ?thesis
    using run_list_short [of L 0 "resume (with_args GE_FIRST_ID 0 (half L))"]
    by (simp del: One_nat_def add: hle_ListUpdateStallAddr_def Let_def resume_def)
qed

text \<open>
  Releasing the list \<open>call_list\<close>: submitted whole, it returns from its sub-list and reaches its
  \<^verbatim>\<open>FINISH\<close>; submitted with a stall address inside the sub-list and then released, it runs on past the
  sub-list and ends at the \<^verbatim>\<open>END\<close> behind it without ever reaching its \<^verbatim>\<open>FINISH\<close>.
\<close>

lemma demo_stall:
  "(let whole = hle_ListEnQueue L (demo 0);
        rest = hle_ListUpdateStallAddr L (with_args GE_FIRST_ID 0 (hle_ListEnQueue L (demo 0x08000014)))
    in t_finishes (g_ge (gs whole)) = 1 \<and> q_list (g_queue (gs whole) ! 0) = 0x0800000C \<and>
       t_finishes (g_ge (gs rest)) = 0 \<and> q_list (g_queue (gs rest) ! 0) = 0x0800001C \<and>
       q_done (g_queue (gs whole) ! 0) \<and> q_done (g_queue (gs rest) ! 0))"
proof -
  have "t_finishes (g_ge (gs (gret GE_FIRST_ID (run_list6 L 0 (submit 0 (demo 0)))))) = 1"
    "q_list (g_queue (gs (gret GE_FIRST_ID (run_list6 L 0 (submit 0 (demo 0))))) ! 0) = 0x0800000C"
    "q_done (g_queue (gs (gret GE_FIRST_ID (run_list6 L 0 (submit 0 (demo 0))))) ! 0)"
    "t_finishes (g_ge (gs (gret SCE_KERNEL_ERROR_OK (run_list6 L 0 (resume (with_args GE_FIRST_ID 0 (half L))))))) = 0"
    "q_list (g_queue (gs (gret SCE_KERNEL_ERROR_OK (run_list6 L 0 (resume (with_args GE_FIRST_ID 0 (half L)))))) ! 0) = 0x0800001C"
    "q_done (g_queue (gs (gret SCE_KERNEL_ERROR_OK (run_list6 L 0 (resume (with_args GE_FIRST_ID 0 (half L)))))) ! 0)"
    by code_simp+
  then show ?thesis by (simp only: demo_whole demo_half demo_rest Let_def simp_thms)
qed

text \<open>A return: to the innermost pending call, or, with none, on to the next word.\<close>

lemma ge_step_ret:
  assumes "ge_rd32 (q_list q) G = (w, Gr)" "drop_bit 24 w = 0x0B"
  shows "ge_step L \<lparr>c_q = q, c_stack = st\<rparr> G =
    (case st of [] \<Rightarrow> \<lparr>c_q = q\<lparr>q_list := q_list q + 4\<rparr>, c_stack = []\<rparr>
       | r # rs \<Rightarrow> \<lparr>c_q = q\<lparr>q_list := r\<rparr>, c_stack = rs\<rparr>,
     upd_track (\<lambda>T. T\<lparr>t_commands := t_commands T + 1\<rparr>) Gr, False)"
  by (simp add: ge_step_def assms Let_def split: list.split)

text \<open>
  C36. The call stack of a list does not survive a stall. Take any list that is waiting at a stall address
  where the word is a \<^verbatim>\<open>RET\<close>, and release it with sceGeListUpdateStallAddr. A walk that still had
  the return addresses it pushed would go on at the innermost one, whatever they are; the release
  instead walks on at the word behind the \<^verbatim>\<open>RET\<close> with no call pending, and that is where the
  list's slot and the machine end up. (In both cases \<open>H\<close> is the state after the \<^verbatim>\<open>RET\<close> was read.)
\<close>
theorem stall_forgets_calls:
  assumes "find_queue (garg 0 G) (gs G) = Some i" and "\<not> q_done (g_queue (gs G) ! i)"
    and "s = garg 1 G AND NOT 3" and "s = 0 \<or> q_list (g_queue (gs G) ! i) \<noteq> s"
    and "drop_bit 24 (fst (ge_rd32 (q_list (g_queue (gs G) ! i)) G)) = 0x0B"
  shows "let q = (g_queue (gs G) ! i)\<lparr>q_stall := s\<rparr>;
       G0 = upd_track (\<lambda>T. T\<lparr>t_lists := t_lists T + 1\<rparr>) (G\<lparr>gs := (gs G)\<lparr>g_queue := (g_queue (gs G))[i := q]\<rparr>\<rparr>)
     in \<exists>H. (\<forall>r rs n. ge_run L (Suc n) \<lparr>c_q = q, c_stack = r # rs\<rparr> G0 =
                ge_run L n \<lparr>c_q = q\<lparr>q_list := r\<rparr>, c_stack = rs\<rparr> H) \<and>
       hle_ListUpdateStallAddr L G = gret SCE_KERNEL_ERROR_OK
         (case ge_run L (GE_BUDGET - 1) \<lparr>c_q = q\<lparr>q_list := q_list q + 4\<rparr>, c_stack = []\<rparr> H of
            (c, G1) \<Rightarrow> G1\<lparr>gs := (gs G1)\<lparr>g_queue := (g_queue (gs G1))[i := c_q c]\<rparr>\<rparr>)"
proof -
  let ?q = "(g_queue (gs G) ! i)\<lparr>q_stall := s\<rparr>"
  let ?G = "G\<lparr>gs := (gs G)\<lparr>g_queue := (g_queue (gs G))[i := ?q]\<rparr>\<rparr>"
  let ?S = "upd_track (\<lambda>T. T\<lparr>t_lists := t_lists T + 1\<rparr>) ?G"
  have i: "i < length (g_queue (gs G))" using assms(1) by (auto simp: find_queue_def dest: find_index_SomeD)
  have "fst (ge_rd32 a ?S) = fst (ge_rd32 a G)" for a
    by (simp add: ge_rd32_def upd_track_def split: prod.split)
  then have w: "drop_bit 24 (fst (ge_rd32 (q_list ?q) ?S)) = 0x0B" using assms(5) by simp
  obtain w Gr where r1: "ge_rd32 (q_list ?q) ?S = (w, Gr)" by (rule prod.exhaust)
  have r: "ge_rd32 (q_list ?q) ?S = (w, Gr)" "drop_bit 24 w = 0x0B" by (rule r1, use w r1 in simp)
  let ?H = "upd_track (\<lambda>T. T\<lparr>t_commands := t_commands T + 1\<rparr>) Gr"
  note st = ge_step_ret [OF r, of L]
  have ns: "\<not> stalled \<lparr>c_q = ?q, c_stack = l\<rparr>" for l using assms(4) by auto
  have "GE_BUDGET = Suc (GE_BUDGET - 1)" by simp
  then have run: "ge_run L GE_BUDGET \<lparr>c_q = ?q, c_stack = []\<rparr> ?S =
      ge_run L (GE_BUDGET - 1) \<lparr>c_q = ?q\<lparr>q_list := q_list ?q + 4\<rparr>, c_stack = []\<rparr> ?H"
    using ge_run_step [OF ns [of "[]"] st [of "[]"], where n = "GE_BUDGET - 1"] by (simp del: ge_run.simps)
  have "hle_ListUpdateStallAddr L G = gret SCE_KERNEL_ERROR_OK (run_list L i ?G)"
    using assms(1-3) by (simp add: hle_ListUpdateStallAddr_def Let_def)
  also have "run_list L i ?G = (case ge_run L (GE_BUDGET - 1) \<lparr>c_q = ?q\<lparr>q_list := q_list ?q + 4\<rparr>, c_stack = []\<rparr> ?H of
      (c, G1) \<Rightarrow> G1\<lparr>gs := (gs G1)\<lparr>g_queue := (g_queue (gs G1))[i := c_q c]\<rparr>\<rparr>)"
    unfolding run [symmetric] run_list_def using i by simp
  finally have release: "hle_ListUpdateStallAddr L G = gret SCE_KERNEL_ERROR_OK
      (case ge_run L (GE_BUDGET - 1) \<lparr>c_q = ?q\<lparr>q_list := q_list ?q + 4\<rparr>, c_stack = []\<rparr> ?H of
      (c, G1) \<Rightarrow> G1\<lparr>gs := (gs G1)\<lparr>g_queue := (g_queue (gs G1))[i := c_q c]\<rparr>\<rparr>)" .
  have pending: "ge_run L (Suc n) \<lparr>c_q = ?q, c_stack = r # rs\<rparr> ?S = ge_run L n \<lparr>c_q = ?q\<lparr>q_list := r\<rparr>, c_stack = rs\<rparr> ?H" for r rs n
    using ge_run_step [OF ns [of "r # rs"] st [of "r # rs"], where n = n] by (simp del: ge_run.simps)
  show ?thesis unfolding Let_def using release pending by blast
qed

text \<open>The released list of \<open>demo_stall\<close> waits at such a return: its caller expects it back at the third word.\<close>

theorem stall_forgets_calls_witness:
  "\<forall>L. let G = with_args GE_FIRST_ID 0 (half L); q = (g_queue (gs G) ! 0)\<lparr>q_stall := 0\<rparr>;
       G0 = upd_track (\<lambda>T. T\<lparr>t_lists := t_lists T + 1\<rparr>) (G\<lparr>gs := (gs G)\<lparr>g_queue := (g_queue (gs G))[0 := q]\<rparr>\<rparr>)
     in \<exists>H. ge_run L 1 \<lparr>c_q = q, c_stack = [0x08000008]\<rparr> G0 = (\<lparr>c_q = q\<lparr>q_list := 0x08000008\<rparr>, c_stack = []\<rparr>, H) \<and>
       hle_ListUpdateStallAddr L G = gret SCE_KERNEL_ERROR_OK
         (case ge_run L (GE_BUDGET - 1) \<lparr>c_q = q\<lparr>q_list := q_list q + 4\<rparr>, c_stack = []\<rparr> H of
            (c, G1) \<Rightarrow> G1\<lparr>gs := (gs G1)\<lparr>g_queue := (g_queue (gs G1))[0 := c_q c]\<rparr>\<rparr>)"
proof
  fix L
  let ?G = "with_args GE_FIRST_ID 0 (half L)"
  have h: "find_queue (garg 0 ?G) (gs ?G) = Some 0" "\<not> q_done (g_queue (gs ?G) ! 0)" "0 = garg 1 ?G AND NOT 3"
    "drop_bit 24 (fst (ge_rd32 (q_list (g_queue (gs ?G) ! 0)) ?G)) = 0x0B"
    by code_simp+
  note release = stall_forgets_calls [OF h(1-3) disjI1 [OF refl] h(4), of L, unfolded Let_def]
  show "let G = ?G; q = (g_queue (gs G) ! 0)\<lparr>q_stall := 0\<rparr>;
       G0 = upd_track (\<lambda>T. T\<lparr>t_lists := t_lists T + 1\<rparr>) (G\<lparr>gs := (gs G)\<lparr>g_queue := (g_queue (gs G))[0 := q]\<rparr>\<rparr>)
     in \<exists>H. ge_run L 1 \<lparr>c_q = q, c_stack = [0x08000008]\<rparr> G0 = (\<lparr>c_q = q\<lparr>q_list := 0x08000008\<rparr>, c_stack = []\<rparr>, H) \<and>
       hle_ListUpdateStallAddr L G = gret SCE_KERNEL_ERROR_OK
         (case ge_run L (GE_BUDGET - 1) \<lparr>c_q = q\<lparr>q_list := q_list q + 4\<rparr>, c_stack = []\<rparr> H of
            (c, G1) \<Rightarrow> G1\<lparr>gs := (gs G1)\<lparr>g_queue := (g_queue (gs G1))[0 := c_q c]\<rparr>\<rparr>)"
    unfolding Let_def
    using release by (elim exE conjE) (intro exI conjI, simp only: One_nat_def ge_run.simps(1), assumption)
qed

section \<open>The queue\<close>

definition ge_queue_ok :: "ge_state \<Rightarrow> bool" where
  "ge_queue_ok g \<longleftrightarrow> length (g_queue g) = MAX_QUEUES \<and> GE_FIRST_ID \<le> ge_next_id g \<and>
     (\<forall>q\<in>set (g_queue g). q_used q \<longrightarrow> \<not> q_done q \<and> GE_FIRST_ID \<le> q_id q \<and> q_id q < ge_next_id g) \<and>
     (\<forall>i < MAX_QUEUES. \<forall>j < MAX_QUEUES. q_used (g_queue g ! i) \<and> q_used (g_queue g ! j) \<and>
        q_id (g_queue g ! i) = q_id (g_queue g ! j) \<longrightarrow> i = j)"

lemma ge_queue_okD:
  assumes "ge_queue_ok g" "i < MAX_QUEUES" "q_used (g_queue g ! i)"
  shows "\<not> q_done (g_queue g ! i)" "GE_FIRST_ID \<le> q_id (g_queue g ! i)" "q_id (g_queue g ! i) < ge_next_id g"
  using assms by (auto simp: ge_queue_ok_def)

text \<open>A slot that keeps its id, or ends, keeps the queue well formed.\<close>

lemma ge_queue_ok_replace:
  assumes "ge_queue_ok g" and "i < MAX_QUEUES" and "g_queue g' = (g_queue g)[i := q]" and "ge_next_id g' = ge_next_id g"
    and "q_used q \<longrightarrow> q_used (g_queue g ! i) \<and> q_id q = q_id (g_queue g ! i) \<and> \<not> q_done q"
  shows "ge_queue_ok g'"
proof -
  have "q_used p \<longrightarrow> \<not> q_done p \<and> GE_FIRST_ID \<le> q_id p \<and> q_id p < ge_next_id g" if "p \<in> set (g_queue g')" for p
  proof -
    have "p = q \<or> p \<in> set (g_queue g)" using that set_update_subset_insert [of "g_queue g" i q] assms(3) by auto
    then show ?thesis using assms(1,5) ge_queue_okD [OF assms(1,2)] by (auto simp: ge_queue_ok_def)
  qed
  then show ?thesis using assms by (simp add: ge_queue_ok_def nth_list_update) blast
qed

lemma ge_queue_ok_new:
  assumes "ge_queue_ok g" and "i < MAX_QUEUES" and "ge_next_id g \<noteq> - 1" and "q_id q = ge_next_id g" and "\<not> q_done q"
  shows "ge_queue_ok (g\<lparr>g_queue := (g_queue g)[i := q], ge_next_id := ge_next_id g + 1\<rparr>)"
proof -
  have lt: "x \<le> ge_next_id g \<longleftrightarrow> x < ge_next_id g + 1" for x
  proof -
    have "1 + ge_next_id g \<noteq> 0" using assms(3) by (metis add_eq_0_iff minus_minus)
    then show ?thesis using unatSuc [of "ge_next_id g"]
      by (simp add: word_le_nat_alt word_less_nat_alt add.commute [of _ 1] less_Suc_eq_le)
  qed
  have lt1: "ge_next_id g < ge_next_id g + 1" using lt [of "ge_next_id g"] by (simp only: order_refl)
  have len: "length (g_queue g) = 8" and n: "GE_FIRST_ID \<le> ge_next_id g" using assms(1) by (simp_all add: ge_queue_ok_def)
  have b: "q_used p \<longrightarrow> \<not> q_done p \<and> GE_FIRST_ID \<le> q_id p \<and> q_id p < ge_next_id g + 1"
    if "p \<in> set ((g_queue g)[i := q])" for p
  proof -
    have "p = q \<or> p \<in> set (g_queue g)" using that set_update_subset_insert [of "g_queue g" i q] by auto
    then show ?thesis using assms(1,4,5) n lt lt1 by (auto simp: ge_queue_ok_def dest: less_imp_le)
  qed
  have "q_id (g_queue g ! j) \<noteq> ge_next_id g" if "j < 8" "q_used (g_queue g ! j)" for j
    using ge_queue_okD(3) [OF assms(1) that] by auto
  then show ?thesis
    using assms(1,2,4) b len n lt by (auto simp: ge_queue_ok_def nth_list_update dest: less_imp_le)
qed

lemma run_list_queue:
  assumes "q_used (g_queue (gs G) ! i)" "\<not> q_done (g_queue (gs G) ! i)"
  obtains q where "g_queue (gs (run_list L i G)) = (g_queue (gs G))[i := q]"
    "ge_next_id (gs (run_list L i G)) = ge_next_id (gs G)" "q_id q = q_id (g_queue (gs G) ! i)"
    "q_used q \<longleftrightarrow> \<not> q_done q"
proof -
  let ?c = "\<lparr>c_q = g_queue (gs G) ! i, c_stack = []\<rparr>" and ?H = "upd_track (\<lambda>T. T\<lparr>t_lists := t_lists T + 1\<rparr>) G"
  obtain c G1 where r: "ge_run L GE_BUDGET ?c ?H = (c, G1)" by fastforce
  have "same_queue G ?H" by (rule upd_same)
  with ge_run_keeps [OF r] assms show ?thesis
    by (intro that [of "c_q c"]) (simp_all add: run_list_def r same_queue_def)
qed

lemma ge_reset_queue_ok: "ge_queue_ok ge_reset_state"
  by (simp add: ge_queue_ok_def ge_reset_state_def no_queue_def)

lemma gs_gret [simp]: "gs (gret x G) = gs G" by (simp add: gret_def)

lemma ge_enqueue_ok:
  assumes "ge_queue_ok (gs G)" and "ge_next_id (gs G) \<noteq> - 1"
  shows "ge_queue_ok (gs (enqueue L G))"
proof (cases "find_index (\<lambda>q. \<not> q_used q) (g_queue (gs G))")
  case None
  then show ?thesis using assms by (simp add: enqueue_def)
next
  case (Some i)
  let ?q = "new_queue (ge_next_id (gs G)) (garg 0 G) (garg 1 G)"
  let ?G = "G\<lparr>gs := (gs G)\<lparr>g_queue := (g_queue (gs G))[i := ?q], ge_next_id := ge_next_id (gs G) + 1\<rparr>\<rparr>"
  have i: "i < 8" "i < length (g_queue (gs G))" using find_index_SomeD [OF Some] assms(1) by (auto simp: ge_queue_ok_def)
  have n: "q_used ?q" "\<not> q_done ?q" "q_id ?q = ge_next_id (gs G)" by (simp_all add: new_queue_def no_queue_def)
  have ok: "ge_queue_ok (gs ?G)" using ge_queue_ok_new [OF assms(1) i(1) assms(2) n(3,2)] by simp
  have at: "g_queue (gs ?G) ! i = ?q" using i(2) by simp
  obtain q where q: "g_queue (gs (run_list L i ?G)) = (g_queue (gs ?G))[i := q]"
    "ge_next_id (gs (run_list L i ?G)) = ge_next_id (gs ?G)" "q_id q = q_id ?q" "q_used q \<longleftrightarrow> \<not> q_done q"
    using run_list_queue [of ?G i L] unfolding at using n by metis
  have "ge_queue_ok (gs (run_list L i ?G))"
    using ge_queue_ok_replace [OF ok i(1) q(1,2)] q(3,4) n unfolding at by simp
  then show ?thesis by (simp add: enqueue_def Some Let_def)
qed

lemma ge_stall_ok:
  assumes "ge_queue_ok (gs G)"
  shows "ge_queue_ok (gs (hle_ListUpdateStallAddr L G))"
proof (cases "find_queue (garg 0 G) (gs G)")
  case None
  then show ?thesis using assms by (simp add: hle_ListUpdateStallAddr_def)
next
  case (Some i)
  let ?p = "g_queue (gs G) ! i" let ?q = "?p\<lparr>q_stall := garg 1 G AND NOT 3\<rparr>"
  let ?G = "G\<lparr>gs := (gs G)\<lparr>g_queue := (g_queue (gs G))[i := ?q]\<rparr>\<rparr>"
  have i: "i < 8" "i < length (g_queue (gs G))" "q_used ?p"
    using find_index_SomeD [OF Some [unfolded find_queue_def]] assms by (auto simp: ge_queue_ok_def)
  have d: "\<not> q_done ?p" by (rule ge_queue_okD(1) [OF assms i(1,3)])
  have ok: "ge_queue_ok (gs ?G)" by (rule ge_queue_ok_replace [OF assms i(1), where q = ?q]) (use i d in simp_all)
  have at: "g_queue (gs ?G) ! i = ?q" using i(2) by simp
  have n: "q_used ?q" "\<not> q_done ?q" using i d by simp_all
  obtain q where q: "g_queue (gs (run_list L i ?G)) = (g_queue (gs ?G))[i := q]"
    "ge_next_id (gs (run_list L i ?G)) = ge_next_id (gs ?G)" "q_id q = q_id ?q" "q_used q \<longleftrightarrow> \<not> q_done q"
    using run_list_queue [of ?G i L] unfolding at using n by metis
  have "ge_queue_ok (gs (run_list L i ?G))"
    using ge_queue_ok_replace [OF ok i(1) q(1,2)] q(3,4) n unfolding at by simp
  then show ?thesis using d by (simp add: hle_ListUpdateStallAddr_def Let_def Some)
qed

text \<open>
  C4. The list queue. From a reset on, whatever lists the guest submits and releases (as long as
  fewer than 2^32 - 2^19 lists have been submitted), every occupied slot holds an unfinished list with an id that
  has been handed out, and no two occupied slots share an id.
\<close>
theorem ge_queue_invariant:
  "ge_queue_ok (gs (psp_ge_reset G0)) \<and>
   (ge_queue_ok (gs G) \<and> ge_next_id (gs G) \<noteq> - 1 \<longrightarrow>
    ge_queue_ok (gs (hle_ListEnQueue L G)) \<and> ge_queue_ok (gs (hle_ListEnQueueHead L G)) \<and>
    ge_queue_ok (gs (hle_ListUpdateStallAddr L G)))"
proof (intro conjI impI)
  show "ge_queue_ok (gs (psp_ge_reset G0))" using ge_reset_queue_ok by (simp add: psp_ge_reset_def)
next
  assume A: "ge_queue_ok (gs G) \<and> ge_next_id (gs G) \<noteq> - 1"
  have "ge_queue_ok (gs (enqueue L G))" by (rule ge_enqueue_ok) (use A in simp_all)
  then show "ge_queue_ok (gs (hle_ListEnQueue L G))" "ge_queue_ok (gs (hle_ListEnQueueHead L G))"
    by (simp_all add: hle_ListEnQueue_def hle_ListEnQueueHead_def)
  show "ge_queue_ok (gs (hle_ListUpdateStallAddr L G))" by (rule ge_stall_ok) (use A in simp)
qed

theorem ge_queue_invariant_witness:
  "\<forall>L. ge_queue_ok (gs (hle_ListEnQueue L (psp_ge_reset (with_words []))))"
  using ge_queue_invariant [of "with_words []" "psp_ge_reset (with_words [])"]
  by (simp add: psp_ge_reset_def ge_reset_state_def)

end
