(* ===== verification/Sas.thy ===== *)
theory Sas
  imports Kernel
begin

unbundle bit_operations_syntax

text \<open>
  The voice mixer of \<^verbatim>\<open>src/hle/sascore.c\<close>: ADPCM decoding, the envelope, resampling, the mix and
  the firmware calls. A C \<^verbatim>\<open>int\<close> is an \<open>int\<close>: sums and products are exact where C leaves an overflow
  undefined, and the theory \<open>SasRange\<close> says when none happens; a right shift of a negative value is the
  arithmetic one. \<^verbatim>\<open>PSPRECOMP_TRACE_SAS\<close> is unset, so nothing is logged.
\<close>

section \<open>State\<close>

abbreviation (input) SAS_VOICES :: nat where "SAS_VOICES \<equiv> 32"
abbreviation (input) SAS_MAX_GRAIN :: nat where "SAS_MAX_GRAIN \<equiv> 1024"

definition VAG_F0 :: "int list" where "VAG_F0 = [0, 60, 115, 98, 122]"
definition VAG_F1 :: "int list" where "VAG_F1 = [0, 0, -52, -55, -60]"

datatype env_phase = ENV_OFF | ENV_ATTACK | ENV_DECAY | ENV_SUSTAIN | ENV_RELEASE

record sas_voice =
  sv_addr :: u32
  sv_size :: u32
  sv_loop :: bool
  sv_pos :: u32
  sv_loop_pos :: u32
  sv_end_pending :: bool
  sv_idx :: nat
  sv_hist1 :: int
  sv_hist2 :: int
  sv_decoded :: "int list"
  sv_valid :: bool
  sv_pitch :: u32
  sv_frac :: u32
  sv_vol_l :: int
  sv_vol_r :: int
  sv_phase :: env_phase
  sv_env :: int
  sv_attack :: int
  sv_decay :: int
  sv_sustain :: int
  sv_release :: int
  sv_playing :: bool
  sv_ended :: bool
  sv_paused :: bool

record sas =
  sas_voices :: "sas_voice list"
  sas_grain :: nat
  sas_max_voices :: nat
  sas_output_mode :: u32
  sas_sample_rate :: u32
  sas_frames :: u64
  sas_nonzero :: u64

definition reset_voice :: sas_voice where
  "reset_voice =
     \<lparr>sv_addr = 0, sv_size = 0, sv_loop = False, sv_pos = 0, sv_loop_pos = 0, sv_end_pending = False, sv_idx = 0,
      sv_hist1 = 0, sv_hist2 = 0, sv_decoded = replicate 28 0, sv_valid = False, sv_pitch = 0x1000, sv_frac = 0,
      sv_vol_l = 0x1000, sv_vol_r = 0x1000, sv_phase = ENV_OFF, sv_env = 0, sv_attack = 0, sv_decay = 0,
      sv_sustain = 0, sv_release = 0, sv_playing = False, sv_ended = False, sv_paused = False\<rparr>"

definition psp_sas_reset :: sas where
  "psp_sas_reset = \<lparr>sas_voices = replicate SAS_VOICES reset_voice, sas_grain = 256, sas_max_voices = SAS_VOICES,
     sas_output_mode = 0, sas_sample_rate = 44100, sas_frames = 0, sas_nonzero = 0\<rparr>"

section \<open>Decoding\<close>

definition clamp16 :: "int \<Rightarrow> int" where
  "clamp16 v = (if v > 32767 then 32767 else if v < -32768 then -32768 else v)"

text \<open>A nibble in the top of a 16-bit word, as a signed value shifted down.\<close>

definition nibble :: "nat \<Rightarrow> nat \<Rightarrow> int" where
  "nibble nib shift = sint (push_bit 12 (of_nat nib) :: 16 word) div 2 ^ shift"

definition vag_predict :: "nat \<Rightarrow> int \<Rightarrow> int \<Rightarrow> int \<Rightarrow> int" where
  "vag_predict filt h1 h2 s = clamp16 (s + (VAG_F0 ! filt * h1 + VAG_F1 ! filt * h2) div 64)"

definition decode_sample :: "u32 \<Rightarrow> nat \<Rightarrow> nat \<Rightarrow> nat \<Rightarrow> sas_voice \<times> psp_machine \<Rightarrow> sas_voice \<times> psp_machine" where
  "decode_sample at shift filt i S =
     (let (v, M) = S;
          (byte, M1) = psp_read8 (at + 2 + of_nat (i div 2)) M;
          nib = (if odd i then unat (drop_bit 4 byte) else unat (byte AND 0x0F));
          s = vag_predict filt (sv_hist1 v) (sv_hist2 v) (nibble nib shift)
      in (v\<lparr>sv_decoded := (sv_decoded v)[i := s], sv_hist2 := sv_hist1 v, sv_hist1 := s\<rparr>, M1))"

text \<open>One block. The first component is the result of the C function.\<close>

definition decode_block :: "sas_voice \<Rightarrow> psp_machine \<Rightarrow> bool \<times> sas_voice \<times> psp_machine" where
  "decode_block v M =
     (if sv_end_pending v then (False, v, M)
      else if sv_pos v + 16 > sv_size v then (False, v, M)
      else let at = sv_addr v + sv_pos v;
               (hdr, M1) = psp_read8 at M;
               (flags, M2) = psp_read8 (at + 1) M1;
               shift = unat (hdr AND 0x0F);
               f0 = unat (drop_bit 4 hdr AND 0x0F);
               filt = (if f0 > 4 then 0 else f0)
           in if flags = 7 then (False, v, M2)
              else let v1 = (if bit flags 2 then v\<lparr>sv_loop_pos := sv_pos v\<rparr> else v);
                       (v2, M3) = fold (decode_sample at shift filt) [0..<28] (v1, M2);
                       v3 = v2\<lparr>sv_pos := sv_pos v2 + 16\<rparr>;
                       v4 = (if bit flags 0
                             then if bit flags 1 \<and> sv_loop v3 then v3\<lparr>sv_pos := sv_loop_pos v3\<rparr>
                                  else v3\<lparr>sv_end_pending := True\<rparr>
                             else v3)
                   in (True, v4\<lparr>sv_valid := True\<rparr>, M3))"

section \<open>The envelope and the mix\<close>

definition step_envelope :: "sas_voice \<Rightarrow> int \<times> sas_voice" where
  "step_envelope v =
     (let v' = (case sv_phase v of
            ENV_ATTACK \<Rightarrow>
              (let e = sv_env v + sv_attack v
               in if e \<ge> 0x40000000 then v\<lparr>sv_env := 0x40000000, sv_phase := ENV_DECAY\<rparr> else v\<lparr>sv_env := e\<rparr>)
          | ENV_DECAY \<Rightarrow>
              (let e = sv_env v - sv_decay v
               in if e \<le> sv_sustain v then v\<lparr>sv_env := sv_sustain v, sv_phase := ENV_SUSTAIN\<rparr> else v\<lparr>sv_env := e\<rparr>)
          | ENV_RELEASE \<Rightarrow>
              (let e = sv_env v - sv_release v
               in if e \<le> 0 then v\<lparr>sv_env := 0, sv_phase := ENV_OFF, sv_playing := False, sv_ended := True\<rparr>
                  else v\<lparr>sv_env := e\<rparr>)
          | _ \<Rightarrow> v)
      in (sv_env v', v'))"

text \<open>The next block, at the first sample; a voice without one stops.\<close>

definition next_block :: "sas_voice \<Rightarrow> psp_machine \<Rightarrow> bool \<times> sas_voice \<times> psp_machine" where
  "next_block v M =
     (let (ok, v1, M1) = decode_block (v\<lparr>sv_idx := 0\<rparr>) M
      in if ok then (True, v1, M1) else (False, v1\<lparr>sv_playing := False, sv_ended := True\<rparr>, M1))"

lemma fold_decode_frac: "fold (decode_sample at shift filt) xs (v, M) = (v', M') \<Longrightarrow> sv_frac v' = sv_frac v"
proof (induction xs arbitrary: v M)
  case (Cons i xs)
  obtain v1 M1 where 1: "decode_sample at shift filt i (v, M) = (v1, M1)" by fastforce
  then have "sv_frac v1 = sv_frac v" by (auto simp: decode_sample_def Let_def split: prod.splits)
  with Cons 1 show ?case by simp
qed simp

lemma decode_block_frac: "decode_block v M = (ok, v', M') \<Longrightarrow> sv_frac v' = sv_frac v"
  by (auto simp: decode_block_def Let_def dest!: fold_decode_frac split: if_splits prod.splits)

lemma next_block_frac: "next_block v M = (ok, v', M') \<Longrightarrow> sv_frac v' = sv_frac v"
  by (auto simp: next_block_def dest: decode_block_frac split: if_splits prod.splits)

text \<open>The resampling loop: one source sample for every \<open>0x1000\<close> of the accumulator.\<close>

lemma frac_less: "0x1000 \<le> f \<Longrightarrow> unat (f - 0x1000 :: u32) < unat f"
  using unat_sub [of "0x1000 :: u32" f] by (simp add: word_le_nat_alt)

function advance :: "sas_voice \<Rightarrow> psp_machine \<Rightarrow> sas_voice \<times> psp_machine" where
  "advance v M =
     (if sv_frac v < 0x1000 then (v, M)
      else let v1 = v\<lparr>sv_frac := sv_frac v - 0x1000, sv_idx := sv_idx v + 1\<rparr>
           in if sv_idx v1 < 28 then advance v1 M
              else case next_block v1 M of (ok, v2, M2) \<Rightarrow> if ok then advance v2 M2 else (v2, M2))"
  by pat_completeness auto
termination
  by (relation "measure (\<lambda>(v, _). unat (sv_frac v))") (auto dest!: next_block_frac [OF sym] simp: frac_less not_less)

declare advance.simps [simp del]

text \<open>
  One turn of the loop over samples. The last component is what the sample adds to the two channels;
  a voice that has just ended adds nothing more.
\<close>

definition play_sample :: "sas_voice \<Rightarrow> psp_machine \<Rightarrow> sas_voice \<times> psp_machine \<times> (int \<times> int)" where
  "play_sample v M =
     (let (ok, v1, M1) = (if \<not> sv_valid v \<or> sv_idx v \<ge> 28 then next_block v M else (True, v, M))
      in if \<not> ok then (v1, M1, 0, 0)
         else let s0 = sv_decoded v1 ! sv_idx v1;
                  (env, v2) = step_envelope v1;
                  s = (s0 * (env div 2 ^ 18)) div 2 ^ 12;
                  (v3, M3) = advance (v2\<lparr>sv_frac := sv_frac v2 + sv_pitch v2\<rparr>) M1
              in (v3, M3, (s * sv_vol_l v2) div 2 ^ 12, (s * sv_vol_r v2) div 2 ^ 12))"

primrec voice_loop :: "nat list \<Rightarrow> sas_voice \<times> psp_machine \<Rightarrow> int list \<times> int list \<Rightarrow> sas_voice \<times> psp_machine \<times> int list \<times> int list" where
  "voice_loop [] S mix = (fst S, snd S, mix)"
| "voice_loop (i # is) S mix =
     (let (v, M, l, r) = play_sample (fst S) (snd S);
          mix1 = ((fst mix)[i := fst mix ! i + l], (snd mix)[i := snd mix ! i + r])
      in if sv_playing v then voice_loop is (v, M) mix1 else (v, M, mix1))"

definition render_voice :: "nat \<Rightarrow> nat \<Rightarrow> (sas_voice list \<times> psp_machine \<times> int list \<times> int list) \<Rightarrow> sas_voice list \<times> psp_machine \<times> int list \<times> int list" where
  "render_voice samples vi R =
     (let (vs, M, mix) = R; v = vs ! vi
      in if \<not> sv_playing v \<or> sv_paused v \<or> sv_addr v = 0 then R
         else let (v1, M1, mix1) = voice_loop [0..<samples] (v, M) mix in (vs[vi := v1], M1, mix1))"

definition render :: "nat \<Rightarrow> sas \<times> psp_machine \<Rightarrow> (sas \<times> psp_machine) \<times> int list \<times> int list" where
  "render samples S =
     (let (A, M) = S;
          (vs, M1, mix) = fold (render_voice samples) [0..<sas_max_voices A]
            (sas_voices A, M, replicate samples 0, replicate samples 0)
      in ((A\<lparr>sas_voices := vs\<rparr>, M1), mix))"

definition sample_to_guest :: "u32 \<Rightarrow> bool \<Rightarrow> int list \<times> int list \<Rightarrow> nat \<Rightarrow> sas \<times> psp_machine \<Rightarrow> sas \<times> psp_machine" where
  "sample_to_guest out add mix i S =
     (let (A, M) = S; at = out + of_nat i * 4;
          sl0 = clamp16 (fst mix ! i); sr0 = clamp16 (snd mix ! i);
          (sl, sr, M1) =
            (if add then let (a, Ma) = psp_read16 at M; (b, Mb) = psp_read16 (at + 2) Ma
                         in (clamp16 (sl0 + sint a), clamp16 (sr0 + sint b), Mb)
             else (sl0, sr0, M));
          M2 = psp_write16 (at + 2) (of_int sr) (psp_write16 at (of_int sl) M1)
      in (if sl \<noteq> 0 \<or> sr \<noteq> 0 then A\<lparr>sas_nonzero := sas_nonzero A + 1\<rparr> else A, M2))"

definition mix_to_guest :: "u32 \<Rightarrow> bool \<Rightarrow> sas \<times> psp_machine \<Rightarrow> sas \<times> psp_machine" where
  "mix_to_guest out add S =
     (let n = sas_grain (fst S); (S1, mix) = render n S;
          (A, M) = fold (sample_to_guest out add mix) [0..<n] S1
      in (A\<lparr>sas_frames := sas_frames A + 1\<rparr>, M))"

section \<open>The calls\<close>

definition sarg :: "nat \<Rightarrow> sas \<times> psp_machine \<Rightarrow> u32" where "sarg n S = fst (psp_arg n (snd S))"
definition sret :: "u32 \<Rightarrow> sas \<times> psp_machine \<Rightarrow> sas \<times> psp_machine" where "sret x S = (fst S, psp_ret x (snd S))"

definition voice_arg :: "sas \<times> psp_machine \<Rightarrow> nat option" where
  "voice_arg S = (let i = sarg 1 S in if i < 32 then Some (unat i) else None)"

definition on_voice :: "(sas_voice \<Rightarrow> sas_voice) \<Rightarrow> sas \<times> psp_machine \<Rightarrow> sas \<times> psp_machine" where
  "on_voice f S =
     (case voice_arg S of
        None \<Rightarrow> sret SCE_KERNEL_ERROR_ERROR S
      | Some i \<Rightarrow> sret SCE_KERNEL_ERROR_OK
          ((fst S)\<lparr>sas_voices := (sas_voices (fst S))[i := f (sas_voices (fst S) ! i)]\<rparr>, snd S))"

definition hle_Init :: "sas \<times> psp_machine \<Rightarrow> sas \<times> psp_machine" where
  "hle_Init S =
     sret SCE_KERNEL_ERROR_OK ((fst S)\<lparr>
       sas_grain := (if sarg 1 S = 0 \<or> sarg 1 S > 1024 then 256 else unat (sarg 1 S)),
       sas_max_voices := (if sarg 2 S = 0 \<or> sarg 2 S > 32 then SAS_VOICES else unat (sarg 2 S)),
       sas_output_mode := sarg 3 S, sas_sample_rate := sarg 4 S\<rparr>, snd S)"

definition rewind :: "sas_voice \<Rightarrow> sas_voice" where
  "rewind v = v\<lparr>sv_pos := 0, sv_loop_pos := 0, sv_end_pending := False, sv_idx := 0, sv_hist1 := 0, sv_hist2 := 0,
                sv_valid := False\<rparr>"

definition hle_SetVoice :: "sas \<times> psp_machine \<Rightarrow> sas \<times> psp_machine" where
  "hle_SetVoice S = on_voice (\<lambda>v. rewind (v\<lparr>sv_addr := sarg 2 S, sv_size := sarg 3 S, sv_loop := (sarg 4 S \<noteq> 0)\<rparr>)) S"

definition hle_SetPitch :: "sas \<times> psp_machine \<Rightarrow> sas \<times> psp_machine" where
  "hle_SetPitch S = on_voice (\<lambda>v. v\<lparr>sv_pitch := sarg 2 S\<rparr>) S"

definition hle_SetVolume :: "sas \<times> psp_machine \<Rightarrow> sas \<times> psp_machine" where
  "hle_SetVolume S = on_voice (\<lambda>v. v\<lparr>sv_vol_l := sint (sarg 2 S), sv_vol_r := sint (sarg 3 S)\<rparr>) S"

definition hle_SetADSR :: "sas \<times> psp_machine \<Rightarrow> sas \<times> psp_machine" where
  "hle_SetADSR S =
     on_voice (\<lambda>v. let flags = sarg 2 S;
       v1 = (if bit flags 0 then v\<lparr>sv_attack := sint (sarg 3 S)\<rparr> else v);
       v2 = (if bit flags 1 then v1\<lparr>sv_decay := sint (sarg 4 S)\<rparr> else v1);
       v3 = (if bit flags 2 then v2\<lparr>sv_sustain := sint (sarg 5 S)\<rparr> else v2)
       in if bit flags 3 then v3\<lparr>sv_release := sint (sarg 6 S)\<rparr> else v3) S"

definition hle_SetSimpleADSR :: "sas \<times> psp_machine \<Rightarrow> sas \<times> psp_machine" where
  "hle_SetSimpleADSR S =
     on_voice (\<lambda>v. v\<lparr>sv_attack := 0x40000000 div 64, sv_decay := 0x40000000 div 512, sv_sustain := 0x30000000,
                     sv_release := 0x40000000 div 256\<rparr>) S"

definition key_on :: "sas_voice \<Rightarrow> sas_voice" where
  "key_on v = (rewind v)\<lparr>sv_playing := True, sv_ended := False, sv_paused := False, sv_frac := 0, sv_env := 0,
     sv_phase := ENV_ATTACK, sv_attack := (if sv_attack v = 0 then 0x40000000 div 64 else sv_attack v)\<rparr>"

definition hle_SetKeyOn :: "sas \<times> psp_machine \<Rightarrow> sas \<times> psp_machine" where
  "hle_SetKeyOn S = on_voice key_on S"

definition key_off :: "sas_voice \<Rightarrow> sas_voice" where
  "key_off v = v\<lparr>sv_phase := ENV_RELEASE, sv_release := (if sv_release v = 0 then 0x40000000 div 256 else sv_release v)\<rparr>"

definition hle_SetKeyOff :: "sas \<times> psp_machine \<Rightarrow> sas \<times> psp_machine" where
  "hle_SetKeyOff S = on_voice key_off S"

definition hle_SetPause :: "sas \<times> psp_machine \<Rightarrow> sas \<times> psp_machine" where
  "hle_SetPause S =
     sret SCE_KERNEL_ERROR_OK ((fst S)\<lparr>sas_voices :=
       fold (\<lambda>i vs. if bit (sarg 1 S) i then vs[i := (vs ! i)\<lparr>sv_paused := (sarg 2 S \<noteq> 0)\<rparr>] else vs)
         [0..<SAS_VOICES] (sas_voices (fst S))\<rparr>, snd S)"

definition voice_mask :: "(sas_voice \<Rightarrow> bool) \<Rightarrow> sas \<times> psp_machine \<Rightarrow> u32" where
  "voice_mask P S = fold (\<lambda>i f. if P (sas_voices (fst S) ! i) then f OR push_bit i 1 else f) [0..<SAS_VOICES] 0"

definition hle_GetPauseFlag :: "sas \<times> psp_machine \<Rightarrow> sas \<times> psp_machine" where
  "hle_GetPauseFlag S = sret (voice_mask sv_paused S) S"

definition hle_GetEndFlag :: "sas \<times> psp_machine \<Rightarrow> sas \<times> psp_machine" where
  "hle_GetEndFlag S = sret (voice_mask (\<lambda>v. \<not> sv_playing v) S) S"

definition hle_GetEnvelopeHeight :: "sas \<times> psp_machine \<Rightarrow> sas \<times> psp_machine" where
  "hle_GetEnvelopeHeight S =
     sret (case voice_arg S of None \<Rightarrow> 0 | Some i \<Rightarrow> of_int (sv_env (sas_voices (fst S) ! i))) S"

definition hle_Core :: "sas \<times> psp_machine \<Rightarrow> sas \<times> psp_machine" where
  "hle_Core S = sret SCE_KERNEL_ERROR_OK (if sarg 1 S \<noteq> 0 then mix_to_guest (sarg 1 S) False S else S)"

definition hle_CoreWithMix :: "sas \<times> psp_machine \<Rightarrow> sas \<times> psp_machine" where
  "hle_CoreWithMix S = sret SCE_KERNEL_ERROR_OK (if sarg 1 S \<noteq> 0 then mix_to_guest (sarg 1 S) True S else S)"

definition hle_accept :: "sas \<times> psp_machine \<Rightarrow> sas \<times> psp_machine" where
  "hle_accept S = sret SCE_KERNEL_ERROR_OK S"

section \<open>What a read sees\<close>

text \<open>Two machines look alike when every read returns the same; reading keeps the look of a machine.\<close>

definition alike :: "psp_machine \<Rightarrow> psp_machine \<Rightarrow> bool" where
  "alike M M' \<longleftrightarrow> store (mem M') = store (mem M) \<and> psp_mem_ptr (mem M') = psp_mem_ptr (mem M)"

lemma alike_refl [simp]: "alike M M" by (simp add: alike_def)

lemma alike_trans: "alike M M' \<Longrightarrow> alike M' M'' \<Longrightarrow> alike M M''" by (simp add: alike_def)

lemma alike_sym: "alike M M' \<Longrightarrow> alike M' M" by (simp add: alike_def)

lemma alike_read8: "psp_read8 a M = (b, M') \<Longrightarrow> alike M M'"
  using read_body_frame [of 1 a M] by (cases "read_body 1 a M") (simp add: psp_read8_def alike_def del: One_nat_def)

lemma read8_cong: "alike M M' \<Longrightarrow> fst (psp_read8 a M') = fst (psp_read8 a M)"
  by (simp add: fst_psp_read8 alike_def peek_cong [of "mem M'" "mem M"])

lemma read8_pair:
  assumes "alike M M'" and "psp_read8 a M = (b, N)"
  obtains N' where "psp_read8 a M' = (b, N')" "alike N N'"
proof -
  obtain b' N' where r: "psp_read8 a M' = (b', N')" by fastforce
  have "b' = b" using read8_cong [OF assms(1), of a] assms(2) r by simp
  with r that show ?thesis
    using alike_trans [OF alike_trans [OF alike_sym [OF alike_read8 [OF assms(2)]] assms(1)] alike_read8 [OF r]] by simp
qed

section \<open>Decoding a block\<close>

lemma decode_sample_look:
  assumes "alike M M'" and "decode_sample at shift filt i (v, M) = (v1, N)"
  obtains N' where "decode_sample at shift filt i (v, M') = (v1, N')" "alike N N'"
proof -
  obtain b K where r: "psp_read8 (at + 2 + of_nat (i div 2)) M = (b, K)" by fastforce
  obtain K' where r': "psp_read8 (at + 2 + of_nat (i div 2)) M' = (b, K')" "alike K K'" by (rule read8_pair [OF assms(1) r])
  show ?thesis using assms(2) r r' by (intro that [of K']) (auto simp: decode_sample_def Let_def)
qed

lemma decode_fold_look:
  assumes "alike M M'" and "fold (decode_sample at shift filt) xs (v, M) = (v1, N)"
  shows "\<exists>N'. fold (decode_sample at shift filt) xs (v, M') = (v1, N') \<and> alike N N'"
  using assms
proof (induction xs arbitrary: v M M')
  case (Cons i xs)
  obtain v2 K where k: "decode_sample at shift filt i (v, M) = (v2, K)" by fastforce
  obtain K' where "decode_sample at shift filt i (v, M') = (v2, K')" "alike K K'"
    by (rule decode_sample_look [OF Cons.prems(1) k])
  with Cons.IH [of K K' v2] Cons.prems(2) k show ?case by simp
qed auto

lemma decode_fold_alike: "fold (decode_sample at shift filt) xs (v, M) = (v1, N) \<Longrightarrow> alike M N"
proof (induction xs arbitrary: v M)
  case (Cons i xs)
  obtain v2 K where k: "decode_sample at shift filt i (v, M) = (v2, K)" by fastforce
  then have "alike M K" by (auto simp: decode_sample_def Let_def split: prod.splits dest: alike_read8)
  then show ?case using Cons.IH [of v2 K] Cons.prems k by (auto intro: alike_trans)
qed simp

lemma decode_block_look:
  assumes "alike M M'" and "decode_block v M = (ok, v1, N)"
  shows "\<exists>N'. decode_block v M' = (ok, v1, N') \<and> alike N N'"
proof (cases "sv_end_pending v \<or> sv_pos v + 16 > sv_size v")
  case True
  then have "decode_block v K = (False, v, K)" for K by (auto simp: decode_block_def)
  then show ?thesis using assms by simp
next
  case False
  let ?at = "sv_addr v + sv_pos v"
  obtain hdr M1 where h: "psp_read8 ?at M = (hdr, M1)" by fastforce
  obtain M1' where h': "psp_read8 ?at M' = (hdr, M1')" "alike M1 M1'" by (rule read8_pair [OF assms(1) h])
  obtain fl M2 where f: "psp_read8 (?at + 1) M1 = (fl, M2)" by fastforce
  obtain M2' where f': "psp_read8 (?at + 1) M1' = (fl, M2')" "alike M2 M2'" by (rule read8_pair [OF h'(2) f])
  define v0 where "v0 = (if bit fl 2 then v\<lparr>sv_loop_pos := sv_pos v\<rparr> else v)"
  define shift filt where "shift = unat (hdr AND 0x0F)"
    and "filt = (if unat (drop_bit 4 hdr AND 0x0F) > 4 then 0 else unat (drop_bit 4 hdr AND 0x0F))"
  obtain v2 M3 where d: "fold (decode_sample ?at shift filt) [0..<28] (v0, M2) = (v2, M3)" by fastforce
  obtain M3' where d': "fold (decode_sample ?at shift filt) [0..<28] (v0, M2') = (v2, M3')" "alike M3 M3'"
    using decode_fold_look [OF f'(2) d] by blast
  show ?thesis
    using assms(2) False f'(2) d d'
    unfolding decode_block_def Let_def h h'(1) prod.case f f'(1) v0_def [symmetric] shift_def [symmetric] filt_def [symmetric]
    by (auto simp del: upt_rec_numeral fold_simps)
qed

lemma decode_block_alike: "decode_block v M = (ok, v1, N) \<Longrightarrow> alike M N"
  by (auto simp: decode_block_def Let_def simp del: upt_rec_numeral fold_simps split: if_splits prod.splits
      dest!: alike_read8 decode_fold_alike intro: alike_trans)

lemma next_block_look:
  assumes "alike M M'" and "next_block v M = (ok, v1, N)"
  shows "\<exists>N'. next_block v M' = (ok, v1, N') \<and> alike N N'"
proof -
  obtain k w K where d: "decode_block (v\<lparr>sv_idx := 0\<rparr>) M = (k, w, K)" by (rule prod_cases3)
  from decode_block_look [OF assms(1) d] assms(2) d show ?thesis by (auto simp: next_block_def split: if_splits)
qed

lemma next_block_alike: "next_block v M = (ok, v1, N) \<Longrightarrow> alike M N"
  by (auto simp: next_block_def split: if_splits prod.splits dest: decode_block_alike)

lemma advance_look:
  assumes "alike M M'" and "advance v M = (v1, N)"
  shows "\<exists>N'. advance v M' = (v1, N') \<and> alike N N'"
  using assms
proof (induction v M arbitrary: M' rule: advance.induct)
  case (1 v M)
  let ?v = "v\<lparr>sv_frac := sv_frac v - 0x1000, sv_idx := sv_idx v + 1\<rparr>"
  consider "sv_frac v < 0x1000" | "\<not> sv_frac v < 0x1000" "sv_idx ?v < 28" | "\<not> sv_frac v < 0x1000" "\<not> sv_idx ?v < 28"
    by blast
  then show ?case
  proof cases
    case 1
    then have "advance v K = (v, K)" for K by (simp add: advance.simps [of v])
    then show ?thesis using "1.prems" by simp
  next
    case 2
    with "1.prems"(2) have "advance ?v M = (v1, N)" by (simp add: advance.simps [of v M] Let_def)
    from "1.IH"(1) [OF 2(1) refl 2(2) "1.prems"(1) this] 2 show ?thesis by (simp add: advance.simps [of v M'] Let_def)
  next
    case 3
    obtain k w K where d: "next_block ?v M = (k, w, K)" by (rule prod_cases3)
    obtain K' where d': "next_block ?v M' = (k, w, K')" "alike K K'" using next_block_look [OF "1.prems"(1) d] by blast
    show ?thesis
    proof (cases k)
      case True
      with 3 d "1.prems"(2) have "advance w K = (v1, N)" by (simp add: advance.simps [of v M] Let_def)
      from "1.IH"(2) [OF 3(1) refl 3(2) d [symmetric] refl True d'(2) this] 3 d' True show ?thesis
        by (simp add: advance.simps [of v M'] Let_def)
    next
      case False
      then show ?thesis using "1.prems"(2) 3 d d' by (simp add: advance.simps [of v] Let_def)
    qed
  qed
qed

lemma advance_alike: "advance v M = (v1, N) \<Longrightarrow> alike M N"
proof (induction v M rule: advance.induct)
  case (1 v M)
  let ?v = "v\<lparr>sv_frac := sv_frac v - 0x1000, sv_idx := sv_idx v + 1\<rparr>"
  consider "sv_frac v < 0x1000" | "\<not> sv_frac v < 0x1000" "sv_idx ?v < 28" | "\<not> sv_frac v < 0x1000" "\<not> sv_idx ?v < 28"
    by blast
  then show ?case
  proof cases
    case 1
    then show ?thesis using "1.prems" by (simp add: advance.simps [of v])
  next
    case 2
    with "1.prems" have "advance ?v M = (v1, N)" by (simp add: advance.simps [of v M] Let_def)
    from "1.IH"(1) [OF 2(1) refl 2(2) this] show ?thesis .
  next
    case 3
    obtain k w K where d: "next_block ?v M = (k, w, K)" by (rule prod_cases3)
    have "if k then advance w K = (v1, N) else N = K" using 3 d "1.prems" by (simp add: advance.simps [of v M] Let_def split: if_splits)
    then show ?thesis
      using "1.IH"(2) [OF 3(1) refl 3(2) d [symmetric] refl] next_block_alike [OF d] by (auto split: if_splits intro: alike_trans)
  qed
qed

lemma play_sample_look:
  assumes "alike M M'" and "play_sample v M = (v1, N, c)"
  shows "\<exists>N'. play_sample v M' = (v1, N', c) \<and> alike N N'"
proof -
  let ?need = "\<not> sv_valid v \<or> sv_idx v \<ge> 28"
  obtain k w K where d: "(if ?need then next_block v M else (True, v, M)) = (k, w, K)" by (rule prod_cases3)
  obtain K' where d': "(if ?need then next_block v M' else (True, v, M')) = (k, w, K')" "alike K K'"
    using next_block_look [OF assms(1), of v] d assms(1) by (cases ?need) auto
  obtain e u where e: "step_envelope w = (e, u)" by fastforce
  obtain x X where a: "advance (u\<lparr>sv_frac := sv_frac u + sv_pitch u\<rparr>) K = (x, X)" by fastforce
  obtain X' where a': "advance (u\<lparr>sv_frac := sv_frac u + sv_pitch u\<rparr>) K' = (x, X')" "alike X X'"
    using advance_look [OF d'(2) a] by blast
  show ?thesis
    using assms(2) d'(2) a a'(2)
    unfolding play_sample_def d d'(1) Let_def prod.case e a a'(1) by (cases k) auto
qed

lemma play_sample_alike: "play_sample v M = (v1, N, c) \<Longrightarrow> alike M N"
  by (auto simp: play_sample_def Let_def split: if_splits prod.splits dest!: next_block_alike advance_alike intro: alike_trans)

section \<open>The mix is a sum\<close>

text \<open>
  What a voice adds does not depend on the mix it is added to, nor on the reads of the voices before it.
\<close>

lemma voice_loop_linear:
  assumes "alike M M'" and "voice_loop is (v, M) mix = (v1, N, mix1)"
    and "\<forall>i\<in>set is. i < n" and "length (fst mix) = n" "length (snd mix) = n" and "length (fst mix') = n" "length (snd mix') = n"
  shows "\<exists>N' mix1'. voice_loop is (v, M') mix' = (v1, N', mix1') \<and> alike N N' \<and>
    length (fst mix1) = n \<and> length (snd mix1) = n \<and> length (fst mix1') = n \<and> length (snd mix1') = n \<and>
    (\<forall>k<n. fst mix1 ! k - fst mix ! k = fst mix1' ! k - fst mix' ! k \<and>
           snd mix1 ! k - snd mix ! k = snd mix1' ! k - snd mix' ! k)"
  using assms
proof (induction "is" arbitrary: v M M' mix mix')
  case Nil
  then show ?case by auto
next
  case (Cons i "is")
  obtain w K l r where p: "play_sample v M = (w, K, l, r)" by (metis prod_cases4)
  obtain K' where p': "play_sample v M' = (w, K', l, r)" "alike K K'" using play_sample_look [OF Cons.prems(1) p] by blast
  let ?m = "((fst mix)[i := fst mix ! i + l], (snd mix)[i := snd mix ! i + r])"
  let ?m' = "((fst mix')[i := fst mix' ! i + l], (snd mix')[i := snd mix' ! i + r])"
  have d: "fst ?m ! k - fst mix ! k = fst ?m' ! k - fst mix' ! k" "snd ?m ! k - snd mix ! k = snd ?m' ! k - snd mix' ! k"
    if "k < n" for k using that Cons.prems(3-7) by (simp_all add: nth_list_update)
  show ?case
  proof (cases "sv_playing w")
    case True
    with Cons.prems(2) p have run: "voice_loop is (w, K) ?m = (v1, N, mix1)" by simp
    from Cons.IH [OF p'(2) run, of ?m'] Cons.prems(3-7)
    obtain N' mix1' where *: "voice_loop is (w, K') ?m' = (v1, N', mix1')" "alike N N'"
      "length (fst mix1) = n" "length (snd mix1) = n" "length (fst mix1') = n" "length (snd mix1') = n"
      "\<forall>k<n. fst mix1 ! k - fst ?m ! k = fst mix1' ! k - fst ?m' ! k \<and> snd mix1 ! k - snd ?m ! k = snd mix1' ! k - snd ?m' ! k"
      by auto
    have "fst mix1 ! k - fst mix ! k = fst mix1' ! k - fst mix' ! k"
      "snd mix1 ! k - snd mix ! k = snd mix1' ! k - snd mix' ! k" if "k < n" for k
      using spec [OF *(7), of k] d [OF that] that by linarith+
    then show ?thesis using * True p' by auto
  next
    case False
    then show ?thesis using Cons.prems p p' d by auto
  qed
qed

text \<open>A voice on its own: what it becomes, and what it plays into a silent buffer of \<open>n\<close> samples.\<close>

definition silent :: "sas_voice \<Rightarrow> bool" where
  "silent v \<longleftrightarrow> \<not> sv_playing v \<or> sv_paused v \<or> sv_addr v = 0"

definition solo :: "nat \<Rightarrow> sas_voice \<Rightarrow> psp_machine \<Rightarrow> sas_voice \<times> int list \<times> int list" where
  "solo n v M =
     (if silent v then (v, replicate n 0, replicate n 0)
      else let (v1, M1, mix) = voice_loop [0..<n] (v, M) (replicate n 0, replicate n 0) in (v1, mix))"

lemma voice_loop_keeps:
  assumes "voice_loop is (v, M) mix = (v1, N, mix1)"
  shows "alike M N"
  using assms
proof (induction "is" arbitrary: v M mix)
  case (Cons i "is")
  obtain w K l r where p: "play_sample v M = (w, K, l, r)" by (metis prod_cases4)
  show ?case using Cons.IH [of w K] Cons.prems play_sample_alike [OF p] by (auto simp: p Let_def split: if_splits intro: alike_trans)
qed simp

lemma solo_added:
  assumes "alike M K" and "length (fst mix) = n" "length (snd mix) = n"
  shows "\<exists>K' mix'. (if silent v then (v, K, mix) else voice_loop [0..<n] (v, K) mix) = (fst (solo n v M), K', mix') \<and>
    alike M K' \<and> length (fst mix') = n \<and> length (snd mix') = n \<and>
    (\<forall>k<n. fst mix' ! k = fst mix ! k + fst (snd (solo n v M)) ! k \<and>
           snd mix' ! k = snd mix ! k + snd (snd (solo n v M)) ! k)"
proof (cases "silent v")
  case True
  then show ?thesis using assms by (simp add: solo_def)
next
  case False
  let ?z = "(replicate n 0 :: int list, replicate n 0 :: int list)"
  obtain v1 N mix1 where r: "voice_loop [0..<n] (v, M) ?z = (v1, N, mix1)" by (rule prod_cases3)
  obtain K' mix' where k: "voice_loop [0..<n] (v, K) mix = (v1, K', mix')" "alike N K'"
    "length (fst mix') = n" "length (snd mix') = n"
    "\<forall>k<n. fst mix1 ! k - fst ?z ! k = fst mix' ! k - fst mix ! k \<and> snd mix1 ! k - snd ?z ! k = snd mix' ! k - snd mix ! k"
    using voice_loop_linear [OF assms(1) r, of n mix] assms by auto
  have "solo n v M = (v1, mix1)" using False r by (simp add: solo_def)
  then show ?thesis using False k alike_trans [OF voice_loop_keeps [OF r] k(2)] by (auto simp: algebra_simps)
qed

lemma render_fold:
  assumes "m \<le> length vs"
  shows "\<exists>vs' N l r. fold (render_voice n) [0..<m] (vs, M, replicate n 0, replicate n 0) = (vs', N, l, r) \<and> alike M N \<and>
    length l = n \<and> length r = n \<and> length vs' = length vs \<and>
    (\<forall>k<n. l ! k = (\<Sum>j<m. fst (snd (solo n (vs ! j) M)) ! k) \<and> r ! k = (\<Sum>j<m. snd (snd (solo n (vs ! j) M)) ! k)) \<and>
    (\<forall>j<length vs. vs' ! j = (if j < m then fst (solo n (vs ! j) M) else vs ! j))"
  using assms
proof (induction m)
  case (Suc m)
  then obtain vs' N l r where *: "fold (render_voice n) [0..<m] (vs, M, replicate n 0, replicate n 0) = (vs', N, l, r)"
    "alike M N" "length l = n" "length r = n" "length vs' = length vs"
    "\<forall>k<n. l ! k = (\<Sum>j<m. fst (snd (solo n (vs ! j) M)) ! k) \<and> r ! k = (\<Sum>j<m. snd (snd (solo n (vs ! j) M)) ! k)"
    "\<forall>j<length vs. vs' ! j = (if j < m then fst (solo n (vs ! j) M) else vs ! j)"
    by auto
  have v: "vs' ! m = vs ! m" using *(7) Suc.prems by simp
  obtain K' mix' where k: "(if silent (vs ! m) then (vs ! m, N, (l, r)) else voice_loop [0..<n] (vs ! m, N) (l, r)) =
      (fst (solo n (vs ! m) M), K', mix')" "alike M K'" "length (fst mix') = n" "length (snd mix') = n"
    "\<forall>k<n. fst mix' ! k = l ! k + fst (snd (solo n (vs ! m) M)) ! k \<and> snd mix' ! k = r ! k + snd (snd (solo n (vs ! m) M)) ! k"
    using solo_added [OF *(2), of "(l, r)" n "vs ! m"] *(3,4) by auto
  have "render_voice n m (vs', N, l, r) = (vs'[m := fst (solo n (vs ! m) M)], K', mix')"
  proof (cases "silent (vs ! m)")
    case True
    then have "vs'[m := fst (solo n (vs ! m) M)] = vs'" using v list_update_id [of vs' m] by (simp add: solo_def)
    then show ?thesis using k(1) v True by (simp add: render_voice_def Let_def silent_def)
  next
    case False
    then show ?thesis using k(1) v by (simp add: render_voice_def Let_def silent_def)
  qed
  then show ?case
    using * k Suc.prems by (cases mix') (auto simp: nth_list_update less_Suc_eq)
qed simp

text \<open>
  C5. Voices are mixed independently. One call renders the sum, sample by sample and channel by channel,
  of what each voice plays alone from the memory before the call; every voice the mixer looks at ends
  up as it would alone, the others are untouched, and no memory is written.
\<close>
theorem render_is_sum:
  assumes "sas_max_voices A \<le> length (sas_voices A)"
  shows "\<exists>vs' M' l r. render n (A, M) = ((A\<lparr>sas_voices := vs'\<rparr>, M'), l, r) \<and> length l = n \<and> length r = n \<and>
    (\<forall>k<n. l ! k = (\<Sum>j<(sas_max_voices A). fst (snd (solo n (sas_voices A ! j) M)) ! k) \<and>
           r ! k = (\<Sum>j<(sas_max_voices A). snd (snd (solo n (sas_voices A ! j) M)) ! k)) \<and>
    length vs' = length (sas_voices A) \<and>
    (\<forall>j<length (sas_voices A). vs' ! j =
       (if j < sas_max_voices A then fst (solo n (sas_voices A ! j) M) else sas_voices A ! j)) \<and>
    store (mem M') = store (mem M)"
proof -
  obtain vs' N l r where f: "fold (render_voice n) [0..<sas_max_voices A] (sas_voices A, M, replicate n 0, replicate n 0) = (vs', N, l, r)"
    and *: "alike M N" "length l = n" "length r = n" "length vs' = length (sas_voices A)"
      "\<forall>k<n. l ! k = (\<Sum>j<(sas_max_voices A). fst (snd (solo n (sas_voices A ! j) M)) ! k) \<and>
         r ! k = (\<Sum>j<(sas_max_voices A). snd (snd (solo n (sas_voices A ! j) M)) ! k)"
      "\<forall>j<length (sas_voices A). vs' ! j =
         (if j < sas_max_voices A then fst (solo n (sas_voices A ! j) M) else sas_voices A ! j)"
    using render_fold [OF assms, of n M] by blast
  have "render n (A, M) = ((A\<lparr>sas_voices := vs'\<rparr>, N), l, r)" by (simp add: render_def f)
  moreover have "store (mem N) = store (mem M)" using *(1) by (simp add: alike_def)
  ultimately show ?thesis using *(2-6) by blast
qed

text \<open>A machine with one block: a header without prediction, then nibbles of 1.\<close>

definition tone_machine :: psp_machine where
  "tone_machine = boot_machine\<lparr>mem := boot_mem\<lparr>store := (\<lambda>_ i. if i mod 16 < 2 then 0 else 0x11)\<rparr>\<rparr>"

definition tone_voice :: sas_voice where
  "tone_voice = key_on (reset_voice\<lparr>sv_addr := 0x08000000, sv_size := 16, sv_attack := 0x40000000\<rparr>)"

definition two_tones :: sas where
  "two_tones = psp_sas_reset\<lparr>sas_voices := [tone_voice, tone_voice], sas_max_voices := 2\<rparr>"

lemma tone_solo: "fst (snd (solo 2 tone_voice tone_machine)) ! 1 = 4096" by code_simp

theorem render_is_sum_witness: "\<exists>S l r. render 2 (two_tones, tone_machine) = (S, l, r) \<and> l ! 1 = 8192"
proof -
  have "sas_max_voices two_tones \<le> length (sas_voices two_tones)" by (simp add: two_tones_def)
  from render_is_sum [OF this, of 2 tone_machine] show ?thesis
    by (fastforce simp: two_tones_def numeral_2_eq_2 tone_solo [unfolded numeral_2_eq_2 One_nat_def])
qed

section \<open>Registration\<close>

type_synonym sas_call = "sas \<times> psp_machine \<Rightarrow> sas \<times> psp_machine"

definition sas_rows :: "(u32 \<times> string \<times> sas_call) list" where
  "sas_rows =
    [(0x42778A9F, ''__sceSasInit'', hle_Init),
     (0x99944089, ''__sceSasSetVoice'', hle_SetVoice),
     (0xAD84D37F, ''__sceSasSetPitch'', hle_SetPitch),
     (0x440CA7D8, ''__sceSasSetVolume'', hle_SetVolume),
     (0x019B25EB, ''__sceSasSetADSR'', hle_SetADSR),
     (0x9EC3676A, ''__sceSasSetADSRmode'', hle_accept),
     (0xCBCD4F79, ''__sceSasSetSimpleADSR'', hle_SetSimpleADSR),
     (0x5F9529F6, ''__sceSasSetSL'', hle_accept),
     (0x76F01ACA, ''__sceSasSetKeyOn'', hle_SetKeyOn),
     (0xA0CF2FA4, ''__sceSasSetKeyOff'', hle_SetKeyOff),
     (0xA3589D81, ''__sceSasCore'', hle_Core),
     (0x50A14DFC, ''__sceSasCoreWithMix'', hle_CoreWithMix),
     (0x68A46B95, ''__sceSasGetEndFlag'', hle_GetEndFlag),
     (0x787D04D5, ''__sceSasSetPause'', hle_SetPause),
     (0x2C8E6AB3, ''__sceSasGetPauseFlag'', hle_GetPauseFlag),
     (0x74AE582A, ''__sceSasGetEnvelopeHeight'', hle_GetEnvelopeHeight),
     (0xB7660A23, ''__sceSasSetNoise'', hle_accept),
     (0x33D4AB37, ''__sceSasRevType'', hle_accept),
     (0x267A6DD2, ''__sceSasRevParam'', hle_accept),
     (0xD5A229C9, ''__sceSasRevEVOL'', hle_accept),
     (0xF983B186, ''__sceSasRevVON'', hle_accept)]"

definition psp_sas_register :: "sas_call hle_state \<Rightarrow> sas_call hle_state" where
  "psp_sas_register h = fold (\<lambda>(nid, name, f). psp_hle_register nid ''sceSasCore'' (Some name) f) sas_rows h"

section \<open>Every value in its type\<close>

text \<open>
  The ranges the C declarations and array bounds ask for: the history and the decoded samples are
  16-bit, the sample index points into the block, and between two calls the accumulator of a playing
  voice holds less than a sample.
\<close>

definition int16 :: "int \<Rightarrow> bool" where "int16 x \<longleftrightarrow> -32768 \<le> x \<and> x \<le> 32767"

definition samples_ok :: "sas_voice \<Rightarrow> bool" where
  "samples_ok v \<longleftrightarrow> length (sv_decoded v) = 28 \<and> (\<forall>x\<in>set (sv_decoded v). int16 x) \<and> int16 (sv_hist1 v) \<and> int16 (sv_hist2 v)"

definition voice_ok :: "sas_voice \<Rightarrow> bool" where
  "voice_ok v \<longleftrightarrow> samples_ok v \<and> sv_idx v < 28 \<and> (sv_playing v \<longrightarrow> sv_frac v < 0x1000)"

definition sas_ok :: "sas \<Rightarrow> bool" where
  "sas_ok A \<longleftrightarrow> length (sas_voices A) = SAS_VOICES \<and> 0 < sas_grain A \<and> sas_grain A \<le> SAS_MAX_GRAIN \<and>
     0 < sas_max_voices A \<and> sas_max_voices A \<le> SAS_VOICES \<and> (\<forall>v\<in>set (sas_voices A). voice_ok v)"

lemma int16_clamp [simp]: "int16 (clamp16 x)" by (simp add: int16_def clamp16_def)

lemma samples_ok_upd [simp]:
  "samples_ok (v\<lparr>sv_pos := p\<rparr>) = samples_ok v" "samples_ok (v\<lparr>sv_loop_pos := p\<rparr>) = samples_ok v"
  "samples_ok (v\<lparr>sv_end_pending := b\<rparr>) = samples_ok v" "samples_ok (v\<lparr>sv_valid := b\<rparr>) = samples_ok v"
  "samples_ok (v\<lparr>sv_idx := i\<rparr>) = samples_ok v" "samples_ok (v\<lparr>sv_frac := f\<rparr>) = samples_ok v"
  "samples_ok (v\<lparr>sv_playing := b\<rparr>) = samples_ok v" "samples_ok (v\<lparr>sv_ended := b\<rparr>) = samples_ok v"
  "samples_ok (v\<lparr>sv_env := e\<rparr>) = samples_ok v" "samples_ok (v\<lparr>sv_phase := ph\<rparr>) = samples_ok v"
  by (simp_all add: samples_ok_def)

lemma decode_fold_ok:
  "fold (decode_sample at shift filt) xs (v, M) = (v1, N) \<Longrightarrow> samples_ok v \<Longrightarrow> samples_ok v1 \<and> sv_idx v1 = sv_idx v"
proof (induction xs arbitrary: v M)
  case (Cons i xs)
  obtain w K where k: "decode_sample at shift filt i (v, M) = (w, K)" by fastforce
  have "samples_ok w \<and> sv_idx w = sv_idx v"
    using k Cons.prems(2) set_update_subset_insert [of "sv_decoded v" i "sv_hist1 w"]
    by (auto simp: decode_sample_def Let_def samples_ok_def vag_predict_def split: prod.splits)
  then show ?case using Cons k by simp
qed simp

lemma decode_block_ok:
  assumes "decode_block v M = (ok, v1, N)" and "samples_ok v"
  shows "samples_ok v1 \<and> sv_idx v1 = sv_idx v \<and> (ok \<longrightarrow> sv_valid v1)"
  using assms by (auto simp: decode_block_def Let_def simp del: upt_rec_numeral fold_simps split: if_splits prod.splits
      dest!: decode_fold_ok)

lemma next_block_ok:
  assumes "next_block v M = (ok, v1, N)" and "samples_ok v"
  shows "samples_ok v1" "sv_idx v1 = 0" "ok \<Longrightarrow> sv_valid v1" "\<not> ok \<Longrightarrow> \<not> sv_playing v1 \<and> sv_ended v1"
  using assms by (auto simp: next_block_def split: if_splits prod.splits dest!: decode_block_ok)

lemma advance_ok:
  assumes "advance v M = (v1, N)" and "samples_ok v" and "sv_idx v < 28"
  shows "samples_ok v1 \<and> sv_idx v1 < 28 \<and> (sv_playing v1 \<longrightarrow> sv_frac v1 < 0x1000)"
  using assms
proof (induction v M rule: advance.induct)
  case (1 v M)
  let ?v = "v\<lparr>sv_frac := sv_frac v - 0x1000, sv_idx := sv_idx v + 1\<rparr>"
  consider "sv_frac v < 0x1000" | "\<not> sv_frac v < 0x1000" "sv_idx ?v < 28" | "\<not> sv_frac v < 0x1000" "\<not> sv_idx ?v < 28"
    by blast
  then show ?case
  proof cases
    case 1
    then show ?thesis using "1.prems" by (simp add: advance.simps [of v])
  next
    case 2
    with "1.prems" have "advance ?v M = (v1, N)" by (simp add: advance.simps [of v M] Let_def)
    from "1.IH"(1) [OF 2(1) refl 2(2) this] "1.prems" 2 show ?thesis by simp
  next
    case 3
    obtain k w K where d: "next_block ?v M = (k, w, K)" by (rule prod_cases3)
    have "if k then advance w K = (v1, N) else v1 = w" using 3 d "1.prems" by (simp add: advance.simps [of v M] Let_def split: if_splits)
    then show ?thesis
      using "1.IH"(2) [OF 3(1) refl 3(2) d [symmetric] refl] next_block_ok [OF d] "1.prems"(2) by (auto split: if_splits)
  qed
qed

lemma step_envelope_ok: "step_envelope v = (e, v1) \<Longrightarrow> samples_ok v1 = samples_ok v \<and> sv_idx v1 = sv_idx v"
  by (auto simp: step_envelope_def Let_def split: env_phase.splits if_splits)

lemma play_sample_ok:
  assumes "play_sample v M = (v1, N, c)" and "voice_ok v"
  shows "voice_ok v1"
proof -
  let ?need = "\<not> sv_valid v \<or> sv_idx v \<ge> 28"
  obtain k w K where d: "(if ?need then next_block v M else (True, v, M)) = (k, w, K)" by (rule prod_cases3)
  obtain e u where e: "step_envelope w = (e, u)" by fastforce
  obtain x X where a: "advance (u\<lparr>sv_frac := sv_frac u + sv_pitch u\<rparr>) K = (x, X)" by fastforce
  have w: "samples_ok w \<and> sv_idx w < 28" "k \<or> \<not> sv_playing w"
    using d assms(2) next_block_ok [of v M k w K] by (auto simp: voice_ok_def split: if_splits)
  show ?thesis
    using assms(1) w advance_ok [OF a] step_envelope_ok [OF e]
    unfolding play_sample_def d Let_def prod.case e a voice_ok_def by (cases k) auto
qed

lemma voice_loop_ok: "voice_loop is (v, M) mix = (v1, N, mix1) \<Longrightarrow> voice_ok v \<Longrightarrow> voice_ok v1"
proof (induction "is" arbitrary: v M mix)
  case (Cons i "is")
  obtain w K l r where p: "play_sample v M = (w, K, l, r)" by (metis prod_cases4)
  show ?case using Cons play_sample_ok [OF p] by (auto simp: p Let_def split: if_splits)
qed simp

lemma solo_ok: "voice_ok v \<Longrightarrow> voice_ok (fst (solo n v M))"
  by (auto simp: solo_def split: prod.split dest: voice_loop_ok)

lemma render_ok:
  assumes "sas_ok A" and "render n (A, M) = ((B, N), mix)"
  shows "sas_ok B"
proof -
  have "sas_max_voices A \<le> length (sas_voices A)" using assms(1) by (simp add: sas_ok_def)
  from render_fold [OF this, of n M] obtain vs' N' l r where f:
    "fold (render_voice n) [0..<sas_max_voices A] (sas_voices A, M, replicate n 0, replicate n 0) = (vs', N', l, r)"
    "length vs' = length (sas_voices A)"
    "\<forall>j<length (sas_voices A). vs' ! j =
       (if j < sas_max_voices A then fst (solo n (sas_voices A ! j) M) else sas_voices A ! j)" by blast
  have "voice_ok (vs' ! j)" if "j < 32" for j
    using f(3) that assms(1) solo_ok by (auto simp: sas_ok_def)
  then have "\<forall>v\<in>set vs'. voice_ok v" using f(2) assms(1) by (auto simp: sas_ok_def in_set_conv_nth)
  then show ?thesis using assms f by (auto simp: render_def sas_ok_def)
qed

lemma sample_fold_ok: "sas_ok A \<Longrightarrow> sas_ok (fst (fold (sample_to_guest out add mix) is (A, M)))"
proof (induction "is" arbitrary: A M)
  case (Cons i "is")
  obtain B N where s: "sample_to_guest out add mix i (A, M) = (B, N)" by fastforce
  then have "sas_ok B" using Cons.prems by (auto simp: sample_to_guest_def Let_def sas_ok_def split: if_splits prod.splits)
  then show ?case using Cons.IH s by simp
qed simp

lemma mix_to_guest_ok: "sas_ok (fst S) \<Longrightarrow> sas_ok (fst (mix_to_guest out add S))"
proof -
  assume A: "sas_ok (fst S)"
  obtain B N mix where r: "render (sas_grain (fst S)) S = ((B, N), mix)" by (metis prod_cases3 surj_pair)
  then have "sas_ok B" using render_ok [of "fst S" _ "snd S"] A by simp
  from sample_fold_ok [OF this, of out add mix "[0..<sas_grain (fst S)]" N] show ?thesis
    by (auto simp: mix_to_guest_def r Let_def sas_ok_def split: prod.split)
qed

lemma sret_ok [simp]: "fst (sret x S) = fst S" by (simp add: sret_def)

lemma on_voice_ok:
  assumes "sas_ok (fst S)" and "\<And>v. voice_ok v \<Longrightarrow> voice_ok (f v)"
  shows "sas_ok (fst (on_voice f S))"
proof (cases "voice_arg S")
  case None
  then show ?thesis using assms by (simp add: on_voice_def)
next
  case (Some i)
  then have "i < length (sas_voices (fst S))"
    using assms(1) by (auto simp: voice_arg_def Let_def sas_ok_def word_less_nat_alt split: if_splits)
  then show ?thesis
    using assms Some set_update_subset_insert [of "sas_voices (fst S)" i "f (sas_voices (fst S) ! i)"]
    by (auto simp: on_voice_def sas_ok_def)
qed

lemma pause_fold_ok:
  "\<forall>v\<in>set vs. voice_ok v \<Longrightarrow>
   (\<forall>v\<in>set (fold (\<lambda>i vs. if P i then vs[i := (vs ! i)\<lparr>sv_paused := b\<rparr>] else vs) is vs). voice_ok v) \<and>
   length (fold (\<lambda>i vs. if P i then vs[i := (vs ! i)\<lparr>sv_paused := b\<rparr>] else vs) is vs) = length vs"
proof (induction "is" arbitrary: vs)
  case (Cons i "is")
  let ?vs = "if P i then vs[i := (vs ! i)\<lparr>sv_paused := b\<rparr>] else vs"
  have "\<forall>v\<in>set ?vs. voice_ok v"
  proof (cases "P i \<and> i < length vs")
    case True
    then have "voice_ok ((vs ! i)\<lparr>sv_paused := b\<rparr>)" using Cons.prems nth_mem [of i vs] by (auto simp: voice_ok_def samples_ok_def)
    then show ?thesis using True Cons.prems set_update_subset_insert [of vs i] by fastforce
  next
    case False
    then have "?vs = vs" by (cases "P i") (simp_all add: list_update_beyond)
    then show ?thesis using Cons.prems by simp
  qed
  from Cons.IH [OF this] show ?case by simp
qed simp

text \<open>
  C33. Every value of the mixer stays in its type. From the reset on, and through every firmware call of
  the table, there are 32 voices, a buffer of 1 to 1024 samples and 1 to 32 mixed voices; each voice's
  history and decoded samples are 16-bit and its sample index points into its block, so no array of the
  mixer is indexed out of range; and what is left in the accumulator of a playing voice is less than one
  sample.
\<close>
theorem sas_calls_keep_types:
  "sas_ok psp_sas_reset \<and> (\<forall>(nid, name, f)\<in>set sas_rows. sas_ok (fst S) \<longrightarrow> sas_ok (fst (f S)))"
proof -
  have r: "sas_ok psp_sas_reset"
    by (simp add: sas_ok_def psp_sas_reset_def voice_ok_def samples_ok_def reset_voice_def int16_def)
  have u: "voice_ok v \<Longrightarrow> voice_ok (rewind (v\<lparr>sv_addr := a, sv_size := b, sv_loop := c\<rparr>))"
    "voice_ok v \<Longrightarrow> voice_ok (v\<lparr>sv_pitch := a\<rparr>)" "voice_ok v \<Longrightarrow> voice_ok (v\<lparr>sv_vol_l := i, sv_vol_r := j\<rparr>)"
    "voice_ok v \<Longrightarrow> voice_ok (v\<lparr>sv_attack := i, sv_decay := j, sv_sustain := k, sv_release := l\<rparr>)"
    "voice_ok v \<Longrightarrow> voice_ok (key_on v)" "voice_ok v \<Longrightarrow> voice_ok (key_off v)" for v a b c i j k l
    by (auto simp: voice_ok_def samples_ok_def rewind_def key_on_def key_off_def int16_def)
  have a: "voice_ok v \<Longrightarrow> voice_ok (let flags = sarg 2 S;
       v1 = (if bit flags 0 then v\<lparr>sv_attack := sint (sarg 3 S)\<rparr> else v);
       v2 = (if bit flags 1 then v1\<lparr>sv_decay := sint (sarg 4 S)\<rparr> else v1);
       v3 = (if bit flags 2 then v2\<lparr>sv_sustain := sint (sarg 5 S)\<rparr> else v2)
       in if bit flags 3 then v3\<lparr>sv_release := sint (sarg 6 S)\<rparr> else v3)" for v
    by (auto simp: Let_def voice_ok_def samples_ok_def)
  have calls: "sas_ok (fst (hle_Init S))" "sas_ok (fst (hle_SetVoice S))" "sas_ok (fst (hle_SetPitch S))"
    "sas_ok (fst (hle_SetVolume S))" "sas_ok (fst (hle_SetADSR S))" "sas_ok (fst (hle_SetSimpleADSR S))"
    "sas_ok (fst (hle_SetKeyOn S))" "sas_ok (fst (hle_SetKeyOff S))" "sas_ok (fst (hle_Core S))"
    "sas_ok (fst (hle_CoreWithMix S))" "sas_ok (fst (hle_GetEndFlag S))" "sas_ok (fst (hle_SetPause S))"
    "sas_ok (fst (hle_GetPauseFlag S))" "sas_ok (fst (hle_GetEnvelopeHeight S))" "sas_ok (fst (hle_accept S))"
    if A: "sas_ok (fst S)"
  proof -
    show "sas_ok (fst (hle_SetVoice S))" "sas_ok (fst (hle_SetPitch S))" "sas_ok (fst (hle_SetVolume S))"
      "sas_ok (fst (hle_SetADSR S))" "sas_ok (fst (hle_SetSimpleADSR S))" "sas_ok (fst (hle_SetKeyOn S))" "sas_ok (fst (hle_SetKeyOff S))"
      unfolding hle_SetVoice_def hle_SetPitch_def hle_SetVolume_def hle_SetADSR_def hle_SetSimpleADSR_def
        hle_SetKeyOn_def hle_SetKeyOff_def
      by (rule on_voice_ok [OF A]; erule u a)+
    show "sas_ok (fst (hle_Core S))" "sas_ok (fst (hle_CoreWithMix S))"
      using A mix_to_guest_ok [OF A] by (simp_all add: hle_Core_def hle_CoreWithMix_def)
    show "sas_ok (fst (hle_GetEndFlag S))" "sas_ok (fst (hle_GetPauseFlag S))" "sas_ok (fst (hle_GetEnvelopeHeight S))"
      "sas_ok (fst (hle_accept S))"
      using A by (simp_all add: hle_GetEndFlag_def hle_GetPauseFlag_def hle_GetEnvelopeHeight_def hle_accept_def)
    show "sas_ok (fst (hle_Init S))"
      using A by (auto simp: hle_Init_def sas_ok_def word_le_nat_alt word_less_nat_alt unat_gt_0)
    show "sas_ok (fst (hle_SetPause S))"
      using A pause_fold_ok [of "sas_voices (fst S)" "\<lambda>i. bit (sarg 1 S) i" "sarg 2 S \<noteq> 0" "[0..<32]"]
      by (simp add: hle_SetPause_def sas_ok_def del: upt_rec_numeral fold_simps One_nat_def)
  qed
  then show ?thesis using r by (simp add: sas_rows_def)
qed

theorem sas_calls_keep_types_witness:
  "sas_ok (fst (hle_SetKeyOn (psp_sas_reset, boot_machine)))"
proof -
  have "(0x76F01ACA, ''__sceSasSetKeyOn'', hle_SetKeyOn) \<in> set sas_rows" by (simp add: sas_rows_def)
  with sas_calls_keep_types [of "(psp_sas_reset, boot_machine)"] show ?thesis by fastforce
qed

section \<open>A one-shot sound ends\<close>

text \<open>The source samples a voice without a loop has left, and what they are worth in accumulator steps.\<close>

definition blocks_left :: "sas_voice \<Rightarrow> nat" where
  "blocks_left v = (if sv_end_pending v \<or> sv_size v < sv_pos v then 0 else (unat (sv_size v) - unat (sv_pos v)) div 16)"

definition samples_left :: "sas_voice \<Rightarrow> nat" where
  "samples_left v = 28 * blocks_left v + (if sv_valid v then 28 - sv_idx v else 0)"

lemma decode_fold_same:
  "fold (decode_sample at shift filt) xs (v, M) = (v1, N) \<Longrightarrow>
   sv_size v1 = sv_size v \<and> sv_pos v1 = sv_pos v \<and> sv_loop v1 = sv_loop v \<and> sv_end_pending v1 = sv_end_pending v \<and>
   sv_pitch v1 = sv_pitch v \<and> sv_playing v1 = sv_playing v \<and> sv_ended v1 = sv_ended v"
proof (induction xs arbitrary: v M)
  case (Cons i xs)
  obtain w K where k: "decode_sample at shift filt i (v, M) = (w, K)" by fastforce
  then have "sv_size w = sv_size v \<and> sv_pos w = sv_pos v \<and> sv_loop w = sv_loop v \<and> sv_end_pending w = sv_end_pending v \<and>
    sv_pitch w = sv_pitch v \<and> sv_playing w = sv_playing v \<and> sv_ended w = sv_ended v"
    by (auto simp: decode_sample_def Let_def split: prod.splits)
  then show ?case using Cons k by simp
qed simp

text \<open>A sample whose size leaves the sum \<open>pos + 16\<close> below 2^32.\<close>

abbreviation sized :: "sas_voice \<Rightarrow> bool" where
  "sized v \<equiv> \<not> sv_loop v \<and> sv_size v \<le> 0xFFFFFFE0 \<and> sv_pos v \<le> sv_size v"

lemma decode_block_done:
  assumes "decode_block v M = (True, v1, N)"
  obtains v0 v2 K where "v0 = v \<or> v0 = v\<lparr>sv_loop_pos := sv_pos v\<rparr>"
    "\<exists>at shift filt. fold (decode_sample at shift filt) [0..<28] (v0, K) = (v2, N)"
    "v1 = v2\<lparr>sv_pos := sv_pos v2 + 16, sv_valid := True\<rparr> \<or>
     v1 = v2\<lparr>sv_pos := sv_pos v2 + 16, sv_end_pending := True, sv_valid := True\<rparr> \<or>
     sv_loop v2 \<and> v1 = v2\<lparr>sv_pos := sv_loop_pos v2, sv_valid := True\<rparr>"
proof -
  let ?at = "sv_addr v + sv_pos v"
  obtain hdr M1 where h: "psp_read8 ?at M = (hdr, M1)" by fastforce
  obtain fl M2 where f: "psp_read8 (?at + 1) M1 = (fl, M2)" by fastforce
  define v0 where "v0 = (if bit fl 2 then v\<lparr>sv_loop_pos := sv_pos v\<rparr> else v)"
  define shift filt where "shift = unat (hdr AND 0x0F)"
    and "filt = (if unat (drop_bit 4 hdr AND 0x0F) > 4 then 0 else unat (drop_bit 4 hdr AND 0x0F))"
  obtain v2 M3 where d: "fold (decode_sample ?at shift filt) [0..<28] (v0, M2) = (v2, M3)" by fastforce
  have n: "\<not> sv_end_pending v" "\<not> sv_pos v + 16 > sv_size v" using assms by (auto simp: decode_block_def split: if_splits)
  note e = assms [unfolded decode_block_def Let_def h prod.case f v0_def [symmetric] shift_def [symmetric] filt_def [symmetric]
      if_not_P [OF n(1)] if_not_P [OF n(2)] d]
  have N: "M3 = N" using e by (auto split: if_splits)
  show ?thesis
  proof (rule that [of v0 M2 v2])
    show "v0 = v \<or> v0 = v\<lparr>sv_loop_pos := sv_pos v\<rparr>" by (simp add: v0_def)
    show "\<exists>at shift filt. fold (decode_sample at shift filt) [0..<28] (v0, M2) = (v2, N)" using d N by blast
    show "v1 = v2\<lparr>sv_pos := sv_pos v2 + 16, sv_valid := True\<rparr> \<or>
     v1 = v2\<lparr>sv_pos := sv_pos v2 + 16, sv_end_pending := True, sv_valid := True\<rparr> \<or>
     sv_loop v2 \<and> v1 = v2\<lparr>sv_pos := sv_loop_pos v2, sv_valid := True\<rparr>" using e by (auto split: if_splits)
  qed
qed

lemma decode_block_fields:
  assumes "decode_block v M = (True, v1, N)"
  shows "sv_size v1 = sv_size v \<and> sv_loop v1 = sv_loop v \<and> sv_pitch v1 = sv_pitch v \<and> sv_playing v1 = sv_playing v \<and>
    (\<not> sv_loop v \<longrightarrow> sv_pos v1 = sv_pos v + 16)"
proof (rule decode_block_done [OF assms])
  fix v0 v2 K
  assume "v0 = v \<or> v0 = v\<lparr>sv_loop_pos := sv_pos v\<rparr>"
    "\<exists>at shift filt. fold (decode_sample at shift filt) [0..<28] (v0, K) = (v2, N)"
    "v1 = v2\<lparr>sv_pos := sv_pos v2 + 16, sv_valid := True\<rparr> \<or>
     v1 = v2\<lparr>sv_pos := sv_pos v2 + 16, sv_end_pending := True, sv_valid := True\<rparr> \<or>
     sv_loop v2 \<and> v1 = v2\<lparr>sv_pos := sv_loop_pos v2, sv_valid := True\<rparr>"
  moreover from this(2) obtain at shift filt where "fold (decode_sample at shift filt) [0..<28] (v0, K) = (v2, N)" by blast
  from decode_fold_same [OF this] have "sv_size v2 = sv_size v0 \<and> sv_pos v2 = sv_pos v0 \<and> sv_loop v2 = sv_loop v0 \<and>
    sv_pitch v2 = sv_pitch v0 \<and> sv_playing v2 = sv_playing v0" by blast
  ultimately show ?thesis by (elim disjE) simp_all
qed

lemma decode_block_left:
  assumes "decode_block v M = (True, v1, N)" and "sized v"
  shows "blocks_left v1 < blocks_left v" "sized v1" "sv_pitch v1 = sv_pitch v" "sv_playing v1 = sv_playing v"
proof -
  have n: "\<not> sv_end_pending v" "\<not> sv_size v < sv_pos v + 16" using assms(1) by (auto simp: decode_block_def split: if_splits)
  have u: "unat (sv_pos v + 16) = unat (sv_pos v) + 16"
    using assms(2) by (simp add: unat_plus_simple [THEN iffD1] word_le_nat_alt unat_word_ariths)
  from decode_block_fields [OF assms(1)] assms(2)
  have "sv_size v1 = sv_size v \<and> sv_pos v1 = sv_pos v + 16 \<and> \<not> sv_loop v1 \<and> sv_pitch v1 = sv_pitch v \<and>
      sv_playing v1 = sv_playing v" by simp
  then show "blocks_left v1 < blocks_left v" "sized v1" "sv_pitch v1 = sv_pitch v" "sv_playing v1 = sv_playing v"
    using n assms(2) u by (auto simp: blocks_left_def word_less_nat_alt word_le_nat_alt)
qed

lemma decode_block_stop:
  "decode_block v M = (False, v1, N) \<Longrightarrow> v1 = v"
  by (auto simp: decode_block_def Let_def simp del: upt_rec_numeral fold_simps split: if_splits prod.splits)

lemma next_block_left:
  assumes "next_block v M = (True, v1, N)" and "sized v"
  shows "28 + 28 * blocks_left v1 \<le> 28 * blocks_left v" "sized v1" "sv_pitch v1 = sv_pitch v" "sv_playing v1 = sv_playing v"
proof -
  have d: "decode_block (v\<lparr>sv_idx := 0\<rparr>) M = (True, v1, N)" using assms(1) by (auto simp: next_block_def split: if_splits prod.splits)
  have s: "sized (v\<lparr>sv_idx := 0\<rparr>)" "blocks_left (v\<lparr>sv_idx := 0\<rparr>) = blocks_left v" using assms(2) by (simp_all add: blocks_left_def)
  note L = decode_block_left [OF d s(1)]
  from L(1) have "Suc (blocks_left v1) \<le> blocks_left v" unfolding s(2) by simp
  then show "28 + 28 * blocks_left v1 \<le> 28 * blocks_left v" by linarith
  show "sized v1" "sv_pitch v1 = sv_pitch v" "sv_playing v1 = sv_playing v" using L(2-4) by simp_all
qed

text \<open>Resampling uses up what it steps over, unless the sound ends.\<close>

lemma advance_left:
  assumes "advance v M = (v1, N)" and "samples_ok v" "sv_idx v < 28" "sv_valid v" "sized v"
  shows "(sv_playing v1 \<longrightarrow> 0x1000 * samples_left v1 + unat (sv_frac v) \<le> 0x1000 * samples_left v + unat (sv_frac v1) \<and>
      sv_valid v1 \<and> sized v1 \<and> sv_pitch v1 = sv_pitch v) \<and> (\<not> sv_playing v1 \<longrightarrow> sv_playing v \<longrightarrow> sv_ended v1)"
  using assms
proof (induction v M rule: advance.induct)
  case (1 v M)
  let ?v = "v\<lparr>sv_frac := sv_frac v - 0x1000, sv_idx := sv_idx v + 1\<rparr>"
  have f: "unat (sv_frac v - 0x1000) + 0x1000 = unat (sv_frac v)" if "\<not> sv_frac v < 0x1000"
    using that unat_sub [of "0x1000" "sv_frac v"] by (simp add: word_le_nat_alt word_less_nat_alt)
  consider "sv_frac v < 0x1000" | "\<not> sv_frac v < 0x1000" "sv_idx ?v < 28" | "\<not> sv_frac v < 0x1000" "\<not> sv_idx ?v < 28"
    by blast
  then show ?case
  proof cases
    case 1
    then show ?thesis using "1.prems" by (simp add: advance.simps [of v])
  next
    case 2
    have r: "advance ?v M = (v1, N)" using 2 "1.prems"(1) by (simp add: advance.simps [of v M] Let_def)
    have bl: "blocks_left ?v = blocks_left v" by (simp add: blocks_left_def)
    have "samples_left v = samples_left ?v + 1" using 2(2) "1.prems"(4) unfolding samples_left_def bl by simp
    then show ?thesis
      using "1.IH"(1) [OF 2(1) refl 2(2) r] f [OF 2(1)] "1.prems"(2-) 2(2) by auto
  next
    case 3
    obtain k w K where d: "next_block ?v M = (k, w, K)" by (rule prod_cases3)
    have s: "sized ?v" "samples_ok ?v" using "1.prems"(2,5) by simp_all
    note ok = next_block_ok [OF d s(2)]
    show ?thesis
    proof (cases k)
      case False
      then have "v1 = w" using 3 d "1.prems"(1) by (simp add: advance.simps [of v M] Let_def)
      then show ?thesis using ok(4) False by simp
    next
      case True
      then have r: "advance w K = (v1, N)" using 3 d "1.prems"(1) by (simp add: advance.simps [of v M] Let_def)
      have d1: "next_block ?v M = (True, w, K)" using d True by simp
      note L = next_block_left [OF d1 s(1)]
      have i: "sv_idx v = 27" using 3(2) "1.prems"(3) by simp
      have fr: "sv_frac w = sv_frac v - 0x1000" using next_block_frac [OF d] by simp
      have bl: "blocks_left ?v = blocks_left v" by (simp add: blocks_left_def)
      have "samples_left w + 1 \<le> samples_left v"
        using L(1) ok(2,3) True i "1.prems"(4) unfolding bl by (simp add: samples_left_def)
      then have leq: "0x1000 * samples_left w + 0x1000 \<le> 0x1000 * samples_left v" by linarith
      have iw: "sv_idx w < 28" and vw: "sv_valid w" using ok(2,3) True by simp_all
      have frw: "unat (sv_frac w) + 0x1000 = unat (sv_frac v)" using f [OF 3(1)] fr by simp
      note IH = "1.IH"(2) [OF 3(1) refl 3(2) d [symmetric] refl True r ok(1) iw vw L(2)]
      have pw: "sv_pitch w = sv_pitch v" "sv_playing w = sv_playing v" using L(3,4) by simp_all
      show ?thesis
      proof (intro conjI impI)
        assume "sv_playing v1"
        then have *: "0x1000 * samples_left v1 + unat (sv_frac w) \<le> 0x1000 * samples_left w + unat (sv_frac v1)"
          "sv_valid v1" "sized v1" "sv_pitch v1 = sv_pitch w" using IH by blast+
        show "0x1000 * samples_left v1 + unat (sv_frac v) \<le> 0x1000 * samples_left v + unat (sv_frac v1)"
          using *(1) leq frw by linarith
        show "sv_valid v1" "\<not> sv_loop v1" "sv_size v1 \<le> 0xFFFFFFE0" "sv_pos v1 \<le> sv_size v1" "sv_pitch v1 = sv_pitch v"
          using *(2-4) pw by simp_all
      next
        assume "\<not> sv_playing v1" "sv_playing v"
        then show "sv_ended v1" using IH pw by blast
      qed
    qed
  qed
qed

lemma samples_left_upd [simp]:
  "samples_left (v\<lparr>sv_env := x\<rparr>) = samples_left v" "samples_left (v\<lparr>sv_phase := ph\<rparr>) = samples_left v"
  "samples_left (v\<lparr>sv_playing := b\<rparr>) = samples_left v" "samples_left (v\<lparr>sv_ended := b\<rparr>) = samples_left v"
  by (simp_all add: samples_left_def blocks_left_def)

lemma step_envelope_left:
  assumes "step_envelope v = (e, v1)"
  shows "sv_valid v1 = sv_valid v" "sv_loop v1 = sv_loop v" "sv_size v1 = sv_size v" "sv_pos v1 = sv_pos v"
    "samples_left v1 = samples_left v" "sv_pitch v1 = sv_pitch v" "sv_frac v1 = sv_frac v"
    "sv_playing v \<Longrightarrow> sv_playing v1 \<or> sv_ended v1"
  using assms by (cases "sv_phase v"; auto simp: step_envelope_def Let_def split: if_splits)+

lemma decode_block_flags:
  assumes d: "decode_block v M = (ok, v1, N)"
  shows "sv_ended v1 = sv_ended v \<and> sv_playing v1 = sv_playing v"
proof (cases ok)
  case True
  show ?thesis
  proof (rule decode_block_done [OF d [unfolded eqTrueI [OF True]]])
    fix v0 v2 K
    assume "v0 = v \<or> v0 = v\<lparr>sv_loop_pos := sv_pos v\<rparr>"
      "\<exists>at shift filt. fold (decode_sample at shift filt) [0..<28] (v0, K) = (v2, N)"
      "v1 = v2\<lparr>sv_pos := sv_pos v2 + 16, sv_valid := True\<rparr> \<or>
       v1 = v2\<lparr>sv_pos := sv_pos v2 + 16, sv_end_pending := True, sv_valid := True\<rparr> \<or>
       sv_loop v2 \<and> v1 = v2\<lparr>sv_pos := sv_loop_pos v2, sv_valid := True\<rparr>"
    moreover from this(2) obtain at shift filt where "fold (decode_sample at shift filt) [0..<28] (v0, K) = (v2, N)" by blast
    from decode_fold_same [OF this] have "sv_playing v2 = sv_playing v0 \<and> sv_ended v2 = sv_ended v0" by blast
    ultimately show ?thesis by (elim disjE) simp_all
  qed
next
  case False
  then show ?thesis using decode_block_stop [of v M v1 N] d by simp
qed

lemma advance_ended: "advance v M = (v1, N) \<Longrightarrow> sv_ended v \<Longrightarrow> sv_ended v1"
proof (induction v M rule: advance.induct)
  case (1 v M)
  let ?v = "v\<lparr>sv_frac := sv_frac v - 0x1000, sv_idx := sv_idx v + 1\<rparr>"
  consider "sv_frac v < 0x1000" | "\<not> sv_frac v < 0x1000" "sv_idx ?v < 28" | "\<not> sv_frac v < 0x1000" "\<not> sv_idx ?v < 28"
    by blast
  then show ?case
  proof cases
    case 1
    then show ?thesis using "1.prems" by (simp add: advance.simps [of v])
  next
    case 2
    with "1.prems" have "advance ?v M = (v1, N)" by (simp add: advance.simps [of v M] Let_def)
    from "1.IH"(1) [OF 2(1) refl 2(2) this] "1.prems" show ?thesis by simp
  next
    case 3
    obtain k w K where d: "next_block ?v M = (k, w, K)" by (rule prod_cases3)
    have "if k then advance w K = (v1, N) else v1 = w" using 3 d "1.prems" by (simp add: advance.simps [of v M] Let_def split: if_splits)
    moreover have "sv_ended w" using d "1.prems"(2) by (auto simp: next_block_def split: if_splits prod.splits dest: decode_block_flags)
    ultimately show ?thesis
      using "1.IH"(2) [OF 3(1) refl 3(2) d [symmetric] refl] by (auto split: if_splits)
  qed
qed

lemma play_sample_left:
  assumes "play_sample v M = (v1, N, c)" and "voice_ok v" "sized v" "sv_playing v" "sv_pitch v \<le> 0xFFFFF000"
  shows "(sv_playing v1 \<longrightarrow> 0x1000 * samples_left v1 + unat (sv_pitch v) + unat (sv_frac v) \<le> 0x1000 * samples_left v + unat (sv_frac v1) \<and>
      sv_valid v1 \<and> sized v1 \<and> sv_pitch v1 = sv_pitch v) \<and> (\<not> sv_playing v1 \<longrightarrow> sv_ended v1)"
proof -
  have ok: "samples_ok v" "sv_idx v < 28" "sv_frac v < 0x1000" using assms(2,4) by (simp_all add: voice_ok_def)
  let ?need = "\<not> sv_valid v \<or> sv_idx v \<ge> 28"
  obtain k w K where d: "(if ?need then next_block v M else (True, v, M)) = (k, w, K)" by (rule prod_cases3)
  show ?thesis
  proof (cases k)
    case False
    then have nb: "next_block v M = (False, w, K)" using d by (auto split: if_splits)
    have "v1 = w" using assms(1) False unfolding play_sample_def d Let_def prod.case by simp
    then show ?thesis using next_block_ok(4) [OF nb ok(1)] by simp
  next
    case True
    have "samples_ok w \<and> sv_idx w < 28 \<and> sv_valid w \<and> sized w \<and> samples_left w \<le> samples_left v \<and>
      sv_frac w = sv_frac v \<and> sv_pitch w = sv_pitch v \<and> sv_playing w"
    proof (cases "sv_valid v")
      case True
      then have "w = v" using d ok(2) by (simp split: if_splits)
      then show ?thesis using assms ok True by simp
    next
      case False
      then have nb: "next_block v M = (True, w, K)" using d \<open>k\<close> by simp
      note L = next_block_left [OF nb assms(3)] and O = next_block_ok [OF nb ok(1)]
      have "samples_left w \<le> samples_left v" using L(1) O(2,3) False by (simp add: samples_left_def)
      then show ?thesis using L(2-4) O(1-3) next_block_frac [OF nb] assms(4) by simp
    qed
    then have W: "samples_ok w" "sv_idx w < 28" "sv_valid w" "sized w" "samples_left w \<le> samples_left v" "sv_frac w = sv_frac v"
      "sv_pitch w = sv_pitch v" "sv_playing w" by simp_all
    obtain e u where e: "step_envelope w = (e, u)" by fastforce
    let ?u = "u\<lparr>sv_frac := sv_frac u + sv_pitch u\<rparr>"
    obtain x X where a: "advance ?u K = (x, X)" by fastforce
    have x: "v1 = x" using assms(1) True unfolding play_sample_def d Let_def prod.case e a by simp
    have U: "sv_valid u" "sized u" "samples_left u \<le> samples_left v" "sv_pitch u = sv_pitch v" "sv_frac u = sv_frac v"
      "samples_ok u" "sv_idx u < 28"
      using W step_envelope_left [OF e] step_envelope_ok [OF e] by simp_all
    have fr: "unat (sv_frac u + sv_pitch u) = unat (sv_frac v) + unat (sv_pitch v)"
      using ok(3) assms(5) U(4,5) by (simp add: unat_word_ariths word_less_nat_alt word_le_nat_alt)
    have su: "samples_left ?u = samples_left u" by (simp add: samples_left_def blocks_left_def)
    have "samples_ok ?u" "sv_idx ?u < 28" "sv_valid ?u" "sized ?u" using U by simp_all
    note A = advance_left [OF a this]
    have pe: "sv_playing u \<or> sv_ended u" by (rule step_envelope_left(8) [OF e W(8)])
    show ?thesis
    proof (intro conjI impI)
      assume p: "sv_playing v1"
      then have *: "0x1000 * samples_left x + unat (sv_frac ?u) \<le> 0x1000 * samples_left ?u + unat (sv_frac x)"
        "sv_valid x" "sized x" "sv_pitch x = sv_pitch ?u" using A x by blast+
      from *(1) have "0x1000 * samples_left x + (unat (sv_frac v) + unat (sv_pitch v)) \<le> 0x1000 * samples_left u + unat (sv_frac x)"
        unfolding su by (simp add: fr)
      with U(3) show "0x1000 * samples_left v1 + unat (sv_pitch v) + unat (sv_frac v) \<le> 0x1000 * samples_left v + unat (sv_frac v1)"
        unfolding x by linarith
      show "sv_valid v1" "\<not> sv_loop v1" "sv_size v1 \<le> 0xFFFFFFE0" "sv_pos v1 \<le> sv_size v1" "sv_pitch v1 = sv_pitch v"
        using *(2-4) U(4) x by simp_all
    next
      assume "\<not> sv_playing v1"
      moreover have "sv_ended x" if "sv_ended u" using advance_ended [OF a] that by simp
      moreover have "sv_ended x" if "sv_playing u" "\<not> sv_playing x" using A that by simp
      ultimately show "sv_ended v1" using pe x by blast
    qed
  qed
qed

lemma voice_loop_left:
  assumes "voice_loop is (v, M) mix = (v1, N, mix1)" and "voice_ok v" "sized v" "sv_playing v" "sv_pitch v \<le> 0xFFFFF000"
  shows "(sv_playing v1 \<longrightarrow> 0x1000 * samples_left v1 + length is * unat (sv_pitch v) + unat (sv_frac v) \<le>
        0x1000 * samples_left v + unat (sv_frac v1) \<and> (is \<noteq> [] \<longrightarrow> sv_valid v1) \<and> voice_ok v1) \<and>
    (\<not> sv_playing v1 \<longrightarrow> sv_ended v1)"
  using assms
proof (induction "is" arbitrary: v M mix)
  case (Cons i "is")
  obtain w K l r where p: "play_sample v M = (w, K, l, r)" by (metis prod_cases4)
  note P = play_sample_left [OF p Cons.prems(2-)]
  let ?m = "((fst mix)[i := fst mix ! i + l], (snd mix)[i := snd mix ! i + r])"
  show ?case
  proof (cases "sv_playing w")
    case False
    then have "v1 = w" using Cons.prems(1) p by simp
    then show ?thesis using P False by simp
  next
    case True
    then have run: "voice_loop is (w, K) ?m = (v1, N, mix1)" using Cons.prems(1) p by simp
    have w: "0x1000 * samples_left w + unat (sv_pitch v) + unat (sv_frac v) \<le> 0x1000 * samples_left v + unat (sv_frac w)"
      "sv_valid w" "sized w" "sv_pitch w = sv_pitch v" using P True by blast+
    have pw: "sv_pitch w \<le> 0xFFFFF000" using Cons.prems(5) w(4) by simp
    note IH = Cons.IH [OF run play_sample_ok [OF p Cons.prems(2)] w(3) True pw]
    have v: "is = [] \<longrightarrow> v1 = w" using run by auto
    show ?thesis
    proof (intro conjI impI)
      assume q: "sv_playing v1"
      then have *: "0x1000 * samples_left v1 + length is * unat (sv_pitch v) + unat (sv_frac w) \<le> 0x1000 * samples_left w + unat (sv_frac v1)"
        using IH w(4) by auto
      show "0x1000 * samples_left v1 + length (i # is) * unat (sv_pitch v) + unat (sv_frac v) \<le> 0x1000 * samples_left v + unat (sv_frac v1)"
        using * w(1) by simp
      show "sv_valid v1" "voice_ok v1" using IH q v w(2) by auto
    qed (use IH in blast)
  qed
qed simp

text \<open>
  C32. A one-shot sound ends. A voice without a loop that is keyed on stops, and reports that it has
  ended, within a number of output samples given by its size and its pitch alone, whatever the
  sample data are, so a game that waits for the end flag of a sound gets it. The size must leave the
  sum \<open>pos + 16\<close> below 2^32, and the pitch must not wrap the accumulator.
\<close>
theorem one_shot_ends:
  assumes "samples_ok v" "\<not> sv_loop v" "sv_size v \<le> 0xFFFFFFE0" "sv_pitch v \<le> 0xFFFFF000"
    and "voice_loop is (key_on v, M) mix = (v1, N, mix1)"
    and "0x1000 * 28 * (unat (sv_size v) div 16 + 1) \<le> length is * unat (sv_pitch v)"
  shows "\<not> sv_playing v1 \<and> sv_ended v1"
proof -
  have k: "voice_ok (key_on v)" "sized (key_on v)" "sv_playing (key_on v)" "sv_pitch (key_on v) \<le> 0xFFFFF000"
    "sv_pitch (key_on v) = sv_pitch v" "sv_frac (key_on v) = 0" "samples_left (key_on v) = 28 * (unat (sv_size v) div 16)"
    using assms(1-4) by (auto simp: key_on_def rewind_def voice_ok_def samples_ok_def samples_left_def blocks_left_def int16_def)
  note L = voice_loop_left [OF assms(5) k(1-4)]
  have "\<not> sv_playing v1"
  proof
    assume p: "sv_playing v1"
    then have *: "0x1000 * samples_left v1 + length is * unat (sv_pitch v) \<le> 0x1000 * (28 * (unat (sv_size v) div 16)) + unat (sv_frac v1)"
      "voice_ok v1" using L k(5-7) by auto
    have "unat (sv_frac v1) < 0x1000" using *(2) p by (simp add: voice_ok_def word_less_nat_alt)
    then show False using *(1) assms(6) by simp
  qed
  then show ?thesis using L by blast
qed

theorem one_shot_ends_witness:
  "\<not> sv_playing (fst (voice_loop [0..<56] (key_on (reset_voice\<lparr>sv_addr := 0x08000000, sv_size := 16\<rparr>), tone_machine)
     (replicate 56 0, replicate 56 0)))"
proof -
  let ?v = "reset_voice\<lparr>sv_addr := 0x08000000, sv_size := 16\<rparr>"
  obtain v1 N mix1 where r: "voice_loop [0..<56] (key_on ?v, tone_machine) (replicate 56 0, replicate 56 0) = (v1, N, mix1)"
    by (rule prod_cases3)
  have "samples_ok ?v" by (simp add: samples_ok_def reset_voice_def int16_def)
  from one_shot_ends [OF this _ _ _ r] have "\<not> sv_playing v1" by (simp add: reset_voice_def)
  then show ?thesis using r by simp
qed

end
