(* ===== verification/SasRange.thy ===== *)
theory SasRange
  imports Sas
begin

text \<open>
  When the mixer of \<^verbatim>\<open>src/hle/sascore.c\<close> stays inside \<^verbatim>\<open>int32_t\<close>. The definitions of \<open>Sas\<close> compute in the
  integers, where the source adds and multiplies 32-bit values that the guest chooses; for rates of at
  most one full envelope a sample, and volumes below sixteen times unity, every sum and product has a
  32-bit result, so the two agree. \<open>envelope_in_range\<close>, \<open>sample_in_range\<close>, \<open>filter_in_range\<close> and
  \<open>mix_in_range\<close> go through the arithmetic of \<^verbatim>\<open>step_envelope\<close>, of one sample, of the decoder and of the
  mix of up to 32 voices; \<open>release_overflows\<close> and \<open>volume_overflows\<close> are values the calls accept for
  which the source overflows.
\<close>

definition int32 :: "int \<Rightarrow> bool" where "int32 x \<longleftrightarrow> -2147483648 \<le> x \<and> x \<le> 2147483647"

definition rates_ok :: "sas_voice \<Rightarrow> bool" where
  "rates_ok v \<longleftrightarrow> 0 \<le> sv_env v \<and> sv_env v \<le> 0x40000000 \<and> 0 \<le> sv_attack v \<and> sv_attack v < 0x40000000 \<and>
     0 \<le> sv_decay v \<and> sv_decay v \<le> 0x40000000 \<and> 0 \<le> sv_sustain v \<and> sv_sustain v \<le> 0x40000000 \<and>
     0 \<le> sv_release v \<and> sv_release v \<le> 0x40000000 \<and> \<bar>sv_vol_l v\<bar> \<le> 65535 \<and> \<bar>sv_vol_r v\<bar> \<le> 65535"

lemma reset_rates_ok: "\<forall>v\<in>set (sas_voices psp_sas_reset). rates_ok v"
  by (simp add: psp_sas_reset_def reset_voice_def rates_ok_def)

section \<open>One sample\<close>

lemma envelope_in_range:
  assumes "rates_ok v" and "step_envelope v = (env, v1)"
  shows "int32 (sv_env v + sv_attack v)" "int32 (sv_env v - sv_decay v)" "int32 (sv_env v - sv_release v)"
    "0 \<le> env \<and> env \<le> 0x40000000" "rates_ok v1"
  using assms by (cases "sv_phase v"; auto simp: rates_ok_def int32_def step_envelope_def Let_def split: if_splits)+

lemma int16_abs: "int16 x \<Longrightarrow> \<bar>x\<bar> \<le> 32768"
  by (auto simp: int16_def)

lemma abs_mult_bound: "\<bar>x\<bar> \<le> m \<Longrightarrow> \<bar>y\<bar> \<le> n \<Longrightarrow> \<bar>x * y\<bar> \<le> m * (n :: int)"
  by (simp add: abs_mult mult_mono)

lemma div_range: "\<bar>x\<bar> \<le> k * n \<Longrightarrow> 0 < n \<Longrightarrow> \<bar>x div n\<bar> \<le> (k :: int)"
proof -
  assume x: "\<bar>x\<bar> \<le> k * n" and n: "0 < n"
  have "(- k) * n div n \<le> x div n" "x div n \<le> k * n div n" using x by (intro zdiv_mono1 [OF _ n]; simp)+
  moreover have "(- k) * n div n = - k" "k * n div n = k" using n by (simp_all only: nonzero_mult_div_cancel_right less_irrefl)
  ultimately show ?thesis by (simp add: abs_le_iff)
qed

lemma sample_in_range:
  assumes "int16 s0" and "0 \<le> env" "env \<le> 0x40000000" and "\<bar>vol\<bar> \<le> 65535"
    and "s = (s0 * (env div 2 ^ 18)) div 2 ^ 12"
  shows "int32 (s0 * (env div 2 ^ 18))" "\<bar>s\<bar> \<le> 32768" "int32 (s * vol)" "\<bar>(s * vol) div 2 ^ 12\<bar> \<le> 2 ^ 19"
proof -
  have "\<bar>env div 2 ^ 18\<bar> \<le> 4096" using assms(2,3) by (intro div_range) simp_all
  then have p: "\<bar>s0 * (env div 2 ^ 18)\<bar> \<le> 32768 * 4096" using int16_abs [OF assms(1)] by (rule abs_mult_bound [rotated])
  then show "int32 (s0 * (env div 2 ^ 18))" by (simp add: int32_def abs_le_iff)
  show s: "\<bar>s\<bar> \<le> 32768" unfolding assms(5) using p by (intro div_range) simp_all
  have v: "\<bar>s * vol\<bar> \<le> 32768 * 65535" by (rule abs_mult_bound [OF s assms(4)])
  then show "int32 (s * vol)" by (simp add: int32_def abs_le_iff)
  show "\<bar>(s * vol) div 2 ^ 12\<bar> \<le> 2 ^ 19" using v by (intro div_range) simp_all
qed

text \<open>The prediction of the decoder, for the filters the source lets through.\<close>

lemma filter_in_range:
  assumes "int16 h1" "int16 h2" "filt \<le> 4" "int16 s"
  shows "int32 (VAG_F0 ! filt * h1)" "int32 (VAG_F1 ! filt * h2)" "int32 (VAG_F0 ! filt * h1 + VAG_F1 ! filt * h2)"
    "int32 (s + (VAG_F0 ! filt * h1 + VAG_F1 ! filt * h2) div 64)"
proof -
  have "filt = 0 \<or> filt = 1 \<or> filt = 2 \<or> filt = 3 \<or> filt = 4" using assms(3) by linarith
  then have f: "\<bar>VAG_F0 ! filt\<bar> \<le> 122" "\<bar>VAG_F1 ! filt\<bar> \<le> 60" by (auto simp: VAG_F0_def VAG_F1_def)
  have p: "\<bar>VAG_F0 ! filt * h1\<bar> \<le> 122 * 32768" "\<bar>VAG_F1 ! filt * h2\<bar> \<le> 60 * 32768"
    by (rule abs_mult_bound [OF f(1) int16_abs [OF assms(1)]], rule abs_mult_bound [OF f(2) int16_abs [OF assms(2)]])
  then have q: "\<bar>VAG_F0 ! filt * h1 + VAG_F1 ! filt * h2\<bar> \<le> 93184 * 64" by (simp add: abs_le_iff)
  show "int32 (VAG_F0 ! filt * h1)" "int32 (VAG_F1 ! filt * h2)" "int32 (VAG_F0 ! filt * h1 + VAG_F1 ! filt * h2)"
    using p q by (simp_all add: int32_def abs_le_iff)
  have "\<bar>(VAG_F0 ! filt * h1 + VAG_F1 ! filt * h2) div 64\<bar> \<le> 93184" using q by (rule div_range) simp
  then show "int32 (s + (VAG_F0 ! filt * h1 + VAG_F1 ! filt * h2) div 64)"
    using int16_abs [OF assms(4)] by (simp add: int32_def abs_le_iff)
qed

section \<open>The mix\<close>

text \<open>Decoding and resampling leave the envelope and the volumes alone.\<close>

definition controls :: "sas_voice \<Rightarrow> int list" where
  "controls v = [sv_env v, sv_attack v, sv_decay v, sv_sustain v, sv_release v, sv_vol_l v, sv_vol_r v]"

lemma controls_rates: "controls v1 = controls v \<Longrightarrow> rates_ok v1 = rates_ok v"
  by (simp add: controls_def rates_ok_def)

lemma controls_upd [simp]:
  "controls (v\<lparr>sv_pos := p\<rparr>) = controls v" "controls (v\<lparr>sv_loop_pos := p\<rparr>) = controls v"
  "controls (v\<lparr>sv_end_pending := b\<rparr>) = controls v" "controls (v\<lparr>sv_valid := b\<rparr>) = controls v"
  "controls (v\<lparr>sv_idx := i\<rparr>) = controls v" "controls (v\<lparr>sv_frac := f\<rparr>) = controls v"
  "controls (v\<lparr>sv_playing := b\<rparr>) = controls v" "controls (v\<lparr>sv_ended := b\<rparr>) = controls v"
  by (simp_all add: controls_def)

lemma decode_fold_controls: "fold (decode_sample at shift filt) xs (v, M) = (v1, N) \<Longrightarrow> controls v1 = controls v"
proof (induction xs arbitrary: v M)
  case (Cons i xs)
  obtain w K where k: "decode_sample at shift filt i (v, M) = (w, K)" by fastforce
  then have "controls w = controls v" by (auto simp: decode_sample_def Let_def controls_def split: prod.splits)
  then show ?case using Cons k by simp
qed simp

lemma decode_block_controls: "decode_block v M = (ok, v1, N) \<Longrightarrow> controls v1 = controls v"
  by (auto simp: decode_block_def Let_def simp del: upt_rec_numeral fold_simps split: if_splits prod.splits
      dest!: decode_fold_controls)

lemma next_block_controls: "next_block v M = (ok, v1, N) \<Longrightarrow> controls v1 = controls v"
  by (auto simp: next_block_def split: if_splits prod.splits dest!: decode_block_controls)

lemma advance_controls: "advance v M = (v1, N) \<Longrightarrow> controls v1 = controls v"
proof (induction v M rule: advance.induct)
  case (1 v M)
  let ?v = "v\<lparr>sv_frac := sv_frac v - 0x1000, sv_idx := sv_idx v + 1\<rparr>"
  consider "sv_frac v < 0x1000" | "\<not> sv_frac v < 0x1000" "sv_idx ?v < 28" | "\<not> sv_frac v < 0x1000" "\<not> sv_idx ?v < 28"
    by blast
  then show ?case
  proof cases
    case 1
    then show ?thesis using "1.prems" by (simp add: advance.simps [of v])
  next
    case 2
    with "1.prems" have "advance ?v M = (v1, N)" by (simp add: advance.simps [of v M] Let_def)
    from "1.IH"(1) [OF 2(1) refl 2(2) this] show ?thesis by simp
  next
    case 3
    obtain k w K where d: "next_block ?v M = (k, w, K)" by (rule prod_cases3)
    have "if k then advance w K = (v1, N) else v1 = w" using 3 d "1.prems" by (simp add: advance.simps [of v M] Let_def split: if_splits)
    then show ?thesis
      using "1.IH"(2) [OF 3(1) refl 3(2) d [symmetric] refl] next_block_controls [OF d] by (auto split: if_splits)
  qed
qed

lemma play_sample_in_range:
  assumes "play_sample v M = (v1, N, l, r)" and "voice_ok v" and "rates_ok v"
  shows "rates_ok v1 \<and> \<bar>l\<bar> \<le> 2 ^ 19 \<and> \<bar>r\<bar> \<le> 2 ^ 19"
proof -
  let ?need = "\<not> sv_valid v \<or> sv_idx v \<ge> 28"
  obtain ok w K where d: "(if ?need then next_block v M else (True, v, M)) = (ok, w, K)" by (rule prod_cases3)
  obtain e u where e: "step_envelope w = (e, u)" by fastforce
  obtain x X where a: "advance (u\<lparr>sv_frac := sv_frac u + sv_pitch u\<rparr>) K = (x, X)" by fastforce
  have w: "rates_ok w" using d assms(3) next_block_controls [of v M ok w K] by (auto dest: controls_rates split: if_splits)
  have "samples_ok w \<and> sv_idx w < 28"
    using d assms(2) next_block_ok [of v M ok w K] by (auto simp: voice_ok_def split: if_splits)
  then have s0: "int16 (sv_decoded w ! sv_idx w)" by (auto simp: samples_ok_def)
  note env = envelope_in_range [OF w e]
  have vol: "\<bar>sv_vol_l u\<bar> \<le> 65535" "\<bar>sv_vol_r u\<bar> \<le> 65535" using env(5) by (simp_all add: rates_ok_def)
  have "rates_ok x" using advance_controls [OF a] env(5) by (auto dest: controls_rates)
  moreover note sample_in_range(4) [OF s0 conjunct1 [OF env(4)] conjunct2 [OF env(4)] vol(1) refl]
    sample_in_range(4) [OF s0 conjunct1 [OF env(4)] conjunct2 [OF env(4)] vol(2) refl]
  ultimately show ?thesis
    using assms(1) w unfolding play_sample_def d Let_def prod.case e a by (cases ok) auto
qed

lemma voice_loop_in_range:
  assumes "voice_loop is (v, M) mix = (v1, N, mix1)" and "voice_ok v" "rates_ok v"
    and "distinct is" "\<forall>i\<in>set is. i < n" "length (fst mix) = n" "length (snd mix) = n"
  shows "\<forall>k<n. (if k \<in> set is then \<bar>fst mix1 ! k - fst mix ! k\<bar> \<le> 2 ^ 19 \<and> \<bar>snd mix1 ! k - snd mix ! k\<bar> \<le> 2 ^ 19
    else fst mix1 ! k = fst mix ! k \<and> snd mix1 ! k = snd mix ! k)"
  using assms
proof (induction "is" arbitrary: v M mix)
  case (Cons i "is")
  obtain w K l r where p: "play_sample v M = (w, K, l, r)" by (metis prod_cases4)
  note b = play_sample_in_range [OF p Cons.prems(2,3)]
  let ?m = "((fst mix)[i := fst mix ! i + l], (snd mix)[i := snd mix ! i + r])"
  show ?case
  proof (cases "sv_playing w")
    case True
    with Cons.prems(1) p have "voice_loop is (w, K) ?m = (v1, N, mix1)" by simp
    from Cons.IH [OF this play_sample_ok [OF p Cons.prems(2)]] b Cons.prems(4-7) show ?thesis
      by (auto simp: nth_list_update split: if_splits)
  next
    case False
    then show ?thesis using Cons.prems p b by (auto simp: nth_list_update)
  qed
qed simp

lemma solo_in_range:
  assumes "voice_ok v" "rates_ok v" "k < n"
  shows "\<bar>fst (snd (solo n v M)) ! k\<bar> \<le> 2 ^ 19" "\<bar>snd (snd (solo n v M)) ! k\<bar> \<le> 2 ^ 19"
proof -
  let ?z = "(replicate n 0 :: int list, replicate n 0 :: int list)"
  obtain v1 N mix where r: "voice_loop [0..<n] (v, M) ?z = (v1, N, mix)" by (rule prod_cases3)
  from voice_loop_in_range [OF r assms(1,2), of n] assms(3)
  have "\<bar>fst mix ! k\<bar> \<le> 2 ^ 19 \<and> \<bar>snd mix ! k\<bar> \<le> 2 ^ 19" by auto
  then show "\<bar>fst (snd (solo n v M)) ! k\<bar> \<le> 2 ^ 19" "\<bar>snd (snd (solo n v M)) ! k\<bar> \<le> 2 ^ 19"
    using assms(3) by (simp_all add: solo_def r)
qed

lemma sum_in_range:
  fixes f :: "nat \<Rightarrow> int"
  shows "(\<And>j. j < m \<Longrightarrow> \<bar>f j\<bar> \<le> b) \<Longrightarrow> \<bar>\<Sum>j<m. f j\<bar> \<le> int m * b"
proof (induction m)
  case (Suc m)
  then have "\<bar>\<Sum>j<m. f j\<bar> \<le> int m * b" "\<bar>f m\<bar> \<le> b" by simp_all
  then have "\<bar>(\<Sum>j<m. f j) + f m\<bar> \<le> int m * b + b" by linarith
  then show ?case by (simp add: distrib_right)
qed simp

text \<open>After any number of voices every element of the mix is in range, and so is each partial sum.\<close>

lemma mix_in_range:
  assumes "sas_ok A" and "\<forall>v\<in>set (sas_voices A). rates_ok v" and "m \<le> sas_max_voices A" and "k < n"
    and "fold (render_voice n) [0..<m] (sas_voices A, M, replicate n 0, replicate n 0) = (vs, N, l, r)"
  shows "int32 (l ! k) \<and> int32 (r ! k)"
proof -
  have m: "m \<le> length (sas_voices A)" "m \<le> 32" using assms(1,3) by (simp_all add: sas_ok_def)
  have v: "voice_ok (sas_voices A ! j)" "rates_ok (sas_voices A ! j)" if "j < m" for j
    using that m assms(1,2) by (simp_all add: sas_ok_def)
  have s: "l ! k = (\<Sum>j<m. fst (snd (solo n (sas_voices A ! j) M)) ! k)"
    "r ! k = (\<Sum>j<m. snd (snd (solo n (sas_voices A ! j) M)) ! k)"
    using render_fold [OF m(1), of n M] assms(4,5) by auto
  have "\<bar>l ! k\<bar> \<le> int m * 2 ^ 19" "\<bar>r ! k\<bar> \<le> int m * 2 ^ 19"
    unfolding s using solo_in_range [OF v assms(4)] by (auto intro!: sum_in_range)
  moreover have "int m * 2 ^ 19 \<le> 16777216" using m(2) by simp
  ultimately show ?thesis unfolding int32_def by (simp only: abs_le_iff) (intro conjI; linarith)
qed

section \<open>Values the calls accept\<close>

text \<open>A negative release rate raises the envelope past the end of the type.\<close>

lemma release_overflows:
  "\<exists>v :: sas_voice. 0 \<le> sv_env v \<and> sv_env v \<le> 0x40000000 \<and> int32 (sv_release v) \<and> \<not> int32 (sv_env v - sv_release v)"
  by (rule exI [of _ "reset_voice\<lparr>sv_env := 0x40000000, sv_release := -2147483648\<rparr>"]) (simp add: int32_def)

lemma volume_overflows: "int16 s \<Longrightarrow> \<bar>s\<bar> \<ge> 2 \<Longrightarrow> \<not> int32 (s * (-2147483648))"
  by (auto simp: int32_def int16_def abs_le_iff abs_if split: if_splits)

end
