(* ===== verification/Spec2Isabelle.thy ===== *)
theory Spec2Isabelle
  imports Mem Runtime Disasm Dispatch Hle Sysmem Sha1 Kirk Analyze Container SpTrace TmProps Vfpu Ge SasRange
begin

text \<open>
  A verification library for psprecomp, a static recompiler for PSP executables and the runtime its
  output links with.

  \<^bold>\<open>The program.\<close> The tool (\<^verbatim>\<open>tools/allegrexrecomp\<close>) peels the container of a game file
  (\<^verbatim>\<open>container.c\<close>), decrypts it (\<^verbatim>\<open>crypto/\<close>), finds the functions in its code (\<^verbatim>\<open>analyze.c\<close> over
  \<^verbatim>\<open>decode.c\<close>) and writes them out as C (\<^verbatim>\<open>emit.c\<close>). That C runs on the runtime (\<^verbatim>\<open>src/\<close>,
  \<^verbatim>\<open>include/psprecomp\<close>): guest memory (\<^verbatim>\<open>mem.c\<close>), the semantics of single instructions
  (\<^verbatim>\<open>recomp_rt.h\<close>), a table from guest addresses to functions (\<^verbatim>\<open>dispatch.c\<close>) and the firmware calls
  (\<^verbatim>\<open>src/hle\<close>).

  \<^bold>\<open>The theories.\<close>
  \<^item> \<open>Prelude\<close>: machine integer types, little-endian encoding, linear search over fixed tables.
  \<^item> \<open>Machine\<close>: the CPU state of \<^verbatim>\<open>cpu.h\<close> and \<^verbatim>\<open>cpu.c\<close>, the trap counters of \<^verbatim>\<open>traps.c\<close>, the entry trace
    of \<^verbatim>\<open>dispatch.c\<close> and the record \<open>psp_machine\<close> the runtime's handlers run on.
  \<^item> \<open>Mem\<close>: \<^verbatim>\<open>mem.c\<close>. Guest memory is a function from host blocks and offsets to bytes;
    \<open>psp_mem_ptr\<close> resolves a guest address; the typed accessors keep the watch counters.
  \<^item> \<open>Runtime\<close>: \<^verbatim>\<open>recomp_rt.h\<close>, one definition per helper, on 32-bit words.
  \<^item> \<open>Float32\<close>: binary32 arithmetic on bit patterns, rounding to nearest even, with its exactness
    lemmas, and \<^verbatim>\<open>psp_fsqrt\<close>. Every NaN a computation yields is one quiet NaN. The functions of the C
    mathematics library are an argument, the record \<open>libm\<close>.
  \<^item> \<open>Vfpu\<close>: \<^verbatim>\<open>vfpu.c\<close>: register addressing, prefixes, every vector and matrix operation.
  \<^item> \<open>Render\<close>: \<^verbatim>\<open>render.c\<close>: colours, textures, the pixel pipeline and the triangle and sprite loops of
    the software backend, and the null backend.
  \<^item> \<open>Ge\<close>: \<^verbatim>\<open>hle/ge.c\<close>: the state the commands set, vertices with transformation and lighting, the
    walk of a display list, and the calls that queue lists.
  \<^item> \<open>Sas\<close>: \<^verbatim>\<open>hle/sascore.c\<close>: the voices, their decoding, envelopes and resampling, the mix, the calls.
    \<open>SasRange\<close>: the rates and volumes for which its arithmetic stays inside 32 bits.
  \<^item> \<open>Opcodes\<close>, \<open>Decode\<close>, \<open>Disasm\<close>: \<^verbatim>\<open>decode.h\<close> and \<^verbatim>\<open>decode.c\<close>: the operation table, every
    sub-decoder, and the disassembler over a model of the \<^verbatim>\<open>snprintf\<close> conversions it uses.
  \<^item> \<open>FnTable\<close>, \<open>Dispatch\<close>: \<^verbatim>\<open>dispatch.c\<close>. The open-addressed table with its rehash, behind the
    locales \<open>reg_table\<close> and \<open>fn_table\<close>; dispatched calls, the call budget, and the frame chain that
    tells a return from an unwind, with the two macros of \<^verbatim>\<open>emit.c\<close> that build it. \<open>SpTrace\<close>: the loop,
    label and stack-balance diagnostics of the same file.
  \<^item> \<open>Hle\<close>, \<open>Sysmem\<close>: \<^verbatim>\<open>hle/hle.c\<close> and \<^verbatim>\<open>hle/sysmem.c\<close>: the registry of firmware calls (an instance of
    \<open>reg_table\<close>), the rings of recent calls (instances of the locale \<open>ring_log\<close>), and the user-memory
    allocator with its calls.
  \<^item> \<open>Kernel\<close>, \<open>Intrman\<close>, \<open>Threadman\<close>: \<^verbatim>\<open>hle/intrman.c\<close> and \<^verbatim>\<open>hle/threadman.c\<close> as the default build
    compiles them, with a started thread run to its end on the caller's stack. A handler returns a
    \<open>flow\<close>: it is done, it unwinds because its thread exited or was restarted, or the guest code it
    called does not return. Guest code is an argument \<open>run\<close> of the handlers, and the type \<open>syscall\<close>
    and its interpreter \<open>tm_call\<close> name what guest code may ask of them. \<open>TmInv\<close> and \<open>TmProps\<close> hold the
    invariant of the kernel's tables and the theorems about the calls, \<open>TmQuiet\<close> what guest code cannot do
    while an interrupt is marked as being delivered.
  \<^item> \<open>Sha1\<close>, \<open>Aes\<close>, \<open>Kirk\<close>: \<^verbatim>\<open>crypto/sha1.c\<close>, \<^verbatim>\<open>aes.c\<close>, \<^verbatim>\<open>cmac.c\<close>, \<^verbatim>\<open>kirk.c\<close>.
  \<^item> \<open>Container\<close>: \<^verbatim>\<open>container.c\<close> over checked reads, so that an out-of-bounds read is a value.
  \<^item> \<open>Analyze\<close>: \<^verbatim>\<open>analyze.c\<close>: the walk of a function, jump tables, the harvests and the rounds.

  \<^bold>\<open>What the lemmas show.\<close> Memory: a resolved pointer has room for the access, writes read back, nothing
  else changes, and bad accesses are counted. Instructions: unaligned loads and stores, division,
  multiply-accumulate, bit fields, bit reversal, leading zeros, float comparison. Decoding: flags,
  targets and field ranges of every 32-bit word. Dispatch: registration refines a finite map through
  every rehash, lookups end, frames unwind as the call chain says, the budget fires once. Firmware:
  the last registration answers, the reports are ordered, allocation is first fit and keeps blocks
  disjoint. Threads: the five object tables satisfy one contract (the locale \<open>obj_table\<close>), every
  execution of guest code over the calls keeps the kernel's invariant, semaphores refine bounded
  counters and event flags refine bit patterns, a pool block that is freed can be taken again, starting
  a thread or delivering an interrupt or a callback gives the interrupted code its registers back.
  Cryptography: SHA-1 equals an independent transcription of FIPS 180-4 and CMAC its reference definition, AES decryption undoes
  encryption through a search that finds every inverse of GF(2^8), a KIRK blob that is built is
  accepted, and a blob is decrypted exactly when both its MACs are right. Graphics: vector operations read their
  operands before they write and matrix copies survive any overlap, conversions and packing invert
  each other, a draw changes nothing but pixels and depth words inside the scissor rectangle, sprites
  tile while triangles share their edges, the bytes of a texture have distinct places, vertex components are
  aligned and disjoint, and a display list read in parts does what it does when read whole, except
  when the parts meet inside a called sub-list. Sound: a mix is the sum of what its voices play alone,
  values stay in their types, a one-shot sound ends. Containers: no read of the parsers listed in
  \<open>container_reads_in_bounds\<close> leaves the buffer of a file below 4 GiB, the import walk ends. Discovery: it
  ends unless the scan size is within four bytes of 2^32, partitions the code it reaches, and loses no known entry.

  \<^bold>\<open>Fuel.\<close> Loops whose end is an argument and not syntax run with fuel, and a lemma shows that the fuel
  given is enough: the probe of the dispatch table with its capacity (\<open>FnTable\<close>), the placement loops
  with the number of blocks and one more (\<open>Sysmem\<close>), a walk with three units per word and the queue
  with two (\<open>Analyze\<close>), the import walk with a twentieth of the file and the relocation walk with an eighth
  (\<open>Container\<close>). The linear scans of discovery have no fuel: they are partial functions, with \<open>None\<close> for a
  loop that does not end. The export walk has no
  such bound, which is a theorem. A display list runs with the budget of the source, 2^22 commands.
  Guest code is executed by \<open>exec\<close> with a nesting depth and a number of
  steps; running out of either is the value \<open>Diverged\<close>, and the invariant holds of every state reached
  under any choice of the two.

  \<^bold>\<open>Not modelled.\<close> The build of the thread manager with one host thread for each guest thread and
  the dump of its tables, the remaining firmware components (\<^verbatim>\<open>display.c\<close>, \<^verbatim>\<open>power.c\<close>,
  \<^verbatim>\<open>misc.c\<close>, \<^verbatim>\<open>iofilemgr.c\<close>), \<^verbatim>\<open>ctors.c\<close>, \<^verbatim>\<open>module.c\<close>, \<^verbatim>\<open>keys.c\<close>, the ISO walk of
  \<^verbatim>\<open>container.c\<close>, the emitter and the command line; \<^verbatim>\<open>window.c\<close> is host I/O. In modelled files:
  \<^verbatim>\<open>sceKernelPrintf\<close>, and the statistics \<^verbatim>\<open>ge.c\<close> prints.
\<close>

end
